(* ===== verification/Prelude.thy ===== *)
theory Prelude
  imports Main "HOL-Library.Signed_Division" "HOL-Library.Word"
begin

unbundle bit_operations_syntax

text \<open>
  The part every component shares: the C integer types, the shifts and the
  division of the fixed-point code, array copies, and the lemma collections.

  A C integer is an \<open>int\<close>. A conversion to a narrower or differently signed
  type is one of \<open>i16\<close>, \<open>i32\<close>, \<open>u16\<close>, \<open>u32\<close>, with the wrap-around written out
  (two's complement, as every compiler the code is built with does; the code
  itself relies on it, e.g. in \<open>WebRtcSpl_AddSatW32\<close>). Sums and products of C are
  wrapped once, where the expression is stored, shifted, divided or compared:
  wrapping is a ring homomorphism, so this is the value the machine computes.
  Arrays are lists: \<open>xs ! i\<close> reads, \<open>xs[i := v]\<close> writes, \<open>mem_copy\<close> is
  \<open>memcpy\<close>/\<open>memmove\<close> into a position.
\<close>

named_theorems cint \<open>values and bounds of the C integer conversions\<close>
named_theorems shape \<open>lengths of arrays after an operation\<close>

section \<open>C integers\<close>

type_synonym samples = "int list"

definition i16 :: "int \<Rightarrow> int" where
  "i16 x = (x + 32768) mod 65536 - 32768"

definition i32 :: "int \<Rightarrow> int" where
  "i32 x = (x + 2147483648) mod 4294967296 - 2147483648"

definition u16 :: "int \<Rightarrow> int" where
  "u16 x = x mod 65536"

definition u32 :: "int \<Rightarrow> int" where
  "u32 x = x mod 4294967296"

definition in_i16 :: "int \<Rightarrow> bool" where
  "in_i16 x \<longleftrightarrow> - 32768 \<le> x \<and> x \<le> 32767"

definition in_i32 :: "int \<Rightarrow> bool" where
  "in_i32 x \<longleftrightarrow> - 2147483648 \<le> x \<and> x \<le> 2147483647"

definition in_u16 :: "int \<Rightarrow> bool" where
  "in_u16 x \<longleftrightarrow> 0 \<le> x \<and> x \<le> 65535"

definition in_u32 :: "int \<Rightarrow> bool" where
  "in_u32 x \<longleftrightarrow> 0 \<le> x \<and> x \<le> 4294967295"

text \<open>
  Shifts. \<open>shr\<close> is \<open>>>\<close> on a signed (arithmetic) or unsigned (logical) value of
  either width, since the value is not wrapped by it; \<open>shl32\<close> is \<open><<\<close> on \<open>int32_t\<close>
  and \<open>int\<close>, \<open>shlu32\<close> on \<open>uint32_t\<close>. A shift count is an \<open>int\<close>; a negative one
  counts as 0 here, and no definition below is used with one where the C code
  would be undefined unless its text says so.
\<close>

definition shr :: "int \<Rightarrow> int \<Rightarrow> int" where
  "shr x n = x div 2 ^ nat n"

definition shl32 :: "int \<Rightarrow> int \<Rightarrow> int" where
  "shl32 x n = i32 (x * 2 ^ nat n)"

definition shlu32 :: "int \<Rightarrow> int \<Rightarrow> int" where
  "shlu32 x n = u32 (x * 2 ^ nat n)"

text \<open>The value of a C condition used as an \<open>int\<close>.\<close>

definition c_bool :: "bool \<Rightarrow> int" where
  "c_bool b = (if b then 1 else 0)"

lemma in_i16_i16 [cint, simp]: "in_i16 (i16 x)"
  by (simp add: in_i16_def i16_def)

lemma in_i32_i32 [cint, simp]: "in_i32 (i32 x)"
  by (simp add: in_i32_def i32_def)

lemma in_u16_u16 [cint, simp]: "in_u16 (u16 x)"
  by (simp add: in_u16_def u16_def)

lemma in_u32_u32 [cint, simp]: "in_u32 (u32 x)"
  by (simp add: in_u32_def u32_def)

lemma i16_id [cint]: "in_i16 x \<Longrightarrow> i16 x = x"
  by (simp add: in_i16_def i16_def)

lemma i32_id [cint]: "in_i32 x \<Longrightarrow> i32 x = x"
  by (simp add: in_i32_def i32_def)

lemma u16_id [cint]: "in_u16 x \<Longrightarrow> u16 x = x"
  by (simp add: in_u16_def u16_def)

lemma u32_id [cint]: "in_u32 x \<Longrightarrow> u32 x = x"
  by (simp add: in_u32_def u32_def)

lemma i32_id_nonneg: "0 \<le> x \<Longrightarrow> x \<le> 2147483647 \<Longrightarrow> i32 x = x"
  by (simp add: i32_id in_i32_def)

lemma i16_bounds: "- 32768 \<le> i16 x" "i16 x \<le> 32767"
  using in_i16_i16 [of x] by (simp_all add: in_i16_def)

lemma i32_bounds: "- 2147483648 \<le> i32 x" "i32 x \<le> 2147483647"
  using in_i32_i32 [of x] by (simp_all add: in_i32_def)

lemma u32_bounds: "0 \<le> u32 x" "u32 x \<le> 4294967295"
  using in_u32_u32 [of x] by (simp_all add: in_u32_def)

lemma u16_bounds: "0 \<le> u16 x" "u16 x \<le> 65535"
  using in_u16_u16 [of x] by (simp_all add: in_u16_def)

lemma in_i16_i32: "in_i16 x \<Longrightarrow> in_i32 x"
  by (simp add: in_i16_def in_i32_def)

lemma in_i16_abs: "in_i16 x \<Longrightarrow> \<bar>x\<bar> \<le> 32768"
  by (simp add: in_i16_def abs_le_iff)

lemma i16_mult_bound: "in_i16 x \<Longrightarrow> in_i16 y \<Longrightarrow> \<bar>x * y\<bar> \<le> 1073741824"
  using mult_mono [of "\<bar>x\<bar>" 32768 "\<bar>y\<bar>" 32768] in_i16_abs [of x] in_i16_abs [of y]
  by (simp add: abs_mult)

lemma i32_mult_i16 [cint]: "in_i16 x \<Longrightarrow> in_i16 y \<Longrightarrow> i32 (x * y) = x * y"
  using i16_mult_bound [of x y] by (intro i32_id) (simp add: in_i32_def abs_le_iff)

text \<open>Wrapping commutes with sums and products: the reason one wrap per expression is enough.\<close>

lemma i32_cong: "x mod 4294967296 = y mod 4294967296 \<Longrightarrow> i32 x = i32 y"
proof -
  assume "x mod 4294967296 = y mod 4294967296"
  then have "(x + 2147483648) mod 4294967296 = (y + 2147483648) mod 4294967296"
    by (rule mod_add_cong) simp
  then show ?thesis by (simp add: i32_def)
qed

lemma i32_mod [simp]: "i32 x mod 4294967296 = x mod 4294967296"
  by (simp add: i32_def mod_simps)

lemma i32_add_i32: "i32 (i32 x + y) = i32 (x + y)"
  by (rule i32_cong) (metis i32_mod mod_add_left_eq)

lemma i32_diff_i32: "i32 (x - i32 y) = i32 (x - y)"
  by (rule i32_cong) (metis i32_mod mod_diff_right_eq)

lemma i32_mult_i32: "i32 (i32 x * y) = i32 (x * y)"
  by (rule i32_cong) (metis i32_mod mod_mult_left_eq)

lemma i32_i32 [simp]: "i32 (i32 x) = i32 x"
  by (rule i32_cong) simp

lemma i16_i16 [simp]: "i16 (i16 x) = i16 x"
  by (simp add: i16_id)

lemma i32_offset: "\<exists>k. i32 x = x + 4294967296 * k"
proof
  show "i32 x = x + 4294967296 * - ((x + 2147483648) div 4294967296)"
    using minus_mult_div_eq_mod [of "x + 2147483648" 4294967296] by (simp add: i32_def)
qed

lemma i16_i32 [simp]: "i16 (i32 x) = i16 x"
proof -
  obtain k where k: "i32 x = x + 4294967296 * k"
    using i32_offset by blast
  have "(x + 4294967296 * k + 32768) mod 65536 = (x + 32768 + 65536 * (65536 * k)) mod 65536"
    by (simp add: algebra_simps)
  also have "\<dots> = (x + 32768) mod 65536" by (rule mod_mult_self2)
  finally show ?thesis by (simp add: i16_def k)
qed

lemma shr_0 [simp]: "shr x 0 = x"
  by (simp add: shr_def)

lemma shr_nonneg: "0 \<le> x \<Longrightarrow> 0 \<le> shr x n"
  by (simp add: shr_def pos_imp_zdiv_nonneg_iff)

lemma shr_le: "0 \<le> x \<Longrightarrow> shr x n \<le> x"
proof -
  assume "0 \<le> x"
  then have "x div 2 ^ nat n \<le> x div 1"
    by (intro zdiv_mono2) auto
  then show ?thesis by (simp add: shr_def)
qed

lemma shr_mono: "x \<le> y \<Longrightarrow> shr x n \<le> shr y n"
  by (simp add: shr_def zdiv_mono1)

lemma shr_neg_ge: "x < 0 \<Longrightarrow> x \<le> shr x n \<and> shr x n < 0"
proof
  assume "x < 0"
  show "x \<le> shr x n"
  proof -
    have "x * 2 ^ nat n \<le> x * 1"
      using \<open>x < 0\<close> by (intro mult_left_mono_neg) auto
    then have "x * 2 ^ nat n div 2 ^ nat n \<le> x div 2 ^ nat n"
      by (intro zdiv_mono1) auto
    then show ?thesis by (simp add: shr_def)
  qed
  show "shr x n < 0"
    using \<open>x < 0\<close> by (simp add: shr_def div_neg_pos_less0)
qed

lemma shr_multiple: "shr (x * 2 ^ n) (int n) = x"
  by (simp add: shr_def)

lemma div_less_mult:
  fixes x :: int
  assumes "0 < d" and "x < d * m"
  shows "x div d < m"
proof (rule ccontr)
  assume "\<not> x div d < m"
  then have "d * m \<le> d * (x div d)" using assms(1) by simp
  moreover have "d * (x div d) + x mod d = x" by (rule mult_div_mod_eq)
  moreover have "0 \<le> x mod d" using assms(1) by simp
  ultimately show False using assms(2) by linarith
qed

lemma div_pow_less:
  fixes x :: int
  assumes "x < 2 ^ (k + m)"
  shows "x div 2 ^ k < 2 ^ m"
  using assms by (intro div_less_mult) (simp_all add: power_add)

lemma in_i16_shr: "in_i16 x \<Longrightarrow> in_i16 (shr x n)"
  using shr_nonneg [of x n] shr_le [of x n] shr_neg_ge [of x n]
  by (cases "x < 0") (auto simp: in_i16_def)

lemma in_i32_shr: "in_i32 x \<Longrightarrow> in_i32 (shr x n)"
  using shr_nonneg [of x n] shr_le [of x n] shr_neg_ge [of x n]
  by (cases "x < 0") (auto simp: in_i32_def)

section \<open>Arrays\<close>

text \<open>
  \<open>mem_copy dst pos src\<close> writes \<open>src\<close> into \<open>dst\<close> from position \<open>pos\<close> on: a
  \<open>memcpy\<close> or \<open>memmove\<close> of \<open>length src\<close> elements. \<open>mem_slice xs pos n\<close> is
  what such a copy reads from \<open>&xs[pos]\<close>.
\<close>

definition mem_slice :: "'a list \<Rightarrow> nat \<Rightarrow> nat \<Rightarrow> 'a list" where
  "mem_slice xs pos n = take n (drop pos xs)"

definition mem_copy :: "'a list \<Rightarrow> nat \<Rightarrow> 'a list \<Rightarrow> 'a list" where
  "mem_copy dst pos src = take pos dst @ src @ drop (pos + length src) dst"

lemma length_mem_slice [shape, simp]:
  "pos + n \<le> length xs \<Longrightarrow> length (mem_slice xs pos n) = n"
  by (simp add: mem_slice_def)

lemma length_mem_copy [shape, simp]:
  "pos + length src \<le> length dst \<Longrightarrow> length (mem_copy dst pos src) = length dst"
  by (simp add: mem_copy_def)

lemma mem_copy_nil [simp]: "mem_copy dst pos [] = dst"
  by (simp add: mem_copy_def)

lemma nth_mem_slice: "i < n \<Longrightarrow> pos + n \<le> length xs \<Longrightarrow> mem_slice xs pos n ! i = xs ! (pos + i)"
  by (simp add: mem_slice_def)

lemma nth_mem_copy:
  "pos + length src \<le> length dst \<Longrightarrow> i < length dst \<Longrightarrow>
   mem_copy dst pos src ! i =
     (if pos \<le> i \<and> i < pos + length src then src ! (i - pos) else dst ! i)"
  by (auto simp: mem_copy_def nth_append min_def)

lemma mem_slice_mem_copy [simp]:
  "pos + length src \<le> length dst \<Longrightarrow> mem_slice (mem_copy dst pos src) pos (length src) = src"
  by (rule nth_equalityI) (auto simp: nth_mem_slice nth_mem_copy)

lemma mem_slice_mem_copy_disjoint:
  "pos + length src \<le> length dst \<Longrightarrow> q + n \<le> length dst \<Longrightarrow>
   q + n \<le> pos \<or> pos + length src \<le> q \<Longrightarrow>
   mem_slice (mem_copy dst pos src) q n = mem_slice dst q n"
  by (rule nth_equalityI) (auto simp: nth_mem_slice nth_mem_copy)

lemma mem_slice_append:
  "mem_slice xs pos m @ mem_slice xs (pos + m) n = mem_slice xs pos (m + n)"
  by (simp add: mem_slice_def take_add add.commute)

lemma set_mem_slice: "set (mem_slice xs pos n) \<subseteq> set xs"
  using set_take_subset [of n "drop pos xs"] set_drop_subset [of pos xs]
  by (auto simp: mem_slice_def)

lemma set_mem_copy: "set (mem_copy dst pos src) \<subseteq> set dst \<union> set src"
  using set_take_subset [of pos dst] set_drop_subset [of "pos + length src" dst]
  by (auto simp: mem_copy_def)

text \<open>Shifting an array by one and inserting at the front: the \<open>memmove\<close> of every history.\<close>

definition push_front :: "'a \<Rightarrow> 'a list \<Rightarrow> 'a list" where
  "push_front x xs = x # butlast xs"

lemma length_push_front [shape, simp]: "xs \<noteq> [] \<Longrightarrow> length (push_front x xs) = length xs"
  by (simp add: push_front_def Suc_diff_Suc)

lemma nth_push_front:
  "i < length xs \<Longrightarrow> push_front x xs ! i = (if i = 0 then x else xs ! (i - 1))"
  by (auto simp: push_front_def nth_butlast nth_Cons split: nat.splits)

lemma set_push_front: "set (push_front x xs) \<subseteq> insert x (set xs)"
  by (auto simp: push_front_def dest: in_set_butlastD)

lemma list_all_update: "list_all P xs \<Longrightarrow> P x \<Longrightarrow> list_all P (xs[i := x])"
  using set_update_subset_insert [of xs i x] by (auto simp: list_all_iff)

section \<open>Stateful interfaces\<close>

text \<open>
  The contract of every stateful component: a step function on a state, an invariant its
  operations keep, an output each step gives, and what the output of a step from a good
  state satisfies. \<open>run\<close> is a session of calls.
\<close>

fun run :: "('s \<Rightarrow> 'e \<Rightarrow> 's \<times> 'o) \<Rightarrow> 's \<Rightarrow> 'e list \<Rightarrow> 's \<times> 'o list" where
  "run step s [] = (s, [])"
| "run step s (e # es) = (let (s', out) = step s e; (s'', outs) = run step s' es in (s'', out # outs))"

lemma run_append:
  "run step s (xs @ ys) =
     (let (s', us) = run step s xs; (s'', vs) = run step s' ys in (s'', us @ vs))"
  by (induction xs arbitrary: s) (auto simp: split_def Let_def)

lemma length_run_outputs [shape, simp]: "length (snd (run step s xs)) = length xs"
  by (induction xs arbitrary: s) (auto simp: split_def Let_def)

lemma run_cong_inv:
  assumes "P s" and "list_all Q es"
    and "\<And>s e. P s \<Longrightarrow> Q e \<Longrightarrow> f s e = g s e \<and> P (fst (g s e))"
  shows "run f s es = run g s es \<and> P (fst (run g s es))"
  using assms(1,2)
proof (induction es arbitrary: s)
  case (Cons e es)
  then show ?case using assms(3) [of s e] by (auto simp: split_def Let_def)
qed simp

lemma run_list_all:
  assumes "P s" and "list_all Q es"
    and "\<And>s e. P s \<Longrightarrow> Q e \<Longrightarrow> P (fst (f s e)) \<and> T (snd (f s e))"
  shows "list_all T (snd (run f s es))"
  using assms(1,2)
proof (induction es arbitrary: s)
  case (Cons e es)
  then show ?case using assms(3) [of s e] by (auto simp: split_def Let_def)
qed simp

lemma run_simulation:
  assumes "R s t" and "list_all Q es"
    and "\<And>s t e. R s t \<Longrightarrow> Q e \<Longrightarrow> R (fst (f s e)) (fst (g t e)) \<and> snd (f s e) = snd (g t e)"
  shows "R (fst (run f s es)) (fst (run g t es)) \<and> snd (run f s es) = snd (run g t es)"
  using assms(1,2)
proof (induction es arbitrary: s t)
  case (Cons e es)
  then show ?case using assms(3) [of s t e] by (auto simp: split_def Let_def)
qed simp

locale invariant_step =
  fixes step :: "'s \<Rightarrow> 'e \<Rightarrow> 's \<times> 'o" and inv :: "'s \<Rightarrow> bool"
    and pre :: "'e \<Rightarrow> bool" and post :: "'s \<Rightarrow> 'o \<Rightarrow> bool"
  assumes step_inv: "inv s \<Longrightarrow> pre e \<Longrightarrow> inv (fst (step s e))"
    and step_post: "inv s \<Longrightarrow> pre e \<Longrightarrow> post s (snd (step s e))"
begin

lemma run_inv: "inv s \<Longrightarrow> list_all pre es \<Longrightarrow> inv (fst (run step s es))"
  by (induction es arbitrary: s) (auto simp: split_def Let_def intro: step_inv)

lemma run_outputs:
  assumes "inv s" and "list_all pre es" and "i < length es"
  shows "post (fst (run step s (take i es))) (snd (run step s es) ! i)"
  using assms
proof (induction es arbitrary: s i)
  case (Cons e es)
  show ?case
  proof (cases i)
    case 0
    then show ?thesis using Cons.prems step_post [of s e] by (simp add: split_def Let_def)
  next
    case (Suc j)
    have "inv (fst (step s e))" using Cons.prems by (simp add: step_inv)
    from Cons.IH [OF this, of j] show ?thesis using Cons.prems Suc by (simp add: split_def Let_def)
  qed
qed simp

lemma length_run: "length (snd (run step s es)) = length es"
  by (induction es arbitrary: s) (auto simp: split_def Let_def)

end

text \<open>
  A filter called on one chunk of a signal after the other: its state is loaded from an array, the
  chunk is prepared, each element is a step, and the state is stored back. How the signal is cut into
  chunks does not matter.
\<close>

locale chunked_filter =
  fixes chunk :: "'a \<Rightarrow> 'x list \<Rightarrow> 'a \<times> 'y list"
    and step :: "'s \<Rightarrow> 'e \<Rightarrow> 's \<times> 'o" and load :: "'a \<Rightarrow> 's" and store :: "'a \<Rightarrow> 's \<Rightarrow> 'a"
    and prep :: "'x list \<Rightarrow> 'e list" and post :: "'o list \<Rightarrow> 'y list"
    and inv :: "'a \<Rightarrow> bool" and ok :: "'x list \<Rightarrow> bool"
  assumes chunk_eq: "chunk a xs = (let (s, out) = run step (load a) (prep xs) in (store a s, post out))"
    and load_store: "inv a \<Longrightarrow> load (store a s) = s"
    and store_inv: "inv a \<Longrightarrow> inv (store a s)"
    and store_store: "inv a \<Longrightarrow> store (store a s) s' = store a s'"
    and store_load: "inv a \<Longrightarrow> store a (load a) = a"
    and prep_append: "ok xs \<Longrightarrow> prep (xs @ ys) = prep xs @ prep ys" and prep_nil: "prep [] = []"
    and post_append: "post (us @ vs) = post us @ post vs" and post_nil: "post [] = []"
begin

lemma chunk_inv: "inv a \<Longrightarrow> inv (fst (chunk a xs))"
  by (simp add: chunk_eq split_def Let_def store_inv)

lemma chunks_concat:
  assumes "inv a" and "list_all ok xss"
  shows "fst (run chunk a xss) = fst (chunk a (concat xss)) \<and>
         concat (snd (run chunk a xss)) = snd (chunk a (concat xss))"
  using assms
proof (induction xss arbitrary: a)
  case (Cons xs xss)
  have "inv (fst (chunk a xs))" using Cons.prems by (simp add: chunk_inv)
  from Cons.IH [OF this] Cons.prems show ?case
    by (simp add: chunk_eq split_def Let_def prep_append run_append post_append load_store store_store)
qed (simp add: chunk_eq prep_nil post_nil store_load)

end

text \<open>
  A store of the most recent inputs: \<open>get s d\<close> is what \<open>d\<close> inputs ago was put, as far as the
  capacity reaches. Shift registers and rotating histories promise the same.
\<close>

locale recent_store =
  fixes put :: "'s \<Rightarrow> 'a \<Rightarrow> 's" and get :: "'s \<Rightarrow> nat \<Rightarrow> 'b" and view :: "'a \<Rightarrow> 'b"
    and inv :: "'s \<Rightarrow> bool" and ok :: "'a \<Rightarrow> bool" and cap :: nat
  assumes put_inv: "inv s \<Longrightarrow> ok x \<Longrightarrow> inv (put s x)"
    and get_newest: "inv s \<Longrightarrow> ok x \<Longrightarrow> get (put s x) 0 = view x"
    and get_older: "inv s \<Longrightarrow> ok x \<Longrightarrow> Suc d < cap \<Longrightarrow> get (put s x) (Suc d) = get s d"
begin

lemma puts_inv: "inv s \<Longrightarrow> list_all ok xs \<Longrightarrow> inv (foldl put s xs)"
  by (induction xs arbitrary: s) (auto intro: put_inv)

lemma get_puts:
  assumes "inv s" "list_all ok xs" "d < length xs" "d < cap"
  shows "get (foldl put s xs) d = view (rev xs ! d)"
  using assms
proof (induction xs arbitrary: d rule: rev_induct)
  case (snoc x xs)
  have i: "inv (foldl put s xs)" "ok x" using snoc.prems by (auto intro: puts_inv)
  show ?case
  proof (cases d)
    case 0
    then show ?thesis using i by (simp add: get_newest)
  next
    case (Suc e)
    then show ?thesis using snoc i by (simp add: get_older)
  qed
qed simp

end

end
