(* ===== verification/Ring_Buffer.thy ===== *)
theory Ring_Buffer
  imports Prelude
begin

text \<open>
  \<open>src/webrtc/common_audio/ring_buffer.c\<close>: the ring buffer between the sound
  card, the frames and the blocks of the echo canceller. The storage is a list of
  whole elements (\<open>memcpy\<close> moves \<open>element_size\<close> bytes of each, all together); a
  \<open>size_t\<close> is a \<open>nat\<close>, and \<open>rb_inv\<close> is what keeps the differences of positions
  from going below zero. A read returns the elements \<open>*data_ptr\<close> refers to,
  wherever they lie. The contract a client relies on is the locale
  \<open>bounded_fifo\<close>, interpreted below on these operations.
\<close>

section \<open>The data structure\<close>

datatype Wrap = SAME_WRAP | DIFF_WRAP

record 'a RingBuffer =
  read_pos :: nat
  write_pos :: nat
  element_count :: nat
  element_size :: nat
  rw_wrap :: Wrap
  data :: "'a list"

section \<open>Operations\<close>

text \<open>\<open>available_read\<close> and \<open>available_write\<close>: the bodies for a handle that is not \<open>NULL\<close>.\<close>

definition available_read :: "'a RingBuffer \<Rightarrow> nat" where
  "available_read self =
     (if rw_wrap self = SAME_WRAP then write_pos self - read_pos self
      else element_count self - read_pos self + write_pos self)"

definition available_write :: "'a RingBuffer \<Rightarrow> nat" where
  "available_write self = element_count self - available_read self"

definition WebRtc_available_read :: "'a RingBuffer option \<Rightarrow> nat" where
  "WebRtc_available_read h = (case h of None \<Rightarrow> 0 | Some self \<Rightarrow> available_read self)"

definition WebRtc_available_write :: "'a RingBuffer option \<Rightarrow> nat" where
  "WebRtc_available_write h = (case h of None \<Rightarrow> 0 | Some self \<Rightarrow> available_write self)"

text \<open>
  The read regions: offset and length of the first region, offset (if the read
  is not contiguous) and length of the second, and the number of elements.
\<close>

definition GetBufferReadRegions ::
    "'a RingBuffer \<Rightarrow> nat \<Rightarrow> (nat \<times> nat) \<times> (nat option \<times> nat) \<times> nat" where
  "GetBufferReadRegions buf cnt =
     (let readable_elements = available_read buf;
          read_elements = (if readable_elements < cnt then readable_elements else cnt);
          margin = element_count buf - read_pos buf
      in if read_elements > margin
         then ((read_pos buf, margin), (Some 0, read_elements - margin), read_elements)
         else ((read_pos buf, read_elements), (None, 0), read_elements))"

definition WebRtc_InitBuffer :: "'a::zero RingBuffer \<Rightarrow> 'a RingBuffer" where
  "WebRtc_InitBuffer self =
     self\<lparr>read_pos := 0, write_pos := 0, rw_wrap := SAME_WRAP,
          data := replicate (element_count self) 0\<rparr>"

text \<open>
  \<open>WebRtc_CreateBuffer\<close>: the two booleans say whether the two \<open>malloc\<close> calls
  return memory. What the fresh memory holds does not matter, as
  \<open>WebRtc_InitBuffer\<close> writes all of it.
\<close>

definition WebRtc_CreateBuffer :: "bool \<Rightarrow> bool \<Rightarrow> nat \<Rightarrow> nat \<Rightarrow> 'a::zero RingBuffer option" where
  "WebRtc_CreateBuffer malloc_self malloc_data cnt sz =
     (if cnt = 0 \<or> sz = 0 then None
      else if \<not> malloc_self then None
      else if \<not> malloc_data then None
      else Some (WebRtc_InitBuffer
             \<lparr>read_pos = 0, write_pos = 0, element_count = cnt, element_size = sz,
              rw_wrap = SAME_WRAP, data = []\<rparr>))"

definition move_read_ptr :: "'a RingBuffer \<Rightarrow> int \<Rightarrow> 'a RingBuffer \<times> int" where
  "move_read_ptr self cnt =
     (let free_elements = i32 (int (available_write self));
          readable_elements = i32 (int (available_read self));
          rp = i32 (int (read_pos self));
          cnt = (if cnt > readable_elements then readable_elements else cnt);
          cnt = (if cnt < - free_elements then - free_elements else cnt);
          rp = i32 (rp + cnt);
          ec = i32 (int (element_count self));
          (rp, wr) = (if rp > ec then (i32 (rp - ec), SAME_WRAP) else (rp, rw_wrap self));
          (rp, wr) = (if rp < 0 then (i32 (rp + ec), DIFF_WRAP) else (rp, wr))
      in (self\<lparr>read_pos := nat rp, rw_wrap := wr\<rparr>, cnt))"

definition WebRtc_MoveReadPtr :: "'a RingBuffer option \<Rightarrow> int \<Rightarrow> 'a RingBuffer option \<times> int" where
  "WebRtc_MoveReadPtr h cnt =
     (case h of None \<Rightarrow> (None, 0)
      | Some self \<Rightarrow> (let (self', n) = move_read_ptr self cnt in (Some self', n)))"

text \<open>
  \<open>read_buffer self want_ptr dst cnt\<close> is the block of \<open>WebRtc_ReadBuffer\<close> behind
  the two null checks: \<open>want_ptr\<close> says whether \<open>data_ptr\<close> is given, \<open>dst\<close> is the
  caller's memory. The result is the buffer, the caller's memory afterwards, the
  elements \<open>*data_ptr\<close> refers to (if it is given) and the count.
\<close>

definition read_buffer ::
    "'a RingBuffer \<Rightarrow> bool \<Rightarrow> 'a list \<Rightarrow> nat \<Rightarrow> 'a RingBuffer \<times> 'a list \<times> 'a list option \<times> nat" where
  "read_buffer self want_ptr dst cnt =
     (let ((p1, n1), (p2, n2), read_count) = GetBufferReadRegions self cnt;
          region1 = mem_slice (data self) p1 n1;
          region2 = (case p2 of None \<Rightarrow> [] | Some p \<Rightarrow> mem_slice (data self) p n2);
          dst' = (if n2 > 0 then mem_copy (mem_copy dst 0 region1) n1 region2
                  else if \<not> want_ptr then mem_copy dst 0 region1 else dst);
          ptr = (if n2 > 0 then region1 @ region2 else region1);
          self' = fst (move_read_ptr self (i32 (int read_count)))
      in (self', dst', (if want_ptr then Some ptr else None), read_count))"

definition WebRtc_ReadBuffer ::
    "'a RingBuffer option \<Rightarrow> bool \<Rightarrow> 'a list option \<Rightarrow> nat \<Rightarrow>
     'a RingBuffer option \<times> 'a list option \<times> 'a list option \<times> nat" where
  "WebRtc_ReadBuffer h want_ptr dst cnt =
     (case h of None \<Rightarrow> (None, dst, None, 0)
      | Some self \<Rightarrow>
         (case dst of None \<Rightarrow> (Some self, None, None, 0)
          | Some d \<Rightarrow>
             (let (self', d', ptr, n) = read_buffer self want_ptr d cnt
              in (Some self', Some d', ptr, n))))"

definition write_buffer :: "'a RingBuffer \<Rightarrow> 'a list \<Rightarrow> nat \<Rightarrow> 'a RingBuffer \<times> nat" where
  "write_buffer self src cnt =
     (let free_elements = available_write self;
          write_elements = (if free_elements < cnt then free_elements else cnt);
          n = write_elements;
          margin = element_count self - write_pos self;
          (self, n) =
            (if write_elements > margin
             then (self\<lparr>data := mem_copy (data self) (write_pos self) (take margin src),
                        write_pos := 0, rw_wrap := DIFF_WRAP\<rparr>, n - margin)
             else (self, n));
          self = self\<lparr>data := mem_copy (data self) (write_pos self)
                                (mem_slice src (write_elements - n) n),
                      write_pos := write_pos self + n\<rparr>
      in (self, write_elements))"

definition WebRtc_WriteBuffer :: "'a RingBuffer option \<Rightarrow> 'a list option \<Rightarrow> nat \<Rightarrow> 'a RingBuffer option \<times> nat" where
  "WebRtc_WriteBuffer h src cnt =
     (case h of None \<Rightarrow> (None, 0)
      | Some self \<Rightarrow>
         (case src of None \<Rightarrow> (Some self, 0)
          | Some d \<Rightarrow> (let (self', n) = write_buffer self d cnt in (Some self', n))))"

section \<open>Invariant and abstraction\<close>

text \<open>
  \<open>rb_inv\<close>: the positions lie in the storage and agree with the wrap indicator.
  \<open>rb_view\<close> is the whole storage in reading order, from the read position round
  to itself; \<open>rb_content\<close>, its readable prefix, is the abstract queue.
\<close>

definition rb_inv :: "'a RingBuffer \<Rightarrow> bool" where
  "rb_inv self \<longleftrightarrow>
     0 < element_count self \<and> element_count self < 2 ^ 30 \<and>
     length (data self) = element_count self \<and>
     read_pos self \<le> element_count self \<and> write_pos self \<le> element_count self \<and>
     (rw_wrap self = SAME_WRAP \<longrightarrow> read_pos self \<le> write_pos self) \<and>
     (rw_wrap self = DIFF_WRAP \<longrightarrow> write_pos self \<le> read_pos self)"

definition rb_view :: "'a RingBuffer \<Rightarrow> 'a list" where
  "rb_view self = drop (read_pos self) (data self) @ take (read_pos self) (data self)"

definition rb_content :: "'a RingBuffer \<Rightarrow> 'a list" where
  "rb_content self = take (available_read self) (rb_view self)"

text \<open>What a client takes: the elements read, as one list.\<close>

definition rb_take :: "'a RingBuffer \<Rightarrow> nat \<Rightarrow> 'a RingBuffer \<times> 'a list" where
  "rb_take self cnt =
     (let (self', _, ptr, _) = read_buffer self True [] cnt
      in (self', (case ptr of None \<Rightarrow> [] | Some xs \<Rightarrow> xs)))"

lemma length_rb_view [simp]: "length (rb_view self) = length (data self)"
  by (simp add: rb_view_def)

lemma available_read_le: "rb_inv self \<Longrightarrow> available_read self \<le> element_count self"
  by (cases "rw_wrap self") (auto simp: rb_inv_def available_read_def)

lemma length_rb_content [simp]: "rb_inv self \<Longrightarrow> length (rb_content self) = available_read self"
  using available_read_le [of self] by (simp add: rb_content_def rb_inv_def)

lemma available_write_eq:
  "rb_inv self \<Longrightarrow> available_write self = element_count self - length (rb_content self)"
  by (simp add: available_write_def)

text \<open>The counts fit an \<open>int\<close>, so the casts of \<open>WebRtc_MoveReadPtr\<close> are exact.\<close>

lemma rb_int_casts:
  assumes "rb_inv self"
  shows "i32 (int (available_read self)) = int (available_read self)"
    and "i32 (int (available_write self)) = int (available_write self)"
    and "i32 (int (read_pos self)) = int (read_pos self)"
    and "i32 (int (element_count self)) = int (element_count self)"
  using assms available_read_le [OF assms]
  by (auto intro!: i32_id simp: in_i32_def rb_inv_def available_write_def)

section \<open>Moving the read position\<close>

lemma move_read_ptr_eq:
  assumes "rb_inv self"
    and c: "c = max (- int (available_write self)) (min k (int (available_read self)))"
    and rp: "rp = int (read_pos self) + c"
  shows "move_read_ptr self k =
    (self\<lparr>read_pos := nat (if rp > int (element_count self) then rp - int (element_count self)
                         else if rp < 0 then rp + int (element_count self) else rp),
          rw_wrap := (if rp > int (element_count self) then SAME_WRAP
                      else if rp < 0 then DIFF_WRAP else rw_wrap self)\<rparr>, c)"
proof -
  let ?ec = "int (element_count self)"
  have bnd: "?ec < 2 ^ 30" "int (read_pos self) \<le> ?ec" "int (available_read self) \<le> ?ec"
    "int (available_write self) \<le> ?ec"
    using assms(1) available_read_le [OF assms(1)]
    by (auto simp: rb_inv_def available_write_def)
  have casts: "i32 rp = rp" "rp > ?ec \<Longrightarrow> i32 (rp - ?ec) = rp - ?ec"
    "rp < 0 \<Longrightarrow> i32 (rp + ?ec) = rp + ?ec"
    using bnd by (auto intro!: i32_id simp: in_i32_def rp c)
  have clip: "(if (if int (available_read self) < k then int (available_read self) else k)
                  < - int (available_write self)
               then - int (available_write self)
               else if int (available_read self) < k then int (available_read self) else k) = c"
    by (auto simp: c)
  show ?thesis
    using bnd
    by (auto simp: move_read_ptr_def Let_def rb_int_casts [OF assms(1)] clip rp [symmetric] casts)
qed

text \<open>
  The position after a move that stays inside the readable or the free part, in
  natural numbers: forward by \<open>n\<close>, or back by \<open>n\<close>.
\<close>

lemma move_forward:
  assumes "rb_inv self" and "n \<le> available_read self"
  shows "move_read_ptr self (int n) =
    (self\<lparr>read_pos := (if read_pos self + n > element_count self
                     then read_pos self + n - element_count self else read_pos self + n),
          rw_wrap := (if read_pos self + n > element_count self then SAME_WRAP
                      else rw_wrap self)\<rparr>, int n)"
  using assms(2) by (auto simp: move_read_ptr_eq [OF assms(1) refl refl] nat_diff_distrib nat_add_distrib)

lemma move_back:
  assumes "rb_inv self" and "n \<le> available_write self"
  shows "move_read_ptr self (- int n) =
    (self\<lparr>read_pos := (if n > read_pos self then read_pos self + element_count self - n
                     else read_pos self - n),
          rw_wrap := (if n > read_pos self then DIFF_WRAP else rw_wrap self)\<rparr>, - int n)"
  using assms
  by (auto simp: move_read_ptr_eq [OF assms(1) refl refl] rb_inv_def nat_diff_distrib nat_add_distrib)

text \<open>Every move is one of the two, by the clipped count.\<close>

lemma move_clip:
  assumes "rb_inv self"
  shows "0 \<le> k \<Longrightarrow> move_read_ptr self k = move_read_ptr self (int (min (nat k) (available_read self)))"
    and "k < 0 \<Longrightarrow> move_read_ptr self k = move_read_ptr self (- int (min (nat (- k)) (available_write self)))"
proof -
  have same: "move_read_ptr self k = move_read_ptr self k'"
    if "max (- int (available_write self)) (min k (int (available_read self)))
      = max (- int (available_write self)) (min k' (int (available_read self)))" for k'
    unfolding move_read_ptr_eq [OF assms refl refl] that ..
  show "0 \<le> k \<Longrightarrow> move_read_ptr self k = move_read_ptr self (int (min (nat k) (available_read self)))"
    by (rule same) auto
  show "k < 0 \<Longrightarrow> move_read_ptr self k = move_read_ptr self (- int (min (nat (- k)) (available_write self)))"
    by (rule same) auto
qed

lemma rb_inv_forward:
  assumes "rb_inv self" and "n \<le> available_read self"
  shows "rb_inv (fst (move_read_ptr self (int n)))"
    and "available_read (fst (move_read_ptr self (int n))) = available_read self - n"
  using assms
  by (cases "rw_wrap self"; auto simp: move_forward rb_inv_def available_read_def)+

lemma rb_inv_back:
  assumes "rb_inv self" and "n \<le> available_write self"
  shows "rb_inv (fst (move_read_ptr self (- int n)))"
    and "available_read (fst (move_read_ptr self (- int n))) = available_read self + n"
  using assms
  by (cases "rw_wrap self"; auto simp: move_back rb_inv_def available_read_def available_write_def)+

text \<open>A move rotates the storage as the reader sees it.\<close>

lemma rotate_le: "n \<le> length xs \<Longrightarrow> rotate n xs = drop n xs @ take n xs"
  by (cases "n = length xs") (auto simp: rotate_drop_take)

lemma rb_view_rotate: "rb_inv self \<Longrightarrow> rb_view self = rotate (read_pos self) (data self)"
  by (simp add: rb_view_def rotate_le rb_inv_def)

lemma rotate_plus_length: "rotate (n + length xs) xs = rotate n xs"
  by (metis mod_add_self2 rotate_conv_mod)

lemma rb_view_forward:
  assumes "rb_inv self" and "n \<le> available_read self"
  shows "rb_view (fst (move_read_ptr self (int n))) = drop n (rb_view self) @ take n (rb_view self)"
proof -
  let ?s = "fst (move_read_ptr self (int n))" and ?r = "read_pos self"
  have len: "length (data self) = element_count self"
    using assms(1) by (simp add: rb_inv_def)
  have "rb_view ?s = rotate (read_pos ?s) (data self)"
    using rb_view_rotate [OF rb_inv_forward(1) [OF assms]] by (simp add: move_forward [OF assms])
  also have "\<dots> = rotate (n + ?r) (data self)"
    using rotate_plus_length [of "?r + n - element_count self" "data self"]
    by (auto simp: move_forward [OF assms] len add.commute)
  also have "\<dots> = rotate n (rb_view self)"
    by (simp add: rb_view_rotate [OF assms(1)] rotate_rotate)
  also have "\<dots> = drop n (rb_view self) @ take n (rb_view self)"
    using assms(2) available_read_le [OF assms(1)] by (simp add: rotate_le len)
  finally show ?thesis .
qed

lemma rb_view_back:
  assumes "rb_inv self" and "n \<le> available_write self"
  shows "rb_view (fst (move_read_ptr self (- int n))) =
    drop (element_count self - n) (rb_view self) @ take (element_count self - n) (rb_view self)"
proof -
  let ?s = "fst (move_read_ptr self (- int n))" and ?r = "read_pos self" and ?m = "element_count self - n"
  have len: "length (data self) = element_count self" and n: "n \<le> element_count self"
    using assms by (auto simp: rb_inv_def available_write_def)
  have "rb_view ?s = rotate (read_pos ?s) (data self)"
    using rb_view_rotate [OF rb_inv_back(1) [OF assms]] by (simp add: move_back [OF assms])
  also have "\<dots> = rotate (?m + ?r) (data self)"
    using rotate_plus_length [of "?r - n" "data self"] n
    by (auto simp: move_back [OF assms] len add.commute)
  also have "\<dots> = rotate ?m (rb_view self)"
    by (simp add: rb_view_rotate [OF assms(1)] rotate_rotate)
  also have "\<dots> = drop ?m (rb_view self) @ take ?m (rb_view self)"
    by (simp add: rotate_le len)
  finally show ?thesis .
qed

lemma rb_content_forward:
  assumes "rb_inv self" and "n \<le> available_read self"
  shows "rb_content (fst (move_read_ptr self (int n))) = drop n (rb_content self)"
  using assms available_read_le [OF assms(1)]
  by (simp add: rb_content_def rb_inv_forward rb_view_forward drop_take rb_inv_def)

lemma rb_content_back:
  assumes "rb_inv self" and "n \<le> available_write self"
  shows "rb_content (fst (move_read_ptr self (- int n))) =
    drop (element_count self - n) (rb_view self) @ rb_content self"
proof -
  have "available_read self + n \<le> element_count self" "length (data self) = element_count self"
    using assms available_read_le [OF assms(1)] by (auto simp: available_write_def rb_inv_def)
  then show ?thesis
    by (auto simp: rb_content_def rb_inv_back [OF assms] rb_view_back [OF assms] min_def)
qed

section \<open>Reading\<close>

lemma rb_content_same:
  "rb_inv self \<Longrightarrow> rw_wrap self = SAME_WRAP \<Longrightarrow>
   rb_content self = mem_slice (data self) (read_pos self) (write_pos self - read_pos self)"
  by (simp add: rb_content_def rb_view_def rb_inv_def available_read_def mem_slice_def)

lemma rb_content_diff:
  "rb_inv self \<Longrightarrow> rw_wrap self = DIFF_WRAP \<Longrightarrow>
   rb_content self = mem_slice (data self) (read_pos self) (element_count self - read_pos self)
                     @ mem_slice (data self) 0 (write_pos self)"
  by (simp add: rb_content_def rb_view_def rb_inv_def available_read_def mem_slice_def min_def)

lemma take_rb_content:
  assumes "rb_inv self" and "n \<le> available_read self"
  shows "take n (rb_content self) =
    (if n > element_count self - read_pos self
     then mem_slice (data self) (read_pos self) (element_count self - read_pos self)
          @ mem_slice (data self) 0 (n - (element_count self - read_pos self))
     else mem_slice (data self) (read_pos self) n)"
  using assms available_read_le [OF assms(1)]
  by (auto simp: rb_content_def rb_view_def mem_slice_def rb_inv_def min_def available_read_def
        split: if_splits)

text \<open>
  The read, in one equation: whether or not the data wraps, the caller gets the
  oldest \<open>min cnt available\<close> elements and the read position moves behind them.
\<close>

lemma read_buffer_eq:
  assumes "rb_inv self" and n: "n = min cnt (available_read self)"
  shows "fst (read_buffer self want dst cnt) = fst (move_read_ptr self (int n))"
    and "fst (snd (snd (read_buffer self want dst cnt))) =
           (if want then Some (take n (rb_content self)) else None)"
    and "snd (snd (snd (read_buffer self want dst cnt))) = n"
proof -
  have "n \<le> available_read self" by (simp add: n)
  moreover have "i32 (int n) = int n"
    using assms(1) available_read_le [OF assms(1)]
    by (intro i32_id) (auto simp: in_i32_def n rb_inv_def)
  moreover have "(if available_read self < cnt then available_read self else cnt) = n"
    by (auto simp: n)
  ultimately show "fst (read_buffer self want dst cnt) = fst (move_read_ptr self (int n))"
    and "fst (snd (snd (read_buffer self want dst cnt))) =
           (if want then Some (take n (rb_content self)) else None)"
    and "snd (snd (snd (read_buffer self want dst cnt))) = n"
    by (auto simp: read_buffer_def GetBufferReadRegions_def Let_def take_rb_content [OF assms(1)])
qed

lemma rb_take_eq:
  assumes "rb_inv self"
  shows "rb_take self cnt =
    (fst (move_read_ptr self (int (min cnt (available_read self)))), take cnt (rb_content self))"
  using read_buffer_eq [OF assms refl, of True "[]" cnt] assms
  by (auto simp: rb_take_def min_def split: prod.splits option.splits)

lemma rb_take_inv: "rb_inv self \<Longrightarrow> rb_inv (fst (rb_take self cnt))"
  by (simp add: rb_take_eq rb_inv_forward)

lemma rb_take_content: "rb_inv self \<Longrightarrow> rb_content (fst (rb_take self cnt)) = drop cnt (rb_content self)"
  by (cases "cnt \<le> available_read self") (simp_all add: rb_take_eq rb_content_forward min_def)

lemma rb_take_elements: "rb_inv self \<Longrightarrow> snd (rb_take self cnt) = take cnt (rb_content self)"
  by (simp add: rb_take_eq)

lemma move_element_count [simp]: "element_count (fst (move_read_ptr self k)) = element_count self"
  by (simp add: move_read_ptr_def Let_def split: prod.splits)

lemma rb_take_element_count: "rb_inv self \<Longrightarrow> element_count (fst (rb_take self cnt)) = element_count self"
  by (simp add: rb_take_eq)

section \<open>Writing\<close>

lemma write_buffer_eq:
  assumes "rb_inv self" and n: "n = min cnt (available_write self)" and "n \<le> length src"
  shows "write_buffer self src cnt =
    (if n > element_count self - write_pos self
     then (self\<lparr>data := mem_copy (mem_copy (data self) (write_pos self)
                           (take (element_count self - write_pos self) src)) 0
                           (mem_slice src (element_count self - write_pos self)
                              (n - (element_count self - write_pos self))),
                write_pos := n - (element_count self - write_pos self), rw_wrap := DIFF_WRAP\<rparr>, n)
     else (self\<lparr>data := mem_copy (data self) (write_pos self) (take n src),
                write_pos := write_pos self + n\<rparr>, n))"
proof -
  have "(if available_write self < cnt then available_write self else cnt) = n"
    by (auto simp: n)
  then show ?thesis
    by (auto simp: write_buffer_def Let_def mem_slice_def)
qed

lemma write_buffer_inv:
  assumes "rb_inv self" and "min cnt (available_write self) \<le> length src"
  shows "rb_inv (fst (write_buffer self src cnt))"
proof -
  define n where "n = min cnt (available_write self)"
  have "n \<le> available_write self" "n \<le> length src" using assms(2) by (auto simp: n_def)
  then show ?thesis
    using assms(1)
    by (cases "rw_wrap self")
      (auto simp: write_buffer_eq [OF assms(1) n_def] rb_inv_def available_write_def
        available_read_def min_def)
qed

text \<open>The three shapes a write can have, on the storage itself.\<close>

lemma wrap_write:
  assumes "r \<le> w" "w \<le> length d" "length d - w < n" "n - (length d - w) \<le> r" "n \<le> length src"
    and d': "d' = mem_copy (mem_copy d w (take (length d - w) src)) 0
                    (mem_slice src (length d - w) (n - (length d - w)))"
  shows "mem_slice d' r (length d - r) @ mem_slice d' 0 (n - (length d - w)) =
    mem_slice d r (w - r) @ take n src"
  using assms(1-5)
  by (intro nth_equalityI)
    (auto simp: d' nth_append nth_mem_slice nth_mem_copy add.commute intro!: arg_cong [of _ _ "(!) src"])

lemma same_write:
  assumes "r \<le> w" "w + n \<le> length d" "n \<le> length src"
  shows "mem_slice (mem_copy d w (take n src)) r (w + n - r) = mem_slice d r (w - r) @ take n src"
  using assms
  by (intro nth_equalityI)
    (auto simp: nth_append nth_mem_slice nth_mem_copy intro!: arg_cong [of _ _ "(!) src"])

lemma diff_write:
  assumes "w + n \<le> r" "r \<le> length d" "n \<le> length src"
  shows "mem_slice (mem_copy d w (take n src)) r (length d - r) @ mem_slice (mem_copy d w (take n src)) 0 (w + n)
    = (mem_slice d r (length d - r) @ mem_slice d 0 w) @ take n src"
  using assms
  by (intro nth_equalityI)
    (auto simp: nth_append nth_mem_slice nth_mem_copy intro!: arg_cong [of _ _ "(!) src"])

lemma write_buffer_content:
  assumes "rb_inv self" and "min cnt (available_write self) \<le> length src"
  shows "rb_content (fst (write_buffer self src cnt)) =
    rb_content self @ take (min cnt (available_write self)) src"
proof -
  define n where "n = min cnt (available_write self)"
  define s' where "s' = fst (write_buffer self src cnt)"
  have n: "n \<le> available_write self" "n \<le> length src" using assms(2) by (auto simp: n_def)
  have inv': "rb_inv s'" unfolding s'_def by (rule write_buffer_inv [OF assms])
  have len: "element_count self = length (data self)" using assms(1) by (simp add: rb_inv_def)
  let ?m = "element_count self - write_pos self"
  note eq = write_buffer_eq [OF assms(1) n_def n(2)]
  consider (wrap) "n > ?m" "rw_wrap self = SAME_WRAP" | (same) "\<not> n > ?m" "rw_wrap self = SAME_WRAP"
    | (diff) "\<not> n > ?m" "rw_wrap self = DIFF_WRAP"
    using n assms(1)
    by (cases "rw_wrap self") (auto simp: rb_inv_def available_write_def available_read_def)
  then have "rb_content s' = rb_content self @ take n src"
  proof cases
    case wrap
    then show ?thesis
      using n assms(1) inv' wrap_write [of "read_pos self" "write_pos self" "data self" n src, OF _ _ _ _ _ refl]
      by (simp add: rb_content_diff rb_content_same s'_def eq)
        (simp add: rb_inv_def available_write_def available_read_def)
  next
    case same
    then show ?thesis
      using n assms(1) inv' same_write [of "read_pos self" "write_pos self" n "data self" src]
      by (simp add: rb_content_same s'_def eq) (simp add: rb_inv_def)
  next
    case diff
    then show ?thesis
      using n assms(1) inv' diff_write [of "write_pos self" n "read_pos self" "data self" src]
      by (simp add: rb_content_diff s'_def eq)
        (simp add: rb_inv_def available_write_def available_read_def)
  qed
  then show ?thesis by (simp add: s'_def n_def)
qed

lemma write_buffer_count: "snd (write_buffer self src cnt) = min cnt (available_write self)"
  by (auto simp: write_buffer_def Let_def split: prod.splits)

lemma write_element_count [simp]: "element_count (fst (write_buffer self src cnt)) = element_count self"
  by (auto simp: write_buffer_def Let_def split: prod.splits)

section \<open>The interface: a bounded first-in first-out queue\<close>

text \<open>
  What a client may rely on. \<open>put\<close> and \<open>get\<close> return the queue with the number
  of elements taken in and with the elements given out.
\<close>

locale bounded_fifo =
  fixes inv :: "'q \<Rightarrow> bool"
    and content :: "'q \<Rightarrow> 'a list"
    and capacity :: "'q \<Rightarrow> nat"
    and put :: "'q \<Rightarrow> 'a list \<Rightarrow> nat \<Rightarrow> 'q \<times> nat"
    and get :: "'q \<Rightarrow> nat \<Rightarrow> 'q \<times> 'a list"
  assumes content_fits: "inv q \<Longrightarrow> length (content q) \<le> capacity q"
    and put_inv: "inv q \<Longrightarrow> n \<le> length xs \<Longrightarrow> inv (fst (put q xs n))"
    and put_content: "inv q \<Longrightarrow> n \<le> length xs \<Longrightarrow>
      content (fst (put q xs n)) = content q @ take (min n (capacity q - length (content q))) xs"
    and put_capacity: "inv q \<Longrightarrow> capacity (fst (put q xs n)) = capacity q"
    and put_count: "inv q \<Longrightarrow> snd (put q xs n) = min n (capacity q - length (content q))"
    and get_inv: "inv q \<Longrightarrow> inv (fst (get q n))"
    and get_content: "inv q \<Longrightarrow> content (fst (get q n)) = drop n (content q)"
    and get_capacity: "inv q \<Longrightarrow> capacity (fst (get q n)) = capacity q"
    and get_elements: "inv q \<Longrightarrow> snd (get q n) = take n (content q)"

text \<open>A session of a client: a list of writes and reads, and the elements it got.\<close>

datatype 'a fifo_op = Put "'a list" | Get nat

fun fifo_run ::
    "('q \<Rightarrow> 'a list \<Rightarrow> nat \<Rightarrow> 'q \<times> nat) \<Rightarrow> ('q \<Rightarrow> nat \<Rightarrow> 'q \<times> 'a list) \<Rightarrow>
     'q \<Rightarrow> 'a fifo_op list \<Rightarrow> 'q \<times> 'a list" where
  "fifo_run put get q [] = (q, [])"
| "fifo_run put get q (Put xs # ops) = fifo_run put get (fst (put q xs (length xs))) ops"
| "fifo_run put get q (Get n # ops) =
     (let (q', out) = fifo_run put get (fst (get q n)) ops in (q', snd (get q n) @ out))"

fun fifo_input :: "'a fifo_op list \<Rightarrow> 'a list" where
  "fifo_input [] = []"
| "fifo_input (Put xs # ops) = xs @ fifo_input ops"
| "fifo_input (Get n # ops) = fifo_input ops"

text \<open>Every write of the session fits, starting with \<open>fill\<close> elements of \<open>cap\<close>.\<close>

fun fifo_fits :: "nat \<Rightarrow> nat \<Rightarrow> 'a fifo_op list \<Rightarrow> bool" where
  "fifo_fits cap fill [] = True"
| "fifo_fits cap fill (Put xs # ops) = (fill + length xs \<le> cap \<and> fifo_fits cap (fill + length xs) ops)"
| "fifo_fits cap fill (Get n # ops) = fifo_fits cap (fill - n) ops"

context bounded_fifo
begin

lemma put_fits:
  "inv q \<Longrightarrow> length (content q) + length xs \<le> capacity q \<Longrightarrow>
   content (fst (put q xs (length xs))) = content q @ xs"
  by (simp add: put_content)

lemma put_get:
  assumes "inv q" and "content q = []" and "length xs \<le> capacity q"
  shows "snd (get (fst (put q xs (length xs))) (length xs)) = xs"
  using assms by (simp add: get_elements put_inv put_content)

lemma run_inv: "inv q \<Longrightarrow> inv (fst (fifo_run put get q ops))"
proof (induction ops arbitrary: q)
  case (Cons op ops)
  then show ?case
    by (cases op) (simp_all add: put_inv get_inv case_prod_beta Let_def)
qed simp

text \<open>Nothing is lost, duplicated or reordered in a session whose writes fit.\<close>

lemma run_fifo:
  "inv q \<Longrightarrow> fifo_fits (capacity q) (length (content q)) ops \<Longrightarrow>
   snd (fifo_run put get q ops) @ content (fst (fifo_run put get q ops)) = content q @ fifo_input ops"
proof (induction ops arbitrary: q)
  case Nil
  then show ?case by simp
next
  case (Cons op ops)
  show ?case
  proof (cases op)
    case (Put xs)
    with Cons.prems have "content (fst (put q xs (length xs))) = content q @ xs"
      by (simp add: put_fits)
    then show ?thesis
      using Cons.IH [of "fst (put q xs (length xs))"] Cons.prems Put
      by (simp add: put_inv put_capacity)
  next
    case (Get n)
    have "take n (content q) @ drop n (content q) @ fifo_input ops = content q @ fifo_input ops"
      by simp
    then show ?thesis
      using Cons.IH [of "fst (get q n)"] Cons.prems Get
      by (simp add: get_inv get_content get_capacity get_elements case_prod_beta Let_def)
  qed
qed

end

interpretation rb: bounded_fifo rb_inv rb_content element_count write_buffer rb_take
proof unfold_locales
  fix q :: "'a RingBuffer" and n :: nat and xs :: "'a list"
  assume inv: "rb_inv q"
  note wr = available_write_eq [OF inv]
  show "length (rb_content q) \<le> element_count q"
    using inv available_read_le by simp
  show "rb_inv (fst (write_buffer q xs n))" if "n \<le> length xs"
    by (rule write_buffer_inv [OF inv]) (use that in simp)
  show "rb_content (fst (write_buffer q xs n)) =
      rb_content q @ take (min n (element_count q - length (rb_content q))) xs" if "n \<le> length xs"
    using write_buffer_content [OF inv, of n xs] that wr by simp
  show "snd (write_buffer q xs n) = min n (element_count q - length (rb_content q))"
    by (simp only: write_buffer_count wr)
  show "element_count (fst (write_buffer q xs n)) = element_count q" by simp
  show "rb_inv (fst (rb_take q n))" using inv by (rule rb_take_inv)
  show "rb_content (fst (rb_take q n)) = drop n (rb_content q)" using inv by (rule rb_take_content)
  show "element_count (fst (rb_take q n)) = element_count q" using inv by (rule rb_take_element_count)
  show "snd (rb_take q n) = take n (rb_content q)" using inv by (rule rb_take_elements)
qed

section \<open>Properties\<close>

lemma rb_inv_init: "0 < element_count self \<Longrightarrow> element_count self < 2 ^ 30 \<Longrightarrow> rb_inv (WebRtc_InitBuffer self)"
  by (simp add: rb_inv_def WebRtc_InitBuffer_def)

lemma rb_content_init [simp]: "rb_content (WebRtc_InitBuffer self) = []"
  by (simp add: rb_content_def WebRtc_InitBuffer_def available_read_def)

lemma read_buffer_dst:
  assumes "rb_inv self" and "cnt \<le> length dst" and n: "n = min cnt (available_read self)"
  shows "fst (snd (read_buffer self False dst cnt)) = mem_copy dst 0 (take n (rb_content self))"
proof -
  let ?m = "element_count self - read_pos self"
  have eq: "(if available_read self < cnt then available_read self else cnt) = n"
    by (auto simp: n)
  have le: "n \<le> available_read self" "n \<le> length dst" "length (data self) = element_count self"
    "read_pos self \<le> element_count self"
    using assms by (auto simp: rb_inv_def)
  have two: "mem_copy (mem_copy dst 0 xs) (length xs) ys = mem_copy dst 0 (xs @ ys)"
    for xs ys :: "'a list"
    by (simp add: mem_copy_def add.commute)
  have m: "length (mem_slice (data self) (read_pos self) ?m) = ?m"
    using le by simp
  show ?thesis
    using two [of "mem_slice (data self) (read_pos self) ?m"] m
    by (auto simp: read_buffer_def GetBufferReadRegions_def Let_def eq take_rb_content [OF assms(1) le(1)])
qed

text \<open>Creation and initialisation. \<open>WebRtc_CreateBuffer\<close> fails exactly when a size is
  zero or an allocation fails; otherwise the buffer is well formed, empty, and has
  all its elements free.\<close>

theorem WebRtc_CreateBuffer_spec:
  assumes "cnt < 2 ^ 30"
  shows "(case WebRtc_CreateBuffer m1 m2 cnt sz :: int RingBuffer option of
            None \<Rightarrow> cnt = 0 \<or> sz = 0 \<or> \<not> m1 \<or> \<not> m2
          | Some self \<Rightarrow> 0 < cnt \<and> 0 < sz \<and> m1 \<and> m2 \<and> rb_inv self \<and> rb_content self = [] \<and>
              WebRtc_available_read (Some self) = 0 \<and> WebRtc_available_write (Some self) = cnt)"
  using assms
  by (simp add: WebRtc_CreateBuffer_def rb_inv_init WebRtc_available_read_def WebRtc_available_write_def
      available_write_def available_read_def) (simp add: WebRtc_InitBuffer_def)

text \<open>Writing appends. \<open>WebRtc_WriteBuffer\<close> stores the first
  \<open>min cnt (free space)\<close> elements of the source behind the readable ones, returns
  their number, and keeps the buffer well formed; the wrap-around is invisible.\<close>

theorem WebRtc_WriteBuffer_spec:
  assumes "rb_inv self" and "cnt \<le> length src"
    and "n = min cnt (WebRtc_available_write (Some self))"
  shows "\<exists>self'. WebRtc_WriteBuffer (Some self) (Some src) cnt = (Some self', n) \<and> rb_inv self' \<and>
           rb_content self' = rb_content self @ take n src \<and>
           WebRtc_available_read (Some self') = WebRtc_available_read (Some self) + n"
proof -
  let ?s = "fst (write_buffer self src cnt)"
  have n: "n = min cnt (available_write self)" "n \<le> length src"
    using assms(2,3) by (auto simp: WebRtc_available_write_def)
  have c: "rb_content ?s = rb_content self @ take n src" and i: "rb_inv ?s"
    using write_buffer_content [OF assms(1)] write_buffer_inv [OF assms(1)] n by auto
  from arg_cong [OF c, of length] have "available_read ?s = available_read self + n"
    using i assms(1) n by simp
  then show ?thesis
    using c i n write_buffer_count [of self src cnt]
    by (auto simp: WebRtc_WriteBuffer_def WebRtc_available_read_def split: prod.splits)
qed

text \<open>Reading takes from the front. \<open>WebRtc_ReadBuffer\<close> hands out the
  oldest \<open>min cnt (readable)\<close> elements, through \<open>*data_ptr\<close> or by a copy into the
  caller's memory that leaves the rest of that memory alone, and removes them.\<close>

theorem WebRtc_ReadBuffer_spec:
  assumes "rb_inv self" and "cnt \<le> length dst"
    and "n = min cnt (WebRtc_available_read (Some self))"
  shows "\<exists>self' dst' ptr. WebRtc_ReadBuffer (Some self) want (Some dst) cnt = (Some self', Some dst', ptr, n) \<and>
           rb_inv self' \<and> rb_content self' = drop n (rb_content self) \<and>
           (if want then ptr = Some (take n (rb_content self))
            else ptr = None \<and> dst' = take n (rb_content self) @ drop n dst)"
proof -
  have n: "n = min cnt (available_read self)"
    using assms(3) by (simp add: WebRtc_available_read_def)
  note eq = read_buffer_eq [OF assms(1) n, of want dst]
  have "rb_inv (fst (read_buffer self want dst cnt))"
    and "rb_content (fst (read_buffer self want dst cnt)) = drop n (rb_content self)"
    using rb_inv_forward(1) [OF assms(1), of n] rb_content_forward [OF assms(1), of n]
    by (simp_all add: eq n)
  moreover have "\<not> want \<Longrightarrow> fst (snd (read_buffer self want dst cnt)) = take n (rb_content self) @ drop n dst"
    using read_buffer_dst [OF assms(1,2) n] assms(1) n by (simp add: mem_copy_def)
  moreover obtain s d p m where "read_buffer self want dst cnt = (s, d, p, m)"
    by (metis prod_cases4)
  ultimately show ?thesis
    using eq by (cases want) (simp_all add: WebRtc_ReadBuffer_def)
qed

text \<open>Moving the read position. \<open>WebRtc_MoveReadPtr\<close> clips the request to the
  readable elements forward and to the free elements backward and returns the
  clipped count. Forward it drops elements from the front; backward it makes the
  last overwritten-free elements of the storage readable again (the stuffing of
  \<open>WebRtcAecm_ProcessFrame\<close>), in front of the unchanged content.\<close>

theorem WebRtc_MoveReadPtr_spec:
  assumes "rb_inv self"
    and "n = max (- int (WebRtc_available_write (Some self)))
               (min k (int (WebRtc_available_read (Some self))))"
  shows "\<exists>self'. WebRtc_MoveReadPtr (Some self) k = (Some self', n) \<and> rb_inv self' \<and>
           int (WebRtc_available_read (Some self')) = int (WebRtc_available_read (Some self)) - n \<and>
           rb_content self' = (if 0 \<le> k then drop (nat n) (rb_content self)
             else drop (element_count self - nat (- n)) (rb_view self) @ rb_content self)"
proof (cases "0 \<le> k")
  case True
  let ?m = "min (nat k) (available_read self)"
  have n: "n = int ?m"
    using True assms(2) by (auto simp: WebRtc_available_read_def WebRtc_available_write_def)
  have mv: "move_read_ptr self k = move_read_ptr self (int ?m)"
    using move_clip(1) [OF assms(1) True] .
  have "snd (move_read_ptr self (int ?m)) = int ?m"
    using move_forward [OF assms(1), of ?m] by simp
  then show ?thesis
    using True rb_inv_forward [OF assms(1), of ?m] rb_content_forward [OF assms(1), of ?m]
    by (simp add: n WebRtc_MoveReadPtr_def WebRtc_available_read_def mv case_prod_beta)
next
  case False
  let ?m = "min (nat (- k)) (available_write self)"
  have n: "n = - int ?m"
    using False assms(2) by (auto simp: WebRtc_available_read_def WebRtc_available_write_def)
  have mv: "move_read_ptr self k = move_read_ptr self (- int ?m)"
    using move_clip(2) [OF assms(1)] False by simp
  have "snd (move_read_ptr self (- int ?m)) = - int ?m"
    using move_back [OF assms(1), of ?m] by simp
  then show ?thesis
    using False rb_inv_back [OF assms(1), of ?m] rb_content_back [OF assms(1), of ?m]
    by (simp add: n WebRtc_MoveReadPtr_def WebRtc_available_read_def mv case_prod_beta)
qed

text \<open>C26: a whole session is first-in first-out. In any sequence of writes and reads
  whose writes fit, the elements read followed by the elements still stored are
  the elements stored at first followed by the elements written, in order:
  nothing is lost, duplicated or reordered, however the positions wrap.\<close>

theorem ring_session_fifo:
  assumes "rb_inv self" and "fifo_fits (element_count self) (length (rb_content self)) ops"
  shows "snd (fifo_run write_buffer rb_take self ops)
           @ rb_content (fst (fifo_run write_buffer rb_take self ops))
         = rb_content self @ fifo_input ops \<and>
         rb_inv (fst (fifo_run write_buffer rb_take self ops))"
  using rb.run_fifo [OF assms] rb.run_inv [OF assms(1)] by blast+

section \<open>Witnesses\<close>

text \<open>A buffer of four elements with one left to read, about to wrap.\<close>

definition rb_ex :: "int RingBuffer" where
  "rb_ex = \<lparr>read_pos = 2, write_pos = 3, element_count = 4, element_size = 2,
            rw_wrap = SAME_WRAP, data = [5, 6, 7, 8]\<rparr>"

lemma rb_ex_inv [simp]: "rb_inv rb_ex"
  by (simp add: rb_ex_def rb_inv_def)

lemma rb_ex_content [simp]: "rb_content rb_ex = [7]" "rb_view rb_ex = [7, 8, 5, 6]"
    "available_read rb_ex = 1" "available_write rb_ex = 3" "element_count rb_ex = 4"
  by (simp_all add: rb_ex_def rb_content_def rb_view_def available_read_def available_write_def)

theorem WebRtc_CreateBuffer_spec_witness:
  "WebRtc_CreateBuffer True False 336 2 = (None :: int RingBuffer option) \<and>
   rb_inv (the (WebRtc_CreateBuffer True True 336 2 :: int RingBuffer option))"
  using WebRtc_CreateBuffer_spec [where cnt = 336 and ?m1.0 = True and ?m2.0 = True and sz = 2]
    WebRtc_CreateBuffer_spec [where cnt = 336 and ?m1.0 = True and ?m2.0 = False and sz = 2]
  by (auto split: option.splits)

theorem WebRtc_WriteBuffer_spec_witness:
  "\<exists>self'. WebRtc_WriteBuffer (Some rb_ex) (Some [1, 2, 3, 4]) 4 = (Some self', 3) \<and>
     rb_content self' = [7, 1, 2, 3]"
proof -
  have "3 = min 4 (WebRtc_available_write (Some rb_ex))"
    by (simp add: WebRtc_available_write_def)
  from WebRtc_WriteBuffer_spec [OF rb_ex_inv _ this, of "[1, 2, 3, 4]"] show ?thesis
    by auto
qed

theorem WebRtc_ReadBuffer_spec_witness:
  "\<exists>self'. WebRtc_ReadBuffer (Some rb_ex) False (Some [0, 0]) 2 = (Some self', Some [7, 0], None, 1) \<and>
     rb_content self' = []"
  using WebRtc_ReadBuffer_spec [of rb_ex 2 "[0, 0]" 1 False]
  by (auto simp: WebRtc_available_read_def)

theorem WebRtc_MoveReadPtr_spec_witness:
  "\<exists>self'. WebRtc_MoveReadPtr (Some rb_ex) (- 9) = (Some self', - 3) \<and> rb_content self' = [8, 5, 6, 7]"
  using WebRtc_MoveReadPtr_spec [of rb_ex "- 3" "- 9"]
  by (auto simp: WebRtc_available_read_def WebRtc_available_write_def)

theorem ring_session_fifo_witness:
  "snd (fifo_run write_buffer rb_take rb_ex [Put [1, 2, 3], Get 2, Put [4]])
     @ rb_content (fst (fifo_run write_buffer rb_take rb_ex [Put [1, 2, 3], Get 2, Put [4]]))
   = [7, 1, 2, 3, 4]"
  using ring_session_fifo [of rb_ex "[Put [1, 2, 3], Get 2, Put [4]]"] by simp

end
