(* ===== verification/Spl_Inline.thy ===== *)
theory Spl_Inline
  imports Prelude
begin

unbundle bit_operations_syntax

text \<open>
  The generic-C branch of \<open>src/webrtc/common_audio/signal_processing/include/spl_inl.h\<close>
  (saturation, bit sizes, normalisation) and the arithmetic macros of
  \<open>signal_processing_library.h\<close> the modelled code uses. The three normalisation
  routines share one contract, the locale \<open>normaliser\<close>; the saturating ones are
  shown equal to the exact operation followed by a clamp.
\<close>

section \<open>Saturating arithmetic\<close>

definition WEBRTC_SPL_WORD16_MAX :: int where "WEBRTC_SPL_WORD16_MAX = 32767"

definition WEBRTC_SPL_WORD16_MIN :: int where "WEBRTC_SPL_WORD16_MIN = - 32768"

definition WEBRTC_SPL_WORD32_MAX :: int where "WEBRTC_SPL_WORD32_MAX = 2147483647"

definition WEBRTC_SPL_WORD32_MIN :: int where "WEBRTC_SPL_WORD32_MIN = - 2147483648"

definition WebRtcSpl_SatW32ToW16 :: "int \<Rightarrow> int" where
  "WebRtcSpl_SatW32ToW16 value32 =
     (if value32 > 32767 then 32767 else if value32 < - 32768 then - 32768 else i16 value32)"

definition WebRtcSpl_AddSatW32 :: "int \<Rightarrow> int \<Rightarrow> int" where
  "WebRtcSpl_AddSatW32 l_var1 l_var2 =
     (let l_sum = i32 (l_var1 + l_var2)
      in if l_var1 < 0 then (if l_var2 < 0 \<and> l_sum \<ge> 0 then - 2147483648 else l_sum)
         else (if l_var2 > 0 \<and> l_sum < 0 then 2147483647 else l_sum))"

definition WebRtcSpl_SubSatW32 :: "int \<Rightarrow> int \<Rightarrow> int" where
  "WebRtcSpl_SubSatW32 l_var1 l_var2 =
     (let l_diff = i32 (l_var1 - l_var2)
      in if l_var1 < 0 then (if l_var2 > 0 \<and> l_diff > 0 then - 2147483648 else l_diff)
         else (if l_var2 < 0 \<and> l_diff < 0 then 2147483647 else l_diff))"

definition WebRtcSpl_AddSatW16 :: "int \<Rightarrow> int \<Rightarrow> int" where
  "WebRtcSpl_AddSatW16 a b = WebRtcSpl_SatW32ToW16 (i32 (a + b))"

definition WebRtcSpl_SubSatW16 :: "int \<Rightarrow> int \<Rightarrow> int" where
  "WebRtcSpl_SubSatW16 var1 var2 = WebRtcSpl_SatW32ToW16 (i32 (var1 - var2))"

definition WebRtc_MulAccumW16 :: "int \<Rightarrow> int \<Rightarrow> int \<Rightarrow> int" where
  "WebRtc_MulAccumW16 a b c = i32 (a * b + c)"

section \<open>Bit sizes and normalisation\<close>

definition WebRtcSpl_GetSizeInBits :: "int \<Rightarrow> int" where
  "WebRtcSpl_GetSizeInBits n =
     (let bits = (if 0xFFFF0000 AND n \<noteq> 0 then 16 else 0);
          bits = (if 0x0000FF00 AND shr n bits \<noteq> 0 then bits + 8 else bits);
          bits = (if 0x000000F0 AND shr n bits \<noteq> 0 then bits + 4 else bits);
          bits = (if 0x0000000C AND shr n bits \<noteq> 0 then bits + 2 else bits);
          bits = (if 0x00000002 AND shr n bits \<noteq> 0 then bits + 1 else bits);
          bits = (if 0x00000001 AND shr n bits \<noteq> 0 then bits + 1 else bits)
      in bits)"

definition WebRtcSpl_NormW32 :: "int \<Rightarrow> int" where
  "WebRtcSpl_NormW32 a =
     (if a = 0 then 0
      else
        (let a = (if a < 0 then NOT a else a);
             zeros = (if 0xFFFF8000 AND u32 a = 0 then 16 else 0);
             zeros = (if 0xFF800000 AND u32 (shl32 a zeros) = 0 then zeros + 8 else zeros);
             zeros = (if 0xF8000000 AND u32 (shl32 a zeros) = 0 then zeros + 4 else zeros);
             zeros = (if 0xE0000000 AND u32 (shl32 a zeros) = 0 then zeros + 2 else zeros);
             zeros = (if 0xC0000000 AND u32 (shl32 a zeros) = 0 then zeros + 1 else zeros)
         in zeros))"

definition WebRtcSpl_NormU32 :: "int \<Rightarrow> int" where
  "WebRtcSpl_NormU32 a =
     (if a = 0 then 0
      else
        (let zeros = (if 0xFFFF0000 AND a = 0 then 16 else 0);
             zeros = (if 0xFF000000 AND shlu32 a zeros = 0 then zeros + 8 else zeros);
             zeros = (if 0xF0000000 AND shlu32 a zeros = 0 then zeros + 4 else zeros);
             zeros = (if 0xC0000000 AND shlu32 a zeros = 0 then zeros + 2 else zeros);
             zeros = (if 0x80000000 AND shlu32 a zeros = 0 then zeros + 1 else zeros)
         in zeros))"

text \<open>In \<open>WebRtcSpl_NormW16\<close> the shifted value is an \<open>int\<close>, not an \<open>int16_t\<close>.\<close>

definition WebRtcSpl_NormW16 :: "int \<Rightarrow> int" where
  "WebRtcSpl_NormW16 a =
     (if a = 0 then 0
      else
        (let a = (if a < 0 then i16 (NOT a) else a);
             zeros = (if 0xFF80 AND a = 0 then 8 else 0);
             zeros = (if 0xF800 AND shl32 a zeros = 0 then zeros + 4 else zeros);
             zeros = (if 0xE000 AND shl32 a zeros = 0 then zeros + 2 else zeros);
             zeros = (if 0xC000 AND shl32 a zeros = 0 then zeros + 1 else zeros)
         in zeros))"

section \<open>Arithmetic macros\<close>

definition WEBRTC_SPL_MIN :: "int \<Rightarrow> int \<Rightarrow> int" where
  "WEBRTC_SPL_MIN A B = (if A < B then A else B)"

definition WEBRTC_SPL_MAX :: "int \<Rightarrow> int \<Rightarrow> int" where
  "WEBRTC_SPL_MAX A B = (if A > B then A else B)"

text \<open>The result of the first is an \<open>int\<close> (integer promotion), of the second an \<open>int32_t\<close>.\<close>

definition WEBRTC_SPL_ABS_W16 :: "int \<Rightarrow> int" where
  "WEBRTC_SPL_ABS_W16 a = (if i16 a \<ge> 0 then i16 a else - i16 a)"

definition WEBRTC_SPL_ABS_W32 :: "int \<Rightarrow> int" where
  "WEBRTC_SPL_ABS_W32 a = (if i32 a \<ge> 0 then i32 a else i32 (- i32 a))"

definition WEBRTC_SPL_MUL :: "int \<Rightarrow> int \<Rightarrow> int" where
  "WEBRTC_SPL_MUL a b = i32 (i32 a * i32 b)"

definition WEBRTC_SPL_UMUL :: "int \<Rightarrow> int \<Rightarrow> int" where
  "WEBRTC_SPL_UMUL a b = u32 (u32 a * u32 b)"

definition WEBRTC_SPL_UMUL_32_16 :: "int \<Rightarrow> int \<Rightarrow> int" where
  "WEBRTC_SPL_UMUL_32_16 a b = u32 (u32 a * u16 b)"

definition WEBRTC_SPL_MUL_16_U16 :: "int \<Rightarrow> int \<Rightarrow> int" where
  "WEBRTC_SPL_MUL_16_U16 a b = i32 (i16 a * u16 b)"

definition WEBRTC_SPL_MUL_16_16 :: "int \<Rightarrow> int \<Rightarrow> int" where
  "WEBRTC_SPL_MUL_16_16 a b = i32 (i16 a * i16 b)"

definition WEBRTC_SPL_MUL_16_16_RSFT :: "int \<Rightarrow> int \<Rightarrow> int \<Rightarrow> int" where
  "WEBRTC_SPL_MUL_16_16_RSFT a b c = shr (WEBRTC_SPL_MUL_16_16 a b) c"

definition WEBRTC_SPL_MUL_16_16_RSFT_WITH_ROUND :: "int \<Rightarrow> int \<Rightarrow> int \<Rightarrow> int" where
  "WEBRTC_SPL_MUL_16_16_RSFT_WITH_ROUND a b c = shr (i32 (WEBRTC_SPL_MUL_16_16 a b + shl32 1 (c - 1))) c"

definition WEBRTC_SPL_MUL_16_32_RSFT14 :: "int \<Rightarrow> int \<Rightarrow> int" where
  "WEBRTC_SPL_MUL_16_32_RSFT14 a b =
     i32 (shl32 (WEBRTC_SPL_MUL_16_16 a (shr b 16)) 2
          + shr (i32 (shr (WEBRTC_SPL_MUL_16_U16 a (u16 b)) 1 + 0x1000)) 13)"

definition WEBRTC_SPL_MUL_16_32_RSFT15 :: "int \<Rightarrow> int \<Rightarrow> int" where
  "WEBRTC_SPL_MUL_16_32_RSFT15 a b =
     i32 (shl32 (WEBRTC_SPL_MUL_16_16 a (shr b 16)) 1
          + shr (i32 (shr (WEBRTC_SPL_MUL_16_U16 a (u16 b)) 1 + 0x2000)) 14)"

text \<open>
  \<open>WEBRTC_SPL_SCALEDIFF32\<close> is used with an unsigned 16-bit \<open>A\<close> and \<open>int32_t\<close>
  \<open>B\<close>, \<open>C\<close>: the last summand, and with it the sum, is \<open>uint32_t\<close>, stored back into an
  \<open>int32_t\<close>.
\<close>

definition WEBRTC_SPL_SCALEDIFF32 :: "int \<Rightarrow> int \<Rightarrow> int \<Rightarrow> int" where
  "WEBRTC_SPL_SCALEDIFF32 A B C = i32 (C + shr B 16 * A + shr (u32 ((0x0000FFFF AND B) * A)) 16)"

definition WEBRTC_SPL_SAT :: "int \<Rightarrow> int \<Rightarrow> int \<Rightarrow> int" where
  "WEBRTC_SPL_SAT a b c = (if b > a then a else if b < c then c else b)"

definition WEBRTC_SPL_SHIFT_W32 :: "int \<Rightarrow> int \<Rightarrow> int" where
  "WEBRTC_SPL_SHIFT_W32 x c = (if c \<ge> 0 then shl32 x c else shr x (- c))"

text \<open>The same macro on a \<open>uint32_t\<close> operand.\<close>

definition WEBRTC_SPL_SHIFT_U32 :: "int \<Rightarrow> int \<Rightarrow> int" where
  "WEBRTC_SPL_SHIFT_U32 x c = (if c \<ge> 0 then shlu32 x c else shr x (- c))"

section \<open>Saturation is clamping\<close>

definition clamp :: "int \<Rightarrow> int \<Rightarrow> int \<Rightarrow> int" where
  "clamp lo hi x = max lo (min hi x)"

lemma SatW32ToW16_clamp [cint]: "WebRtcSpl_SatW32ToW16 x = clamp (- 32768) 32767 x"
  by (auto simp: WebRtcSpl_SatW32ToW16_def clamp_def i16_id in_i16_def)

lemma in_i16_SatW32ToW16 [cint, simp]: "in_i16 (WebRtcSpl_SatW32ToW16 x)"
  by (simp add: SatW32ToW16_clamp clamp_def in_i16_def)

lemma SatW32ToW16_id: "in_i16 x \<Longrightarrow> WebRtcSpl_SatW32ToW16 x = x"
  by (simp add: WebRtcSpl_SatW32ToW16_def in_i16_def i16_id)

lemma i32_cases:
  assumes "- 4294967296 \<le> x" and "x < 4294967296"
  shows "i32 x = (if x < - 2147483648 then x + 4294967296
                  else if x > 2147483647 then x - 4294967296 else x)"
proof -
  have "(x + 2147483648 + k * 4294967296) mod 4294967296 = (x + 2147483648) mod 4294967296" for k
    by (simp only: mod_mult_self1)
  from this [of 1] this [of "- 1"] show ?thesis
    using assms by (auto simp: i32_def mod_pos_pos_trivial)
qed

text \<open>The saturating 32- and 16-bit sums and differences are the exact results clamped
  to the type's range, for all operands; the sign tests on the wrapped sum detect
  every overflow.\<close>

theorem saturating_arithmetic:
  assumes "in_i32 a" and "in_i32 b" and "in_i16 c" and "in_i16 d"
  shows "WebRtcSpl_AddSatW32 a b = clamp (- 2147483648) 2147483647 (a + b) \<and>
         WebRtcSpl_SubSatW32 a b = clamp (- 2147483648) 2147483647 (a - b) \<and>
         WebRtcSpl_AddSatW16 c d = clamp (- 32768) 32767 (c + d) \<and>
         WebRtcSpl_SubSatW16 c d = clamp (- 32768) 32767 (c - d)"
proof -
  have "i32 (a + b) = (if a + b < - 2147483648 then a + b + 4294967296
                  else if a + b > 2147483647 then a + b - 4294967296 else a + b)"
    "i32 (a - b) = (if a - b < - 2147483648 then a - b + 4294967296
                  else if a - b > 2147483647 then a - b - 4294967296 else a - b)"
    using assms by (intro i32_cases; simp add: in_i32_def)+
  then have "WebRtcSpl_AddSatW32 a b = clamp (- 2147483648) 2147483647 (a + b)"
    "WebRtcSpl_SubSatW32 a b = clamp (- 2147483648) 2147483647 (a - b)"
    using assms by (auto simp: WebRtcSpl_AddSatW32_def WebRtcSpl_SubSatW32_def Let_def clamp_def in_i32_def)
  moreover have "i32 (c + d) = c + d" "i32 (c - d) = c - d"
    using assms by (auto intro!: i32_id simp: in_i16_def in_i32_def)
  ultimately show ?thesis
    by (simp add: WebRtcSpl_AddSatW16_def WebRtcSpl_SubSatW16_def SatW32ToW16_clamp)
qed

theorem saturating_arithmetic_witness:
  "WebRtcSpl_AddSatW32 2147483647 1 = 2147483647 \<and> WebRtcSpl_SubSatW32 (- 2147483648) 1 = - 2147483648 \<and>
   WebRtcSpl_AddSatW16 32767 (- 32768) = - 1 \<and> WebRtcSpl_SubSatW16 32767 (- 32768) = 32767"
  using saturating_arithmetic [of 2147483647 1 32767 "- 32768"] saturating_arithmetic [of "- 2147483648" 1 0 0]
  by (simp add: in_i32_def in_i16_def clamp_def)

section \<open>Normalisation\<close>

text \<open>
  The masks of the source select the bits \<open>k .. k + m - 1\<close>; the tests are
  comparisons with a power of two.
\<close>

lemma mask_and: "push_bit k (mask m) AND x = ((x div 2 ^ k) mod 2 ^ m) * 2 ^ k" for x :: int
proof -
  have "push_bit k (mask m) AND x = push_bit k (take_bit m (drop_bit k x))"
    by (rule bit_eqI) (auto simp: bit_simps)
  then show ?thesis
    by (simp add: push_bit_eq_mult take_bit_eq_mod drop_bit_eq_div)
qed

lemma high_mask_zero:
  fixes x :: int
  assumes "M = push_bit k (mask m)" and "0 \<le> x" and "x < 2 ^ (k + m)"
  shows "M AND x = 0 \<longleftrightarrow> x < 2 ^ k"
proof -
  have "x div 2 ^ k < 2 ^ m"
    using assms(3) by (rule div_pow_less)
  then have "(x div 2 ^ k) mod 2 ^ m = x div 2 ^ k"
    using assms(2) by (simp add: pos_imp_zdiv_nonneg_iff)
  moreover have "x div 2 ^ k = 0 \<longleftrightarrow> x < 2 ^ k"
    using assms(2) by (auto simp: zdiv_eq_0_iff)
  ultimately show ?thesis by (simp add: assms(1) mask_and)
qed

lemma mask_test_instance:
  fixes x :: int
  assumes "0 \<le> x" and "x < lim" and "lim = 2 ^ (k + m)" and "M = 2 ^ k * (2 ^ m - 1)"
  shows "(M AND x = 0) = (x < 2 ^ k)"
  using assms by (intro high_mask_zero [of M k m]) (simp_all add: push_bit_eq_mult mask_eq_exp_minus_1 mult.commute)

lemma mask_tests:
  fixes x :: int
  assumes "0 \<le> x"
  shows "x < 4294967296 \<Longrightarrow> (4294934528 AND x = 0) = (x < 2 ^ 15)"
    and "x < 4294967296 \<Longrightarrow> (4286578688 AND x = 0) = (x < 2 ^ 23)"
    and "x < 4294967296 \<Longrightarrow> (4160749568 AND x = 0) = (x < 2 ^ 27)"
    and "x < 4294967296 \<Longrightarrow> (3758096384 AND x = 0) = (x < 2 ^ 29)"
    and "x < 4294967296 \<Longrightarrow> (3221225472 AND x = 0) = (x < 2 ^ 30)"
    and "x < 4294967296 \<Longrightarrow> (4294901760 AND x = 0) = (x < 2 ^ 16)"
    and "x < 4294967296 \<Longrightarrow> (4278190080 AND x = 0) = (x < 2 ^ 24)"
    and "x < 4294967296 \<Longrightarrow> (4026531840 AND x = 0) = (x < 2 ^ 28)"
    and "x < 4294967296 \<Longrightarrow> (2147483648 AND x = 0) = (x < 2 ^ 31)"
    and "x < 65536 \<Longrightarrow> (65408 AND x = 0) = (x < 2 ^ 7)"
    and "x < 65536 \<Longrightarrow> (63488 AND x = 0) = (x < 2 ^ 11)"
    and "x < 65536 \<Longrightarrow> (57344 AND x = 0) = (x < 2 ^ 13)"
    and "x < 65536 \<Longrightarrow> (49152 AND x = 0) = (x < 2 ^ 14)"
    and "x < 65536 \<Longrightarrow> (65280 AND x = 0) = (x < 2 ^ 8)"
    and "x < 256 \<Longrightarrow> (240 AND x = 0) = (x < 2 ^ 4)"
    and "x < 16 \<Longrightarrow> (12 AND x = 0) = (x < 2 ^ 2)"
    and "x < 4 \<Longrightarrow> (2 AND x = 0) = (x < 2 ^ 1)"
    and "x < 2 \<Longrightarrow> (1 AND x = 0) = (x < 2 ^ 0)"
proof -
  show "x < 4294967296 \<Longrightarrow> (4294934528 AND x = 0) = (x < 2 ^ 15)"
    by (rule mask_test_instance [OF assms, where k = 15 and m = 17]) simp_all
  show "x < 4294967296 \<Longrightarrow> (4286578688 AND x = 0) = (x < 2 ^ 23)"
    by (rule mask_test_instance [OF assms, where k = 23 and m = 9]) simp_all
  show "x < 4294967296 \<Longrightarrow> (4160749568 AND x = 0) = (x < 2 ^ 27)"
    by (rule mask_test_instance [OF assms, where k = 27 and m = 5]) simp_all
  show "x < 4294967296 \<Longrightarrow> (3758096384 AND x = 0) = (x < 2 ^ 29)"
    by (rule mask_test_instance [OF assms, where k = 29 and m = 3]) simp_all
  show "x < 4294967296 \<Longrightarrow> (3221225472 AND x = 0) = (x < 2 ^ 30)"
    by (rule mask_test_instance [OF assms, where k = 30 and m = 2]) simp_all
  show "x < 4294967296 \<Longrightarrow> (4294901760 AND x = 0) = (x < 2 ^ 16)"
    by (rule mask_test_instance [OF assms, where k = 16 and m = 16]) simp_all
  show "x < 4294967296 \<Longrightarrow> (4278190080 AND x = 0) = (x < 2 ^ 24)"
    by (rule mask_test_instance [OF assms, where k = 24 and m = 8]) simp_all
  show "x < 4294967296 \<Longrightarrow> (4026531840 AND x = 0) = (x < 2 ^ 28)"
    by (rule mask_test_instance [OF assms, where k = 28 and m = 4]) simp_all
  show "x < 4294967296 \<Longrightarrow> (2147483648 AND x = 0) = (x < 2 ^ 31)"
    by (rule mask_test_instance [OF assms, where k = 31 and m = 1]) simp_all
  show "x < 65536 \<Longrightarrow> (65408 AND x = 0) = (x < 2 ^ 7)"
    by (rule mask_test_instance [OF assms, where k = 7 and m = 9]) simp_all
  show "x < 65536 \<Longrightarrow> (63488 AND x = 0) = (x < 2 ^ 11)"
    by (rule mask_test_instance [OF assms, where k = 11 and m = 5]) simp_all
  show "x < 65536 \<Longrightarrow> (57344 AND x = 0) = (x < 2 ^ 13)"
    by (rule mask_test_instance [OF assms, where k = 13 and m = 3]) simp_all
  show "x < 65536 \<Longrightarrow> (49152 AND x = 0) = (x < 2 ^ 14)"
    by (rule mask_test_instance [OF assms, where k = 14 and m = 2]) simp_all
  show "x < 65536 \<Longrightarrow> (65280 AND x = 0) = (x < 2 ^ 8)"
    by (rule mask_test_instance [OF assms, where k = 8 and m = 8]) simp_all
  show "x < 256 \<Longrightarrow> (240 AND x = 0) = (x < 2 ^ 4)"
    by (rule mask_test_instance [OF assms, where k = 4 and m = 4]) simp_all
  show "x < 16 \<Longrightarrow> (12 AND x = 0) = (x < 2 ^ 2)"
    by (rule mask_test_instance [OF assms, where k = 2 and m = 2]) simp_all
  show "x < 4 \<Longrightarrow> (2 AND x = 0) = (x < 2 ^ 1)"
    by (rule mask_test_instance [OF assms, where k = 1 and m = 1]) simp_all
  show "x < 2 \<Longrightarrow> (1 AND x = 0) = (x < 2 ^ 0)"
    by (rule mask_test_instance [OF assms, where k = 0 and m = 1]) simp_all
qed

text \<open>
  One step of the search: \<open>z\<close> positions are known to be free and the value
  scaled by \<open>2 ^ z\<close> lies in \<open>[2 ^ (t - s), 2 ^ W)\<close>; after the step it lies
  in \<open>[2 ^ t, 2 ^ W)\<close>.
\<close>

definition norm_step :: "int \<Rightarrow> nat \<Rightarrow> nat \<Rightarrow> int \<Rightarrow> int" where
  "norm_step a t s z = (if a * 2 ^ nat z < 2 ^ t then z + int s else z)"

definition norm_between :: "int \<Rightarrow> nat \<Rightarrow> nat \<Rightarrow> int \<Rightarrow> bool" where
  "norm_between a lo W z \<longleftrightarrow> 0 \<le> z \<and> 2 ^ lo \<le> a * 2 ^ nat z \<and> a * 2 ^ nat z < 2 ^ W"

lemma norm_step_between:
  assumes "norm_between a (t - s) W z" and "s \<le> t" and "t + s \<le> W"
  shows "norm_between a t W (norm_step a t s z)"
proof (cases "a * 2 ^ nat z < 2 ^ t")
  case True
  have z: "0 \<le> z" using assms(1) by (simp add: norm_between_def)
  have e: "a * 2 ^ nat (z + int s) = a * 2 ^ nat z * 2 ^ s"
    using z by (simp add: nat_add_distrib power_add)
  have "(2::int) ^ (t - s) * 2 ^ s \<le> a * 2 ^ nat z * 2 ^ s"
    using assms(1) by (intro mult_right_mono) (simp_all add: norm_between_def)
  moreover have "(2::int) ^ (t - s) * 2 ^ s = 2 ^ t"
    using assms(2) by (simp flip: power_add)
  moreover have "a * 2 ^ nat z * 2 ^ s < 2 ^ t * 2 ^ s"
    using True by simp
  moreover have "(2::int) ^ t * 2 ^ s \<le> 2 ^ W"
    using assms(3) by (simp flip: power_add)
  ultimately have "2 ^ t \<le> a * 2 ^ nat z * 2 ^ s" "a * 2 ^ nat z * 2 ^ s < 2 ^ W"
    by linarith+
  then show ?thesis
    using True z by (simp add: norm_step_def norm_between_def e)
next
  case False
  then show ?thesis using assms(1) by (simp add: norm_step_def norm_between_def)
qed

lemma norm_between_nonneg:
  assumes "norm_between a lo W z"
  shows "0 < a"
proof -
  have "0 < a * 2 ^ nat z"
    using assms by (auto simp: norm_between_def intro: less_le_trans [of 0 "2 ^ lo"])
  then show ?thesis by (simp add: zero_less_mult_iff)
qed

lemma norm_stage:
  assumes "norm_between a lo W z" and "x = a * 2 ^ nat z"
    and "lo = t - nat d" and "0 \<le> d" and "nat d \<le> t" and "t + nat d \<le> W" and "2 ^ W \<le> lim"
    and "\<And>x. 0 \<le> x \<Longrightarrow> x < lim \<Longrightarrow> (M AND x = 0) = (x < 2 ^ t)"
  shows "norm_between a t W (if M AND x = 0 then z + d else z)"
proof -
  have "0 \<le> x" "x < lim"
    using assms(1,2,7) norm_between_nonneg [OF assms(1)] by (auto simp: norm_between_def)
  then have "(if M AND x = 0 then z + d else z) = norm_step a t (nat d) z"
    using assms by (simp add: norm_step_def)
  then show ?thesis
    using norm_step_between [of a t "nat d" W z] assms by simp
qed

lemma norm_between_shifted:
  assumes "norm_between a lo W z"
  shows "W \<le> 31 \<Longrightarrow> u32 (shl32 a z) = a * 2 ^ nat z" "W \<le> 32 \<Longrightarrow> shlu32 a z = a * 2 ^ nat z"
    "W \<le> 31 \<Longrightarrow> shl32 a z = a * 2 ^ nat z"
proof -
  have b: "0 \<le> a * 2 ^ nat z" "a * 2 ^ nat z < 2 ^ W"
    using assms norm_between_nonneg [OF assms] by (auto simp: norm_between_def)
  have "W \<le> 31 \<Longrightarrow> (2::int) ^ W \<le> 2 ^ 31" "W \<le> 32 \<Longrightarrow> (2::int) ^ W \<le> 2 ^ 32"
    by (rule power_increasing; simp)+
  with b show "W \<le> 31 \<Longrightarrow> u32 (shl32 a z) = a * 2 ^ nat z" "W \<le> 32 \<Longrightarrow> shlu32 a z = a * 2 ^ nat z"
    "W \<le> 31 \<Longrightarrow> shl32 a z = a * 2 ^ nat z"
    by (auto simp: shl32_def shlu32_def i32_id u32_id in_i32_def in_u32_def)
qed

lemma NormW32_pos:
  assumes "0 < a" and "a < 2 ^ 31"
  shows "norm_between a 30 31 (WebRtcSpl_NormW32 a)"
proof -
  define z1 where "z1 = (if 0xFFFF8000 AND u32 a = 0 then 16 else 0 :: int)"
  define z2 where "z2 = (if 0xFF800000 AND u32 (shl32 a z1) = 0 then z1 + 8 else z1)"
  define z3 where "z3 = (if 0xF8000000 AND u32 (shl32 a z2) = 0 then z2 + 4 else z2)"
  define z4 where "z4 = (if 0xE0000000 AND u32 (shl32 a z3) = 0 then z3 + 2 else z3)"
  define z5 where "z5 = (if 0xC0000000 AND u32 (shl32 a z4) = 0 then z4 + 1 else z4)"
  have b1: "norm_between a 15 31 z1"
    using assms by (auto simp: z1_def u32_id in_u32_def mask_tests norm_between_def)
  have b2: "norm_between a 23 31 z2"
    unfolding z2_def by (rule norm_stage [OF b1 norm_between_shifted(1) [OF b1], of _ _ 4294967296])
      (simp_all add: mask_tests)
  have b3: "norm_between a 27 31 z3"
    unfolding z3_def by (rule norm_stage [OF b2 norm_between_shifted(1) [OF b2], of _ _ 4294967296])
      (simp_all add: mask_tests)
  have b4: "norm_between a 29 31 z4"
    unfolding z4_def by (rule norm_stage [OF b3 norm_between_shifted(1) [OF b3], of _ _ 4294967296])
      (simp_all add: mask_tests)
  have b5: "norm_between a 30 31 z5"
    unfolding z5_def by (rule norm_stage [OF b4 norm_between_shifted(1) [OF b4], of _ _ 4294967296])
      (simp_all add: mask_tests)
  have "WebRtcSpl_NormW32 a = z5"
    using assms by (simp add: WebRtcSpl_NormW32_def Let_def z1_def z2_def z3_def z4_def z5_def cong: if_cong)
  with b5 show ?thesis by simp
qed

lemma NormU32_pos:
  assumes "0 < a" and "a < 2 ^ 32"
  shows "norm_between a 31 32 (WebRtcSpl_NormU32 a)"
proof -
  define z1 where "z1 = (if 0xFFFF0000 AND a = 0 then 16 else 0 :: int)"
  define z2 where "z2 = (if 0xFF000000 AND shlu32 a z1 = 0 then z1 + 8 else z1)"
  define z3 where "z3 = (if 0xF0000000 AND shlu32 a z2 = 0 then z2 + 4 else z2)"
  define z4 where "z4 = (if 0xC0000000 AND shlu32 a z3 = 0 then z3 + 2 else z3)"
  define z5 where "z5 = (if 0x80000000 AND shlu32 a z4 = 0 then z4 + 1 else z4)"
  have b1: "norm_between a 16 32 z1"
    using assms by (auto simp: z1_def mask_tests norm_between_def)
  have b2: "norm_between a 24 32 z2"
    unfolding z2_def by (rule norm_stage [OF b1 norm_between_shifted(2) [OF b1], of _ _ 4294967296])
      (simp_all add: mask_tests)
  have b3: "norm_between a 28 32 z3"
    unfolding z3_def by (rule norm_stage [OF b2 norm_between_shifted(2) [OF b2], of _ _ 4294967296])
      (simp_all add: mask_tests)
  have b4: "norm_between a 30 32 z4"
    unfolding z4_def by (rule norm_stage [OF b3 norm_between_shifted(2) [OF b3], of _ _ 4294967296])
      (simp_all add: mask_tests)
  have b5: "norm_between a 31 32 z5"
    unfolding z5_def by (rule norm_stage [OF b4 norm_between_shifted(2) [OF b4], of _ _ 4294967296])
      (simp_all add: mask_tests)
  have "WebRtcSpl_NormU32 a = z5"
    using assms by (simp add: WebRtcSpl_NormU32_def Let_def z1_def z2_def z3_def z4_def z5_def cong: if_cong)
  with b5 show ?thesis by simp
qed

lemma NormW16_pos:
  assumes "0 < a" and "a < 2 ^ 15"
  shows "norm_between a 14 15 (WebRtcSpl_NormW16 a)"
proof -
  define z1 where "z1 = (if 0xFF80 AND a = 0 then 8 else 0 :: int)"
  define z2 where "z2 = (if 0xF800 AND shl32 a z1 = 0 then z1 + 4 else z1)"
  define z3 where "z3 = (if 0xE000 AND shl32 a z2 = 0 then z2 + 2 else z2)"
  define z4 where "z4 = (if 0xC000 AND shl32 a z3 = 0 then z3 + 1 else z3)"
  have b1: "norm_between a 7 15 z1"
    using assms by (auto simp: z1_def mask_tests norm_between_def)
  have b2: "norm_between a 11 15 z2"
    unfolding z2_def by (rule norm_stage [OF b1 norm_between_shifted(3) [OF b1], of _ _ 65536])
      (simp_all add: mask_tests)
  have b3: "norm_between a 13 15 z3"
    unfolding z3_def by (rule norm_stage [OF b2 norm_between_shifted(3) [OF b2], of _ _ 65536])
      (simp_all add: mask_tests)
  have b4: "norm_between a 14 15 z4"
    unfolding z4_def by (rule norm_stage [OF b3 norm_between_shifted(3) [OF b3], of _ _ 65536])
      (simp_all add: mask_tests)
  have "WebRtcSpl_NormW16 a = z4"
    using assms by (simp add: WebRtcSpl_NormW16_def Let_def z1_def z2_def z3_def z4_def cong: if_cong)
  with b4 show ?thesis by simp
qed

text \<open>A negative operand is normalised as its complement, \<open>- 1\<close> as zero would be.\<close>

lemma NormW32_neg: "a < - 1 \<Longrightarrow> WebRtcSpl_NormW32 a = WebRtcSpl_NormW32 (- a - 1)"
proof -
  assume "a < - 1"
  then have "(if a < 0 then NOT a else a) = - a - 1" "(a = 0) = False" "(- a - 1 = 0) = False"
    "(if - a - 1 < 0 then NOT (- a - 1) else - a - 1) = - a - 1"
    by (simp_all add: not_int_def)
  then show ?thesis by (simp only: WebRtcSpl_NormW32_def if_False)
qed

lemma NormW32_minus_1: "WebRtcSpl_NormW32 (- 1) = 31"
  by code_simp

lemma NormW16_neg: "a < - 1 \<Longrightarrow> - 32768 \<le> a \<Longrightarrow> WebRtcSpl_NormW16 a = WebRtcSpl_NormW16 (- a - 1)"
proof -
  assume "a < - 1" "- 32768 \<le> a"
  then have "(if a < 0 then i16 (NOT a) else a) = - a - 1" "(a = 0) = False" "(- a - 1 = 0) = False"
    "(if - a - 1 < 0 then i16 (NOT (- a - 1)) else - a - 1) = - a - 1"
    by (simp_all add: not_int_def i16_id in_i16_def)
  then show ?thesis by (simp only: WebRtcSpl_NormW16_def if_False)
qed

lemma NormW16_minus_1: "WebRtcSpl_NormW16 (- 1) = 15"
  by code_simp

text \<open>
  The contract of a normalisation: \<open>norm x\<close> is the number of left shifts that \<open>x\<close>
  takes without leaving its type, and not one fewer.
\<close>

locale normaliser =
  fixes norm :: "int \<Rightarrow> int" and lo :: int and hi :: int
  assumes range: "lo \<le> 0" "0 < hi"
    and norm_zero: "norm 0 = 0"
    and norm_nonneg: "lo \<le> x \<Longrightarrow> x \<le> hi \<Longrightarrow> 0 \<le> norm x"
    and norm_fits: "lo \<le> x \<Longrightarrow> x \<le> hi \<Longrightarrow> lo \<le> x * 2 ^ nat (norm x) \<and> x * 2 ^ nat (norm x) \<le> hi"
    and norm_full: "lo \<le> x \<Longrightarrow> x \<le> hi \<Longrightarrow> x \<noteq> 0 \<Longrightarrow>
      x * 2 ^ Suc (nat (norm x)) < lo \<or> hi < x * 2 ^ Suc (nat (norm x))"
begin

lemma shift_fits_down:
  assumes "lo \<le> x * 2 ^ n" and "x * 2 ^ n \<le> hi" and "m \<le> n"
  shows "lo \<le> x * 2 ^ m \<and> x * 2 ^ m \<le> hi"
proof -
  have le: "(2::int) ^ m \<le> 2 ^ n" using assms(3) by (simp add: power_increasing)
  show ?thesis
  proof (cases "0 \<le> x")
    case True
    then have "x * 2 ^ m \<le> x * 2 ^ n" "0 \<le> x * 2 ^ m"
      using le by (simp_all add: mult_left_mono)
    then show ?thesis using assms range by linarith
  next
    case False
    then have "x * 2 ^ n \<le> x * 2 ^ m" "x * 2 ^ m \<le> 0"
      using le by (simp_all add: mult_left_mono_neg mult_le_0_iff)
    then show ?thesis using assms range by linarith
  qed
qed

text \<open>The defining property, in one equivalence.\<close>

lemma shift_fits_iff:
  assumes "lo \<le> x" and "x \<le> hi" and "x \<noteq> 0"
  shows "(lo \<le> x * 2 ^ n \<and> x * 2 ^ n \<le> hi) = (int n \<le> norm x)"
proof
  assume fits: "lo \<le> x * 2 ^ n \<and> x * 2 ^ n \<le> hi"
  show "int n \<le> norm x"
  proof (rule ccontr)
    assume "\<not> int n \<le> norm x"
    then have "Suc (nat (norm x)) \<le> n" using norm_nonneg [OF assms(1,2)] by linarith
    from shift_fits_down [OF _ _ this] fits norm_full [OF assms] show False by fastforce
  qed
next
  assume "int n \<le> norm x"
  then have "n \<le> nat (norm x)" by linarith
  then show "lo \<le> x * 2 ^ n \<and> x * 2 ^ n \<le> hi"
    using shift_fits_down [of x "nat (norm x)" n] norm_fits [OF assms(1,2)] by simp
qed

lemma norm_unique:
  assumes "lo \<le> x" and "x \<le> hi" and "x \<noteq> 0"
    and "lo \<le> x * 2 ^ n \<and> x * 2 ^ n \<le> hi" and "\<not> (lo \<le> x * 2 ^ Suc n \<and> x * 2 ^ Suc n \<le> hi)"
  shows "norm x = int n"
  using assms shift_fits_iff [OF assms(1-3), of n] shift_fits_iff [OF assms(1-3), of "Suc n"] by linarith

text \<open>The shift is invertible: no bit is lost.\<close>

lemma shift_back: "shr (x * 2 ^ nat (norm x)) (norm x) = x"
  by (simp add: shr_def)

end

text \<open>From the search intervals to the contract, for the sign-symmetric types.\<close>

lemma between_fits:
  assumes "norm_between a W (Suc W) z"
  shows "0 \<le> z" and "a * 2 ^ nat z \<le> 2 ^ Suc W - 1" and "2 ^ Suc W - 1 < a * 2 ^ Suc (nat z)"
  using assms by (simp_all add: norm_between_def algebra_simps)

lemma between_complement:
  assumes "norm_between (- a - 1) W (Suc W) z"
  shows "0 \<le> z" and "- (2 ^ Suc W) \<le> a * 2 ^ nat z" and "a * 2 ^ Suc (nat z) < - (2 ^ Suc W)"
proof -
  define p where "p = (2::int) ^ nat z"
  have b: "0 \<le> z" "2 ^ W \<le> (- a - 1) * p" "(- a - 1) * p < 2 ^ Suc W" "0 < p"
    using assms by (simp_all add: norm_between_def p_def)
  then show "0 \<le> z" by simp
  have "0 < - a - 1"
    using norm_between_nonneg [OF assms] .
  then have "p * 1 \<le> p * (- a - 1)"
    using b(4) by (intro mult_left_mono) linarith+
  then have "p < 2 ^ Suc W"
    using b(3) by (simp add: mult.commute)
  then have "nat z < Suc W"
    unfolding p_def by (rule power_less_imp_less_exp [rotated]) simp
  then have q: "(2::int) ^ Suc W = 2 ^ (Suc W - nat z) * p"
    by (simp add: p_def flip: power_add)
  then have "- a - 1 < 2 ^ (Suc W - nat z)"
    using b(3,4) by simp
  then have "(- a) * p \<le> 2 ^ (Suc W - nat z) * p"
    using b(4) by (intro mult_right_mono) linarith+
  then have "- (2 ^ Suc W) \<le> a * p"
    unfolding q [symmetric] by linarith
  then show "- (2 ^ Suc W) \<le> a * 2 ^ nat z" by (simp only: p_def)
  have "a * p = - ((- a - 1) * p) - p" by (simp add: algebra_simps)
  then have "a * p < - (2 ^ W)" using b(2,4) by linarith
  moreover have "a * 2 ^ Suc (nat z) = 2 * (a * p)" "(2::int) ^ Suc W = 2 * 2 ^ W"
    by (simp_all add: p_def)
  ultimately show "a * 2 ^ Suc (nat z) < - (2 ^ Suc W)" by linarith
qed

definition norm_ok :: "int \<Rightarrow> int \<Rightarrow> int \<Rightarrow> int \<Rightarrow> bool" where
  "norm_ok lo hi x z \<longleftrightarrow> 0 \<le> z \<and> lo \<le> x * 2 ^ nat z \<and> x * 2 ^ nat z \<le> hi \<and>
     (x \<noteq> 0 \<longrightarrow> x * 2 ^ Suc (nat z) < lo \<or> hi < x * 2 ^ Suc (nat z))"

lemma norm_ok_pos:
  assumes "norm_between x W V z" and "V = Suc W" and "lo \<le> 0" and "hi = 2 ^ V - 1"
  shows "norm_ok lo hi x z"
proof -
  have "0 < x * 2 ^ nat z" using norm_between_nonneg [OF assms(1)] by simp
  moreover have "norm_between x W (Suc W) z" using assms(1,2) by simp
  note between_fits [OF this]
  ultimately show ?thesis using assms(2-4) by (simp only: norm_ok_def simp_thms)
qed

lemma norm_ok_neg:
  assumes "norm_between (- x - 1) W V z" and "V = Suc W" and "lo = - (2 ^ V)" and "0 \<le> hi"
  shows "norm_ok lo hi x z"
proof -
  have "x * 2 ^ nat z \<le> 0" using norm_between_nonneg [OF assms(1)] by (simp add: mult_nonpos_nonneg)
  moreover have "norm_between (- x - 1) W (Suc W) z" using assms(1,2) by simp
  note between_complement [OF this]
  ultimately show ?thesis using assms(2-4) by (simp only: norm_ok_def simp_thms)
qed

lemma norm_ok_NormW32:
  assumes "- 2147483648 \<le> x" and "x \<le> 2147483647"
  shows "norm_ok (- 2147483648) 2147483647 x (WebRtcSpl_NormW32 x)"
proof -
  consider "x = 0" | "x = - 1" | "0 < x" | "x < - 1" by linarith
  then show ?thesis
  proof cases
    case 3
    then have "norm_between x 30 31 (WebRtcSpl_NormW32 x)"
      using assms by (intro NormW32_pos) simp_all
    then show ?thesis by (rule norm_ok_pos) simp_all
  next
    case 4
    then have "norm_between (- x - 1) 30 31 (WebRtcSpl_NormW32 (- x - 1))"
      using assms by (intro NormW32_pos) simp_all
    then show ?thesis
      unfolding NormW32_neg [OF 4] by (rule norm_ok_neg) simp_all
  qed (simp_all add: NormW32_minus_1 norm_ok_def, simp add: WebRtcSpl_NormW32_def)
qed

lemma norm_ok_NormW16:
  assumes "- 32768 \<le> x" and "x \<le> 32767"
  shows "norm_ok (- 32768) 32767 x (WebRtcSpl_NormW16 x)"
proof -
  consider "x = 0" | "x = - 1" | "0 < x" | "x < - 1" by linarith
  then show ?thesis
  proof cases
    case 3
    then have "norm_between x 14 15 (WebRtcSpl_NormW16 x)"
      using assms by (intro NormW16_pos) simp_all
    then show ?thesis by (rule norm_ok_pos) simp_all
  next
    case 4
    then have "norm_between (- x - 1) 14 15 (WebRtcSpl_NormW16 (- x - 1))"
      using assms by (intro NormW16_pos) simp_all
    then show ?thesis
      unfolding NormW16_neg [OF 4 assms(1)] by (rule norm_ok_neg) simp_all
  qed (simp_all add: NormW16_minus_1 norm_ok_def, simp add: WebRtcSpl_NormW16_def)
qed

lemma norm_ok_NormU32:
  assumes "0 \<le> x" and "x \<le> 4294967295"
  shows "norm_ok 0 4294967295 x (WebRtcSpl_NormU32 x)"
proof (cases "x = 0")
  case False
  then have "norm_between x 31 32 (WebRtcSpl_NormU32 x)"
    using assms by (intro NormU32_pos) simp_all
  then show ?thesis by (rule norm_ok_pos) simp_all
qed (simp add: norm_ok_def WebRtcSpl_NormU32_def)

interpretation nw32: normaliser WebRtcSpl_NormW32 "- 2147483648" 2147483647
proof unfold_locales
  fix x :: int
  assume "- 2147483648 \<le> x" "x \<le> 2147483647"
  note ok = norm_ok_NormW32 [OF this, unfolded norm_ok_def]
  from ok show "0 \<le> WebRtcSpl_NormW32 x"
    and "- 2147483648 \<le> x * 2 ^ nat (WebRtcSpl_NormW32 x) \<and> x * 2 ^ nat (WebRtcSpl_NormW32 x) \<le> 2147483647"
    and "x \<noteq> 0 \<Longrightarrow> x * 2 ^ Suc (nat (WebRtcSpl_NormW32 x)) < - 2147483648 \<or> 2147483647 < x * 2 ^ Suc (nat (WebRtcSpl_NormW32 x))"
    by (simp_all only: simp_thms)
qed (simp_all add: WebRtcSpl_NormW32_def)

interpretation nu32: normaliser WebRtcSpl_NormU32 0 4294967295
proof unfold_locales
  fix x :: int
  assume "0 \<le> x" "x \<le> 4294967295"
  note ok = norm_ok_NormU32 [OF this, unfolded norm_ok_def]
  from ok show "0 \<le> WebRtcSpl_NormU32 x"
    and "0 \<le> x * 2 ^ nat (WebRtcSpl_NormU32 x) \<and> x * 2 ^ nat (WebRtcSpl_NormU32 x) \<le> 4294967295"
    and "x \<noteq> 0 \<Longrightarrow> x * 2 ^ Suc (nat (WebRtcSpl_NormU32 x)) < 0 \<or> 4294967295 < x * 2 ^ Suc (nat (WebRtcSpl_NormU32 x))"
    by (simp_all only: simp_thms)
qed (simp_all add: WebRtcSpl_NormU32_def)

interpretation nw16: normaliser WebRtcSpl_NormW16 "- 32768" 32767
proof unfold_locales
  fix x :: int
  assume "- 32768 \<le> x" "x \<le> 32767"
  note ok = norm_ok_NormW16 [OF this, unfolded norm_ok_def]
  from ok show "0 \<le> WebRtcSpl_NormW16 x"
    and "- 32768 \<le> x * 2 ^ nat (WebRtcSpl_NormW16 x) \<and> x * 2 ^ nat (WebRtcSpl_NormW16 x) \<le> 32767"
    and "x \<noteq> 0 \<Longrightarrow> x * 2 ^ Suc (nat (WebRtcSpl_NormW16 x)) < - 32768 \<or> 32767 < x * 2 ^ Suc (nat (WebRtcSpl_NormW16 x))"
    by (simp_all only: simp_thms)
qed (simp_all add: WebRtcSpl_NormW16_def)

text \<open>Normalisation. For every value of its type other than zero, each of the three
  routines returns exactly the number of left shifts the value takes without
  overflowing its type: a shift by \<open>n\<close> stays in range if and only if \<open>n\<close> is at
  most the result.\<close>

theorem normalisation_exact:
  shows "(in_i32 a \<and> a \<noteq> 0 \<longrightarrow> in_i32 (a * 2 ^ n) = (int n \<le> WebRtcSpl_NormW32 a)) \<and>
         (in_u32 b \<and> b \<noteq> 0 \<longrightarrow> in_u32 (b * 2 ^ n) = (int n \<le> WebRtcSpl_NormU32 b)) \<and>
         (in_i16 c \<and> c \<noteq> 0 \<longrightarrow> in_i16 (c * 2 ^ n) = (int n \<le> WebRtcSpl_NormW16 c))"
  using nw32.shift_fits_iff [of a n] nu32.shift_fits_iff [of b n] nw16.shift_fits_iff [of c n]
  unfolding in_i32_def in_u32_def in_i16_def by blast

theorem normalisation_exact_witness:
  "WebRtcSpl_NormW32 3 \<ge> 29 \<and> \<not> WebRtcSpl_NormU32 3 \<ge> 31 \<and> \<not> WebRtcSpl_NormW16 (- 3) \<ge> 14"
  using normalisation_exact [of 3 29 3 "- 3"] normalisation_exact [of 3 31 3 "- 3"]
    normalisation_exact [of 3 14 3 "- 3"]
  by (simp add: in_i32_def in_u32_def in_i16_def)

section \<open>Size in bits\<close>

text \<open>The search of \<open>WebRtcSpl_GetSizeInBits\<close>, from the other side: the part of \<open>n\<close>
  above the \<open>bits\<close> found so far is known to be below \<open>2 ^ w\<close>.\<close>

definition size_below :: "int \<Rightarrow> nat \<Rightarrow> int \<Rightarrow> bool" where
  "size_below n w bits \<longleftrightarrow> 0 \<le> bits \<and> shr n bits < 2 ^ w \<and> (bits = 0 \<or> 0 < shr n bits)"

lemma size_stage:
  assumes "size_below n w bits" and "0 \<le> n" and "w = k + k" and "int k = d"
    and "\<And>x. 0 \<le> x \<Longrightarrow> x < 2 ^ w \<Longrightarrow> (M AND x = 0) = (x < 2 ^ k)"
  shows "size_below n k (if M AND shr n bits \<noteq> 0 then bits + d else bits)"
proof -
  have sb: "0 \<le> bits" "shr n bits < 2 ^ w" "bits = 0 \<or> 0 < shr n bits"
    using assms(1) by (simp_all add: size_below_def)
  have e: "shr n (bits + d) = shr n bits div 2 ^ k"
    using assms(2,4) sb(1) by (auto simp: shr_def nat_add_distrib power_add zdiv_zmult2_eq)
  have nn: "0 \<le> shr n bits" using assms(2) by (rule shr_nonneg)
  have t: "(M AND shr n bits = 0) = (shr n bits < 2 ^ k)"
    using assms(5) [OF nn sb(2)] .
  have "shr n bits div 2 ^ k < 2 ^ k"
    using sb(2) assms(3) by (simp add: div_pow_less)
  then show ?thesis
    using sb t e assms(4) by (auto simp: size_below_def pos_imp_zdiv_pos_iff)
qed

lemma GetSizeInBits_exact:
  assumes "0 \<le> n" and "n < 2 ^ 32" and "b = WebRtcSpl_GetSizeInBits n"
  shows "0 \<le> b" and "n < 2 ^ nat b" and "n = 0 \<longrightarrow> b = 0" and "0 < n \<longrightarrow> 2 ^ (nat b - 1) \<le> n"
proof -
  define b1 where "b1 = (if 0xFFFF0000 AND shr n 0 \<noteq> 0 then 0 + 16 else 0 :: int)"
  define b2 where "b2 = (if 0x0000FF00 AND shr n b1 \<noteq> 0 then b1 + 8 else b1)"
  define b3 where "b3 = (if 0x000000F0 AND shr n b2 \<noteq> 0 then b2 + 4 else b2)"
  define b4 where "b4 = (if 0x0000000C AND shr n b3 \<noteq> 0 then b3 + 2 else b3)"
  define b5 where "b5 = (if 0x00000002 AND shr n b4 \<noteq> 0 then b4 + 1 else b4)"
  have "size_below n 32 0" using assms(1,2) by (simp add: size_below_def)
  then have "size_below n 16 b1"
    unfolding b1_def by (rule size_stage) (simp_all add: assms(1) mask_tests)
  then have "size_below n 8 b2"
    unfolding b2_def by (rule size_stage) (simp_all add: assms(1) mask_tests)
  then have "size_below n 4 b3"
    unfolding b3_def by (rule size_stage) (simp_all add: assms(1) mask_tests)
  then have "size_below n 2 b4"
    unfolding b4_def by (rule size_stage) (simp_all add: assms(1) mask_tests)
  then have "size_below n 1 b5"
    unfolding b5_def by (rule size_stage) (simp_all add: assms(1) mask_tests(17) [simplified])
  then have s5: "0 \<le> b5" "shr n b5 < 2" "b5 = 0 \<or> 0 < shr n b5"
    by (simp_all add: size_below_def)
  have b: "b = (if 1 AND shr n b5 \<noteq> 0 then b5 + 1 else b5)"
    by (simp only: assms(3) WebRtcSpl_GetSizeInBits_def Let_def b1_def b2_def b3_def b4_def b5_def
        shr_0 add_0)
  consider "shr n b5 = 0" "b = 0" | "shr n b5 = 1" "b = b5 + 1"
    using s5 shr_nonneg [OF assms(1), of b5] b mask_tests(18) [of "shr n b5"] by fastforce
  then have "0 \<le> b \<and> n < 2 ^ nat b \<and> (n = 0 \<longrightarrow> b = 0) \<and> (0 < n \<longrightarrow> 2 ^ (nat b - 1) \<le> n)"
  proof cases
    case 1
    then have "b5 = 0" "n = 0" using s5 b by auto
    with 1 show ?thesis by simp
  next
    case 2
    have "n div 2 ^ nat b5 = 1" using 2(1) by (simp add: shr_def)
    with div_mult_mod_eq [of n "2 ^ nat b5"] have "2 ^ nat b5 + n mod 2 ^ nat b5 = n" by simp
    moreover have "0 \<le> n mod 2 ^ nat b5" "n mod 2 ^ nat b5 < 2 ^ nat b5" by simp_all
    ultimately have "2 ^ nat b5 \<le> n" "n < 2 * 2 ^ nat b5" by linarith+
    moreover from this(1) have "0 < n"
      by (meson less_le_trans zero_less_numeral zero_less_power)
    ultimately show ?thesis using 2(2) s5(1) by (simp add: nat_add_distrib)
  qed
  then show "0 \<le> b" and "n < 2 ^ nat b" and "n = 0 \<longrightarrow> b = 0" and "0 < n \<longrightarrow> 2 ^ (nat b - 1) \<le> n"
    by blast+
qed

lemma GetSizeInBits_iff:
  assumes n: "0 \<le> n" "n < 2 ^ 32"
  shows "(n < 2 ^ k) = (WebRtcSpl_GetSizeInBits n \<le> int k)"
proof -
  define b where "b = WebRtcSpl_GetSizeInBits n"
  note ex = GetSizeInBits_exact [OF n b_def]
  have "(n < 2 ^ k) = (b \<le> int k)"
  proof
    assume "n < 2 ^ k"
    show "b \<le> int k"
    proof (cases "n = 0")
      case False
      then have "2 ^ (nat b - 1) < (2::int) ^ k" using ex(4) n(1) \<open>n < 2 ^ k\<close> by linarith
      then show ?thesis using power_less_imp_less_exp [of "2::int" "nat b - 1" k] by simp
    qed (use ex in simp)
  next
    assume "b \<le> int k"
    then have "nat b \<le> k" by simp
    then have "(2::int) ^ nat b \<le> 2 ^ k" by (rule power_increasing) simp
    with ex(2) show "n < 2 ^ k" by linarith
  qed
  then show ?thesis by (simp add: b_def)
qed

lemma GetSizeInBits_bounds:
  "0 \<le> n \<Longrightarrow> n < 2 ^ 32 \<Longrightarrow> 0 \<le> WebRtcSpl_GetSizeInBits n \<and> WebRtcSpl_GetSizeInBits n \<le> 32"
  using GetSizeInBits_iff [of n 32] GetSizeInBits_exact(1) [of n, OF _ _ refl] by simp

text \<open>\<open>WebRtcSpl_GetSizeInBits\<close> is the length of the binary representation of every
  32-bit unsigned value: the smallest \<open>b\<close> with \<open>n < 2 ^ b\<close>.\<close>

theorem GetSizeInBits_length:
  assumes "in_u32 n"
  shows "0 \<le> WebRtcSpl_GetSizeInBits n \<and> WebRtcSpl_GetSizeInBits n \<le> 32 \<and>
         (n < 2 ^ k) = (WebRtcSpl_GetSizeInBits n \<le> int k)"
  using assms GetSizeInBits_iff [of n k] GetSizeInBits_bounds [of n] by (simp add: in_u32_def)

theorem GetSizeInBits_length_witness:
  "WebRtcSpl_GetSizeInBits 1000 \<le> 10 \<and> \<not> WebRtcSpl_GetSizeInBits 1000 \<le> 9"
  using GetSizeInBits_length [of 1000 10] GetSizeInBits_length [of 1000 9] by (simp add: in_u32_def)

end
