(* ===== verification/Spl_Math.thy ===== *)
theory Spl_Math
  imports Spl_Inline
begin

unbundle bit_operations_syntax

text \<open>
  Scalar routines of the signal processing library: \<open>division_operations.c\<close>,
  \<open>spl_sqrt_floor.c\<close>, \<open>spl_sqrt.c\<close>, \<open>sqrt_of_one_minus_x_squared.c\<close>,
  \<open>randomization_functions.c\<close> and \<open>refl_coef_to_lpc.c\<close>.
\<close>

section \<open>Divisions\<close>

text \<open>C division truncates: \<open>sdiv\<close>.\<close>

definition WebRtcSpl_DivU32U16 :: "int \<Rightarrow> int \<Rightarrow> int" where
  "WebRtcSpl_DivU32U16 num den = (if den \<noteq> 0 then num div den else 0xFFFFFFFF)"

definition WebRtcSpl_DivW32W16 :: "int \<Rightarrow> int \<Rightarrow> int" where
  "WebRtcSpl_DivW32W16 num den = (if den \<noteq> 0 then i32 (num sdiv den) else 0x7FFFFFFF)"

definition WebRtcSpl_DivW32W16ResW16 :: "int \<Rightarrow> int \<Rightarrow> int" where
  "WebRtcSpl_DivW32W16ResW16 num den = (if den \<noteq> 0 then i16 (num sdiv den) else 0x7FFF)"

text \<open>One turn of the loop of \<open>WebRtcSpl_DivResultInQ31\<close>, on \<open>(div, L_num)\<close>.\<close>

definition div_q31_step :: "int \<Rightarrow> int \<times> int \<Rightarrow> int \<times> int" where
  "div_q31_step L_den = (\<lambda>(dv, L_num).
     (let dv = shl32 dv 1; L_num = shl32 L_num 1
      in if L_num \<ge> L_den then (i32 (dv + 1), i32 (L_num - L_den)) else (dv, L_num)))"

definition WebRtcSpl_DivResultInQ31 :: "int \<Rightarrow> int \<Rightarrow> int" where
  "WebRtcSpl_DivResultInQ31 num den =
     (if num = 0 then 0
      else
        (let L_num = (if num < 0 then i32 (- num) else num);
             L_den = (if den < 0 then i32 (- den) else den);
             change_sign = c_bool (num < 0) + c_bool (den < 0);
             dv = fst ((div_q31_step L_den ^^ 31) (0, L_num))
         in if change_sign = 1 then i32 (- dv) else dv))"

definition WebRtcSpl_DivW32HiLow :: "int \<Rightarrow> int \<Rightarrow> int \<Rightarrow> int" where
  "WebRtcSpl_DivW32HiLow num den_hi den_low =
     (let approx = i16 (WebRtcSpl_DivW32W16 0x1FFFFFFF den_hi);
          tmpW32 = i32 (shl32 (i32 (den_hi * approx)) 1 + shl32 (shr (i32 (den_low * approx)) 15) 1);
          tmpW32 = i32 (0x7fffffff - tmpW32);
          tmp_hi = i16 (shr tmpW32 16);
          tmp_low = i16 (shr (i32 (tmpW32 - shl32 tmp_hi 16)) 1);
          tmpW32 = shl32 (i32 (tmp_hi * approx + shr (i32 (tmp_low * approx)) 15)) 1;
          tmp_hi = i16 (shr tmpW32 16);
          tmp_low = i16 (shr (i32 (tmpW32 - shl32 tmp_hi 16)) 1);
          num_hi = i16 (shr num 16);
          num_low = i16 (shr (i32 (num - shl32 num_hi 16)) 1);
          tmpW32 = i32 (num_hi * tmp_hi + shr (i32 (num_hi * tmp_low)) 15 + shr (i32 (num_low * tmp_hi)) 15)
      in shl32 tmpW32 3)"

section \<open>Square roots\<close>

text \<open>The macro \<open>WEBRTC_SPL_SQRT_ITER(N)\<close>, on \<open>(value, root)\<close>.\<close>

definition WEBRTC_SPL_SQRT_ITER :: "int \<Rightarrow> int \<times> int \<Rightarrow> int \<times> int" where
  "WEBRTC_SPL_SQRT_ITER N = (\<lambda>(v, root).
     (let try1 = i32 (root + shl32 1 N)
      in if v \<ge> shl32 try1 N then (i32 (v - shl32 try1 N), root OR shl32 2 N) else (v, root)))"

definition WebRtcSpl_SqrtFloor :: "int \<Rightarrow> int" where
  "WebRtcSpl_SqrtFloor v =
     shr (snd (fold WEBRTC_SPL_SQRT_ITER [15, 14, 13, 12, 11, 10, 9, 8, 7, 6, 5, 4, 3, 2, 1, 0] (v, 0))) 1"

definition WebRtcSpl_SqrtLocal :: "int \<Rightarrow> int" where
  "WebRtcSpl_SqrtLocal inp =
     (let B = inp sdiv 2;
          B = i32 (B - 0x40000000);
          x_half = i16 (shr B 16);
          B = i32 (B + 0x40000000);
          B = i32 (B + 0x40000000);
          x2 = i32 (x_half * x_half * 2);
          A = i32 (- x2);
          B = i32 (B + shr A 1);
          A = shr A 16;
          A = i32 (A * A * 2);
          t16 = i16 (shr A 16);
          B = i32 (B + (- 20480) * t16 * 2);
          A = i32 (x_half * t16 * 2);
          t16 = i16 (shr A 16);
          B = i32 (B + 28672 * t16 * 2);
          t16 = i16 (shr x2 16);
          A = i32 (x_half * t16 * 2);
          B = i32 (B + shr A 1);
          B = i32 (B + 32768)
      in B)"

definition WebRtcSpl_Sqrt :: "int \<Rightarrow> int" where
  "WebRtcSpl_Sqrt v =
     (if v = 0 then 0
      else
        (let k_sqrt_2 = 23170;
             sh = WebRtcSpl_NormW32 v;
             A = shl32 v sh;
             A = (if A < WEBRTC_SPL_WORD32_MAX - 32767 then i32 (A + 32768) else WEBRTC_SPL_WORD32_MAX);
             x_norm = i16 (shr A 16);
             nshift = i16 (sh sdiv 2);
             A = shl32 x_norm 16;
             A = WEBRTC_SPL_ABS_W32 A;
             A = WebRtcSpl_SqrtLocal A;
             A = (if 2 * nshift = sh
                  then (let t16 = i16 (shr A 16);
                            A = i32 (k_sqrt_2 * t16 * 2);
                            A = i32 (A + 32768);
                            A = A AND 0x7fff0000
                        in shr A 15)
                  else shr A 16);
             A = A AND 0x0000ffff
         in shr A nshift))"

definition WebRtcSpl_SqrtOfOneMinusXSquared :: "samples \<Rightarrow> samples" where
  "WebRtcSpl_SqrtOfOneMinusXSquared xQ15 =
     map (\<lambda>tmp. i16 (WebRtcSpl_Sqrt (i32 (1073741823 - i32 (tmp * tmp))))) xQ15"

section \<open>Random numbers\<close>

definition kMaxSeedUsed :: int where "kMaxSeedUsed = 0x80000000"

definition kRandNTable :: "samples" where
  "kRandNTable = [
    9178, - 7260, 40, 10189, 4894, - 3531, - 13779, 14764, - 4008, - 8884, - 8990, 1008, 7368, 5184,
    3251, - 5817, - 9786, 5963, 1770, 8066, - 7135, 10772, - 2298, 1361, 6484, 2241, - 8633, 792,
    199, - 3344, 6553, - 10079, - 15040, 95, 11608, - 12469, 14161, - 4176, 2476, 6403, 13685, - 16005,
    6646, 2239, 10916, - 3004, - 602, - 3141, 2142, 14144, - 5829, 5305, 8209, 4713, 2697, - 5112,
    16092, - 1210, - 2891, - 6631, - 5360, - 11878, - 6781, - 2739, - 6392, 536, 10923, 10872, 5059, - 4748,
    - 7770, 5477, 38, - 1025, - 2892, 1638, 6304, 14375, - 11028, 1553, - 1565, 10762, - 393, 4040,
    5257, 12310, 6554, - 4799, 4899, - 6354, 1603, - 1048, - 2220, 8247, - 186, - 8944, - 12004, 2332,
    4801, - 4933, 6371, 131, 8614, - 5927, - 8287, - 22760, 4033, - 15162, 3385, 3246, 3153, - 5250,
    3766, 784, 6494, - 62, 3531, - 1582, 15572, 662, - 3952, - 330, - 3196, 669, 7236, - 2678,
    - 6569, 23319, - 8645, - 741, 14830, - 15976, 4903, 315, - 11342, 10311, 1858, - 7777, 2145, 5436,
    5677, - 113, - 10033, 826, - 1353, 17210, 7768, 986, - 1471, 8291, - 4982, 8207, - 14911, - 6255,
    - 2449, - 11881, - 7059, - 11703, - 4338, 8025, 7538, - 2823, - 12490, 9470, - 1613, - 2529, - 10092, - 7807,
    9480, 6970, - 12844, 5123, 3532, 4816, 4803, - 8455, - 5045, 14032, - 4378, - 1643, 5756, - 11041,
    - 2732, - 16618, - 6430, - 18375, - 3320, 6098, 5131, - 4269, - 8840, 2482, - 7048, 1547, - 21890, - 6505,
    - 7414, - 424, - 11722, 7955, 1653, - 17299, 1823, 473, - 9232, 3337, 1111, 873, 4018, - 8982,
    9889, 3531, - 11763, - 3799, 7373, - 4539, 3231, 7054, - 8537, 7616, 6244, 16635, 447, - 2915,
    13967, 705, - 2669, - 1520, - 1771, - 16188, 5956, 5117, 6371, - 9936, - 1448, 2480, 5128, 7550,
    - 8130, 5236, 8213, - 6443, 7707, - 1950, - 13811, 7218, 7031, - 3883, 67, 5731, - 2874, 13480,
    - 3743, 9298, - 3280, 3552, - 4425, - 18, - 3785, - 9988, - 5357, 5477, - 11794, 2117, 1416, - 9935,
    3376, 802, - 5079, - 8243, 12652, 66, 3653, - 2368, 6781, - 21895, - 7227, 2487, 7839, - 385,
    6646, - 7016, - 4658, 5531, - 1705, 834, 129, 3694, - 1343, 2238, - 22640, - 6417, - 11139, 11301,
    - 2945, - 3494, - 5626, 185, - 3615, - 2041, - 7972, - 3106, - 60, - 23497, - 1566, 17064, 3519, 2518,
    304, - 6805, - 10269, 2105, 1936, - 426, - 736, - 8122, - 1467, 4238, - 6939, - 13309, 360, 7402,
    - 7970, 12576, 3287, 12194, - 6289, - 16006, 9171, 4042, - 9193, 9123, - 2512, 6388, - 4734, - 8739,
    1028, - 5406, - 1696, 5889, - 666, - 4736, 4971, 3565, 9362, - 6292, 3876, - 3652, - 19666, 7523,
    - 4061, 391, - 11773, 7502, - 3763, 4929, - 9478, 13278, 2805, 4496, 7814, 16419, 12455, - 14773,
    2127, - 2746, 3763, 4847, 3698, 6978, 4751, - 6957, - 3581, - 45, 6252, 1513, - 4797, - 7925,
    11270, 16188, - 2359, - 5269, 9376, - 10777, 7262, 20031, - 6515, - 2208, - 5353, 8085, - 1341, - 1303,
    7333, 5576, 3625, 5763, - 7931, 9833, - 3371, - 10305, 6534, - 13539, - 9971, 997, 8464, - 4064,
    - 1495, 1857, 13624, 5458, 9490, - 11086, - 4524, 12022, - 550, - 198, 408, - 8455, - 7068, 10289,
    9712, - 3366, 9028, - 7621, - 5243, 2362, 6909, 4672, - 4933, - 1799, 4709, - 4563, - 62, - 566,
    1624, - 7010, 14730, - 17791, - 3697, - 2344, - 1741, 7099, - 9509, - 6855, - 1989, 3495, - 2289, 2031,
    12784, 891, 14189, - 3963, - 5683, 421, - 12575, 1724, - 12682, - 5970, - 8169, 3143, - 1824, - 5488,
    - 5130, 8536, 12799, 794, 5738, 3459, - 11689, - 258, - 3738, - 3775, - 8742, 2333, 8312, - 9383,
    10331, 13119, 8398, 10644, - 19433, - 6446, - 16277, - 11793, 16284, 9345, 15222, 15834, 2009, - 7349,
    130, - 14547, 338, - 5998, 3337, 21492, 2406, 7703, - 951, 11196, - 564, 3406, 2217, 4806,
    2374, - 5797, 11839, 8940, - 11874, 18213, 2855, 10492]"

definition IncreaseSeed :: "int \<Rightarrow> int" where
  "IncreaseSeed seed = u32 (seed * 69069 + 1) AND (kMaxSeedUsed - 1)"

text \<open>The generators return the new seed and the number.\<close>

definition WebRtcSpl_RandU :: "int \<Rightarrow> int \<times> int" where
  "WebRtcSpl_RandU seed = (let s = IncreaseSeed seed in (s, i16 (shr s 16)))"

definition WebRtcSpl_RandN :: "int \<Rightarrow> int \<times> int" where
  "WebRtcSpl_RandN seed = (let s = IncreaseSeed seed in (s, kRandNTable ! nat (shr s 23)))"

primrec rand_u_array :: "nat \<Rightarrow> int \<Rightarrow> int \<times> samples" where
  "rand_u_array 0 seed = (seed, [])"
| "rand_u_array (Suc n) seed =
     (let (seed, v) = WebRtcSpl_RandU seed; (seed, vs) = rand_u_array n seed in (seed, v # vs))"

definition WebRtcSpl_RandUArray :: "samples \<Rightarrow> int \<Rightarrow> int \<Rightarrow> int \<times> samples \<times> int" where
  "WebRtcSpl_RandUArray vector vector_length seed =
     (let (seed, vs) = rand_u_array (nat vector_length) seed
      in (seed, mem_copy vector 0 vs, vector_length))"

section \<open>Reflection coefficients to predictor coefficients\<close>

text \<open>
  One turn of the outer loop: \<open>a\<close> and the scratch array \<open>any\<close>; \<open>any[0]\<close> is set
  before the loop and never changes.
\<close>

definition refl_coef_to_lpc_step :: "samples \<Rightarrow> nat \<Rightarrow> samples \<times> samples \<Rightarrow> samples \<times> samples" where
  "refl_coef_to_lpc_step k m = (\<lambda>(a, any).
     (let any = any[m + 1 := shr (k ! m) 3];
          any = fold (\<lambda>i any. any[i + 1 := i16 (a ! (i + 1) + i16 (shr (i32 (a ! (m - i) * k ! m)) 15))])
                  [0..<m] any;
          a = mem_copy a 0 (take (m + 2) any)
      in (a, any)))"

definition WebRtcSpl_ReflCoefToLpc :: "samples \<Rightarrow> nat \<Rightarrow> samples \<Rightarrow> samples" where
  "WebRtcSpl_ReflCoefToLpc k use_order a =
     (let a = a[0 := 4096];
          any = (replicate 15 0)[0 := 4096];
          a = a[1 := shr (k ! 0) 3]
      in fst (fold (refl_coef_to_lpc_step k) [1..<use_order] (a, any)))"

section \<open>Division\<close>

lemma sdiv_nonneg: "0 \<le> x \<Longrightarrow> 0 \<le> y \<Longrightarrow> x sdiv y = x div (y::int)"
  by (simp add: signed_divide_int_def sgn_if)

lemma DivW32W16_nonneg: "0 \<le> x \<Longrightarrow> x \<le> 2147483647 \<Longrightarrow> 0 < d \<Longrightarrow> WebRtcSpl_DivW32W16 x d = x div d"
proof -
  assume a: "0 \<le> x" "x \<le> 2147483647" "0 < d"
  have "x div d \<le> x div 1" using a by (intro zdiv_mono2) simp_all
  moreover have "0 \<le> x div d" using a by (simp add: pos_imp_zdiv_nonneg_iff)
  ultimately show ?thesis using a by (simp add: WebRtcSpl_DivW32W16_def sdiv_nonneg i32_id in_i32_def)
qed

section \<open>The integer square root\<close>

text \<open>
  Before the step for bit \<open>N - 1\<close>: \<open>root\<close> holds twice the root \<open>R\<close> found so far, a
  multiple of \<open>2 ^ N\<close>, and \<open>value\<close> the rest \<open>v - R\<^sup>2\<close>.
\<close>

definition sqrt_inv :: "int \<Rightarrow> nat \<Rightarrow> int \<times> int \<Rightarrow> bool" where
  "sqrt_inv v N st \<longleftrightarrow> (\<exists>R. st = (v - R * R, 2 * R) \<and> 2 ^ N dvd R \<and> 0 \<le> R \<and> R * R \<le> v \<and>
     v < (R + 2 ^ N) * (R + 2 ^ N))"

lemma or_disjoint:
  fixes x :: int
  assumes "2 ^ Suc k dvd x"
  shows "x OR 2 ^ k = x + 2 ^ k"
proof -
  obtain c where "x = 2 ^ Suc k * c" using assms by (rule dvdE)
  then have "\<not> bit x k"
    by (simp add: bit_iff_odd mult.assoc)
  then have "x AND 2 ^ k = 0"
    by (simp add: and_exp_eq_0_iff_not_bit)
  then show ?thesis by (simp add: disjunctive_add_eq_or)
qed

lemma root_bound:
  fixes R :: int
  assumes "R * R \<le> v" and "v < 2147483648"
  shows "R \<le> 46340"
proof (rule ccontr)
  assume "\<not> R \<le> 46340"
  then have "46341 * 46341 \<le> R * R" by (intro mult_mono) simp_all
  with assms show False by simp
qed

lemma sqrt_trial_bound:
  fixes R :: int
  assumes "2 ^ Suc N dvd R" and "0 \<le> R" and "R \<le> 46340" and "N \<le> 15"
  shows "(2 * R + 2 ^ N) * 2 ^ N < 2147483648"
proof (cases "N = 15")
  case True
  then have "65536 dvd R" using assms(1) by simp
  then have "R = 0" using assms(2,3) by (auto simp: dvd_def)
  then show ?thesis by (simp add: True)
next
  case False
  have "(2::int) ^ N \<le> 2 ^ 14"
    using False assms(4) by (intro power_increasing) simp_all
  then have "(2 * R + 2 ^ N) * 2 ^ N \<le> (2 * 46340 + 16384) * 16384"
    using assms(2,3) by (intro mult_mono) simp_all
  then show ?thesis by simp
qed

lemma sqrt_inv_step:
  assumes "sqrt_inv v (Suc N) st" and "0 \<le> v" and "v < 2147483648" and "N \<le> 15"
  shows "sqrt_inv v N (WEBRTC_SPL_SQRT_ITER (int N) st)"
proof -
  from assms(1) obtain R where R: "st = (v - R * R, 2 * R)" "2 ^ Suc N dvd R" "0 \<le> R" "R * R \<le> v"
    "v < (R + 2 ^ Suc N) * (R + 2 ^ Suc N)"
    by (auto simp: sqrt_inv_def)
  let ?t = "2 * R + 2 ^ N"
  have small: "R \<le> 46340" using root_bound [OF R(4) assms(3)] .
  have t: "?t * 2 ^ N < 2147483648" using sqrt_trial_bound [OF R(2,3) small assms(4)] .
  have "(2::int) ^ N \<le> 2 ^ 15" using assms(4) by (intro power_increasing) simp_all
  then have p: "(2::int) ^ N \<le> 32768" by simp
  have p0: "0 < (2::int) ^ N" by simp
  have cast: "i32 (2 ^ N) = 2 ^ N" "i32 ?t = ?t" "i32 (2 * 2 ^ N) = 2 * 2 ^ N" "i32 (?t * 2 ^ N) = ?t * 2 ^ N"
    using p p0 small R(3) t mult_nonneg_nonneg [of ?t "2 ^ N"] by (auto intro!: i32_id_nonneg)
  have d: "2 ^ N dvd R" using R(2) by (auto simp: dvd_def)
  have "2 * 2 ^ Suc N dvd 2 * R" using R(2) by (rule mult_dvd_mono [OF dvd_refl])
  then have "2 ^ Suc (Suc N) dvd 2 * R" by simp
  from or_disjoint [OF this] have orr: "2 * R OR 2 * 2 ^ N = 2 * (R + 2 ^ N)" by simp
  have sq: "(R + 2 ^ N) * (R + 2 ^ N) = R * R + ?t * 2 ^ N" by (simp add: algebra_simps)
  have nn: "0 \<le> ?t * 2 ^ N" "0 \<le> R * R" using R(3) by simp_all
  have sub: "i32 (v - R * R - ?t * 2 ^ N) = v - (R + 2 ^ N) * (R + 2 ^ N)" if "?t * 2 ^ N \<le> v - R * R"
    unfolding sq by (rule trans [OF i32_id_nonneg]; use that assms(3) nn in linarith)
  show ?thesis
  proof (cases "?t * 2 ^ N \<le> v - R * R")
    case True
    then have "WEBRTC_SPL_SQRT_ITER (int N) st
        = (v - (R + 2 ^ N) * (R + 2 ^ N), 2 * (R + 2 ^ N))"
      using sub [OF True] by (simp add: WEBRTC_SPL_SQRT_ITER_def R(1) shl32_def cast orr)
    moreover have "(R + 2 ^ N) * (R + 2 ^ N) \<le> v" using True sq by linarith
    moreover have "R + 2 ^ N + 2 ^ N = R + 2 ^ Suc N" by simp
    then have "v < (R + 2 ^ N + 2 ^ N) * (R + 2 ^ N + 2 ^ N)" using R(5) by (simp only:)
    ultimately show ?thesis
      using d R(3) p0 unfolding sqrt_inv_def by (intro exI [of _ "R + 2 ^ N"] conjI) simp_all
  next
    case False
    then have "WEBRTC_SPL_SQRT_ITER (int N) st = st"
      by (simp add: WEBRTC_SPL_SQRT_ITER_def R(1) shl32_def cast)
    moreover have "v < (R + 2 ^ N) * (R + 2 ^ N)" using False sq by linarith
    ultimately show ?thesis
      using d R unfolding sqrt_inv_def by (intro exI [of _ R]) simp
  qed
qed


lemma sqrt_inv_loop:
  assumes "0 \<le> v" and "v < 2147483648" and "k \<le> 16" and "sqrt_inv v k st"
  shows "sqrt_inv v 0 (fold WEBRTC_SPL_SQRT_ITER (map int (rev [0..<k])) st)"
  using assms(3,4)
proof (induction k arbitrary: st)
  case (Suc k)
  then show ?case using sqrt_inv_step [of v k st] assms(1,2) by simp
qed simp

lemma sqrt_bits: "[15, 14, 13, 12, 11, 10, 9, 8, 7, 6, 5, 4, 3, 2, 1, 0] = map int (rev [0..<16])"
  by (simp add: upt_rec)

lemma SqrtFloor_neg:
  assumes "v < 0"
  shows "WebRtcSpl_SqrtFloor v = 0"
proof -
  have "WEBRTC_SPL_SQRT_ITER (int N) (v, 0) = (v, 0)" if "N \<le> 15" for N
  proof -
    have "(2::int) ^ N \<le> 2 ^ 15" using that by (intro power_increasing) simp_all
    then have b: "(2::int) ^ N \<le> 32768" "0 \<le> (2::int) ^ N" by simp_all
    have "2 ^ N * 2 ^ N \<le> (32768 * 32768 :: int)" by (intro mult_mono) (use b in simp_all)
    then show ?thesis using assms b
      by (simp add: WEBRTC_SPL_SQRT_ITER_def shl32_def i32_id_nonneg Let_def not_le less_le_trans [of v 0])
  qed
  then have "fold WEBRTC_SPL_SQRT_ITER (map int ns) (v, 0) = (v, 0)" if "\<forall>n\<in>set ns. n \<le> 15" for ns
    using that by (induction ns) simp_all
  from this [of "rev [0..<16]"] show ?thesis by (simp add: WebRtcSpl_SqrtFloor_def sqrt_bits shr_def)
qed

lemma SqrtFloor_root:
  assumes "0 \<le> v" "v < 2147483648"
  shows "0 \<le> WebRtcSpl_SqrtFloor v \<and> WebRtcSpl_SqrtFloor v * WebRtcSpl_SqrtFloor v \<le> v \<and>
         v < (WebRtcSpl_SqrtFloor v + 1) * (WebRtcSpl_SqrtFloor v + 1)"
proof -
  have "sqrt_inv v 16 (v, 0)" using assms by (auto simp: sqrt_inv_def)
  from sqrt_inv_loop [OF assms _ this] have "sqrt_inv v 0 (fold WEBRTC_SPL_SQRT_ITER (map int (rev [0..<16])) (v, 0))"
    by simp
  then obtain R where R: "fold WEBRTC_SPL_SQRT_ITER (map int (rev [0..<16])) (v, 0) = (v - R * R, 2 * R)"
    "0 \<le> R" "R * R \<le> v" "v < (R + 1) * (R + 1)"
    by (auto simp: sqrt_inv_def)
  then have "WebRtcSpl_SqrtFloor v = R"
    by (simp add: WebRtcSpl_SqrtFloor_def sqrt_bits shr_def)
  then show ?thesis using R(2-4) by simp
qed

text \<open>\<open>WebRtcSpl_SqrtFloor\<close> computes the integer square root of every non-negative 32-bit
  value, with no overflow in any of the sixteen trial steps, and 0 for negative input.\<close>

theorem SqrtFloor_correct:
  assumes "in_i32 v"
  shows "if v < 0 then WebRtcSpl_SqrtFloor v = 0
         else 0 \<le> WebRtcSpl_SqrtFloor v \<and> WebRtcSpl_SqrtFloor v * WebRtcSpl_SqrtFloor v \<le> v \<and>
              v < (WebRtcSpl_SqrtFloor v + 1) * (WebRtcSpl_SqrtFloor v + 1)"
  using SqrtFloor_neg [of v] SqrtFloor_root [of v] assms by (simp add: in_i32_def)

theorem SqrtFloor_correct_witness:
  "0 \<le> WebRtcSpl_SqrtFloor 2147483647 \<and>
   WebRtcSpl_SqrtFloor 2147483647 * WebRtcSpl_SqrtFloor 2147483647 \<le> 2147483647 \<and>
   2147483647 < (WebRtcSpl_SqrtFloor 2147483647 + 1) * (WebRtcSpl_SqrtFloor 2147483647 + 1)"
  using SqrtFloor_correct [of 2147483647] by (simp add: in_i32_def)

section \<open>Division with a Q31 result\<close>

text \<open>
  After \<open>n\<close> turns the loop has produced the first \<open>n\<close> fractional bits of
  \<open>num / den\<close>: the quotient of \<open>num * 2 ^ n\<close>, with the remainder left in \<open>L_num\<close>.
\<close>

lemma div_q31_step_eq:
  assumes "0 \<le> q" "q < 1073741824" "0 \<le> r" "r < den" "den \<le> 1073741824"
  shows "div_q31_step den (q, r) = (if den \<le> 2 * r then (2 * q + 1, 2 * r - den) else (2 * q, 2 * r))"
  using assms by (auto simp: div_q31_step_def shl32_def i32_id_nonneg Let_def)

lemma div_q31_loop:
  assumes "0 \<le> num" and "num < den" and "den \<le> 1073741824" and "n \<le> 31"
  shows "(div_q31_step den ^^ n) (0, num) = (num * 2 ^ n div den, num * 2 ^ n mod den)"
  using assms(4)
proof (induction n)
  case 0
  then show ?case using assms by simp
next
  case (Suc n)
  let ?q = "num * 2 ^ n div den" and ?r = "num * 2 ^ n mod den"
  have r: "0 \<le> ?r" "?r < den" using assms(1,2) by simp_all
  have "?q < 2 ^ n" using assms by (intro div_less_mult) simp_all
  moreover have "(2::int) ^ n \<le> 2 ^ 30" using Suc.prems by (intro power_increasing) simp_all
  ultimately have q: "0 \<le> ?q" "?q < 1073741824" using assms by (simp_all add: pos_imp_zdiv_nonneg_iff)
  have e: "num * 2 ^ Suc n = den * (2 * ?q) + 2 * ?r"
  proof -
    have "num * 2 ^ Suc n = 2 * (num * 2 ^ n)" by simp
    also have "\<dots> = 2 * (den * ?q + ?r)" by (simp only: mult_div_mod_eq)
    also have "2 * (den * q + r) = den * (2 * q) + 2 * r" for q r :: int by (simp add: algebra_simps)
    finally show ?thesis .
  qed
  note step = div_q31_step_eq [OF q r assms(3)]
  show ?case
  proof (cases "den \<le> 2 * ?r")
    case True
    have "num * 2 ^ Suc n = den * (2 * ?q + 1) + (2 * ?r - den)" unfolding e by (simp add: algebra_simps)
    then have "num * 2 ^ Suc n div den = 2 * ?q + 1 \<and> num * 2 ^ Suc n mod den = 2 * ?r - den"
      by (intro conjI; rule int_div_pos_eq int_mod_pos_eq) (use True r in auto)
    then show ?thesis using Suc step True by simp
  next
    case False
    have "num * 2 ^ Suc n div den = 2 * ?q \<and> num * 2 ^ Suc n mod den = 2 * ?r"
      by (intro conjI; rule int_div_pos_eq [OF e] int_mod_pos_eq [OF e]) (use False r in auto)
    then show ?thesis using Suc step False by simp
  qed
qed

text \<open>\<open>WebRtcSpl_DivResultInQ31\<close> is the quotient truncated to 31 fractional bits, with the
  sign of the exact quotient, whenever the numerator is smaller in magnitude than
  the denominator and the denominator's magnitude is at most \<open>2 ^ 30\<close> (the
  bound the doubling of the remainder needs and the documentation omits).\<close>

theorem DivResultInQ31_correct:
  assumes "\<bar>num\<bar> < \<bar>den\<bar>" and "\<bar>den\<bar> \<le> 2 ^ 30"
  shows "WebRtcSpl_DivResultInQ31 num den = sgn num * sgn den * (\<bar>num\<bar> * 2 ^ 31 div \<bar>den\<bar>)"
proof -
  have "\<bar>num\<bar> * 2 ^ 31 div \<bar>den\<bar> < 2 ^ 31"
    using assms by (intro div_less_mult) simp_all
  moreover have "0 \<le> \<bar>num\<bar> * 2 ^ 31 div \<bar>den\<bar>"
    using assms by (simp add: pos_imp_zdiv_nonneg_iff)
  ultimately have c: "i32 (- (\<bar>num\<bar> * 2 ^ 31 div \<bar>den\<bar>)) = - (\<bar>num\<bar> * 2 ^ 31 div \<bar>den\<bar>)"
    by (intro i32_id) (simp add: in_i32_def)
  have m: "(if num < 0 then i32 (- num) else num) = \<bar>num\<bar>" "(if den < 0 then i32 (- den) else den) = \<bar>den\<bar>"
    using assms by (auto simp: i32_id in_i32_def)
  have l: "fst ((div_q31_step \<bar>den\<bar> ^^ 31) (0, \<bar>num\<bar>)) = \<bar>num\<bar> * 2 ^ 31 div \<bar>den\<bar>"
    using div_q31_loop [of "\<bar>num\<bar>" "\<bar>den\<bar>" 31] assms by simp
  show ?thesis
    using c assms unfolding WebRtcSpl_DivResultInQ31_def m Let_def l
    by (auto simp: c_bool_def sgn_if)
qed

theorem DivResultInQ31_correct_witness:
  "WebRtcSpl_DivResultInQ31 (- 3) 4 = - 1610612736"
  using DivResultInQ31_correct [of "- 3" 4] by simp

text \<open>For a larger denominator the shifted remainder leaves the type: three quarters of
  \<open>2 ^ 31\<close> divided by the largest value is not close to \<open>3/4\<close>.\<close>

lemma DivResultInQ31_large_den: "WebRtcSpl_DivResultInQ31 1610612736 2147483647 \<noteq> 1610612736 * 2 ^ 31 div 2147483647"
  by code_simp

section \<open>Random numbers\<close>

lemma IncreaseSeed_eq: "IncreaseSeed seed = (seed * 69069 + 1) mod 2147483648"
proof -
  have "IncreaseSeed seed = take_bit 31 (take_bit 32 (seed * 69069 + 1))"
    by (simp add: IncreaseSeed_def kMaxSeedUsed_def u32_def take_bit_eq_mask mask_eq_exp_minus_1
        flip: take_bit_eq_mod [of 32, simplified])
  also have "\<dots> = take_bit 31 (seed * 69069 + 1)" by simp
  finally show ?thesis by (simp add: take_bit_eq_mod)
qed

text \<open>The random generators: the seed stays below \<open>2 ^ 31\<close> and follows the linear
  congruence modulo \<open>2 ^ 31\<close>, \<open>WebRtcSpl_RandU\<close> returns a value in \<open>[0, 32767]\<close>,
  and \<open>WebRtcSpl_RandN\<close> reads its table inside the first 256 entries.\<close>

theorem Rand_bounds:
  "fst (WebRtcSpl_RandU seed) = (seed * 69069 + 1) mod 2 ^ 31 \<and>
   fst (WebRtcSpl_RandN seed) = fst (WebRtcSpl_RandU seed) \<and>
   0 \<le> snd (WebRtcSpl_RandU seed) \<and> snd (WebRtcSpl_RandU seed) \<le> 32767 \<and>
   snd (WebRtcSpl_RandN seed) \<in> set (take 256 kRandNTable) \<and> in_i16 (snd (WebRtcSpl_RandN seed))"
proof -
  define s where "s = IncreaseSeed seed"
  have s: "0 \<le> s" "s < 2147483648" by (simp_all add: s_def IncreaseSeed_eq)
  have "s div 65536 < 32768" using s by (intro div_less_mult) simp_all
  moreover have "0 \<le> s div 65536" using s by simp
  ultimately have u: "i16 (shr s 16) = s div 65536" "0 \<le> s div 65536" "s div 65536 \<le> 32767"
    by (simp_all add: shr_def i16_id in_i16_def)
  have "s div 8388608 < 256" using s by (intro div_less_mult) simp_all
  then have n: "nat (shr s 23) < 256" using s by (simp add: shr_def nat_less_iff)
  have len: "length kRandNTable = 512" by code_simp
  have "kRandNTable ! nat (shr s 23) = take 256 kRandNTable ! nat (shr s 23)" using n by simp
  then have r: "kRandNTable ! nat (shr s 23) \<in> set (take 256 kRandNTable)"
    using n len by (metis length_take min.absorb2 nth_mem numeral_le_iff semiring_norm(68) semiring_norm(71))
  have "\<forall>x \<in> set kRandNTable. in_i16 x" by code_simp
  then have "in_i16 (kRandNTable ! nat (shr s 23))" using r by (meson in_set_takeD)
  with u r show ?thesis
    by (simp add: WebRtcSpl_RandU_def WebRtcSpl_RandN_def Let_def IncreaseSeed_eq [symmetric] s_def [symmetric])
qed

end
