(* ===== verification/Spl_Vector.thy ===== *)
theory Spl_Vector
  imports Spl_Inline
begin

text \<open>
  Vector routines of the signal processing library: \<open>min_max_operations.c\<close>,
  \<open>copy_set_operations.c\<close>, \<open>vector_scaling_operations.c\<close>, \<open>cross_correlation.c\<close>,
  \<open>dot_product_with_scale.c\<close>, \<open>get_scaling_square.c\<close>, \<open>energy.c\<close>,
  \<open>auto_correlation.c\<close>, \<open>downsample_fast.c\<close>, \<open>filter_ma_fast_q12.c\<close> and
  \<open>filter_ar_fast_q12.c\<close>. A vector and its length are one list; where a routine reads before its
  pointer (filter states), the whole array and the pointer's position in it are given.
  The index searches satisfy one contract, the locale \<open>first_best\<close>.
\<close>

section \<open>Minimum and maximum\<close>

text \<open>\<open>abs\<close> on \<open>int\<close>, which returns the most negative value unchanged.\<close>

definition c_abs :: "int \<Rightarrow> int" where
  "c_abs x = (if x < 0 then i32 (- x) else x)"

definition WebRtcSpl_MaxAbsValueW16C :: "samples \<Rightarrow> int" where
  "WebRtcSpl_MaxAbsValueW16C vector =
     (let maximum = fold (\<lambda>x maximum. let absolute = c_abs x in if absolute > maximum then absolute else maximum)
                      vector 0;
          maximum = (if maximum > WEBRTC_SPL_WORD16_MAX then WEBRTC_SPL_WORD16_MAX else maximum)
      in i16 maximum)"

definition WebRtcSpl_MaxAbsValueW32C :: "int list \<Rightarrow> int" where
  "WebRtcSpl_MaxAbsValueW32C vector =
     (let maximum = fold (\<lambda>x maximum. let absolute = u32 (c_abs x) in if absolute > maximum then absolute else maximum)
                      vector 0;
          maximum = WEBRTC_SPL_MIN maximum WEBRTC_SPL_WORD32_MAX
      in i32 maximum)"

definition WebRtcSpl_MaxValueW16C :: "samples \<Rightarrow> int" where
  "WebRtcSpl_MaxValueW16C vector =
     fold (\<lambda>x maximum. if x > maximum then x else maximum) vector WEBRTC_SPL_WORD16_MIN"

definition WebRtcSpl_MaxValueW32C :: "int list \<Rightarrow> int" where
  "WebRtcSpl_MaxValueW32C vector =
     fold (\<lambda>x maximum. if x > maximum then x else maximum) vector WEBRTC_SPL_WORD32_MIN"

definition WebRtcSpl_MinValueW16C :: "samples \<Rightarrow> int" where
  "WebRtcSpl_MinValueW16C vector =
     fold (\<lambda>x minimum. if x < minimum then x else minimum) vector WEBRTC_SPL_WORD16_MAX"

definition WebRtcSpl_MinValueW32C :: "int list \<Rightarrow> int" where
  "WebRtcSpl_MinValueW32C vector =
     fold (\<lambda>x minimum. if x < minimum then x else minimum) vector WEBRTC_SPL_WORD32_MAX"

text \<open>
  The loop all five index searches share: the running index, the index of the best
  element so far and its value \<open>best\<close>; \<open>better\<close> is the strict comparison of the loop's test.
\<close>

fun index_scan :: "(int \<Rightarrow> int \<Rightarrow> bool) \<Rightarrow> (int \<Rightarrow> int) \<Rightarrow> int list \<Rightarrow> nat \<Rightarrow> nat \<Rightarrow> int \<Rightarrow> nat" where
  "index_scan better key [] i index best = index"
| "index_scan better key (x # xs) i index best =
     (if better (key x) best then index_scan better key xs (i + 1) i (key x)
      else index_scan better key xs (i + 1) index best)"

definition WebRtcSpl_MaxAbsIndexW16 :: "samples \<Rightarrow> nat" where
  "WebRtcSpl_MaxAbsIndexW16 vector = index_scan (>) c_abs vector 0 0 0"

definition WebRtcSpl_MaxIndexW16 :: "samples \<Rightarrow> nat" where
  "WebRtcSpl_MaxIndexW16 vector = index_scan (>) id vector 0 0 WEBRTC_SPL_WORD16_MIN"

definition WebRtcSpl_MaxIndexW32 :: "int list \<Rightarrow> nat" where
  "WebRtcSpl_MaxIndexW32 vector = index_scan (>) id vector 0 0 WEBRTC_SPL_WORD32_MIN"

definition WebRtcSpl_MinIndexW16 :: "samples \<Rightarrow> nat" where
  "WebRtcSpl_MinIndexW16 vector = index_scan (<) id vector 0 0 WEBRTC_SPL_WORD16_MAX"

definition WebRtcSpl_MinIndexW32 :: "int list \<Rightarrow> nat" where
  "WebRtcSpl_MinIndexW32 vector = index_scan (<) id vector 0 0 WEBRTC_SPL_WORD32_MAX"

section \<open>Copy and set\<close>

definition WebRtcSpl_MemSetW16 :: "samples \<Rightarrow> int \<Rightarrow> nat \<Rightarrow> samples" where
  "WebRtcSpl_MemSetW16 ptr set_value len = fold (\<lambda>j p. p[j := set_value]) [0..<len] ptr"

definition WebRtcSpl_MemSetW32 :: "int list \<Rightarrow> int \<Rightarrow> nat \<Rightarrow> int list" where
  "WebRtcSpl_MemSetW32 ptr set_value len = fold (\<lambda>j p. p[j := set_value]) [0..<len] ptr"

text \<open>\<open>dest\<close> is the array and \<open>at\<close> the position the pointer argument has in it; it moves down.\<close>

definition WebRtcSpl_MemCpyReversedOrder :: "samples \<Rightarrow> nat \<Rightarrow> samples \<Rightarrow> nat \<Rightarrow> samples" where
  "WebRtcSpl_MemCpyReversedOrder dest at src len = fold (\<lambda>j d. d[at - j := src ! j]) [0..<len] dest"

definition WebRtcSpl_CopyFromEndW16 :: "samples \<Rightarrow> nat \<Rightarrow> nat \<Rightarrow> samples \<Rightarrow> samples" where
  "WebRtcSpl_CopyFromEndW16 vector_in len cnt vector_out =
     mem_copy vector_out 0 (mem_slice vector_in (len - cnt) cnt)"

definition WebRtcSpl_ZerosArrayW16 :: "samples \<Rightarrow> nat \<Rightarrow> samples" where
  "WebRtcSpl_ZerosArrayW16 vector len = WebRtcSpl_MemSetW16 vector 0 len"

definition WebRtcSpl_ZerosArrayW32 :: "int list \<Rightarrow> nat \<Rightarrow> int list" where
  "WebRtcSpl_ZerosArrayW32 vector len = WebRtcSpl_MemSetW32 vector 0 len"

section \<open>Scaling\<close>

definition WebRtcSpl_VectorBitShiftW16 :: "samples \<Rightarrow> int \<Rightarrow> samples" where
  "WebRtcSpl_VectorBitShiftW16 inp right_shifts =
     (if right_shifts > 0 then map (\<lambda>x. i16 (shr x right_shifts)) inp
      else map (\<lambda>x. i16 (shl32 x (- right_shifts))) inp)"

definition WebRtcSpl_VectorBitShiftW32 :: "int list \<Rightarrow> int \<Rightarrow> int list" where
  "WebRtcSpl_VectorBitShiftW32 in_vector right_shifts =
     (if right_shifts > 0 then map (\<lambda>x. shr x right_shifts) in_vector
      else map (\<lambda>x. shl32 x (- right_shifts)) in_vector)"

definition WebRtcSpl_VectorBitShiftW32ToW16 :: "int list \<Rightarrow> int \<Rightarrow> samples" where
  "WebRtcSpl_VectorBitShiftW32ToW16 inp right_shifts =
     (if right_shifts \<ge> 0 then map (\<lambda>x. WebRtcSpl_SatW32ToW16 (shr x right_shifts)) inp
      else map (\<lambda>x. WebRtcSpl_SatW32ToW16 (shl32 x (- right_shifts))) inp)"

definition WebRtcSpl_ScaleVector :: "samples \<Rightarrow> int \<Rightarrow> int \<Rightarrow> samples" where
  "WebRtcSpl_ScaleVector in_vector gain right_shifts =
     map (\<lambda>x. i16 (shr (i32 (x * gain)) right_shifts)) in_vector"

definition WebRtcSpl_ScaleVectorWithSat :: "samples \<Rightarrow> int \<Rightarrow> int \<Rightarrow> samples" where
  "WebRtcSpl_ScaleVectorWithSat in_vector gain right_shifts =
     map (\<lambda>x. WebRtcSpl_SatW32ToW16 (shr (i32 (x * gain)) right_shifts)) in_vector"

definition WebRtcSpl_ScaleAndAddVectors ::
    "samples \<Rightarrow> int \<Rightarrow> int \<Rightarrow> samples \<Rightarrow> int \<Rightarrow> int \<Rightarrow> samples" where
  "WebRtcSpl_ScaleAndAddVectors in1 gain1 shift1 in2 gain2 shift2 =
     map2 (\<lambda>x1 x2. i16 (i16 (shr (i32 (gain1 * x1)) shift1) + i16 (shr (i32 (gain2 * x2)) shift2))) in1 in2"

text \<open>The pointers may be \<open>NULL\<close>; the first result is the return value, the second the output.\<close>

definition WebRtcSpl_ScaleAndAddVectorsWithRoundC ::
    "samples option \<Rightarrow> int \<Rightarrow> samples option \<Rightarrow> int \<Rightarrow> int \<Rightarrow> samples option \<Rightarrow> nat \<Rightarrow> int \<times> samples option" where
  "WebRtcSpl_ScaleAndAddVectorsWithRoundC in_vector1 scale1 in_vector2 scale2 right_shifts out_vector len =
     (case (in_vector1, in_vector2, out_vector) of
        (Some v1, Some v2, Some out) \<Rightarrow>
          (if len = 0 \<or> right_shifts < 0 then (- 1, out_vector)
           else
             (let round_value = shr (shl32 1 right_shifts) 1
              in (0, Some (fold (\<lambda>i out. out[i :=
                     i16 (shr (i32 (v1 ! i * scale1 + v2 ! i * scale2 + round_value)) right_shifts)])
                     [0..<len] out))))
      | _ \<Rightarrow> (- 1, out_vector))"

section \<open>Correlation\<close>

text \<open>\<open>seq2\<close> is an array and \<open>at\<close> the position of the pointer in it, which moves by \<open>step_seq2\<close>.\<close>

definition WebRtcSpl_CrossCorrelationC ::
    "samples \<Rightarrow> samples \<Rightarrow> nat \<Rightarrow> nat \<Rightarrow> nat \<Rightarrow> int \<Rightarrow> int \<Rightarrow> int list" where
  "WebRtcSpl_CrossCorrelationC seq1 seq2 at dim_seq dim_cross_correlation right_shifts step_seq2 =
     map (\<lambda>i. fold (\<lambda>j corr. i32 (corr +
              shr (i32 (seq1 ! j * seq2 ! (nat (int at + int i * step_seq2) + j))) right_shifts)) [0..<dim_seq] 0)
       [0..<dim_cross_correlation]"

text \<open>
  The unrolled sum: \<open>t j\<close> is the summand, four of them per turn while
  \<open>i + 3 < len\<close>, then one per turn.
\<close>

function sum_tail :: "(nat \<Rightarrow> int) \<Rightarrow> nat \<Rightarrow> nat \<Rightarrow> int \<Rightarrow> int" where
  "sum_tail t len i acc = (if i < len then sum_tail t len (i + 1) (i32 (acc + t i)) else acc)"
  by pat_completeness auto
termination by (relation "measure (\<lambda>(_, len, i, _). len - i)") auto

function sum_unrolled :: "(nat \<Rightarrow> int) \<Rightarrow> nat \<Rightarrow> nat \<Rightarrow> int \<Rightarrow> int" where
  "sum_unrolled t len i acc =
     (if i + 3 < len then
        (let acc = i32 (acc + t (i + 0));
             acc = i32 (acc + t (i + 1));
             acc = i32 (acc + t (i + 2));
             acc = i32 (acc + t (i + 3))
         in sum_unrolled t len (i + 4) acc)
      else sum_tail t len i acc)"
  by pat_completeness auto
termination by (relation "measure (\<lambda>(_, len, i, _). len - i)") auto

declare sum_tail.simps [simp del] sum_unrolled.simps [simp del]

definition WebRtcSpl_DotProductWithScale :: "samples \<Rightarrow> samples \<Rightarrow> nat \<Rightarrow> int \<Rightarrow> int" where
  "WebRtcSpl_DotProductWithScale vector1 vector2 len scaling =
     sum_unrolled (\<lambda>i. shr (i32 (vector1 ! i * vector2 ! i)) scaling) len 0 0"

text \<open>The loop of \<open>WebRtcSpl_GetScalingSquare\<close>: the largest magnitude in \<open>int16_t\<close>.\<close>

definition scan_abs :: "samples \<Rightarrow> int" where
  "scan_abs v = fold (\<lambda>x smax. let sabs = (if x > 0 then x else i16 (- x)) in if sabs > smax then sabs else smax) v (- 1)"

definition WebRtcSpl_GetScalingSquare :: "samples \<Rightarrow> nat \<Rightarrow> int" where
  "WebRtcSpl_GetScalingSquare in_vector cnt =
     (let nbits = WebRtcSpl_GetSizeInBits (u32 (int cnt));
          smax = scan_abs in_vector;
          t = WebRtcSpl_NormW32 (WEBRTC_SPL_MUL smax smax)
      in if smax = 0 then 0 else if t > nbits then 0 else i16 (nbits - t))"

text \<open>The energy and \<open>*scale_factor\<close>.\<close>

definition WebRtcSpl_Energy :: "samples \<Rightarrow> int \<times> int" where
  "WebRtcSpl_Energy vector =
     (let scaling = WebRtcSpl_GetScalingSquare vector (length vector)
      in (fold (\<lambda>x en. i32 (en + shr (i32 (x * x)) scaling)) vector 0, scaling))"

text \<open>The correlations, \<open>*scale\<close> and the return value; the loop bound \<open>i + j + 3 < length\<close> is
  \<open>j + 3 < length - i\<close>, as \<open>i \<le> order \<le> length\<close>.\<close>

definition WebRtcSpl_AutoCorrelation :: "samples \<Rightarrow> nat \<Rightarrow> int list \<times> int \<times> nat" where
  "WebRtcSpl_AutoCorrelation in_vector order =
     (let smax = WebRtcSpl_MaxAbsValueW16C in_vector;
          scaling =
            (if smax = 0 then 0
             else (let nbits = WebRtcSpl_GetSizeInBits (u32 (int (length in_vector)));
                       t = WebRtcSpl_NormW32 (WEBRTC_SPL_MUL smax smax)
                   in if t > nbits then 0 else nbits - t));
          result = map (\<lambda>i. sum_unrolled (\<lambda>j. shr (i32 (in_vector ! j * in_vector ! (i + j))) scaling)
                              (length in_vector - i) 0 0) [0..<order + 1]
      in (result, scaling, order + 1))"

section \<open>Filters\<close>

text \<open>
  \<open>WebRtcSpl_DownsampleFastC\<close> computes positions in \<open>size_t\<close>, taken to have 64 bits; a negative \<open>factor\<close>, an \<open>int\<close>, is converted to it.
  \<open>data_in\<close> is the array and \<open>at\<close> the pointer's position in it: the taps reach back before it. \<open>data_out\<close> is the array written to.
  \<open>None\<close> is a read or a write outside these arrays, which is where a zero factor leads.
\<close>

definition size_t :: "int \<Rightarrow> nat" where
  "size_t x = nat (x mod 2 ^ 64)"

definition downsample_tap :: "samples \<Rightarrow> nat \<Rightarrow> samples \<Rightarrow> nat \<Rightarrow> int option" where
  "downsample_tap data_in at coefficients i =
     (if at + i < length data_in \<and> length coefficients \<le> at + i + 1
      then (let out_s32 = fold (\<lambda>j out_s32. i32 (out_s32 + coefficients ! j * data_in ! (at + i - j)))
                            [0..<length coefficients] 2048
            in Some (WebRtcSpl_SatW32ToW16 (shr out_s32 12)))
      else None)"

function downsample_loop :: "(nat \<Rightarrow> int option) \<Rightarrow> int \<Rightarrow> nat \<Rightarrow> nat \<Rightarrow> nat \<Rightarrow> samples \<Rightarrow> samples option" where
  "downsample_loop out factor endpos i k data_out =
     (if i < endpos
      then if k < length data_out
           then case out i of
                  None \<Rightarrow> None
                | Some y \<Rightarrow> downsample_loop out factor endpos (size_t (int i + factor)) (k + 1) (data_out[k := y])
           else None
      else Some data_out)"
  by pat_completeness auto
termination
  by (relation "measure (\<lambda>(_, _, _, _, k, data_out). length data_out - k)") auto

declare downsample_loop.simps [simp del]

definition WebRtcSpl_DownsampleFastC ::
    "samples \<Rightarrow> nat \<Rightarrow> nat \<Rightarrow> samples \<Rightarrow> nat \<Rightarrow> samples \<Rightarrow> int \<Rightarrow> nat \<Rightarrow> (int \<times> samples) option" where
  "WebRtcSpl_DownsampleFastC data_in at data_in_length data_out data_out_length coefficients factor delay =
     (let endpos = size_t (int delay + factor * (int data_out_length - 1) + 1)
      in if data_out_length = 0 \<or> coefficients = [] \<or> data_in_length < endpos then Some (- 1, data_out)
         else (case downsample_loop (downsample_tap data_in at coefficients) factor endpos delay 0 data_out of
                 None \<Rightarrow> None | Some data_out \<Rightarrow> Some (0, data_out)))"

definition WebRtcSpl_FilterMAFastQ12 :: "samples \<Rightarrow> nat \<Rightarrow> samples \<Rightarrow> nat \<Rightarrow> samples" where
  "WebRtcSpl_FilterMAFastQ12 inp at B len =
     map (\<lambda>i. let s = fold (\<lambda>j s. i32 (s + B ! j * inp ! (at + i - j))) [0..<length B] 0;
                  s = WEBRTC_SPL_SAT 134215679 s (- 134217728)
              in i16 (shr (i32 (s + 2048)) 12)) [0..<len]"

text \<open>\<open>data_out\<close> is the array holding the filter state before position \<open>at\<close>.\<close>

definition WebRtcSpl_FilterARFastQ12 :: "samples \<Rightarrow> samples \<Rightarrow> nat \<Rightarrow> samples \<Rightarrow> samples" where
  "WebRtcSpl_FilterARFastQ12 data_in data_out at coefficients =
     fold (\<lambda>i data_out.
        (let sm = fold (\<lambda>j sm. i32 (sm + coefficients ! j * data_out ! (at + i - j)))
                    (rev [1..<length coefficients]) 0;
             output = i32 (coefficients ! 0 * data_in ! i);
             output = i32 (output - sm);
             output = WEBRTC_SPL_SAT 134215679 output (- 134217728)
         in data_out[at + i := i16 (shr (i32 (output + 2048)) 12)])) [0..<length data_in] data_out"

section \<open>The index searches\<close>

text \<open>The contract: the first of the elements with the greatest key.\<close>

locale first_best =
  fixes idx :: "int list \<Rightarrow> nat" and key :: "int \<Rightarrow> int" and valid :: "int \<Rightarrow> bool"
  assumes idx_bound: "xs \<noteq> [] \<Longrightarrow> \<forall>x\<in>set xs. valid x \<Longrightarrow> idx xs < length xs"
    and idx_best: "\<forall>x\<in>set xs. valid x \<Longrightarrow> j < length xs \<Longrightarrow> key (xs ! j) \<le> key (xs ! idx xs)"
    and idx_first: "\<forall>x\<in>set xs. valid x \<Longrightarrow> j < idx xs \<Longrightarrow> key (xs ! j) < key (xs ! idx xs)"
begin

lemma idx_unique:
  assumes "\<forall>x\<in>set xs. valid x" and "r < length xs"
    and "\<And>j. j < length xs \<Longrightarrow> key (xs ! j) \<le> key (xs ! r)"
    and "\<And>j. j < r \<Longrightarrow> key (xs ! j) < key (xs ! r)"
  shows "idx xs = r"
proof -
  have ne: "xs \<noteq> []" using assms(2) by auto
  have "\<not> r < idx xs"
    using idx_first [OF assms(1), of r] assms(3) [OF idx_bound [OF ne assms(1)]] by auto
  moreover have "\<not> idx xs < r"
    using assms(4) [of "idx xs"] idx_best [OF assms(1,2)] by auto
  ultimately show ?thesis by simp
qed

lemma idx_append:
  assumes "\<forall>x\<in>set (xs @ ys). valid x" and "xs \<noteq> []" and "\<forall>y\<in>set ys. key y \<le> key (xs ! idx xs)"
  shows "idx (xs @ ys) = idx xs"
proof (rule idx_unique [OF assms(1)])
  have v: "\<forall>x\<in>set xs. valid x" using assms(1) by simp
  have b: "idx xs < length xs" using idx_bound [OF assms(2) v] .
  then show "idx xs < length (xs @ ys)" by simp
  show "key ((xs @ ys) ! j) \<le> key ((xs @ ys) ! idx xs)" if "j < length (xs @ ys)" for j
    using that b idx_best [OF v, of j] assms(3) by (auto simp: nth_append)
  show "key ((xs @ ys) ! j) < key ((xs @ ys) ! idx xs)" if "j < idx xs" for j
    using that b idx_first [OF v that] by (auto simp: nth_append)
qed

end

definition first_max :: "(int \<Rightarrow> int) \<Rightarrow> int list \<Rightarrow> nat \<Rightarrow> bool" where
  "first_max key zs r \<longleftrightarrow> r < length zs \<and> (\<forall>j<length zs. key (zs ! j) \<le> key (zs ! r)) \<and>
     (\<forall>j<r. key (zs ! j) < key (zs ! r))"

lemma first_max_better:
  assumes "first_max key ys r" and "key (ys ! r) < key x"
  shows "first_max key (ys @ [x]) (length ys)"
  using assms by (fastforce simp: first_max_def nth_append less_Suc_eq)

lemma first_max_worse:
  assumes "first_max key ys r" and "\<not> key (ys ! r) < key x"
  shows "first_max key (ys @ [x]) r"
  using assms by (auto simp: first_max_def nth_append less_Suc_eq)

text \<open>The loop from its second turn on, with \<open>ys\<close> already seen.\<close>

lemma index_scan_gt:
  "first_max key ys r \<Longrightarrow> first_max key (ys @ xs) (index_scan (>) key xs (length ys) r (key (ys ! r)))"
proof (induction xs arbitrary: ys r)
  case (Cons x xs)
  have "r < length ys" using Cons.prems by (simp add: first_max_def)
  then show ?case
    using Cons.IH [of "ys @ [x]" "length ys"] first_max_better [OF Cons.prems, of x]
      Cons.IH [of "ys @ [x]" r] first_max_worse [OF Cons.prems, of x]
    by (cases "key (ys ! r) < key x") (simp_all add: nth_append)
qed simp

lemma index_scan_lt: "index_scan (<) key xs i r best = index_scan (>) (\<lambda>x. - key x) xs i r (- best)"
  by (induction xs arbitrary: i r best) simp_all

lemma first_best_scan:
  assumes "\<And>x. valid x \<Longrightarrow> lo \<le> key x"
  shows "first_best (\<lambda>xs. index_scan (>) key xs 0 0 lo) key valid"
proof -
  have all: "first_max key xs (index_scan (>) key xs 0 0 lo)"
    if ne: "xs \<noteq> []" and val: "\<forall>x\<in>set xs. valid x" for xs
  proof -
    obtain x zs where xs: "xs = x # zs" using ne by (cases xs) auto
    have "lo \<le> key x" using assms val xs by simp
    then have "index_scan (>) key xs 0 0 lo = index_scan (>) key zs 1 0 (key x)" by (auto simp: xs)
    then show ?thesis using index_scan_gt [of key "[x]" 0 zs] by (simp add: xs first_max_def)
  qed
  show ?thesis
  proof unfold_locales
    fix xs j
    assume val: "\<forall>x\<in>set xs. valid x"
    show "xs \<noteq> [] \<Longrightarrow> index_scan (>) key xs 0 0 lo < length xs"
      using all [OF _ val] by (simp add: first_max_def)
    show "j < length xs \<Longrightarrow> key (xs ! j) \<le> key (xs ! index_scan (>) key xs 0 0 lo)"
      using all [OF _ val] by (cases "xs = []") (auto simp: first_max_def)
    show "j < index_scan (>) key xs 0 0 lo \<Longrightarrow> key (xs ! j) < key (xs ! index_scan (>) key xs 0 0 lo)"
      using all [OF _ val] by (cases "xs = []") (auto simp: first_max_def)
  qed
qed

interpretation max_abs16: first_best WebRtcSpl_MaxAbsIndexW16 c_abs in_i16
  unfolding WebRtcSpl_MaxAbsIndexW16_def
  by (rule first_best_scan) (simp add: c_abs_def in_i16_def i32_id in_i32_def)

interpretation max16: first_best WebRtcSpl_MaxIndexW16 id in_i16
  unfolding WebRtcSpl_MaxIndexW16_def
  by (rule first_best_scan) (simp add: in_i16_def WEBRTC_SPL_WORD16_MIN_def)

interpretation max32: first_best WebRtcSpl_MaxIndexW32 id in_i32
  unfolding WebRtcSpl_MaxIndexW32_def
  by (rule first_best_scan) (simp add: in_i32_def WEBRTC_SPL_WORD32_MIN_def)

interpretation min16: first_best WebRtcSpl_MinIndexW16 "\<lambda>x. - id x" in_i16
  unfolding WebRtcSpl_MinIndexW16_def index_scan_lt
  by (rule first_best_scan) (simp add: in_i16_def WEBRTC_SPL_WORD16_MAX_def)

interpretation min32: first_best WebRtcSpl_MinIndexW32 "\<lambda>x. - id x" in_i32
  unfolding WebRtcSpl_MinIndexW32_def index_scan_lt
  by (rule first_best_scan) (simp add: in_i32_def WEBRTC_SPL_WORD32_MAX_def)

lemma fold_max_index:
  assumes "xs \<noteq> []" and "\<And>j. j < length xs \<Longrightarrow> key (xs ! j) \<le> key (xs ! r)" and "r < length xs"
    and "\<forall>x\<in>set xs. lo \<le> key x"
  shows "fold (\<lambda>x m. if key x > m then key x else m) xs lo = (key (xs ! r) :: int)"
proof -
  have f: "fold (\<lambda>x m. if key x > m then key x else m) ys m = Max (insert m (key ` set ys))" for ys and m :: int
  proof (induction ys arbitrary: m)
    case (Cons y ys)
    have "Max (insert (max (key y) m) (key ` set ys)) = Max (insert m (insert (key y) (key ` set ys)))"
      by (cases "ys = []") (simp_all add: max.assoc max.commute max.left_commute)
    moreover have "(if key y > m then key y else m) = max (key y) m" by auto
    ultimately show ?case using Cons by simp
  qed simp
  have "\<forall>x\<in>set xs. key x \<le> key (xs ! r)" using assms(2) by (auto simp: in_set_conv_nth)
  moreover have "xs ! r \<in> set xs" using assms(3) by simp
  ultimately show ?thesis unfolding f using assms(4) by (intro Max_eqI) auto
qed

text \<open>On a non-empty vector of 16-bit samples the maximum, minimum and maximum-magnitude
  searches return the index of the first such element, in range, and the value searches
  the value found there (the magnitude 32768 saturated to 32767).\<close>

theorem min_max_search:
  assumes "xs \<noteq> []" and "\<forall>x\<in>set xs. in_i16 x"
    and "hi = WebRtcSpl_MaxIndexW16 xs" and "lo = WebRtcSpl_MinIndexW16 xs"
    and "ab = WebRtcSpl_MaxAbsIndexW16 xs" and "j < length xs"
  shows "hi < length xs \<and> xs ! j \<le> xs ! hi \<and> (j < hi \<longrightarrow> xs ! j < xs ! hi) \<and> WebRtcSpl_MaxValueW16C xs = xs ! hi \<and>
         lo < length xs \<and> xs ! lo \<le> xs ! j \<and> (j < lo \<longrightarrow> xs ! lo < xs ! j) \<and> WebRtcSpl_MinValueW16C xs = xs ! lo \<and>
         ab < length xs \<and> \<bar>xs ! j\<bar> \<le> \<bar>xs ! ab\<bar> \<and> (j < ab \<longrightarrow> \<bar>xs ! j\<bar> < \<bar>xs ! ab\<bar>) \<and>
         WebRtcSpl_MaxAbsValueW16C xs = min \<bar>xs ! ab\<bar> 32767"
proof -
  have c: "c_abs x = \<bar>x\<bar>" if "x \<in> set xs" for x
    using assms(2) that by (auto simp: c_abs_def in_i16_def i32_id in_i32_def)
  have ab: "ab < length xs" "\<And>j. j < length xs \<Longrightarrow> c_abs (xs ! j) \<le> c_abs (xs ! ab)"
    "\<And>j. j < ab \<Longrightarrow> c_abs (xs ! j) < c_abs (xs ! ab)"
    unfolding assms(5) by (fact max_abs16.idx_bound [OF assms(1,2)] max_abs16.idx_best [OF assms(2)]
        max_abs16.idx_first [OF assms(2)])+
  have hi: "hi < length xs" "\<And>j. j < length xs \<Longrightarrow> id (xs ! j) \<le> id (xs ! hi)"
    "\<And>j. j < hi \<Longrightarrow> id (xs ! j) < id (xs ! hi)"
    unfolding assms(3) by (fact max16.idx_bound [OF assms(1,2)] max16.idx_best [OF assms(2)]
        max16.idx_first [OF assms(2)])+
  have lo: "lo < length xs" "\<And>j. j < length xs \<Longrightarrow> - id (xs ! j) \<le> - id (xs ! lo)"
    "\<And>j. j < lo \<Longrightarrow> - id (xs ! j) < - id (xs ! lo)"
    unfolding assms(4) by (fact min16.idx_bound [OF assms(1,2)] min16.idx_best [OF assms(2)]
        min16.idx_first [OF assms(2)])+
  have "WebRtcSpl_MaxValueW16C xs = xs ! hi"
    using fold_max_index [where key = id, OF assms(1) hi(2,1), of "- 32768"] assms(2)
    by (simp add: WebRtcSpl_MaxValueW16C_def WEBRTC_SPL_WORD16_MIN_def in_i16_def cong: if_cong)
  moreover have "fold (\<lambda>x m. if x < m then x else m) xs m = - fold (\<lambda>x m. if - id x > m then - id x else m) xs (- m)"
    for m by (induction xs arbitrary: m) simp_all
  then have "WebRtcSpl_MinValueW16C xs = xs ! lo"
    using fold_max_index [where key = "\<lambda>x. - id x", OF assms(1) lo(2,1), of "- 32767"] assms(2)
    by (simp add: WebRtcSpl_MinValueW16C_def WEBRTC_SPL_WORD16_MAX_def in_i16_def cong: if_cong)
  moreover have "fold (\<lambda>x m. if c_abs x > m then c_abs x else m) xs 0 = c_abs (xs ! ab)"
    using fold_max_index [where key = c_abs, OF assms(1) ab(2,1), of 0] c by simp
  then have "WebRtcSpl_MaxAbsValueW16C xs = min \<bar>xs ! ab\<bar> 32767"
    using c [of "xs ! ab"] ab(1)
    by (auto simp: WebRtcSpl_MaxAbsValueW16C_def WEBRTC_SPL_WORD16_MAX_def i16_id in_i16_def Let_def)
  moreover have "j < ab \<longrightarrow> xs ! j \<in> set xs" using ab(1) by auto
  ultimately show ?thesis
    using hi(1) hi(2) [OF assms(6)] hi(3) [of j] lo(1) lo(2) [OF assms(6)] lo(3) [of j]
      ab(1) ab(2) [OF assms(6)] ab(3) [of j] c [of "xs ! ab"] c [of "xs ! j"] assms(6)
    by (auto simp: min_def)
qed

theorem min_max_search_witness:
  "WebRtcSpl_MaxValueW16C [3, - 7, 5, 5] = [3, - 7, 5, 5] ! WebRtcSpl_MaxIndexW16 [3, - 7, 5, 5] \<and>
   WebRtcSpl_MaxAbsValueW16C [3, - 7, 5, 5] = min \<bar>[3, - 7, 5, 5] ! WebRtcSpl_MaxAbsIndexW16 [3, - 7, 5, 5]\<bar> 32767"
  using min_max_search [of "[3, - 7, 5, 5]" "WebRtcSpl_MaxIndexW16 [3, - 7, 5, 5]"
      "WebRtcSpl_MinIndexW16 [3, - 7, 5, 5]" "WebRtcSpl_MaxAbsIndexW16 [3, - 7, 5, 5]" 2]
  by (simp add: in_i16_def)

section \<open>Unrolled sums\<close>

lemma sum_tail_fold: "i \<le> len \<Longrightarrow> sum_tail t len i acc = fold (\<lambda>j acc. i32 (acc + t j)) [i..<len] acc"
proof (induction t len i acc rule: sum_tail.induct)
  case (1 t len i acc)
  then show ?case
    by (subst sum_tail.simps) (cases "i < len", simp_all add: upt_conv_Cons)
qed

lemma sum_unrolled_fold: "i \<le> len \<Longrightarrow> sum_unrolled t len i acc = fold (\<lambda>j acc. i32 (acc + t j)) [i..<len] acc"
proof (induction t len i acc rule: sum_unrolled.induct)
  case (1 t len i acc)
  show ?case
  proof (cases "i + 3 < len")
    case True
    then have "[i..<len] = i # (i + 1) # (i + 2) # (i + 3) # [i + 4..<len]"
      by (simp add: upt_conv_Cons numeral_eq_Suc)
    then show ?thesis
      using True "1.IH" [OF True refl refl refl refl] by (subst sum_unrolled.simps) simp
  next
    case False
    then show ?thesis using "1.prems" by (subst sum_unrolled.simps) (simp add: sum_tail_fold)
  qed
qed

text \<open>A wrapped sum is the exact sum as soon as every partial sum fits.\<close>

lemma fold_i32_mod: "fold (\<lambda>j acc. i32 (acc + t j)) js acc mod 4294967296 = (acc + sum_list (map t js)) mod 4294967296"
proof (induction js arbitrary: acc)
  case (Cons j js)
  show ?case
    using mod_add_cong [OF i32_mod [of "acc + t j"] refl, of "sum_list (map t js)"]
    by (simp add: Cons add.assoc)
qed simp

lemma fold_i32_acc:
  assumes "js \<noteq> [] \<or> in_i32 acc"
  shows "fold (\<lambda>j acc. i32 (acc + t j)) js acc = i32 (acc + sum_list (map t js))"
proof -
  have "in_i32 (fold (\<lambda>j acc. i32 (acc + t j)) js acc)"
    using assms
  proof (induction js arbitrary: acc)
    case (Cons j js)
    then show ?case by simp
  qed simp
  then show ?thesis using i32_cong [OF fold_i32_mod [of t js acc]] by (simp add: i32_id)
qed

lemma fold_i32_sum:
  assumes "js \<noteq> [] \<or> in_i32 acc" and "in_i32 (acc + sum_list (map t js))"
  shows "fold (\<lambda>j acc. i32 (acc + t j)) js acc = acc + sum_list (map t js)"
  using fold_i32_acc [OF assms(1), of t] assms(2) by (simp add: i32_id)

text \<open>\<open>WebRtcSpl_DotProductWithScale\<close>: the loop unrolled by four computes the plain sum of the
  scaled products; if that sum fits 32 bits it is exact, whatever its partial sums do.\<close>

theorem DotProductWithScale_exact:
  assumes "length v1 = n" and "length v2 = n" and "\<forall>x\<in>set v1 \<union> set v2. in_i16 x"
    and "in_i32 (\<Sum>i<n. shr (v1 ! i * v2 ! i) scaling)"
  shows "WebRtcSpl_DotProductWithScale v1 v2 n scaling = (\<Sum>i<n. shr (v1 ! i * v2 ! i) scaling)"
proof -
  have "i32 (v1 ! i * v2 ! i) = v1 ! i * v2 ! i" if "i < n" for i
    using assms(1-3) that by (intro i32_mult_i16) simp_all
  then have m: "map (\<lambda>i. shr (i32 (v1 ! i * v2 ! i)) scaling) [0..<n] = map (\<lambda>i. shr (v1 ! i * v2 ! i) scaling) [0..<n]"
    by simp
  have "(\<Sum>i<n. shr (v1 ! i * v2 ! i) scaling) = sum_list (map (\<lambda>i. shr (v1 ! i * v2 ! i) scaling) [0..<n])"
    by (simp add: interv_sum_list_conv_sum_set_nat atLeast0LessThan)
  then show ?thesis
    using fold_i32_sum [of "[0..<n]" 0 "\<lambda>i. shr (i32 (v1 ! i * v2 ! i)) scaling"] assms(4) m
    by (simp add: WebRtcSpl_DotProductWithScale_def sum_unrolled_fold in_i32_def)
qed

theorem DotProductWithScale_exact_witness:
  "WebRtcSpl_DotProductWithScale [1, 2, 3, 4, 5] [5, 4, 3, 2, 1] 5 0 = 35"
  using DotProductWithScale_exact [of "[1, 2, 3, 4, 5]" 5 "[5, 4, 3, 2, 1]" 0]
  by (simp add: in_i16_def in_i32_def shr_def lessThan_Suc numeral_eq_Suc)

section \<open>Energy without overflow\<close>

text \<open>The magnitude scan is right for samples other than \<open>- 32768\<close>.\<close>

definition no_min16 :: "samples \<Rightarrow> bool" where
  "no_min16 v \<longleftrightarrow> (\<forall>x\<in>set v. - 32767 \<le> x \<and> x \<le> 32767)"

lemma scan_abs_bounds:
  assumes "no_min16 v"
  shows "- 1 \<le> scan_abs v" and "scan_abs v \<le> 32767" and "x \<in> set v \<Longrightarrow> \<bar>x\<bar> \<le> scan_abs v"
proof -
  let ?f = "\<lambda>x smax. let sabs = (if x > 0 then x else i16 (- x)) in if sabs > smax then sabs else smax"
  have f: "?f x m = max \<bar>x\<bar> m" if "x \<in> set v" for x m
  proof -
    have "- 32767 \<le> x" "x \<le> 32767" using assms that by (auto simp: no_min16_def)
    then show ?thesis by (auto simp: i16_id in_i16_def Let_def)
  qed
  have "m \<le> fold ?f ys m \<and> (m \<le> 32767 \<longrightarrow> fold ?f ys m \<le> 32767) \<and> (\<forall>x\<in>set ys. \<bar>x\<bar> \<le> fold ?f ys m)"
    if "set ys \<subseteq> set v" for ys m
    using that
  proof (induction ys arbitrary: m)
    case (Cons y ys)
    have "y \<in> set v" using Cons.prems by simp
    then have "\<bar>y\<bar> \<le> 32767" using assms by (auto simp: no_min16_def abs_le_iff)
    then show ?case
      using Cons.IH [of "?f y m"] Cons.prems f [OF \<open>y \<in> set v\<close>, of m] by auto
  qed simp
  from this [of v "- 1"] show "- 1 \<le> scan_abs v" "scan_abs v \<le> 32767" "x \<in> set v \<Longrightarrow> \<bar>x\<bar> \<le> scan_abs v"
    unfolding scan_abs_def by auto
qed

text \<open>
  The arithmetic of the scaling: \<open>n < 2 ^ b\<close> products of magnitude at most \<open>2 ^ (31 - t)\<close>,
  each shifted right by the bits of \<open>n\<close> that the \<open>t\<close> free bits do not cover.
\<close>

lemma scaled_sum_fits:
  assumes "\<bar>p\<bar> \<le> 2 ^ (31 - t)" and "t \<le> 31" and "b \<le> 31" and "0 \<le> n" and "n < 2 ^ b"
    and sc: "sc = (if int t > int b then 0 else int b - int t)"
  shows "n * \<bar>shr p sc\<bar> \<le> 2147483647"
proof (cases "t > b")
  case True
  have "n * \<bar>p\<bar> \<le> (2 ^ b - 1) * 2 ^ (31 - t)"
    using assms(1,4,5) by (intro mult_mono) simp_all
  also have "\<dots> < 2 ^ b * 2 ^ (31 - t)" by simp
  also have "\<dots> \<le> 2 ^ 31"
    using True assms(2) unfolding power_add [symmetric] by (intro power_increasing) simp_all
  finally show ?thesis using True sc by simp
next
  case False
  then have s: "sc = int (b - t)" and e: "(2::int) ^ (31 - t) = 2 ^ (31 - b) * 2 ^ (b - t)"
    using sc assms(3) by (simp_all flip: power_add)
  have "- (2 ^ (31 - b) * 2 ^ (b - t)) \<le> p" "p \<le> 2 ^ (31 - b) * 2 ^ (b - t)"
    using assms(1) unfolding e by (simp_all add: abs_le_iff)
  then have "shr (- (2 ^ (31 - b)) * 2 ^ (b - t)) sc \<le> shr p sc" "shr p sc \<le> shr (2 ^ (31 - b) * 2 ^ (b - t)) sc"
    by (simp_all add: shr_mono)
  then have "\<bar>shr p sc\<bar> \<le> 2 ^ (31 - b)"
    unfolding s shr_multiple by (simp add: abs_le_iff)
  then have "n * \<bar>shr p sc\<bar> \<le> (2 ^ b - 1) * 2 ^ (31 - b)"
    using assms(4,5) by (intro mult_mono) simp_all
  also have "\<dots> < 2 ^ b * 2 ^ (31 - b)" by simp
  also have "\<dots> = 2 ^ 31" using assms(3) by (simp flip: power_add)
  finally show ?thesis by simp
qed

text \<open>The scaling both routines derive from a magnitude \<open>m\<close> and a count \<open>n\<close>.\<close>

lemma norm_scaling_fits:
  assumes "m \<noteq> 0" and "\<bar>m\<bar> \<le> 32767" and "0 \<le> n" and "n < 2 ^ 31"
    and p: "\<bar>p\<bar> \<le> m * m \<or> (m = 32767 \<and> \<bar>p\<bar> \<le> 1073741824)"
    and sc: "sc = (if WebRtcSpl_NormW32 (m * m) > WebRtcSpl_GetSizeInBits n then 0
                   else WebRtcSpl_GetSizeInBits n - WebRtcSpl_NormW32 (m * m))"
  shows "n * \<bar>shr p sc\<bar> \<le> 2147483647"
proof -
  define t where "t = nat (WebRtcSpl_NormW32 (m * m))"
  define b where "b = nat (WebRtcSpl_GetSizeInBits n)"
  have "\<bar>m\<bar> * \<bar>m\<bar> \<le> 32767 * 32767" using assms(2) by (intro mult_mono) simp_all
  moreover have "0 < m * m" using assms(1) by (auto simp: zero_less_mult_iff)
  ultimately have mm: "- 2147483648 \<le> m * m" "m * m \<le> 2147483647" "0 < m * m" by simp_all
  have tt: "WebRtcSpl_NormW32 (m * m) = int t" using nw32.norm_nonneg [OF mm(1,2)] by (simp add: t_def)
  have fits: "m * m * 2 ^ t \<le> 2147483647" using nw32.norm_fits [OF mm(1,2)] by (simp add: t_def)
  have "(2::int) ^ t \<le> m * m * 2 ^ t" using mm(3) by simp
  then have "(2::int) ^ t \<le> 2147483647" using fits by linarith
  then have "(2::int) ^ t < 2 ^ 31" by simp
  then have t: "t < 31" by (rule power_less_imp_less_exp [rotated]) simp
  have "m * m * 2 ^ t < 2 ^ (31 - t) * 2 ^ t" using fits t by (simp flip: power_add)
  then have "m * m < 2 ^ (31 - t)" by simp
  moreover have "t = 1" if "m = 32767"
  proof -
    have "WebRtcSpl_NormW32 (32767 * 32767) = int 1" by (rule nw32.norm_unique) simp_all
    then show ?thesis by (simp add: t_def that)
  qed
  ultimately have p': "\<bar>p\<bar> \<le> 2 ^ (31 - t)" using p by auto
  have bb: "WebRtcSpl_GetSizeInBits n = int b" "n < 2 ^ b"
    using GetSizeInBits_exact [of n, OF _ _ refl] assms(3,4) by (simp_all add: b_def)
  have "b \<le> 31" using GetSizeInBits_iff [of n 31] assms(3,4) by (simp add: bb(1))
  have "sc = (if int t > int b then 0 else int b - int t)" using sc by (simp only: tt bb(1))
  from scaled_sum_fits [OF p' _ \<open>b \<le> 31\<close> assms(3) bb(2) this] t show ?thesis by simp
qed

lemma sum_bounded:
  assumes "\<And>x. x \<in> set xs \<Longrightarrow> int (length xs) * \<bar>f x\<bar> \<le> 2147483647"
  shows "\<bar>sum_list (map f xs)\<bar> \<le> 2147483647"
proof (cases "xs = []")
  case False
  let ?n = "int (length xs)"
  have "?n * \<bar>sum_list (map f ys)\<bar> \<le> int (length ys) * 2147483647" if "set ys \<subseteq> set xs" for ys
    using that
  proof (induction ys)
    case (Cons y ys)
    have "?n * \<bar>f y + sum_list (map f ys)\<bar> \<le> ?n * \<bar>f y\<bar> + ?n * \<bar>sum_list (map f ys)\<bar>"
      by (simp add: mult_left_mono flip: distrib_left)
    moreover have "?n * \<bar>f y\<bar> \<le> 2147483647" using assms Cons.prems by simp
    ultimately show ?case using Cons by (simp add: distrib_right)
  qed simp
  from this [of xs] False show ?thesis by simp
qed simp

lemma fold_i32_values:
  assumes "in_i32 (sum_list (map t xs))"
  shows "fold (\<lambda>x en. i32 (en + t x)) xs 0 = sum_list (map t xs)"
  using fold_i32_sum [of xs 0 t] assms by (simp add: in_i32_def)

text \<open>\<open>WebRtcSpl_Energy\<close> never overflows: for any vector without the sample \<open>- 32768\<close>, the
  scaling chosen by \<open>WebRtcSpl_GetScalingSquare\<close> makes the wrapped 32-bit loop
  return the exact sum of the scaled squares, a non-negative 32-bit value.\<close>

theorem Energy_exact:
  assumes "no_min16 v" and "length v < 2 ^ 31"
  shows "fst (WebRtcSpl_Energy v) = (\<Sum>x\<leftarrow>v. shr (x * x) (snd (WebRtcSpl_Energy v))) \<and>
         0 \<le> fst (WebRtcSpl_Energy v) \<and> fst (WebRtcSpl_Energy v) \<le> 2147483647 \<and>
         0 \<le> snd (WebRtcSpl_Energy v)"
proof -
  define m n sc where "m = scan_abs v" and "n = int (length v)" and "sc = WebRtcSpl_GetScalingSquare v (length v)"
  have n: "0 \<le> n" "n < 2 ^ 31" using assms(2) by (simp_all add: n_def)
  note sb = scan_abs_bounds [OF assms(1), folded m_def]
  have m: "\<bar>m\<bar> \<le> 32767" using sb(1,2) by simp
  have mul: "WEBRTC_SPL_MUL m m = m * m"
    using m i32_mult_i16 [of m m] by (simp add: WEBRTC_SPL_MUL_def i32_id in_i32_def in_i16_def abs_le_iff)
  have nb: "0 \<le> WebRtcSpl_GetSizeInBits n" "WebRtcSpl_GetSizeInBits n \<le> 32"
    using GetSizeInBits_bounds [of n] n by simp_all
  have "\<bar>m * m\<bar> \<le> 1073741824" using m by (intro i16_mult_bound) (auto simp: in_i16_def)
  then have norm: "0 \<le> WebRtcSpl_NormW32 (m * m)"
    using zero_le_square [of m] by (intro nw32.norm_nonneg) linarith+
  have sc: "sc = (if m = 0 then 0 else if WebRtcSpl_NormW32 (m * m) > WebRtcSpl_GetSizeInBits n then 0
      else WebRtcSpl_GetSizeInBits n - WebRtcSpl_NormW32 (m * m))"
    unfolding sc_def WebRtcSpl_GetScalingSquare_def m_def [symmetric] Let_def mul
    using n nb norm by (simp add: n_def [symmetric] u32_id in_u32_def i16_id in_i16_def)
  have sq: "i32 (x * x) = x * x \<and> n * \<bar>shr (x * x) sc\<bar> \<le> 2147483647" if "x \<in> set v" for x
  proof
    have "in_i16 x" using assms(1) that by (auto simp: no_min16_def in_i16_def)
    then show "i32 (x * x) = x * x" by (simp add: i32_mult_i16)
    have x: "\<bar>x\<bar> \<le> m" using sb(3) [OF that] .
    then have xx: "\<bar>x * x\<bar> \<le> m * m" unfolding abs_mult by (intro mult_mono) simp_all
    show "n * \<bar>shr (x * x) sc\<bar> \<le> 2147483647"
    proof (cases "m = 0")
      case False
      then show ?thesis using m n xx sc by (intro norm_scaling_fits [of m]) simp_all
    qed (use x in \<open>simp add: shr_def\<close>)
  qed
  have "\<bar>\<Sum>x\<leftarrow>v. shr (x * x) sc\<bar> \<le> 2147483647"
    using sq by (intro sum_bounded) (simp add: n_def)
  moreover have "0 \<le> (\<Sum>x\<leftarrow>v. shr (x * x) sc)"
    by (rule sum_list_nonneg) (auto simp: shr_nonneg)
  moreover have "(\<Sum>x\<leftarrow>v. shr (i32 (x * x)) sc) = (\<Sum>x\<leftarrow>v. shr (x * x) sc)"
    using sq by (metis (no_types, lifting) map_eq_conv)
  ultimately have "fold (\<lambda>x en. i32 (en + shr (i32 (x * x)) sc)) v 0 = (\<Sum>x\<leftarrow>v. shr (x * x) sc)"
    using fold_i32_values [of "\<lambda>x. shr (i32 (x * x)) sc" v] by (simp add: in_i32_def)
  moreover have "0 \<le> sc" using sc by auto
  moreover have "WebRtcSpl_Energy v = (fold (\<lambda>x en. i32 (en + shr (i32 (x * x)) sc)) v 0, sc)"
    by (simp add: WebRtcSpl_Energy_def sc_def Let_def)
  ultimately show ?thesis
    using \<open>\<bar>\<Sum>x\<leftarrow>v. shr (x * x) sc\<bar> \<le> 2147483647\<close> \<open>0 \<le> (\<Sum>x\<leftarrow>v. shr (x * x) sc)\<close> by simp
qed

theorem Energy_exact_witness:
  "fst (WebRtcSpl_Energy [32767, - 32767, 32767]) = 1610514432"
proof -
  have "snd (WebRtcSpl_Energy [32767, - 32767, 32767]) = 1" by code_simp
  with Energy_exact [of "[32767, - 32767, 32767]"] show ?thesis by (simp add: no_min16_def shr_def)
qed

text \<open>The hypothesis is needed: \<open>- 32768\<close> has no 16-bit negation, is not seen by the
  magnitude scan, and two such samples overflow the unscaled sum.\<close>

lemma Energy_overflow: "WebRtcSpl_Energy [- 32768, - 32768] = (- 2147483648, 0)"
  by code_simp

section \<open>Autocorrelation without overflow\<close>

lemma fold_unrolled_sum:
  assumes "in_i32 (\<Sum>j<n. t j)"
  shows "sum_unrolled t n 0 0 = (\<Sum>j<n. t j)"
proof -
  have "(\<Sum>j<n. t j) = sum_list (map t [0..<n])"
    by (simp add: interv_sum_list_conv_sum_set_nat atLeast0LessThan)
  then show ?thesis
    using fold_i32_sum [of "[0..<n]" 0 t] assms by (simp add: sum_unrolled_fold in_i32_def)
qed

lemma sum_bounded_nat:
  assumes "\<And>j. j < n \<Longrightarrow> int m * \<bar>f j\<bar> \<le> 2147483647" and "n \<le> m"
  shows "\<bar>\<Sum>j<n. f j\<bar> \<le> 2147483647"
proof -
  have e: "(\<Sum>j<n. f j) = sum_list (map f [0..<n])"
    by (simp add: interv_sum_list_conv_sum_set_nat atLeast0LessThan)
  have "int n * \<bar>f j\<bar> \<le> 2147483647" if "j < n" for j
    using assms(1) [OF that] mult_right_mono [of "int n" "int m" "\<bar>f j\<bar>"] assms(2) by simp
  then show ?thesis unfolding e by (intro sum_bounded) simp
qed

text \<open>The magnitude search, as a bound on every sample.\<close>

lemma MaxAbsValueW16C_bound:
  assumes "\<forall>x\<in>set xs. in_i16 x" and "m = WebRtcSpl_MaxAbsValueW16C xs"
  shows "0 \<le> m \<and> m \<le> 32767 \<and> (\<forall>x\<in>set xs. \<bar>x\<bar> \<le> m \<or> (m = 32767 \<and> \<bar>x\<bar> = 32768))"
proof (cases "xs = []")
  case True
  then show ?thesis by (simp add: assms(2) WebRtcSpl_MaxAbsValueW16C_def WEBRTC_SPL_WORD16_MAX_def i16_def)
next
  case False
  let ?r = "WebRtcSpl_MaxAbsIndexW16 xs"
  have r: "?r < length xs" by (rule max_abs16.idx_bound [OF False assms(1)])
  have c: "c_abs x = \<bar>x\<bar> \<and> \<bar>x\<bar> \<le> 32768" if "x \<in> set xs" for x
    using assms(1) that by (auto simp: c_abs_def in_i16_def i32_id in_i32_def)
  have "fold (\<lambda>x m. if c_abs x > m then c_abs x else m) xs 0 = c_abs (xs ! ?r)"
    using fold_max_index [where key = c_abs, OF False max_abs16.idx_best [OF assms(1)] r, of 0] c by simp
  then have m: "m = min (c_abs (xs ! ?r)) 32767"
    using c [of "xs ! ?r"] r
    by (auto simp: assms(2) WebRtcSpl_MaxAbsValueW16C_def WEBRTC_SPL_WORD16_MAX_def i16_id in_i16_def Let_def)
  have "c_abs x \<le> c_abs (xs ! ?r)" if "x \<in> set xs" for x
    using max_abs16.idx_best [OF assms(1)] that by (metis in_set_conv_nth)
  then show ?thesis using c m r by (force simp: min_def)
qed

text \<open>\<open>WebRtcSpl_AutoCorrelation\<close> returns \<open>order + 1\<close> correlations, none of which overflows:
  each is the exact sum of its scaled products, for all 16-bit samples (the extreme
  sample \<open>- 32768\<close> included) and every lag up to \<open>order\<close>.\<close>

theorem AutoCorrelation_exact:
  assumes "\<forall>x\<in>set v. in_i16 x" and "length v < 2 ^ 31" and "order \<le> length v"
    and "WebRtcSpl_AutoCorrelation v order = (result, sc, cnt)" and "i \<le> order"
  shows "cnt = order + 1 \<and> length result = cnt \<and> 0 \<le> sc \<and>
         result ! i = (\<Sum>j<length v - i. shr (v ! j * v ! (i + j)) sc) \<and> \<bar>result ! i\<bar> \<le> 2147483647"
proof -
  define m n where "m = WebRtcSpl_MaxAbsValueW16C v" and "n = int (length v)"
  have n: "0 \<le> n" "n < 2 ^ 31" using assms(2) by (simp_all add: n_def)
  note mb = MaxAbsValueW16C_bound [OF assms(1) m_def]
  have m16: "in_i16 m" using mb by (simp add: in_i16_def)
  have mul: "WEBRTC_SPL_MUL m m = m * m"
    using m16 by (simp add: WEBRTC_SPL_MUL_def i32_mult_i16 i32_id in_i16_i32)
  have sc: "sc = (if m = 0 then 0 else if WebRtcSpl_NormW32 (m * m) > WebRtcSpl_GetSizeInBits n then 0
      else WebRtcSpl_GetSizeInBits n - WebRtcSpl_NormW32 (m * m))"
    and res: "result = map (\<lambda>i. sum_unrolled (\<lambda>j. shr (i32 (v ! j * v ! (i + j))) sc) (length v - i) 0 0) [0..<order + 1]"
    and cnt: "cnt = order + 1"
    using assms(4) n unfolding WebRtcSpl_AutoCorrelation_def m_def [symmetric] Let_def mul
    by (auto simp: n_def [symmetric] u32_id in_u32_def)
  have trm: "int (length v) * \<bar>shr (x * y) sc\<bar> \<le> 2147483647" if "x \<in> set v" "y \<in> set v" for x y
  proof (cases "m = 0")
    case True
    then show ?thesis using mb that by (auto simp: shr_def)
  next
    case False
    have "\<bar>x * y\<bar> \<le> m * m \<or> (m = 32767 \<and> \<bar>x * y\<bar> \<le> 1073741824)"
    proof (cases "\<bar>x\<bar> \<le> m \<and> \<bar>y\<bar> \<le> m")
      case True
      then show ?thesis using mb unfolding abs_mult by (intro disjI1 mult_mono) simp_all
    next
      case F: False
      then have "m = 32767" using mb that by auto
      then show ?thesis using i16_mult_bound [of x y] assms(1) that by simp
    qed
    then show ?thesis
      using norm_scaling_fits [OF False _ n, of "x * y" sc] mb sc False by (simp add: n_def)
  qed
  let ?t = "\<lambda>j. shr (v ! j * v ! (i + j)) sc"
  have e: "sum_unrolled (\<lambda>j. shr (i32 (v ! j * v ! (i + j))) sc) (length v - i) 0 0 = (\<Sum>j<length v - i. ?t j)"
    and b: "\<bar>\<Sum>j<length v - i. ?t j\<bar> \<le> 2147483647"
  proof -
    show b: "\<bar>\<Sum>j<length v - i. ?t j\<bar> \<le> 2147483647"
      by (rule sum_bounded_nat [of _ "length v"]) (auto intro!: trm)
    have same: "shr (i32 (v ! j * v ! (i + j))) sc = ?t j" if "j < length v - i" for j
      using assms(1) that by (simp add: i32_mult_i16)
    then have "(\<Sum>j<length v - i. shr (i32 (v ! j * v ! (i + j))) sc) = (\<Sum>j<length v - i. ?t j)" by simp
    with b show "sum_unrolled (\<lambda>j. shr (i32 (v ! j * v ! (i + j))) sc) (length v - i) 0 0 = (\<Sum>j<length v - i. ?t j)"
      using fold_unrolled_sum [of "\<lambda>j. shr (i32 (v ! j * v ! (i + j))) sc" "length v - i"]
      by (simp add: in_i32_def abs_le_iff)
  qed
  have "result ! i = (\<Sum>j<length v - i. ?t j)" using e assms(5) by (simp add: res del: upt_Suc)
  moreover have "0 \<le> sc" using sc by auto
  ultimately show ?thesis using cnt b by (simp add: res)
qed

theorem AutoCorrelation_exact_witness:
  "fst (WebRtcSpl_AutoCorrelation [- 32768, - 32768, 100] 1) ! 1 = 535232512"
proof -
  obtain r s c where e: "WebRtcSpl_AutoCorrelation [- 32768, - 32768, 100] 1 = (r, s, c)"
    by (metis prod_cases3)
  have "fst (snd (WebRtcSpl_AutoCorrelation [- 32768, - 32768, 100] 1)) = 1" by code_simp
  then have "s = 1" using e by simp
  have sum: "(\<Sum>j<2. f j) = f 0 + f 1" for f :: "nat \<Rightarrow> int" by (simp add: numeral_2_eq_2)
  have "r ! 1 = 535232512"
    using AutoCorrelation_exact [OF _ _ _ e, of 1] by (simp add: in_i16_def shr_def sum \<open>s = 1\<close>)
  then show ?thesis unfolding e by simp
qed

section \<open>Downsampling\<close>

lemma size_t_int: "n < 2 ^ 64 \<Longrightarrow> size_t (int n) = n"
  by (simp add: size_t_def)

lemma downsample_tap_convolution:
  assumes "at + i < length data_in" "length coef \<le> at + i + 1"
  shows "downsample_tap data_in at coef i =
    Some (clamp (- 32768) 32767 (shr (i32 (2048 + (\<Sum>j<length coef. coef ! j * data_in ! (at + i - j)))) 12))"
  using assms fold_i32_acc [of "[0..<length coef]" 2048 "\<lambda>j. coef ! j * data_in ! (at + i - j)"]
  by (simp add: downsample_tap_def SatW32ToW16_clamp in_i32_def interv_sum_list_conv_sum_set_nat atLeast0LessThan)

lemma downsample_loop_eq:
  assumes "0 < f" "\<And>k. k \<le> n \<Longrightarrow> out (i + f * k) = Some (y (i + f * k))" "i + f * (n + 1) < 2 ^ 64" "k + n < length d"
  shows "downsample_loop out (int f) (i + f * n + 1) i k d =
    Some (take k d @ map (\<lambda>k. y (i + f * k)) [0..<n + 1] @ drop (k + n + 1) d)"
  using assms(2-)
proof (induction n arbitrary: i k d)
  case 0
  have "size_t (int i + int f) = i + f" using 0(2) size_t_int [of "i + f"] by simp
  then show ?case
    using assms(1) 0(1) [of 0] 0(3)
    by (subst downsample_loop.simps, simp, subst downsample_loop.simps) (simp add: upd_conv_take_nth_drop)
next
  case (Suc n)
  have s: "map (\<lambda>k. y (i + f * k)) [0..<Suc n + 1] = y i # map (\<lambda>k. y (i + f + f * k)) [0..<n + 1]"
    by (simp add: upt_conv_Cons map_Suc_upt [symmetric] del: upt_Suc) (simp add: add.assoc)
  have b: "i + f + f * (n + 1) < 2 ^ 64" using Suc.prems(2) by (simp add: algebra_simps)
  have o: "out (i + f + f * k) = Some (y (i + f + f * k))" if "k \<le> n" for k
    using Suc.prems(1) [of "k + 1"] that by (simp add: algebra_simps)
  have "size_t (int i + int f) = i + f" using b size_t_int [of "i + f"] by simp
  then have "downsample_loop out (int f) (i + f * Suc n + 1) i k d
      = downsample_loop out (int f) (i + f + f * n + 1) (i + f) (k + 1) (d[k := y i])"
    using Suc.prems(1) [of 0] Suc.prems(3) by (subst downsample_loop.simps) (simp add: add.assoc)
  also have "\<dots> = Some (take (k + 1) (d[k := y i]) @ map (\<lambda>k. y (i + f + f * k)) [0..<n + 1] @ drop (k + 1 + n + 1) (d[k := y i]))"
    using Suc.prems(3) b o by (intro Suc.IH) simp_all
  also have "take (k + 1) (d[k := y i]) = take k d @ [y i]" using Suc.prems(3) by (simp add: take_Suc_conv_app_nth)
  finally show ?case using s by simp
qed

text \<open>Coefficients with magnitudes of at most 65535 in all keep the sum of 16-bit samples in 32 bits.\<close>

lemma convolution_fits:
  assumes "list_all in_i16 data_in" "(\<Sum>c\<leftarrow>coef. \<bar>c\<bar>) \<le> 65535" "i < length data_in"
  shows "i32 (2048 + (\<Sum>j<length coef. coef ! j * data_in ! (i - j))) = 2048 + (\<Sum>j<length coef. coef ! j * data_in ! (i - j))"
proof -
  have x: "\<bar>data_in ! (i - j)\<bar> \<le> 32768" for j
  proof -
    have "in_i16 (data_in ! (i - j))" using assms(1,3) by (simp add: list_all_length)
    then show ?thesis by (auto simp: in_i16_def abs_le_iff)
  qed
  have "\<bar>\<Sum>j<length coef. coef ! j * data_in ! (i - j)\<bar> \<le> (\<Sum>j<length coef. \<bar>coef ! j * data_in ! (i - j)\<bar>)" by (rule sum_abs)
  also have "\<dots> \<le> (\<Sum>j<length coef. \<bar>coef ! j\<bar> * 32768)" using x by (intro sum_mono) (simp add: abs_mult mult_left_mono)
  also have "\<dots> = (\<Sum>j<length coef. \<bar>coef ! j\<bar>) * 32768" by (rule sum_distrib_right [symmetric])
  also have "(\<Sum>j<length coef. \<bar>coef ! j\<bar>) = (\<Sum>c\<leftarrow>coef. \<bar>c\<bar>)" by (simp add: sum_list_sum_nth atLeast0LessThan)
  finally have "\<bar>\<Sum>j<length coef. coef ! j * data_in ! (i - j)\<bar> \<le> 65535 * 32768" using assms(2) by simp
  then show ?thesis by (intro i32_id) (simp add: in_i32_def abs_le_iff)
qed

text \<open>Outside the hypotheses of the property below: a zero or a negative factor makes the loop write past \<open>data_out\<close>, and
  an end position that wraps passes the check of the input's length, so that nothing is computed and success returned.\<close>

lemma DownsampleFast_outside:
  "WebRtcSpl_DownsampleFastC [1, 2] 0 2 [5] 1 [4096] 0 0 = None"
  "WebRtcSpl_DownsampleFastC [1, 2] 0 2 [5] 1 [4096] (- 1) 1 = None"
  "WebRtcSpl_DownsampleFastC [1] 0 1 [5] 1 [4096] 1 (2 ^ 64 - 1) = Some (0, [5])"
  by (simp_all add: WebRtcSpl_DownsampleFastC_def downsample_loop.simps downsample_tap_def size_t_def Let_def upt_rec)

text \<open>C28: \<open>WebRtcSpl_DownsampleFastC\<close> with a positive factor, positions that fit \<open>size_t\<close> and arrays of the lengths it is told returns the
  error value, and changes nothing, exactly when a length is zero or the input too short for \<open>data_out_length\<close> outputs; otherwise it writes
  them: the \<open>k\<close>-th is the convolution of the coefficients with the input at position \<open>delay + factor * k\<close>, summed in 32 bits, rounded to
  the nearest in Q12 and saturated to 16 bits. When the magnitudes of the coefficients add up to at most 65535 the sum is exact for all
  16-bit samples.\<close>

theorem DownsampleFast_spec:
  assumes "0 < factor" "delay + factor * n_out < 2 ^ 64"
    and "at + n_in \<le> length data_in" "length coef \<le> at + delay + 1" "n_out \<le> length data_out"
  shows "WebRtcSpl_DownsampleFastC data_in at n_in data_out n_out coef (int factor) delay =
      (if n_out = 0 \<or> coef = [] \<or> n_in < delay + factor * (n_out - 1) + 1 then Some (- 1, data_out)
       else Some (0, map (\<lambda>k. clamp (- 32768) 32767 (shr (i32 (2048 +
                       (\<Sum>j<length coef. coef ! j * data_in ! (at + delay + factor * k - j)))) 12)) [0..<n_out] @ drop n_out data_out)) \<and>
    (list_all in_i16 data_in \<and> (\<Sum>c\<leftarrow>coef. \<bar>c\<bar>) \<le> 65535 \<and> delay + factor * k < n_in \<longrightarrow>
       i32 (2048 + (\<Sum>j<length coef. coef ! j * data_in ! (at + delay + factor * k - j))) =
       2048 + (\<Sum>j<length coef. coef ! j * data_in ! (at + delay + factor * k - j)))"
proof (intro conjI impI)
  define y where "y = (\<lambda>i. clamp (- 32768) 32767 (shr (i32 (2048 + (\<Sum>j<length coef. coef ! j * data_in ! (at + i - j)))) 12))"
  show "WebRtcSpl_DownsampleFastC data_in at n_in data_out n_out coef (int factor) delay =
      (if n_out = 0 \<or> coef = [] \<or> n_in < delay + factor * (n_out - 1) + 1 then Some (- 1, data_out)
       else Some (0, map (\<lambda>k. clamp (- 32768) 32767 (shr (i32 (2048 +
                       (\<Sum>j<length coef. coef ! j * data_in ! (at + delay + factor * k - j)))) 12)) [0..<n_out] @ drop n_out data_out))"
  proof (cases "n_out = 0")
    case False
    then obtain n where n: "n_out = n + 1" by (cases n_out) auto
    have e: "size_t (int delay + int factor * (int n_out - 1) + 1) = delay + factor * n + 1"
      using assms(1,2) size_t_int [of "delay + factor * n + 1"] by (simp add: n algebra_simps)
    have "downsample_tap data_in at coef (delay + factor * k) = Some (y (delay + factor * k))" if "k \<le> n" "delay + factor * n + 1 \<le> n_in" for k
    proof -
      have "at + (delay + factor * k) < length data_in" "length coef \<le> at + (delay + factor * k) + 1"
        using mult_le_mono2 [OF that(1), of factor] that(2) assms(3,4) by linarith+
      then show ?thesis unfolding y_def by (rule downsample_tap_convolution)
    qed
    then have "downsample_loop (downsample_tap data_in at coef) (int factor) (delay + factor * n + 1) delay 0 data_out =
        Some (map (\<lambda>k. y (delay + factor * k)) [0..<n_out] @ drop n_out data_out)" if "delay + factor * n + 1 \<le> n_in"
      using downsample_loop_eq [OF assms(1), of n "downsample_tap data_in at coef" delay y 0 data_out] that assms(2,5) by (simp add: n)
    then show ?thesis unfolding WebRtcSpl_DownsampleFastC_def e Let_def by (simp add: n y_def add.assoc)
  qed (simp add: WebRtcSpl_DownsampleFastC_def)
next
  assume a: "list_all in_i16 data_in \<and> (\<Sum>c\<leftarrow>coef. \<bar>c\<bar>) \<le> 65535 \<and> delay + factor * k < n_in"
  then have "at + delay + factor * k < length data_in" using assms(3) by linarith
  then show "i32 (2048 + (\<Sum>j<length coef. coef ! j * data_in ! (at + delay + factor * k - j))) =
      2048 + (\<Sum>j<length coef. coef ! j * data_in ! (at + delay + factor * k - j))"
    using a by (intro convolution_fits) simp_all
qed

theorem DownsampleFast_spec_witness:
  "WebRtcSpl_DownsampleFastC [0, 0, 4096, 0] 1 3 [5, 6, 7] 2 [4096, 2048] 2 0 = Some (0, [0, 2048, 7])"
  using conjunct1 [OF DownsampleFast_spec [of 2 0 2 1 3 "[0, 0, 4096, 0]" "[4096, 2048]" "[5, 6, 7]"]]
  by (simp add: upt_rec shr_def i32_def clamp_def lessThan_Suc)

end
