(* ===== verification/Spl_Fft.thy ===== *)
theory Spl_Fft
  imports Spl_Vector
begin

unbundle bit_operations_syntax

text \<open>
  The fixed-point Fourier transforms: \<open>complex_bit_reverse.c\<close>, \<open>complex_fft.c\<close> (the generic-C
  branches of its conditionals), \<open>complex_fft_tables.h\<close> and \<open>real_fft.c\<close>. Complex data is the list of
  its 16-bit real and imaginary parts, interleaved. The index arithmetic (at most
  2048) is in \<open>nat\<close>, the sample arithmetic wraps at its width.
\<close>

section \<open>Bit reversal\<close>

definition index_7 :: "nat list" where
  "index_7 = [
    1, 64, 2, 32, 3, 96, 4, 16, 5, 80, 6, 48, 7, 112, 9, 72,
    10, 40, 11, 104, 12, 24, 13, 88, 14, 56, 15, 120, 17, 68, 18, 36,
    19, 100, 21, 84, 22, 52, 23, 116, 25, 76, 26, 44, 27, 108, 29, 92,
    30, 60, 31, 124, 33, 66, 35, 98, 37, 82, 38, 50, 39, 114, 41, 74,
    43, 106, 45, 90, 46, 58, 47, 122, 49, 70, 51, 102, 53, 86, 55, 118,
    57, 78, 59, 110, 61, 94, 63, 126, 67, 97, 69, 81, 71, 113, 75, 105,
    77, 89, 79, 121, 83, 101, 87, 117, 91, 109, 95, 125, 103, 115, 111, 123]"

definition index_8 :: "nat list" where
  "index_8 = [
    1, 128, 2, 64, 3, 192, 4, 32, 5, 160, 6, 96, 7, 224, 8, 16,
    9, 144, 10, 80, 11, 208, 12, 48, 13, 176, 14, 112, 15, 240, 17, 136,
    18, 72, 19, 200, 20, 40, 21, 168, 22, 104, 23, 232, 25, 152, 26, 88,
    27, 216, 28, 56, 29, 184, 30, 120, 31, 248, 33, 132, 34, 68, 35, 196,
    37, 164, 38, 100, 39, 228, 41, 148, 42, 84, 43, 212, 44, 52, 45, 180,
    46, 116, 47, 244, 49, 140, 50, 76, 51, 204, 53, 172, 54, 108, 55, 236,
    57, 156, 58, 92, 59, 220, 61, 188, 62, 124, 63, 252, 65, 130, 67, 194,
    69, 162, 70, 98, 71, 226, 73, 146, 74, 82, 75, 210, 77, 178, 78, 114,
    79, 242, 81, 138, 83, 202, 85, 170, 86, 106, 87, 234, 89, 154, 91, 218,
    93, 186, 94, 122, 95, 250, 97, 134, 99, 198, 101, 166, 103, 230, 105, 150,
    107, 214, 109, 182, 110, 118, 111, 246, 113, 142, 115, 206, 117, 174, 119, 238,
    121, 158, 123, 222, 125, 190, 127, 254, 131, 193, 133, 161, 135, 225, 137, 145,
    139, 209, 141, 177, 143, 241, 147, 201, 149, 169, 151, 233, 155, 217, 157, 185,
    159, 249, 163, 197, 167, 229, 171, 213, 173, 181, 175, 245, 179, 205, 183, 237,
    187, 221, 191, 253, 199, 227, 203, 211, 207, 243, 215, 235, 223, 251, 239, 247]"

text \<open>Exchanging two complex elements through an \<open>int32_t\<close> pointer.\<close>

definition swap_complex :: "nat \<Rightarrow> nat \<Rightarrow> samples \<Rightarrow> samples" where
  "swap_complex a b d =
     d[2 * a := d ! (2 * b), 2 * a + 1 := d ! (2 * b + 1), 2 * b := d ! (2 * a), 2 * b + 1 := d ! (2 * a + 1)]"

text \<open>The \<open>do ... while\<close> loop: halve \<open>l\<close> until it is at most \<open>lim\<close>.\<close>

function halve_until :: "nat \<Rightarrow> nat \<Rightarrow> nat" where
  "halve_until l lim = (if l div 2 > lim then halve_until (l div 2) lim else l div 2)"
  by pat_completeness auto
termination by (relation "measure fst") auto

declare halve_until.simps [simp del]

definition next_reversed :: "nat \<Rightarrow> nat \<Rightarrow> nat" where
  "next_reversed n mr = (let l = halve_until n (n - 1 - mr) in (mr AND (l - 1)) + l)"

definition bit_reverse_step :: "nat \<Rightarrow> nat \<Rightarrow> nat \<times> samples \<Rightarrow> nat \<times> samples" where
  "bit_reverse_step n m = (\<lambda>(mr, d).
     (let mr = next_reversed n mr in if mr \<le> m then (mr, d) else (mr, swap_complex m mr d)))"

definition WebRtcSpl_ComplexBitReverse :: "samples \<Rightarrow> nat \<Rightarrow> samples" where
  "WebRtcSpl_ComplexBitReverse complex_data stages =
     (if stages = 7 \<or> stages = 8
      then
        (let (len, index) = (if stages = 8 then (240, index_8) else (112, index_7))
         in fold (\<lambda>m d. swap_complex (index ! (2 * m)) (index ! (2 * m + 1)) d) [0..<len div 2] complex_data)
      else
        (let n = 2 ^ stages; nn = n - 1
         in snd (fold (bit_reverse_step n) [1..<nn + 1] (0, complex_data))))"

section \<open>Complex transforms\<close>

definition kSinTable1024 :: "samples" where
  "kSinTable1024 = [
    0, 201, 402, 603, 804, 1005, 1206, 1406, 1607, 1808, 2009, 2209, 2410, 2610,
    2811, 3011, 3211, 3411, 3611, 3811, 4011, 4210, 4409, 4608, 4807, 5006, 5205, 5403,
    5601, 5799, 5997, 6195, 6392, 6589, 6786, 6982, 7179, 7375, 7571, 7766, 7961, 8156,
    8351, 8545, 8739, 8932, 9126, 9319, 9511, 9703, 9895, 10087, 10278, 10469, 10659, 10849,
    11038, 11227, 11416, 11604, 11792, 11980, 12166, 12353, 12539, 12724, 12909, 13094, 13278, 13462,
    13645, 13827, 14009, 14191, 14372, 14552, 14732, 14911, 15090, 15268, 15446, 15623, 15799, 15975,
    16150, 16325, 16499, 16672, 16845, 17017, 17189, 17360, 17530, 17699, 17868, 18036, 18204, 18371,
    18537, 18702, 18867, 19031, 19194, 19357, 19519, 19680, 19840, 20000, 20159, 20317, 20474, 20631,
    20787, 20942, 21096, 21249, 21402, 21554, 21705, 21855, 22004, 22153, 22301, 22448, 22594, 22739,
    22883, 23027, 23169, 23311, 23452, 23592, 23731, 23869, 24006, 24143, 24278, 24413, 24546, 24679,
    24811, 24942, 25072, 25201, 25329, 25456, 25582, 25707, 25831, 25954, 26077, 26198, 26318, 26437,
    26556, 26673, 26789, 26905, 27019, 27132, 27244, 27355, 27466, 27575, 27683, 27790, 27896, 28001,
    28105, 28208, 28309, 28410, 28510, 28608, 28706, 28802, 28897, 28992, 29085, 29177, 29268, 29358,
    29446, 29534, 29621, 29706, 29790, 29873, 29955, 30036, 30116, 30195, 30272, 30349, 30424, 30498,
    30571, 30643, 30713, 30783, 30851, 30918, 30984, 31049, 31113, 31175, 31236, 31297, 31356, 31413,
    31470, 31525, 31580, 31633, 31684, 31735, 31785, 31833, 31880, 31926, 31970, 32014, 32056, 32097,
    32137, 32176, 32213, 32249, 32284, 32318, 32350, 32382, 32412, 32441, 32468, 32495, 32520, 32544,
    32567, 32588, 32609, 32628, 32646, 32662, 32678, 32692, 32705, 32717, 32727, 32736, 32744, 32751,
    32757, 32761, 32764, 32766, 32767, 32766, 32764, 32761, 32757, 32751, 32744, 32736, 32727, 32717,
    32705, 32692, 32678, 32662, 32646, 32628, 32609, 32588, 32567, 32544, 32520, 32495, 32468, 32441,
    32412, 32382, 32350, 32318, 32284, 32249, 32213, 32176, 32137, 32097, 32056, 32014, 31970, 31926,
    31880, 31833, 31785, 31735, 31684, 31633, 31580, 31525, 31470, 31413, 31356, 31297, 31236, 31175,
    31113, 31049, 30984, 30918, 30851, 30783, 30713, 30643, 30571, 30498, 30424, 30349, 30272, 30195,
    30116, 30036, 29955, 29873, 29790, 29706, 29621, 29534, 29446, 29358, 29268, 29177, 29085, 28992,
    28897, 28802, 28706, 28608, 28510, 28410, 28309, 28208, 28105, 28001, 27896, 27790, 27683, 27575,
    27466, 27355, 27244, 27132, 27019, 26905, 26789, 26673, 26556, 26437, 26318, 26198, 26077, 25954,
    25831, 25707, 25582, 25456, 25329, 25201, 25072, 24942, 24811, 24679, 24546, 24413, 24278, 24143,
    24006, 23869, 23731, 23592, 23452, 23311, 23169, 23027, 22883, 22739, 22594, 22448, 22301, 22153,
    22004, 21855, 21705, 21554, 21402, 21249, 21096, 20942, 20787, 20631, 20474, 20317, 20159, 20000,
    19840, 19680, 19519, 19357, 19194, 19031, 18867, 18702, 18537, 18371, 18204, 18036, 17868, 17699,
    17530, 17360, 17189, 17017, 16845, 16672, 16499, 16325, 16150, 15975, 15799, 15623, 15446, 15268,
    15090, 14911, 14732, 14552, 14372, 14191, 14009, 13827, 13645, 13462, 13278, 13094, 12909, 12724,
    12539, 12353, 12166, 11980, 11792, 11604, 11416, 11227, 11038, 10849, 10659, 10469, 10278, 10087,
    9895, 9703, 9511, 9319, 9126, 8932, 8739, 8545, 8351, 8156, 7961, 7766, 7571, 7375,
    7179, 6982, 6786, 6589, 6392, 6195, 5997, 5799, 5601, 5403, 5205, 5006, 4807, 4608,
    4409, 4210, 4011, 3811, 3611, 3411, 3211, 3011, 2811, 2610, 2410, 2209, 2009, 1808,
    1607, 1406, 1206, 1005, 804, 603, 402, 201, 0, - 201, - 402, - 603, - 804, - 1005,
    - 1206, - 1406, - 1607, - 1808, - 2009, - 2209, - 2410, - 2610, - 2811, - 3011, - 3211, - 3411, - 3611, - 3811,
    - 4011, - 4210, - 4409, - 4608, - 4807, - 5006, - 5205, - 5403, - 5601, - 5799, - 5997, - 6195, - 6392, - 6589,
    - 6786, - 6982, - 7179, - 7375, - 7571, - 7766, - 7961, - 8156, - 8351, - 8545, - 8739, - 8932, - 9126, - 9319,
    - 9511, - 9703, - 9895, - 10087, - 10278, - 10469, - 10659, - 10849, - 11038, - 11227, - 11416, - 11604, - 11792, - 11980,
    - 12166, - 12353, - 12539, - 12724, - 12909, - 13094, - 13278, - 13462, - 13645, - 13827, - 14009, - 14191, - 14372, - 14552,
    - 14732, - 14911, - 15090, - 15268, - 15446, - 15623, - 15799, - 15975, - 16150, - 16325, - 16499, - 16672, - 16845, - 17017,
    - 17189, - 17360, - 17530, - 17699, - 17868, - 18036, - 18204, - 18371, - 18537, - 18702, - 18867, - 19031, - 19194, - 19357,
    - 19519, - 19680, - 19840, - 20000, - 20159, - 20317, - 20474, - 20631, - 20787, - 20942, - 21096, - 21249, - 21402, - 21554,
    - 21705, - 21855, - 22004, - 22153, - 22301, - 22448, - 22594, - 22739, - 22883, - 23027, - 23169, - 23311, - 23452, - 23592,
    - 23731, - 23869, - 24006, - 24143, - 24278, - 24413, - 24546, - 24679, - 24811, - 24942, - 25072, - 25201, - 25329, - 25456,
    - 25582, - 25707, - 25831, - 25954, - 26077, - 26198, - 26318, - 26437, - 26556, - 26673, - 26789, - 26905, - 27019, - 27132,
    - 27244, - 27355, - 27466, - 27575, - 27683, - 27790, - 27896, - 28001, - 28105, - 28208, - 28309, - 28410, - 28510, - 28608,
    - 28706, - 28802, - 28897, - 28992, - 29085, - 29177, - 29268, - 29358, - 29446, - 29534, - 29621, - 29706, - 29790, - 29873,
    - 29955, - 30036, - 30116, - 30195, - 30272, - 30349, - 30424, - 30498, - 30571, - 30643, - 30713, - 30783, - 30851, - 30918,
    - 30984, - 31049, - 31113, - 31175, - 31236, - 31297, - 31356, - 31413, - 31470, - 31525, - 31580, - 31633, - 31684, - 31735,
    - 31785, - 31833, - 31880, - 31926, - 31970, - 32014, - 32056, - 32097, - 32137, - 32176, - 32213, - 32249, - 32284, - 32318,
    - 32350, - 32382, - 32412, - 32441, - 32468, - 32495, - 32520, - 32544, - 32567, - 32588, - 32609, - 32628, - 32646, - 32662,
    - 32678, - 32692, - 32705, - 32717, - 32727, - 32736, - 32744, - 32751, - 32757, - 32761, - 32764, - 32766, - 32767, - 32766,
    - 32764, - 32761, - 32757, - 32751, - 32744, - 32736, - 32727, - 32717, - 32705, - 32692, - 32678, - 32662, - 32646, - 32628,
    - 32609, - 32588, - 32567, - 32544, - 32520, - 32495, - 32468, - 32441, - 32412, - 32382, - 32350, - 32318, - 32284, - 32249,
    - 32213, - 32176, - 32137, - 32097, - 32056, - 32014, - 31970, - 31926, - 31880, - 31833, - 31785, - 31735, - 31684, - 31633,
    - 31580, - 31525, - 31470, - 31413, - 31356, - 31297, - 31236, - 31175, - 31113, - 31049, - 30984, - 30918, - 30851, - 30783,
    - 30713, - 30643, - 30571, - 30498, - 30424, - 30349, - 30272, - 30195, - 30116, - 30036, - 29955, - 29873, - 29790, - 29706,
    - 29621, - 29534, - 29446, - 29358, - 29268, - 29177, - 29085, - 28992, - 28897, - 28802, - 28706, - 28608, - 28510, - 28410,
    - 28309, - 28208, - 28105, - 28001, - 27896, - 27790, - 27683, - 27575, - 27466, - 27355, - 27244, - 27132, - 27019, - 26905,
    - 26789, - 26673, - 26556, - 26437, - 26318, - 26198, - 26077, - 25954, - 25831, - 25707, - 25582, - 25456, - 25329, - 25201,
    - 25072, - 24942, - 24811, - 24679, - 24546, - 24413, - 24278, - 24143, - 24006, - 23869, - 23731, - 23592, - 23452, - 23311,
    - 23169, - 23027, - 22883, - 22739, - 22594, - 22448, - 22301, - 22153, - 22004, - 21855, - 21705, - 21554, - 21402, - 21249,
    - 21096, - 20942, - 20787, - 20631, - 20474, - 20317, - 20159, - 20000, - 19840, - 19680, - 19519, - 19357, - 19194, - 19031,
    - 18867, - 18702, - 18537, - 18371, - 18204, - 18036, - 17868, - 17699, - 17530, - 17360, - 17189, - 17017, - 16845, - 16672,
    - 16499, - 16325, - 16150, - 15975, - 15799, - 15623, - 15446, - 15268, - 15090, - 14911, - 14732, - 14552, - 14372, - 14191,
    - 14009, - 13827, - 13645, - 13462, - 13278, - 13094, - 12909, - 12724, - 12539, - 12353, - 12166, - 11980, - 11792, - 11604,
    - 11416, - 11227, - 11038, - 10849, - 10659, - 10469, - 10278, - 10087, - 9895, - 9703, - 9511, - 9319, - 9126, - 8932,
    - 8739, - 8545, - 8351, - 8156, - 7961, - 7766, - 7571, - 7375, - 7179, - 6982, - 6786, - 6589, - 6392, - 6195,
    - 5997, - 5799, - 5601, - 5403, - 5205, - 5006, - 4807, - 4608, - 4409, - 4210, - 4011, - 3811, - 3611, - 3411,
    - 3211, - 3011, - 2811, - 2610, - 2410, - 2209, - 2009, - 1808, - 1607, - 1406, - 1206, - 1005, - 804, - 603,
    - 402, - 201]"

text \<open>The values of the loop variable of \<open>for (i = m; i < n; i += istep)\<close>.\<close>

definition loop_steps :: "nat \<Rightarrow> nat \<Rightarrow> nat \<Rightarrow> nat list" where
  "loop_steps m n istep = map (\<lambda>q. m + istep * q) [0..<(n - m + istep - 1) div istep]"

text \<open>The butterflies: from \<open>frfi[2j]\<close>, \<open>frfi[2j+1]\<close>, \<open>frfi[2i]\<close>, \<open>frfi[2i+1]\<close> to the same four.\<close>

type_synonym butterfly = "int \<Rightarrow> int \<Rightarrow> int \<times> int \<times> int \<times> int \<Rightarrow> int \<times> int \<times> int \<times> int"

definition fft_butterfly_low :: butterfly where
  "fft_butterfly_low wr wi = (\<lambda>(jr, ji, ir, ii).
     (let tr32 = shr (i32 (wr * jr - wi * ji)) 15;
          ti32 = shr (i32 (wr * ji + wi * jr)) 15;
          qr32 = ir;
          qi32 = ii
      in (i16 (shr (i32 (qr32 - tr32)) 1), i16 (shr (i32 (qi32 - ti32)) 1),
          i16 (shr (i32 (qr32 + tr32)) 1), i16 (shr (i32 (qi32 + ti32)) 1))))"

definition fft_butterfly_high :: butterfly where
  "fft_butterfly_high wr wi = (\<lambda>(jr, ji, ir, ii).
     (let tr32 = i32 (wr * jr - wi * ji + 1);
          ti32 = i32 (wr * ji + wi * jr + 1);
          tr32 = shr tr32 1;
          ti32 = shr ti32 1;
          qr32 = shl32 ir 14;
          qi32 = shl32 ii 14
      in (i16 (shr (i32 (qr32 - tr32 + 16384)) 15), i16 (shr (i32 (qi32 - ti32 + 16384)) 15),
          i16 (shr (i32 (qr32 + tr32 + 16384)) 15), i16 (shr (i32 (qi32 + ti32 + 16384)) 15))))"

definition ifft_butterfly_low :: "int \<Rightarrow> butterfly" where
  "ifft_butterfly_low shift wr wi = (\<lambda>(jr, ji, ir, ii).
     (let tr32 = shr (i32 (wr * jr - wi * ji)) 15;
          ti32 = shr (i32 (wr * ji + wi * jr)) 15;
          qr32 = ir;
          qi32 = ii
      in (i16 (shr (i32 (qr32 - tr32)) shift), i16 (shr (i32 (qi32 - ti32)) shift),
          i16 (shr (i32 (qr32 + tr32)) shift), i16 (shr (i32 (qi32 + ti32)) shift))))"

definition ifft_butterfly_high :: "int \<Rightarrow> int \<Rightarrow> butterfly" where
  "ifft_butterfly_high shift round2 wr wi = (\<lambda>(jr, ji, ir, ii).
     (let tr32 = i32 (wr * jr - wi * ji + 1);
          ti32 = i32 (wr * ji + wi * jr + 1);
          tr32 = shr tr32 1;
          ti32 = shr ti32 1;
          qr32 = shl32 ir 14;
          qi32 = shl32 ii 14
      in (i16 (shr (i32 (qr32 - tr32 + round2)) (shift + 14)), i16 (shr (i32 (qi32 - ti32 + round2)) (shift + 14)),
          i16 (shr (i32 (qr32 + tr32 + round2)) (shift + 14)), i16 (shr (i32 (qi32 + ti32 + round2)) (shift + 14)))))"

text \<open>One butterfly in place, and the two inner loops of a stage with \<open>l\<close> twiddle factors.\<close>

definition apply_butterfly :: "butterfly \<Rightarrow> int \<Rightarrow> int \<Rightarrow> nat \<Rightarrow> nat \<Rightarrow> samples \<Rightarrow> samples" where
  "apply_butterfly bf wr wi i l d =
     (let j = i + l;
          (jr, ji, ir, ii) = bf wr wi (d ! (2 * j), d ! (2 * j + 1), d ! (2 * i), d ! (2 * i + 1))
      in d[2 * j := jr, 2 * j + 1 := ji, 2 * i := ir, 2 * i + 1 := ii])"

definition fft_stage :: "(int \<Rightarrow> int) \<Rightarrow> butterfly \<Rightarrow> nat \<Rightarrow> nat \<Rightarrow> nat \<Rightarrow> samples \<Rightarrow> samples" where
  "fft_stage sgn_wi bf n l k frfi =
     fold (\<lambda>m d.
        (let istep = 2 * l;
             j = m * 2 ^ k;
             wr = kSinTable1024 ! (j + 256);
             wi = sgn_wi (kSinTable1024 ! j)
         in fold (\<lambda>i d. apply_butterfly bf wr wi i l d) (loop_steps m n istep) d))
       [0..<l] frfi"

text \<open>
  The stage loop \<open>while (l < n)\<close>: before turn \<open>s\<close> the variables are \<open>l = 2 ^ s\<close> and
  \<open>k = 9 - s\<close>, and \<open>n = 2 ^ stages\<close>. The result is the return value and the data.
\<close>

definition WebRtcSpl_ComplexFFT :: "samples \<Rightarrow> nat \<Rightarrow> int \<Rightarrow> int \<times> samples" where
  "WebRtcSpl_ComplexFFT frfi stages mode =
     (let n = 2 ^ stages
      in if n > 1024 then (- 1, frfi)
         else
           (0, fold (\<lambda>s d. fft_stage (\<lambda>x. i16 (- x)) (if mode = 0 then fft_butterfly_low else fft_butterfly_high)
                            n (2 ^ s) (9 - s) d) [0..<stages] frfi))"

definition ifft_scaling :: "samples \<Rightarrow> int \<times> int" where
  "ifft_scaling frfi =
     (let tmp32 = WebRtcSpl_MaxAbsValueW16C frfi;
          (shift, round2) = (0, 8192);
          (shift, round2) = (if tmp32 > 13573 then (shift + 1, shl32 round2 1) else (shift, round2));
          (shift, round2) = (if tmp32 > 27146 then (shift + 1, shl32 round2 1) else (shift, round2))
      in (shift, round2))"

definition ifft_turn :: "nat \<Rightarrow> int \<Rightarrow> nat \<Rightarrow> int \<times> samples \<Rightarrow> int \<times> samples" where
  "ifft_turn n mode s = (\<lambda>(scale, d).
     (let (shift, round2) = ifft_scaling (take (2 * n) d)
      in (scale + shift,
          fft_stage (\<lambda>x. x) (if mode = 0 then ifft_butterfly_low shift else ifft_butterfly_high shift round2)
            n (2 ^ s) (9 - s) d)))"

definition WebRtcSpl_ComplexIFFT :: "samples \<Rightarrow> nat \<Rightarrow> int \<Rightarrow> int \<times> samples" where
  "WebRtcSpl_ComplexIFFT frfi stages mode =
     (let n = 2 ^ stages
      in if n > 1024 then (- 1, frfi) else fold (ifft_turn n mode) [0..<stages] (0, frfi))"

section \<open>Real transforms\<close>

definition kMaxFFTOrder :: int where "kMaxFFTOrder = 10"

record RealFFT = order :: int

definition WebRtcSpl_CreateRealFFT :: "bool \<Rightarrow> int \<Rightarrow> RealFFT option" where
  "WebRtcSpl_CreateRealFFT malloc_ok ord =
     (if ord > kMaxFFTOrder \<or> ord < 0 then None
      else if \<not> malloc_ok then None else Some \<lparr>order = ord\<rparr>)"

text \<open>
  The local \<open>complex_buffer\<close> is modelled by the \<open>2 * n\<close> elements in use. The
  result is the return value and the caller's array.
\<close>

definition WebRtcSpl_RealForwardFFT :: "RealFFT \<Rightarrow> samples \<Rightarrow> samples \<Rightarrow> int \<times> samples" where
  "WebRtcSpl_RealForwardFFT self real_data_in complex_data_out =
     (let n = 2 ^ nat (order self);
          complex_buffer = concat (map (\<lambda>i. [real_data_in ! i, 0]) [0..<n]);
          complex_buffer = WebRtcSpl_ComplexBitReverse complex_buffer (nat (order self));
          (result, complex_buffer) = WebRtcSpl_ComplexFFT complex_buffer (nat (order self)) 1
      in (result, mem_copy complex_data_out 0 (take (n + 2) complex_buffer)))"

definition WebRtcSpl_RealInverseFFT :: "RealFFT \<Rightarrow> samples \<Rightarrow> samples \<Rightarrow> int \<times> samples" where
  "WebRtcSpl_RealInverseFFT self complex_data_in real_data_out =
     (let n = 2 ^ nat (order self);
          complex_buffer = take (n + 2) complex_data_in
            @ concat (map (\<lambda>i. [complex_data_in ! (2 * n - i), i16 (- complex_data_in ! (2 * n - i + 1))])
                        (loop_steps (n + 2) (2 * n) 2));
          complex_buffer = WebRtcSpl_ComplexBitReverse complex_buffer (nat (order self));
          (result, complex_buffer) = WebRtcSpl_ComplexIFFT complex_buffer (nat (order self)) 1
      in (result, mem_copy real_data_out 0 (map (\<lambda>i. complex_buffer ! (2 * i)) [0..<n])))"

section \<open>Bit reversal is bit reversal\<close>

text \<open>The reference: the \<open>s\<close> low bits of \<open>m\<close> in the opposite order.\<close>

fun bitrev :: "nat \<Rightarrow> nat \<Rightarrow> nat" where
  "bitrev 0 m = 0"
| "bitrev (Suc s) m = (m mod 2) * 2 ^ s + bitrev s (m div 2)"

lemma bitrev_bound: "bitrev s m < 2 ^ s"
proof (induction s arbitrary: m)
  case (Suc s)
  have "m mod 2 \<le> 1" by simp
  then have "(m mod 2) * 2 ^ s \<le> 1 * 2 ^ s" by (intro mult_right_mono) simp_all
  then have "(m mod 2) * 2 ^ s + bitrev s (m div 2) < 2 ^ s + 2 ^ s"
    using Suc [of "m div 2"] by linarith
  then show ?case by simp
qed simp

lemma bitrev_0 [simp]: "bitrev s 0 = 0"
  by (induction s) simp_all

text \<open>The same recursion from the other end.\<close>

lemma bitrev_low: "m < 2 ^ Suc s \<Longrightarrow> bitrev (Suc s) m = 2 * bitrev s (m mod 2 ^ s) + m div 2 ^ s"
proof (induction s arbitrary: m)
  case 0
  then show ?case by simp
next
  case (Suc s)
  have half: "m div 2 < 2 ^ Suc s" using Suc.prems by simp
  have "bitrev (Suc (Suc s)) m = (m mod 2) * 2 ^ Suc s + bitrev (Suc s) (m div 2)" by simp
  also have "\<dots> = (m mod 2) * 2 ^ Suc s + (2 * bitrev s (m div 2 mod 2 ^ s) + m div 2 div 2 ^ s)"
    using Suc.IH [OF half] by simp
  also have "m div 2 div 2 ^ s = m div 2 ^ Suc s" by (simp add: div_mult2_eq)
  also have "m div 2 mod 2 ^ s = m mod 2 ^ Suc s div 2" by (simp add: mod_mult2_eq)
  also have "(m mod 2) * 2 ^ Suc s + (2 * bitrev s (m mod 2 ^ Suc s div 2) + m div 2 ^ Suc s)
      = 2 * bitrev (Suc s) (m mod 2 ^ Suc s) + m div 2 ^ Suc s"
    by (simp add: mod_mod_cancel)
  finally show ?case .
qed

lemma bitrev_involution: "m < 2 ^ s \<Longrightarrow> bitrev s (bitrev s m) = m"
proof (induction s arbitrary: m)
  case (Suc s)
  let ?r = "bitrev (Suc s) m"
  have r: "?r mod 2 ^ s = bitrev s (m div 2)" "?r div 2 ^ s = m mod 2"
    using bitrev_bound [of s "m div 2"] by simp_all
  have "bitrev (Suc s) ?r = 2 * bitrev s (?r mod 2 ^ s) + ?r div 2 ^ s"
    by (rule bitrev_low [OF bitrev_bound])
  also have "\<dots> = 2 * (m div 2) + m mod 2" unfolding r using Suc by simp
  finally show ?case by simp
qed simp

text \<open>The loop's increment from the top bit is the increment of the reversed number.\<close>

lemma and_pow2_minus_1: "a AND (2 ^ k - 1) = a mod 2 ^ k" for a :: nat
  by (metis mask_eq_exp_minus_1 take_bit_eq_mask take_bit_eq_mod)

lemma halve_until_double: "lim < 2 ^ k \<Longrightarrow> halve_until (2 ^ Suc k) lim = halve_until (2 ^ k) lim"
  by (subst halve_until.simps) simp

lemma halve_until_stop: "2 ^ k \<le> lim \<Longrightarrow> halve_until (2 ^ Suc k) lim = 2 ^ k"
  by (subst halve_until.simps) simp

lemma halve_until_pow: "lim < 2 ^ s \<Longrightarrow> \<exists>k. halve_until (2 ^ s) lim = 2 ^ k \<and> k < s \<or> halve_until (2 ^ s) lim = 0"
proof (induction s)
  case 0
  then show ?case by (subst halve_until.simps) simp
next
  case (Suc s)
  show ?case
  proof (cases "2 ^ s \<le> lim")
    case True
    then show ?thesis using halve_until_stop [OF True] by blast
  next
    case False
    then have "halve_until (2 ^ Suc s) lim = halve_until (2 ^ s) lim" by (intro halve_until_double) simp
    then show ?thesis using Suc.IH False by (metis less_SucI not_le)
  qed
qed

lemma next_reversed_Suc:
  assumes "mr < 2 ^ Suc s"
  shows "next_reversed (2 ^ Suc s) mr =
    (if mr < 2 ^ s then mr + 2 ^ s else next_reversed (2 ^ s) (mr - 2 ^ s))"
proof (cases "mr < 2 ^ s")
  case True
  then have "halve_until (2 ^ Suc s) (2 ^ Suc s - 1 - mr) = 2 ^ s" by (intro halve_until_stop) simp
  then have "next_reversed (2 ^ Suc s) mr = mr mod 2 ^ s + 2 ^ s"
    unfolding next_reversed_def Let_def by (simp only: and_pow2_minus_1)
  then show ?thesis using True by simp
next
  case False
  let ?lim = "2 ^ s - 1 - (mr - 2 ^ s)"
  have lim: "2 ^ Suc s - 1 - mr = ?lim" "?lim < 2 ^ s" using False assms by simp_all
  have h: "halve_until (2 ^ Suc s) (2 ^ Suc s - 1 - mr) = halve_until (2 ^ s) ?lim"
    unfolding lim(1) by (rule halve_until_double [OF lim(2)])
  obtain k where k: "halve_until (2 ^ s) ?lim = 2 ^ k \<and> k < s \<or> halve_until (2 ^ s) ?lim = 0"
    using halve_until_pow [OF lim(2)] by blast
  have "mr mod 2 ^ k = (mr - 2 ^ s) mod 2 ^ k" if "k < s"
  proof -
    have "2 ^ s = (2 ^ (s - k)) * (2 ^ k :: nat)" using that by (simp flip: power_add)
    then have "mr = (mr - 2 ^ s) + 2 ^ (s - k) * 2 ^ k" using False by simp
    then show ?thesis by (metis mod_mult_self1)
  qed
  then have "(mr AND (halve_until (2 ^ s) ?lim - 1)) = ((mr - 2 ^ s) AND (halve_until (2 ^ s) ?lim - 1))"
    using k and_pow2_minus_1 by auto
  then show ?thesis using False unfolding next_reversed_def Let_def h by simp
qed

lemma next_reversed_bitrev: "Suc m < 2 ^ s \<Longrightarrow> next_reversed (2 ^ s) (bitrev s m) = bitrev s (Suc m)"
proof (induction s arbitrary: m)
  case (Suc s)
  note nr = next_reversed_Suc [OF bitrev_bound, of s m]
  show ?case
  proof (cases "even m")
    case True
    then have "m mod 2 = 0" "Suc m mod 2 = 1" "Suc m div 2 = m div 2" by presburger+
    then show ?thesis using nr bitrev_bound [of s "m div 2"] by simp
  next
    case False
    then have e: "m mod 2 = 1" "Suc m mod 2 = 0" "Suc m div 2 = Suc (m div 2)" by presburger+
    then have "Suc (m div 2) < 2 ^ s" using Suc.prems by simp
    from Suc.IH [OF this] e nr show ?thesis by simp
  qed
qed simp

text \<open>So the loop of the general case swaps \<open>m\<close> with its reversal, once for each pair.\<close>

definition swap_reversed :: "nat \<Rightarrow> nat \<Rightarrow> samples \<Rightarrow> samples" where
  "swap_reversed s m d = (if bitrev s m \<le> m then d else swap_complex m (bitrev s m) d)"

lemma bit_reverse_loop:
  "k < 2 ^ s \<Longrightarrow> fold (bit_reverse_step (2 ^ s)) [1..<Suc k] (0, d) = (bitrev s k, fold (swap_reversed s) [1..<Suc k] d)"
proof (induction k)
  case (Suc k)
  then have IH: "fold (bit_reverse_step (2 ^ s)) [1..<Suc k] (0, d) = (bitrev s k, fold (swap_reversed s) [1..<Suc k] d)"
    by simp
  have step: "bit_reverse_step (2 ^ s) (Suc k) (bitrev s k, e) = (bitrev s (Suc k), swap_reversed s (Suc k) e)" for e
    using next_reversed_bitrev [OF Suc.prems] by (simp add: bit_reverse_step_def swap_reversed_def Let_def)
  have snoc: "[1..<Suc (Suc k)] = [1..<Suc k] @ [Suc k]" by simp
  show ?case unfolding snoc by (simp only: fold_append comp_apply IH fold.simps step id_apply)
qed simp

text \<open>The tables list exactly those swaps for seven and eight stages.\<close>

definition reversed_pairs :: "nat \<Rightarrow> (nat \<times> nat) list" where
  "reversed_pairs s = map (\<lambda>m. (m, bitrev s m)) (filter (\<lambda>m. m < bitrev s m) [1..<2 ^ s])"

lemma fold_reversed_pairs:
  "fold (swap_reversed s) ms d = fold (\<lambda>(a, b). swap_complex a b) (map (\<lambda>m. (m, bitrev s m)) (filter (\<lambda>m. m < bitrev s m) ms)) d"
  by (induction ms arbitrary: d) (auto simp: swap_reversed_def)

definition table_pairs :: "nat list \<Rightarrow> (nat \<times> nat) list" where
  "table_pairs index = map (\<lambda>m. (index ! (2 * m), index ! (2 * m + 1))) [0..<length index div 2]"

fun pairs_of :: "nat list \<Rightarrow> (nat \<times> nat) list" where
  "pairs_of (a # b # xs) = (a, b) # pairs_of xs"
| "pairs_of _ = []"

lemma table_pairs_eq: "table_pairs xs = pairs_of xs"
proof (induction xs rule: pairs_of.induct)
  case (1 a b xs)
  have "[0..<length (a # b # xs) div 2] = 0 # map Suc [0..<length xs div 2]"
    by (simp add: upt_conv_Cons map_Suc_upt del: upt_Suc)
  then show ?case using 1 by (simp add: table_pairs_def comp_def)
qed (simp_all add: table_pairs_def)

text \<open>The list of all reversals, doubled from stage to stage, and the swaps it calls for.\<close>

fun rev_list :: "nat \<Rightarrow> nat list" where
  "rev_list 0 = [0]"
| "rev_list (Suc s) = concat (map (\<lambda>x. [x, 2 ^ s + x]) (rev_list s))"

fun ascending_pairs :: "nat \<Rightarrow> nat list \<Rightarrow> (nat \<times> nat) list" where
  "ascending_pairs m [] = []"
| "ascending_pairs m (r # rs) = (if m < r then (m, r) # ascending_pairs (m + 1) rs else ascending_pairs (m + 1) rs)"

lemma upt_double: "[0..<2 * n] = concat (map (\<lambda>m. [2 * m, Suc (2 * m)]) [0..<n])"
  by (induction n) simp_all

lemma rev_list_eq: "rev_list s = map (bitrev s) [0..<2 ^ s]"
proof (induction s)
  case (Suc s)
  have "map (bitrev (Suc s)) [0..<2 ^ Suc s] = concat (map (\<lambda>m. map (bitrev (Suc s)) [2 * m, Suc (2 * m)]) [0..<2 ^ s])"
    by (simp only: power_Suc upt_double map_concat map_map comp_def)
  also have "\<dots> = concat (map (\<lambda>m. [bitrev s m, 2 ^ s + bitrev s m]) [0..<2 ^ s])"
    by simp
  finally show ?case using Suc by (simp add: comp_def del: bitrev.simps)
qed simp

lemma ascending_pairs_eq:
  "ascending_pairs m (map f [m..<n]) = map (\<lambda>m. (m, f m)) (filter (\<lambda>m. m < f m) [m..<n])"
proof (induction "n - m" arbitrary: m)
  case (Suc k)
  then have "[m..<n] = m # [Suc m..<n]" by (simp add: upt_conv_Cons)
  then show ?case using Suc(1) [of "Suc m"] Suc(2) by simp
qed simp

lemma reversed_pairs_eq: "reversed_pairs s = ascending_pairs 0 (rev_list s)"
proof -
  have "[0..<2 ^ s] = 0 # [1..<2 ^ s]" by (simp add: upt_conv_Cons)
  then show ?thesis by (simp add: reversed_pairs_def rev_list_eq ascending_pairs_eq)
qed

lemma rev_list_numeral: "rev_list (numeral k) = concat (map (\<lambda>x. [x, 2 ^ pred_numeral k + x]) (rev_list (pred_numeral k)))"
  by (simp add: numeral_eq_Suc)

lemma table_pairs_7: "table_pairs index_7 = reversed_pairs 7"
  by (simp add: table_pairs_eq index_7_def reversed_pairs_eq rev_list_numeral)

lemma table_pairs_8: "table_pairs index_8 = reversed_pairs 8"
  by (simp add: table_pairs_eq index_8_def reversed_pairs_eq rev_list_numeral)

lemma fold_table:
  "fold (\<lambda>m d. swap_complex (index ! (2 * m)) (index ! (2 * m + 1)) d) [0..<length index div 2] d
   = fold (\<lambda>(a, b). swap_complex a b) (table_pairs index) d"
  by (simp add: table_pairs_def fold_map comp_def)

lemma length_tables: "length index_7 = 112" "length index_8 = 240"
  by (simp_all add: index_7_def index_8_def)

lemma ComplexBitReverse_swaps:
  "WebRtcSpl_ComplexBitReverse d s = fold (swap_reversed s) [1..<2 ^ s] d"
proof -
  have pairs: "fold (swap_reversed s) [1..<2 ^ s] d = fold (\<lambda>(a, b). swap_complex a b) (reversed_pairs s) d" for s
    by (simp add: fold_reversed_pairs reversed_pairs_def)
  consider "s = 7" | "s = 8" | "s \<noteq> 7" "s \<noteq> 8" by blast
  then show ?thesis
  proof cases
    case 1
    then show ?thesis
      using fold_table [of index_7 d] pairs [of 7] by (simp add: WebRtcSpl_ComplexBitReverse_def table_pairs_7 length_tables)
  next
    case 2
    then show ?thesis
      using fold_table [of index_8 d] pairs [of 8] by (simp add: WebRtcSpl_ComplexBitReverse_def table_pairs_8 length_tables)
  next
    case 3
    have "Suc (2 ^ s - 1) = 2 ^ s" by simp
    with bit_reverse_loop [of "2 ^ s - 1" s d] 3 show ?thesis
      by (simp add: WebRtcSpl_ComplexBitReverse_def Let_def del: upt_Suc)
  qed
qed

text \<open>The complex element at position \<open>i\<close>.\<close>

definition complex_at :: "samples \<Rightarrow> nat \<Rightarrow> int \<times> int" where
  "complex_at d i = (d ! (2 * i), d ! (2 * i + 1))"

lemma length_swap_complex [shape, simp]: "length (swap_complex a b d) = length d"
  by (simp add: swap_complex_def)

lemma complex_at_swap:
  assumes "2 * a + 1 < length d" and "2 * b + 1 < length d" and "a \<noteq> b"
  shows "complex_at (swap_complex a b d) i =
    (if i = a then complex_at d b else if i = b then complex_at d a else complex_at d i)"
proof -
  have "2 * x \<noteq> Suc (2 * y)" "Suc (2 * y) \<noteq> 2 * x" for x y by presburger+
  then show ?thesis
    using assms by (auto simp: complex_at_def swap_complex_def nth_list_update)
qed

lemma bit_reverse_prefix:
  assumes "length d = 2 * 2 ^ s" and "k < 2 ^ s" and "i < 2 ^ s"
  shows "complex_at (fold (swap_reversed s) [1..<Suc k] d) i =
      (if min i (bitrev s i) \<le> k then complex_at d (bitrev s i) else complex_at d i)
    \<and> length (fold (swap_reversed s) [1..<Suc k] d) = length d"
  using assms(2,3)
proof (induction k arbitrary: i)
  case 0
  then show ?case using bitrev_involution [of i s] by (cases "i = 0") (auto simp: min_def)
next
  case (Suc k)
  define e where "e = fold (swap_reversed s) [1..<Suc k] d"
  let ?k = "Suc k" and ?r = "bitrev s (Suc k)"
  have IH: "complex_at e j = (if min j (bitrev s j) \<le> k then complex_at d (bitrev s j) else complex_at d j)"
    and len: "length e = length d" if "j < 2 ^ s" for j
    using Suc.IH [of j] Suc.prems that by (simp_all add: e_def)
  have l: "length e = 2 * 2 ^ s" using len [of 0] assms(1) by simp
  have snoc: "fold (swap_reversed s) [1..<Suc ?k] d = swap_reversed s ?k e" by (simp add: e_def)
  have r: "?r < 2 ^ s" "bitrev s ?r = ?k" using bitrev_bound bitrev_involution Suc.prems(1) by blast+
  have inj: "bitrev s i = ?k \<longleftrightarrow> i = ?r" using r bitrev_involution [OF Suc.prems(2)] by auto
  show ?case
  proof (cases "?r \<le> ?k")
    case True
    then have "fold (swap_reversed s) [1..<Suc ?k] d = e" unfolding snoc by (simp add: swap_reversed_def)
    moreover have "min i (bitrev s i) \<le> ?k \<longleftrightarrow> min i (bitrev s i) \<le> k \<or> (min i (bitrev s i) = ?k)" by auto
    moreover have "bitrev s i = i \<or> min i (bitrev s i) \<le> k" if "min i (bitrev s i) = ?k"
      using that True inj r by (auto simp: min_def split: if_splits)
    ultimately show ?thesis using IH [OF Suc.prems(2)] l assms(1) by auto
  next
    case False
    then have sw: "fold (swap_reversed s) [1..<Suc ?k] d = swap_complex ?k ?r e"
      unfolding snoc by (simp add: swap_reversed_def)
    have "complex_at (swap_complex ?k ?r e) i =
        (if i = ?k then complex_at e ?r else if i = ?r then complex_at e ?k else complex_at e i)"
      using l r(1) Suc.prems(1) False by (intro complex_at_swap) simp_all
    also have "\<dots> = (if min i (bitrev s i) \<le> ?k then complex_at d (bitrev s i) else complex_at d i)"
      using IH [OF r(1)] IH [OF Suc.prems(1)] IH [OF Suc.prems(2)] r False inj
      by (auto simp: min_def split: if_splits)
    finally show ?thesis using sw l assms(1) by simp
  qed
qed

text \<open>C27: \<open>WebRtcSpl_ComplexBitReverse\<close> puts into place \<open>i\<close> the complex element whose index is the
  bit reversal of \<open>i\<close>, for every number of stages: the two index tables and the
  general reversed-counter loop agree with the one-line reference.\<close>

theorem ComplexBitReverse_correct:
  assumes "length d = 2 * 2 ^ s" and "i < 2 ^ s"
  shows "complex_at (WebRtcSpl_ComplexBitReverse d s) i = complex_at d (bitrev s i) \<and>
         length (WebRtcSpl_ComplexBitReverse d s) = length d"
proof -
  have "min i (bitrev s i) \<le> 2 ^ s - 1" using assms(2) by simp
  with bit_reverse_prefix [OF assms(1), of "2 ^ s - 1" i] assms(2) show ?thesis
    by (simp add: ComplexBitReverse_swaps del: upt_Suc)
qed

theorem ComplexBitReverse_correct_witness:
  "complex_at (WebRtcSpl_ComplexBitReverse (map int [0..<256]) 7) 1 = (128, 129)"
proof -
  have "complex_at (map int [0..<256]) (bitrev 7 1) = (128, 129)"
    by (simp add: complex_at_def numeral_eq_Suc del: upt_rec_numeral)
  with ComplexBitReverse_correct [of "map int [0..<256]" 7 1] show ?thesis
    by (simp del: upt_rec_numeral)
qed

section \<open>Stages as lists of disjoint butterflies\<close>

text \<open>The butterflies of a stage in execution order: twiddle factors and upper index.\<close>

definition stage_ops :: "(int \<Rightarrow> int) \<Rightarrow> nat \<Rightarrow> nat \<Rightarrow> nat \<Rightarrow> (int \<times> int \<times> nat) list" where
  "stage_ops sg n l k = concat (map (\<lambda>m. map (\<lambda>i. (kSinTable1024 ! (m * 2 ^ k + 256), sg (kSinTable1024 ! (m * 2 ^ k)), i))
     (loop_steps m n (2 * l))) [0..<l])"

lemma fft_stage_ops:
  "fft_stage sg bf n l k d = fold (\<lambda>(wr, wi, i). apply_butterfly bf wr wi i l) (stage_ops sg n l k) d"
proof -
  have "fold (\<lambda>(wr, wi, i). apply_butterfly bf wr wi i l) (concat (map f ms)) d
      = fold (\<lambda>m. fold (\<lambda>(wr, wi, i). apply_butterfly bf wr wi i l) (f m)) ms d" for f :: "nat \<Rightarrow> _" and ms
    by (induction ms arbitrary: d) simp_all
  then show ?thesis by (simp add: fft_stage_def stage_ops_def Let_def fold_map comp_def)
qed

text \<open>The four data a butterfly at \<open>i\<close> reads, and the positions it touches.\<close>

definition quad :: "samples \<Rightarrow> nat \<Rightarrow> nat \<Rightarrow> int \<times> int \<times> int \<times> int" where
  "quad d l i = (d ! (2 * (i + l)), d ! (2 * (i + l) + 1), d ! (2 * i), d ! (2 * i + 1))"

definition touched :: "nat \<Rightarrow> nat \<Rightarrow> nat set" where
  "touched l i = {2 * (i + l), 2 * (i + l) + 1, 2 * i, 2 * i + 1}"

lemma apply_butterfly_quad:
  "apply_butterfly bf wr wi i l d =
     (let (jr, ji, ir, ii) = bf wr wi (quad d l i)
      in d[2 * (i + l) := jr, 2 * (i + l) + 1 := ji, 2 * i := ir, 2 * i + 1 := ii])"
  by (simp add: apply_butterfly_def quad_def Let_def)

lemma length_apply_butterfly [shape, simp]: "length (apply_butterfly bf wr wi i l d) = length d"
  by (simp add: apply_butterfly_def Let_def split: prod.splits)

lemma nth_apply_butterfly_other: "p \<notin> touched l i \<Longrightarrow> apply_butterfly bf wr wi i l d ! p = d ! p"
  by (simp add: apply_butterfly_def Let_def touched_def split: prod.splits)

lemma quad_apply_disjoint:
  "touched l i \<inter> touched l j = {} \<Longrightarrow> quad (apply_butterfly bf wr wi i l d) l j = quad d l j"
  by (auto simp: quad_def touched_def nth_apply_butterfly_other)

definition ops_disjoint :: "nat \<Rightarrow> nat list \<Rightarrow> bool" where
  "ops_disjoint l is \<longleftrightarrow> distinct is \<and> (\<forall>i\<in>set is. \<forall>j\<in>set is. i \<noteq> j \<longrightarrow> touched l i \<inter> touched l j = {})"

text \<open>
  Two butterflies that agree on the data they find give the same stage; and if
  their results satisfy \<open>Q\<close>, so does everything after the stage.
\<close>

lemma fold_butterflies:
  assumes "ops_disjoint l (map (\<lambda>(_, _, i). i) ops)"
    and "\<And>wr wi i. (wr, wi, i) \<in> set ops \<Longrightarrow> bf wr wi (quad d l i) = bf' wr wi (quad d l i)"
    and "\<And>wr wi i jr ji ir ii. (wr, wi, i) \<in> set ops \<Longrightarrow> bf wr wi (quad d l i) = (jr, ji, ir, ii) \<Longrightarrow>
           Q jr \<and> Q ji \<and> Q ir \<and> Q ii"
    and "\<forall>x\<in>set d. Q x"
  shows "fold (\<lambda>(wr, wi, i). apply_butterfly bf wr wi i l) ops d = fold (\<lambda>(wr, wi, i). apply_butterfly bf' wr wi i l) ops d
    \<and> (\<forall>x\<in>set (fold (\<lambda>(wr, wi, i). apply_butterfly bf wr wi i l) ops d). Q x)"
  using assms
proof (induction ops arbitrary: d)
  case (Cons op ops)
  obtain wr wi i where op: "op = (wr, wi, i)" by (cases op) auto
  define e where "e = apply_butterfly bf wr wi i l d"
  have e': "e = apply_butterfly bf' wr wi i l d"
    using Cons.prems(2) [of wr wi i] by (simp add: e_def apply_butterfly_quad op)
  have Qe: "\<forall>x\<in>set e. Q x"
  proof -
    obtain jr ji ir ii where b: "bf wr wi (quad d l i) = (jr, ji, ir, ii)" by (metis prod_cases4)
    then have "set e \<subseteq> insert jr (insert ji (insert ir (insert ii (set d))))"
      by (auto simp: e_def apply_butterfly_quad dest!: set_update_subset_insert [THEN subsetD])
    moreover have "Q jr \<and> Q ji \<and> Q ir \<and> Q ii" using Cons.prems(3) [OF _ b] by (simp add: op)
    ultimately show ?thesis using Cons.prems(4) by blast
  qed
  have dis: "touched l i \<inter> touched l j = {}" if "(wr', wi', j) \<in> set ops" for wr' wi' j
    using Cons.prems(1) that by (force simp: ops_disjoint_def op)
  have same: "quad e l j = quad d l j" if "(wr', wi', j) \<in> set ops" for wr' wi' j
    unfolding e_def by (rule quad_apply_disjoint [OF dis [OF that]])
  have "fold (\<lambda>(wr, wi, i). apply_butterfly bf wr wi i l) ops e = fold (\<lambda>(wr, wi, i). apply_butterfly bf' wr wi i l) ops e
    \<and> (\<forall>x\<in>set (fold (\<lambda>(wr, wi, i). apply_butterfly bf wr wi i l) ops e). Q x)"
  proof (rule Cons.IH [OF _ _ _ Qe])
    show "ops_disjoint l (map (\<lambda>(_, _, i). i) ops)" using Cons.prems(1) by (auto simp: ops_disjoint_def)
    show "bf wr wi (quad e l j) = bf' wr wi (quad e l j)" if "(wr, wi, j) \<in> set ops" for wr wi j
      using Cons.prems(2) [of wr wi j] that same [OF that] by simp
    show "Q jr \<and> Q ji \<and> Q ir \<and> Q ii"
      if "(wr, wi, j) \<in> set ops" "bf wr wi (quad e l j) = (jr, ji, ir, ii)" for wr wi j jr ji ir ii
      using Cons.prems(3) [of wr wi j jr ji ir ii] that same [OF that(1)] by simp
  qed
  then show ?case using e' by (simp add: op e_def)
qed simp

lemma loop_steps_bounds:
  assumes "i \<in> set (loop_steps m n (2 * l))" and "m < l" and "2 * l dvd n"
  shows "i mod (2 * l) = m" and "i + l < n"
proof -
  obtain q where q: "i = m + 2 * l * q" "q < (n - m + 2 * l - 1) div (2 * l)"
    using assms(1) unfolding loop_steps_def by fastforce
  show "i mod (2 * l) = m" using q assms(2) by simp
  obtain c where c: "n = 2 * l * c" using assms(3) by (rule dvdE)
  have "(n - m + 2 * l - 1) div (2 * l) \<le> c"
  proof (cases "c = 0")
    case False
    then have "2 * l \<le> n" using c by simp
    then have "n - m + 2 * l - 1 \<le> 2 * l * c + (2 * l - 1)" using c by simp
    then have "(n - m + 2 * l - 1) div (2 * l) \<le> (2 * l * c + (2 * l - 1)) div (2 * l)" by (rule div_le_mono)
    also have "\<dots> = c + (2 * l - 1) div (2 * l)" using assms(2) by (subst div_mult_self4) simp_all
    finally show ?thesis using assms(2) by simp
  next
    case True
    then have "n = 0" using c by simp
    then show ?thesis using assms(2) True by simp
  qed
  then have "q < c" using q(2) by simp
  then have "2 * l * (q + 1) \<le> 2 * l * c" by (intro mult_left_mono) simp_all
  then show "i + l < n" using q(1) c assms(2) by simp
qed

lemma distinct_concat_upt:
  assumes "\<And>m. m < l \<Longrightarrow> distinct (f m)" and "\<And>m m'. m < m' \<Longrightarrow> m' < l \<Longrightarrow> set (f m) \<inter> set (f m') = {}"
  shows "distinct (concat (map f [0..<l]))"
  using assms
proof (induction l)
  case (Suc l)
  then have "set (concat (map f [0..<l])) \<inter> set (f l) = {}" by fastforce
  then show ?case using Suc by simp
qed simp

lemma stage_ops_disjoint:
  assumes "2 * l dvd n"
  shows "ops_disjoint l (map (\<lambda>(_, _, i). i) (stage_ops sg n l k))"
proof -
  let ?is = "map (\<lambda>(_, _, i). i) (stage_ops sg n l k)"
  have is_eq: "?is = concat (map (\<lambda>m. loop_steps m n (2 * l)) [0..<l])"
    by (simp add: stage_ops_def map_concat comp_def)
  have modl: "i mod (2 * l) = m" if "i \<in> set (loop_steps m n (2 * l))" "m < l" for i m
    using loop_steps_bounds(1) [OF that assms] .
  have "distinct ?is"
    unfolding is_eq
  proof (rule distinct_concat_upt)
    show "distinct (loop_steps m n (2 * l))" if "m < l" for m
      using that by (auto simp: loop_steps_def distinct_map inj_on_def)
    show "set (loop_steps m n (2 * l)) \<inter> set (loop_steps m' n (2 * l)) = {}" if "m < m'" "m' < l" for m m'
      using that modl [of _ m] modl [of _ m'] by fastforce
  qed
  moreover have "touched l i \<inter> touched l j = {}" if "i \<in> set ?is" "j \<in> set ?is" "i \<noteq> j" for i j
  proof -
    have low: "i mod (2 * l) < l" "j mod (2 * l) < l"
      using that(1,2) modl unfolding is_eq by auto
    have "i \<noteq> j + l" if "i mod (2 * l) < l" "j mod (2 * l) < l" for i j
    proof
      assume "i = j + l"
      then have "i mod (2 * l) = (j mod (2 * l) + l) mod (2 * l)" by (simp add: mod_simps)
      also have "\<dots> = j mod (2 * l) + l" using that(2) by simp
      finally show False using that(1) by simp
    qed
    from this [OF low] this [OF low(2,1)] that(3) show ?thesis
      by (auto simp: touched_def; presburger)
  qed
  ultimately show ?thesis by (simp add: ops_disjoint_def)
qed

text \<open>The sine table: the two factors of a butterfly.\<close>

lemma kSinTable1024_length: "length kSinTable1024 = 1024"
  by (simp add: kSinTable1024_def)

lemma kSinTable1024_pairs: "list_all (\<lambda>(a, b). \<bar>a\<bar> + \<bar>b\<bar> \<le> 46338 \<and> \<bar>a\<bar> \<le> 32767 \<and> \<bar>b\<bar> \<le> 32767)
    (zip kSinTable1024 (drop 256 kSinTable1024))"
  by (simp add: kSinTable1024_def)

lemma twiddle_bound:
  assumes "j < 512"
  shows "\<bar>kSinTable1024 ! (j + 256)\<bar> + \<bar>kSinTable1024 ! j\<bar> \<le> 46338"
    and "\<bar>kSinTable1024 ! (j + 256)\<bar> \<le> 32767" and "\<bar>kSinTable1024 ! j\<bar> \<le> 32767"
  using kSinTable1024_pairs assms
  by (auto simp: list_all_length kSinTable1024_length add.commute dest!: spec [of _ j])

lemma stage_ops_twiddle:
  assumes "(wr, wi, i) \<in> set (stage_ops sg n (2 ^ s) (9 - s))" and "s \<le> 9"
    and "\<And>x. \<bar>x\<bar> \<le> 32767 \<Longrightarrow> \<bar>sg x\<bar> = \<bar>x\<bar>"
  shows "\<bar>wr\<bar> + \<bar>wi\<bar> \<le> 46338"
proof -
  obtain m where m: "m < 2 ^ s" "wr = kSinTable1024 ! (m * 2 ^ (9 - s) + 256)" "wi = sg (kSinTable1024 ! (m * 2 ^ (9 - s)))"
    using assms(1) by (auto simp: stage_ops_def)
  have "m * 2 ^ (9 - s) < 2 ^ s * 2 ^ (9 - s)" using m(1) by simp
  also have "\<dots> = 2 ^ 9" using assms(2) by (simp flip: power_add)
  finally have j: "m * 2 ^ (9 - s) < 512" by simp
  show ?thesis
    using twiddle_bound [OF j] assms(3) [OF twiddle_bound(3) [OF j]] by (simp add: m(2,3))
qed

lemma stage_ops_bound:
  assumes "(wr, wi, i) \<in> set (stage_ops sg n l k)" and "2 * l dvd n"
  shows "i + l < n"
  using assms(1) loop_steps_bounds(2) [OF _ _ assms(2)] by (auto simp: stage_ops_def)

section \<open>The butterflies in unbounded integers\<close>

definition fft_butterfly_high_exact :: butterfly where
  "fft_butterfly_high_exact wr wi = (\<lambda>(jr, ji, ir, ii).
     (let tr = (wr * jr - wi * ji + 1) div 2; ti = (wr * ji + wi * jr + 1) div 2
      in (i16 ((ir * 16384 - tr + 16384) div 32768), i16 ((ii * 16384 - ti + 16384) div 32768),
          i16 ((ir * 16384 + tr + 16384) div 32768), i16 ((ii * 16384 + ti + 16384) div 32768))))"

definition ifft_butterfly_exact :: "int \<Rightarrow> int \<Rightarrow> butterfly" where
  "ifft_butterfly_exact mode shift wr wi = (\<lambda>(jr, ji, ir, ii).
     (if mode = 0
      then
        (let tr = (wr * jr - wi * ji) div 32768; ti = (wr * ji + wi * jr) div 32768; D = 2 ^ nat shift
         in ((ir - tr) div D, (ii - ti) div D, (ir + tr) div D, (ii + ti) div D))
      else
        (let tr = (wr * jr - wi * ji + 1) div 2; ti = (wr * ji + wi * jr + 1) div 2;
             D = 2 ^ nat (shift + 14); r = 2 ^ nat (shift + 13)
         in ((ir * 16384 - tr + r) div D, (ii * 16384 - ti + r) div D,
             (ir * 16384 + tr + r) div D, (ii * 16384 + ti + r) div D))))"

lemma twiddle_product:
  fixes wr wi a b M :: int
  assumes "\<bar>wr\<bar> + \<bar>wi\<bar> \<le> W" and "\<bar>a\<bar> \<le> M" and "\<bar>b\<bar> \<le> M"
  shows "\<bar>wr * a - wi * b\<bar> \<le> W * M" and "\<bar>wr * a + wi * b\<bar> \<le> W * M"
proof -
  have "\<bar>wr * a\<bar> + \<bar>wi * b\<bar> \<le> \<bar>wr\<bar> * M + \<bar>wi\<bar> * M"
    unfolding abs_mult using assms(2,3) by (intro add_mono mult_left_mono) simp_all
  also have "\<dots> = (\<bar>wr\<bar> + \<bar>wi\<bar>) * M" by (simp add: distrib_right)
  also have "\<dots> \<le> W * M" using assms(1,2) by (intro mult_right_mono) simp_all
  finally have "\<bar>wr * a\<bar> + \<bar>wi * b\<bar> \<le> W * M" .
  then show "\<bar>wr * a - wi * b\<bar> \<le> W * M" "\<bar>wr * a + wi * b\<bar> \<le> W * M" by linarith+
qed

text \<open>One output of the accurate butterfly: \<open>q\<close> is the untwiddled input, \<open>t\<close> the twiddled product.\<close>

lemma butterfly_value:
  fixes q T M :: int
  assumes "\<bar>q\<bar> \<le> M" and "\<bar>T\<bar> \<le> 46338 * M" and "M \<le> 32768" and "\<bar>r\<bar> \<le> 32768"
  shows "i32 (T + 1) = T + 1" and "shl32 q 14 = q * 16384" and "\<bar>(T + 1) div 2\<bar> \<le> 23169 * M"
    and "i32 (q * 16384 - (T + 1) div 2 + r) = q * 16384 - (T + 1) div 2 + r"
    and "i32 (q * 16384 + (T + 1) div 2 + r) = q * 16384 + (T + 1) div 2 + r"
    and "\<bar>q * 16384 - (T + 1) div 2\<bar> \<le> 39553 * M" and "\<bar>q * 16384 + (T + 1) div 2\<bar> \<le> 39553 * M"
proof -
  have M: "0 \<le> M" using assms(1) by linarith
  then show "i32 (T + 1) = T + 1" using assms(2,3) by (intro i32_id) (auto simp: in_i32_def)
  show "shl32 q 14 = q * 16384" using assms(1,3) by (simp add: shl32_def) (auto intro!: i32_id simp: in_i32_def)
  show t: "\<bar>(T + 1) div 2\<bar> \<le> 23169 * M" using assms(2) by linarith
  show b: "\<bar>q * 16384 - (T + 1) div 2\<bar> \<le> 39553 * M" "\<bar>q * 16384 + (T + 1) div 2\<bar> \<le> 39553 * M"
    using t assms(1) by linarith+
  show "i32 (q * 16384 - (T + 1) div 2 + r) = q * 16384 - (T + 1) div 2 + r"
    "i32 (q * 16384 + (T + 1) div 2 + r) = q * 16384 + (T + 1) div 2 + r"
    using b assms(3,4) M by (auto intro!: i32_id simp: in_i32_def)
qed

text \<open>The scaling rule of the inverse transform, with the bound on the data it is chosen for.\<close>

definition ifft_rule :: "int \<Rightarrow> int \<Rightarrow> bool" where
  "ifft_rule M shift \<longleftrightarrow> (shift = 0 \<and> M = 13573) \<or> (shift = 1 \<and> M = 27146) \<or> (shift = 2 \<and> M = 32768)"

lemma ifft_value:
  assumes "ifft_rule M shift" and "\<bar>S\<bar> \<le> 39553 * M"
  shows "in_i16 ((S + 2 ^ nat (shift + 13)) div 2 ^ nat (shift + 14))"
  using assms by (auto simp: ifft_rule_def in_i16_def)

lemma ifft_butterfly_high_exact:
  assumes "ifft_rule M shift" and "\<bar>wr\<bar> + \<bar>wi\<bar> \<le> 46338"
    and "\<bar>jr\<bar> \<le> M" "\<bar>ji\<bar> \<le> M" "\<bar>ir\<bar> \<le> M" "\<bar>ii\<bar> \<le> M"
  shows "ifft_butterfly_high shift (2 ^ nat (shift + 13)) wr wi (jr, ji, ir, ii) = ifft_butterfly_exact 1 shift wr wi (jr, ji, ir, ii)"
    and "ifft_butterfly_exact 1 shift wr wi (jr, ji, ir, ii) = (a, b, c, d) \<Longrightarrow> in_i16 a \<and> in_i16 b \<and> in_i16 c \<and> in_i16 d"
proof -
  let ?R = "wr * jr - wi * ji" and ?I = "wr * ji + wi * jr" and ?r = "2 ^ nat (shift + 13) :: int"
  have MR: "M \<le> 32768" "\<bar>?r\<bar> \<le> 32768" using assms(1) by (auto simp: ifft_rule_def)
  have R: "\<bar>?R\<bar> \<le> 46338 * M" "\<bar>?I\<bar> \<le> 46338 * M"
    using twiddle_product [OF assms(2,3,4)] twiddle_product [OF assms(2,4,3)] by simp_all
  have s1: "shr x 1 = x div 2" and s2: "shr x (shift + 14) = x div 2 ^ nat (shift + 14)" for x
    by (simp_all add: shr_def)
  note vr = butterfly_value [OF assms(5) R(1) MR] and vi = butterfly_value [OF assms(6) R(2) MR]
  note val = ifft_value [OF assms(1) vr(6)] ifft_value [OF assms(1) vi(6)]
    ifft_value [OF assms(1) vr(7)] ifft_value [OF assms(1) vi(7)]
  show "ifft_butterfly_high shift ?r wr wi (jr, ji, ir, ii) = ifft_butterfly_exact 1 shift wr wi (jr, ji, ir, ii)"
    unfolding ifft_butterfly_high_def ifft_butterfly_exact_def Let_def prod.case
    by (simp only: vr(1,2) vi(1,2) s1 vr(4,5) vi(4,5) s2 i16_id [OF val(1)] i16_id [OF val(2)]
        i16_id [OF val(3)] i16_id [OF val(4)] one_neq_zero if_False)
  show "ifft_butterfly_exact 1 shift wr wi (jr, ji, ir, ii) = (a, b, c, d) \<Longrightarrow> in_i16 a \<and> in_i16 b \<and> in_i16 c \<and> in_i16 d"
    unfolding ifft_butterfly_exact_def Let_def prod.case using val by auto
qed

lemma ifft_butterfly_low_exact:
  assumes "ifft_rule M shift" and "\<bar>wr\<bar> + \<bar>wi\<bar> \<le> 46338"
    and "\<bar>jr\<bar> \<le> M" "\<bar>ji\<bar> \<le> M" "\<bar>ir\<bar> \<le> M" "\<bar>ii\<bar> \<le> M"
  shows "ifft_butterfly_low shift wr wi (jr, ji, ir, ii) = ifft_butterfly_exact 0 shift wr wi (jr, ji, ir, ii)"
    and "ifft_butterfly_exact 0 shift wr wi (jr, ji, ir, ii) = (a, b, c, d) \<Longrightarrow> in_i16 a \<and> in_i16 b \<and> in_i16 c \<and> in_i16 d"
proof -
  let ?R = "wr * jr - wi * ji" and ?I = "wr * ji + wi * jr"
  have M: "0 \<le> M" "M \<le> 32768" using assms(1) by (auto simp: ifft_rule_def)
  have R: "\<bar>?R\<bar> \<le> 46338 * M" "\<bar>?I\<bar> \<le> 46338 * M"
    using twiddle_product [OF assms(2,3,4)] twiddle_product [OF assms(2,4,3)] by simp_all
  have cast: "i32 T = T" "i32 (q - T div 32768) = q - T div 32768" "i32 (q + T div 32768) = q + T div 32768"
    "in_i16 ((q - T div 32768) div 2 ^ nat shift)" "in_i16 ((q + T div 32768) div 2 ^ nat shift)"
    if "\<bar>T\<bar> \<le> 46338 * M" "\<bar>q\<bar> \<le> M" for T q
    using that M assms(1) by (auto intro!: i32_id simp: in_i32_def in_i16_def ifft_rule_def)
  note cr = cast [OF R(1) assms(5)] and ci = cast [OF R(2) assms(6)]
  show "ifft_butterfly_low shift wr wi (jr, ji, ir, ii) = ifft_butterfly_exact 0 shift wr wi (jr, ji, ir, ii)"
    unfolding ifft_butterfly_low_def ifft_butterfly_exact_def Let_def prod.case shr_def
    using cr ci by (simp add: i16_id)
  show "ifft_butterfly_exact 0 shift wr wi (jr, ji, ir, ii) = (a, b, c, d) \<Longrightarrow> in_i16 a \<and> in_i16 b \<and> in_i16 c \<and> in_i16 d"
    unfolding ifft_butterfly_exact_def Let_def prod.case using cr ci by auto
qed

section \<open>The inverse transform never wraps\<close>

text \<open>The same stage loop with the exact butterflies.\<close>

definition ifft_turn_exact :: "nat \<Rightarrow> int \<Rightarrow> nat \<Rightarrow> int \<times> samples \<Rightarrow> int \<times> samples" where
  "ifft_turn_exact n mode s = (\<lambda>(scale, d).
     (let shift = fst (ifft_scaling d)
      in (scale + shift, fft_stage (\<lambda>x. x) (ifft_butterfly_exact mode shift) n (2 ^ s) (9 - s) d)))"

lemma ifft_scaling_rule:
  assumes "\<forall>x\<in>set d. in_i16 x" and "ifft_scaling d = (shift, round2)"
  shows "\<exists>M. ifft_rule M shift \<and> (\<forall>x\<in>set d. \<bar>x\<bar> \<le> M)" and "round2 = 2 ^ nat (shift + 13)"
proof -
  define m where "m = WebRtcSpl_MaxAbsValueW16C d"
  note mb = MaxAbsValueW16C_bound [OF assms(1) m_def]
  have x16: "\<forall>x\<in>set d. \<bar>x\<bar> \<le> 32768" using assms(1) in_i16_abs by blast
  consider "m \<le> 13573" "shift = 0" "round2 = 8192" | "13573 < m" "m \<le> 27146" "shift = 1" "round2 = 16384"
    | "27146 < m" "shift = 2" "round2 = 32768"
    using assms(2) by (auto simp: ifft_scaling_def m_def [symmetric] Let_def shl32_def i32_def split: if_splits)
  then show "\<exists>M. ifft_rule M shift \<and> (\<forall>x\<in>set d. \<bar>x\<bar> \<le> M)"
  proof cases
    case 1
    then have "\<forall>x\<in>set d. \<bar>x\<bar> \<le> 13573" using mb by fastforce
    then show ?thesis using 1 unfolding ifft_rule_def by blast
  next
    case 2
    then have "\<forall>x\<in>set d. \<bar>x\<bar> \<le> 27146" using mb by fastforce
    then show ?thesis using 2 unfolding ifft_rule_def by blast
  next
    case 3
    then show ?thesis using x16 unfolding ifft_rule_def by blast
  qed
  show "round2 = 2 ^ nat (shift + 13)"
    using assms(2) by (auto simp: ifft_scaling_def m_def [symmetric] Let_def shl32_def i32_def split: if_splits)
qed

lemma ifft_butterfly_exact_mode: "mode \<noteq> 0 \<Longrightarrow> ifft_butterfly_exact mode = ifft_butterfly_exact 1"
  by (intro ext) (simp add: ifft_butterfly_exact_def)

lemma length_fft_stage [shape, simp]: "length (fft_stage sg bf n l k d) = length d"
proof -
  have "length (fold (\<lambda>(wr, wi, i). apply_butterfly bf wr wi i l) ops d) = length d" for ops
    by (induction ops arbitrary: d) (auto split: prod.splits)
  then show ?thesis by (simp add: fft_stage_ops)
qed

lemma quad_in: "length d = 2 * n \<Longrightarrow> i + l < n \<Longrightarrow> quad d l i = (jr, ji, ir, ii) \<Longrightarrow> {jr, ji, ir, ii} \<subseteq> set d"
  by (auto simp: quad_def)

lemma stage_exact:
  assumes "length d = 2 * n" and "2 * 2 ^ s dvd n" and "s \<le> 9" and "\<And>x. \<bar>x\<bar> \<le> 32767 \<Longrightarrow> \<bar>sg x\<bar> = \<bar>x\<bar>"
    and "\<forall>x\<in>set d. P x" and "\<forall>x\<in>set d. Q x"
    and "\<And>wr wi jr ji ir ii. \<bar>wr\<bar> + \<bar>wi\<bar> \<le> 46338 \<Longrightarrow> P jr \<Longrightarrow> P ji \<Longrightarrow> P ir \<Longrightarrow> P ii \<Longrightarrow>
          bf wr wi (jr, ji, ir, ii) = bf' wr wi (jr, ji, ir, ii) \<and>
          (case bf' wr wi (jr, ji, ir, ii) of (a, b, c, d) \<Rightarrow> Q a \<and> Q b \<and> Q c \<and> Q d)"
  shows "fft_stage sg bf n (2 ^ s) (9 - s) d = fft_stage sg bf' n (2 ^ s) (9 - s) d"
    and "\<forall>x\<in>set (fft_stage sg bf n (2 ^ s) (9 - s) d). Q x"
proof -
  let ?ops = "stage_ops sg n (2 ^ s) (9 - s)"
  have one: "bf wr wi (quad d (2 ^ s) i) = bf' wr wi (quad d (2 ^ s) i) \<and>
      (case bf' wr wi (quad d (2 ^ s) i) of (a, b, c, d) \<Rightarrow> Q a \<and> Q b \<and> Q c \<and> Q d)"
    if op: "(wr, wi, i) \<in> set ?ops" for wr wi i
  proof -
    obtain jr ji ir ii where q: "quad d (2 ^ s) i = (jr, ji, ir, ii)" by (metis prod_cases4)
    have "{jr, ji, ir, ii} \<subseteq> set d"
      by (rule quad_in [OF assms(1) stage_ops_bound [OF op assms(2)] q])
    then show ?thesis
      using assms(5) stage_ops_twiddle [OF op assms(3,4)] unfolding q by (intro assms(7)) auto
  qed
  have outQ: "Q jr \<and> Q ji \<and> Q ir \<and> Q ii"
    if "(wr, wi, i) \<in> set ?ops" "bf wr wi (quad d (2 ^ s) i) = (jr, ji, ir, ii)" for wr wi i jr ji ir ii
  proof -
    have "bf' wr wi (quad d (2 ^ s) i) = (jr, ji, ir, ii)" using one [OF that(1)] that(2) by metis
    with one [OF that(1)] show ?thesis by (simp only: prod.case simp_thms)
  qed
  note fb = fold_butterflies [OF stage_ops_disjoint [OF assms(2), of sg "9 - s"], of bf d bf' Q]
  have "fold (\<lambda>(wr, wi, i). apply_butterfly bf wr wi i (2 ^ s)) ?ops d
      = fold (\<lambda>(wr, wi, i). apply_butterfly bf' wr wi i (2 ^ s)) ?ops d
    \<and> (\<forall>x\<in>set (fold (\<lambda>(wr, wi, i). apply_butterfly bf wr wi i (2 ^ s)) ?ops d). Q x)"
    using one [THEN conjunct1] outQ assms(6) by (rule fb)
  then show "fft_stage sg bf n (2 ^ s) (9 - s) d = fft_stage sg bf' n (2 ^ s) (9 - s) d"
    and "\<forall>x\<in>set (fft_stage sg bf n (2 ^ s) (9 - s) d). Q x"
    by (simp_all add: fft_stage_ops)
qed

lemma ifft_turn_step:
  assumes "length d = 2 * n" and "2 * 2 ^ s dvd n" and "s \<le> 9" and "\<forall>x\<in>set d. in_i16 x"
  shows "ifft_turn n mode s (sc, d) = ifft_turn_exact n mode s (sc, d)"
    and "\<forall>x\<in>set (snd (ifft_turn n mode s (sc, d))). in_i16 x"
    and "length (snd (ifft_turn n mode s (sc, d))) = 2 * n"
proof -
  obtain shift round2 where sr: "ifft_scaling d = (shift, round2)" by (cases "ifft_scaling d")
  obtain M where M: "ifft_rule M shift" "\<forall>x\<in>set d. \<bar>x\<bar> \<le> M"
    using ifft_scaling_rule(1) [OF assms(4) sr] by blast
  have r: "round2 = 2 ^ nat (shift + 13)" by (rule ifft_scaling_rule(2) [OF assms(4) sr])
  let ?bf = "if mode = 0 then ifft_butterfly_low shift else ifft_butterfly_high shift round2"
  have agree: "?bf wr wi (jr, ji, ir, ii) = ifft_butterfly_exact mode shift wr wi (jr, ji, ir, ii) \<and>
      (case ifft_butterfly_exact mode shift wr wi (jr, ji, ir, ii) of (a, b, c, d) \<Rightarrow> in_i16 a \<and> in_i16 b \<and> in_i16 c \<and> in_i16 d)"
    if "\<bar>wr\<bar> + \<bar>wi\<bar> \<le> 46338" "\<bar>jr\<bar> \<le> M" "\<bar>ji\<bar> \<le> M" "\<bar>ir\<bar> \<le> M" "\<bar>ii\<bar> \<le> M" for wr wi jr ji ir ii
  proof (cases "mode = 0")
    case True
    obtain a b c e where "ifft_butterfly_exact 0 shift wr wi (jr, ji, ir, ii) = (a, b, c, e)"
      by (metis prod_cases4)
    then show ?thesis using True ifft_butterfly_low_exact(1) [OF M(1) that] ifft_butterfly_low_exact(2) [OF M(1) that, of a b c e]
      by (simp only: if_True prod.case simp_thms)
  next
    case False
    obtain a b c e where "ifft_butterfly_exact 1 shift wr wi (jr, ji, ir, ii) = (a, b, c, e)"
      by (metis prod_cases4)
    then show ?thesis using False ifft_butterfly_high_exact(1) [OF M(1) that] ifft_butterfly_high_exact(2) [OF M(1) that, of a b c e]
      by (simp only: if_False simp_thms prod.case r ifft_butterfly_exact_mode [OF False])
  qed
  note st = stage_exact [OF assms(1,2,3), where sg = "\<lambda>x. x" and P = "\<lambda>x. \<bar>x\<bar> \<le> M" and Q = in_i16
      and bf = ?bf and bf' = "ifft_butterfly_exact mode shift", OF _ M(2) assms(4) agree]
  have t: "take (2 * n) d = d" using assms(1) by simp
  show "ifft_turn n mode s (sc, d) = ifft_turn_exact n mode s (sc, d)"
    using st(1) by (simp add: ifft_turn_def ifft_turn_exact_def t sr)
  show "\<forall>x\<in>set (snd (ifft_turn n mode s (sc, d))). in_i16 x"
    using st(2) by (simp add: ifft_turn_def t sr)
  show "length (snd (ifft_turn n mode s (sc, d))) = 2 * n"
    using assms(1) by (simp add: ifft_turn_def t sr)
qed

lemma ifft_turns_exact:
  assumes "length d = 2 * 2 ^ stages" and "k \<le> stages" and "stages \<le> 10" and "\<forall>x\<in>set d. in_i16 x"
  shows "fold (ifft_turn (2 ^ stages) mode) [0..<k] (0, d) = fold (ifft_turn_exact (2 ^ stages) mode) [0..<k] (0, d) \<and>
    length (snd (fold (ifft_turn (2 ^ stages) mode) [0..<k] (0, d))) = 2 * 2 ^ stages \<and>
    (\<forall>x\<in>set (snd (fold (ifft_turn (2 ^ stages) mode) [0..<k] (0, d))). in_i16 x)"
  using assms(2)
proof (induction k)
  case 0
  then show ?case using assms by simp
next
  case (Suc k)
  obtain sc e where e: "fold (ifft_turn (2 ^ stages) mode) [0..<k] (0, d) = (sc, e)" by (metis surj_pair)
  have IH: "fold (ifft_turn_exact (2 ^ stages) mode) [0..<k] (0, d) = (sc, e)" "length e = 2 * 2 ^ stages"
    "\<forall>x\<in>set e. in_i16 x"
    using Suc.IH Suc.prems e by simp_all
  have "2 * 2 ^ k dvd (2 ^ stages :: nat)"
    using Suc.prems by (metis le_imp_power_dvd power_Suc)
  note st = ifft_turn_step [OF IH(2) this _ IH(3), of mode sc]
  show ?case using st Suc.prems assms(3) by (simp add: e IH(1))
qed

text \<open>The inverse transform never wraps. For every 16-bit input of a length the routine
  accepts, in both modes, the result equals that of the same algorithm in unbounded
  integers, and every value fits 16 bits: the per-stage scaling of
  \<open>WebRtcSpl_ComplexIFFT\<close> (thresholds 13573 and 27146) is sufficient.\<close>

theorem ComplexIFFT_exact:
  assumes "length d = 2 * 2 ^ stages" and "\<forall>x\<in>set d. in_i16 x"
  shows "WebRtcSpl_ComplexIFFT d stages mode =
      (if stages > 10 then (- 1, d) else fold (ifft_turn_exact (2 ^ stages) mode) [0..<stages] (0, d)) \<and>
    (\<forall>x\<in>set (snd (WebRtcSpl_ComplexIFFT d stages mode)). in_i16 x) \<and>
    length (snd (WebRtcSpl_ComplexIFFT d stages mode)) = length d"
proof (cases "stages > 10")
  case True
  then have "(2::nat) ^ 10 < 2 ^ stages" by (intro power_strict_increasing) simp_all
  then have "1024 < (2::nat) ^ stages" by simp
  then show ?thesis using True assms by (simp add: WebRtcSpl_ComplexIFFT_def)
next
  case False
  then have "(2::nat) ^ stages \<le> 2 ^ 10" by (intro power_increasing) simp_all
  then have "\<not> 1024 < (2::nat) ^ stages" by simp
  then have w: "WebRtcSpl_ComplexIFFT d stages mode = fold (ifft_turn (2 ^ stages) mode) [0..<stages] (0, d)"
    by (simp add: WebRtcSpl_ComplexIFFT_def)
  have "stages \<le> 10" using False by simp
  from ifft_turns_exact [OF assms(1) order_refl this assms(2), of mode] show ?thesis
    using False assms(1) unfolding w by auto
qed

theorem ComplexIFFT_exact_witness:
  "WebRtcSpl_ComplexIFFT [32767, - 32768, 5, 6] 1 1 = fold (ifft_turn_exact (2 ^ 1) 1) [0..<1] (0, [32767, - 32768, 5, 6])"
  using ComplexIFFT_exact [of "[32767, - 32768, 5, 6]" 1 1] by (simp add: in_i16_def)

section \<open>The forward transform never overflows 32 bits\<close>

lemma fft_butterfly_high_exact:
  assumes "\<bar>wr\<bar> + \<bar>wi\<bar> \<le> 46338" and "in_i16 jr" "in_i16 ji" "in_i16 ir" "in_i16 ii"
  shows "fft_butterfly_high wr wi (jr, ji, ir, ii) = fft_butterfly_high_exact wr wi (jr, ji, ir, ii)"
proof -
  let ?R = "wr * jr - wi * ji" and ?I = "wr * ji + wi * jr"
  note ab = assms(2-5) [THEN in_i16_abs]
  have R: "\<bar>?R\<bar> \<le> 46338 * 32768" "\<bar>?I\<bar> \<le> 46338 * 32768"
    using twiddle_product [OF assms(1) ab(1,2)] twiddle_product [OF assms(1) ab(2,1)] by simp_all
  have s: "shr x 1 = x div 2" "shr x 15 = x div 32768" for x by (simp_all add: shr_def)
  have r: "\<bar>16384 :: int\<bar> \<le> 32768" by simp
  note vr = butterfly_value [OF ab(3) R(1) order_refl r] and vi = butterfly_value [OF ab(4) R(2) order_refl r]
  show ?thesis
    unfolding fft_butterfly_high_def fft_butterfly_high_exact_def Let_def prod.case
    by (simp only: vr(1,2) vi(1,2) s vr(4,5) vi(4,5))
qed

lemma stage_ops_neg:
  assumes "k \<le> 9"
  shows "stage_ops (\<lambda>x. i16 (- x)) n (2 ^ k) (9 - k) = stage_ops (\<lambda>x. - x) n (2 ^ k) (9 - k)"
proof -
  have "i16 (- kSinTable1024 ! (m * 2 ^ (9 - k))) = - kSinTable1024 ! (m * 2 ^ (9 - k))" if "m < 2 ^ k" for m
  proof -
    have "m * 2 ^ (9 - k) < 2 ^ k * 2 ^ (9 - k)" using that by simp
    also have "\<dots> = 2 ^ 9" using assms by (simp flip: power_add)
    finally have "m * 2 ^ (9 - k) < 512" by simp
    from twiddle_bound(3) [OF this] show ?thesis by (intro i16_id) (auto simp: in_i16_def)
  qed
  then show ?thesis
    unfolding stage_ops_def by (intro arg_cong [of _ _ concat] map_cong refl) auto
qed

text \<open>The forward transform in its accurate mode (the one the echo canceller uses):
  no 32-bit intermediate overflows, for any 16-bit data, so the routine equals the one with
  exact intermediates and a single narrowing to 16 bits per output; it fails exactly for
  more than ten stages, and then leaves the data alone.\<close>

theorem ComplexFFT_exact:
  assumes "length d = 2 * 2 ^ stages" and "\<forall>x\<in>set d. in_i16 x"
  shows "WebRtcSpl_ComplexFFT d stages 1 =
      (if stages > 10 then (- 1, d)
       else (0, fold (\<lambda>s. fft_stage (\<lambda>x. - x) fft_butterfly_high_exact (2 ^ stages) (2 ^ s) (9 - s)) [0..<stages] d)) \<and>
    (\<forall>x\<in>set (snd (WebRtcSpl_ComplexFFT d stages 1)). in_i16 x)"
proof (cases "stages > 10")
  case True
  then have "(2::nat) ^ 10 < 2 ^ stages" by (intro power_strict_increasing) simp_all
  then have "1024 < (2::nat) ^ stages" by simp
  then show ?thesis using True assms by (simp add: WebRtcSpl_ComplexFFT_def)
next
  case False
  let ?F = "\<lambda>s. fft_stage (\<lambda>x. i16 (- x)) fft_butterfly_high (2 ^ stages) (2 ^ s) (9 - s)"
  let ?E = "\<lambda>s. fft_stage (\<lambda>x. - x) fft_butterfly_high_exact (2 ^ stages) (2 ^ s) (9 - s)"
  have "fold ?F [0..<k] d = fold ?E [0..<k] d \<and> length (fold ?F [0..<k] d) = 2 * 2 ^ stages \<and>
      (\<forall>x\<in>set (fold ?F [0..<k] d). in_i16 x)" if "k \<le> stages" for k
    using that
  proof (induction k)
    case (Suc k)
    let ?e = "fold ?F [0..<k] d"
    have "k \<le> stages" using Suc.prems by simp
    note all = Suc.IH [OF this]
    have IH: "fold ?E [0..<k] d = ?e" "length ?e = 2 * 2 ^ stages" "\<forall>x\<in>set ?e. in_i16 x"
      using all by metis+
    have dv: "2 * 2 ^ k dvd (2 ^ stages :: nat)" using Suc.prems by (metis le_imp_power_dvd power_Suc)
    have k9: "k \<le> 9" using Suc.prems False by simp
    note sg = stage_ops_neg [OF k9, of "2 ^ stages"]
    have ag: "fft_butterfly_high wr wi (jr, ji, ir, ii) = fft_butterfly_high_exact wr wi (jr, ji, ir, ii) \<and>
        (case fft_butterfly_high_exact wr wi (jr, ji, ir, ii) of (a, b, c, d) \<Rightarrow> in_i16 a \<and> in_i16 b \<and> in_i16 c \<and> in_i16 d)"
      if "\<bar>wr\<bar> + \<bar>wi\<bar> \<le> 46338" "in_i16 jr" "in_i16 ji" "in_i16 ir" "in_i16 ii" for wr wi jr ji ir ii
      using fft_butterfly_high_exact [OF that] by (simp add: fft_butterfly_high_exact_def Let_def)
    note st = stage_exact [where P = in_i16 and Q = in_i16 and bf = fft_butterfly_high
        and bf' = fft_butterfly_high_exact and sg = "\<lambda>x. - x", OF IH(2) dv k9 _ IH(3,3)]
    have neg: "?F k ?e = fft_stage (\<lambda>x. - x) fft_butterfly_high (2 ^ stages) (2 ^ k) (9 - k) ?e"
      by (simp only: fft_stage_ops sg)
    have eq: "?F k ?e = ?E k ?e"
      unfolding neg by (rule st(1)) (rule abs_minus_cancel, rule ag, assumption+)
    have rng: "\<forall>x\<in>set (?F k ?e). in_i16 x"
      unfolding neg by (rule st(2)) (rule abs_minus_cancel, rule ag, assumption+)
    have len: "length (?F k ?e) = 2 * 2 ^ stages" using IH(2) by (simp only: length_fft_stage)
    have uF: "fold ?F [0..<Suc k] d = ?F k ?e" and uE: "fold ?E [0..<Suc k] d = ?E k ?e"
      by (simp_all add: IH(1))
    show ?case unfolding uF uE by (intro conjI eq rng len)
  qed (use assms in simp)
  from this [OF order_refl] have "fold ?F [0..<stages] d = fold ?E [0..<stages] d"
    "\<forall>x\<in>set (fold ?F [0..<stages] d). in_i16 x" by blast+
  moreover have "(2::nat) ^ stages \<le> 2 ^ 10" using False by (intro power_increasing) simp_all
  ultimately show ?thesis using False by (simp add: WebRtcSpl_ComplexFFT_def)
qed

theorem ComplexFFT_exact_witness:
  "WebRtcSpl_ComplexFFT [32767, - 32768, 5, 6] 1 1 =
   (0, fft_stage (\<lambda>x. - x) fft_butterfly_high_exact (2 ^ 1) (2 ^ 0) (9 - 0) [32767, - 32768, 5, 6])"
  using ComplexFFT_exact [of "[32767, - 32768, 5, 6]" 1] by (simp add: in_i16_def)
section \<open>The range of the real transform\<close>

lemma apply_butterfly_all:
  assumes "\<And>wr wi q. case bf wr wi q of (a, b, c, d) \<Rightarrow> P a \<and> P b \<and> P c \<and> P d" and "list_all P d"
  shows "list_all P (apply_butterfly bf wr wi i l d)"
proof -
  obtain jr ji ir ii where b: "bf wr wi (quad d l i) = (jr, ji, ir, ii)" by (metis prod_cases4)
  then have "P jr \<and> P ji \<and> P ir \<and> P ii" using assms(1) [of wr wi "quad d l i"] by simp
  then show ?thesis using assms(2) by (simp add: apply_butterfly_quad b list_all_update)
qed

lemma fft_stage_all:
  assumes "\<And>wr wi q. case bf wr wi q of (a, b, c, d) \<Rightarrow> P a \<and> P b \<and> P c \<and> P d" and "list_all P d"
  shows "list_all P (fft_stage sg bf n l k d)"
proof -
  have "list_all P (fold (\<lambda>(wr, wi, i). apply_butterfly bf wr wi i l) ops d)" for ops
    using assms(2)
  proof (induction ops arbitrary: d)
    case (Cons op ops)
    obtain wr wi i where op: "op = (wr, wi, i)" by (cases op) auto
    show ?case using Cons.IH [OF apply_butterfly_all [where bf = bf, OF assms(1) Cons.prems]] by (simp add: op)
  qed simp
  then show ?thesis by (simp add: fft_stage_ops)
qed

lemma ComplexFFT_all:
  assumes "list_all in_i16 d"
  shows "list_all in_i16 (snd (WebRtcSpl_ComplexFFT d s mode)) \<and> length (snd (WebRtcSpl_ComplexFFT d s mode)) = length d"
proof -
  let ?bf = "if mode = 0 then fft_butterfly_low else fft_butterfly_high"
  have b: "case ?bf wr wi q of (a, b, c, d) \<Rightarrow> in_i16 a \<and> in_i16 b \<and> in_i16 c \<and> in_i16 d" for wr wi q
    by (auto simp: fft_butterfly_low_def fft_butterfly_high_def Let_def split: prod.splits)
  have "list_all in_i16 (fold (\<lambda>s. fft_stage (\<lambda>x. i16 (- x)) ?bf n (2 ^ s) (9 - s)) ks d) \<and>
      length (fold (\<lambda>s. fft_stage (\<lambda>x. i16 (- x)) ?bf n (2 ^ s) (9 - s)) ks d) = length d" for ks n
    using assms by (induction ks arbitrary: d) (simp_all add: fft_stage_all [OF b])
  then show ?thesis using assms by (simp add: WebRtcSpl_ComplexFFT_def Let_def)
qed

lemma swap_complex_all:
  "list_all P d \<Longrightarrow> 2 * a + 1 < length d \<Longrightarrow> 2 * b + 1 < length d \<Longrightarrow> list_all P (swap_complex a b d)"
  unfolding swap_complex_def by (intro list_all_update) (simp_all add: list_all_length)

lemma ComplexBitReverse_all:
  assumes "length d = 2 * 2 ^ s" "list_all P d"
  shows "list_all P (WebRtcSpl_ComplexBitReverse d s) \<and> length (WebRtcSpl_ComplexBitReverse d s) = length d"
proof -
  have "list_all P (fold (swap_reversed s) ms d) \<and> length (fold (swap_reversed s) ms d) = length d" if "\<forall>m\<in>set ms. m < 2 ^ s" for ms
    using that assms
  proof (induction ms arbitrary: d)
    case (Cons m ms)
    have "bitrev s m < 2 ^ s" by (rule bitrev_bound)
    then have "list_all P (swap_reversed s m d)" "length (swap_reversed s m d) = length d"
      using Cons.prems by (auto simp: swap_reversed_def intro!: swap_complex_all)
    then show ?case using Cons.IH [of "swap_reversed s m d"] Cons.prems by simp
  qed simp
  from this [of "[1..<2 ^ s]"] show ?thesis by (simp add: ComplexBitReverse_swaps)
qed

lemma RealForwardFFT_range:
  assumes "order fft = int s" "s \<le> 10" "length xs = 2 ^ s" "list_all in_i16 xs" "length out = 2 ^ s + 2" "1 \<le> s"
  shows "fst (WebRtcSpl_RealForwardFFT fft xs out) = 0 \<and> length (snd (WebRtcSpl_RealForwardFFT fft xs out)) = 2 ^ s + 2 \<and>
    list_all in_i16 (snd (WebRtcSpl_RealForwardFFT fft xs out))"
proof -
  let ?b = "concat (map (\<lambda>i. [xs ! i, 0]) [0..<2 ^ s])"
  have "length ?b = 2 * 2 ^ s" by (simp add: length_concat comp_def sum_list_triv)
  moreover have "list_all in_i16 ?b" using assms(3,4) by (auto simp: list_all_iff in_i16_def)
  ultimately have r: "list_all in_i16 (WebRtcSpl_ComplexBitReverse ?b s)" "length (WebRtcSpl_ComplexBitReverse ?b s) = 2 * 2 ^ s"
    using ComplexBitReverse_all [of ?b s in_i16] by simp_all
  obtain k c where c: "WebRtcSpl_ComplexFFT (WebRtcSpl_ComplexBitReverse ?b s) s 1 = (k, c)" by (metis surj_pair)
  have "list_all in_i16 c" "length c = 2 * 2 ^ s" using ComplexFFT_all [OF r(1), of s 1] c r(2) by simp_all
  moreover have "(2::nat) ^ s \<le> 2 ^ 10" using assms(2) by (intro power_increasing) simp_all
  then have "k = 0" using c by (simp add: WebRtcSpl_ComplexFFT_def Let_def split: if_splits)
  moreover have "(2::nat) ^ 1 \<le> 2 ^ s" using assms(6) by (intro power_increasing) simp_all
  ultimately show ?thesis
    using assms(1,5) c by (simp add: WebRtcSpl_RealForwardFFT_def Let_def mem_copy_def list_all_iff) (meson in_set_takeD)
qed

end
