(* ===== verification/Delay_Estimator.thy ===== *)
theory Delay_Estimator
  imports Float32 Spl_Vector
begin

unbundle bit_operations_syntax

text \<open>
  \<open>src/webrtc/modules/audio_processing/utility/delay_estimator.c\<close>: the binary-spectrum delay
  estimator. The far-end half is shared by pointer between the caller and the estimator in
  C; here it is a separate record that the operations take beside the estimator. Array
  memory is a list, \<open>NULL\<close> the empty list; the memory obtained by \<open>realloc\<close> holds arbitrary
  values, the argument \<open>g\<close>, until it is written.
\<close>

section \<open>Constants and state\<close>

definition kMaxBitCountsQ9 :: int where "kMaxBitCountsQ9 = shl32 32 9"

definition kShiftsAtZero :: int where "kShiftsAtZero = 13"

definition kShiftsLinearSlope :: int where "kShiftsLinearSlope = 3"

definition kProbabilityOffset :: int where "kProbabilityOffset = 1024"

definition kProbabilityLowerLimit :: int where "kProbabilityLowerLimit = 8704"

definition kProbabilityMinSpread :: int where "kProbabilityMinSpread = 2816"

definition kHistogramMax :: rat where "kHistogramMax = 3000"

definition kLastHistogramMax :: rat where "kLastHistogramMax = 250"

definition kMinHistogramThreshold :: rat where "kMinHistogramThreshold = 3 / 2"

definition kMinRequiredHits :: int where "kMinRequiredHits = 10"

definition kMaxHitsWhenPossiblyNonCausal :: int where "kMaxHitsWhenPossiblyNonCausal = 10"

definition kMaxHitsWhenPossiblyCausal :: int where "kMaxHitsWhenPossiblyCausal = 1000"

definition kQ14Scaling :: rat where "kQ14Scaling = 1 / 16384"

definition kFractionSlope :: rat where "kFractionSlope = f32 (5 / 100)"

definition kMinFractionWhenPossiblyCausal :: rat where "kMinFractionWhenPossiblyCausal = 1 / 2"

definition kMinFractionWhenPossiblyNonCausal :: rat where "kMinFractionWhenPossiblyNonCausal = 1 / 4"

record BinaryDelayEstimatorFarend =
  far_bit_counts :: "int list"
  binary_far_history :: "int list"
  farend_history_size :: int

record BinaryDelayEstimator =
  mean_bit_counts :: "int list"
  bit_counts :: "int list"
  binary_near_history :: "int list"
  near_history_size :: int
  history_size :: int
  minimum_probability :: int
  last_delay_probability :: int
  last_delay :: int
  robust_validation_enabled :: int
  allowed_offset :: int
  last_candidate_delay :: int
  compare_delay :: int
  candidate_hits :: int
  histogram :: "rat list"
  last_delay_histogram :: rat
  lookahead :: int

section \<open>Counting bits\<close>

definition BitCount :: "int \<Rightarrow> int" where
  "BitCount v =
     (let tmp = u32 (v - (shr v 1 AND 0xDB6DB6DB) - (shr v 2 AND 0x49249249));
          tmp = u32 (tmp + shr tmp 3) AND 0xC71C71C7;
          tmp = u32 (tmp + shr tmp 6);
          tmp = u32 (tmp + shr tmp 12 + shr tmp 24) AND 0x3F
      in i32 tmp)"

definition BitCountComparison :: "int \<Rightarrow> int list \<Rightarrow> nat \<Rightarrow> int list \<Rightarrow> int list" where
  "BitCountComparison binary_vector binary_matrix matrix_size counts =
     fold (\<lambda>n c. c[n := BitCount (binary_vector XOR binary_matrix ! n)]) [0..<matrix_size] counts"

text \<open>\<open>WebRtc_MeanEstimatorFix\<close>: the new mean.\<close>

definition WebRtc_MeanEstimatorFix :: "int \<Rightarrow> int \<Rightarrow> int \<Rightarrow> int" where
  "WebRtc_MeanEstimatorFix new_value factor mean_value =
     (let diff = i32 (new_value - mean_value);
          diff = (if diff < 0 then i32 (- shr (i32 (- diff)) factor) else shr diff factor)
      in i32 (mean_value + diff))"

section \<open>Validation of a candidate\<close>

text \<open>
  One turn of the histogram loop. The two flags are 0 or 1, so exactly one of the
  products is the amount and the other is zero.
\<close>

definition histogram_decay :: "int \<Rightarrow> int \<Rightarrow> rat \<Rightarrow> rat \<Rightarrow> nat \<Rightarrow> rat \<Rightarrow> rat" where
  "histogram_decay lastd candidate_delay decrease_in_last_set valley_depth i h =
     (let is_in_last_set = int i \<ge> lastd - 2 \<and> int i \<le> lastd + 1 \<and> int i \<noteq> candidate_delay;
          is_in_candidate_set = int i \<ge> candidate_delay - 2 \<and> int i \<le> candidate_delay + 1;
          h = f32 (h - f32 (f32 (decrease_in_last_set * of_int (c_bool is_in_last_set))
                            + f32 (valley_depth * of_int (c_bool (\<not> is_in_last_set \<and> \<not> is_in_candidate_set)))))
      in if h < 0 then 0 else h)"

definition UpdateRobustValidationStatistics ::
    "BinaryDelayEstimator \<Rightarrow> int \<Rightarrow> int \<Rightarrow> int \<Rightarrow> BinaryDelayEstimator" where
  "UpdateRobustValidationStatistics self candidate_delay valley_depth_q14 valley_level_q14 =
     (let valley_depth = f32 (f32 (of_int valley_depth_q14) * kQ14Scaling);
          max_hits_for_slow_change =
            (if candidate_delay < last_delay self then kMaxHitsWhenPossiblyNonCausal else kMaxHitsWhenPossiblyCausal);
          self = (if candidate_delay \<noteq> last_candidate_delay self
                  then self\<lparr>candidate_hits := 0, last_candidate_delay := candidate_delay\<rparr> else self);
          self = self\<lparr>candidate_hits := i32 (candidate_hits self + 1)\<rparr>;
          c = nat candidate_delay;
          bin = f32 (histogram self ! c + valley_depth);
          self = self\<lparr>histogram := (histogram self)[c := (if bin > kHistogramMax then kHistogramMax else bin)]\<rparr>;
          decrease_in_last_set =
            (if candidate_hits self < max_hits_for_slow_change
             then f32 (f32 (of_int (i32 (mean_bit_counts self ! nat (compare_delay self) - valley_level_q14))) * kQ14Scaling)
             else valley_depth)
      in self\<lparr>histogram :=
           fold (\<lambda>i h. h[i := histogram_decay (last_delay self) candidate_delay decrease_in_last_set valley_depth i (h ! i)])
             [0..<nat (history_size self)] (histogram self)\<rparr>)"

definition HistogramBasedValidation :: "BinaryDelayEstimator \<Rightarrow> int \<Rightarrow> int" where
  "HistogramBasedValidation self candidate_delay =
     (let delay_difference = i32 (candidate_delay - last_delay self);
          fraction =
            (if delay_difference > allowed_offset self
             then (let fraction = f32 (1 - f32 (kFractionSlope * f32 (of_int (i32 (delay_difference - allowed_offset self)))))
                   in if fraction > kMinFractionWhenPossiblyCausal then fraction else kMinFractionWhenPossiblyCausal)
             else if delay_difference < 0
             then (let fraction = f32 (kMinFractionWhenPossiblyNonCausal - f32 (kFractionSlope * f32 (of_int delay_difference)))
                   in if fraction > 1 then 1 else fraction)
             else 1);
          histogram_threshold = f32 (histogram self ! nat (compare_delay self) * fraction);
          histogram_threshold =
            (if histogram_threshold > kMinHistogramThreshold then histogram_threshold else kMinHistogramThreshold)
      in c_bool (histogram self ! nat candidate_delay \<ge> histogram_threshold \<and> candidate_hits self > kMinRequiredHits))"

definition RobustValidation :: "BinaryDelayEstimator \<Rightarrow> int \<Rightarrow> int \<Rightarrow> int \<Rightarrow> int" where
  "RobustValidation self candidate_delay is_instantaneous_valid is_histogram_valid =
     (let is_robust = c_bool (last_delay self < 0 \<and> (is_instantaneous_valid \<noteq> 0 \<or> is_histogram_valid \<noteq> 0));
          is_robust = is_robust OR c_bool (is_instantaneous_valid \<noteq> 0 \<and> is_histogram_valid \<noteq> 0);
          is_robust = is_robust OR
            c_bool (is_histogram_valid \<noteq> 0 \<and> histogram self ! nat candidate_delay > last_delay_histogram self)
      in is_robust)"

section \<open>Memory\<close>

definition c_realloc :: "bool \<Rightarrow> (nat \<Rightarrow> 'a) \<Rightarrow> 'a list \<Rightarrow> nat \<Rightarrow> 'a list" where
  "c_realloc ok g xs n = (if ok then take n xs @ map g [length xs..<n] else [])"

text \<open>\<open>memset\<close> of \<open>n\<close> elements to zero from \<open>pos\<close> on.\<close>

definition mem_zero :: "'a::zero list \<Rightarrow> nat \<Rightarrow> nat \<Rightarrow> 'a list" where
  "mem_zero xs pos n = mem_copy xs pos (replicate n 0)"

definition WebRtc_AllocateFarendBufferMemory ::
    "bool \<Rightarrow> bool \<Rightarrow> (nat \<Rightarrow> int) \<Rightarrow> BinaryDelayEstimatorFarend \<Rightarrow> int \<Rightarrow> BinaryDelayEstimatorFarend \<times> int" where
  "WebRtc_AllocateFarendBufferMemory ok1 ok2 g self hsize =
     (let self = self\<lparr>binary_far_history := c_realloc ok1 g (binary_far_history self) (nat hsize)\<rparr>;
          self = self\<lparr>far_bit_counts := c_realloc ok2 g (far_bit_counts self) (nat hsize)\<rparr>;
          hsize = (if \<not> ok1 \<or> \<not> ok2 then 0 else hsize);
          self =
            (if hsize > farend_history_size self
             then (let size_diff = nat (hsize - farend_history_size self); h = nat (farend_history_size self)
                   in self\<lparr>binary_far_history := mem_zero (binary_far_history self) h size_diff,
                           far_bit_counts := mem_zero (far_bit_counts self) h size_diff\<rparr>)
             else self);
          self = self\<lparr>farend_history_size := hsize\<rparr>
      in (self, farend_history_size self))"

definition WebRtc_CreateBinaryDelayEstimatorFarend ::
    "bool \<Rightarrow> bool \<Rightarrow> bool \<Rightarrow> (nat \<Rightarrow> int) \<Rightarrow> int \<Rightarrow> BinaryDelayEstimatorFarend option" where
  "WebRtc_CreateBinaryDelayEstimatorFarend ok ok1 ok2 g hsize =
     (if \<not> (hsize > 1 \<and> ok) then None
      else (let self = \<lparr>far_bit_counts = [], binary_far_history = [], farend_history_size = 0\<rparr>;
                (self, n) = WebRtc_AllocateFarendBufferMemory ok1 ok2 g self hsize
            in if n = 0 then None else Some self))"

definition WebRtc_InitBinaryDelayEstimatorFarend :: "BinaryDelayEstimatorFarend \<Rightarrow> BinaryDelayEstimatorFarend" where
  "WebRtc_InitBinaryDelayEstimatorFarend self =
     self\<lparr>binary_far_history := mem_zero (binary_far_history self) 0 (nat (farend_history_size self)),
          far_bit_counts := mem_zero (far_bit_counts self) 0 (nat (farend_history_size self))\<rparr>"

definition shift_pad :: "int list \<Rightarrow> nat \<Rightarrow> nat \<Rightarrow> nat \<Rightarrow> nat \<Rightarrow> nat \<Rightarrow> int list" where
  "shift_pad xs dest_index src_index shift_size padding_index abs_shift =
     mem_zero (mem_copy xs dest_index (mem_slice xs src_index shift_size)) padding_index abs_shift"

definition WebRtc_SoftResetBinaryDelayEstimatorFarend ::
    "BinaryDelayEstimatorFarend \<Rightarrow> int \<Rightarrow> BinaryDelayEstimatorFarend" where
  "WebRtc_SoftResetBinaryDelayEstimatorFarend self delay_shift =
     (let abs_shift = nat (c_abs delay_shift);
          shift_size = nat (farend_history_size self) - abs_shift
      in if delay_shift = 0 then self
         else
           (let (dest_index, src_index, padding_index) =
                  (if delay_shift > 0 then (abs_shift, 0, 0) else (0, abs_shift, shift_size))
            in self\<lparr>binary_far_history :=
                      shift_pad (binary_far_history self) dest_index src_index shift_size padding_index abs_shift,
                    far_bit_counts :=
                      shift_pad (far_bit_counts self) dest_index src_index shift_size padding_index abs_shift\<rparr>))"

text \<open>Shifting a history by one: the \<open>memmove\<close> of \<open>history_size - 1\<close> elements and the store.\<close>

definition WebRtc_AddBinaryFarSpectrum :: "BinaryDelayEstimatorFarend \<Rightarrow> int \<Rightarrow> BinaryDelayEstimatorFarend" where
  "WebRtc_AddBinaryFarSpectrum handle binary_far_spectrum =
     (let n = nat (farend_history_size handle) - 1;
          h = mem_copy (binary_far_history handle) 1 (mem_slice (binary_far_history handle) 0 n);
          c = mem_copy (far_bit_counts handle) 1 (mem_slice (far_bit_counts handle) 0 n)
      in handle\<lparr>binary_far_history := h[0 := binary_far_spectrum],
                far_bit_counts := c[0 := BitCount binary_far_spectrum]\<rparr>)"

definition WebRtc_AllocateHistoryBufferMemory ::
    "bool \<Rightarrow> bool \<Rightarrow> bool \<Rightarrow> bool \<Rightarrow> bool \<Rightarrow> (nat \<Rightarrow> int) \<Rightarrow> BinaryDelayEstimatorFarend \<Rightarrow> BinaryDelayEstimator \<Rightarrow> int \<Rightarrow>
     BinaryDelayEstimatorFarend \<times> BinaryDelayEstimator \<times> int" where
  "WebRtc_AllocateHistoryBufferMemory f1 f2 ok1 ok2 ok3 g far self hsize =
     (let (far, hsize) =
            (if hsize \<noteq> farend_history_size far then WebRtc_AllocateFarendBufferMemory f1 f2 g far hsize
             else (far, hsize));
          self = self\<lparr>mean_bit_counts := c_realloc ok1 g (mean_bit_counts self) (nat (hsize + 1)),
                      bit_counts := c_realloc ok2 g (bit_counts self) (nat hsize),
                      histogram := c_realloc ok3 (\<lambda>i. f32 (of_int (g i))) (histogram self) (nat (hsize + 1))\<rparr>;
          hsize = (if \<not> ok1 \<or> \<not> ok2 \<or> \<not> ok3 then 0 else hsize);
          self =
            (if hsize > history_size self
             then (let size_diff = nat (hsize - history_size self); h = nat (history_size self)
                   in self\<lparr>mean_bit_counts := mem_zero (mean_bit_counts self) h size_diff,
                           bit_counts := mem_zero (bit_counts self) h size_diff,
                           histogram := mem_zero (histogram self) h size_diff\<rparr>)
             else self);
          self = self\<lparr>history_size := hsize\<rparr>
      in (far, self, history_size self))"

text \<open>
  The booleans say whether the allocations succeed: the structure, the near history,
  and the three buffers. The fields no allocation sets before \<open>Init\<close> are arbitrary, here zero.
\<close>

definition WebRtc_CreateBinaryDelayEstimator ::
    "bool \<Rightarrow> bool \<Rightarrow> bool \<Rightarrow> bool \<Rightarrow> bool \<Rightarrow> (nat \<Rightarrow> int) \<Rightarrow> BinaryDelayEstimatorFarend option \<Rightarrow> int \<Rightarrow>
     BinaryDelayEstimator option" where
  "WebRtc_CreateBinaryDelayEstimator ok okn ok1 ok2 ok3 g farend max_lookahead =
     (case farend of None \<Rightarrow> None
      | Some far \<Rightarrow>
         (if \<not> (max_lookahead \<ge> 0 \<and> ok) then None
          else
            (let self =
                   \<lparr>mean_bit_counts = [], bit_counts = [],
                    binary_near_history = c_realloc okn g [] (nat (max_lookahead + 1)),
                    near_history_size = max_lookahead + 1, history_size = 0, minimum_probability = g 0,
                    last_delay_probability = g 1, last_delay = g 2, robust_validation_enabled = 0,
                    allowed_offset = 0, last_candidate_delay = g 3, compare_delay = g 4,
                    candidate_hits = g 5, histogram = [], last_delay_histogram = f32 (of_int (g 6)),
                    lookahead = max_lookahead\<rparr>
             in if \<not> okn then None
                else (let (_, self, n) =
                            WebRtc_AllocateHistoryBufferMemory True True ok1 ok2 ok3 g far self (farend_history_size far)
                      in if n = 0 then None else Some self))))"

section \<open>Operation\<close>

definition WebRtc_InitBinaryDelayEstimator :: "BinaryDelayEstimator \<Rightarrow> BinaryDelayEstimator" where
  "WebRtc_InitBinaryDelayEstimator self =
     (let n = nat (history_size self)
      in self\<lparr>bit_counts := mem_zero (bit_counts self) 0 n,
              binary_near_history := mem_zero (binary_near_history self) 0 (nat (near_history_size self)),
              mean_bit_counts := fold (\<lambda>i m. m[i := shl32 20 9]) [0..<n + 1] (mean_bit_counts self),
              histogram := fold (\<lambda>i h. h[i := 0]) [0..<n + 1] (histogram self),
              minimum_probability := kMaxBitCountsQ9,
              last_delay_probability := kMaxBitCountsQ9,
              last_delay := - 2,
              last_candidate_delay := - 2,
              compare_delay := history_size self,
              candidate_hits := 0,
              last_delay_histogram := 0\<rparr>)"

definition WebRtc_SoftResetBinaryDelayEstimator ::
    "BinaryDelayEstimator \<Rightarrow> int \<Rightarrow> BinaryDelayEstimator \<times> int" where
  "WebRtc_SoftResetBinaryDelayEstimator self delay_shift =
     (let lookahead0 = lookahead self;
          la = i32 (lookahead self - delay_shift);
          la = (if la < 0 then 0 else la);
          la = (if la > near_history_size self - 1 then near_history_size self - 1 else la)
      in (self\<lparr>lookahead := la\<rparr>, i32 (lookahead0 - la)))"

text \<open>The first stage of \<open>WebRtc_ProcessBinarySpectrum\<close>: lookahead and bit counts.\<close>

definition near_lookahead :: "BinaryDelayEstimator \<Rightarrow> int \<Rightarrow> BinaryDelayEstimator \<times> int" where
  "near_lookahead self binary_near_spectrum =
     (if near_history_size self > 1
      then (let h = mem_copy (binary_near_history self) 1
                      (mem_slice (binary_near_history self) 0 (nat (near_history_size self) - 1));
                h = h[0 := binary_near_spectrum]
            in (self\<lparr>binary_near_history := h\<rparr>, h ! nat (lookahead self)))
      else (self, binary_near_spectrum))"

definition mean_update :: "BinaryDelayEstimatorFarend \<Rightarrow> int list \<Rightarrow> nat \<Rightarrow> int list \<Rightarrow> int list" where
  "mean_update far counts i m =
     (let bit_count = shl32 (counts ! i) 9
      in if far_bit_counts far ! i > 0
         then (let shifts = i32 (kShiftsAtZero - shr (i32 (kShiftsLinearSlope * far_bit_counts far ! i)) 4)
               in m[i := WebRtc_MeanEstimatorFix bit_count shifts (m ! i)])
         else m)"

text \<open>The search: \<open>(candidate_delay, value_best_candidate, value_worst_candidate)\<close>.\<close>

definition candidate_step :: "int list \<Rightarrow> nat \<Rightarrow> int \<times> int \<times> int \<Rightarrow> int \<times> int \<times> int" where
  "candidate_step means i = (\<lambda>(cand, best, worst).
     (let (cand, best) = (if means ! i < best then (int i, means ! i) else (cand, best));
          worst = (if means ! i > worst then means ! i else worst)
      in (cand, best, worst)))"

definition find_candidate :: "int list \<Rightarrow> nat \<Rightarrow> int \<times> int \<times> int" where
  "find_candidate means n = fold (candidate_step means) [0..<n] (- 1, kMaxBitCountsQ9, 0)"

definition update_minimum_probability :: "int \<Rightarrow> int \<Rightarrow> int \<Rightarrow> int" where
  "update_minimum_probability minp best valley_depth =
     (if minp > kProbabilityLowerLimit \<and> valley_depth > kProbabilityMinSpread
      then (let threshold = i32 (best + kProbabilityOffset);
                threshold = (if threshold < kProbabilityLowerLimit then kProbabilityLowerLimit else threshold)
            in if minp > threshold then threshold else minp)
      else minp)"

definition accept_candidate :: "BinaryDelayEstimator \<Rightarrow> int \<Rightarrow> int \<Rightarrow> BinaryDelayEstimator" where
  "accept_candidate self candidate_delay best =
     (let self =
            (if candidate_delay \<noteq> last_delay self
             then
               (let hc = histogram self ! nat candidate_delay;
                    self = self\<lparr>last_delay_histogram := (if hc > kLastHistogramMax then kLastHistogramMax else hc)\<rparr>
                in if hc < histogram self ! nat (compare_delay self)
                   then self\<lparr>histogram := (histogram self)[nat (compare_delay self) := hc]\<rparr> else self)
             else self);
          self = self\<lparr>last_delay := candidate_delay\<rparr>;
          self = (if best < last_delay_probability self then self\<lparr>last_delay_probability := best\<rparr> else self)
      in self\<lparr>compare_delay := last_delay self\<rparr>)"

text \<open>
  The stages of \<open>WebRtc_ProcessBinarySpectrum\<close>: the means and the search, which give the
  estimator, the candidate, its value and the depth of the valley; then the decision.
\<close>

definition search_candidate ::
    "BinaryDelayEstimatorFarend \<Rightarrow> BinaryDelayEstimator \<Rightarrow> int \<Rightarrow> BinaryDelayEstimator \<times> int \<times> int \<times> int" where
  "search_candidate far self binary_near_spectrum =
     (let n = nat (history_size self);
          self = self\<lparr>bit_counts := BitCountComparison binary_near_spectrum (binary_far_history far) n (bit_counts self)\<rparr>;
          self = self\<lparr>mean_bit_counts := fold (mean_update far (bit_counts self)) [0..<n] (mean_bit_counts self)\<rparr>;
          (candidate_delay, value_best_candidate, value_worst_candidate) = find_candidate (mean_bit_counts self) n;
          valley_depth = i32 (value_worst_candidate - value_best_candidate)
      in (self, candidate_delay, value_best_candidate, valley_depth))"

definition decide_candidate :: "BinaryDelayEstimator \<Rightarrow> int \<Rightarrow> int \<Rightarrow> int \<Rightarrow> BinaryDelayEstimator" where
  "decide_candidate self candidate_delay value_best_candidate valley_depth =
     (let self = self\<lparr>minimum_probability :=
                   update_minimum_probability (minimum_probability self) value_best_candidate valley_depth\<rparr>;
          self = self\<lparr>last_delay_probability := i32 (last_delay_probability self + 1)\<rparr>;
          valid_candidate = c_bool (valley_depth > kProbabilityOffset \<and>
            (value_best_candidate < minimum_probability self \<or> value_best_candidate < last_delay_probability self));
          self = UpdateRobustValidationStatistics self candidate_delay valley_depth value_best_candidate;
          valid_candidate =
            (if robust_validation_enabled self \<noteq> 0
             then RobustValidation self candidate_delay valid_candidate (HistogramBasedValidation self candidate_delay)
             else valid_candidate)
      in if valid_candidate \<noteq> 0 then accept_candidate self candidate_delay value_best_candidate else self)"

definition WebRtc_ProcessBinarySpectrum ::
    "BinaryDelayEstimatorFarend \<Rightarrow> BinaryDelayEstimator \<Rightarrow> int \<Rightarrow> BinaryDelayEstimator \<times> int" where
  "WebRtc_ProcessBinarySpectrum far self binary_near_spectrum =
     (if farend_history_size far \<noteq> history_size self then (self, - 1)
      else
        (let (self, binary_near_spectrum) = near_lookahead self binary_near_spectrum;
             (self, candidate_delay, value_best_candidate, valley_depth) = search_candidate far self binary_near_spectrum;
             self = decide_candidate self candidate_delay value_best_candidate valley_depth
         in (self, last_delay self)))"

definition WebRtc_binary_last_delay :: "BinaryDelayEstimator \<Rightarrow> int" where
  "WebRtc_binary_last_delay self = last_delay self"

definition WebRtc_binary_last_delay_quality :: "BinaryDelayEstimator \<Rightarrow> rat" where
  "WebRtc_binary_last_delay_quality self =
     (if robust_validation_enabled self \<noteq> 0
      then f32 (histogram self ! nat (compare_delay self) / kHistogramMax)
      else (let quality = f32 (f32 (of_int (i32 (kMaxBitCountsQ9 - last_delay_probability self)))
                               / f32 (of_int kMaxBitCountsQ9))
            in if quality < 0 then 0 else quality))"

section \<open>Bit counting\<close>

text \<open>The reference: the number of one bits among the lowest \<open>n\<close>.\<close>

fun popcount :: "nat \<Rightarrow> int \<Rightarrow> int" where
  "popcount 0 u = 0"
| "popcount (Suc n) u = u mod 2 + popcount n (u div 2)"

lemma popcount_bounds: "0 \<le> popcount n u \<and> popcount n u \<le> int n"
proof (induction n arbitrary: u)
  case (Suc n)
  have "0 \<le> u mod 2" "u mod 2 \<le> 1" by simp_all
  then show ?case using Suc [of "u div 2"] by auto
qed simp

text \<open>Numbers written in base \<open>2 ^ k\<close>, one digit at a time.\<close>

lemma and_digits:
  fixes a m :: int
  assumes "0 \<le> d" "d < 2 ^ k" "0 \<le> e" "e < 2 ^ k"
  shows "(d + 2 ^ k * a) AND (e + 2 ^ k * m) = (d AND e) + 2 ^ k * (a AND m)"
proof -
  let ?x = "d + 2 ^ k * a" and ?y = "e + 2 ^ k * m"
  have "take_bit k ?x = d" "take_bit k ?y = e" "drop_bit k ?x = a" "drop_bit k ?y = m"
    using assms by (simp_all add: take_bit_eq_mod drop_bit_eq_div)
  then have "take_bit k (?x AND ?y) = (d AND e)" "drop_bit k (?x AND ?y) = (a AND m)"
    by simp_all
  moreover have "?x AND ?y = take_bit k (?x AND ?y) + 2 ^ k * drop_bit k (?x AND ?y)"
    by (simp add: take_bit_eq_mod drop_bit_eq_div)
  ultimately show ?thesis by simp
qed

fun digit_mask :: "nat \<Rightarrow> int \<Rightarrow> nat \<Rightarrow> int" where
  "digit_mask k d 0 = 0"
| "digit_mask k d (Suc n) = d + 2 ^ k * digit_mask k d n"

text \<open>The number whose octal digits are the bit counts of the octal digits of \<open>u\<close>.\<close>

fun octal_counts :: "nat \<Rightarrow> int \<Rightarrow> int" where
  "octal_counts 0 u = 0"
| "octal_counts (Suc n) u = popcount 3 (u mod 8) + 8 * octal_counts n (u div 8)"

lemma less_8_cases: "0 \<le> d \<Longrightarrow> d < 8 \<Longrightarrow> d = 0 \<or> d = 1 \<or> d = 2 \<or> d = 3 \<or> d = 4 \<or> d = 5 \<or> d = 6 \<or> (d::int) = 7"
  by linarith

lemma bit_count_octal:
  assumes "0 \<le> u" and "u < 8 ^ n"
  shows "u - (u div 2 AND digit_mask 3 3 n) - (u div 4 AND digit_mask 3 1 n) = octal_counts n u"
  using assms
proof (induction n arbitrary: u)
  case (Suc n)
  define d a where "d = u mod 8" and "a = u div 8"
  have u: "u = d + 8 * a" by (simp add: d_def a_def)
  have d: "0 \<le> d" "d < 8" by (simp_all add: d_def)
  have a: "0 \<le> a" "a < 8 ^ n" using Suc.prems by (auto simp: a_def intro!: div_less_mult)
  have "u div 2 = (4 * (a mod 2) + d div 2) + 8 * (a div 2)"
    unfolding u by presburger
  then have h: "u div 2 = (4 * (a mod 2) + d div 2) + 2 ^ 3 * (a div 2)" by simp
  have "u div 4 = (2 * (a mod 4) + d div 4) + 8 * (a div 4)"
    unfolding u by presburger
  then have q: "u div 4 = (2 * (a mod 4) + d div 4) + 2 ^ 3 * (a div 4)" by simp
  have "u div 2 AND digit_mask 3 3 (Suc n) = ((4 * (a mod 2) + d div 2) AND 3) + 2 ^ 3 * (a div 2 AND digit_mask 3 3 n)"
    unfolding h digit_mask.simps using d by (intro and_digits) auto
  moreover have "u div 4 AND digit_mask 3 1 (Suc n) = ((2 * (a mod 4) + d div 4) AND 1) + 2 ^ 3 * (a div 4 AND digit_mask 3 1 n)"
    unfolding q digit_mask.simps using d by (intro and_digits) auto
  moreover have "(4 * (a mod 2) + d div 2) AND 3 = d div 2"
    using and_digits [of "d div 2" 2 3 "a mod 2" 0] d less_8_cases [OF d] by (auto simp: add.commute)
  moreover have "(2 * (a mod 4) + d div 4) AND 1 = d div 4"
    using and_digits [of "d div 4" 1 1 "a mod 4" 0] d less_8_cases [OF d] by (auto simp: add.commute)
  moreover have "d - d div 2 - d div 4 = popcount 3 d"
    using less_8_cases [OF d] by (auto simp: numeral_3_eq_3)
  moreover have "octal_counts (Suc n) u = popcount 3 d + 8 * octal_counts n a"
    by (simp add: d_def a_def)
  ultimately show ?case
    using Suc.IH [OF a] u by simp
qed simp

lemma popcount_split: "popcount (m + n) u = popcount m (u mod 2 ^ m) + popcount n (u div 2 ^ m)"
proof (induction m arbitrary: u)
  case (Suc m)
  have "u mod 2 ^ Suc m mod 2 = u mod 2" by (simp add: mod_mod_cancel)
  moreover have "u mod 2 ^ Suc m div 2 = u div 2 mod 2 ^ m" by (simp add: mod_mult2_eq zmod_zmult2_eq)
  moreover have "u div 2 div 2 ^ m = u div 2 ^ Suc m" by (simp add: zdiv_zmult2_eq)
  ultimately show ?case using Suc [of "u div 2"] by simp
qed simp

text \<open>Second step: sums of neighbouring octal digits, in base 64.\<close>

fun pair_mask :: "nat \<Rightarrow> int" where
  "pair_mask 0 = 3"
| "pair_mask (Suc n) = 7 + 64 * pair_mask n"

fun sext_counts :: "nat \<Rightarrow> int \<Rightarrow> int" where
  "sext_counts 0 u = 0"
| "sext_counts (Suc n) u = popcount 6 (u mod 64) + 64 * sext_counts n (u div 64)"

lemma octal_counts_mod_8: "octal_counts n u mod 8 \<le> 3"
proof (cases n)
  case (Suc k)
  have "popcount 3 (u mod 8) mod 8 = popcount 3 (u mod 8)"
    using popcount_bounds [of 3 "u mod 8"] by (intro mod_pos_pos_trivial) auto
  then show ?thesis using popcount_bounds [of 3 "u mod 8"] Suc by simp
qed simp

lemma popcount_small: "0 \<le> u \<Longrightarrow> u < 4 \<Longrightarrow> popcount 6 u = popcount 2 u \<and> popcount 3 u = popcount 2 u \<and> popcount 2 u AND 3 = popcount 2 u"
proof -
  assume "0 \<le> u" "u < 4"
  then have "u = 0 \<or> u = 1 \<or> u = 2 \<or> u = 3" by linarith
  then show ?thesis by (auto simp: eval_nat_numeral)
qed

lemma pair_counts:
  assumes "0 \<le> u" and "u < 4 * 64 ^ n"
  shows "(octal_counts (2 * n + 1) u + octal_counts (2 * n + 1) u div 8) AND pair_mask n = sext_counts (n + 1) u"
  using assms
proof (induction n arbitrary: u)
  case 0
  then show ?case
    using popcount_small [of u] popcount_bounds [of 2 u] by simp
next
  case (Suc n)
  define p q X where "p = popcount 3 (u mod 8)" and "q = popcount 3 (u div 8 mod 8)"
    and "X = octal_counts (2 * n + 1) (u div 64)"
  have pq: "0 \<le> p" "p \<le> 3" "0 \<le> q" "q \<le> 3"
    using popcount_bounds [of 3 "u mod 8"] popcount_bounds [of 3 "u div 8 mod 8"]
    by (auto simp: p_def q_def)
  have X: "0 \<le> X mod 8" "X mod 8 \<le> 3" by (simp_all add: X_def octal_counts_mod_8 del: octal_counts.simps)
  have T: "octal_counts (2 * Suc n + 1) u = p + 8 * (q + 8 * X)"
    by (simp add: p_def q_def X_def zdiv_zmult2_eq [symmetric])
  have "(p + 8 * (q + 8 * X)) div 8 = q + 8 * X" using pq by simp
  moreover have "X = X mod 8 + 8 * (X div 8)" by simp
  moreover have eight: "(2::int) ^ 3 = 8" "(2::int) ^ 6 = 64" by simp_all
  ultimately have S: "octal_counts (2 * Suc n + 1) u + octal_counts (2 * Suc n + 1) u div 8
      = ((p + q) + 2 ^ 3 * (q + X mod 8)) + 2 ^ 6 * (X + X div 8)"
    unfolding T by (simp only: eight) presburger
  have mod64: "u mod 64 div 8 = u div 8 mod 8" using zmod_zmult2_eq [of 8 u 8] by simp
  have M: "pair_mask (Suc n) = 7 + 2 ^ 6 * pair_mask n" by simp
  have "(octal_counts (2 * Suc n + 1) u + octal_counts (2 * Suc n + 1) u div 8) AND pair_mask (Suc n)
      = (((p + q) + 2 ^ 3 * (q + X mod 8)) AND 7) + 2 ^ 6 * ((X + X div 8) AND pair_mask n)"
    unfolding S M using pq X by (intro and_digits) auto
  also have "((p + q) + 2 ^ 3 * (q + X mod 8)) AND 7 = (p + q) AND 7"
    using and_digits [of "p + q" 3 7 "q + X mod 8" 0] pq by simp
  also have "(p + q) AND 7 = p + q"
    using pq take_bit_eq_mask [of 3 "p + q"] by (simp add: mask_eq_exp_minus_1 take_bit_eq_mod)
  also have "p + q = popcount 6 (u mod 64)"
    using popcount_split [of 3 3 "u mod 64"]     by (simp add: p_def q_def mod_mod_cancel mod64)
  also have "(X + X div 8) AND pair_mask n = sext_counts (n + 1) (u div 64)"
    unfolding X_def using Suc.prems by (intro Suc.IH) (auto simp: pos_imp_zdiv_nonneg_iff intro!: div_less_mult)
  finally show ?case by simp
qed

lemma and_63: "x AND 63 = x mod 64" for x :: int
  using take_bit_eq_mask [of 6 x]
  by (simp add: mask_eq_exp_minus_1 take_bit_eq_mod)

text \<open>The last two steps add the six base-64 digits.\<close>

lemma sext_sum:
  assumes "0 \<le> s0" "s0 \<le> 6" "0 \<le> s1" "s1 \<le> 6" "0 \<le> s2" "s2 \<le> 6"
    "0 \<le> s3" "s3 \<le> 6" "0 \<le> s4" "s4 \<le> 6" "0 \<le> s5" "s5 \<le> 2"
  defines "s \<equiv> s0 + 64 * (s1 + 64 * (s2 + 64 * (s3 + 64 * (s4 + 64 * (s5::int)))))"
  defines "t \<equiv> s + s div 64"
  shows "0 \<le> s" "s < 2415919104" "0 \<le> t" "t < 2453667840"
    "(t + t div 4096 + t div 16777216) AND 63 = s0 + s1 + s2 + s3 + s4 + s5"
    "0 \<le> t + t div 4096 + t div 16777216" "t + t div 4096 + t div 16777216 < 4294967296"
proof -
  have s64: "s div 64 = s1 + 64 * (s2 + 64 * (s3 + 64 * (s4 + 64 * s5)))"
    using assms(1,2) by (simp add: s_def)
  have t: "t = (s0 + s1) + 64 * ((s1 + s2) + 64 * ((s2 + s3) + 64 * ((s3 + s4) + 64 * ((s4 + s5) + 64 * s5))))"
    unfolding t_def s64 by (simp add: s_def)
  show b: "0 \<le> s" "s < 2415919104" "0 \<le> t" "t < 2453667840"
    using assms(1-12) unfolding t by (simp_all add: s_def)
  have div4: "(x + 4096 * y) div 4096 = y" if "0 \<le> x" "x < 4096" for x y :: int
    using that by simp
  have div24: "(x + 16777216 * y) div 16777216 = y" if "0 \<le> x" "x < 16777216" for x y :: int
    using that by simp
  have T1: "t = ((s0 + s1) + 64 * (s1 + s2)) + 4096 * ((s2 + s3) + 64 * ((s3 + s4) + 64 * ((s4 + s5) + 64 * s5)))"
    unfolding t by simp
  have e1: "t div 4096 = (s2 + s3) + 64 * ((s3 + s4) + 64 * ((s4 + s5) + 64 * s5))"
    unfolding T1 by (rule div4) (use assms(1-12) in simp_all)
  have T2: "t = ((s0 + s1) + 64 * ((s1 + s2) + 64 * ((s2 + s3) + 64 * (s3 + s4)))) + 16777216 * ((s4 + s5) + 64 * s5)"
    unfolding t by simp
  have e2: "t div 16777216 = (s4 + s5) + 64 * s5"
    unfolding T2 by (rule div24) (use assms(1-12) in simp_all)
  note e = e1 e2
  have mod6: "(x + 64 * y) mod 64 = x" if "0 \<le> x" "x < 64" for x y :: int
    using that by simp
  have T3: "t + t div 4096 + t div 16777216 = (s0 + s1 + s2 + s3 + s4 + s5) +
      64 * ((s1 + s2) + 64 * ((s2 + s3) + 64 * ((s3 + s4) + 64 * ((s4 + s5) + 64 * s5))) +
            (s3 + s4) + 64 * ((s4 + s5) + 64 * s5) + s5)"
    unfolding e unfolding t by simp
  show "(t + t div 4096 + t div 16777216) AND 63 = s0 + s1 + s2 + s3 + s4 + s5"
    unfolding and_63 T3 by (rule mod6) (use assms(1-12) in simp_all)
  show "0 \<le> t + t div 4096 + t div 16777216" "t + t div 4096 + t div 16777216 < 4294967296"
    using b assms(1-12) unfolding e by simp_all
qed

lemma octal_counts_bounds: "0 \<le> octal_counts n u \<and> octal_counts n u \<le> 3 * digit_mask 3 1 n"
proof (induction n arbitrary: u)
  case (Suc n)
  have "0 \<le> octal_counts n (u div 8)" "octal_counts n (u div 8) \<le> 3 * digit_mask 3 1 n"
    using Suc.IH by blast+
  then show ?case using popcount_bounds [of 3 "u mod 8"] by simp
qed simp

lemma bit_count_steps:
  assumes "in_u32 v"
  shows "u32 (v - (shr v 1 AND 0xDB6DB6DB) - (shr v 2 AND 0x49249249)) = octal_counts 11 v"
    and "u32 (octal_counts 11 v + shr (octal_counts 11 v) 3) AND 0xC71C71C7 = sext_counts 6 v"
proof -
  have v: "0 \<le> v" "v < 8 ^ 11" "v < 4 * 64 ^ 5" using assms by (auto simp: in_u32_def)
  have m: "digit_mask 3 3 11 = 0xDB6DB6DB" "digit_mask 3 1 11 = 0x49249249" "pair_mask 5 = 0xC71C71C7"
    by (simp_all add: eval_nat_numeral)
  note b = octal_counts_bounds [of 11 v, unfolded m]
  have "v - (shr v 1 AND 0xDB6DB6DB) - (shr v 2 AND 0x49249249) = octal_counts 11 v"
    using bit_count_octal [OF v(1,2)] by (simp add: m shr_def)
  then show "u32 (v - (shr v 1 AND 0xDB6DB6DB) - (shr v 2 AND 0x49249249)) = octal_counts 11 v"
    using b by (simp add: u32_id in_u32_def)
  have s: "shr (octal_counts 11 v) 3 = octal_counts 11 v div 8" by (simp add: shr_def)
  have "octal_counts 11 v div 8 \<le> 3 * 0x49249249 div 8" "0 \<le> octal_counts 11 v div 8"
    using b by (auto intro: zdiv_mono1 simp: pos_imp_zdiv_nonneg_iff)
  then have "in_u32 (octal_counts 11 v + octal_counts 11 v div 8)"
    using b by (simp add: in_u32_def)
  then show "u32 (octal_counts 11 v + shr (octal_counts 11 v) 3) AND 0xC71C71C7 = sext_counts 6 v"
    using pair_counts [OF v(1,3)] unfolding s m(3) [symmetric] by (simp add: u32_id)
qed

lemma BitCount_popcount:
  assumes "in_u32 v"
  shows "BitCount v = popcount 32 v"
proof -
  define d where "d i = popcount 6 (v div 64 ^ i mod 64)" for i
  have v: "0 \<le> v div 64 ^ 5" "v div 64 ^ 5 < 4"
    using assms by (auto simp: in_u32_def pos_imp_zdiv_nonneg_iff intro!: div_less_mult)
  have d: "0 \<le> d i" "d i \<le> 6" for i using popcount_bounds [of 6] by (simp_all add: d_def)
  have d5: "d 5 = popcount 2 (v div 64 ^ 5)"
    using v popcount_small [OF v] by (simp add: d_def)
  have s: "sext_counts 6 v = d 0 + 64 * (d 1 + 64 * (d 2 + 64 * (d 3 + 64 * (d 4 + 64 * d 5))))"
    by (simp add: eval_nat_numeral d_def zdiv_zmult2_eq [symmetric])
  have d52: "d 5 \<le> 2" using d5 popcount_bounds [of 2] by simp
  note sums = sext_sum [of "d 0" "d 1" "d 2" "d 3" "d 4" "d 5",
      OF d d d d d d(1) d52, folded s]
  have b: "0 \<le> sext_counts 6 v" "sext_counts 6 v < 2415919104" "0 \<le> sext_counts 6 v + sext_counts 6 v div 64"
    "sext_counts 6 v + sext_counts 6 v div 64 < 2453667840"
    by (fact sums)+
  have t3: "u32 (sext_counts 6 v + shr (sext_counts 6 v) 6) = sext_counts 6 v + sext_counts 6 v div 64"
    using b by (simp add: u32_id in_u32_def shr_def)
  define t where "t = sext_counts 6 v + sext_counts 6 v div 64"
  have f: "(t + t div 4096 + t div 16777216) AND 63 = d 0 + d 1 + d 2 + d 3 + d 4 + d 5"
    "0 \<le> t + t div 4096 + t div 16777216" "t + t div 4096 + t div 16777216 < 4294967296"
    unfolding t_def by (fact sums)+
  have t4: "u32 (t + shr t 12 + shr t 24) AND 63 = d 0 + d 1 + d 2 + d 3 + d 4 + d 5"
    using f by (simp add: u32_id in_u32_def shr_def)
  have r: "BitCount v = i32 (u32 (t + shr t 12 + shr t 24) AND 63)"
    unfolding BitCount_def Let_def bit_count_steps [OF assms] t3 t_def ..
  have "BitCount v = d 0 + d 1 + d 2 + d 3 + d 4 + d 5"
    unfolding r t4 using d(1,2) [of 0] d(1,2) [of 1] d(1,2) [of 2] d(1,2) [of 3] d(1,2) [of 4] d(1,2) [of 5] by (intro i32_id_nonneg) linarith+
  also have "\<dots> = popcount (6 + (6 + (6 + (6 + (6 + 2))))) v"
    unfolding popcount_split d5 by (simp add: d_def zdiv_zmult2_eq [symmetric])
  finally show ?thesis by simp
qed

section \<open>The invariant of the estimator\<close>

definition farend_ok :: "BinaryDelayEstimatorFarend \<Rightarrow> bool" where
  "farend_ok far \<longleftrightarrow>
     0 < farend_history_size far \<and>
     length (binary_far_history far) = nat (farend_history_size far) \<and>
     length (far_bit_counts far) = nat (farend_history_size far) \<and>
     list_all in_u32 (binary_far_history far) \<and>
     list_all (\<lambda>c. 0 \<le> c \<and> c \<le> 32) (far_bit_counts far)"

definition estimator_ok :: "BinaryDelayEstimator \<Rightarrow> bool" where
  "estimator_ok self \<longleftrightarrow>
     0 < history_size self \<and>
     length (mean_bit_counts self) = nat (history_size self) + 1 \<and>
     length (bit_counts self) = nat (history_size self) \<and>
     length (histogram self) = nat (history_size self) + 1 \<and>
     length (binary_near_history self) = nat (near_history_size self) \<and>
     0 \<le> lookahead self \<and> lookahead self < near_history_size self \<and>
     list_all in_u32 (binary_near_history self) \<and>
     list_all (\<lambda>m. 0 \<le> m \<and> m < 16384) (mean_bit_counts self) \<and>
     list_all (\<lambda>h. 0 \<le> h) (histogram self) \<and>
     (last_delay self = - 2 \<or> 0 \<le> last_delay self \<and> last_delay self < history_size self) \<and>
     0 \<le> compare_delay self \<and> compare_delay self \<le> history_size self \<and>
     8704 \<le> minimum_probability self \<and> minimum_probability self \<le> 16384"

lemma kMaxBitCountsQ9_eq [simp]: "kMaxBitCountsQ9 = 16384"
  by (simp add: kMaxBitCountsQ9_def shl32_def i32_def)

lemma in_u32_xor: "in_u32 x \<Longrightarrow> in_u32 y \<Longrightarrow> in_u32 (x XOR y)"
  using XOR_upper [of x 32 y] by (simp add: in_u32_def)

lemma BitCount_bounds: "in_u32 v \<Longrightarrow> 0 \<le> BitCount v \<and> BitCount v \<le> 32"
  using popcount_bounds [of 32 v] by (simp add: BitCount_popcount)

text \<open>Loops that update one cell per turn.\<close>

lemma length_fold_update [simp]: "length (fold (\<lambda>n c. c[n := f n c]) ns xs) = length xs"
  by (induction ns arbitrary: xs) simp_all

lemma fold_update_prefix:
  assumes "n \<le> length xs"
  shows "fold (\<lambda>i c. c[i := f i (c ! i)]) [0..<n] xs = map (\<lambda>i. f i (xs ! i)) [0..<n] @ drop n xs"
  using assms
proof (induction n)
  case (Suc n)
  then have "fold (\<lambda>i c. c[i := f i (c ! i)]) [0..<n] xs = map (\<lambda>i. f i (xs ! i)) [0..<n] @ drop n xs" by simp
  moreover have "drop n xs = xs ! n # drop (Suc n) xs" using Suc.prems by (simp add: Cons_nth_drop_Suc)
  ultimately show ?case by (simp add: list_update_append nth_append)
qed simp

lemma BitCountComparison_eq:
  assumes "length counts = n"
  shows "BitCountComparison v m n counts = map (\<lambda>i. BitCount (v XOR m ! i)) [0..<n]"
  using fold_update_prefix [of n counts "\<lambda>i _. BitCount (v XOR m ! i)"] assms
  by (simp add: BitCountComparison_def)

section \<open>The recursive mean\<close>

lemma shr_strict: "0 < x \<Longrightarrow> 0 < k \<Longrightarrow> shr x k < x"
proof -
  assume "0 < x" "0 < k"
  have "(2::int) ^ 1 \<le> 2 ^ nat k" using \<open>0 < k\<close> by (intro power_increasing) auto
  then have "x div 2 ^ nat k \<le> x div 2" using \<open>0 < x\<close> by (intro zdiv_mono2) auto
  also have "\<dots> < x" using \<open>0 < x\<close> by simp
  finally show ?thesis by (simp add: shr_def)
qed

lemma MeanEstimatorFix_eq:
  assumes "\<bar>new_value\<bar> < 1073741824" and "\<bar>mean_value\<bar> < 1073741824"
  shows "WebRtc_MeanEstimatorFix new_value factor mean_value =
    (if new_value < mean_value then mean_value - shr (mean_value - new_value) factor
     else mean_value + shr (new_value - mean_value) factor)"
proof -
  have "in_i32 (new_value - mean_value)" "in_i32 (mean_value - new_value)"
    using assms by (auto simp: in_i32_def abs_less_iff)
  moreover have "new_value < mean_value \<Longrightarrow> 0 \<le> shr (mean_value - new_value) factor \<and> shr (mean_value - new_value) factor \<le> mean_value - new_value"
    using shr_nonneg [of "mean_value - new_value" factor] shr_le [of "mean_value - new_value" factor] by auto
  moreover have "\<not> new_value < mean_value \<Longrightarrow> 0 \<le> shr (new_value - mean_value) factor \<and> shr (new_value - mean_value) factor \<le> new_value - mean_value"
    using shr_nonneg [of "new_value - mean_value" factor] shr_le [of "new_value - mean_value" factor] by auto
  ultimately show ?thesis using assms
    by (auto simp: WebRtc_MeanEstimatorFix_def Let_def i32_id in_i32_def abs_less_iff)
qed

lemma MeanEstimatorFix_between:
  assumes "\<bar>new_value\<bar> < 1073741824" and "\<bar>mean_value\<bar> < 1073741824"
  shows "min new_value mean_value \<le> WebRtc_MeanEstimatorFix new_value factor mean_value
    \<and> WebRtc_MeanEstimatorFix new_value factor mean_value \<le> max new_value mean_value"
  using shr_nonneg [of "mean_value - new_value" factor] shr_le [of "mean_value - new_value" factor]
    shr_nonneg [of "new_value - mean_value" factor] shr_le [of "new_value - mean_value" factor]
  by (auto simp: MeanEstimatorFix_eq [OF assms])

lemma MeanEstimatorFix_below:
  assumes "0 \<le> mean_value" "mean_value < 16384" "0 \<le> new_value" "new_value \<le> 16384" "0 < factor"
  shows "0 \<le> WebRtc_MeanEstimatorFix new_value factor mean_value
    \<and> WebRtc_MeanEstimatorFix new_value factor mean_value < 16384"
proof -
  have "WebRtc_MeanEstimatorFix new_value factor mean_value < 16384" if "\<not> new_value < mean_value"
  proof (cases "new_value = mean_value")
    case False
    then have "shr (new_value - mean_value) factor < new_value - mean_value"
      using that assms by (intro shr_strict) auto
    then show ?thesis using assms that by (simp add: MeanEstimatorFix_eq)
  qed (use assms in \<open>simp add: MeanEstimatorFix_eq shr_def\<close>)
  then show ?thesis
    using MeanEstimatorFix_between [of new_value mean_value factor] assms
    by (cases "new_value < mean_value") auto
qed

definition shift_factor :: "int \<Rightarrow> int" where
  "shift_factor c = i32 (kShiftsAtZero - shr (i32 (kShiftsLinearSlope * c)) 4)"

lemma shift_factor_bounds: "0 \<le> c \<Longrightarrow> c \<le> 32 \<Longrightarrow> 7 \<le> shift_factor c \<and> shift_factor c \<le> 13"
proof -
  assume c: "0 \<le> c" "c \<le> 32"
  then have "0 \<le> 3 * c div 16" "3 * c div 16 \<le> 6" by auto
  moreover have "i32 (3 * c) = 3 * c" using c by (intro i32_id_nonneg) auto
  ultimately show ?thesis
    by (simp add: shift_factor_def kShiftsAtZero_def kShiftsLinearSlope_def shr_def i32_id in_i32_def)
qed

lemma mean_update_loop:
  assumes "n \<le> length m"
  shows "fold (mean_update far counts) [0..<n] m =
    map (\<lambda>i. if far_bit_counts far ! i > 0
             then WebRtc_MeanEstimatorFix (shl32 (counts ! i) 9) (shift_factor (far_bit_counts far ! i)) (m ! i)
             else m ! i) [0..<n] @ drop n m"
proof -
  have "mean_update far counts = (\<lambda>i c. c[i := (if far_bit_counts far ! i > 0
             then WebRtc_MeanEstimatorFix (shl32 (counts ! i) 9) (shift_factor (far_bit_counts far ! i)) (c ! i)
             else c ! i)])"
    by (intro ext) (simp add: mean_update_def Let_def shift_factor_def)
  then show ?thesis
    using fold_update_prefix [OF assms, of "\<lambda>i v. if far_bit_counts far ! i > 0
             then WebRtc_MeanEstimatorFix (shl32 (counts ! i) 9) (shift_factor (far_bit_counts far ! i)) v
             else v"] by simp
qed

section \<open>The search for a candidate\<close>

text \<open>After \<open>n\<close> means: the first smallest mean below the start value, and the largest one.\<close>

lemma find_candidate_invariant:
  assumes "\<forall>i < n. 0 \<le> means ! i \<and> means ! i < 16384"
  shows "\<exists>cand best worst. find_candidate means n = (cand, best, worst) \<and>
    (if n = 0 then cand = - 1 \<and> best = 16384 \<and> worst = 0
     else 0 \<le> cand \<and> cand < int n \<and> best = means ! nat cand \<and>
       (\<forall>i < n. means ! nat cand \<le> means ! i \<and> means ! i \<le> worst) \<and>
       (\<forall>i < nat cand. means ! nat cand < means ! i) \<and> (worst = 0 \<or> (\<exists>i < n. worst = means ! i)))"
  using assms
proof (induction n)
  case 0
  then show ?case by (simp add: find_candidate_def)
next
  case (Suc n)
  then obtain cand best worst where IH: "find_candidate means n = (cand, best, worst)"
    "if n = 0 then cand = - 1 \<and> best = 16384 \<and> worst = 0
     else 0 \<le> cand \<and> cand < int n \<and> best = means ! nat cand \<and>
       (\<forall>i < n. means ! nat cand \<le> means ! i \<and> means ! i \<le> worst) \<and>
       (\<forall>i < nat cand. means ! nat cand < means ! i) \<and> (worst = 0 \<or> (\<exists>i < n. worst = means ! i))"
    by auto
  have step: "find_candidate means (Suc n) = candidate_step means n (cand, best, worst)"
    using IH(1) by (simp add: find_candidate_def)
  have b: "0 \<le> means ! n" "means ! n < 16384" using Suc.prems by auto
  show ?case
  proof (cases "n = 0")
    case True
    then show ?thesis using b IH(2) step by (auto simp: candidate_step_def)
  next
    case False
    then show ?thesis using b IH(2)
      by (auto simp: step candidate_step_def less_Suc_eq split: if_splits)
  qed
qed


lemma find_candidate_first_min:
  assumes "\<forall>i < n. 0 \<le> means ! i \<and> means ! i < 16384" and "0 < n"
  obtains cand worst where "find_candidate means n = (cand, means ! nat cand, worst)"
    "0 \<le> cand" "cand < int n" "\<forall>i < n. means ! nat cand \<le> means ! i" "\<forall>i < nat cand. means ! nat cand < means ! i"
    "means ! nat cand \<le> worst" "worst < 16384"
proof -
  obtain cand best worst where f: "find_candidate means n = (cand, best, worst)"
    "0 \<le> cand" "cand < int n" "best = means ! nat cand"
    "\<forall>i < n. means ! nat cand \<le> means ! i \<and> means ! i \<le> worst"
    "\<forall>i < nat cand. means ! nat cand < means ! i" "worst = 0 \<or> (\<exists>i < n. worst = means ! i)"
    using find_candidate_invariant [OF assms(1)] assms(2) by auto
  have "means ! nat cand \<le> worst" "worst < 16384" using f assms by auto
  then show ?thesis using that f by blast
qed

lemma update_minimum_probability_bounds:
  assumes "8704 \<le> minp" "minp \<le> 16384"
  shows "8704 \<le> update_minimum_probability minp best valley \<and> update_minimum_probability minp best valley \<le> minp"
  using assms by (auto simp: update_minimum_probability_def Let_def kProbabilityLowerLimit_def)

section \<open>One block of the estimator\<close>

text \<open>The far end: the history shifts by one.\<close>

lemma shift_by_one:
  assumes "length h = nat n" "0 < n"
  shows "(mem_copy h 1 (mem_slice h 0 (nat n - 1)))[0 := x] = push_front x h"
proof -
  have "length (mem_copy h 1 (mem_slice h 0 (nat n - 1))) = length h"
    using assms by (intro length_mem_copy) simp
  moreover have "h \<noteq> []" using assms by auto
  ultimately show ?thesis using assms
    by (intro nth_equalityI) (auto simp: nth_list_update nth_mem_copy nth_mem_slice nth_push_front)
qed

lemma list_all_push_front: "list_all P xs \<Longrightarrow> P x \<Longrightarrow> list_all P (push_front x xs)"
  using set_push_front [of x xs] by (auto simp: list_all_iff)

lemma AddBinaryFarSpectrum_eq:
  assumes "farend_ok far"
  shows "WebRtc_AddBinaryFarSpectrum far x =
    far\<lparr>binary_far_history := push_front x (binary_far_history far),
        far_bit_counts := push_front (BitCount x) (far_bit_counts far)\<rparr>"
  using assms by (simp add: WebRtc_AddBinaryFarSpectrum_def Let_def farend_ok_def shift_by_one del: One_nat_def)

lemma AddBinaryFarSpectrum_ok:
  assumes "farend_ok far" "in_u32 x"
  shows "farend_ok (WebRtc_AddBinaryFarSpectrum far x)"
proof -
  have "binary_far_history far \<noteq> []" "far_bit_counts far \<noteq> []"
    using assms(1) by (auto simp: farend_ok_def)
  then show ?thesis
    using assms BitCount_bounds [of x]
    by (auto simp: AddBinaryFarSpectrum_eq farend_ok_def intro!: list_all_push_front)
qed

lemma near_lookahead_ok:
  assumes "estimator_ok self" "in_u32 x" "near_lookahead self x = (self', v)"
  shows "estimator_ok self' \<and> in_u32 v \<and> self' = self\<lparr>binary_near_history := binary_near_history self'\<rparr>"
proof (cases "near_history_size self > 1")
  case True
  let ?h = "push_front x (binary_near_history self)"
  have e: "self' = self\<lparr>binary_near_history := ?h\<rparr>" "v = ?h ! nat (lookahead self)"
    using assms True by (auto simp: near_lookahead_def Let_def shift_by_one estimator_ok_def simp del: One_nat_def)
  have l: "length ?h = nat (near_history_size self)"
    using assms(1) True by (subst length_push_front) (auto simp: estimator_ok_def)
  have u: "list_all in_u32 ?h"
    using assms by (intro list_all_push_front) (auto simp: estimator_ok_def)
  have "nat (lookahead self) < length ?h" using l assms(1) by (auto simp: estimator_ok_def)
  then have "in_u32 v" using u by (simp add: e list_all_length)
  then show ?thesis using assms(1) l u by (simp add: e estimator_ok_def)
next
  case False
  then show ?thesis using assms by (simp add: near_lookahead_def)
qed


lemma histogram_decay_nonneg: "0 \<le> histogram_decay l c d v i h"
  by (simp add: histogram_decay_def Let_def)

lemma histogram_loop:
  assumes "n \<le> length h"
  shows "fold (\<lambda>i h. h[i := histogram_decay l c d v i (h ! i)]) [0..<n] h =
    map (\<lambda>i. histogram_decay l c d v i (h ! i)) [0..<n] @ drop n h"
  by (rule fold_update_prefix [OF assms])

lemma list_all_drop: "list_all P xs \<Longrightarrow> list_all P (drop n xs)"
  using set_drop_subset [of n xs] by (auto simp: list_all_iff)

text \<open>The statistics touch only the hit counter, the last candidate and the histogram.\<close>

lemma UpdateRobust_eq:
  defines "hits self cand \<equiv> i32 ((if cand \<noteq> last_candidate_delay self then 0 else candidate_hits self) + 1)"
    and "limit self cand \<equiv> if cand < last_delay self then kMaxHitsWhenPossiblyNonCausal else kMaxHitsWhenPossiblyCausal"
    and "depth valley \<equiv> f32 (f32 (of_int valley) * kQ14Scaling)"
    and "last_decrease self level \<equiv>
      f32 (f32 (of_int (i32 (mean_bit_counts self ! nat (compare_delay self) - level))) * kQ14Scaling)"
  shows "UpdateRobustValidationStatistics self cand valley level =
     self\<lparr>candidate_hits := hits self cand, last_candidate_delay := cand,
          histogram := fold (\<lambda>i h. h[i := histogram_decay (last_delay self) cand
              (if hits self cand < limit self cand then last_decrease self level else depth valley) (depth valley) i (h ! i)])
            [0..<nat (history_size self)]
            ((histogram self)[nat cand := min kHistogramMax (f32 (histogram self ! nat cand + depth valley))])\<rparr>"
  by (cases "cand = last_candidate_delay self")
    (simp_all add: UpdateRobustValidationStatistics_def Let_def assms min_def not_less [symmetric])

lemma kHistogramMax_nonneg [simp]: "0 \<le> kHistogramMax" "0 \<le> kQ14Scaling"
  by (simp_all add: kHistogramMax_def kQ14Scaling_def)

lemma UpdateRobust_ok:
  assumes "estimator_ok self" "0 \<le> valley" "0 \<le> cand" "cand < history_size self"
  shows "\<exists>hits hist. UpdateRobustValidationStatistics self cand valley level =
      self\<lparr>candidate_hits := hits, last_candidate_delay := cand, histogram := hist\<rparr>
    \<and> length hist = nat (history_size self) + 1 \<and> list_all (\<lambda>h. 0 \<le> h) hist"
proof -
  define hist where "hist = (histogram self)[nat cand :=
     min kHistogramMax (f32 (histogram self ! nat cand + f32 (f32 (of_int valley) * kQ14Scaling)))]"
  have h: "length (histogram self) = nat (history_size self) + 1" "list_all (\<lambda>h. 0 \<le> h) (histogram self)"
    using assms(1) by (simp_all add: estimator_ok_def)
  then have "0 \<le> histogram self ! nat cand" using assms by (simp add: list_all_length)
  then have l: "length hist = nat (history_size self) + 1" "list_all (\<lambda>h. 0 \<le> h) hist"
    using h assms by (auto simp: hist_def intro!: list_all_update f32_nonneg add_nonneg_nonneg mult_nonneg_nonneg)
  have "length (fold (\<lambda>i h. h[i := histogram_decay l c d v i (h ! i)]) [0..<nat (history_size self)] hist) = nat (history_size self) + 1 \<and>
    list_all (\<lambda>h. 0 \<le> h) (fold (\<lambda>i h. h[i := histogram_decay l c d v i (h ! i)]) [0..<nat (history_size self)] hist)" for l c d v
    using l by (simp add: histogram_loop histogram_decay_nonneg list_all_drop list_all_iff [of _ "map _ _"])
  then show ?thesis unfolding UpdateRobust_eq hist_def by blast
qed

lemma accept_candidate_ok:
  assumes "estimator_ok self" "0 \<le> cand" "cand < history_size self"
  shows "estimator_ok (accept_candidate self cand best) \<and> last_delay (accept_candidate self cand best) = cand
    \<and> minimum_probability (accept_candidate self cand best) = minimum_probability self
    \<and> history_size (accept_candidate self cand best) = history_size self
    \<and> mean_bit_counts (accept_candidate self cand best) = mean_bit_counts self"
proof -
  have "0 \<le> histogram self ! nat cand" using assms by (simp add: list_all_length estimator_ok_def)
  then show ?thesis using assms
    by (auto simp: accept_candidate_def Let_def estimator_ok_def list_all_update)
qed

text \<open>The means after a block, and the choice of the next delay.\<close>

definition next_means :: "BinaryDelayEstimatorFarend \<Rightarrow> BinaryDelayEstimator \<Rightarrow> int \<Rightarrow> int list" where
  "next_means far self v =
     fold (mean_update far (BitCountComparison v (binary_far_history far) (nat (history_size self)) (bit_counts self)))
       [0..<nat (history_size self)] (mean_bit_counts self)"

lemma next_means_ok:
  assumes "farend_ok far" "estimator_ok self" "farend_history_size far = history_size self" "in_u32 v"
  shows "length (next_means far self v) = nat (history_size self) + 1"
    "list_all (\<lambda>m. 0 \<le> m \<and> m < 16384) (next_means far self v)"
proof -
  let ?n = "nat (history_size self)" and ?m = "mean_bit_counts self"
  let ?c = "\<lambda>i. BitCount (v XOR binary_far_history far ! i)"
  have l: "length ?m = ?n + 1" "length (bit_counts self) = ?n" and m: "list_all (\<lambda>m. 0 \<le> m \<and> m < 16384) ?m"
    using assms(2) by (simp_all add: estimator_ok_def)
  have e: "next_means far self v = map (\<lambda>i. if far_bit_counts far ! i > 0
             then WebRtc_MeanEstimatorFix (shl32 (?c i) 9) (shift_factor (far_bit_counts far ! i)) (?m ! i)
             else ?m ! i) [0..<?n] @ drop ?n ?m"
    unfolding next_means_def using l
    by (simp add: mean_update_loop BitCountComparison_eq cong: if_cong map_cong)
  then show "length (next_means far self v) = ?n + 1" using l by simp
  have "0 \<le> WebRtc_MeanEstimatorFix (shl32 (?c i) 9) (shift_factor (far_bit_counts far ! i)) (?m ! i)
     \<and> WebRtc_MeanEstimatorFix (shl32 (?c i) 9) (shift_factor (far_bit_counts far ! i)) (?m ! i) < 16384" if "i < ?n" for i
  proof -
    have f: "in_u32 (binary_far_history far ! i)" "0 \<le> far_bit_counts far ! i" "far_bit_counts far ! i \<le> 32"
      using assms(1,3) that by (simp_all add: farend_ok_def list_all_length)
    have c: "0 \<le> ?c i" "?c i \<le> 32" using BitCount_bounds [OF in_u32_xor [OF assms(4) f(1)]] by auto
    have "shl32 (?c i) 9 = ?c i * 512" using c by (simp add: shl32_def i32_id_nonneg)
    moreover have "0 \<le> ?m ! i" "?m ! i < 16384" using m that l by (simp_all add: list_all_length)
    ultimately show ?thesis
      using c shift_factor_bounds [OF f(2,3)] by (intro MeanEstimatorFix_below) auto
  qed
  moreover have "list_all (\<lambda>m. 0 \<le> m \<and> m < 16384) (drop ?n ?m)" using m by (rule list_all_drop)
  moreover have "0 \<le> ?m ! i \<and> ?m ! i < 16384" if "i < ?n" for i using m that l by (simp add: list_all_length)
  ultimately show "list_all (\<lambda>m. 0 \<le> m \<and> m < 16384) (next_means far self v)"
    unfolding e by (auto simp: list_all_iff [of _ "map _ _"])
qed


lemma valley_depth_eq: "0 \<le> best \<Longrightarrow> best \<le> worst \<Longrightarrow> worst < 16384 \<Longrightarrow> i32 (worst - best) = worst - best"
  by (simp add: i32_id_nonneg)

lemma search_candidate_ok:
  assumes "farend_ok far" "estimator_ok self" "farend_history_size far = history_size self" "in_u32 v"
    and "search_candidate far self v = (self', cand, best, valley)"
  shows "estimator_ok self' \<and> history_size self' = history_size self \<and> last_delay self' = last_delay self \<and>
    minimum_probability self' = minimum_probability self \<and> 0 \<le> cand \<and> cand < history_size self \<and> 0 \<le> valley \<and>
    (\<forall>i < nat (history_size self). mean_bit_counts self' ! nat cand \<le> mean_bit_counts self' ! i) \<and>
    (\<forall>i < nat cand. mean_bit_counts self' ! nat cand < mean_bit_counts self' ! i)"
proof -
  let ?n = "nat (history_size self)"
  define counts where "counts = BitCountComparison v (binary_far_history far) ?n (bit_counts self)"
  define m where "m = next_means far self v"
  have m: "length m = ?n + 1" "list_all (\<lambda>m. 0 \<le> m \<and> m < 16384) m"
    using next_means_ok [OF assms(1-4)] by (simp_all add: m_def)
  have n: "0 < ?n" using assms(2) by (simp add: estimator_ok_def)
  moreover have "\<forall>i < ?n. 0 \<le> m ! i \<and> m ! i < 16384" using m by (simp add: list_all_length)
  ultimately obtain c worst where c: "find_candidate m ?n = (c, m ! nat c, worst)"
    "0 \<le> c" "c < int ?n" "\<forall>i < ?n. m ! nat c \<le> m ! i" "\<forall>i < nat c. m ! nat c < m ! i"
    "m ! nat c \<le> worst" "worst < 16384"
    by (elim find_candidate_first_min)
  have "nat c < length m" using m(1) c(2,3) by linarith
  then have "0 \<le> m ! nat c" using m(2) by (simp add: list_all_length)
  then have "0 \<le> i32 (worst - m ! nat c)" using valley_depth_eq [OF _ c(6,7)] c(6) by simp
  moreover have l: "length counts = ?n" using assms(2) by (simp add: counts_def BitCountComparison_eq estimator_ok_def)
  moreover have "self' = self\<lparr>bit_counts := counts, mean_bit_counts := m\<rparr>" "cand = c" "valley = i32 (worst - m ! nat c)"
    using assms(5) c(1) by (auto simp: search_candidate_def Let_def counts_def m_def next_means_def)
  ultimately show ?thesis using assms(2) m c n by (simp add: estimator_ok_def)
qed

lemma decide_candidate_ok:
  fixes best :: int
  assumes "estimator_ok self" "0 \<le> cand" "cand < history_size self" "0 \<le> valley"
  defines "s \<equiv> decide_candidate self cand best valley"
  shows "estimator_ok s \<and> history_size s = history_size self \<and> mean_bit_counts s = mean_bit_counts self \<and>
    minimum_probability s \<le> minimum_probability self \<and> (last_delay s = last_delay self \<or> last_delay s = cand)"
proof -
  define s2 where "s2 = self\<lparr>minimum_probability := update_minimum_probability (minimum_probability self) best valley,
     last_delay_probability := i32 (last_delay_probability self + 1)\<rparr>"
  define s3 where "s3 = UpdateRobustValidationStatistics s2 cand valley best"
  have "8704 \<le> minimum_probability s2" and mp: "minimum_probability s2 \<le> minimum_probability self"
    using update_minimum_probability_bounds [of "minimum_probability self"] assms(1)
    by (simp_all add: s2_def estimator_ok_def)
  then have s2: "estimator_ok s2" "cand < history_size s2"
    using assms(1,3) by (simp_all add: estimator_ok_def s2_def)
  obtain hits hist where s3e: "s3 = s2\<lparr>candidate_hits := hits, last_candidate_delay := cand, histogram := hist\<rparr>"
    "length hist = nat (history_size s2) + 1" "list_all (\<lambda>h. 0 \<le> h) hist"
    using UpdateRobust_ok [OF s2(1) assms(4,2) s2(2)] unfolding s3_def by blast
  have s3: "estimator_ok s3" "cand < history_size s3" using s2 s3e by (simp_all add: estimator_ok_def)
  have f: "history_size s3 = history_size self" "last_delay s3 = last_delay self"
    "mean_bit_counts s3 = mean_bit_counts self" "minimum_probability s3 = minimum_probability s2"
    using s3e(1) by (simp_all add: s2_def)
  have "s = s3 \<or> s = accept_candidate s3 cand best"
    unfolding s_def decide_candidate_def Let_def s3_def s2_def by simp
  then show ?thesis
    using accept_candidate_ok [OF s3(1) assms(2) s3(2), of best] s3 f mp by auto
qed

text \<open>
  Everything a block does that matters to the caller: the invariant stays, and the delay
  is kept or moved to the first of the best delays.
\<close>

lemma ProcessBinarySpectrum_step:
  assumes "farend_ok far" "estimator_ok self" "farend_history_size far = history_size self" "in_u32 x"
    and "WebRtc_ProcessBinarySpectrum far self x = (self', r)"
  shows "estimator_ok self' \<and> history_size self' = history_size self \<and> r = last_delay self' \<and>
    minimum_probability self' \<le> minimum_probability self \<and>
    (r \<noteq> last_delay self \<longrightarrow> 0 \<le> r \<and> r < history_size self \<and>
       (\<forall>i < nat (history_size self). mean_bit_counts self' ! nat r \<le> mean_bit_counts self' ! i) \<and>
       (\<forall>i < nat r. mean_bit_counts self' ! nat r < mean_bit_counts self' ! i))"
proof -
  obtain s1 v where n: "near_lookahead self x = (s1, v)" by force
  obtain s2 cand best valley where c: "search_candidate far s1 v = (s2, cand, best, valley)"
    by (metis surj_pair)
  have s1: "estimator_ok s1" "in_u32 v" "s1 = self\<lparr>binary_near_history := binary_near_history s1\<rparr>"
    using near_lookahead_ok [OF assms(2,4) n] by auto
  have hs: "history_size s1 = history_size self" "last_delay s1 = last_delay self"
    "minimum_probability s1 = minimum_probability self"
    by (subst s1(3), simp)+
  note s2 = search_candidate_ok [OF assms(1) s1(1) _ s1(2) c]
  have "self' = decide_candidate s2 cand best valley" "r = last_delay self'"
    using assms(3,5) n c by (auto simp: WebRtc_ProcessBinarySpectrum_def Let_def)
  then show ?thesis
    using s2 decide_candidate_ok [of s2 cand valley best] assms(3) hs by auto
qed


section \<open>A session of the estimator\<close>

text \<open>
  The calls a user makes between two resets, on the pair of far end and estimator: one far
  spectrum, one near spectrum, or a soft reset of the lookahead.
\<close>

datatype estimator_call = FarSpectrum int | NearSpectrum int | LookaheadShift int

fun estimator_step :: "BinaryDelayEstimatorFarend \<times> BinaryDelayEstimator \<Rightarrow> estimator_call \<Rightarrow>
    (BinaryDelayEstimatorFarend \<times> BinaryDelayEstimator) \<times> int" where
  "estimator_step (far, self) (FarSpectrum x) = ((WebRtc_AddBinaryFarSpectrum far x, self), last_delay self)"
| "estimator_step (far, self) (NearSpectrum x) =
     (let (self, r) = WebRtc_ProcessBinarySpectrum far self x in ((far, self), r))"
| "estimator_step (far, self) (LookaheadShift d) =
     ((far, fst (WebRtc_SoftResetBinaryDelayEstimator self d)), last_delay self)"

definition pair_ok :: "int \<Rightarrow> BinaryDelayEstimatorFarend \<times> BinaryDelayEstimator \<Rightarrow> bool" where
  "pair_ok n p \<longleftrightarrow> farend_ok (fst p) \<and> estimator_ok (snd p) \<and>
     farend_history_size (fst p) = n \<and> history_size (snd p) = n"

fun call_ok :: "estimator_call \<Rightarrow> bool" where
  "call_ok (FarSpectrum x) = in_u32 x"
| "call_ok (NearSpectrum x) = in_u32 x"
| "call_ok (LookaheadShift d) = True"

definition delay_ok :: "int \<Rightarrow> BinaryDelayEstimatorFarend \<times> BinaryDelayEstimator \<Rightarrow> int \<Rightarrow> bool" where
  "delay_ok n p r \<longleftrightarrow> (r = - 2 \<and> last_delay (snd p) = - 2) \<or> 0 \<le> r \<and> r < n"

lemma SoftReset_ok:
  "estimator_ok self \<Longrightarrow> estimator_ok (fst (WebRtc_SoftResetBinaryDelayEstimator self d))
    \<and> history_size (fst (WebRtc_SoftResetBinaryDelayEstimator self d)) = history_size self"
  by (auto simp: WebRtc_SoftResetBinaryDelayEstimator_def Let_def estimator_ok_def)

lemma AddBinaryFarSpectrum_size [simp]:
  "farend_history_size (WebRtc_AddBinaryFarSpectrum far x) = farend_history_size far"
  by (simp add: WebRtc_AddBinaryFarSpectrum_def Let_def)

lemma estimator_ok_delay: "estimator_ok self \<Longrightarrow> delay_ok (history_size self) (far, self) (last_delay self)"
  by (auto simp: estimator_ok_def delay_ok_def)

lemma estimator_step_ok:
  assumes "pair_ok n p" and "call_ok e"
  shows "pair_ok n (fst (estimator_step p e)) \<and> delay_ok n p (snd (estimator_step p e))"
proof (cases p)
  case (Pair far self)
  note p = assms(1) [unfolded Pair pair_ok_def, simplified]
  show ?thesis
  proof (cases e)
    case (NearSpectrum x)
    obtain self' r where r: "WebRtc_ProcessBinarySpectrum far self x = (self', r)" by force
    have "in_u32 x" using assms(2) NearSpectrum by simp
    with p r have s: "estimator_ok self'" "history_size self' = history_size self" "r = last_delay self'"
        "r \<noteq> last_delay self \<longrightarrow> 0 \<le> r \<and> r < history_size self"
      using ProcessBinarySpectrum_step [of far self x self' r] by auto
    then show ?thesis using p r Pair NearSpectrum estimator_ok_delay [of self far]
      by (auto simp: pair_ok_def delay_ok_def)
  qed (use p Pair assms SoftReset_ok estimator_ok_delay [of self far] AddBinaryFarSpectrum_ok in
      \<open>auto simp: pair_ok_def delay_ok_def\<close>)
qed

interpretation est: invariant_step estimator_step "pair_ok n" call_ok "delay_ok n" for n
  using estimator_step_ok by unfold_locales blast+


lemma mem_zero_all: "length xs = n \<Longrightarrow> mem_zero xs 0 n = replicate n 0"
  by (simp add: mem_zero_def mem_copy_def)

lemma fold_set_all: "length xs = n \<Longrightarrow> fold (\<lambda>i m. m[i := c]) [0..<n] xs = replicate n c"
  using fold_update_prefix [of n xs "\<lambda>_ _. c"] by (simp add: map_replicate_const)

lemma length_c_realloc [simp]: "length xs \<le> n \<Longrightarrow> length (c_realloc True g xs n) = n"
  by (simp add: c_realloc_def)

lemma length_mem_zero [simp]: "pos + n \<le> length xs \<Longrightarrow> length (mem_zero xs pos n) = length xs"
  by (simp add: mem_zero_def)

lemma create_init_farend:
  assumes "1 < n"
  obtains far where "WebRtc_CreateBinaryDelayEstimatorFarend True True True g n = Some far"
    "farend_ok (WebRtc_InitBinaryDelayEstimatorFarend far)"
    "farend_history_size (WebRtc_InitBinaryDelayEstimatorFarend far) = n" "farend_history_size far = n"
proof -
  define h where "h = mem_zero (c_realloc True g [] (nat n)) 0 (nat n)"
  have l: "length h = nat n" by (simp add: h_def)
  have "WebRtc_CreateBinaryDelayEstimatorFarend True True True g n =
      Some \<lparr>far_bit_counts = h, binary_far_history = h, farend_history_size = n\<rparr>"
    using assms by (simp add: WebRtc_CreateBinaryDelayEstimatorFarend_def WebRtc_AllocateFarendBufferMemory_def Let_def h_def)
  then show ?thesis
    by (rule that) (use assms l in \<open>auto simp: WebRtc_InitBinaryDelayEstimatorFarend_def mem_zero_all farend_ok_def in_u32_def list_all_length\<close>)
qed

lemma create_init_estimator:
  assumes "1 < farend_history_size far" "0 \<le> la"
  obtains self where "WebRtc_CreateBinaryDelayEstimator True True True True True g (Some far) la = Some self"
    "estimator_ok (WebRtc_InitBinaryDelayEstimator self)"
    "history_size (WebRtc_InitBinaryDelayEstimator self) = farend_history_size far"
    "last_delay (WebRtc_InitBinaryDelayEstimator self) = - 2"
proof -
  let ?n = "farend_history_size far"
  obtain self where s: "WebRtc_CreateBinaryDelayEstimator True True True True True g (Some far) la = Some self"
    "history_size self = ?n" "near_history_size self = la + 1" "lookahead self = la"
    "length (mean_bit_counts self) = nat ?n + 1" "length (histogram self) = nat ?n + 1"
    "length (bit_counts self) = nat ?n" "length (binary_near_history self) = nat (la + 1)"
    using assms by (simp add: WebRtc_CreateBinaryDelayEstimator_def WebRtc_AllocateHistoryBufferMemory_def Let_def nat_add_distrib)
  from s(1) show ?thesis
    by (rule that) (use assms s in \<open>auto simp: WebRtc_InitBinaryDelayEstimator_def Let_def estimator_ok_def
        mem_zero_all fold_set_all set_replicate_conv_if in_u32_def list_all_iff shl32_def i32_def simp del: upt_Suc replicate.simps\<close>)
qed

lemma popcount_numeral: "popcount (numeral k) u = u mod 2 + popcount (pred_numeral k) (u div 2)"
  by (simp add: numeral_eq_Suc)

section \<open>Properties\<close>

text \<open>\<open>BitCountComparison\<close> writes, for every row of the far-end history, the Hamming
  distance of the two binary spectra: the bit trick of \<open>BitCount\<close> counts the ones of every
  32-bit word.\<close>

theorem BitCountComparison_hamming:
  assumes "in_u32 v" "list_all in_u32 matrix" "length matrix = n" "length counts = n"
  shows "BitCountComparison v matrix n counts = map (\<lambda>i. popcount 32 (v XOR matrix ! i)) [0..<n]"
  using assms by (simp add: BitCountComparison_eq BitCount_popcount in_u32_xor list_all_length)

theorem BitCountComparison_hamming_witness:
  "BitCountComparison 0xF0F0F0F0 [0xFFFFFFFF, 0] 2 [0, 0] = [16, 16]"
proof -
  have "popcount 32 0x0F0F0F0F = 16" "popcount 32 0xF0F0F0F0 = 16"
    by (simp_all add: popcount_numeral)
  then show ?thesis
    using BitCountComparison_hamming [of "0xF0F0F0F0" "[0xFFFFFFFF, 0]" 2 "[0, 0]"]
    by (simp add: in_u32_def numeral_2_eq_2)
qed

text \<open>C18: One block of \<open>WebRtc_ProcessBinarySpectrum\<close>. With equal history sizes the invariant is
  kept, the result is the estimator's last delay, the probability threshold never rises
  and never falls below its floor, and when the delay changes it moves to the first of the
  delays with the smallest mean bit count, an index of the history.
  With different sizes the result is -1 and nothing changes.\<close>

theorem ProcessBinarySpectrum_delay:
  assumes "farend_ok far" "estimator_ok self" "in_u32 x"
  shows "case WebRtc_ProcessBinarySpectrum far self x of (self', r) \<Rightarrow>
    (if farend_history_size far \<noteq> history_size self then self' = self \<and> r = - 1
     else estimator_ok self' \<and> history_size self' = history_size self \<and> r = last_delay self' \<and>
       8704 \<le> minimum_probability self' \<and> minimum_probability self' \<le> minimum_probability self \<and>
       (r \<noteq> last_delay self \<longrightarrow> 0 \<le> r \<and> r < history_size self \<and>
         (\<forall>i < nat (history_size self). mean_bit_counts self' ! nat r \<le> mean_bit_counts self' ! i) \<and>
         (\<forall>i < nat r. mean_bit_counts self' ! nat r < mean_bit_counts self' ! i)))"
proof (cases "farend_history_size far = history_size self")
  case True
  obtain self' r where r: "WebRtc_ProcessBinarySpectrum far self x = (self', r)" by force
  note s = ProcessBinarySpectrum_step [OF assms(1,2) True assms(3) r]
  then have "8704 \<le> minimum_probability self'" by (simp add: estimator_ok_def)
  then show ?thesis using s unfolding r True by auto
qed (simp add: WebRtc_ProcessBinarySpectrum_def)

definition sample_farend :: BinaryDelayEstimatorFarend where
  "sample_farend = \<lparr>far_bit_counts = [2, 16, 8], binary_far_history = [3, 0xFFFF, 0xFF], farend_history_size = 3\<rparr>"

definition sample_estimator :: BinaryDelayEstimator where
  "sample_estimator =
     \<lparr>mean_bit_counts = [10240, 2048, 9000, 10240], bit_counts = [0, 0, 0], binary_near_history = [0],
      near_history_size = 1, history_size = 3, minimum_probability = 16384,
      last_delay_probability = 16384, last_delay = - 2, robust_validation_enabled = 0, allowed_offset = 0,
      last_candidate_delay = - 2, compare_delay = 3, candidate_hits = 0, histogram = [0, 0, 0, 0],
      last_delay_histogram = 0, lookahead = 0\<rparr>"

theorem ProcessBinarySpectrum_delay_witness:
  "case WebRtc_ProcessBinarySpectrum sample_farend sample_estimator 0xFFFF of (self', r) \<Rightarrow>
     estimator_ok self' \<and> r = last_delay self' \<and> minimum_probability self' \<le> 16384"
proof -
  have "farend_ok sample_farend" "estimator_ok sample_estimator"
    by (simp_all add: farend_ok_def estimator_ok_def sample_farend_def sample_estimator_def in_u32_def)
  moreover have "farend_history_size sample_farend = history_size sample_estimator"
    "minimum_probability sample_estimator = 16384"
    by (simp_all add: sample_farend_def sample_estimator_def)
  ultimately show ?thesis
    using ProcessBinarySpectrum_delay [of sample_farend sample_estimator "0xFFFF"]
    by (simp add: in_u32_def split_def)
qed

text \<open>C17: After creation and initialisation, any sequence of far spectra, near spectra and
  lookahead shifts keeps the estimator well formed, and every delay it reports is either
  -2 (none found yet) or an index of the history. The error value -1 never shows.\<close>

theorem estimator_session:
  assumes "1 < n" "0 \<le> la" "list_all call_ok calls"
  shows "case (WebRtc_CreateBinaryDelayEstimatorFarend True True True g n) of
      None \<Rightarrow> False
    | Some far \<Rightarrow> (case WebRtc_CreateBinaryDelayEstimator True True True True True g (Some far) la of
        None \<Rightarrow> False
      | Some self \<Rightarrow>
         (case run estimator_step (WebRtc_InitBinaryDelayEstimatorFarend far, WebRtc_InitBinaryDelayEstimator self) calls of
            (p, delays) \<Rightarrow> pair_ok n p \<and> length delays = length calls \<and>
              list_all (\<lambda>r. r = - 2 \<or> 0 \<le> r \<and> r < n) delays))"
proof -
  obtain far where far: "WebRtc_CreateBinaryDelayEstimatorFarend True True True g n = Some far"
    "farend_ok (WebRtc_InitBinaryDelayEstimatorFarend far)"
    "farend_history_size (WebRtc_InitBinaryDelayEstimatorFarend far) = n" "farend_history_size far = n"
    using create_init_farend [OF assms(1)] by blast
  then obtain self where self: "WebRtc_CreateBinaryDelayEstimator True True True True True g (Some far) la = Some self"
    "estimator_ok (WebRtc_InitBinaryDelayEstimator self)" "history_size (WebRtc_InitBinaryDelayEstimator self) = n"
    using create_init_estimator [of far la g] assms by auto
  define p0 where "p0 = (WebRtc_InitBinaryDelayEstimatorFarend far, WebRtc_InitBinaryDelayEstimator self)"
  have "pair_ok n p0" using far self by (simp add: p0_def pair_ok_def)
  note r = est.run_inv [OF this assms(3)] est.run_outputs [OF this assms(3)]
    est.length_run [of p0 calls]
  have "list_all (\<lambda>r. r = - 2 \<or> 0 \<le> r \<and> r < n) (snd (run estimator_step p0 calls))"
    unfolding list_all_length using r(2,3) by (auto simp: delay_ok_def)
  then show ?thesis
    using r(1,3) far(1) self(1) by (simp add: p0_def split_def)
qed


theorem estimator_session_witness:
  "case (WebRtc_CreateBinaryDelayEstimatorFarend True True True (\<lambda>i. 7) 3) of
      None \<Rightarrow> False
    | Some far \<Rightarrow> (case WebRtc_CreateBinaryDelayEstimator True True True True True (\<lambda>i. 7) (Some far) 1 of
        None \<Rightarrow> False
      | Some self \<Rightarrow>
         (case run estimator_step (WebRtc_InitBinaryDelayEstimatorFarend far, WebRtc_InitBinaryDelayEstimator self)
             [FarSpectrum 0xFF, NearSpectrum 0xFE, LookaheadShift 1, NearSpectrum 0xFF] of
            (p, delays) \<Rightarrow> pair_ok 3 p \<and> length delays = 4 \<and> list_all (\<lambda>r. r = - 2 \<or> 0 \<le> r \<and> r < 3) delays))"
proof -
  have "list_all call_ok [FarSpectrum 0xFF, NearSpectrum 0xFE, LookaheadShift 1, NearSpectrum 0xFF]"
    by (simp add: in_u32_def)
  moreover have l: "length [FarSpectrum 0xFF, NearSpectrum 0xFE, LookaheadShift 1, NearSpectrum 0xFF] = 4"
    by simp
  ultimately show ?thesis
    using estimator_session [of 3 1 "[FarSpectrum 0xFF, NearSpectrum 0xFE, LookaheadShift 1, NearSpectrum 0xFF]" "\<lambda>i. 7"]
    unfolding l by simp
qed

end
