(* ===== verification/Delay_Estimator_Wrapper.thy ===== *)
theory Delay_Estimator_Wrapper
  imports Delay_Estimator
begin

unbundle bit_operations_syntax

text \<open>
  \<open>src/webrtc/modules/audio_processing/utility/delay_estimator_wrapper.c\<close>: spectra in, binary
  spectra out, and the checked interface of the delay estimator. A handle is an
  \<open>option\<close>, \<open>None\<close> for \<open>NULL\<close>; an input array likewise. The C union \<open>SpectrumType\<close> is used
  with one member throughout an instance, so the spectra are lists of a type \<open>'s\<close>: \<open>int\<close>
  for the fixed-point entry points, \<open>rat\<close> for the float ones. The estimator's pointer to its
  far end is the extra argument of the operations that follow it.
\<close>

section \<open>State\<close>

definition kBandFirst :: nat where "kBandFirst = 12"

definition kBandLast :: nat where "kBandLast = 43"

record 's DelayEstimatorFarend =
  mean_far_spectrum :: "'s list"
  far_spectrum_initialized :: int
  farend_spectrum_size :: int
  binary_farend :: BinaryDelayEstimatorFarend

record 's DelayEstimator =
  mean_near_spectrum :: "'s list"
  near_spectrum_initialized :: int
  spectrum_size :: int
  binary_handle :: BinaryDelayEstimator

section \<open>Binary spectra\<close>

definition SetBit :: "int \<Rightarrow> int \<Rightarrow> int" where
  "SetBit inp pos = (let mask = u32 (shl32 1 pos) in inp OR mask)"

definition MeanEstimatorFloat :: "rat \<Rightarrow> rat \<Rightarrow> rat \<Rightarrow> rat" where
  "MeanEstimatorFloat new_value scale mean_value =
     f32 (mean_value + f32 (f32 (new_value - mean_value) * scale))"

text \<open>The two loops of \<open>BinarySpectrumFix\<close>: the start values, then the comparison.\<close>

definition threshold_start :: "int list \<Rightarrow> int \<Rightarrow> nat \<Rightarrow> int list \<times> int \<Rightarrow> int list \<times> int" where
  "threshold_start spectrum q_domain i = (\<lambda>(threshold, initialized).
     if spectrum ! i > 0
     then (let spectrum_q15 = shl32 (spectrum ! i) (15 - q_domain)
           in (threshold[i := shr spectrum_q15 1], 1))
     else (threshold, initialized))"

definition binary_band :: "int list \<Rightarrow> int \<Rightarrow> nat \<Rightarrow> int list \<times> int \<Rightarrow> int list \<times> int" where
  "binary_band spectrum q_domain i = (\<lambda>(threshold, out).
     (let spectrum_q15 = shl32 (spectrum ! i) (15 - q_domain);
          threshold = threshold[i := WebRtc_MeanEstimatorFix spectrum_q15 6 (threshold ! i)]
      in (threshold, if spectrum_q15 > threshold ! i then SetBit out (int i - int kBandFirst) else out)))"

definition BinarySpectrumFix :: "int list \<Rightarrow> int list \<Rightarrow> int \<Rightarrow> int \<Rightarrow> int list \<times> int \<times> int" where
  "BinarySpectrumFix spectrum threshold_spectrum q_domain threshold_initialized =
     (let (threshold, initialized) =
            (if threshold_initialized = 0
             then fold (threshold_start spectrum q_domain) [kBandFirst..<kBandLast + 1]
                    (threshold_spectrum, threshold_initialized)
             else (threshold_spectrum, threshold_initialized));
          (threshold, out) = fold (binary_band spectrum q_domain) [kBandFirst..<kBandLast + 1] (threshold, 0)
      in (threshold, initialized, out))"

definition threshold_start_float :: "rat list \<Rightarrow> nat \<Rightarrow> rat list \<times> int \<Rightarrow> rat list \<times> int" where
  "threshold_start_float spectrum i = (\<lambda>(threshold, initialized).
     if spectrum ! i > 0 then (threshold[i := f32 (spectrum ! i / 2)], 1) else (threshold, initialized))"

definition binary_band_float :: "rat list \<Rightarrow> nat \<Rightarrow> rat list \<times> int \<Rightarrow> rat list \<times> int" where
  "binary_band_float spectrum i = (\<lambda>(threshold, out).
     (let kScale = 1 / 64;
          threshold = threshold[i := MeanEstimatorFloat (spectrum ! i) kScale (threshold ! i)]
      in (threshold, if spectrum ! i > threshold ! i then SetBit out (int i - int kBandFirst) else out)))"

definition BinarySpectrumFloat :: "rat list \<Rightarrow> rat list \<Rightarrow> int \<Rightarrow> rat list \<times> int \<times> int" where
  "BinarySpectrumFloat spectrum threshold_spectrum threshold_initialized =
     (let (threshold, initialized) =
            (if threshold_initialized = 0
             then fold (threshold_start_float spectrum) [kBandFirst..<kBandLast + 1]
                    (threshold_spectrum, threshold_initialized)
             else (threshold_spectrum, threshold_initialized));
          (threshold, out) = fold (binary_band_float spectrum) [kBandFirst..<kBandLast + 1] (threshold, 0)
      in (threshold, initialized, out))"

section \<open>The far end\<close>

text \<open>
  \<open>ok\<close>, \<open>okb\<close>, \<open>ok1\<close>, \<open>ok2\<close>, \<open>oks\<close> say whether the allocations of the structure, of
  the binary far end and its two buffers, and of the spectrum succeed; \<open>g\<close> and \<open>gs\<close> are
  the contents of fresh memory.
\<close>

definition WebRtc_CreateDelayEstimatorFarend ::
    "bool \<Rightarrow> bool \<Rightarrow> bool \<Rightarrow> bool \<Rightarrow> bool \<Rightarrow> (nat \<Rightarrow> int) \<Rightarrow> (nat \<Rightarrow> 's) \<Rightarrow> int \<Rightarrow> int \<Rightarrow> 's DelayEstimatorFarend option" where
  "WebRtc_CreateDelayEstimatorFarend ok okb ok1 ok2 oks g gs ssize hsize =
     (if \<not> (ssize \<ge> int kBandLast \<and> ok) then None
      else (case WebRtc_CreateBinaryDelayEstimatorFarend okb ok1 ok2 g hsize of
              None \<Rightarrow> None
            | Some far \<Rightarrow>
               (if \<not> oks then None
                else Some \<lparr>mean_far_spectrum = map gs [0..<nat ssize], far_spectrum_initialized = g 0,
                           farend_spectrum_size = ssize, binary_farend = far\<rparr>)))"

definition WebRtc_InitDelayEstimatorFarend ::
    "('s::zero) DelayEstimatorFarend option \<Rightarrow> 's DelayEstimatorFarend option \<times> int" where
  "WebRtc_InitDelayEstimatorFarend handle =
     (case handle of None \<Rightarrow> (None, - 1)
      | Some self \<Rightarrow>
         (Some (self\<lparr>binary_farend := WebRtc_InitBinaryDelayEstimatorFarend (binary_farend self),
                     mean_far_spectrum := mem_zero (mean_far_spectrum self) 0 (nat (farend_spectrum_size self)),
                     far_spectrum_initialized := 0\<rparr>), 0))"

definition WebRtc_SoftResetDelayEstimatorFarend :: "'s DelayEstimatorFarend \<Rightarrow> int \<Rightarrow> 's DelayEstimatorFarend" where
  "WebRtc_SoftResetDelayEstimatorFarend self delay_shift =
     self\<lparr>binary_farend := WebRtc_SoftResetBinaryDelayEstimatorFarend (binary_farend self) delay_shift\<rparr>"

definition WebRtc_AddFarSpectrumFix ::
    "int DelayEstimatorFarend option \<Rightarrow> int list option \<Rightarrow> int \<Rightarrow> int \<Rightarrow> int DelayEstimatorFarend option \<times> int" where
  "WebRtc_AddFarSpectrumFix handle far_spectrum ssize far_q =
     (case handle of None \<Rightarrow> (handle, - 1)
      | Some self \<Rightarrow>
         (case far_spectrum of None \<Rightarrow> (handle, - 1)
          | Some spectrum \<Rightarrow>
             (if ssize \<noteq> farend_spectrum_size self then (handle, - 1)
              else if far_q > 15 then (handle, - 1)
              else
                (let (mean, initialized, binary_spectrum) =
                       BinarySpectrumFix spectrum (mean_far_spectrum self) far_q (far_spectrum_initialized self)
                 in (Some (self\<lparr>mean_far_spectrum := mean, far_spectrum_initialized := initialized,
                                binary_farend := WebRtc_AddBinaryFarSpectrum (binary_farend self) binary_spectrum\<rparr>), 0)))))"

definition WebRtc_AddFarSpectrumFloat ::
    "rat DelayEstimatorFarend option \<Rightarrow> rat list option \<Rightarrow> int \<Rightarrow> rat DelayEstimatorFarend option \<times> int" where
  "WebRtc_AddFarSpectrumFloat handle far_spectrum ssize =
     (case handle of None \<Rightarrow> (handle, - 1)
      | Some self \<Rightarrow>
         (case far_spectrum of None \<Rightarrow> (handle, - 1)
          | Some spectrum \<Rightarrow>
             (if ssize \<noteq> farend_spectrum_size self then (handle, - 1)
              else
                (let (mean, initialized, binary_spectrum) =
                       BinarySpectrumFloat spectrum (mean_far_spectrum self) (far_spectrum_initialized self)
                 in (Some (self\<lparr>mean_far_spectrum := mean, far_spectrum_initialized := initialized,
                                binary_farend := WebRtc_AddBinaryFarSpectrum (binary_farend self) binary_spectrum\<rparr>), 0)))))"

section \<open>The estimator\<close>

definition WebRtc_CreateDelayEstimator ::
    "bool \<Rightarrow> bool \<Rightarrow> bool \<Rightarrow> bool \<Rightarrow> bool \<Rightarrow> bool \<Rightarrow> bool \<Rightarrow> (nat \<Rightarrow> int) \<Rightarrow> (nat \<Rightarrow> 's) \<Rightarrow>
     's DelayEstimatorFarend option \<Rightarrow> int \<Rightarrow> 's DelayEstimator option" where
  "WebRtc_CreateDelayEstimator ok okb okn ok1 ok2 ok3 oks g gs farend_handle max_lookahead =
     (case farend_handle of None \<Rightarrow> None
      | Some farend \<Rightarrow>
         (if \<not> ok then None
          else (case WebRtc_CreateBinaryDelayEstimator okb okn ok1 ok2 ok3 g (Some (binary_farend farend)) max_lookahead of
                  None \<Rightarrow> None
                | Some bin \<Rightarrow>
                   (if \<not> oks then None
                    else Some \<lparr>mean_near_spectrum = map gs [0..<nat (farend_spectrum_size farend)],
                               near_spectrum_initialized = g 0, spectrum_size = farend_spectrum_size farend,
                               binary_handle = bin\<rparr>))))"

definition WebRtc_InitDelayEstimator :: "('s::zero) DelayEstimator option \<Rightarrow> 's DelayEstimator option \<times> int" where
  "WebRtc_InitDelayEstimator handle =
     (case handle of None \<Rightarrow> (None, - 1)
      | Some self \<Rightarrow>
         (Some (self\<lparr>binary_handle := WebRtc_InitBinaryDelayEstimator (binary_handle self),
                     mean_near_spectrum := mem_zero (mean_near_spectrum self) 0 (nat (spectrum_size self)),
                     near_spectrum_initialized := 0\<rparr>), 0))"

definition WebRtc_SoftResetDelayEstimator :: "'s DelayEstimator \<Rightarrow> int \<Rightarrow> 's DelayEstimator \<times> int" where
  "WebRtc_SoftResetDelayEstimator self delay_shift =
     (let (bin, r) = WebRtc_SoftResetBinaryDelayEstimator (binary_handle self) delay_shift
      in (self\<lparr>binary_handle := bin\<rparr>, r))"

definition WebRtc_set_history_size ::
    "bool \<Rightarrow> bool \<Rightarrow> bool \<Rightarrow> bool \<Rightarrow> bool \<Rightarrow> (nat \<Rightarrow> int) \<Rightarrow> BinaryDelayEstimatorFarend \<Rightarrow> 's DelayEstimator option \<Rightarrow> int \<Rightarrow>
     BinaryDelayEstimatorFarend \<times> 's DelayEstimator option \<times> int" where
  "WebRtc_set_history_size f1 f2 ok1 ok2 ok3 g far handle hsize =
     (case handle of None \<Rightarrow> (far, None, - 1)
      | Some self \<Rightarrow>
         (if hsize \<le> 1 then (far, handle, - 1)
          else (let (far, bin, r) = WebRtc_AllocateHistoryBufferMemory f1 f2 ok1 ok2 ok3 g far (binary_handle self) hsize
                in (far, Some (self\<lparr>binary_handle := bin\<rparr>), r))))"

definition WebRtc_history_size :: "BinaryDelayEstimatorFarend \<Rightarrow> 's DelayEstimator option \<Rightarrow> int" where
  "WebRtc_history_size far handle =
     (case handle of None \<Rightarrow> - 1
      | Some self \<Rightarrow>
         (if farend_history_size far \<noteq> history_size (binary_handle self) then - 1
          else history_size (binary_handle self)))"

definition WebRtc_set_lookahead :: "'s DelayEstimator \<Rightarrow> int \<Rightarrow> 's DelayEstimator \<times> int" where
  "WebRtc_set_lookahead self la =
     (if la > near_history_size (binary_handle self) - 1 \<or> la < 0 then (self, - 1)
      else (self\<lparr>binary_handle := (binary_handle self)\<lparr>lookahead := la\<rparr>\<rparr>, la))"

definition WebRtc_lookahead :: "'s DelayEstimator \<Rightarrow> int" where
  "WebRtc_lookahead self = lookahead (binary_handle self)"

definition WebRtc_set_allowed_offset :: "'s DelayEstimator option \<Rightarrow> int \<Rightarrow> 's DelayEstimator option \<times> int" where
  "WebRtc_set_allowed_offset handle offset =
     (case handle of None \<Rightarrow> (None, - 1)
      | Some self \<Rightarrow>
         (if offset < 0 then (handle, - 1)
          else (Some (self\<lparr>binary_handle := (binary_handle self)\<lparr>allowed_offset := offset\<rparr>\<rparr>), 0)))"

definition WebRtc_get_allowed_offset :: "'s DelayEstimator option \<Rightarrow> int" where
  "WebRtc_get_allowed_offset handle =
     (case handle of None \<Rightarrow> - 1 | Some self \<Rightarrow> allowed_offset (binary_handle self))"

definition WebRtc_enable_robust_validation :: "'s DelayEstimator option \<Rightarrow> int \<Rightarrow> 's DelayEstimator option \<times> int" where
  "WebRtc_enable_robust_validation handle enable =
     (case handle of None \<Rightarrow> (None, - 1)
      | Some self \<Rightarrow>
         (if enable < 0 \<or> enable > 1 then (handle, - 1)
          else (Some (self\<lparr>binary_handle := (binary_handle self)\<lparr>robust_validation_enabled := enable\<rparr>\<rparr>), 0)))"

definition WebRtc_is_robust_validation_enabled :: "'s DelayEstimator option \<Rightarrow> int" where
  "WebRtc_is_robust_validation_enabled handle =
     (case handle of None \<Rightarrow> - 1 | Some self \<Rightarrow> robust_validation_enabled (binary_handle self))"

definition WebRtc_DelayEstimatorProcessFix ::
    "BinaryDelayEstimatorFarend \<Rightarrow> int DelayEstimator option \<Rightarrow> int list option \<Rightarrow> int \<Rightarrow> int \<Rightarrow>
     int DelayEstimator option \<times> int" where
  "WebRtc_DelayEstimatorProcessFix far handle near_spectrum ssize near_q =
     (case handle of None \<Rightarrow> (handle, - 1)
      | Some self \<Rightarrow>
         (case near_spectrum of None \<Rightarrow> (handle, - 1)
          | Some spectrum \<Rightarrow>
             (if ssize \<noteq> spectrum_size self then (handle, - 1)
              else if near_q > 15 then (handle, - 1)
              else
                (let (mean, initialized, binary_spectrum) =
                       BinarySpectrumFix spectrum (mean_near_spectrum self) near_q (near_spectrum_initialized self);
                     (bin, r) = WebRtc_ProcessBinarySpectrum far (binary_handle self) binary_spectrum
                 in (Some (self\<lparr>mean_near_spectrum := mean, near_spectrum_initialized := initialized,
                                binary_handle := bin\<rparr>), r)))))"

definition WebRtc_DelayEstimatorProcessFloat ::
    "BinaryDelayEstimatorFarend \<Rightarrow> rat DelayEstimator option \<Rightarrow> rat list option \<Rightarrow> int \<Rightarrow>
     rat DelayEstimator option \<times> int" where
  "WebRtc_DelayEstimatorProcessFloat far handle near_spectrum ssize =
     (case handle of None \<Rightarrow> (handle, - 1)
      | Some self \<Rightarrow>
         (case near_spectrum of None \<Rightarrow> (handle, - 1)
          | Some spectrum \<Rightarrow>
             (if ssize \<noteq> spectrum_size self then (handle, - 1)
              else
                (let (mean, initialized, binary_spectrum) =
                       BinarySpectrumFloat spectrum (mean_near_spectrum self) (near_spectrum_initialized self);
                     (bin, r) = WebRtc_ProcessBinarySpectrum far (binary_handle self) binary_spectrum
                 in (Some (self\<lparr>mean_near_spectrum := mean, near_spectrum_initialized := initialized,
                                binary_handle := bin\<rparr>), r)))))"

definition WebRtc_last_delay :: "'s DelayEstimator option \<Rightarrow> int" where
  "WebRtc_last_delay handle =
     (case handle of None \<Rightarrow> - 1 | Some self \<Rightarrow> WebRtc_binary_last_delay (binary_handle self))"

definition WebRtc_last_delay_quality :: "'s DelayEstimator \<Rightarrow> rat" where
  "WebRtc_last_delay_quality self = WebRtc_binary_last_delay_quality (binary_handle self)"

section \<open>Properties of the binary spectrum\<close>

lemma u32_i32 [simp]: "u32 (i32 x) = u32 x"
  by (simp add: u32_def)

lemma SetBit_eq: "j < 32 \<Longrightarrow> SetBit out (int j) = out OR 2 ^ j"
proof -
  assume "j < 32"
  then have "(2::int) ^ j < 2 ^ 32" by (intro power_strict_increasing) auto
  then show ?thesis by (simp add: SetBit_def shl32_def u32_def Let_def)
qed

definition spectrum_q15 :: "int list \<Rightarrow> int \<Rightarrow> nat \<Rightarrow> int" where
  "spectrum_q15 spectrum q i = shl32 (spectrum ! i) (15 - q)"

definition in_q15 :: "int \<Rightarrow> bool" where
  "in_q15 x \<longleftrightarrow> 0 \<le> x \<and> x \<le> 2147483647"

lemma spectrum_q15_exact:
  assumes "in_u16 (s ! i)" "0 \<le> q"
  shows "spectrum_q15 s q i = s ! i * 2 ^ nat (15 - q) \<and> in_q15 (spectrum_q15 s q i)"
proof -
  have "(2::int) ^ nat (15 - q) \<le> 2 ^ 15" using assms(2) by (intro power_increasing) auto
  then have "s ! i * 2 ^ nat (15 - q) \<le> 65535 * 2 ^ 15"
    using assms(1) by (intro mult_mono) (auto simp: in_u16_def)
  moreover have "0 \<le> s ! i * 2 ^ nat (15 - q)" using assms(1) by (simp add: in_u16_def)
  ultimately show ?thesis by (simp add: spectrum_q15_def shl32_def i32_id_nonneg in_q15_def)
qed

lemma MeanEstimatorFix_q15:
  assumes "in_q15 new_value" "in_q15 mean_value"
  shows "WebRtc_MeanEstimatorFix new_value factor mean_value =
    (if new_value < mean_value then mean_value - shr (mean_value - new_value) factor
     else mean_value + shr (new_value - mean_value) factor)"
    and "in_q15 (WebRtc_MeanEstimatorFix new_value factor mean_value)"
proof -
  have b: "new_value < mean_value \<Longrightarrow> 0 \<le> shr (mean_value - new_value) factor \<and> shr (mean_value - new_value) factor \<le> mean_value - new_value"
    "\<not> new_value < mean_value \<Longrightarrow> 0 \<le> shr (new_value - mean_value) factor \<and> shr (new_value - mean_value) factor \<le> new_value - mean_value"
    using shr_nonneg [of "mean_value - new_value" factor] shr_le [of "mean_value - new_value" factor]
      shr_nonneg [of "new_value - mean_value" factor] shr_le [of "new_value - mean_value" factor] by auto
  show e: "WebRtc_MeanEstimatorFix new_value factor mean_value =
    (if new_value < mean_value then mean_value - shr (mean_value - new_value) factor
     else mean_value + shr (new_value - mean_value) factor)"
    using assms b by (auto simp: WebRtc_MeanEstimatorFix_def Let_def i32_id in_i32_def in_q15_def)
  show "in_q15 (WebRtc_MeanEstimatorFix new_value factor mean_value)"
    unfolding e using assms b by (auto simp: in_q15_def)
qed

text \<open>One more band of a loop over the bands, seen as a map over the array.\<close>

lemma band_update:
  assumes "12 + k < n" "P (12 + k)"
  shows "(map (\<lambda>i. if 12 \<le> i \<and> i < 12 + k \<and> P i then f i else g i) [0..<n])[12 + k := f (12 + k)] =
    map (\<lambda>i. if 12 \<le> i \<and> i < 12 + Suc k \<and> P i then f i else g i) [0..<n]"
proof (rule nth_equalityI, goal_cases)
  case (2 i)
  then show ?case using assms by (cases "i = 12 + k") auto
qed simp

lemma fold_bands: "fold f [12..<12 + Suc k] x = f (12 + k) (fold f [12..<12 + k] x)"
proof -
  have "[12..<12 + Suc k] = [12..<12 + k] @ [12 + k]" unfolding add_Suc_right by (rule upt_Suc_append) simp
  then show ?thesis by (simp only: fold_append fold.simps o_apply id_apply)
qed

lemma band_skip:
  assumes "\<not> P (12 + k)"
  shows "map (\<lambda>i. if 12 \<le> i \<and> i < 12 + k \<and> P i then f i else g i) [0..<n] =
    map (\<lambda>i. if 12 \<le> i \<and> i < 12 + Suc k \<and> P i then f i else g i) [0..<n]"
proof -
  have "i < 12 + Suc k \<and> P i \<longleftrightarrow> i < 12 + k \<and> P i" for i
    using assms by (cases "i = 12 + k") auto
  then show ?thesis by simp
qed

lemma band_start: "map (\<lambda>i. if 12 \<le> i \<and> i < (12::nat) \<and> P i then f i else th ! i) [0..<length th] = th"
  by (auto intro!: nth_equalityI)

lemma threshold_start_loop:
  assumes "12 + k \<le> length th"
  shows "fold (threshold_start s q) [12..<12 + k] (th, b) =
    (map (\<lambda>i. if 12 \<le> i \<and> i < 12 + k \<and> s ! i > 0 then shr (spectrum_q15 s q i) 1 else th ! i) [0..<length th],
     if \<exists>j < k. s ! (12 + j) > 0 then 1 else b)"
  using assms
proof (induction k)
  case 0
  show ?case using band_start [of "\<lambda>i. s ! i > 0" "\<lambda>i. shr (spectrum_q15 s q i) 1" th] by simp
next
  case (Suc k)
  have e: "(\<exists>j<Suc k. s ! (12 + j) > 0) \<longleftrightarrow> (\<exists>j<k. s ! (12 + j) > 0) \<or> s ! (12 + k) > 0"
    by (auto simp: less_Suc_eq)
  have f: "fold (threshold_start s q) [12..<12 + Suc k] (th, b) =
      threshold_start s q (12 + k) (fold (threshold_start s q) [12..<12 + k] (th, b))" by (rule fold_bands)
  have IH: "fold (threshold_start s q) [12..<12 + k] (th, b) =
    (map (\<lambda>i. if 12 \<le> i \<and> i < 12 + k \<and> s ! i > 0 then shr (spectrum_q15 s q i) 1 else th ! i) [0..<length th],
     if \<exists>j < k. s ! (12 + j) > 0 then 1 else b)" using Suc by simp
  show ?case
  proof (cases "s ! (12 + k) > 0")
    case True
    then show ?thesis
      unfolding f IH e using Suc.prems band_update [of k "length th" "\<lambda>i. s ! i > 0" "\<lambda>i. shr (spectrum_q15 s q i) 1" "\<lambda>i. th ! i"]
      by (simp add: threshold_start_def Let_def spectrum_q15_def [symmetric])
  next
    case False
    then show ?thesis
      unfolding f IH e using band_skip [of "\<lambda>i. s ! i > 0" k "\<lambda>i. shr (spectrum_q15 s q i) 1" "\<lambda>i. th ! i" "length th"]
      by (simp add: threshold_start_def)
  qed
qed

lemma binary_band_loop:
  fixes s :: "int list" and q :: int
  assumes "12 + k \<le> length th" "k \<le> 32"
  defines "T \<equiv> \<lambda>i. WebRtc_MeanEstimatorFix (spectrum_q15 s q i) 6 (th ! i)"
  shows "\<exists>out. fold (binary_band s q) [12..<12 + k] (th, 0) =
      (map (\<lambda>i. if 12 \<le> i \<and> i < 12 + k then T i else th ! i) [0..<length th], out)
    \<and> 0 \<le> out \<and> out < 2 ^ 32 \<and> (\<forall>j. bit out j \<longleftrightarrow> j < k \<and> spectrum_q15 s q (12 + j) > T (12 + j))"
  using assms(1,2)
proof (induction k)
  case 0
  have "th = map (\<lambda>i. if 12 \<le> i \<and> i < 12 then T i else th ! i) [0..<length th]"
    using band_start [of "\<lambda>_. True" T th] by simp
  then show ?case by simp
next
  case (Suc k)
  then obtain out where IH: "fold (binary_band s q) [12..<12 + k] (th, 0) =
      (map (\<lambda>i. if 12 \<le> i \<and> i < 12 + k then T i else th ! i) [0..<length th], out)"
    "0 \<le> out" "out < 2 ^ 32" "\<forall>j. bit out j \<longleftrightarrow> j < k \<and> spectrum_q15 s q (12 + j) > T (12 + j)"
    by auto
  let ?out = "if spectrum_q15 s q (12 + k) > T (12 + k) then SetBit out (int k) else out"
  have l: "(map (\<lambda>i. if 12 \<le> i \<and> i < 12 + k then T i else th ! i) [0..<length th])[12 + k := T (12 + k)] =
      map (\<lambda>i. if 12 \<le> i \<and> i < 12 + Suc k then T i else th ! i) [0..<length th]"
    using band_update [of k "length th" "\<lambda>_. True" T "\<lambda>i. th ! i"] Suc.prems by simp
  have "fold (binary_band s q) [12..<12 + Suc k] (th, 0) =
      (map (\<lambda>i. if 12 \<le> i \<and> i < 12 + Suc k then T i else th ! i) [0..<length th], ?out)"
    unfolding fold_bands IH(1) using Suc.prems l
    by (simp add: binary_band_def Let_def spectrum_q15_def [symmetric] T_def kBandFirst_def)
  moreover have "(2::int) ^ k < 2 ^ 32" using Suc.prems by (intro power_strict_increasing) auto
  then have "0 \<le> ?out" "?out < 2 ^ 32"
    using IH(2,3) Suc.prems OR_upper [of out 32 "2 ^ k"] by (auto simp: SetBit_eq)
  moreover have "\<forall>j. bit ?out j \<longleftrightarrow> j < Suc k \<and> spectrum_q15 s q (12 + j) > T (12 + j)"
    using IH(4) Suc.prems by (auto simp: SetBit_eq bit_or_iff bit_exp_iff less_Suc_eq)
  ultimately show ?case by blast
qed


definition thresholds_ok :: "int list \<Rightarrow> bool" where
  "thresholds_ok th \<longleftrightarrow> 44 \<le> length th \<and> list_all in_q15 th"

lemma BinarySpectrumFix_spec:
  assumes "thresholds_ok th" "list_all in_u16 s" "44 \<le> length s" "0 \<le> q"
    and "BinarySpectrumFix s th q b = (th', b', out)"
  shows "thresholds_ok th' \<and> length th' = length th \<and> in_u32 out \<and>
    (\<forall>j. bit out j \<longleftrightarrow> j < 32 \<and> spectrum_q15 s q (12 + j) > th' ! (12 + j)) \<and>
    (\<forall>i < length th. i < 12 \<or> 44 \<le> i \<longrightarrow> th' ! i = th ! i) \<and>
    b' = (if b = 0 \<and> (\<exists>j < 32. s ! (12 + j) > 0) then 1 else b)"
proof -
  define th1 where "th1 = (if b = 0 then map (\<lambda>i. if 12 \<le> i \<and> i < 44 \<and> s ! i > 0 then shr (spectrum_q15 s q i) 1 else th ! i)
      [0..<length th] else th)"
  let ?T = "\<lambda>i. WebRtc_MeanEstimatorFix (spectrum_q15 s q i) 6 (th1 ! i)"
  have len: "44 \<le> length th1" "length th1 = length th" using assms(1) by (simp_all add: th1_def thresholds_ok_def)
  have q: "in_q15 (spectrum_q15 s q i)" if "i < 44" for i
  proof -
    have "in_u16 (s ! i)" using assms(2,3) that by (simp add: list_all_length)
    then show ?thesis using spectrum_q15_exact [of s i q] assms(4) by blast
  qed
  have th1: "in_q15 (th1 ! i)" if "i < length th" for i
  proof -
    have "in_q15 (th ! i)" using assms(1) that by (simp add: thresholds_ok_def list_all_length)
    moreover have "in_q15 (shr (spectrum_q15 s q i) 1)" if "i < 44"
      using q [OF that] shr_nonneg [of "spectrum_q15 s q i" 1] shr_le [of "spectrum_q15 s q i" 1]
      by (auto simp: in_q15_def)
    ultimately show ?thesis using that by (simp add: th1_def)
  qed
  obtain o2 where o: "fold (binary_band s q) [12..<44] (th1, 0) =
      (map (\<lambda>i. if 12 \<le> i \<and> i < 44 then ?T i else th1 ! i) [0..<length th1], o2)"
    "0 \<le> o2" "o2 < 2 ^ 32" "\<forall>j. bit o2 j \<longleftrightarrow> j < 32 \<and> spectrum_q15 s q (12 + j) > ?T (12 + j)"
    using binary_band_loop [of 32 th1 s q] len by auto
  have "th' = map (\<lambda>i. if 12 \<le> i \<and> i < 44 then ?T i else th1 ! i) [0..<length th1]" and r: "out = o2"
    "b' = (if b = 0 \<and> (\<exists>j < 32. s ! (12 + j) > 0) then 1 else b)"
    using assms(5) o(1) threshold_start_loop [of 32 th s q b] len
    by (auto simp: BinarySpectrumFix_def Let_def kBandFirst_def kBandLast_def th1_def split: if_splits)
  then have t: "length th' = length th" "\<And>i. i < length th \<Longrightarrow> th' ! i = (if 12 \<le> i \<and> i < 44 then ?T i else th1 ! i)"
    using len by simp_all
  have "in_q15 (th' ! i)" if "i < length th" for i
    using t(2) [OF that] th1 [OF that] q [of i] MeanEstimatorFix_q15(2) [of "spectrum_q15 s q i" "th1 ! i" 6] by auto
  then have "thresholds_ok th'" using t(1) assms(1) by (simp add: thresholds_ok_def list_all_length)
  moreover have "th1 ! i = th ! i" if "i < length th" "i < 12 \<or> 44 \<le> i" for i
    using that by (auto simp: th1_def)
  ultimately show ?thesis
    using o(2-4) r t len by (auto simp: in_u32_def)
qed


section \<open>The checked interface\<close>

definition farend_wrapper_ok :: "int \<Rightarrow> int DelayEstimatorFarend \<Rightarrow> bool" where
  "farend_wrapper_ok n f \<longleftrightarrow>
     farend_ok (binary_farend f) \<and> farend_history_size (binary_farend f) = n \<and>
     thresholds_ok (mean_far_spectrum f) \<and> length (mean_far_spectrum f) = nat (farend_spectrum_size f)"

definition estimator_wrapper_ok :: "int \<Rightarrow> int DelayEstimator \<Rightarrow> bool" where
  "estimator_wrapper_ok n e \<longleftrightarrow>
     estimator_ok (binary_handle e) \<and> history_size (binary_handle e) = n \<and>
     thresholds_ok (mean_near_spectrum e) \<and> length (mean_near_spectrum e) = nat (spectrum_size e)"

definition spectrum_ok :: "int list \<Rightarrow> int \<Rightarrow> bool" where
  "spectrum_ok s q \<longleftrightarrow> 44 \<le> length s \<and> list_all in_u16 s \<and> 0 \<le> q"

lemma AddFarSpectrumFix_ok:
  assumes "farend_wrapper_ok n f" "spectrum_ok s q"
  shows "case WebRtc_AddFarSpectrumFix (Some f) (Some s) sz q of (h, r) \<Rightarrow>
    if sz = farend_spectrum_size f \<and> q \<le> 15
    then r = 0 \<and> (\<exists>f'. h = Some f' \<and> farend_wrapper_ok n f' \<and> farend_spectrum_size f' = farend_spectrum_size f)
    else r = - 1 \<and> h = Some f"
proof -
  obtain th b out where bs: "BinarySpectrumFix s (mean_far_spectrum f) q (far_spectrum_initialized f) = (th, b, out)"
    by (metis surj_pair)
  have "thresholds_ok th" "length th = length (mean_far_spectrum f)" "in_u32 out"
    using BinarySpectrumFix_spec [OF _ _ _ _ bs] assms by (auto simp: farend_wrapper_ok_def spectrum_ok_def)
  then show ?thesis
    using assms(1) AddBinaryFarSpectrum_ok [of "binary_farend f" out]
    by (simp add: WebRtc_AddFarSpectrumFix_def bs farend_wrapper_ok_def)
qed

lemma DelayEstimatorProcessFix_ok:
  assumes "farend_ok far" "farend_history_size far = n" "estimator_wrapper_ok n e" "spectrum_ok s q"
  shows "case WebRtc_DelayEstimatorProcessFix far (Some e) (Some s) sz q of (h, r) \<Rightarrow>
    if sz = spectrum_size e \<and> q \<le> 15
    then (r = - 2 \<or> 0 \<le> r \<and> r < n) \<and>
      (\<exists>e'. h = Some e' \<and> estimator_wrapper_ok n e' \<and> spectrum_size e' = spectrum_size e \<and> r = last_delay (binary_handle e'))
    else r = - 1 \<and> h = Some e"
proof -
  obtain th b out where bs: "BinarySpectrumFix s (mean_near_spectrum e) q (near_spectrum_initialized e) = (th, b, out)"
    by (metis surj_pair)
  have th: "thresholds_ok th" "length th = length (mean_near_spectrum e)" "in_u32 out"
    using BinarySpectrumFix_spec [OF _ _ _ _ bs] assms by (auto simp: estimator_wrapper_ok_def spectrum_ok_def)
  obtain bin r where p: "WebRtc_ProcessBinarySpectrum far (binary_handle e) out = (bin, r)" by force
  have e: "estimator_ok (binary_handle e)" "history_size (binary_handle e) = n"
    using assms(3) by (simp_all add: estimator_wrapper_ok_def)
  have "estimator_ok bin" "history_size bin = n" "r = last_delay bin"
    using ProcessBinarySpectrum_step [OF assms(1) e(1) _ th(3) p] assms(2) e(2) by auto
  then show ?thesis
    using th assms(3) by (auto simp: WebRtc_DelayEstimatorProcessFix_def bs p estimator_wrapper_ok_def estimator_ok_def)
qed

section \<open>Claims\<close>

text \<open>Bit \<open>j\<close> of the binary spectrum is set exactly when band \<open>12 + j\<close> of the spectrum, scaled
  to Q15 without overflow, lies above its updated running mean; the thresholds outside the
  32 bands are untouched, all thresholds stay non-negative 32-bit values, and the array
  counts as initialised once a band has been positive.\<close>

theorem BinarySpectrumFix_bits:
  assumes "thresholds_ok th" "list_all in_u16 s" "44 \<le> length s" "0 \<le> q"
  shows "case BinarySpectrumFix s th q b of (th', b', out) \<Rightarrow>
    in_u32 out \<and> thresholds_ok th' \<and> length th' = length th \<and>
    (\<forall>j. bit out j \<longleftrightarrow> j < 32 \<and> s ! (12 + j) * 2 ^ nat (15 - q) > th' ! (12 + j)) \<and>
    (\<forall>i < length th. i < 12 \<or> 44 \<le> i \<longrightarrow> th' ! i = th ! i) \<and>
    b' = (if b = 0 \<and> (\<exists>j < 32. s ! (12 + j) > 0) then 1 else b)"
proof -
  obtain th' b' out where bs: "BinarySpectrumFix s th q b = (th', b', out)" by (metis surj_pair)
  have "spectrum_q15 s q (12 + j) = s ! (12 + j) * 2 ^ nat (15 - q)" if "j < 32" for j
    using spectrum_q15_exact [of s "12 + j" q] assms(2-4) that by (simp add: list_all_length)
  then show ?thesis using BinarySpectrumFix_spec [OF assms bs] by (auto simp: bs)
qed

theorem BinarySpectrumFix_bits_witness:
  "case BinarySpectrumFix (replicate 44 5) (replicate 44 0) 15 0 of (th', b', out) \<Rightarrow>
    in_u32 out \<and> (\<forall>j < 32. bit out j \<longleftrightarrow> 5 > th' ! (12 + j)) \<and> b' = 1"
proof -
  have "thresholds_ok (replicate 44 0)" "list_all in_u16 (replicate 44 5)"
    by (auto simp: thresholds_ok_def in_q15_def in_u16_def list_all_iff)
  moreover have "\<exists>j::nat. j < 32" by (rule exI [of _ 0]) simp
  ultimately show ?thesis
    using BinarySpectrumFix_bits [of "replicate 44 0" "replicate 44 5" 15 0]
    by (simp add: split_def cong: conj_cong)
qed

text \<open>C19: The checked interface. Adding a far spectrum or processing a near one fails with -1,
  and leaves everything as it was, exactly on a null handle, a null spectrum, a wrong size or
  a Q-domain above 15. Otherwise the state stays well formed, adding returns 0, and
  processing returns -2 or a delay that indexes the history.\<close>

theorem delay_estimator_interface:
  assumes "farend_wrapper_ok n f" "estimator_wrapper_ok n e" "spectrum_ok s q"
  shows "WebRtc_AddFarSpectrumFix None sp sz q = (None, - 1)
    \<and> WebRtc_AddFarSpectrumFix (Some f) None sz q = (Some f, - 1)
    \<and> WebRtc_DelayEstimatorProcessFix (binary_farend f) None sp sz q = (None, - 1)
    \<and> WebRtc_DelayEstimatorProcessFix (binary_farend f) (Some e) None sz q = (Some e, - 1)
    \<and> (case WebRtc_AddFarSpectrumFix (Some f) (Some s) sz q of (h, r) \<Rightarrow>
        if sz = farend_spectrum_size f \<and> q \<le> 15
        then r = 0 \<and> (\<exists>f'. h = Some f' \<and> farend_wrapper_ok n f' \<and> farend_spectrum_size f' = farend_spectrum_size f)
        else r = - 1 \<and> h = Some f)
    \<and> (case WebRtc_DelayEstimatorProcessFix (binary_farend f) (Some e) (Some s) sz q of (h, r) \<Rightarrow>
        if sz = spectrum_size e \<and> q \<le> 15
        then (r = - 2 \<or> 0 \<le> r \<and> r < n) \<and>
          (\<exists>e'. h = Some e' \<and> estimator_wrapper_ok n e' \<and> spectrum_size e' = spectrum_size e \<and>
            r = last_delay (binary_handle e'))
        else r = - 1 \<and> h = Some e)"
proof -
  have "farend_ok (binary_farend f)" "farend_history_size (binary_farend f) = n"
    using assms(1) by (simp_all add: farend_wrapper_ok_def)
  note p = DelayEstimatorProcessFix_ok [OF this assms(2,3), of sz]
  show ?thesis
    using AddFarSpectrumFix_ok [OF assms(1,3), of sz] p
    by (intro conjI) (simp_all add: WebRtc_AddFarSpectrumFix_def WebRtc_DelayEstimatorProcessFix_def)
qed

definition sample_far_wrapper :: "int DelayEstimatorFarend" where
  "sample_far_wrapper = \<lparr>mean_far_spectrum = replicate 44 0, far_spectrum_initialized = 0, farend_spectrum_size = 44,
     binary_farend = sample_farend\<rparr>"

definition sample_wrapper :: "int DelayEstimator" where
  "sample_wrapper = \<lparr>mean_near_spectrum = replicate 44 0, near_spectrum_initialized = 0, spectrum_size = 44,
     binary_handle = sample_estimator\<rparr>"

theorem delay_estimator_interface_witness:
  "snd (WebRtc_AddFarSpectrumFix (Some sample_far_wrapper) (Some (replicate 44 9)) 44 3) = 0 \<and>
   snd (WebRtc_AddFarSpectrumFix (Some sample_far_wrapper) (Some (replicate 44 9)) 43 3) = - 1"
proof -
  have "farend_wrapper_ok 3 sample_far_wrapper" "estimator_wrapper_ok 3 sample_wrapper" "spectrum_ok (replicate 44 9) 3"
    by (simp_all add: farend_wrapper_ok_def estimator_wrapper_ok_def spectrum_ok_def sample_far_wrapper_def
        sample_wrapper_def sample_farend_def sample_estimator_def farend_ok_def estimator_ok_def thresholds_ok_def
        in_q15_def in_u16_def in_u32_def list_all_iff)
  note w = delay_estimator_interface [OF this]
  have "farend_spectrum_size sample_far_wrapper = 44" by (simp add: sample_far_wrapper_def)
  then show ?thesis using w [of None 44] w [of None 43] by (simp add: split_def)
qed

section \<open>Creation and initialisation establish the invariant\<close>

definition farend_shape :: "int \<Rightarrow> int \<Rightarrow> int DelayEstimatorFarend \<Rightarrow> bool" where
  "farend_shape n k f \<longleftrightarrow> 0 < n \<and> 44 \<le> k \<and> farend_history_size (binary_farend f) = n \<and> farend_spectrum_size f = k \<and>
     length (binary_far_history (binary_farend f)) = nat n \<and> length (far_bit_counts (binary_farend f)) = nat n \<and>
     length (mean_far_spectrum f) = nat k"

definition estimator_shape :: "int \<Rightarrow> int \<Rightarrow> int DelayEstimator \<Rightarrow> bool" where
  "estimator_shape n k e \<longleftrightarrow> 0 < n \<and> 44 \<le> k \<and> history_size (binary_handle e) = n \<and> spectrum_size e = k \<and>
     length (mean_bit_counts (binary_handle e)) = nat n + 1 \<and> length (bit_counts (binary_handle e)) = nat n \<and>
     length (histogram (binary_handle e)) = nat n + 1 \<and>
     length (binary_near_history (binary_handle e)) = nat (near_history_size (binary_handle e)) \<and>
     0 \<le> lookahead (binary_handle e) \<and> lookahead (binary_handle e) < near_history_size (binary_handle e) \<and>
     length (mean_near_spectrum e) = nat k"

lemma InitDelayEstimatorFarend_ok:
  assumes "farend_shape n k f"
  shows "\<exists>f'. WebRtc_InitDelayEstimatorFarend (Some f) = (Some f', 0) \<and> farend_wrapper_ok n f' \<and> farend_spectrum_size f' = k"
  using assms
  by (simp add: WebRtc_InitDelayEstimatorFarend_def farend_shape_def farend_wrapper_ok_def farend_ok_def thresholds_ok_def
      WebRtc_InitBinaryDelayEstimatorFarend_def mem_zero_all list_all_iff in_u32_def in_q15_def le_nat_iff)

lemma InitDelayEstimator_ok:
  assumes "estimator_shape n k e"
  shows "\<exists>e'. WebRtc_InitDelayEstimator (Some e) = (Some e', 0) \<and> estimator_wrapper_ok n e' \<and> spectrum_size e' = k"
proof -
  have "shl32 20 9 = 10240" by (simp add: shl32_def i32_def)
  then show ?thesis
    using assms
    by (simp add: WebRtc_InitDelayEstimator_def estimator_shape_def estimator_wrapper_ok_def estimator_ok_def thresholds_ok_def
        WebRtc_InitBinaryDelayEstimator_def Let_def mem_zero_all list_all_iff in_u32_def in_q15_def kMaxBitCountsQ9_def fold_set_all le_nat_iff
        del: upt_Suc fold_simps)
qed

lemma CreateDelayEstimatorFarend_shape:
  assumes "44 \<le> k" "1 < n"
  shows "\<exists>f. WebRtc_CreateDelayEstimatorFarend True True True True True g gs k n = Some f \<and> farend_shape n k f"
proof -
  have "int kBandLast \<le> k" using assms(1) by (simp add: kBandLast_def)
  then show ?thesis
    using assms by (simp add: WebRtc_CreateDelayEstimatorFarend_def WebRtc_CreateBinaryDelayEstimatorFarend_def
        WebRtc_AllocateFarendBufferMemory_def Let_def length_c_realloc farend_shape_def length_mem_zero)
qed

lemma CreateDelayEstimator_shape:
  assumes "farend_shape n k f" "0 \<le> la"
  shows "\<exists>e. WebRtc_CreateDelayEstimator True True True True True True True g gs (Some f) la = Some e \<and> estimator_shape n k e"
  using assms
  by (simp add: WebRtc_CreateDelayEstimator_def WebRtc_CreateBinaryDelayEstimator_def farend_shape_def
      WebRtc_AllocateHistoryBufferMemory_def Let_def length_c_realloc estimator_shape_def length_mem_zero nat_add_distrib)

end
