(* ===== verification/Aecm_Core.thy ===== *)
theory Aecm_Core
  imports Ring_Buffer Spl_Math Spl_Fft Delay_Estimator_Wrapper
begin

unbundle bit_operations_syntax

text \<open>
  \<open>src/webrtc/modules/audio_processing/aecm/aecm_core.c\<close> without the frame loop: the state of
  the echo canceller, its creation and initialisation, the far-end history, the energies and
  the channel estimation. The aligned pointers (\<open>xBuf\<close>, \<open>channelStored\<close>, ...) and the
  over-allocated arrays they point into are one array each. The pointers into memory that
  other functions hand back are the elements they point to.
\<close>

section \<open>Constants\<close>

definition FRAME_LEN :: nat where "FRAME_LEN = 80"

definition PART_LEN :: nat where "PART_LEN = 256"

definition PART_LEN_SHIFT :: int where "PART_LEN_SHIFT = 9"

definition PART_LEN1 :: nat where "PART_LEN1 = PART_LEN + 1"

definition PART_LEN2 :: nat where "PART_LEN2 = PART_LEN * 2"

definition PART_LEN4 :: nat where "PART_LEN4 = PART_LEN * 4"

definition FAR_BUF_LEN :: nat where "FAR_BUF_LEN = PART_LEN4"

definition MAX_DELAY :: nat where "MAX_DELAY = 25"

definition CONV_LEN :: int where "CONV_LEN = 512"

definition CONV_LEN2 :: int where "CONV_LEN2 = shl32 CONV_LEN 1"

definition MAX_BUF_LEN :: nat where "MAX_BUF_LEN = 64"

definition FAR_ENERGY_MIN :: int where "FAR_ENERGY_MIN = 1025"

definition FAR_ENERGY_DIFF :: int where "FAR_ENERGY_DIFF = 929"

definition ENERGY_DEV_OFFSET :: int where "ENERGY_DEV_OFFSET = 0"

definition ENERGY_DEV_TOL :: int where "ENERGY_DEV_TOL = 400"

definition FAR_ENERGY_VAD_REGION :: int where "FAR_ENERGY_VAD_REGION = 230"

definition MU_MIN :: int where "MU_MIN = 10"

definition MU_MAX :: int where "MU_MAX = 1"

definition MU_DIFF :: int where "MU_DIFF = 9"

definition MIN_MSE_COUNT :: nat where "MIN_MSE_COUNT = 20"

definition MIN_MSE_DIFF :: int where "MIN_MSE_DIFF = 29"

definition MSE_RESOLUTION :: int where "MSE_RESOLUTION = 5"

definition RESOLUTION_CHANNEL16 :: int where "RESOLUTION_CHANNEL16 = 12"

definition RESOLUTION_CHANNEL32 :: int where "RESOLUTION_CHANNEL32 = 28"

definition CHANNEL_VAD :: int where "CHANNEL_VAD = 16"

definition RESOLUTION_SUPGAIN :: int where "RESOLUTION_SUPGAIN = 8"

definition SUPGAIN_DEFAULT :: int where "SUPGAIN_DEFAULT = shl32 1 RESOLUTION_SUPGAIN"

definition SUPGAIN_ERROR_PARAM_A :: int where "SUPGAIN_ERROR_PARAM_A = 16 * SUPGAIN_DEFAULT"

definition SUPGAIN_ERROR_PARAM_B :: int where "SUPGAIN_ERROR_PARAM_B = 8 * SUPGAIN_DEFAULT"

definition SUPGAIN_ERROR_PARAM_D :: int where "SUPGAIN_ERROR_PARAM_D = 3 * SUPGAIN_DEFAULT"

definition SUPGAIN_EPC_DT :: int where "SUPGAIN_EPC_DT = 200"

definition ONE_Q14 :: int where "ONE_Q14 = shl32 1 14"

definition NLP_COMP_LOW :: int where "NLP_COMP_LOW = 8192"

definition NLP_COMP_HIGH :: int where "NLP_COMP_HIGH = ONE_Q14"

definition NOISEGATE :: rat where "NOISEGATE = f32 (f32 (f32 (149 / 10000000000) * 32768) * 32768)"

definition AecmTrue :: int where "AecmTrue = 1"

definition AecmFalse :: int where "AecmFalse = 0"

definition WebRtcAecm_kCosTable :: "int list" where
  "WebRtcAecm_kCosTable = [
    8192, 8190, 8187, 8180, 8172, 8160, 8147, 8130, 8112, 8091, 8067, 8041, 8012, 7982, 7948, 7912,
    7874, 7834, 7791, 7745, 7697, 7647, 7595, 7540, 7483, 7424, 7362, 7299, 7233, 7164, 7094, 7021,
    6947, 6870, 6791, 6710, 6627, 6542, 6455, 6366, 6275, 6182, 6087, 5991, 5892, 5792, 5690, 5586,
    5481, 5374, 5265, 5155, 5043, 4930, 4815, 4698, 4580, 4461, 4341, 4219, 4096, 3971, 3845, 3719,
    3591, 3462, 3331, 3200, 3068, 2935, 2801, 2667, 2531, 2395, 2258, 2120, 1981, 1842, 1703, 1563,
    1422, 1281, 1140, 998, 856, 713, 571, 428, 285, 142, 0, - 142, - 285, - 428, - 571, - 713,
    - 856, - 998, - 1140, - 1281, - 1422, - 1563, - 1703, - 1842, - 1981, - 2120, - 2258, - 2395, - 2531, - 2667, - 2801, - 2935,
    - 3068, - 3200, - 3331, - 3462, - 3591, - 3719, - 3845, - 3971, - 4095, - 4219, - 4341, - 4461, - 4580, - 4698, - 4815, - 4930,
    - 5043, - 5155, - 5265, - 5374, - 5481, - 5586, - 5690, - 5792, - 5892, - 5991, - 6087, - 6182, - 6275, - 6366, - 6455, - 6542,
    - 6627, - 6710, - 6791, - 6870, - 6947, - 7021, - 7094, - 7164, - 7233, - 7299, - 7362, - 7424, - 7483, - 7540, - 7595, - 7647,
    - 7697, - 7745, - 7791, - 7834, - 7874, - 7912, - 7948, - 7982, - 8012, - 8041, - 8067, - 8091, - 8112, - 8130, - 8147, - 8160,
    - 8172, - 8180, - 8187, - 8190, - 8191, - 8190, - 8187, - 8180, - 8172, - 8160, - 8147, - 8130, - 8112, - 8091, - 8067, - 8041,
    - 8012, - 7982, - 7948, - 7912, - 7874, - 7834, - 7791, - 7745, - 7697, - 7647, - 7595, - 7540, - 7483, - 7424, - 7362, - 7299,
    - 7233, - 7164, - 7094, - 7021, - 6947, - 6870, - 6791, - 6710, - 6627, - 6542, - 6455, - 6366, - 6275, - 6182, - 6087, - 5991,
    - 5892, - 5792, - 5690, - 5586, - 5481, - 5374, - 5265, - 5155, - 5043, - 4930, - 4815, - 4698, - 4580, - 4461, - 4341, - 4219,
    - 4096, - 3971, - 3845, - 3719, - 3591, - 3462, - 3331, - 3200, - 3068, - 2935, - 2801, - 2667, - 2531, - 2395, - 2258, - 2120,
    - 1981, - 1842, - 1703, - 1563, - 1422, - 1281, - 1140, - 998, - 856, - 713, - 571, - 428, - 285, - 142, 0, 142,
    285, 428, 571, 713, 856, 998, 1140, 1281, 1422, 1563, 1703, 1842, 1981, 2120, 2258, 2395,
    2531, 2667, 2801, 2935, 3068, 3200, 3331, 3462, 3591, 3719, 3845, 3971, 4095, 4219, 4341, 4461,
    4580, 4698, 4815, 4930, 5043, 5155, 5265, 5374, 5481, 5586, 5690, 5792, 5892, 5991, 6087, 6182,
    6275, 6366, 6455, 6542, 6627, 6710, 6791, 6870, 6947, 7021, 7094, 7164, 7233, 7299, 7362, 7424,
    7483, 7540, 7595, 7647, 7697, 7745, 7791, 7834, 7874, 7912, 7948, 7982, 8012, 8041, 8067, 8091,
    8112, 8130, 8147, 8160, 8172, 8180, 8187, 8190]"

definition WebRtcAecm_kSinTable :: "int list" where
  "WebRtcAecm_kSinTable = [
    0, 142, 285, 428, 571, 713, 856, 998, 1140, 1281, 1422, 1563, 1703, 1842, 1981, 2120,
    2258, 2395, 2531, 2667, 2801, 2935, 3068, 3200, 3331, 3462, 3591, 3719, 3845, 3971, 4095, 4219,
    4341, 4461, 4580, 4698, 4815, 4930, 5043, 5155, 5265, 5374, 5481, 5586, 5690, 5792, 5892, 5991,
    6087, 6182, 6275, 6366, 6455, 6542, 6627, 6710, 6791, 6870, 6947, 7021, 7094, 7164, 7233, 7299,
    7362, 7424, 7483, 7540, 7595, 7647, 7697, 7745, 7791, 7834, 7874, 7912, 7948, 7982, 8012, 8041,
    8067, 8091, 8112, 8130, 8147, 8160, 8172, 8180, 8187, 8190, 8191, 8190, 8187, 8180, 8172, 8160,
    8147, 8130, 8112, 8091, 8067, 8041, 8012, 7982, 7948, 7912, 7874, 7834, 7791, 7745, 7697, 7647,
    7595, 7540, 7483, 7424, 7362, 7299, 7233, 7164, 7094, 7021, 6947, 6870, 6791, 6710, 6627, 6542,
    6455, 6366, 6275, 6182, 6087, 5991, 5892, 5792, 5690, 5586, 5481, 5374, 5265, 5155, 5043, 4930,
    4815, 4698, 4580, 4461, 4341, 4219, 4096, 3971, 3845, 3719, 3591, 3462, 3331, 3200, 3068, 2935,
    2801, 2667, 2531, 2395, 2258, 2120, 1981, 1842, 1703, 1563, 1422, 1281, 1140, 998, 856, 713,
    571, 428, 285, 142, 0, - 142, - 285, - 428, - 571, - 713, - 856, - 998, - 1140, - 1281, - 1422, - 1563,
    - 1703, - 1842, - 1981, - 2120, - 2258, - 2395, - 2531, - 2667, - 2801, - 2935, - 3068, - 3200, - 3331, - 3462, - 3591, - 3719,
    - 3845, - 3971, - 4095, - 4219, - 4341, - 4461, - 4580, - 4698, - 4815, - 4930, - 5043, - 5155, - 5265, - 5374, - 5481, - 5586,
    - 5690, - 5792, - 5892, - 5991, - 6087, - 6182, - 6275, - 6366, - 6455, - 6542, - 6627, - 6710, - 6791, - 6870, - 6947, - 7021,
    - 7094, - 7164, - 7233, - 7299, - 7362, - 7424, - 7483, - 7540, - 7595, - 7647, - 7697, - 7745, - 7791, - 7834, - 7874, - 7912,
    - 7948, - 7982, - 8012, - 8041, - 8067, - 8091, - 8112, - 8130, - 8147, - 8160, - 8172, - 8180, - 8187, - 8190, - 8191, - 8190,
    - 8187, - 8180, - 8172, - 8160, - 8147, - 8130, - 8112, - 8091, - 8067, - 8041, - 8012, - 7982, - 7948, - 7912, - 7874, - 7834,
    - 7791, - 7745, - 7697, - 7647, - 7595, - 7540, - 7483, - 7424, - 7362, - 7299, - 7233, - 7164, - 7094, - 7021, - 6947, - 6870,
    - 6791, - 6710, - 6627, - 6542, - 6455, - 6366, - 6275, - 6182, - 6087, - 5991, - 5892, - 5792, - 5690, - 5586, - 5481, - 5374,
    - 5265, - 5155, - 5043, - 4930, - 4815, - 4698, - 4580, - 4461, - 4341, - 4219, - 4096, - 3971, - 3845, - 3719, - 3591, - 3462,
    - 3331, - 3200, - 3068, - 2935, - 2801, - 2667, - 2531, - 2395, - 2258, - 2120, - 1981, - 1842, - 1703, - 1563, - 1422, - 1281,
    - 1140, - 998, - 856, - 713, - 571, - 428, - 285, - 142]"

text \<open>The initialisers give 65 values; C fills the remaining 192 elements with zero.\<close>

definition kChannelStored8kHz :: "int list" where
  "kChannelStored8kHz = [
    2040, 1815, 1590, 1498, 1405, 1395, 1385, 1418, 1451, 1506, 1562, 1644, 1726, 1804, 1882, 1918,
    1953, 1982, 2010, 2025, 2040, 2034, 2027, 2021, 2014, 1997, 1980, 1925, 1869, 1800, 1732, 1683,
    1635, 1604, 1572, 1545, 1517, 1481, 1444, 1405, 1367, 1331, 1294, 1270, 1245, 1239, 1233, 1247,
    1260, 1282, 1303, 1338, 1373, 1407, 1441, 1470, 1499, 1524, 1549, 1565, 1582, 1601, 1621, 1649,
    1676] @ replicate 192 0"

definition kChannelStored16kHz :: "int list" where
  "kChannelStored16kHz = [
    2040, 1590, 1405, 1385, 1451, 1562, 1726, 1882, 1953, 2010, 2040, 2027, 2014, 1980, 1869, 1732,
    1635, 1572, 1517, 1444, 1367, 1294, 1245, 1233, 1260, 1303, 1373, 1441, 1499, 1549, 1582, 1621,
    1676, 1741, 1802, 1861, 1921, 1983, 2040, 2102, 2170, 2265, 2375, 2515, 2651, 2781, 2922, 3075,
    3253, 3471, 3738, 3976, 4151, 4258, 4308, 4288, 4270, 4253, 4237, 4179, 4086, 3947, 3757, 3484,
    3153] @ replicate 192 0"

section \<open>State\<close>

type_synonym ComplexInt16 = "int \<times> int"

record AecmFloat =
  FarSpectrumHistory :: "rat list"
  FarWritePosition :: int
  NearSpectrum :: "rat list"
  EchoEstSpectrum :: "rat list"
  ErrorSpectrum :: "rat list"
  ErrorPower :: "rat list"
  FarPower :: "rat list"
  NearPower :: "rat list"
  EchoPower :: "rat list"
  FarNoise :: "rat list"
  NearNoise :: "rat list"
  CrossRelation :: "rat list"
  AutoRelation :: "rat list"
  float_gain :: "rat list"
  float_H :: "rat list"
  SmoothFactor :: rat

record AecmCore =
  farBufWritePos :: int
  farBufReadPos :: int
  knownDelay :: int
  lastKnownDelay :: int
  firstVAD :: int
  farFrameBuf :: "int RingBuffer option"
  nearNoisyFrameBuf :: "int RingBuffer option"
  nearCleanFrameBuf :: "int RingBuffer option"
  outFrameBuf :: "int RingBuffer option"
  farBuf :: samples
  mult :: int
  seed :: int
  delay_estimator_farend :: "int DelayEstimatorFarend option"
  delay_estimator :: "int DelayEstimator option"
  currentDelay :: int
  far_history :: "int list"
  far_history_complex :: "ComplexInt16 list"
  far_history_pos :: int
  far_q_domains :: "int list"
  nlpFlag :: int
  fixedDelay :: int
  totCount :: int
  dfaCleanQDomain :: int
  dfaCleanQDomainOld :: int
  dfaNoisyQDomain :: int
  dfaNoisyQDomainOld :: int
  nearLogEnergy :: "int list"
  farLogEnergy :: int
  echoAdaptLogEnergy :: "int list"
  echoStoredLogEnergy :: "int list"
  channelStored :: "int list"
  channelAdapt16 :: "int list"
  channelAdapt32 :: "int list"
  xBuf :: samples
  dBufClean :: samples
  dBufNoisy :: samples
  outBuf :: samples
  echoFilt :: "int list"
  nearFilt :: "int list"
  noiseEst :: "int list"
  noiseEstTooLowCtr :: "int list"
  noiseEstTooHighCtr :: "int list"
  noiseEstCtr :: int
  cngMode :: int
  mseAdaptOld :: int
  mseStoredOld :: int
  mseThreshold :: int
  farEnergyMin :: int
  farEnergyMax :: int
  farEnergyMaxMin :: int
  farEnergyVAD :: int
  farEnergyMSE :: int
  currentVADValue :: int
  vadUpdateCount :: int
  startupState :: int
  mseChannelCount :: int
  supGain :: int
  supGainOld :: int
  supGainErrParamA :: int
  supGainErrParamD :: int
  supGainErrParamDiffAB :: int
  supGainErrParamDiffBD :: int
  real_fft :: "RealFFT option"
  enablefloatpro :: int
  aecmfloat :: AecmFloat

section \<open>The far-end history\<close>

definition WebRtcAecm_UpdateFarHistory :: "AecmCore \<Rightarrow> int list \<Rightarrow> ComplexInt16 list \<Rightarrow> int \<Rightarrow> AecmCore" where
  "WebRtcAecm_UpdateFarHistory self far_spectrum far_spectrum_complex far_q =
     (let pos = i32 (far_history_pos self + 1);
          pos = (if pos \<ge> int MAX_DELAY then 0 else pos)
      in self\<lparr>far_history_pos := pos,
              far_q_domains := (far_q_domains self)[nat pos := far_q],
              far_history := mem_copy (far_history self) (nat pos * PART_LEN1) (take PART_LEN1 far_spectrum),
              far_history_complex :=
                mem_copy (far_history_complex self) (nat pos * PART_LEN1) (take PART_LEN1 far_spectrum_complex)\<rparr>)"

text \<open>The result: the Q-domain and the elements the returned pointer refers to.\<close>

definition WebRtcAecm_AlignedFarend :: "AecmCore \<Rightarrow> int \<Rightarrow> int \<times> int list" where
  "WebRtcAecm_AlignedFarend self delay =
     (let buffer_position = i32 (far_history_pos self - delay);
          buffer_position = (if buffer_position < 0 then buffer_position + int MAX_DELAY else buffer_position)
      in (far_q_domains self ! nat buffer_position,
          mem_slice (far_history self) (nat buffer_position * PART_LEN1) PART_LEN1))"

section \<open>Creation and initialisation\<close>

text \<open>
  \<open>raw\<close> is what the memory of the structure holds after \<open>malloc\<close>; \<open>ok i\<close> says whether the
  \<open>i\<close>-th later allocation succeeds, \<open>g\<close> what the memory of the estimators holds. The code
  does not check the first \<open>malloc\<close>, which is taken to succeed.
\<close>

definition WebRtcAecm_CreateCore :: "(nat \<Rightarrow> bool) \<Rightarrow> (nat \<Rightarrow> int) \<Rightarrow> AecmCore \<Rightarrow> AecmCore option" where
  "WebRtcAecm_CreateCore ok g raw =
     (case WebRtc_CreateBuffer (ok 0) (ok 1) (FRAME_LEN + PART_LEN) 2 of None \<Rightarrow> None | Some far_frame \<Rightarrow>
      (case WebRtc_CreateBuffer (ok 2) (ok 3) (FRAME_LEN + PART_LEN) 2 of None \<Rightarrow> None | Some noisy_frame \<Rightarrow>
       (case WebRtc_CreateBuffer (ok 4) (ok 5) (FRAME_LEN + PART_LEN) 2 of None \<Rightarrow> None | Some clean_frame \<Rightarrow>
        (case WebRtc_CreateBuffer (ok 6) (ok 7) (FRAME_LEN + PART_LEN) 2 of None \<Rightarrow> None | Some out_frame \<Rightarrow>
         (case WebRtc_CreateDelayEstimatorFarend (ok 8) (ok 9) (ok 10) (ok 11) (ok 12) g g (int PART_LEN1) (int MAX_DELAY) of
            None \<Rightarrow> None
          | Some farend \<Rightarrow>
             (case WebRtc_CreateDelayEstimator (ok 13) (ok 14) (ok 15) (ok 16) (ok 17) (ok 18) (ok 19) g g (Some farend) 0 of
                None \<Rightarrow> None
              | Some estimator \<Rightarrow>
                 (let (handle, _) = WebRtc_enable_robust_validation (Some estimator) 0
                  in (case WebRtcSpl_CreateRealFFT (ok 20) PART_LEN_SHIFT of None \<Rightarrow> None
                      | Some fft \<Rightarrow>
                         Some (raw\<lparr>farFrameBuf := Some far_frame, nearNoisyFrameBuf := Some noisy_frame,
                                   nearCleanFrameBuf := Some clean_frame, outFrameBuf := Some out_frame,
                                   delay_estimator_farend := Some farend, delay_estimator := handle,
                                   real_fft := Some fft\<rparr>)))))))))"

definition WebRtcAecm_InitEchoPathCore :: "AecmCore \<Rightarrow> int list \<Rightarrow> AecmCore" where
  "WebRtcAecm_InitEchoPathCore aecm echo_path =
     (let aecm = aecm\<lparr>channelStored := mem_copy (channelStored aecm) 0 (take PART_LEN1 echo_path)\<rparr>;
          aecm = aecm\<lparr>channelAdapt16 := mem_copy (channelAdapt16 aecm) 0 (take PART_LEN1 echo_path)\<rparr>;
          aecm = aecm\<lparr>channelAdapt32 :=
                   fold (\<lambda>i c. c[i := shl32 (channelAdapt16 aecm ! i) 16]) [0..<PART_LEN1] (channelAdapt32 aecm)\<rparr>
      in aecm\<lparr>mseAdaptOld := 1000, mseStoredOld := 1000, mseThreshold := WEBRTC_SPL_WORD32_MAX, mseChannelCount := 0\<rparr>)"

text \<open>One band of \<open>CalcLinearEnergiesC\<close>: estimate, far energy, adapted and stored echo energy.\<close>

definition linear_energy_step :: "AecmCore \<Rightarrow> int list \<Rightarrow> nat \<Rightarrow> int list \<times> int \<times> int \<times> int \<Rightarrow> int list \<times> int \<times> int \<times> int" where
  "linear_energy_step aecm far_spectrum i = (\<lambda>(echo_est, far_energy, echo_energy_adapt, echo_energy_stored).
     (let est = WEBRTC_SPL_MUL_16_U16 (channelStored aecm ! i) (far_spectrum ! i)
      in (echo_est[i := est], u32 (far_energy + u32 (far_spectrum ! i)),
          u32 (echo_energy_adapt + i32 (channelAdapt16 aecm ! i * far_spectrum ! i)),
          u32 (echo_energy_stored + u32 est))))"

definition CalcLinearEnergiesC :: "AecmCore \<Rightarrow> int list \<Rightarrow> int list \<times> int \<times> int \<times> int \<Rightarrow> int list \<times> int \<times> int \<times> int" where
  "CalcLinearEnergiesC aecm far_spectrum outs = fold (linear_energy_step aecm far_spectrum) [0..<PART_LEN1] outs"

definition store_four :: "(nat \<Rightarrow> int) \<Rightarrow> nat \<Rightarrow> int list \<Rightarrow> int list" where
  "store_four f i xs = xs[i := f i, i + 1 := f (i + 1), i + 2 := f (i + 2), i + 3 := f (i + 3)]"

definition StoreAdaptiveChannelC :: "AecmCore \<Rightarrow> int list \<Rightarrow> int list \<Rightarrow> AecmCore \<times> int list" where
  "StoreAdaptiveChannelC aecm far_spectrum echo_est =
     (let aecm = aecm\<lparr>channelStored := mem_copy (channelStored aecm) 0 (take PART_LEN1 (channelAdapt16 aecm))\<rparr>;
          est = (\<lambda>i. WEBRTC_SPL_MUL_16_U16 (channelStored aecm ! i) (far_spectrum ! i));
          echo_est = fold (store_four est) (loop_steps 0 PART_LEN 4) echo_est
      in (aecm, echo_est[PART_LEN := est PART_LEN]))"

definition ResetAdaptiveChannelC :: "AecmCore \<Rightarrow> AecmCore" where
  "ResetAdaptiveChannelC aecm =
     (let aecm = aecm\<lparr>channelAdapt16 := mem_copy (channelAdapt16 aecm) 0 (take PART_LEN1 (channelStored aecm))\<rparr>;
          wide = (\<lambda>i. shl32 (channelStored aecm ! i) 16);
          adapt32 = fold (store_four wide) (loop_steps 0 PART_LEN 4) (channelAdapt32 aecm)
      in aecm\<lparr>channelAdapt32 := adapt32[PART_LEN := wide PART_LEN]\<rparr>)"

text \<open>
  The two loops that shape the initial noise level: \<open>(noiseEst, tmp16, tmp32)\<close>.
\<close>

definition pink_noise_step :: "nat \<Rightarrow> int list \<times> int \<times> int \<Rightarrow> int list \<times> int \<times> int" where
  "pink_noise_step i = (\<lambda>(noise, tmp16, tmp32).
     (let noise = noise[i := shl32 tmp32 8]; tmp16 = i16 (tmp16 - 1)
      in (noise, tmp16, i32 (tmp32 - (shl32 tmp16 1 + 1)))))"

definition initial_noise :: "int list \<Rightarrow> int list" where
  "initial_noise noise =
     (let m = PART_LEN1 div 2 - 1;
          (noise, _, tmp32) = fold pink_noise_step [0..<m] (noise, int PART_LEN1, int (PART_LEN1 * PART_LEN1))
      in fold (\<lambda>i n. n[i := shl32 tmp32 8]) [m..<PART_LEN1] noise)"

definition initial_float :: AecmFloat where
  "initial_float =
     \<lparr>FarSpectrumHistory = replicate (PART_LEN2 * MAX_DELAY) 0, FarWritePosition = 0,
      NearSpectrum = replicate PART_LEN2 0, EchoEstSpectrum = replicate PART_LEN2 0,
      ErrorSpectrum = replicate PART_LEN2 0, ErrorPower = replicate PART_LEN1 0,
      FarPower = replicate PART_LEN1 0, NearPower = replicate PART_LEN1 0, EchoPower = replicate PART_LEN1 0,
      FarNoise = replicate PART_LEN1 (f32 (NOISEGATE * 10000)), NearNoise = replicate PART_LEN1 (f32 (NOISEGATE * 10000)),
      CrossRelation = replicate PART_LEN2 0, AutoRelation = replicate PART_LEN2 0,
      float_gain = replicate PART_LEN1 0, float_H = replicate PART_LEN2 0, SmoothFactor = f32 (6 / 10)\<rparr>"

text \<open>
  \<open>WebRtcAecm_InitCore\<close> in three parts: the signal buffers, up to the initialisation of the
  estimators; the history and the channel; the noise, the energy levels and the gains.
\<close>

definition init_core_buffers :: "AecmCore \<Rightarrow> int \<Rightarrow> AecmCore" where
  "init_core_buffers aecm samplingFreq =
     aecm\<lparr>mult := i16 samplingFreq sdiv 8000,
          farBufWritePos := 0, farBufReadPos := 0, knownDelay := 0, lastKnownDelay := 0,
          farFrameBuf := map_option WebRtc_InitBuffer (farFrameBuf aecm),
          nearNoisyFrameBuf := map_option WebRtc_InitBuffer (nearNoisyFrameBuf aecm),
          nearCleanFrameBuf := map_option WebRtc_InitBuffer (nearCleanFrameBuf aecm),
          outFrameBuf := map_option WebRtc_InitBuffer (outFrameBuf aecm),
          xBuf := replicate PART_LEN2 0, dBufClean := replicate PART_LEN2 0,
          dBufNoisy := replicate PART_LEN2 0, outBuf := replicate PART_LEN 0,
          seed := 666, totCount := 0\<rparr>"

definition init_core_history :: "AecmCore \<Rightarrow> int \<Rightarrow> AecmCore" where
  "init_core_history aecm samplingFreq =
     (let aecm = aecm\<lparr>far_history := replicate (PART_LEN1 * MAX_DELAY) 0,
                      far_history_complex := replicate (PART_LEN1 * MAX_DELAY) (0, 0),
                      far_q_domains := replicate MAX_DELAY 0, far_history_pos := int MAX_DELAY,
                      nlpFlag := 1, fixedDelay := - 1,
                      dfaCleanQDomain := 0, dfaCleanQDomainOld := 0, dfaNoisyQDomain := 0, dfaNoisyQDomainOld := 0,
                      nearLogEnergy := replicate MAX_BUF_LEN 0, farLogEnergy := 0,
                      echoAdaptLogEnergy := replicate MAX_BUF_LEN 0, echoStoredLogEnergy := replicate MAX_BUF_LEN 0\<rparr>
      in WebRtcAecm_InitEchoPathCore aecm (if samplingFreq = 8000 then kChannelStored8kHz else kChannelStored16kHz))"

definition init_core_levels :: "AecmCore \<Rightarrow> AecmCore" where
  "init_core_levels aecm =
     aecm\<lparr>echoFilt := replicate PART_LEN1 0, nearFilt := replicate PART_LEN1 0, noiseEstCtr := 0, cngMode := AecmTrue,
          noiseEstTooLowCtr := replicate PART_LEN1 0, noiseEstTooHighCtr := replicate PART_LEN1 0,
          noiseEst := initial_noise (noiseEst aecm),
          farEnergyMin := WEBRTC_SPL_WORD16_MAX, farEnergyMax := WEBRTC_SPL_WORD16_MIN, farEnergyMaxMin := 0,
          farEnergyVAD := FAR_ENERGY_MIN, farEnergyMSE := 0, currentVADValue := 0, vadUpdateCount := 0, firstVAD := 1,
          startupState := 0, supGain := SUPGAIN_DEFAULT, supGainOld := SUPGAIN_DEFAULT,
          supGainErrParamA := SUPGAIN_ERROR_PARAM_A, supGainErrParamD := SUPGAIN_ERROR_PARAM_D,
          supGainErrParamDiffAB := SUPGAIN_ERROR_PARAM_A - SUPGAIN_ERROR_PARAM_B,
          supGainErrParamDiffBD := SUPGAIN_ERROR_PARAM_B - SUPGAIN_ERROR_PARAM_D,
          enablefloatpro := 1, aecmfloat := initial_float\<rparr>"

definition WebRtcAecm_InitCore :: "AecmCore \<Rightarrow> int \<Rightarrow> AecmCore \<times> int" where
  "WebRtcAecm_InitCore aecm samplingFreq =
     (if samplingFreq \<noteq> 8000 \<and> samplingFreq \<noteq> 16000 then (aecm, - 1)
      else
        (let aecm = init_core_buffers aecm samplingFreq;
             (farend, r1) = WebRtc_InitDelayEstimatorFarend (delay_estimator_farend aecm);
             aecm = aecm\<lparr>delay_estimator_farend := farend\<rparr>
         in if r1 \<noteq> 0 then (aecm, - 1)
            else
              (let (estimator, r2) = WebRtc_InitDelayEstimator (delay_estimator aecm);
                   aecm = aecm\<lparr>delay_estimator := estimator\<rparr>
               in if r2 \<noteq> 0 then (aecm, - 1)
                  else (init_core_levels (init_core_history aecm samplingFreq), 0))))"

definition WebRtcAecm_Control :: "AecmCore \<Rightarrow> int \<Rightarrow> int \<Rightarrow> AecmCore \<times> int" where
  "WebRtcAecm_Control aecm delay flag = (aecm\<lparr>nlpFlag := i16 flag, fixedDelay := i16 delay\<rparr>, 0)"

section \<open>Energies\<close>

definition WebRtcAecm_AsymFilt :: "int \<Rightarrow> int \<Rightarrow> int \<Rightarrow> int \<Rightarrow> int" where
  "WebRtcAecm_AsymFilt filtOld inVal stepSizePos stepSizeNeg =
     (if filtOld = WEBRTC_SPL_WORD16_MAX \<or> filtOld = WEBRTC_SPL_WORD16_MIN then inVal
      else if filtOld > inVal then i16 (filtOld - shr (filtOld - inVal) stepSizeNeg)
      else i16 (filtOld + shr (inVal - filtOld) stepSizePos))"

definition ExtractFractionPart :: "int \<Rightarrow> int \<Rightarrow> int" where
  "ExtractFractionPart a zeros = i16 (shr (shlu32 a zeros AND 0x7FFFFFFF) 23)"

definition LogOfEnergyInQ8 :: "int \<Rightarrow> int \<Rightarrow> int" where
  "LogOfEnergyInQ8 energy q_domain =
     (let kLogLowValue = i16 (shl32 PART_LEN_SHIFT 7)
      in if energy > 0
         then (let zeros = WebRtcSpl_NormU32 energy; frac = ExtractFractionPart energy zeros
               in i16 (kLogLowValue + (shl32 (31 - zeros) 8 + frac - shl32 q_domain 8)))
         else kLogLowValue)"

text \<open>The energy levels of the far end: the block under \<open>farLogEnergy > FAR_ENERGY_MIN\<close>.\<close>

definition update_far_levels :: "AecmCore \<Rightarrow> AecmCore" where
  "update_far_levels aecm =
     (let (increase_max_shifts, decrease_min_shifts, increase_min_shifts) =
            (if startupState aecm = 0 then (2, 2, 8) else (4, 3, 11));
          decrease_max_shifts = 11;
          emin = WebRtcAecm_AsymFilt (farEnergyMin aecm) (farLogEnergy aecm) increase_min_shifts decrease_min_shifts;
          emax = WebRtcAecm_AsymFilt (farEnergyMax aecm) (farLogEnergy aecm) increase_max_shifts decrease_max_shifts;
          aecm = aecm\<lparr>farEnergyMin := emin, farEnergyMax := emax, farEnergyMaxMin := i16 (emax - emin)\<rparr>;
          tmp16 = i16 (2560 - farEnergyMin aecm);
          tmp16 = (if tmp16 > 0 then i16 (shr (tmp16 * FAR_ENERGY_VAD_REGION) 9) else 0);
          tmp16 = i16 (tmp16 + FAR_ENERGY_VAD_REGION);
          aecm =
            (if startupState aecm = 0 \<or> vadUpdateCount aecm > 1024
             then aecm\<lparr>farEnergyVAD := i16 (farEnergyMin aecm + tmp16)\<rparr>
             else if farEnergyVAD aecm > farLogEnergy aecm
             then aecm\<lparr>farEnergyVAD := i16 (farEnergyVAD aecm + shr (farLogEnergy aecm + tmp16 - farEnergyVAD aecm) 6),
                       vadUpdateCount := 0\<rparr>
             else aecm\<lparr>vadUpdateCount := i16 (vadUpdateCount aecm + 1)\<rparr>)
      in aecm\<lparr>farEnergyMSE := i16 (farEnergyVAD aecm + shl32 1 8)\<rparr>)"

text \<open>The voice activity decision and the correction of a too aggressive initial channel.\<close>

definition update_vad :: "AecmCore \<Rightarrow> AecmCore" where
  "update_vad aecm =
     (let aecm =
            (if farLogEnergy aecm > farEnergyVAD aecm
             then (if startupState aecm = 0 \<or> farEnergyMaxMin aecm > FAR_ENERGY_DIFF
                   then aecm\<lparr>currentVADValue := 1\<rparr> else aecm)
             else aecm\<lparr>currentVADValue := 0\<rparr>)
      in if currentVADValue aecm \<noteq> 0 \<and> firstVAD aecm \<noteq> 0
         then
           (let aecm = aecm\<lparr>firstVAD := 0\<rparr>
            in if echoAdaptLogEnergy aecm ! 0 > nearLogEnergy aecm ! 0
               then aecm\<lparr>channelAdapt16 := fold (\<lambda>i c. c[i := shr (c ! i) 3]) [0..<PART_LEN1] (channelAdapt16 aecm),
                         echoAdaptLogEnergy :=
                           (echoAdaptLogEnergy aecm)[0 := i16 (echoAdaptLogEnergy aecm ! 0 - shl32 3 8)],
                         firstVAD := 1\<rparr>
               else aecm)
         else aecm)"

definition shift_history :: "int \<Rightarrow> int list \<Rightarrow> int list" where
  "shift_history x h = (mem_copy h 1 (mem_slice h 0 (MAX_BUF_LEN - 1)))[0 := x]"

definition WebRtcAecm_CalcEnergies :: "AecmCore \<Rightarrow> int list \<Rightarrow> int \<Rightarrow> int \<Rightarrow> int list \<Rightarrow> AecmCore \<times> int list" where
  "WebRtcAecm_CalcEnergies aecm far_spectrum far_q nearEner echoEst =
     (let aecm = aecm\<lparr>nearLogEnergy :=
                   shift_history (LogOfEnergyInQ8 nearEner (dfaNoisyQDomain aecm)) (nearLogEnergy aecm)\<rparr>;
          (echoEst, tmpFar, tmpAdapt, tmpStored) = CalcLinearEnergiesC aecm far_spectrum (echoEst, 0, 0, 0);
          aecm = aecm\<lparr>farLogEnergy := LogOfEnergyInQ8 tmpFar far_q,
                      echoAdaptLogEnergy :=
                        shift_history (LogOfEnergyInQ8 tmpAdapt (RESOLUTION_CHANNEL16 + far_q)) (echoAdaptLogEnergy aecm),
                      echoStoredLogEnergy :=
                        shift_history (LogOfEnergyInQ8 tmpStored (RESOLUTION_CHANNEL16 + far_q)) (echoStoredLogEnergy aecm)\<rparr>;
          aecm = (if farLogEnergy aecm > FAR_ENERGY_MIN then update_far_levels aecm else aecm)
      in (update_vad aecm, echoEst))"

section \<open>Channel estimation\<close>

definition WebRtcAecm_CalcStepSize :: "AecmCore \<Rightarrow> int" where
  "WebRtcAecm_CalcStepSize aecm =
     (if currentVADValue aecm = 0 then 0
      else if startupState aecm > 0
      then
        (let mu =
               (if farEnergyMin aecm \<ge> farEnergyMax aecm then MU_MIN
                else (let tmp16 = i16 (farLogEnergy aecm - farEnergyMin aecm);
                          tmp32 = i32 (tmp16 * MU_DIFF);
                          tmp32 = WebRtcSpl_DivW32W16 tmp32 (farEnergyMaxMin aecm)
                      in i16 (MU_MIN - 1 - i16 tmp32)))
         in if mu < MU_MAX then MU_MAX else mu)
      else MU_MAX)"

text \<open>
  One band of the NLMS loop. \<open>nlms_product\<close> is the far end through the channel with the
  shift that keeps the product in range, \<open>nlms_domains\<close> the common Q-domain of the product
  and the near end, \<open>nlms_error\<close> the error times the far end with its shift.
\<close>

definition nlms_product :: "int \<Rightarrow> int \<Rightarrow> int \<times> int" where
  "nlms_product ch32 far =
     (let zerosCh = i16 (WebRtcSpl_NormU32 (u32 ch32)); zerosFar = i16 (WebRtcSpl_NormU32 far)
      in if zerosCh + zerosFar > 31 then (WEBRTC_SPL_UMUL_32_16 ch32 far, 0)
         else (let shiftChFar = i16 (32 - zerosCh - zerosFar) in (u32 (shr ch32 shiftChFar * far), shiftChFar)))"

definition nlms_domains :: "int \<Rightarrow> int \<Rightarrow> int \<Rightarrow> int \<Rightarrow> int \<Rightarrow> int \<times> int" where
  "nlms_domains dfaNoisyQ far_q product shiftChFar dfa =
     (let zerosNum = i16 (WebRtcSpl_NormU32 product);
          zerosDfa = (if dfa \<noteq> 0 then i16 (WebRtcSpl_NormU32 dfa) else 32);
          tmp16no1 = i16 (zerosDfa - 2 + dfaNoisyQ - RESOLUTION_CHANNEL32 - far_q + shiftChFar)
      in if zerosNum > tmp16no1 + 1 then (tmp16no1, i16 (zerosDfa - 2))
         else (let xfaQ = i16 (zerosNum - 2)
               in (xfaQ, i16 (RESOLUTION_CHANNEL32 + far_q - dfaNoisyQ - shiftChFar + xfaQ))))"

definition nlms_error :: "int \<Rightarrow> int \<Rightarrow> int \<times> int" where
  "nlms_error err far =
     (let zerosNum = i16 (WebRtcSpl_NormW32 err); zerosFar = i16 (WebRtcSpl_NormU32 far)
      in if zerosNum + zerosFar > 31
         then (if err > 0 then i32 (WEBRTC_SPL_UMUL_32_16 err far) else i32 (- i32 (WEBRTC_SPL_UMUL_32_16 (i32 (- err)) far)), 0)
         else (let shiftNum = i16 (32 - (zerosNum + zerosFar))
               in (if err > 0 then i32 (shr err shiftNum * far) else i32 (- i32 (shr (i32 (- err)) shiftNum * far)), shiftNum)))"

definition nlms_band :: "int \<Rightarrow> int \<Rightarrow> int \<Rightarrow> nat \<Rightarrow> int \<Rightarrow> int \<Rightarrow> int \<times> int \<Rightarrow> int \<times> int" where
  "nlms_band dfaNoisyQ far_q mu i far dfa = (\<lambda>(ch32, ch16).
     (let zerosFar = i16 (WebRtcSpl_NormU32 far);
          (tmpU32no1, shiftChFar) = nlms_product ch32 far;
          (xfaQ, dfaQ) = nlms_domains dfaNoisyQ far_q tmpU32no1 shiftChFar dfa;
          tmpU32no1 = WEBRTC_SPL_SHIFT_U32 tmpU32no1 xfaQ;
          tmpU32no2 = WEBRTC_SPL_SHIFT_U32 dfa dfaQ;
          tmp32no1 = i32 (i32 tmpU32no2 - i32 tmpU32no1)
      in if tmp32no1 \<noteq> 0 \<and> far > shl32 CHANNEL_VAD far_q
         then
           (let (tmp32no2, shiftNum) = nlms_error tmp32no1 far;
                tmp32no2 = WebRtcSpl_DivW32W16 tmp32no2 (i16 (int i + 1));
                shift2ResChan = i16 (shiftNum + shiftChFar - xfaQ - mu - shl32 (30 - zerosFar) 1);
                tmp32no2 = (if WebRtcSpl_NormW32 tmp32no2 < shift2ResChan then WEBRTC_SPL_WORD32_MAX
                            else WEBRTC_SPL_SHIFT_W32 tmp32no2 shift2ResChan);
                ch32 = WebRtcSpl_AddSatW32 ch32 tmp32no2;
                ch32 = (if ch32 < 0 then 0 else ch32)
            in (ch32, i16 (shr ch32 16)))
         else (ch32, ch16)))"

definition nlms_step :: "int list \<Rightarrow> int \<Rightarrow> int list \<Rightarrow> int \<Rightarrow> nat \<Rightarrow> AecmCore \<Rightarrow> AecmCore" where
  "nlms_step far_spectrum far_q dfa mu i aecm =
     (let (ch32, ch16) = nlms_band (dfaNoisyQDomain aecm) far_q mu i (far_spectrum ! i) (dfa ! i)
                           (channelAdapt32 aecm ! i, channelAdapt16 aecm ! i)
      in aecm\<lparr>channelAdapt32 := (channelAdapt32 aecm)[i := ch32], channelAdapt16 := (channelAdapt16 aecm)[i := ch16]\<rparr>)"

text \<open>The average absolute errors of the stored and the adapted channel.\<close>

definition mse_step :: "AecmCore \<Rightarrow> nat \<Rightarrow> int \<times> int \<Rightarrow> int \<times> int" where
  "mse_step aecm i = (\<lambda>(mseStored, mseAdapt).
     (i32 (mseStored + WEBRTC_SPL_ABS_W32 (i32 (echoStoredLogEnergy aecm ! i - nearLogEnergy aecm ! i))),
      i32 (mseAdapt + WEBRTC_SPL_ABS_W32 (i32 (echoAdaptLogEnergy aecm ! i - nearLogEnergy aecm ! i)))))"

definition next_mse_threshold :: "AecmCore \<Rightarrow> int \<Rightarrow> int" where
  "next_mse_threshold aecm mseAdapt =
     (if mseThreshold aecm = WEBRTC_SPL_WORD32_MAX then i32 (mseAdapt + mseAdaptOld aecm)
      else (let scaled_threshold = i32 (mseThreshold aecm * 5) sdiv 8
            in i32 (mseThreshold aecm + shr (i32 ((mseAdapt - scaled_threshold) * 205)) 8)))"

definition validate_channel :: "AecmCore \<Rightarrow> int list \<Rightarrow> int list \<Rightarrow> AecmCore \<times> int list" where
  "validate_channel aecm far_spectrum echoEst =
     (let (mseStored, mseAdapt) = fold (mse_step aecm) [0..<MIN_MSE_COUNT] (0, 0);
          (aecm, echoEst) =
            (if shl32 mseStored MSE_RESOLUTION < i32 (MIN_MSE_DIFF * mseAdapt) \<and>
                shl32 (mseStoredOld aecm) MSE_RESOLUTION < i32 (MIN_MSE_DIFF * mseAdaptOld aecm)
             then (ResetAdaptiveChannelC aecm, echoEst)
             else if i32 (MIN_MSE_DIFF * mseStored) > shl32 mseAdapt MSE_RESOLUTION \<and>
                     mseAdapt < mseThreshold aecm \<and> mseAdaptOld aecm < mseThreshold aecm
             then (let (aecm, echoEst) = StoreAdaptiveChannelC aecm far_spectrum echoEst
                   in (aecm\<lparr>mseThreshold := next_mse_threshold aecm mseAdapt\<rparr>, echoEst))
             else (aecm, echoEst))
      in (aecm\<lparr>mseChannelCount := 0, mseStoredOld := mseStored, mseAdaptOld := mseAdapt\<rparr>, echoEst))"

definition WebRtcAecm_UpdateChannel ::
    "AecmCore \<Rightarrow> int list \<Rightarrow> int \<Rightarrow> int list \<Rightarrow> int \<Rightarrow> int list \<Rightarrow> AecmCore \<times> int list" where
  "WebRtcAecm_UpdateChannel aecm far_spectrum far_q dfa mu echoEst =
     (let aecm = (if mu \<noteq> 0 then fold (nlms_step far_spectrum far_q dfa mu) [0..<PART_LEN1] aecm else aecm)
      in if startupState aecm = 0 \<and> currentVADValue aecm AND 1 \<noteq> 0
         then StoreAdaptiveChannelC aecm far_spectrum echoEst
         else
           (let aecm = (if farLogEnergy aecm < farEnergyMSE aecm then aecm\<lparr>mseChannelCount := 0\<rparr>
                        else aecm\<lparr>mseChannelCount := i16 (mseChannelCount aecm + 1)\<rparr>)
            in if mseChannelCount aecm \<ge> int MIN_MSE_COUNT + 10 then validate_channel aecm far_spectrum echoEst
               else (aecm, echoEst)))"

section \<open>Suppression gain\<close>

definition target_gain :: "AecmCore \<Rightarrow> int" where
  "target_gain aecm =
     (if currentVADValue aecm = 0 then 0
      else
        (let tmp16no1 = i16 (nearLogEnergy aecm ! 0 - echoStoredLogEnergy aecm ! 0 - ENERGY_DEV_OFFSET);
             dE = i16 (WEBRTC_SPL_ABS_W16 tmp16no1)
         in if dE < ENERGY_DEV_TOL
            then
              (if dE < SUPGAIN_EPC_DT
               then (let tmp32no1 = i32 (supGainErrParamDiffAB aecm * dE);
                         tmp32no1 = i32 (tmp32no1 + shr SUPGAIN_EPC_DT 1);
                         tmp16no1 = i16 (WebRtcSpl_DivW32W16 tmp32no1 SUPGAIN_EPC_DT)
                     in i16 (supGainErrParamA aecm - tmp16no1))
               else (let tmp32no1 = i32 (supGainErrParamDiffBD aecm * (ENERGY_DEV_TOL - dE));
                         tmp32no1 = i32 (tmp32no1 + shr (ENERGY_DEV_TOL - SUPGAIN_EPC_DT) 1);
                         tmp16no1 = i16 (WebRtcSpl_DivW32W16 tmp32no1 (ENERGY_DEV_TOL - SUPGAIN_EPC_DT))
                     in i16 (supGainErrParamD aecm + tmp16no1)))
            else supGainErrParamD aecm))"

text \<open>Both branches of the final test do the same.\<close>

definition WebRtcAecm_CalcSuppressionGain :: "AecmCore \<Rightarrow> AecmCore \<times> int" where
  "WebRtcAecm_CalcSuppressionGain aecm =
     (let gain = target_gain aecm;
          tmp16no1 = (if gain > supGainOld aecm then gain else supGainOld aecm);
          aecm = aecm\<lparr>supGainOld := gain\<rparr>;
          aecm = (if tmp16no1 < supGain aecm
                  then aecm\<lparr>supGain := i16 (supGain aecm + i16 (shr (tmp16no1 - supGain aecm) 4))\<rparr>
                  else aecm\<lparr>supGain := i16 (supGain aecm + i16 (shr (tmp16no1 - supGain aecm) 4))\<rparr>)
      in (aecm, supGain aecm))"

section \<open>Buffering the far end\<close>

text \<open>
  The wrapping loops. Nothing bounds the frame length here, so they are partial:
  \<open>None\<close> is a loop that does not end. The state of the first is the buffer, the write
  position, and the local \<open>writePos\<close> and \<open>writeLen\<close>.
\<close>

partial_function (option) buffer_far_loop :: "samples \<Rightarrow> int \<Rightarrow> samples \<Rightarrow> int \<Rightarrow> int \<Rightarrow> int \<Rightarrow> (samples \<times> int \<times> int \<times> int) option" where
  "buffer_far_loop farend farLen buf bufPos writePos writeLen =
     (if bufPos + writeLen > int FAR_BUF_LEN
      then (let writeLen = int FAR_BUF_LEN - bufPos;
                buf = mem_copy buf (nat bufPos) (mem_slice farend (nat writePos) (nat writeLen))
            in buffer_far_loop farend farLen buf 0 writeLen (farLen - writeLen))
      else Some (buf, bufPos, writePos, writeLen))"

definition WebRtcAecm_BufferFarFrame :: "AecmCore \<Rightarrow> samples \<Rightarrow> int \<Rightarrow> AecmCore option" where
  "WebRtcAecm_BufferFarFrame aecm farend farLen =
     map_option (\<lambda>(buf, bufPos, writePos, writeLen).
         aecm\<lparr>farBuf := mem_copy buf (nat bufPos) (mem_slice farend (nat writePos) (nat writeLen)),
              farBufWritePos := bufPos + writeLen\<rparr>)
       (buffer_far_loop farend farLen (farBuf aecm) (farBufWritePos aecm) 0 farLen)"

function wrap_up :: "int \<Rightarrow> int" where
  "wrap_up p = (if p < 0 then wrap_up (p + int FAR_BUF_LEN) else p)"
  by auto
termination by (relation "measure (\<lambda>p. nat (- p))") (auto simp: FAR_BUF_LEN_def PART_LEN4_def PART_LEN_def)

function wrap_down :: "int \<Rightarrow> int" where
  "wrap_down p = (if p > int FAR_BUF_LEN - 1 then wrap_down (p - int FAR_BUF_LEN) else p)"
  by auto
termination by (relation "measure (\<lambda>p. nat p)") (auto simp: FAR_BUF_LEN_def PART_LEN4_def PART_LEN_def)

declare wrap_up.simps [simp del] wrap_down.simps [simp del]

text \<open>The reading loop: the caller's frame, the read position, \<open>readPos\<close> and \<open>readLen\<close>.\<close>

partial_function (option) fetch_far_loop :: "samples \<Rightarrow> int \<Rightarrow> samples \<Rightarrow> int \<Rightarrow> int \<Rightarrow> int \<Rightarrow> (samples \<times> int \<times> int \<times> int) option" where
  "fetch_far_loop buf farLen farend bufPos readPos readLen =
     (if bufPos + readLen > int FAR_BUF_LEN
      then (let readLen = int FAR_BUF_LEN - bufPos;
                farend = mem_copy farend (nat readPos) (mem_slice buf (nat bufPos) (nat readLen))
            in fetch_far_loop buf farLen farend 0 readLen (farLen - readLen))
      else Some (farend, bufPos, readPos, readLen))"

definition WebRtcAecm_FetchFarFrame :: "AecmCore \<Rightarrow> samples \<Rightarrow> int \<Rightarrow> int \<Rightarrow> (AecmCore \<times> samples) option" where
  "WebRtcAecm_FetchFarFrame aecm farend farLen known =
     (let delayChange = known - lastKnownDelay aecm;
          readPos0 = wrap_down (wrap_up (farBufReadPos aecm - delayChange))
      in map_option (\<lambda>(farend, bufPos, readPos, readLen).
           (aecm\<lparr>farBufReadPos := bufPos + readLen, lastKnownDelay := known\<rparr>,
            mem_copy farend (nat readPos) (mem_slice (farBuf aecm) (nat bufPos) (nat readLen))))
         (fetch_far_loop (farBuf aecm) farLen farend readPos0 0 farLen))"

section \<open>Sizes and an example state\<close>

lemmas aecm_sizes = FRAME_LEN_def PART_LEN_def PART_LEN1_def PART_LEN2_def PART_LEN4_def FAR_BUF_LEN_def
  MAX_DELAY_def MAX_BUF_LEN_def

text \<open>A state with every array at its size and every value zero.\<close>

definition zero_core :: AecmCore where
  "zero_core =
    \<lparr>farBufWritePos = 0, farBufReadPos = 0, knownDelay = 0, lastKnownDelay = 0, firstVAD = 0,
     farFrameBuf = None, nearNoisyFrameBuf = None, nearCleanFrameBuf = None, outFrameBuf = None,
     farBuf = replicate FAR_BUF_LEN 0, mult = 0, seed = 0, delay_estimator_farend = None,
     delay_estimator = None, currentDelay = 0, far_history = replicate (PART_LEN1 * MAX_DELAY) 0,
     far_history_complex = replicate (PART_LEN1 * MAX_DELAY) (0, 0), far_history_pos = 0,
     far_q_domains = replicate MAX_DELAY 0, nlpFlag = 0, fixedDelay = 0, totCount = 0, dfaCleanQDomain = 0,
     dfaCleanQDomainOld = 0, dfaNoisyQDomain = 0, dfaNoisyQDomainOld = 0,
     nearLogEnergy = replicate MAX_BUF_LEN 0, farLogEnergy = 0, echoAdaptLogEnergy = replicate MAX_BUF_LEN 0,
     echoStoredLogEnergy = replicate MAX_BUF_LEN 0, channelStored = replicate PART_LEN1 0,
     channelAdapt16 = replicate PART_LEN1 0, channelAdapt32 = replicate PART_LEN1 0,
     xBuf = replicate PART_LEN2 0, dBufClean = replicate PART_LEN2 0, dBufNoisy = replicate PART_LEN2 0,
     outBuf = replicate PART_LEN 0, echoFilt = replicate PART_LEN1 0, nearFilt = replicate PART_LEN1 0,
     noiseEst = replicate PART_LEN1 0, noiseEstTooLowCtr = replicate PART_LEN1 0,
     noiseEstTooHighCtr = replicate PART_LEN1 0, noiseEstCtr = 0, cngMode = 0, mseAdaptOld = 0,
     mseStoredOld = 0, mseThreshold = 0, farEnergyMin = 0, farEnergyMax = 0, farEnergyMaxMin = 0,
     farEnergyVAD = 0, farEnergyMSE = 0, currentVADValue = 0, vadUpdateCount = 0, startupState = 0,
     mseChannelCount = 0, supGain = 0, supGainOld = 0, supGainErrParamA = 0, supGainErrParamD = 0,
     supGainErrParamDiffAB = 0, supGainErrParamDiffBD = 0, real_fft = None, enablefloatpro = 0,
     aecmfloat = initial_float\<rparr>"

end
