(* ===== verification/Aecm_Far.thy ===== *)
theory Aecm_Far
  imports Aecm_Core
begin

text \<open>
  The two memories of the far end in \<open>aecm_core.c\<close>: the history of spectra behind
  \<open>WebRtcAecm_UpdateFarHistory\<close> and \<open>WebRtcAecm_AlignedFarend\<close> and the sample buffer behind
  \<open>WebRtcAecm_BufferFarFrame\<close> and \<open>WebRtcAecm_FetchFarFrame\<close>.
\<close>

section \<open>The far-end history keeps the last spectra\<close>

definition history_ok :: "AecmCore \<Rightarrow> bool" where
  "history_ok aecm \<longleftrightarrow>
     length (far_history aecm) = PART_LEN1 * MAX_DELAY \<and> length (far_history_complex aecm) = PART_LEN1 * MAX_DELAY \<and>
     length (far_q_domains aecm) = MAX_DELAY \<and> 0 \<le> far_history_pos aecm \<and> far_history_pos aecm < int MAX_DELAY"

definition put_spectrum :: "AecmCore \<Rightarrow> int list \<times> ComplexInt16 list \<times> int \<Rightarrow> AecmCore" where
  "put_spectrum aecm = (\<lambda>(s, c, q). WebRtcAecm_UpdateFarHistory aecm s c q)"

definition entry_ok :: "int list \<times> ComplexInt16 list \<times> int \<Rightarrow> bool" where
  "entry_ok = (\<lambda>(s, c, q). length s = PART_LEN1 \<and> length c = PART_LEN1)"

lemma slot_fits: "p < MAX_DELAY \<Longrightarrow> p * PART_LEN1 + PART_LEN1 \<le> PART_LEN1 * MAX_DELAY"
proof -
  assume "p < MAX_DELAY"
  then have "Suc p * PART_LEN1 \<le> MAX_DELAY * PART_LEN1" by (intro mult_right_mono) auto
  then show ?thesis by (simp add: mult.commute)
qed

lemma slot_disjoint: "p \<noteq> q \<Longrightarrow> p * n + n \<le> q * n \<or> q * n + n \<le> p * (n::nat)"
proof (cases "p < q")
  case True
  then have "Suc p * n \<le> q * n" by (intro mult_right_mono) auto
  then show ?thesis by simp
next
  case False
  assume "p \<noteq> q"
  with False have "Suc q * n \<le> p * n" by (intro mult_right_mono) auto
  then show ?thesis by simp
qed

lemma AlignedFarend_slot:
  assumes "history_ok aecm" "0 \<le> d" "d < int MAX_DELAY"
  defines "p \<equiv> nat ((far_history_pos aecm - d) mod int MAX_DELAY)"
  shows "WebRtcAecm_AlignedFarend aecm d = (far_q_domains aecm ! p, mem_slice (far_history aecm) (p * PART_LEN1) PART_LEN1)"
proof -
  have b: "- 25 < far_history_pos aecm - d" "far_history_pos aecm - d < 25" using assms(1-3) by (auto simp: history_ok_def MAX_DELAY_def)
  have "(far_history_pos aecm - d) mod 25 = (if far_history_pos aecm - d < 0 then far_history_pos aecm - d + 25 else far_history_pos aecm - d)"
  proof (cases "far_history_pos aecm - d < 0")
    case True
    have "(far_history_pos aecm - d) mod 25 = (far_history_pos aecm - d + 25) mod 25" by simp
    also have "\<dots> = far_history_pos aecm - d + 25" using b True by (intro mod_pos_pos_trivial) auto
    finally show ?thesis using True by simp
  qed (use b in simp)
  then show ?thesis
    using b by (simp add: WebRtcAecm_AlignedFarend_def Let_def p_def MAX_DELAY_def i32_id in_i32_def)
qed

lemma UpdateFarHistory_slot:
  assumes "history_ok aecm"
  defines "p \<equiv> (far_history_pos aecm + 1) mod int MAX_DELAY"
  shows "WebRtcAecm_UpdateFarHistory aecm s c q = aecm\<lparr>far_history_pos := p,
              far_q_domains := (far_q_domains aecm)[nat p := q],
              far_history := mem_copy (far_history aecm) (nat p * PART_LEN1) (take PART_LEN1 s),
              far_history_complex := mem_copy (far_history_complex aecm) (nat p * PART_LEN1) (take PART_LEN1 c)\<rparr>"
proof -
  have b: "0 \<le> far_history_pos aecm" "far_history_pos aecm < 25" using assms(1) by (auto simp: history_ok_def MAX_DELAY_def)
  have "p = (if far_history_pos aecm + 1 \<ge> 25 then 0 else far_history_pos aecm + 1)"
    using b by (cases "far_history_pos aecm = 24") (auto simp: p_def MAX_DELAY_def)
  then show ?thesis
    using b by (simp add: WebRtcAecm_UpdateFarHistory_def Let_def MAX_DELAY_def i32_id in_i32_def)
qed

lemma put_spectrum_ok: "history_ok aecm \<Longrightarrow> entry_ok x \<Longrightarrow> history_ok (put_spectrum aecm x)"
proof -
  assume h: "history_ok aecm" "entry_ok x"
  obtain s c q where x: "x = (s, c, q)" by (metis surj_pair)
  let ?p = "(far_history_pos aecm + 1) mod int MAX_DELAY"
  have p: "0 \<le> ?p" "?p < int MAX_DELAY" by (simp_all add: MAX_DELAY_def)
  then have "nat ?p < MAX_DELAY" by linarith
  from slot_fits [OF this] show ?thesis
    using h p unfolding x put_spectrum_def prod.case UpdateFarHistory_slot [OF h(1)]
    by (simp add: history_ok_def entry_ok_def)
qed


lemma put_spectrum_newest:
  assumes h: "history_ok aecm" "entry_ok (s, c, q)"
  shows "WebRtcAecm_AlignedFarend (put_spectrum aecm (s, c, q)) 0 = (q, s)"
proof -
  let ?a = "put_spectrum aecm (s, c, q)" and ?p = "(far_history_pos aecm + 1) mod int MAX_DELAY"
  have p: "0 \<le> ?p" "?p < int MAX_DELAY" by (simp_all add: MAX_DELAY_def)
  then have n: "nat ?p < MAX_DELAY" by linarith
  have a: "?a = aecm\<lparr>far_history_pos := ?p, far_q_domains := (far_q_domains aecm)[nat ?p := q],
              far_history := mem_copy (far_history aecm) (nat ?p * PART_LEN1) s,
              far_history_complex := mem_copy (far_history_complex aecm) (nat ?p * PART_LEN1) c\<rparr>"
    using h by (simp add: put_spectrum_def UpdateFarHistory_slot entry_ok_def)
  have "mem_slice (mem_copy (far_history aecm) (nat ?p * PART_LEN1) s) (nat ?p * PART_LEN1) (length s) = s"
    using h slot_fits [OF n] by (intro mem_slice_mem_copy) (simp add: history_ok_def entry_ok_def)
  moreover have "WebRtcAecm_AlignedFarend ?a 0 = (far_q_domains ?a ! nat (far_history_pos ?a mod int MAX_DELAY),
      mem_slice (far_history ?a) (nat (far_history_pos ?a mod int MAX_DELAY) * PART_LEN1) PART_LEN1)"
    using AlignedFarend_slot [OF put_spectrum_ok [OF h], of 0] by (simp add: MAX_DELAY_def)
  ultimately show ?thesis using h p n by (simp add: a entry_ok_def history_ok_def)
qed

lemma put_spectrum_older:
  assumes h: "history_ok aecm" "entry_ok (s, c, q)" and d: "Suc d < MAX_DELAY"
  shows "WebRtcAecm_AlignedFarend (put_spectrum aecm (s, c, q)) (int (Suc d)) = WebRtcAecm_AlignedFarend aecm (int d)"
proof -
  let ?a = "put_spectrum aecm (s, c, q)" and ?p = "(far_history_pos aecm + 1) mod int MAX_DELAY"
  let ?k = "(far_history_pos aecm - int d) mod int MAX_DELAY"
  have p: "0 \<le> ?p" "?p < int MAX_DELAY" "0 \<le> ?k" "?k < int MAX_DELAY" by (simp_all add: MAX_DELAY_def)
  then have n: "nat ?p < MAX_DELAY" "nat ?k < MAX_DELAY" by linarith+
  have a: "?a = aecm\<lparr>far_history_pos := ?p, far_q_domains := (far_q_domains aecm)[nat ?p := q],
              far_history := mem_copy (far_history aecm) (nat ?p * PART_LEN1) s,
              far_history_complex := mem_copy (far_history_complex aecm) (nat ?p * PART_LEN1) c\<rparr>"
    using h by (simp add: put_spectrum_def UpdateFarHistory_slot entry_ok_def)
  have e: "(?p - int (Suc d)) mod int MAX_DELAY = ?k"
    unfolding mod_diff_left_eq by (rule arg_cong [of _ _ "\<lambda>x. x mod _"]) simp
  have "?k \<noteq> ?p"
  proof
    assume "?k = ?p"
    then have "(far_history_pos aecm + 1 - (far_history_pos aecm - int d)) mod int MAX_DELAY = 0"
      by (metis mod_0_imp_dvd mod_eq_dvd_iff dvd_imp_mod_0)
    then have "int (Suc d) mod int MAX_DELAY = 0" by (simp add: algebra_simps)
    then show False using d by (simp add: MAX_DELAY_def)
  qed
  then have ne: "nat ?k \<noteq> nat ?p" using p by (simp add: eq_nat_nat_iff)
  have "mem_slice (mem_copy (far_history aecm) (nat ?p * PART_LEN1) s) (nat ?k * PART_LEN1) PART_LEN1 =
      mem_slice (far_history aecm) (nat ?k * PART_LEN1) PART_LEN1"
    using h slot_fits [OF n(1)] slot_fits [OF n(2)] slot_disjoint [OF ne, of PART_LEN1]
    by (intro mem_slice_mem_copy_disjoint) (auto simp: history_ok_def entry_ok_def)
  moreover have "WebRtcAecm_AlignedFarend ?a (int (Suc d)) = (far_q_domains ?a ! nat ?k,
      mem_slice (far_history ?a) (nat ?k * PART_LEN1) PART_LEN1)"
    using AlignedFarend_slot [OF put_spectrum_ok [OF h], of "int (Suc d)"] d e unfolding a by simp
  moreover have "WebRtcAecm_AlignedFarend aecm (int d) = (far_q_domains aecm ! nat ?k,
      mem_slice (far_history aecm) (nat ?k * PART_LEN1) PART_LEN1)"
    using AlignedFarend_slot [OF h(1), of "int d"] d by simp
  ultimately show ?thesis using ne by (simp add: a)
qed

interpretation far: recent_store put_spectrum "\<lambda>aecm d. WebRtcAecm_AlignedFarend aecm (int d)"
  "\<lambda>(s, c, q). (q, s)" history_ok entry_ok MAX_DELAY
proof unfold_locales
  fix aecm x d assume "history_ok aecm" "entry_ok x"
  then show "history_ok (put_spectrum aecm x)" by (rule put_spectrum_ok)
  show "WebRtcAecm_AlignedFarend (put_spectrum aecm x) (int 0) = (case x of (s, c, q) \<Rightarrow> (q, s))"
    using put_spectrum_newest \<open>history_ok aecm\<close> \<open>entry_ok x\<close> by (cases x) auto
  assume "Suc d < MAX_DELAY"
  then show "WebRtcAecm_AlignedFarend (put_spectrum aecm x) (int (Suc d)) = WebRtcAecm_AlignedFarend aecm (int d)"
    using put_spectrum_older \<open>history_ok aecm\<close> \<open>entry_ok x\<close> by (cases x) blast
qed

text \<open>The state after \<open>WebRtcAecm_InitCore\<close>, with the position one past the end.\<close>

definition history_fresh :: "AecmCore \<Rightarrow> bool" where
  "history_fresh aecm \<longleftrightarrow> far_history_pos aecm = int MAX_DELAY \<and> history_ok (aecm\<lparr>far_history_pos := int MAX_DELAY - 1\<rparr>)"

lemma UpdateFarHistory_fresh:
  assumes "history_fresh aecm"
  shows "put_spectrum aecm x = put_spectrum (aecm\<lparr>far_history_pos := int MAX_DELAY - 1\<rparr>) x"
  using assms by (cases x) (simp add: put_spectrum_def WebRtcAecm_UpdateFarHistory_def history_fresh_def Let_def
      MAX_DELAY_def i32_def)

text \<open>The shift register of the log energies.\<close>

interpretation energy: recent_store "\<lambda>h x. shift_history x h" "\<lambda>h d. h ! d" "\<lambda>x. x"
  "\<lambda>h. length h = MAX_BUF_LEN" "\<lambda>_. True" MAX_BUF_LEN
proof unfold_locales
  fix h :: "int list" and x :: int and d
  assume l: "length h = MAX_BUF_LEN"
  have e: "shift_history x h = push_front x h"
    using shift_by_one [of h "int MAX_BUF_LEN" x] l by (simp add: shift_history_def MAX_BUF_LEN_def)
  have "h \<noteq> []" using l by (auto simp: MAX_BUF_LEN_def)
  then show "length (shift_history x h) = MAX_BUF_LEN" "shift_history x h ! 0 = x"
    using l by (simp_all add: e) (simp add: push_front_def)
  assume "Suc d < MAX_BUF_LEN"
  then show "shift_history x h ! Suc d = h ! d" using l by (simp add: e nth_push_front)
qed

section \<open>The far-end buffer is a delay line\<close>

text \<open>
  The buffer seen from the write position on is the last \<open>FAR_BUF_LEN\<close> samples, the oldest
  first. Buffering appends to it; fetching reads it at the distance of the known delay.
\<close>

definition delay_line :: "AecmCore \<Rightarrow> samples" where
  "delay_line aecm = rotate (nat (farBufWritePos aecm)) (farBuf aecm)"

definition far_buf_ok :: "AecmCore \<Rightarrow> bool" where
  "far_buf_ok aecm \<longleftrightarrow> length (farBuf aecm) = FAR_BUF_LEN \<and> 0 \<le> farBufWritePos aecm \<and> farBufWritePos aecm \<le> int FAR_BUF_LEN \<and>
     (farBufWritePos aecm - farBufReadPos aecm) mod int FAR_BUF_LEN = lastKnownDelay aecm mod int FAR_BUF_LEN"

lemma rotate_split: "m \<le> length xs \<Longrightarrow> rotate m xs = drop m xs @ take m xs"
  by (cases "m = length xs") (simp_all add: rotate_drop_take)

lemma take_rotate: "m + n \<le> length xs \<Longrightarrow> take n (rotate m xs) = mem_slice xs m n"
  by (simp add: rotate_split mem_slice_def)

lemma wrap_up_mod: "0 \<le> wrap_up p \<and> wrap_up p mod int FAR_BUF_LEN = p mod int FAR_BUF_LEN"
proof (induction p rule: wrap_up.induct)
  case (1 p)
  show ?case
  proof (cases "p < 0")
    case True
    then have "wrap_up p = wrap_up (p + int FAR_BUF_LEN)" by (subst wrap_up.simps) simp
    then show ?thesis using 1 True by simp
  next
    case False
    then have "wrap_up p = p" by (subst wrap_up.simps) simp
    then show ?thesis using False by simp
  qed
qed

lemma wrap_down_mod: "0 \<le> p \<Longrightarrow> wrap_down p = p mod int FAR_BUF_LEN"
proof (induction p rule: wrap_down.induct)
  case (1 p)
  show ?case
  proof (cases "p > int FAR_BUF_LEN - 1")
    case True
    then have "wrap_down p = (p - int FAR_BUF_LEN) mod int FAR_BUF_LEN" using 1 by (subst wrap_down.simps) simp
    then show ?thesis by simp
  next
    case False
    then show ?thesis using 1 by (subst wrap_down.simps) simp
  qed
qed

lemma wrap_read_pos: "wrap_down (wrap_up p) = p mod int FAR_BUF_LEN"
  using wrap_up_mod [of p] wrap_down_mod [of "wrap_up p"] by simp

text \<open>One turn of each loop is enough for a frame that fits the buffer.\<close>

lemma BufferFarFrame_returns:
  assumes "length (farBuf aecm) = FAR_BUF_LEN" "0 \<le> farBufWritePos aecm" "farBufWritePos aecm \<le> int FAR_BUF_LEN"
    and "length frame = n" "n \<le> FAR_BUF_LEN"
  defines "w \<equiv> nat (farBufWritePos aecm)"
  shows "WebRtcAecm_BufferFarFrame aecm frame (int n) = Some
    (if w + n \<le> FAR_BUF_LEN then aecm\<lparr>farBuf := mem_copy (farBuf aecm) w frame, farBufWritePos := int (w + n)\<rparr>
     else aecm\<lparr>farBuf := mem_copy (mem_copy (farBuf aecm) w (take (FAR_BUF_LEN - w) frame)) 0 (drop (FAR_BUF_LEN - w) frame),
               farBufWritePos := int (w + n) - int FAR_BUF_LEN\<rparr>)"
proof (cases "w + n \<le> FAR_BUF_LEN")
  case True
  then have "\<not> farBufWritePos aecm + int n > int FAR_BUF_LEN" using assms(2) by (simp add: w_def)
  then show ?thesis
    using True assms by (simp add: WebRtcAecm_BufferFarFrame_def buffer_far_loop.simps [of frame] mem_slice_def w_def)
next
  case False
  let ?k = "FAR_BUF_LEN - w"
  have k: "int FAR_BUF_LEN - farBufWritePos aecm = int ?k" using assms(2,3) by (simp add: w_def)
  have g: "farBufWritePos aecm + int n > int FAR_BUF_LEN" using False assms(2) by (simp add: w_def)
  have "?k \<le> n" using False by simp
  then have "\<not> 0 + (int n - int ?k) > int FAR_BUF_LEN" using assms(5) by simp
  then have l2: "buffer_far_loop frame (int n) (mem_copy (farBuf aecm) w (take ?k frame)) 0 (int ?k) (int n - int ?k) =
      Some (mem_copy (farBuf aecm) w (take ?k frame), 0, int ?k, int n - int ?k)"
    by (subst buffer_far_loop.simps) (simp only: if_False)
  have s: "mem_slice frame (nat 0) (nat (int ?k)) = take ?k frame" by (simp add: mem_slice_def)
  have l1: "buffer_far_loop frame (int n) (farBuf aecm) (farBufWritePos aecm) 0 (int n) =
      Some (mem_copy (farBuf aecm) w (take ?k frame), 0, int ?k, int n - int ?k)"
    by (subst buffer_far_loop.simps) (simp only: g if_True Let_def k s l2 w_def [symmetric])
  have e: "mem_slice frame ?k (n - ?k) = drop ?k frame" using assms(4) by (simp add: mem_slice_def)
  have wl: "w \<le> FAR_BUF_LEN" using assms(3) by (simp add: w_def)
  have i: "0 + (int n - int ?k) = int (w + n) - int FAR_BUF_LEN" "nat (int n - int ?k) = n - ?k" using wl by linarith+
  show ?thesis
    unfolding WebRtcAecm_BufferFarFrame_def l1 option.map prod.case i nat_int e nat_0 if_not_P [OF False] by (rule refl)
qed

lemma buffer_wrapped_line:
  assumes "length buf = N" "w \<le> N" "length frame = n" "n \<le> N" "N < w + n"
  defines "k \<equiv> N - w"
  shows "rotate (n - k) (mem_copy (mem_copy buf w (take k frame)) 0 (drop k frame)) = drop n (rotate w buf @ frame)"
proof -
  have "mem_copy (mem_copy buf w (take k frame)) 0 (drop k frame) = drop k frame @ drop (n - k) (take w buf) @ take k frame"
    using assms by (simp add: mem_copy_def k_def)
  moreover have "rotate (n - k) \<dots> = (drop (n - k) (take w buf) @ take k frame) @ drop k frame"
    using assms rotate_append [of "drop k frame"] by (simp add: k_def)
  ultimately show ?thesis using assms by (simp add: rotate_split k_def)
qed

lemma BufferFarFrame_line:
  assumes "far_buf_ok aecm" "length frame = n" "n \<le> FAR_BUF_LEN"
  obtains b w where "WebRtcAecm_BufferFarFrame aecm frame (int n) = Some (aecm\<lparr>farBuf := b, farBufWritePos := w\<rparr>)"
    "length b = FAR_BUF_LEN" "0 \<le> w" "w \<le> int FAR_BUF_LEN"
    "w mod int FAR_BUF_LEN = (farBufWritePos aecm + int n) mod int FAR_BUF_LEN"
    "rotate (nat w) b = drop n (delay_line aecm @ frame)"
proof -
  let ?w = "nat (farBufWritePos aecm)"
  have a: "length (farBuf aecm) = FAR_BUF_LEN" "0 \<le> farBufWritePos aecm" "farBufWritePos aecm \<le> int FAR_BUF_LEN"
    using assms(1) by (auto simp: far_buf_ok_def)
  have wl: "?w \<le> FAR_BUF_LEN" using a by linarith
  note r = BufferFarFrame_returns [OF a assms(2,3)]
  show thesis
  proof (cases "?w + n \<le> FAR_BUF_LEN")
    case True
    have "mem_copy (farBuf aecm) ?w frame = (take ?w (farBuf aecm) @ frame) @ drop (?w + n) (farBuf aecm)"
      using assms(2) by (simp add: mem_copy_def)
    then have "rotate (?w + n) (mem_copy (farBuf aecm) ?w frame) = drop (?w + n) (farBuf aecm) @ take ?w (farBuf aecm) @ frame"
      using True a assms(2) rotate_append [of "take ?w (farBuf aecm) @ frame"] by simp
    also have "\<dots> = drop n (delay_line aecm @ frame)" using True a wl by (simp add: delay_line_def rotate_split add.commute)
    finally have l: "rotate (nat (int (?w + n))) (mem_copy (farBuf aecm) ?w frame) = drop n (delay_line aecm @ frame)" unfolding nat_int .
    have m: "int (?w + n) mod int FAR_BUF_LEN = (farBufWritePos aecm + int n) mod int FAR_BUF_LEN" using a by simp
    show thesis using that [OF r [unfolded if_P [OF True]] _ _ _ m l] True a assms(2) by simp
  next
    case False
    have i: "int (?w + n) - int FAR_BUF_LEN = int (n - (FAR_BUF_LEN - ?w))" using False wl assms(3) by linarith
    have m: "(int (?w + n) - int FAR_BUF_LEN) mod int FAR_BUF_LEN = (farBufWritePos aecm + int n) mod int FAR_BUF_LEN"
      using a by simp
    have "int (?w + n) - int FAR_BUF_LEN \<le> int FAR_BUF_LEN" "0 \<le> int (?w + n) - int FAR_BUF_LEN" using wl False assms(3) by linarith+
    moreover have "rotate (nat (int (?w + n) - int FAR_BUF_LEN))
        (mem_copy (mem_copy (farBuf aecm) ?w (take (FAR_BUF_LEN - ?w) frame)) 0 (drop (FAR_BUF_LEN - ?w) frame)) =
        drop n (delay_line aecm @ frame)"
      unfolding i nat_int delay_line_def using a wl assms(2,3) False by (intro buffer_wrapped_line) simp_all
    moreover have "length (mem_copy (mem_copy (farBuf aecm) ?w (take (FAR_BUF_LEN - ?w) frame)) 0 (drop (FAR_BUF_LEN - ?w) frame)) = FAR_BUF_LEN"
      using a wl assms(2,3) False by simp
    ultimately show thesis using r [unfolded if_not_P [OF False]] m by (intro that)
  qed
qed


lemma FetchFarFrame_returns:
  fixes known :: int
  assumes "length (farBuf aecm) = FAR_BUF_LEN" "length dst = n" "n \<le> FAR_BUF_LEN"
  defines "r \<equiv> nat ((farBufReadPos aecm - (known - lastKnownDelay aecm)) mod int FAR_BUF_LEN)"
  shows "WebRtcAecm_FetchFarFrame aecm dst (int n) known = Some
    (aecm\<lparr>farBufReadPos := (if r + n \<le> FAR_BUF_LEN then int (r + n) else int (r + n) - int FAR_BUF_LEN), lastKnownDelay := known\<rparr>,
     take n (rotate r (farBuf aecm)))"
proof -
  have w: "wrap_down (wrap_up (farBufReadPos aecm - (known - lastKnownDelay aecm))) = int r"
    by (simp add: wrap_read_pos r_def aecm_sizes)
  have "r < FAR_BUF_LEN" unfolding r_def by (simp add: aecm_sizes nat_less_iff)
  then have rl: "r \<le> FAR_BUF_LEN" by simp
  show ?thesis
  proof (cases "r + n \<le> FAR_BUF_LEN")
    case True
    have g: "\<not> int r + int n > int FAR_BUF_LEN" using True by simp
    have l1: "fetch_far_loop (farBuf aecm) (int n) dst (int r) 0 (int n) = Some (dst, int r, 0, int n)"
      by (subst fetch_far_loop.simps) (simp only: g if_False)
    have "mem_copy dst 0 (mem_slice (farBuf aecm) r n) = take n (rotate r (farBuf aecm))"
      using True assms(1,2) by (simp add: take_rotate mem_copy_def)
    then show ?thesis
      unfolding WebRtcAecm_FetchFarFrame_def Let_def w l1 option.map prod.case nat_int nat_0 if_P [OF True] by simp
  next
    case False
    let ?k = "FAR_BUF_LEN - r"
    have k: "int FAR_BUF_LEN - int r = int ?k" using rl by simp
    have "?k \<le> n" using False by simp
    then have "\<not> 0 + (int n - int ?k) > int FAR_BUF_LEN" using assms(3) by simp
    then have l2: "fetch_far_loop (farBuf aecm) (int n) (mem_copy dst 0 (mem_slice (farBuf aecm) r ?k)) 0 (int ?k) (int n - int ?k) =
        Some (mem_copy dst 0 (mem_slice (farBuf aecm) r ?k), 0, int ?k, int n - int ?k)"
      by (subst fetch_far_loop.simps) (simp only: if_False)
    have g: "int r + int n > int FAR_BUF_LEN" using False by simp
    have l1: "fetch_far_loop (farBuf aecm) (int n) dst (int r) 0 (int n) =
        Some (mem_copy dst 0 (mem_slice (farBuf aecm) r ?k), 0, int ?k, int n - int ?k)"
      by (subst fetch_far_loop.simps) (simp only: g if_True Let_def k l2 nat_int nat_0)
    have i: "0 + (int n - int ?k) = int (r + n) - int FAR_BUF_LEN" "nat (int n - int ?k) = n - ?k" using rl by linarith+
    have "mem_copy (mem_copy dst 0 (mem_slice (farBuf aecm) r ?k)) ?k (mem_slice (farBuf aecm) 0 (n - ?k)) =
        take n (rotate r (farBuf aecm))"
      using False assms(1-3) rl \<open>?k \<le> n\<close> by (simp add: rotate_split mem_copy_def mem_slice_def)
    then show ?thesis
      unfolding WebRtcAecm_FetchFarFrame_def Let_def w l1 option.map prod.case i nat_int nat_0 if_not_P [OF False] by simp
  qed
qed

lemma rotate_delayed:
  assumes "length buf = N" "0 \<le> known" "nat known + n \<le> N" "0 \<le> w" "0 < N"
  shows "take n (rotate (nat ((w - int n - known) mod int N)) buf) = mem_slice (rotate (nat w) buf) (N - n - nat known) n"
proof -
  have "(w - int n - known) mod int N = (w - int n - known + int N) mod int N" by simp
  also have "w - int n - known + int N = int (N - n - nat known + nat w)" using assms by linarith
  finally have "nat ((w - int n - known) mod int N) = (N - n - nat known + nat w) mod N"
    by (simp only: of_nat_mod [symmetric] nat_int)
  then have "rotate (nat ((w - int n - known) mod int N)) buf = rotate (N - n - nat known) (rotate (nat w) buf)"
    using assms(1) rotate_conv_mod [of "N - n - nat known + nat w" buf] by (simp add: rotate_rotate)
  then show ?thesis using assms by (simp add: take_rotate)
qed

lemma buffer_then_fetch:
  assumes "far_buf_ok aecm" "length frame = n" "length dst = n" "0 \<le> known" "nat known + n \<le> FAR_BUF_LEN"
  obtains b w r where
    "WebRtcAecm_BufferFarFrame aecm frame (int n) = Some (aecm\<lparr>farBuf := b, farBufWritePos := w\<rparr>)"
    "WebRtcAecm_FetchFarFrame (aecm\<lparr>farBuf := b, farBufWritePos := w\<rparr>) dst (int n) known =
       Some (aecm\<lparr>farBuf := b, farBufWritePos := w, farBufReadPos := r, lastKnownDelay := known\<rparr>,
             mem_slice (delay_line aecm @ frame) (FAR_BUF_LEN - nat known) n)"
    "far_buf_ok (aecm\<lparr>farBuf := b, farBufWritePos := w, farBufReadPos := r, lastKnownDelay := known\<rparr>)"
    "delay_line (aecm\<lparr>farBuf := b, farBufWritePos := w, farBufReadPos := r, lastKnownDelay := known\<rparr>) =
       drop n (delay_line aecm @ frame)"
proof -
  let ?N = "FAR_BUF_LEN"
  have n: "n \<le> ?N" using assms(5) by simp
  obtain b w where b: "WebRtcAecm_BufferFarFrame aecm frame (int n) = Some (aecm\<lparr>farBuf := b, farBufWritePos := w\<rparr>)"
      "length b = ?N" "0 \<le> w" "w \<le> int ?N" "w mod int ?N = (farBufWritePos aecm + int n) mod int ?N"
      "rotate (nat w) b = drop n (delay_line aecm @ frame)"
    using BufferFarFrame_line [OF assms(1,2) n] by blast
  let ?r = "(farBufReadPos aecm - (known - lastKnownDelay aecm)) mod int ?N"
  let ?p = "if nat ?r + n \<le> ?N then int (nat ?r + n) else int (nat ?r + n) - int ?N"
  have "(farBufWritePos aecm - farBufReadPos aecm) mod int ?N = lastKnownDelay aecm mod int ?N"
    using assms(1) by (simp add: far_buf_ok_def)
  then have "(farBufReadPos aecm - known + lastKnownDelay aecm) mod int ?N = (farBufReadPos aecm - known + (farBufWritePos aecm - farBufReadPos aecm)) mod int ?N"
    by (intro mod_add_cong) simp_all
  then have "?r = (farBufWritePos aecm - known) mod int ?N" by (simp add: algebra_simps)
  also have "\<dots> = (farBufWritePos aecm + int n - (int n + known)) mod int ?N" by simp
  also have "\<dots> = (w - (int n + known)) mod int ?N" using b(5) by (intro mod_diff_cong) simp_all
  finally have r: "?r = (w - int n - known) mod int ?N" by (simp add: algebra_simps)
  have rn: "int (nat ?r) = ?r" by (simp add: aecm_sizes)
  have "?p mod int ?N = (?r + int n) mod int ?N" by (simp only: of_nat_add rn minus_mod_self2 split: if_split) simp
  also have "\<dots> = (w - known) mod int ?N" unfolding r by (simp add: mod_add_left_eq)
  finally have pm: "?p mod int ?N = (w - known) mod int ?N" .
  have "(w - ?p) mod int ?N = (w - (w - known)) mod int ?N" using pm by (intro mod_diff_cong) simp_all
  then have sync: "(w - ?p) mod int ?N = known mod int ?N" by simp
  have "take n (rotate (nat ?r) b) = mem_slice (rotate (nat w) b) (?N - n - nat known) n"
    unfolding r using assms b by (intro rotate_delayed) (simp_all add: aecm_sizes)
  also have "\<dots> = mem_slice (delay_line aecm @ frame) (?N - nat known) n"
    using assms(5) unfolding b(6) mem_slice_def drop_drop by (simp add: add.commute)
  finally have o: "take n (rotate (nat ?r) b) = mem_slice (delay_line aecm @ frame) (?N - nat known) n" .
  show thesis
  proof (rule that [OF b(1), of ?p])
    show "WebRtcAecm_FetchFarFrame (aecm\<lparr>farBuf := b, farBufWritePos := w\<rparr>) dst (int n) known =
        Some (aecm\<lparr>farBuf := b, farBufWritePos := w, farBufReadPos := ?p, lastKnownDelay := known\<rparr>,
             mem_slice (delay_line aecm @ frame) (?N - nat known) n)"
      using FetchFarFrame_returns [of "aecm\<lparr>farBuf := b, farBufWritePos := w\<rparr>" dst n known] assms(3) b(2) n o by simp
    show "far_buf_ok (aecm\<lparr>farBuf := b, farBufWritePos := w, farBufReadPos := ?p, lastKnownDelay := known\<rparr>)"
      using b sync by (simp add: far_buf_ok_def)
    show "delay_line (aecm\<lparr>farBuf := b, farBufWritePos := w, farBufReadPos := ?p, lastKnownDelay := known\<rparr>) =
        drop n (delay_line aecm @ frame)"
      using b(6) by (simp add: delay_line_def)
  qed
qed

section \<open>Properties\<close>

text \<open>C5: The far-end history is a memory of the last 25 spectra. After any sequence of
  updates, from the initialised state or from any later one, reading it at delay \<open>d\<close> gives
  the spectrum and the Q-domain of the update \<open>d\<close> blocks ago, however often the position
  has wrapped.\<close>

theorem far_history_recent:
  assumes "history_ok aecm \<or> history_fresh aecm" "list_all entry_ok xs" "d < length xs" "d < MAX_DELAY"
  shows "WebRtcAecm_AlignedFarend (foldl put_spectrum aecm xs) (int d) = (case rev xs ! d of (s, c, q) \<Rightarrow> (q, s))"
  using assms(1)
proof
  assume "history_ok aecm"
  then show ?thesis using assms(2-4) by (rule far.get_puts)
next
  assume f: "history_fresh aecm"
  obtain x ys where xs: "xs = x # ys" using assms(3) by (cases xs) auto
  have "foldl put_spectrum aecm xs = foldl put_spectrum (aecm\<lparr>far_history_pos := int MAX_DELAY - 1\<rparr>) xs"
    using UpdateFarHistory_fresh [OF f] by (simp add: xs)
  then show ?thesis using far.get_puts [OF _ assms(2-4)] f by (simp add: history_fresh_def)
qed

theorem far_history_recent_witness:
  "WebRtcAecm_AlignedFarend (foldl put_spectrum (init_core_history zero_core 16000)
     [(replicate 257 7, replicate 257 (0, 0), 3), (replicate 257 9, replicate 257 (1, 0), 5)]) 1 = (3, replicate 257 7)"
proof -
  have "history_fresh (init_core_history zero_core 16000)"
    by (simp add: history_fresh_def history_ok_def init_core_history_def WebRtcAecm_InitEchoPathCore_def Let_def aecm_sizes)
  then show ?thesis
    using far_history_recent [of "init_core_history zero_core 16000"
        "[(replicate 257 7, replicate 257 (0, 0), 3), (replicate 257 9, replicate 257 (1, 0), 5)]" 1]
    by (simp add: entry_ok_def aecm_sizes)
qed

text \<open>C6: The far-end sample buffer is a delay line. Buffering a frame and fetching one of the
  same length with a known delay returns (both wrapping loops end) the samples that arrived
  that many samples earlier, for any change of the known delay, as long as delay and frame
  fit the buffer; the state is again a delay line, with the frame appended.\<close>

theorem far_delay_line:
  assumes "far_buf_ok aecm" "length frame = n" "length dst = n" "0 \<le> known" "nat known + n \<le> FAR_BUF_LEN"
  shows "\<exists>aecm1 aecm2. WebRtcAecm_BufferFarFrame aecm frame (int n) = Some aecm1 \<and>
    WebRtcAecm_FetchFarFrame aecm1 dst (int n) known =
      Some (aecm2, mem_slice (delay_line aecm @ frame) (FAR_BUF_LEN - nat known) n) \<and>
    far_buf_ok aecm2 \<and> lastKnownDelay aecm2 = known \<and> delay_line aecm2 = drop n (delay_line aecm @ frame)"
proof -
  obtain b w r where
    "WebRtcAecm_BufferFarFrame aecm frame (int n) = Some (aecm\<lparr>farBuf := b, farBufWritePos := w\<rparr>)"
    "WebRtcAecm_FetchFarFrame (aecm\<lparr>farBuf := b, farBufWritePos := w\<rparr>) dst (int n) known =
       Some (aecm\<lparr>farBuf := b, farBufWritePos := w, farBufReadPos := r, lastKnownDelay := known\<rparr>,
             mem_slice (delay_line aecm @ frame) (FAR_BUF_LEN - nat known) n)"
    "far_buf_ok (aecm\<lparr>farBuf := b, farBufWritePos := w, farBufReadPos := r, lastKnownDelay := known\<rparr>)"
    "delay_line (aecm\<lparr>farBuf := b, farBufWritePos := w, farBufReadPos := r, lastKnownDelay := known\<rparr>) =
       drop n (delay_line aecm @ frame)"
    by (rule buffer_then_fetch [OF assms])
  then show ?thesis by auto
qed

theorem far_delay_line_witness:
  "\<exists>aecm1 aecm2. WebRtcAecm_BufferFarFrame zero_core (replicate 80 9) 80 = Some aecm1 \<and>
    WebRtcAecm_FetchFarFrame aecm1 (replicate 80 0) 80 30 = Some (aecm2, replicate 30 0 @ replicate 50 9)"
proof -
  have "far_buf_ok zero_core" by (simp add: far_buf_ok_def zero_core_def)
  then show ?thesis
    using far_delay_line [of zero_core "replicate 80 9" 80 "replicate 80 0" 30]
    by (auto simp: delay_line_def zero_core_def mem_slice_def aecm_sizes)
qed

end
