(* ===== verification/Aecm_Channel.thy ===== *)
theory Aecm_Channel
  imports Aecm_Far
begin

unbundle bit_operations_syntax

text \<open>
  The estimation in \<open>aecm_core.c\<close>: the channel and the echo estimate, the logarithmic energies
  and the levels that follow them, the step size and the suppression gain.
\<close>

section \<open>The channel\<close>

text \<open>
  The echo path never gets a negative coefficient, so the echo estimate, a product of a
  coefficient and a magnitude, is exact.
\<close>

definition channel_ok :: "AecmCore \<Rightarrow> bool" where
  "channel_ok aecm \<longleftrightarrow>
     length (channelStored aecm) = PART_LEN1 \<and> length (channelAdapt16 aecm) = PART_LEN1 \<and> length (channelAdapt32 aecm) = PART_LEN1 \<and>
     list_all (\<lambda>c. 0 \<le> c \<and> c \<le> 32767) (channelStored aecm) \<and> list_all (\<lambda>c. 0 \<le> c \<and> c \<le> 32767) (channelAdapt16 aecm) \<and>
     list_all (\<lambda>c. 0 \<le> c \<and> c \<le> 2147483647) (channelAdapt32 aecm)"

definition magnitudes :: "int list \<Rightarrow> bool" where
  "magnitudes xs \<longleftrightarrow> length xs = PART_LEN1 \<and> list_all in_u16 xs"

definition same_channel :: "AecmCore \<Rightarrow> AecmCore \<Rightarrow> bool" where
  "same_channel a b \<longleftrightarrow> channelStored a = channelStored b \<and> channelAdapt16 a = channelAdapt16 b \<and> channelAdapt32 a = channelAdapt32 b"

lemma same_channel_ok: "same_channel a b \<Longrightarrow> channel_ok b \<Longrightarrow> channel_ok a"
  by (simp add: same_channel_def channel_ok_def)

lemma list_all_fold_update:
  assumes "list_all P xs" and "\<And>i c. P c \<Longrightarrow> P (f i c)" and "\<And>i. i \<in> set js \<Longrightarrow> i < length xs"
  shows "list_all P (fold (\<lambda>i c. c[i := f i (c ! i)]) js xs)"
  using assms(1,3)
proof (induction js arbitrary: xs)
  case (Cons j js)
  then have "P (f j (xs ! j))" using assms(2) by (simp add: list_all_length)
  then show ?case using Cons by (simp add: list_all_update)
qed simp

text \<open>The unrolled loops write every element once.\<close>

lemma store_four_loop:
  assumes "length xs = PART_LEN1"
  shows "(fold (store_four f) (loop_steps 0 PART_LEN 4) xs)[PART_LEN := f PART_LEN] = map f [0..<PART_LEN1]"
proof -
  have *: "length xs = N \<Longrightarrow> 4 * m \<le> N \<Longrightarrow>
      fold (store_four f) (map (\<lambda>q. 4 * q) [0..<m]) xs = map f [0..<4 * m] @ drop (4 * m) xs" for m N
  proof (induction m)
    case (Suc m)
    then have "drop (4 * m) xs = xs ! (4 * m) # xs ! (4 * m + 1) # xs ! (4 * m + 2) # xs ! (4 * m + 3) # drop (4 * m + 4) xs"
      by (simp add: Cons_nth_drop_Suc numeral_eq_Suc)
    moreover have "[0..<4 * Suc m] = [0..<4 * m] @ [4 * m, 4 * m + 1, 4 * m + 2, 4 * m + 3]"
      by (simp add: numeral_eq_Suc)
    ultimately show ?case using Suc by (simp add: store_four_def list_update_append add.commute split: nat.split)
  qed simp
  from this [of PART_LEN1 64] assms
  have "fold (store_four f) (loop_steps 0 PART_LEN 4) xs = map f [0..<256] @ drop 256 xs"
    by (simp add: loop_steps_def aecm_sizes)
  moreover have "drop 256 xs = [xs ! 256]"
    using assms by (simp add: aecm_sizes Cons_nth_drop_Suc [symmetric])
  moreover have "[0..<257] = [0..<256] @ [256::nat]" by (simp add: upt_Suc_append [symmetric])
  ultimately show ?thesis by (simp add: aecm_sizes list_update_append)
qed

lemma mul_16_u16_exact: "0 \<le> c \<Longrightarrow> c \<le> 32767 \<Longrightarrow> in_u16 x \<Longrightarrow> WEBRTC_SPL_MUL_16_U16 c x = c * x"
proof -
  assume a: "0 \<le> c" "c \<le> 32767" "in_u16 x"
  then have "c * x \<le> 32767 * 65535" by (intro mult_mono) (auto simp: in_u16_def)
  moreover have "0 \<le> c * x" using a by (simp add: in_u16_def)
  ultimately show ?thesis using a
    by (simp add: WEBRTC_SPL_MUL_16_U16_def i16_id u16_id in_i16_def i32_id in_i32_def)
qed

definition echo_of :: "int list \<Rightarrow> int list \<Rightarrow> int list" where
  "echo_of channel far = map (\<lambda>i. channel ! i * far ! i) [0..<PART_LEN1]"

lemma StoreAdaptiveChannelC_spec:
  assumes "channel_ok aecm" "magnitudes far" "length est = PART_LEN1"
  shows "StoreAdaptiveChannelC aecm far est =
    (aecm\<lparr>channelStored := channelAdapt16 aecm\<rparr>, echo_of (channelAdapt16 aecm) far)"
proof -
  have c: "mem_copy (channelStored aecm) 0 (take PART_LEN1 (channelAdapt16 aecm)) = channelAdapt16 aecm"
    using assms(1) by (simp add: channel_ok_def mem_copy_def)
  have "WEBRTC_SPL_MUL_16_U16 (channelAdapt16 aecm ! i) (far ! i) = channelAdapt16 aecm ! i * far ! i" if "i < PART_LEN1" for i
    using that assms by (intro mul_16_u16_exact) (auto simp: channel_ok_def magnitudes_def list_all_length)
  then have "map (\<lambda>i. WEBRTC_SPL_MUL_16_U16 (channelAdapt16 aecm ! i) (far ! i)) [0..<PART_LEN1] = echo_of (channelAdapt16 aecm) far"
    by (simp add: echo_of_def)
  then show ?thesis using store_four_loop [OF assms(3)] c by (simp add: StoreAdaptiveChannelC_def Let_def)
qed

lemma shl32_16: "0 \<le> c \<Longrightarrow> c \<le> 32767 \<Longrightarrow> shl32 c 16 = c * 65536"
  by (simp add: shl32_def i32_id in_i32_def)

lemma ResetAdaptiveChannelC_spec:
  assumes "channel_ok aecm"
  shows "ResetAdaptiveChannelC aecm =
    aecm\<lparr>channelAdapt16 := channelStored aecm, channelAdapt32 := map (\<lambda>c. c * 65536) (channelStored aecm)\<rparr>"
proof -
  have c: "mem_copy (channelAdapt16 aecm) 0 (take PART_LEN1 (channelStored aecm)) = channelStored aecm"
    using assms by (simp add: channel_ok_def mem_copy_def)
  have "map (\<lambda>i. shl32 (channelStored aecm ! i) 16) [0..<PART_LEN1] = map (\<lambda>c. c * 65536) (channelStored aecm)"
    using assms by (intro nth_equalityI) (auto simp: channel_ok_def list_all_length shl32_16)
  then show ?thesis
    using store_four_loop [of "channelAdapt32 aecm" "\<lambda>i. shl32 (channelStored aecm ! i) 16"] assms c
    by (simp add: ResetAdaptiveChannelC_def Let_def channel_ok_def)
qed

lemma ResetAdaptiveChannelC_ok: "channel_ok aecm \<Longrightarrow> channel_ok (ResetAdaptiveChannelC aecm)"
  by (simp add: ResetAdaptiveChannelC_spec) (auto simp: channel_ok_def list_all_iff)

lemma AddSatW32_le: "WebRtcSpl_AddSatW32 a b \<le> 2147483647"
  using i32_bounds(2) [of "a + b"] by (simp add: WebRtcSpl_AddSatW32_def Let_def)

lemma nlms_band_bounds:
  assumes "0 \<le> ch32" "ch32 \<le> 2147483647" "0 \<le> ch16" "ch16 \<le> 32767" "nlms_band q f mu i x d (ch32, ch16) = (a, b)"
  shows "0 \<le> a \<and> a \<le> 2147483647 \<and> 0 \<le> b \<and> b \<le> 32767"
proof -
  have n: "0 \<le> i16 (shr c 16) \<and> i16 (shr c 16) \<le> 32767" if "0 \<le> c" "c \<le> 2147483647" for c
  proof -
    have "0 \<le> shr c 16" "shr c 16 \<le> 32767" using that by (simp_all add: shr_def)
    then show ?thesis by (simp add: i16_id in_i16_def)
  qed
  show ?thesis
    using assms AddSatW32_le n unfolding nlms_band_def Let_def prod.case split_def
    by (auto split: if_splits)
qed

lemma nlms_step_ok:
  assumes "channel_ok aecm" "i < PART_LEN1"
  shows "channel_ok (nlms_step far q dfa mu i aecm)"
proof -
  obtain a b where e: "nlms_band (dfaNoisyQDomain aecm) q mu i (far ! i) (dfa ! i) (channelAdapt32 aecm ! i, channelAdapt16 aecm ! i) = (a, b)"
    by (metis surj_pair)
  have "0 \<le> a \<and> a \<le> 2147483647 \<and> 0 \<le> b \<and> b \<le> 32767"
    using assms by (intro nlms_band_bounds [OF _ _ _ _ e]) (auto simp: channel_ok_def list_all_length)
  then show ?thesis using assms(1) by (simp add: nlms_step_def e channel_ok_def list_all_update)
qed

lemma nlms_loop_ok:
  "channel_ok aecm \<Longrightarrow> list_all (\<lambda>i. i < PART_LEN1) is \<Longrightarrow>
   channel_ok (fold (nlms_step far q dfa mu) is aecm) \<and> channelStored (fold (nlms_step far q dfa mu) is aecm) = channelStored aecm"
proof (induction "is" arbitrary: aecm)
  case (Cons i "is")
  then have "channel_ok (nlms_step far q dfa mu i aecm)" by (simp add: nlms_step_ok)
  from Cons.IH [OF this] Cons.prems show ?case by (simp add: nlms_step_def split_def Let_def)
qed simp

lemma update_vad_channel:
  assumes "channel_ok aecm"
  shows "channel_ok (update_vad aecm) \<and> channelStored (update_vad aecm) = channelStored aecm"
proof -
  have "list_all (\<lambda>c. 0 \<le> c \<and> c \<le> 32767) (fold (\<lambda>i c. c[i := shr (c ! i) 3]) [0..<PART_LEN1] (channelAdapt16 aecm))"
    using assms by (intro list_all_fold_update) (auto simp: channel_ok_def shr_def)
  moreover have "length (fold (\<lambda>i c. c[i := shr (c ! i) 3]) [0..<PART_LEN1] (channelAdapt16 aecm)) = PART_LEN1"
    using assms by (subst fold_update_prefix) (simp_all add: channel_ok_def)
  ultimately show ?thesis using assms by (simp add: update_vad_def Let_def channel_ok_def)
qed

lemma update_far_levels_channel: "same_channel (update_far_levels aecm) aecm"
  by (simp add: update_far_levels_def Let_def split_def same_channel_def)

lemma CalcLinearEnergiesC_estimate:
  assumes "channel_ok aecm" "magnitudes far" "length est = PART_LEN1"
  shows "fst (CalcLinearEnergiesC aecm far (est, x, y, z)) = echo_of (channelStored aecm) far"
proof -
  have f: "fst (fold (linear_energy_step aecm far) js (e, a, b, c)) =
      fold (\<lambda>i e. e[i := WEBRTC_SPL_MUL_16_U16 (channelStored aecm ! i) (far ! i)]) js e" for js e a b c
    by (induction js arbitrary: e a b c) (simp_all add: linear_energy_step_def Let_def)
  have "WEBRTC_SPL_MUL_16_U16 (channelStored aecm ! i) (far ! i) = channelStored aecm ! i * far ! i" if "i < PART_LEN1" for i
    using that assms by (intro mul_16_u16_exact) (auto simp: channel_ok_def magnitudes_def list_all_length)
  then show ?thesis using assms(3)
    by (simp add: CalcLinearEnergiesC_def f fold_update_prefix [of PART_LEN1 est "\<lambda>i _. WEBRTC_SPL_MUL_16_U16 (channelStored aecm ! i) (far ! i)"] echo_of_def)
qed

lemma CalcEnergies_channel:
  assumes "channel_ok aecm" "magnitudes far" "length est = PART_LEN1"
    and "WebRtcAecm_CalcEnergies aecm far q near est = (a, e)"
  shows "channel_ok a \<and> channelStored a = channelStored aecm \<and> e = echo_of (channelStored aecm) far"
proof -
  obtain e1 x y z where l: "CalcLinearEnergiesC (aecm\<lparr>nearLogEnergy := shift_history (LogOfEnergyInQ8 near (dfaNoisyQDomain aecm)) (nearLogEnergy aecm)\<rparr>)
      far (est, 0, 0, 0) = (e1, x, y, z)" by (metis surj_pair)
  define m where "m = (aecm\<lparr>nearLogEnergy := shift_history (LogOfEnergyInQ8 near (dfaNoisyQDomain aecm)) (nearLogEnergy aecm),
      farLogEnergy := LogOfEnergyInQ8 x q,
      echoAdaptLogEnergy := shift_history (LogOfEnergyInQ8 y (RESOLUTION_CHANNEL16 + q)) (echoAdaptLogEnergy aecm),
      echoStoredLogEnergy := shift_history (LogOfEnergyInQ8 z (RESOLUTION_CHANNEL16 + q)) (echoStoredLogEnergy aecm)\<rparr>)"
  define m2 where "m2 = (if farLogEnergy m > FAR_ENERGY_MIN then update_far_levels m else m)"
  have d: "a = update_vad m2" "e = e1"
    using assms(4) l by (simp_all add: WebRtcAecm_CalcEnergies_def Let_def m_def m2_def cong: if_cong)
  have "same_channel m2 aecm"
    using update_far_levels_channel [of m] by (simp add: m2_def same_channel_def m_def)
  then have "channel_ok m2" "channelStored m2 = channelStored aecm"
    using assms(1) by (auto intro: same_channel_ok simp: same_channel_def)
  moreover have "e1 = echo_of (channelStored aecm) far"
    using CalcLinearEnergiesC_estimate [OF _ assms(2,3), of "aecm\<lparr>nearLogEnergy := _\<rparr>" 0 0 0] l assms(1)
    by (simp add: channel_ok_def) (metis fst_conv)
  ultimately show ?thesis using update_vad_channel [of m2] d by simp
qed

lemma validate_channel_ok:
  assumes "channel_ok aecm" "magnitudes far" "e = echo_of (channelStored aecm) far"
    and "validate_channel aecm far e = (a, e2)"
  shows "channel_ok a \<and> e2 = echo_of (channelStored a) far"
proof -
  have l: "length e = PART_LEN1" using assms(3) by (simp add: echo_of_def)
  show ?thesis
    using assms(1,3,4) ResetAdaptiveChannelC_ok [OF assms(1)] StoreAdaptiveChannelC_spec [OF assms(1,2) l]
    by (auto simp: validate_channel_def Let_def split_def channel_ok_def ResetAdaptiveChannelC_spec [OF assms(1)] split: if_splits)
qed

lemma UpdateChannel_ok:
  assumes "channel_ok aecm" "magnitudes far" "e = echo_of (channelStored aecm) far"
    and "WebRtcAecm_UpdateChannel aecm far q dfa mu e = (a, e2)"
  shows "channel_ok a \<and> e2 = echo_of (channelStored a) far"
proof -
  define b where "b = (if mu \<noteq> 0 then fold (nlms_step far q dfa mu) [0..<PART_LEN1] aecm else aecm)"
  have "channel_ok b \<and> channelStored b = channelStored aecm"
    using nlms_loop_ok [OF assms(1), of "[0..<PART_LEN1]"] assms(1) by (simp add: b_def list_all_iff)
  then have b: "channel_ok b" "e = echo_of (channelStored b) far" using assms(3) by simp_all
  have l: "length e = PART_LEN1" using assms(3) by (simp add: echo_of_def)
  define c where "c = (if farLogEnergy b < farEnergyMSE b then b\<lparr>mseChannelCount := 0\<rparr> else b\<lparr>mseChannelCount := i16 (mseChannelCount b + 1)\<rparr>)"
  have c: "channel_ok c" "e = echo_of (channelStored c) far" using b by (simp_all add: c_def channel_ok_def)
  have "(a, e2) = (if startupState b = 0 \<and> currentVADValue b AND 1 \<noteq> 0 then StoreAdaptiveChannelC b far e
      else if mseChannelCount c \<ge> int MIN_MSE_COUNT + 10 then validate_channel c far e else (c, e))"
    using assms(4) unfolding WebRtcAecm_UpdateChannel_def Let_def b_def [symmetric] c_def [symmetric] by simp
  then show ?thesis
    using validate_channel_ok [OF c(1) assms(2) c(2), of a e2] StoreAdaptiveChannelC_spec [OF b(1) assms(2) l] b c
    by (auto simp: channel_ok_def split: if_splits)
qed

lemma InitEchoPathCore_channel:
  assumes "length (channelStored aecm) = PART_LEN1" "length (channelAdapt16 aecm) = PART_LEN1" "length (channelAdapt32 aecm) = PART_LEN1"
    and "length path = PART_LEN1" "list_all (\<lambda>c. 0 \<le> c \<and> c \<le> 32767) path"
  shows "WebRtcAecm_InitEchoPathCore aecm path = aecm\<lparr>channelStored := path, channelAdapt16 := path,
      channelAdapt32 := map (\<lambda>c. c * 65536) path, mseAdaptOld := 1000, mseStoredOld := 1000,
      mseThreshold := WEBRTC_SPL_WORD32_MAX, mseChannelCount := 0\<rparr>"
    and "channel_ok (WebRtcAecm_InitEchoPathCore aecm path)"
proof -
  have "map (\<lambda>i. shl32 (path ! i) 16) [0..<PART_LEN1] = map (\<lambda>c. c * 65536) path"
    using assms(4,5) by (intro nth_equalityI) (auto simp: list_all_length shl32_16)
  then show e: "WebRtcAecm_InitEchoPathCore aecm path = aecm\<lparr>channelStored := path, channelAdapt16 := path,
      channelAdapt32 := map (\<lambda>c. c * 65536) path, mseAdaptOld := 1000, mseStoredOld := 1000,
      mseThreshold := WEBRTC_SPL_WORD32_MAX, mseChannelCount := 0\<rparr>"
    using assms fold_update_prefix [of PART_LEN1 "channelAdapt32 aecm" "\<lambda>i _. shl32 (path ! i) 16"]
    by (simp add: WebRtcAecm_InitEchoPathCore_def Let_def mem_copy_def)
  show "channel_ok (WebRtcAecm_InitEchoPathCore aecm path)"
    using assms(4,5) unfolding e by (auto simp: channel_ok_def list_all_iff)
qed

text \<open>The spectrum, the stored channel and the echo estimate of a block fit together.\<close>

definition estimate_ok :: "int list \<times> int list \<times> int list \<Rightarrow> bool" where
  "estimate_ok = (\<lambda>(far, channel, est).
     length channel = PART_LEN1 \<and> list_all (\<lambda>c. 0 \<le> c \<and> c \<le> 32767) channel \<and> est = echo_of channel far)"

section \<open>Energies\<close>

text \<open>The logarithm is linear between two powers of two.\<close>

lemma floor_log_unique: "2 ^ e \<le> (x::int) \<Longrightarrow> x < 2 ^ Suc e \<Longrightarrow> x < 4294967296 \<Longrightarrow> e \<le> 31"
proof (rule ccontr)
  assume a: "2 ^ e \<le> x" "x < 4294967296" "\<not> e \<le> 31"
  have "(2::int) ^ 32 \<le> 2 ^ e" using a by (intro power_increasing) simp_all
  then show False using a by simp
qed

lemma NormU32_floor_log:
  assumes "2 ^ e \<le> x" "x < 2 ^ Suc e" "x < 4294967296"
  shows "WebRtcSpl_NormU32 x = 31 - int e"
proof -
  have e: "e \<le> 31" using floor_log_unique assms by blast
  have x: "0 < x" using assms(1) by (rule less_le_trans [rotated]) simp
  have "x * 2 ^ (31 - e) < 2 ^ Suc e * 2 ^ (31 - e)" using assms(2) by simp
  also have "\<dots> = 2 ^ 32" using e by (simp add: power_add [symmetric])
  finally have "x * 2 ^ (31 - e) \<le> 4294967295" by simp
  then have "int (31 - e) \<le> WebRtcSpl_NormU32 x"
    using nu32.shift_fits_iff [of x "31 - e"] x assms(3) by simp
  moreover have "2 ^ e * 2 ^ Suc (31 - e) \<le> x * 2 ^ Suc (31 - e)" using assms(1) by simp
  then have "(2::int) ^ 32 \<le> x * 2 ^ Suc (31 - e)" using e by (simp add: power_add [symmetric] del: power_Suc)
  then have "\<not> int (Suc (31 - e)) \<le> WebRtcSpl_NormU32 x"
    using nu32.shift_fits_iff [of x "Suc (31 - e)"] x assms(3) by simp
  ultimately show ?thesis using e by linarith
qed

definition log_frac :: "int \<Rightarrow> nat \<Rightarrow> int" where
  "log_frac x e = ((x - 2 ^ e) * 256) div 2 ^ e"

lemma and_mask_31: "x AND 0x7FFFFFFF = x mod 2147483648" for x :: int
proof -
  have "x AND mask 31 = x mod 2 ^ 31" by (simp only: take_bit_eq_mask [symmetric] take_bit_eq_mod)
  then show ?thesis by (simp add: mask_eq_exp_minus_1)
qed

lemma ExtractFractionPart_eq:
  assumes "2 ^ e \<le> x" "x < 2 ^ Suc e" "x < 4294967296"
  shows "ExtractFractionPart x (31 - int e) = log_frac x e" and "0 \<le> log_frac x e" and "log_frac x e \<le> 255"
proof -
  have e: "e \<le> 31" using floor_log_unique assms by blast
  have n: "nat (31 - int e) = 31 - e" using e by linarith
  let ?y = "(x - 2 ^ e) * 2 ^ (31 - e)"
  have p: "(2::int) ^ e * 2 ^ (31 - e) = 2147483648" using e by (simp add: power_add [symmetric])
  have y: "x * 2 ^ (31 - e) = ?y + 2147483648" using p by (simp add: algebra_simps)
  have "?y < 2 ^ e * 2 ^ (31 - e)" using assms(2) by simp
  then have y1: "?y < 2147483648" using p by simp
  have y0: "0 \<le> ?y" using assms(1) by simp
  have "u32 (?y + 2147483648) = ?y + 2147483648" using y0 y1 by (intro u32_id) (simp add: in_u32_def)
  then have "shlu32 x (31 - int e) AND 0x7FFFFFFF = (?y + 2147483648) mod 2147483648"
    by (simp add: shlu32_def n y and_mask_31)
  also have "\<dots> = ?y" using y0 y1 by simp
  finally have f: "shlu32 x (31 - int e) AND 0x7FFFFFFF = ?y" .
  have "?y div 8388608 = (?y * 256) div (8388608 * 256)" by (rule div_mult_mult2 [symmetric]) simp
  also have "?y * 256 = ((x - 2 ^ e) * 256) * 2 ^ (31 - e)" by simp
  also have "(8388608 * 256 :: int) = 2 ^ e * 2 ^ (31 - e)" using p by simp
  finally have d: "?y div 8388608 = ((x - 2 ^ e) * 256) div 2 ^ e" by (subst (asm) div_mult_mult2) simp_all
  have r: "0 \<le> ?y div 8388608" "?y div 8388608 < 256" using y0 y1 by (simp_all add: pos_imp_zdiv_nonneg_iff div_less_mult)
  show "ExtractFractionPart x (31 - int e) = log_frac x e"
    unfolding ExtractFractionPart_def f shr_def log_frac_def using r by (simp add: i16_id in_i16_def d)
  show "0 \<le> log_frac x e" using assms(1) by (simp add: log_frac_def pos_imp_zdiv_nonneg_iff)
  have "((x - 2 ^ e) * 256) div 2 ^ e < 256" using assms(2) by (intro div_less_mult) simp_all
  then show "log_frac x e \<le> 255" by (simp add: log_frac_def)
qed

lemma LogOfEnergyInQ8_eq:
  assumes "2 ^ e \<le> x" "x < 2 ^ Suc e" "x < 4294967296" "0 \<le> q" "q \<le> 27"
  shows "LogOfEnergyInQ8 x q = 1152 + 256 * (int e - q) + log_frac x e"
proof -
  have e: "e \<le> 31" using floor_log_unique assms by blast
  have x: "0 < x" using assms(1) by (rule less_le_trans [rotated]) simp
  note f = ExtractFractionPart_eq [OF assms(1-3)]
  let ?f = "log_frac x e"
  have s: "shl32 (31 - (31 - int e)) 8 = 256 * int e" "shl32 q 8 = 256 * q"
    using e assms(4,5) by (simp_all add: shl32_def i32_id in_i32_def)
  have "i16 (1152 + (256 * int e + ?f - 256 * q)) = 1152 + (256 * int e + ?f - 256 * q)"
    using e f(2,3) assms(4,5) by (intro i16_id) (simp add: in_i16_def)
  moreover have "i16 (shl32 PART_LEN_SHIFT 7) = 1152" by (simp add: PART_LEN_SHIFT_def shl32_def i32_def i16_def)
  ultimately show ?thesis using x
    unfolding LogOfEnergyInQ8_def Let_def NormU32_floor_log [OF assms(1-3)] f(1) s by simp
qed

lemma LogOfEnergyInQ8_zero: "LogOfEnergyInQ8 0 q = 1152"
  by (simp add: LogOfEnergyInQ8_def PART_LEN_SHIFT_def shl32_def i32_def i16_def)

lemma floor_log_exists:
  assumes "0 < (x::int)"
  obtains e where "2 ^ e \<le> x" "x < 2 ^ Suc e"
proof -
  have "int (nat x) < 2 ^ nat x" by (rule of_nat_less_two_power)
  then have "\<exists>n. x < 2 ^ n" using assms by auto
  then obtain n where n: "x < 2 ^ n" "\<And>m. m < n \<Longrightarrow> \<not> x < 2 ^ m"
    using LeastI_ex [of "\<lambda>n. x < 2 ^ n"] not_less_Least [of _ "\<lambda>n. x < 2 ^ n"] by blast
  then show thesis using assms that by (cases n) (auto simp: not_less)
qed

lemma LogOfEnergyInQ8_bounds:
  assumes "in_u32 x" "0 \<le> q" "q \<le> 27"
  shows "- 5760 \<le> LogOfEnergyInQ8 x q \<and> LogOfEnergyInQ8 x q \<le> 9343"
proof (cases "x = 0")
  case False
  then have x: "0 < x" "x < 4294967296" using assms(1) by (simp_all add: in_u32_def)
  then obtain e where e: "2 ^ e \<le> x" "x < 2 ^ Suc e" using floor_log_exists by blast
  have "e \<le> 31" using floor_log_unique e x by blast
  then show ?thesis
    using LogOfEnergyInQ8_eq [OF e x(2) assms(2,3)] ExtractFractionPart_eq(2,3) [OF e x(2)] assms(2,3) by auto
qed (simp add: LogOfEnergyInQ8_zero)

lemma LogOfEnergyInQ8_mono:
  assumes "0 < x" "x \<le> y" "y < 4294967296" "0 \<le> q" "q \<le> 27"
  shows "LogOfEnergyInQ8 x q \<le> LogOfEnergyInQ8 y q"
proof -
  have xl: "x < 4294967296" and y0: "0 < y" using assms by simp_all
  obtain d where d: "2 ^ d \<le> x" "x < 2 ^ Suc d" using floor_log_exists assms(1) by blast
  obtain e where e: "2 ^ e \<le> y" "y < 2 ^ Suc e" using floor_log_exists y0 by blast
  have "(2::int) ^ d < 2 ^ Suc e" using d e assms(2) by linarith
  then have "d < Suc e" by (subst (asm) power_strict_increasing_iff) simp_all
  then consider "d = e" | "d < e" by linarith
  then show ?thesis
  proof cases
    case 1
    have "log_frac x e \<le> log_frac y e" using assms(2) by (simp add: log_frac_def zdiv_mono1)
    then show ?thesis using LogOfEnergyInQ8_eq [OF d xl assms(4,5)] LogOfEnergyInQ8_eq [OF e assms(3,4,5)] 1 by simp
  next
    case 2
    then have "int d + 1 \<le> int e" by simp
    then show ?thesis
      using LogOfEnergyInQ8_eq [OF d xl assms(4,5)] LogOfEnergyInQ8_eq [OF e assms(3,4,5)]
        ExtractFractionPart_eq(3) [OF d xl] ExtractFractionPart_eq(2) [OF e assms(3)] by (simp add: algebra_simps)
  qed
qed

text \<open>The asymmetric filter moves towards the input and not past it, and keeps the order of its states.\<close>

lemma AsymFilt_eq:
  assumes "- 10000 \<le> old" "old \<le> 10000" "- 10000 \<le> x" "x \<le> 10000"
  shows "WebRtcAecm_AsymFilt old x p n = (if old > x then old - shr (old - x) n else old + shr (x - old) p)"
proof -
  have "0 \<le> shr (old - x) n \<and> shr (old - x) n \<le> old - x" if "old > x" using that by (simp add: shr_nonneg shr_le)
  moreover have "0 \<le> shr (x - old) p \<and> shr (x - old) p \<le> x - old" if "old \<le> x" using that by (simp add: shr_nonneg shr_le)
  ultimately show ?thesis
    using assms by (auto simp: WebRtcAecm_AsymFilt_def WEBRTC_SPL_WORD16_MAX_def WEBRTC_SPL_WORD16_MIN_def i16_id in_i16_def)
qed

lemma AsymFilt_between:
  assumes "lo \<le> old" "old \<le> hi" "lo \<le> x" "x \<le> hi" "- 10000 \<le> lo" "hi \<le> 10000"
  shows "lo \<le> WebRtcAecm_AsymFilt old x p n \<and> WebRtcAecm_AsymFilt old x p n \<le> hi"
proof -
  have "0 \<le> shr (old - x) n \<and> shr (old - x) n \<le> old - x" if "old > x" using that by (simp add: shr_nonneg shr_le)
  moreover have "0 \<le> shr (x - old) p \<and> shr (x - old) p \<le> x - old" if "old \<le> x" using that by (simp add: shr_nonneg shr_le)
  ultimately show ?thesis using assms by (auto simp: AsymFilt_eq)
qed

lemma AsymFilt_start: "WebRtcAecm_AsymFilt WEBRTC_SPL_WORD16_MAX x p n = x" "WebRtcAecm_AsymFilt WEBRTC_SPL_WORD16_MIN x p n = x"
  by (simp_all add: WebRtcAecm_AsymFilt_def)

lemma shr_step: "shr (y + d) n \<le> shr y n + d" if "0 \<le> d" for y d :: int
proof -
  have "(y + d) div 2 ^ nat n \<le> (y + d * 2 ^ nat n) div 2 ^ nat n"
    using that by (intro zdiv_mono1) (simp_all add: mult_le_cancel_left1)
  then show ?thesis by (simp add: shr_def)
qed

lemma shr_antimono: "0 \<le> y \<Longrightarrow> m \<le> n \<Longrightarrow> shr y n \<le> shr y m"
  unfolding shr_def by (intro zdiv_mono2) (simp_all add: power_increasing nat_mono)

lemma AsymFilt_order:
  assumes "lo \<le> hi" "- 10000 \<le> lo" "hi \<le> 10000" "- 10000 \<le> x" "x \<le> 10000" "p' \<le> p" "n \<le> n'"
  shows "WebRtcAecm_AsymFilt lo x p n \<le> WebRtcAecm_AsymFilt hi x p' n'"
proof -
  consider "lo \<le> x" "x < hi" | "hi \<le> x" | "x < lo" using assms(1) by linarith
  then show ?thesis
  proof cases
    case 1
    then show ?thesis using assms shr_le [of "x - lo" p] shr_le [of "hi - x" n'] by (simp add: AsymFilt_eq)
  next
    case 2
    have "shr (x - lo) p \<le> shr (x - lo) p'" using 2 assms(1,6) by (intro shr_antimono) simp_all
    also have "\<dots> \<le> shr (x - hi) p' + (hi - lo)" using shr_step [of "hi - lo" "x - hi" p'] assms(1) by simp
    finally show ?thesis using 2 assms by (simp add: AsymFilt_eq)
  next
    case 3
    have "shr (hi - x) n' \<le> shr (hi - x) n" using 3 assms(1,7) by (intro shr_antimono) simp_all
    also have "\<dots> \<le> shr (lo - x) n + (hi - lo)" using shr_step [of "hi - lo" "lo - x" n] assms(1) by simp
    finally show ?thesis using 3 assms by (simp add: AsymFilt_eq)
  qed
qed

definition levels_ok :: "AecmCore \<Rightarrow> bool" where
  "levels_ok aecm \<longleftrightarrow>
     (farEnergyMin aecm = WEBRTC_SPL_WORD16_MAX \<and> farEnergyMax aecm = WEBRTC_SPL_WORD16_MIN \<and> farEnergyMaxMin aecm = 0 \<or>
      1025 < farEnergyMin aecm \<and> farEnergyMin aecm \<le> farEnergyMax aecm \<and> farEnergyMax aecm \<le> 9343 \<and>
      farEnergyMaxMin aecm = farEnergyMax aecm - farEnergyMin aecm) \<and>
     1025 \<le> farEnergyVAD aecm \<and> farEnergyVAD aecm \<le> 10263 \<and>
     (farEnergyMSE aecm = 0 \<or> farEnergyMSE aecm = farEnergyVAD aecm + 256) \<and>
     0 \<le> vadUpdateCount aecm \<and> vadUpdateCount aecm \<le> 1025"

text \<open>The margin above the minimum level.\<close>

lemma vad_margin:
  assumes "1025 < m" "m \<le> 9343"
  shows "i16 ((if i16 (2560 - m) > 0 then i16 (shr (i16 (2560 - m) * FAR_ENERGY_VAD_REGION) 9) else 0) + FAR_ENERGY_VAD_REGION) =
    230 + max 0 ((2560 - m) * 230 div 512)"
    and "max 0 ((2560 - m) * 230 div 512) \<le> 689"
proof -
  have a: "i16 (2560 - m) = 2560 - m" using assms by (intro i16_id) (simp add: in_i16_def)
  have b: "(2560 - m) * 230 div 512 \<le> 689" using zdiv_mono1 [of "(2560 - m) * 230" 352820 512] assms by simp
  then show "max 0 ((2560 - m) * 230 div 512) \<le> 689" by simp
  have c: "(2560 - m) * 230 div 512 \<le> 0" if "2560 - m \<le> 0" using zdiv_mono1 [of "(2560 - m) * 230" 0 512] that by simp
  have d: "0 \<le> (2560 - m) * 230 div 512" if "2560 - m > 0" using that by (simp add: pos_imp_zdiv_nonneg_iff)
  show "i16 ((if i16 (2560 - m) > 0 then i16 (shr (i16 (2560 - m) * FAR_ENERGY_VAD_REGION) 9) else 0) + FAR_ENERGY_VAD_REGION) =
    230 + max 0 ((2560 - m) * 230 div 512)"
    using b c d unfolding a shr_def by (cases "2560 - m > 0") (simp_all add: FAR_ENERGY_VAD_REGION_def i16_id in_i16_def max_def)
qed

lemma update_far_levels_ok:
  assumes "levels_ok aecm" "1025 < farLogEnergy aecm" "farLogEnergy aecm \<le> 9343"
  defines "a \<equiv> update_far_levels aecm"
  shows "levels_ok a" and "1025 < farEnergyMin a" and "farEnergyMin a \<le> farEnergyMax a"
    and "startupState aecm = 0 \<Longrightarrow> farEnergyMin a + 230 \<le> farEnergyVAD a"
proof -
  let ?x = "farLogEnergy aecm"
  define s where "s = (if startupState aecm = 0 then (2, 2, 8) else (4, 3, 11) :: int \<times> int \<times> int)"
  define lo where "lo = WebRtcAecm_AsymFilt (farEnergyMin aecm) ?x (snd (snd s)) (fst (snd s))"
  define hi where "hi = WebRtcAecm_AsymFilt (farEnergyMax aecm) ?x (fst s) 11"
  have b: "1025 < lo" "lo \<le> hi" "hi \<le> 9343"
  proof -
    consider "farEnergyMin aecm = WEBRTC_SPL_WORD16_MAX" "farEnergyMax aecm = WEBRTC_SPL_WORD16_MIN"
      | "1025 < farEnergyMin aecm" "farEnergyMin aecm \<le> farEnergyMax aecm" "farEnergyMax aecm \<le> 9343"
      using assms(1) unfolding levels_ok_def by blast
    then have "1025 < lo \<and> lo \<le> hi \<and> hi \<le> 9343"
    proof cases
      case 1
      then show ?thesis using assms(2,3) by (simp add: lo_def hi_def AsymFilt_start)
    next
      case 2
      have "lo \<le> hi" unfolding lo_def hi_def using 2 assms(2,3) by (intro AsymFilt_order) (auto simp: s_def)
      moreover have "1026 \<le> lo \<and> lo \<le> 9343" "1026 \<le> hi \<and> hi \<le> 9343"
        unfolding lo_def hi_def using 2 assms(2,3) by (intro AsymFilt_between; simp)+
      ultimately show ?thesis by simp
    qed
    then show "1025 < lo" "lo \<le> hi" "hi \<le> 9343" by simp_all
  qed
  define t where "t = 230 + max 0 ((2560 - lo) * 230 div 512)"
  have t: "230 \<le> t" "t \<le> 919" "lo + t \<le> 10263" using b vad_margin(2) [of lo] by (auto simp: t_def max_def)
  define v where "v = (if startupState aecm = 0 \<or> vadUpdateCount aecm > 1024 then (lo + t, vadUpdateCount aecm)
      else if farEnergyVAD aecm > ?x then (farEnergyVAD aecm + shr (?x + t - farEnergyVAD aecm) 6, 0)
      else (farEnergyVAD aecm, vadUpdateCount aecm + 1))"
  have l: "1025 \<le> farEnergyVAD aecm" "farEnergyVAD aecm \<le> 10263" "0 \<le> vadUpdateCount aecm" "vadUpdateCount aecm \<le> 1025"
    using assms(1) by (simp_all add: levels_ok_def)
  let ?y = "?x + t - farEnergyVAD aecm"
  have y: "1025 \<le> farEnergyVAD aecm + shr ?y 6 \<and> farEnergyVAD aecm + shr ?y 6 \<le> 10263"
    using shr_nonneg [of ?y 6] shr_le [of ?y 6] shr_neg_ge [of ?y 6] l t assms(2,3) by (cases "?y < 0") simp_all
  then have v: "1025 \<le> fst v \<and> fst v \<le> 10263 \<and> 0 \<le> snd v \<and> snd v \<le> 1025"
    using l t b by (simp add: v_def)
  have "farEnergyMin a = lo \<and> farEnergyMax a = hi \<and> farEnergyMaxMin a = hi - lo \<and> farEnergyVAD a = fst v \<and>
      vadUpdateCount a = snd v \<and> farEnergyMSE a = fst v + 256"
  proof -
    have w: "i16 (hi - lo) = hi - lo" "i16 (lo + t) = lo + t" "i16 (farEnergyVAD aecm + shr ?y 6) = farEnergyVAD aecm + shr ?y 6"
      "i16 (vadUpdateCount aecm + 1) = vadUpdateCount aecm + 1" "shl32 1 8 = 256" "\<And>z. 1025 \<le> z \<Longrightarrow> z \<le> 10263 \<Longrightarrow> i16 (z + 256) = z + 256"
      using b l t y by (auto intro!: i16_id simp: in_i16_def shl32_def i32_def)
    define c where "c = aecm\<lparr>farEnergyMin := lo, farEnergyMax := hi, farEnergyMaxMin := hi - lo\<rparr>"
    have tt: "i16 ((if i16 (2560 - lo) > 0 then i16 (shr (i16 (2560 - lo) * FAR_ENERGY_VAD_REGION) 9) else 0) + FAR_ENERGY_VAD_REGION) = t"
      using vad_margin(1) [of lo] b unfolding t_def by simp
    have "a = (let e = (if startupState aecm = 0 \<or> vadUpdateCount aecm > 1024 then c\<lparr>farEnergyVAD := lo + t\<rparr>
        else if farEnergyVAD aecm > ?x then c\<lparr>farEnergyVAD := farEnergyVAD aecm + shr ?y 6, vadUpdateCount := 0\<rparr>
        else c\<lparr>vadUpdateCount := vadUpdateCount aecm + 1\<rparr>) in e\<lparr>farEnergyMSE := i16 (farEnergyVAD e + 256)\<rparr>)"
      unfolding a_def update_far_levels_def Let_def s_def [symmetric] case_prod_beta lo_def [symmetric] hi_def [symmetric] w(1,5) c_def
      by (simp add: tt w(2-4) cong: if_cong)
    moreover have "i16 (fst v + 256) = fst v + 256" using w(6) v by blast
    ultimately show ?thesis unfolding Let_def c_def by (auto simp: v_def cong: if_cong split: if_splits)
  qed
  then show "levels_ok a" "1025 < farEnergyMin a" "farEnergyMin a \<le> farEnergyMax a"
    "startupState aecm = 0 \<Longrightarrow> farEnergyMin a + 230 \<le> farEnergyVAD a"
    using b v t by (simp_all add: levels_ok_def) (simp add: v_def)
qed

definition log_range :: "int \<Rightarrow> bool" where
  "log_range x \<longleftrightarrow> - 5760 \<le> x \<and> x \<le> 9343"

definition energies_ok :: "AecmCore \<Rightarrow> bool" where
  "energies_ok aecm \<longleftrightarrow> levels_ok aecm \<and>
     length (nearLogEnergy aecm) = MAX_BUF_LEN \<and> list_all log_range (nearLogEnergy aecm) \<and>
     length (echoStoredLogEnergy aecm) = MAX_BUF_LEN \<and> list_all log_range (echoStoredLogEnergy aecm) \<and>
     length (echoAdaptLogEnergy aecm) = MAX_BUF_LEN \<and> list_all (\<lambda>x. - 6528 \<le> x \<and> x \<le> 9343) (echoAdaptLogEnergy aecm) \<and>
     currentVADValue aecm \<in> {0, 1}"

lemma shift_history_eq: "length h = MAX_BUF_LEN \<Longrightarrow> shift_history x h = push_front x h"
  using shift_by_one [of h "int MAX_BUF_LEN" x] by (simp add: shift_history_def MAX_BUF_LEN_def)

lemma shift_history_range:
  assumes "length h = MAX_BUF_LEN" "list_all P h" "P x"
  shows "length (shift_history x h) = MAX_BUF_LEN \<and> list_all P (shift_history x h)"
proof -
  have "h \<noteq> []" using assms(1) by (auto simp: MAX_BUF_LEN_def)
  then show ?thesis using assms by (simp add: shift_history_eq list_all_push_front)
qed

lemma CalcLinearEnergiesC_range:
  assumes "CalcLinearEnergiesC aecm far (est, x, y, z) = (e, x', y', z')" "in_u32 x" "in_u32 y" "in_u32 z"
  shows "in_u32 x' \<and> in_u32 y' \<and> in_u32 z'"
proof -
  have "(\<lambda>(_, a, b, c). in_u32 a \<and> in_u32 b \<and> in_u32 c) (fold (linear_energy_step aecm far) js (e, a, b, c))"
    if "in_u32 a" "in_u32 b" "in_u32 c" for js e a b c
    using that by (induction js arbitrary: e a b c) (simp_all add: linear_energy_step_def Let_def)
  from this [OF assms(2-4), of "[0..<PART_LEN1]" est] assms(1) show ?thesis by (simp add: CalcLinearEnergiesC_def)
qed

lemma update_far_levels_frame:
  "nearLogEnergy (update_far_levels a) = nearLogEnergy a" "echoStoredLogEnergy (update_far_levels a) = echoStoredLogEnergy a"
  "echoAdaptLogEnergy (update_far_levels a) = echoAdaptLogEnergy a" "currentVADValue (update_far_levels a) = currentVADValue a"
  "farLogEnergy (update_far_levels a) = farLogEnergy a"
  by (simp_all add: update_far_levels_def Let_def split_def)

lemma update_vad_energies:
  assumes "energies_ok a" "- 5760 \<le> echoAdaptLogEnergy a ! 0"
  shows "energies_ok (update_vad a) \<and> farLogEnergy (update_vad a) = farLogEnergy a"
proof -
  have l: "length (echoAdaptLogEnergy a) = 64" "list_all (\<lambda>x. - 6528 \<le> x \<and> x \<le> 9343) (echoAdaptLogEnergy a)"
    using assms(1) by (simp_all add: energies_ok_def MAX_BUF_LEN_def)
  then have "echoAdaptLogEnergy a ! 0 \<le> 9343" by (simp add: list_all_length)
  then have "i16 (echoAdaptLogEnergy a ! 0 - shl32 3 8) = echoAdaptLogEnergy a ! 0 - 768"
    using assms(2) by (simp add: shl32_def i32_id in_i32_def i16_id in_i16_def)
  then have "list_all (\<lambda>x. - 6528 \<le> x \<and> x \<le> 9343) ((echoAdaptLogEnergy a)[0 := i16 (echoAdaptLogEnergy a ! 0 - shl32 3 8)])"
    using l assms(2) \<open>echoAdaptLogEnergy a ! 0 \<le> 9343\<close> by (intro list_all_update) simp_all
  then show ?thesis using assms(1) by (simp add: update_vad_def Let_def energies_ok_def levels_ok_def) blast
qed

lemma CalcEnergies_ok:
  assumes "energies_ok aecm" "0 \<le> q" "q \<le> 15" "in_u32 near" "0 \<le> dfaNoisyQDomain aecm" "dfaNoisyQDomain aecm \<le> 15"
  shows "energies_ok (fst (WebRtcAecm_CalcEnergies aecm far q near est)) \<and>
    log_range (farLogEnergy (fst (WebRtcAecm_CalcEnergies aecm far q near est)))"
proof -
  obtain e1 x y z where l: "CalcLinearEnergiesC (aecm\<lparr>nearLogEnergy := shift_history (LogOfEnergyInQ8 near (dfaNoisyQDomain aecm)) (nearLogEnergy aecm)\<rparr>)
      far (est, 0, 0, 0) = (e1, x, y, z)" by (metis surj_pair)
  have r: "in_u32 x" "in_u32 y" "in_u32 z" using CalcLinearEnergiesC_range [OF l] by (simp_all add: in_u32_def)
  define m where "m = (aecm\<lparr>nearLogEnergy := shift_history (LogOfEnergyInQ8 near (dfaNoisyQDomain aecm)) (nearLogEnergy aecm),
      farLogEnergy := LogOfEnergyInQ8 x q,
      echoAdaptLogEnergy := shift_history (LogOfEnergyInQ8 y (RESOLUTION_CHANNEL16 + q)) (echoAdaptLogEnergy aecm),
      echoStoredLogEnergy := shift_history (LogOfEnergyInQ8 z (RESOLUTION_CHANNEL16 + q)) (echoStoredLogEnergy aecm)\<rparr>)"
  define m2 where "m2 = (if farLogEnergy m > FAR_ENERGY_MIN then update_far_levels m else m)"
  have d: "fst (WebRtcAecm_CalcEnergies aecm far q near est) = update_vad m2"
    using l by (simp add: WebRtcAecm_CalcEnergies_def Let_def m_def m2_def cong: if_cong)
  have lg: "log_range (LogOfEnergyInQ8 near (dfaNoisyQDomain aecm))" "log_range (LogOfEnergyInQ8 x q)"
      "log_range (LogOfEnergyInQ8 y (RESOLUTION_CHANNEL16 + q))" "log_range (LogOfEnergyInQ8 z (RESOLUTION_CHANNEL16 + q))"
    using LogOfEnergyInQ8_bounds [OF assms(4), of "dfaNoisyQDomain aecm"] LogOfEnergyInQ8_bounds [OF r(1), of q]
      LogOfEnergyInQ8_bounds [OF r(2), of "12 + q"] LogOfEnergyInQ8_bounds [OF r(3), of "12 + q"] assms(2,3,5,6)
    by (simp_all add: log_range_def RESOLUTION_CHANNEL16_def)
  have ml: "energies_ok m" "log_range (farLogEnergy m)" "- 5760 \<le> echoAdaptLogEnergy m ! 0"
    using assms(1) lg shift_history_range [of "nearLogEnergy aecm" log_range] shift_history_range [of "echoStoredLogEnergy aecm" log_range]
      shift_history_range [of "echoAdaptLogEnergy aecm" "\<lambda>x. - 6528 \<le> x \<and> x \<le> 9343"]
      energy.get_newest [of "echoAdaptLogEnergy aecm"]
    by (simp_all add: m_def energies_ok_def levels_ok_def log_range_def)
  have "energies_ok m2 \<and> farLogEnergy m2 = farLogEnergy m \<and> echoAdaptLogEnergy m2 = echoAdaptLogEnergy m"
    using ml(1,2) update_far_levels_ok(1) [of m]
    by (simp add: m2_def energies_ok_def update_far_levels_frame FAR_ENERGY_MIN_def log_range_def)
  then show ?thesis using update_vad_energies [of m2] ml(2,3) unfolding d by simp
qed

section \<open>Step size and suppression gain\<close>

lemma step_size_cases:
  assumes "levels_ok aecm" "farEnergyMin aecm < farEnergyMax aecm \<Longrightarrow> farEnergyMin aecm \<le> farLogEnergy aecm \<and> farLogEnergy aecm \<le> farEnergyMax aecm"
  shows "WebRtcAecm_CalcStepSize aecm =
    (if currentVADValue aecm = 0 then 0 else if startupState aecm \<le> 0 then 1
     else if farEnergyMin aecm \<ge> farEnergyMax aecm then 10
     else max 1 (9 - 9 * (farLogEnergy aecm - farEnergyMin aecm) div (farEnergyMax aecm - farEnergyMin aecm)))"
proof (cases "farEnergyMin aecm < farEnergyMax aecm")
  case True
  then have m: "1025 < farEnergyMin aecm" "farEnergyMax aecm \<le> 9343" "farEnergyMaxMin aecm = farEnergyMax aecm - farEnergyMin aecm"
    using assms(1) by (auto simp: levels_ok_def WEBRTC_SPL_WORD16_MAX_def WEBRTC_SPL_WORD16_MIN_def)
  let ?d = "farLogEnergy aecm - farEnergyMin aecm" and ?w = "farEnergyMax aecm - farEnergyMin aecm"
  have d: "0 \<le> ?d" "?d \<le> ?w" "?w \<le> 9343" "0 < ?w" using assms(2) [OF True] m True by simp_all
  have q: "0 \<le> 9 * ?d div ?w" "9 * ?d div ?w \<le> 9"
  proof -
    show "0 \<le> 9 * ?d div ?w" using d by (simp add: pos_imp_zdiv_nonneg_iff)
    have "9 * ?d div ?w < 10" using d by (intro div_less_mult) simp_all
    then show "9 * ?d div ?w \<le> 9" by simp
  qed
  have "i16 ?d = ?d" "i32 (?d * 9) = 9 * ?d" using d by (simp_all add: i16_id in_i16_def i32_id in_i32_def)
  moreover have "WebRtcSpl_DivW32W16 (9 * ?d) ?w = 9 * ?d div ?w" using d by (intro DivW32W16_nonneg) simp_all
  moreover have "i16 (9 * ?d div ?w) = 9 * ?d div ?w" "i16 (9 - 9 * ?d div ?w) = 9 - 9 * ?d div ?w"
    using q by (simp_all add: i16_id in_i16_def)
  ultimately show ?thesis using True
    by (simp add: WebRtcAecm_CalcStepSize_def Let_def MU_DIFF_def MU_MIN_def MU_MAX_def m max_def)
qed (simp add: WebRtcAecm_CalcStepSize_def Let_def MU_MIN_def MU_MAX_def)

text \<open>
  The gains of an echo mode: \<open>A\<close> at a perfect echo estimate, \<open>B\<close> at a deviation of
  \<open>SUPGAIN_EPC_DT\<close>, \<open>D\<close> from \<open>ENERGY_DEV_TOL\<close> on, linear in between.
\<close>

definition gain_params :: "AecmCore \<Rightarrow> int \<Rightarrow> int \<Rightarrow> int \<Rightarrow> bool" where
  "gain_params aecm A B D \<longleftrightarrow> 0 \<le> D \<and> D \<le> B \<and> B \<le> A \<and> A \<le> 16384 \<and>
     supGainErrParamA aecm = A \<and> supGainErrParamD aecm = D \<and>
     supGainErrParamDiffAB aecm = A - B \<and> supGainErrParamDiffBD aecm = B - D"

definition ideal_gain :: "int \<Rightarrow> int \<Rightarrow> int \<Rightarrow> int \<Rightarrow> int" where
  "ideal_gain A B D dev =
     (if dev < 200 then A - ((A - B) * dev + 100) div 200
      else if dev < 400 then D + ((B - D) * (400 - dev) + 100) div 200 else D)"

lemma round_200: "0 \<le> k \<Longrightarrow> 0 \<le> n \<Longrightarrow> n \<le> 200 \<Longrightarrow> 0 \<le> (k * n + 100) div 200 \<and> (k * n + 100) div 200 \<le> (k::int)"
proof
  assume a: "0 \<le> k" "0 \<le> n" "n \<le> 200"
  then show "0 \<le> (k * n + 100) div 200" by (simp add: pos_imp_zdiv_nonneg_iff)
  have "k * n \<le> k * 200" using a by (intro mult_left_mono) simp_all
  then have "(k * n + 100) div 200 \<le> (k * 200 + 100) div 200" by (intro zdiv_mono1) simp_all
  then show "(k * n + 100) div 200 \<le> k" by simp
qed

lemma ideal_gain_bounds:
  assumes "0 \<le> D" "D \<le> B" "B \<le> A" "0 \<le> dev"
  shows "D \<le> ideal_gain A B D dev \<and> ideal_gain A B D dev \<le> A"
  using assms round_200 [of "A - B" dev] round_200 [of "B - D" "400 - dev"] by (auto simp: ideal_gain_def)

lemma target_gain_eq:
  assumes "gain_params aecm A B D" "log_range (nearLogEnergy aecm ! 0)" "log_range (echoStoredLogEnergy aecm ! 0)" "currentVADValue aecm \<noteq> 0"
  shows "target_gain aecm = ideal_gain A B D \<bar>nearLogEnergy aecm ! 0 - echoStoredLogEnergy aecm ! 0\<bar>"
proof -
  let ?t = "nearLogEnergy aecm ! 0 - echoStoredLogEnergy aecm ! 0"
  have t: "- 15103 \<le> ?t" "?t \<le> 15103" using assms(2,3) by (auto simp: log_range_def)
  have p: "0 \<le> D" "D \<le> B" "B \<le> A" "A \<le> 16384" using assms(1) by (auto simp: gain_params_def)
  have "i16 ?t = ?t" using t by (intro i16_id) (simp add: in_i16_def)
  then have dev: "i16 (WEBRTC_SPL_ABS_W16 (i16 (?t - ENERGY_DEV_OFFSET))) = \<bar>?t\<bar>"
    using t by (simp add: WEBRTC_SPL_ABS_W16_def ENERGY_DEV_OFFSET_def i16_id in_i16_def)
  have s: "shr 200 1 = 100" "shr (400 - 200) 1 = 100" by (simp_all add: shr_def)
  have k: "WebRtcSpl_DivW32W16 (i32 (i32 (m * n) + 100)) 200 = (m * n + 100) div 200 \<and> i16 ((m * n + 100) div 200) = (m * n + 100) div 200"
    if "0 \<le> m" "m \<le> 16384" "0 \<le> n" "n \<le> 200" for m n
  proof -
    have "m * n \<le> 16384 * 200" using that by (intro mult_mono) simp_all
    moreover have n: "0 \<le> m * n" using that by simp
    ultimately have "i32 (m * n) = m * n" "i32 (m * n + 100) = m * n + 100"
      "WebRtcSpl_DivW32W16 (m * n + 100) 200 = (m * n + 100) div 200"
      by (auto intro!: i32_id DivW32W16_nonneg simp: in_i32_def)
    then show ?thesis using round_200 [of m n] that by (simp add: i16_id in_i16_def)
  qed
  show ?thesis
  proof -
    consider "\<bar>?t\<bar> < 200" | "200 \<le> \<bar>?t\<bar>" "\<bar>?t\<bar> < 400" | "400 \<le> \<bar>?t\<bar>" by linarith
    then show ?thesis
    proof cases
      case 1
      then show ?thesis
        using k [of "A - B" "\<bar>?t\<bar>"] round_200 [of "A - B" "\<bar>?t\<bar>"] p assms(1,4)
        unfolding target_gain_def Let_def dev SUPGAIN_EPC_DT_def ENERGY_DEV_TOL_def s
        by (simp add: gain_params_def ideal_gain_def i16_id in_i16_def)
    next
      case 2
      then show ?thesis
        using k [of "B - D" "400 - \<bar>?t\<bar>"] round_200 [of "B - D" "400 - \<bar>?t\<bar>"] p assms(1,4)
        unfolding target_gain_def Let_def dev SUPGAIN_EPC_DT_def ENERGY_DEV_TOL_def s
        by (simp add: gain_params_def ideal_gain_def i16_id in_i16_def)
    next
      case 3
      then show ?thesis
        using assms(1,4) unfolding target_gain_def Let_def dev SUPGAIN_EPC_DT_def ENERGY_DEV_TOL_def
        by (simp add: gain_params_def ideal_gain_def)
    qed
  qed
qed

definition gain_ok :: "int \<Rightarrow> AecmCore \<Rightarrow> bool" where
  "gain_ok A aecm \<longleftrightarrow> 0 \<le> supGain aecm \<and> supGain aecm \<le> A \<and> 0 \<le> supGainOld aecm \<and> supGainOld aecm \<le> A"

lemma target_gain_bounds:
  assumes "gain_params aecm A B D" "log_range (nearLogEnergy aecm ! 0)" "log_range (echoStoredLogEnergy aecm ! 0)"
  shows "0 \<le> target_gain aecm \<and> target_gain aecm \<le> A"
proof (cases "currentVADValue aecm = 0")
  case True
  then show ?thesis using assms(1) by (simp add: target_gain_def gain_params_def)
next
  case False
  then show ?thesis
    using target_gain_eq [OF assms False] ideal_gain_bounds [of D B A "\<bar>nearLogEnergy aecm ! 0 - echoStoredLogEnergy aecm ! 0\<bar>"] assms(1)
    by (auto simp: gain_params_def)
qed

text \<open>The gain moves a sixteenth of the way to the larger of the last two targets.\<close>

lemma CalcSuppressionGain_eq:
  assumes "gain_ok A aecm" "0 \<le> target_gain aecm" "target_gain aecm \<le> A" "A \<le> 16384"
  defines "t \<equiv> max (target_gain aecm) (supGainOld aecm)"
  shows "WebRtcAecm_CalcSuppressionGain aecm =
      (aecm\<lparr>supGainOld := target_gain aecm, supGain := supGain aecm + shr (t - supGain aecm) 4\<rparr>, supGain aecm + shr (t - supGain aecm) 4)"
    and "min t (supGain aecm) \<le> supGain aecm + shr (t - supGain aecm) 4"
    and "supGain aecm + shr (t - supGain aecm) 4 \<le> max t (supGain aecm)"
proof -
  let ?y = "t - supGain aecm"
  have g: "0 \<le> supGain aecm" "supGain aecm \<le> A" "0 \<le> t" "t \<le> A" using assms(1-3) by (auto simp: gain_ok_def t_def)
  show b: "min t (supGain aecm) \<le> supGain aecm + shr ?y 4" "supGain aecm + shr ?y 4 \<le> max t (supGain aecm)"
    using shr_nonneg [of ?y 4] shr_le [of ?y 4] shr_neg_ge [of ?y 4] by (cases "?y < 0"; simp)+
  have w: "i16 (shr ?y 4) = shr ?y 4" "i16 (supGain aecm + shr ?y 4) = supGain aecm + shr ?y 4"
    using b g assms(4) by (auto intro!: i16_id simp: in_i16_def min_def max_def split: if_splits)
  have "(if target_gain aecm > supGainOld aecm then target_gain aecm else supGainOld aecm) = t" by (simp add: t_def max_def)
  then show "WebRtcAecm_CalcSuppressionGain aecm =
      (aecm\<lparr>supGainOld := target_gain aecm, supGain := supGain aecm + shr ?y 4\<rparr>, supGain aecm + shr ?y 4)"
    unfolding WebRtcAecm_CalcSuppressionGain_def Let_def by (simp add: w)
qed

lemma CalcSuppressionGain_ok:
  assumes "gain_ok A aecm" "gain_params aecm A B D" "log_range (nearLogEnergy aecm ! 0)" "log_range (echoStoredLogEnergy aecm ! 0)"
  shows "gain_ok A (fst (WebRtcAecm_CalcSuppressionGain aecm)) \<and> snd (WebRtcAecm_CalcSuppressionGain aecm) \<in> {0..A}"
proof -
  have t: "0 \<le> target_gain aecm" "target_gain aecm \<le> A" using target_gain_bounds [OF assms(2-4)] by simp_all
  have "A \<le> 16384" using assms(2) by (simp add: gain_params_def)
  note e = CalcSuppressionGain_eq [OF assms(1) t this]
  show ?thesis using e(2,3) t assms(1) unfolding e(1) by (simp add: gain_ok_def max_def min_def split: if_splits)
qed

text \<open>Without echo the gain falls to zero: at least one per block after the first.\<close>

lemma CalcSuppressionGain_idle:
  assumes "gain_ok A aecm" "A \<le> 16384" "currentVADValue aecm = 0" "supGainOld aecm = 0"
  defines "a \<equiv> fst (WebRtcAecm_CalcSuppressionGain aecm)"
  shows "gain_ok A a \<and> currentVADValue a = 0 \<and> supGainOld a = 0 \<and> supGain a \<le> max 0 (supGain aecm - 1)"
proof -
  have t: "target_gain aecm = 0" using assms(3) by (simp add: target_gain_def)
  have A: "0 \<le> A" using assms(1) by (simp add: gain_ok_def)
  note e = CalcSuppressionGain_eq [OF assms(1), unfolded t assms(4), OF _ A assms(2)]
  have "shr (- supGain aecm) 4 \<le> - 1" if "0 < supGain aecm" using shr_neg_ge [of "- supGain aecm" 4] that by simp
  then show ?thesis using assms(1,3) e(2,3) t unfolding a_def by (simp add: e(1) gain_ok_def) (auto simp: max_def)
qed

lemma idle_blocks:
  assumes "gain_ok A aecm" "A \<le> 16384" "currentVADValue aecm = 0" "supGainOld aecm = 0" "supGain aecm \<le> int n"
  shows "supGain (((\<lambda>a. fst (WebRtcAecm_CalcSuppressionGain a)) ^^ n) aecm) = 0"
  using assms
proof (induction n arbitrary: aecm)
  case (Suc n)
  let ?a = "fst (WebRtcAecm_CalcSuppressionGain aecm)"
  have "gain_ok A ?a \<and> currentVADValue ?a = 0 \<and> supGainOld ?a = 0 \<and> supGain ?a \<le> max 0 (supGain aecm - 1)"
    using Suc.prems by (intro CalcSuppressionGain_idle)
  then have "supGain (((\<lambda>a. fst (WebRtcAecm_CalcSuppressionGain a)) ^^ n) ?a) = 0"
    using Suc.prems by (intro Suc.IH) auto
  then show ?case by (simp add: funpow_Suc_right del: funpow.simps)
qed (simp add: gain_ok_def)

section \<open>The estimation of a block\<close>

text \<open>What the channel update leaves alone.\<close>

definition same_levels :: "AecmCore \<Rightarrow> AecmCore \<Rightarrow> bool" where
  "same_levels a b \<longleftrightarrow>
     nearLogEnergy a = nearLogEnergy b \<and> echoStoredLogEnergy a = echoStoredLogEnergy b \<and> echoAdaptLogEnergy a = echoAdaptLogEnergy b \<and>
     currentVADValue a = currentVADValue b \<and> farEnergyMin a = farEnergyMin b \<and> farEnergyMax a = farEnergyMax b \<and>
     farEnergyMaxMin a = farEnergyMaxMin b \<and> farEnergyVAD a = farEnergyVAD b \<and> farEnergyMSE a = farEnergyMSE b \<and>
     vadUpdateCount a = vadUpdateCount b"

definition same_gains :: "AecmCore \<Rightarrow> AecmCore \<Rightarrow> bool" where
  "same_gains a b \<longleftrightarrow> supGain a = supGain b \<and> supGainOld a = supGainOld b \<and> supGainErrParamA a = supGainErrParamA b \<and>
     supGainErrParamD a = supGainErrParamD b \<and> supGainErrParamDiffAB a = supGainErrParamDiffAB b \<and>
     supGainErrParamDiffBD a = supGainErrParamDiffBD b"

lemma nlms_loop_frame: "same_levels (fold (nlms_step far q dfa mu) is a) a \<and> same_gains (fold (nlms_step far q dfa mu) is a) a"
  by (induction "is" arbitrary: a) (simp_all add: same_levels_def same_gains_def nlms_step_def split_def Let_def)

lemma validate_channel_frame:
  "same_levels (fst (validate_channel a far e)) a \<and> same_gains (fst (validate_channel a far e)) a"
  by (simp add: validate_channel_def Let_def split_def StoreAdaptiveChannelC_def ResetAdaptiveChannelC_def same_levels_def same_gains_def)

lemma UpdateChannel_frame:
  "same_levels (fst (WebRtcAecm_UpdateChannel a far q dfa mu e)) a \<and> same_gains (fst (WebRtcAecm_UpdateChannel a far q dfa mu e)) a"
proof -
  define b where "b = (if mu \<noteq> 0 then fold (nlms_step far q dfa mu) [0..<PART_LEN1] a else a)"
  define c where "c = (if farLogEnergy b < farEnergyMSE b then b\<lparr>mseChannelCount := 0\<rparr> else b\<lparr>mseChannelCount := i16 (mseChannelCount b + 1)\<rparr>)"
  have b: "same_levels b a \<and> same_gains b a"
    using nlms_loop_frame [of far q dfa mu "[0..<PART_LEN1]" a] by (simp add: b_def same_levels_def same_gains_def)
  then have c: "same_levels c a \<and> same_gains c a" by (simp add: c_def same_levels_def same_gains_def)
  have "WebRtcAecm_UpdateChannel a far q dfa mu e = (if startupState b = 0 \<and> currentVADValue b AND 1 \<noteq> 0 then StoreAdaptiveChannelC b far e
      else if mseChannelCount c \<ge> int MIN_MSE_COUNT + 10 then validate_channel c far e else (c, e))"
    unfolding WebRtcAecm_UpdateChannel_def Let_def b_def [symmetric] c_def [symmetric] by simp
  then show ?thesis
    using b c validate_channel_frame [of c far e] by (simp add: StoreAdaptiveChannelC_def Let_def same_levels_def same_gains_def)
qed

lemma CalcEnergies_gains: "same_gains (fst (WebRtcAecm_CalcEnergies a far q near e)) a"
proof -
  have u: "same_gains (update_vad b) b" "same_gains (update_far_levels b) b" for b
    by (simp_all add: update_vad_def update_far_levels_def Let_def split_def same_gains_def)
  show ?thesis
    using u by (simp add: WebRtcAecm_CalcEnergies_def Let_def split_def same_gains_def)
qed

definition estimation_ok :: "int \<Rightarrow> int \<Rightarrow> int \<Rightarrow> AecmCore \<Rightarrow> bool" where
  "estimation_ok A B D aecm \<longleftrightarrow> channel_ok aecm \<and> energies_ok aecm \<and> gain_ok A aecm \<and> gain_params aecm A B D"

text \<open>
  The estimation of one block as \<open>suppress_echo\<close> composes it: the far-end spectrum and its
  Q-domain, the energy, the magnitudes and the Q-domain of the near end. The output is the
  spectrum, the stored channel, the echo estimate and the suppression gain.
\<close>

definition estimation_step ::
    "AecmCore \<Rightarrow> int list \<times> int \<times> int \<times> int list \<times> int \<Rightarrow> AecmCore \<times> (int list \<times> int list \<times> int list) \<times> int" where
  "estimation_step aecm = (\<lambda>(far, q, near, dfa, dq).
     (let aecm = aecm\<lparr>dfaNoisyQDomain := dq\<rparr>;
          (aecm, est) = WebRtcAecm_CalcEnergies aecm far q near (replicate PART_LEN1 0);
          mu = WebRtcAecm_CalcStepSize aecm;
          aecm = aecm\<lparr>totCount := u32 (totCount aecm + 1)\<rparr>;
          (aecm, est) = WebRtcAecm_UpdateChannel aecm far q dfa mu est;
          (aecm, gain) = WebRtcAecm_CalcSuppressionGain aecm
      in (aecm, (far, channelStored aecm, est), gain)))"

definition block_input :: "int list \<times> int \<times> int \<times> int list \<times> int \<Rightarrow> bool" where
  "block_input = (\<lambda>(far, q, near, dfa, dq). magnitudes far \<and> 0 \<le> q \<and> q \<le> 15 \<and> in_u32 near \<and> 0 \<le> dq \<and> dq \<le> 15)"

lemma same_levels_ok: "same_levels a b \<Longrightarrow> energies_ok b \<Longrightarrow> energies_ok a"
  by (simp add: same_levels_def energies_ok_def levels_ok_def)

lemma same_gains_ok: "same_gains a b \<Longrightarrow> gain_ok A b \<and> gain_params b A B D \<Longrightarrow> gain_ok A a \<and> gain_params a A B D"
  by (simp add: same_gains_def gain_ok_def gain_params_def)

lemma energies_newest: "energies_ok a \<Longrightarrow> log_range (nearLogEnergy a ! 0) \<and> log_range (echoStoredLogEnergy a ! 0)"
  by (simp add: energies_ok_def MAX_BUF_LEN_def list_all_length)

lemma CalcSuppressionGain_frame:
  "same_channel (fst (WebRtcAecm_CalcSuppressionGain a)) a \<and> same_levels (fst (WebRtcAecm_CalcSuppressionGain a)) a \<and>
   gain_params (fst (WebRtcAecm_CalcSuppressionGain a)) A B D = gain_params a A B D"
  by (simp add: WebRtcAecm_CalcSuppressionGain_def Let_def same_channel_def same_levels_def gain_params_def)

lemma estimation_step_ok:
  assumes "estimation_ok A B D aecm" "block_input i"
  shows "estimation_ok A B D (fst (estimation_step aecm i)) \<and>
    (case snd (estimation_step aecm i) of (e, gain) \<Rightarrow> estimate_ok e \<and> gain \<in> {0..A})"
proof -
  obtain far q near dfa dq where i: "i = (far, q, near, dfa, dq)" by (metis surj_pair)
  have m: "magnitudes far" "0 \<le> q" "q \<le> 15" "in_u32 near" "0 \<le> dq" "dq \<le> 15" using assms(2) by (simp_all add: i block_input_def)
  let ?z = "aecm\<lparr>dfaNoisyQDomain := dq\<rparr>"
  have z: "channel_ok ?z" "energies_ok ?z" "gain_ok A ?z \<and> gain_params ?z A B D"
    using assms(1) by (simp_all add: estimation_ok_def channel_ok_def energies_ok_def levels_ok_def gain_ok_def gain_params_def)
  obtain a e where ce: "WebRtcAecm_CalcEnergies ?z far q near (replicate PART_LEN1 0) = (a, e)" by (metis surj_pair)
  have a: "channel_ok a" "e = echo_of (channelStored a) far" using CalcEnergies_channel [OF z(1) m(1) _ ce] by simp_all
  have ae: "energies_ok a" using CalcEnergies_ok [OF z(2) m(2-4), of far "replicate PART_LEN1 0"] m(5,6) ce by simp
  have ag: "gain_ok A a \<and> gain_params a A B D"
    using same_gains_ok [OF _ z(3), of a] CalcEnergies_gains [of ?z far q near "replicate PART_LEN1 0"] ce by simp
  let ?b = "a\<lparr>totCount := u32 (totCount a + 1)\<rparr>"
  have b: "channel_ok ?b" "e = echo_of (channelStored ?b) far" "energies_ok ?b" "gain_ok A ?b \<and> gain_params ?b A B D"
    using a ae ag by (simp_all add: channel_ok_def energies_ok_def levels_ok_def gain_ok_def gain_params_def)
  obtain d e2 where uc: "WebRtcAecm_UpdateChannel ?b far q dfa (WebRtcAecm_CalcStepSize a) e = (d, e2)" by (metis surj_pair)
  have d: "channel_ok d" "e2 = echo_of (channelStored d) far" using UpdateChannel_ok [OF b(1) m(1) b(2) uc] by simp_all
  have "same_levels d ?b" "same_gains d ?b" using UpdateChannel_frame [of ?b far q dfa "WebRtcAecm_CalcStepSize a" e] uc by simp_all
  then have de: "energies_ok d" "gain_ok A d \<and> gain_params d A B D" using same_levels_ok b(3) same_gains_ok b(4) by blast+
  obtain f g where gg: "WebRtcAecm_CalcSuppressionGain d = (f, g)" by (metis surj_pair)
  have "gain_ok A f" "g \<in> {0..A}" using CalcSuppressionGain_ok [of A d B D] de energies_newest [OF de(1)] gg by simp_all
  moreover have "same_channel f d" "same_levels f d" "gain_params f A B D" using CalcSuppressionGain_frame [of d A B D] de gg by simp_all
  ultimately show ?thesis
    using d de same_channel_ok [of f d] same_levels_ok [of f d] by (simp add: i estimation_step_def ce uc gg estimation_ok_def estimate_ok_def channel_ok_def same_channel_def)
qed

interpretation block: invariant_step estimation_step "estimation_ok A B D" block_input
  "\<lambda>_ (e, gain). estimate_ok e \<and> gain \<in> {0..A}" for A B D
proof unfold_locales
  fix s i assume "estimation_ok A B D s" "block_input i"
  from estimation_step_ok [OF this] show "estimation_ok A B D (fst (estimation_step s i))"
    "case snd (estimation_step s i) of (e, gain) \<Rightarrow> estimate_ok e \<and> gain \<in> {0..A}" by simp_all
qed

section \<open>Properties\<close>

lemma estimation_initial:
  assumes "length (channelStored aecm) = PART_LEN1" "length (channelAdapt16 aecm) = PART_LEN1" "length (channelAdapt32 aecm) = PART_LEN1"
  shows "estimation_ok 4096 2048 768 (init_core_levels (init_core_history aecm freq))"
proof -
  let ?h = "init_core_history aecm freq"
  have "list_all (\<lambda>c. 0 \<le> c \<and> c \<le> 32767) kChannelStored16kHz" "length kChannelStored16kHz = PART_LEN1"
      "list_all (\<lambda>c. 0 \<le> c \<and> c \<le> 32767) kChannelStored8kHz" "length kChannelStored8kHz = PART_LEN1"
    by (simp_all add: kChannelStored16kHz_def kChannelStored8kHz_def list_all_iff aecm_sizes)
  then have h: "channel_ok ?h"
    using assms unfolding init_core_history_def Let_def by (simp add: InitEchoPathCore_channel(2))
  have "nearLogEnergy ?h = replicate MAX_BUF_LEN 0" "echoStoredLogEnergy ?h = replicate MAX_BUF_LEN 0" "echoAdaptLogEnergy ?h = replicate MAX_BUF_LEN 0"
    by (simp_all add: init_core_history_def Let_def WebRtcAecm_InitEchoPathCore_def)
  then have "energies_ok (init_core_levels ?h)"
    by (simp add: energies_ok_def levels_ok_def init_core_levels_def list_all_iff log_range_def FAR_ENERGY_MIN_def)
  then show ?thesis using h
    by (simp add: estimation_ok_def channel_ok_def init_core_levels_def gain_ok_def gain_params_def SUPGAIN_ERROR_PARAM_A_def
        SUPGAIN_ERROR_PARAM_B_def SUPGAIN_ERROR_PARAM_D_def SUPGAIN_DEFAULT_def RESOLUTION_SUPGAIN_def shl32_def i32_def)
qed

lemma initialised_estimation: "estimation_ok 4096 2048 768 (init_core_levels (init_core_history zero_core 16000))"
  by (rule estimation_initial) (simp_all add: zero_core_def)

text \<open>C3: The estimation over any sequence of blocks. From a good state (as initialisation leaves it),
  whatever the spectra are, no coefficient of the channel ever becomes negative or exceeds its type,
  every echo estimate is exactly the stored channel times the far-end spectrum (the 32-bit products never overflow, also
  when the channel has just been stored), the suppression gain stays between 0 and the
  gain of the echo mode, and the energy levels stay ordered and in range.\<close>

theorem estimation_session:
  assumes "estimation_ok A B D aecm" "list_all block_input xs" "k < length xs"
  shows "estimation_ok A B D (fst (run estimation_step aecm xs)) \<and>
    (case snd (run estimation_step aecm xs) ! k of ((far, channel, est), gain) \<Rightarrow>
       length channel = PART_LEN1 \<and> list_all (\<lambda>c. 0 \<le> c \<and> c \<le> 32767) channel \<and>
       est = map (\<lambda>i. channel ! i * far ! i) [0..<PART_LEN1] \<and> 0 \<le> gain \<and> gain \<le> A)"
  using block.run_inv [OF assms(1,2)] block.run_outputs [OF assms] by (auto simp: estimate_ok_def echo_of_def split: prod.splits)

theorem estimation_session_witness:
  "case snd (run estimation_step (init_core_levels (init_core_history zero_core 16000))
       [(replicate 257 100, 3, 25700, replicate 257 100, 3), (replicate 257 1000, 2, 257000, replicate 257 900, 2)]) ! 1 of
     ((far, channel, est), gain) \<Rightarrow> est = map (\<lambda>i. channel ! i * far ! i) [0..<257] \<and> 0 \<le> gain \<and> gain \<le> 4096"
proof -
  have "list_all block_input [(replicate 257 100, 3, 25700, replicate 257 100, 3), (replicate 257 1000, 2, 257000, replicate 257 900, 2)]"
    by (simp add: block_input_def magnitudes_def aecm_sizes in_u16_def in_u32_def list_all_iff)
  from estimation_session [OF initialised_estimation this, of 1] show ?thesis
    by (simp add: aecm_sizes split: prod.splits del: run.simps)
qed

text \<open>The logarithm of an energy in Q8. For a positive 32-bit energy in Q-domain \<open>q\<close> between two powers of two the
  result is the base-2 logarithm interpolated linearly, offset by the block length: \<open>256 (e - q)\<close> plus
  the fraction of the way to the next power, rounded down. Zero gives the offset; the result
  grows with the energy and never wraps in 16 bits.\<close>

theorem log_energy_exact:
  assumes "0 \<le> q" "q \<le> 27" "in_u32 x" "in_u32 y"
  shows "LogOfEnergyInQ8 0 q = 1152 \<and> - 5760 \<le> LogOfEnergyInQ8 x q \<and> LogOfEnergyInQ8 x q \<le> 9343 \<and>
    (2 ^ e \<le> x \<and> x < 2 ^ Suc e \<longrightarrow> LogOfEnergyInQ8 x q = 1152 + 256 * (int e - q) + (x - 2 ^ e) * 256 div 2 ^ e) \<and>
    (0 < x \<and> x \<le> y \<longrightarrow> LogOfEnergyInQ8 x q \<le> LogOfEnergyInQ8 y q)"
  using LogOfEnergyInQ8_zero [of q] LogOfEnergyInQ8_bounds [OF assms(3,1,2)] LogOfEnergyInQ8_eq [of e x q] LogOfEnergyInQ8_mono [of x y q] assms
  by (simp add: log_frac_def in_u32_def)

theorem log_energy_exact_witness:
  "LogOfEnergyInQ8 3000 2 = 1152 + 256 * 9 + 119 \<and> LogOfEnergyInQ8 3000 2 \<le> LogOfEnergyInQ8 3001 2"
  using log_energy_exact [of 2 3000 3001 11] by (simp add: in_u32_def)

text \<open>The step size. No adaptation without far-end activity, the smallest step during start-up; afterwards the
  step falls linearly with the level of the far end, from 9 at the lowest to 1 near the highest
  level seen (10 when the two coincide): the 16-bit arithmetic computes
  \<open>max 1 (9 - \<lfloor>9 (E - min) / (max - min)\<rfloor>)\<close>.\<close>

theorem step_size:
  assumes "levels_ok aecm"
    and "farEnergyMin aecm < farEnergyMax aecm \<Longrightarrow> farEnergyMin aecm \<le> farLogEnergy aecm \<and> farLogEnergy aecm \<le> farEnergyMax aecm"
  shows "WebRtcAecm_CalcStepSize aecm =
    (if currentVADValue aecm = 0 then 0 else if startupState aecm \<le> 0 then 1
     else if farEnergyMin aecm \<ge> farEnergyMax aecm then 10
     else max 1 (9 - 9 * (farLogEnergy aecm - farEnergyMin aecm) div (farEnergyMax aecm - farEnergyMin aecm)))"
  by (rule step_size_cases [OF assms])

theorem step_size_witness:
  "WebRtcAecm_CalcStepSize (zero_core\<lparr>currentVADValue := 1, startupState := 2, farEnergyMin := 2000, farEnergyMax := 5000,
     farEnergyMaxMin := 3000, farEnergyVAD := 2230, farLogEnergy := 3000\<rparr>) = 6"
  using step_size [of "zero_core\<lparr>currentVADValue := 1, startupState := 2, farEnergyMin := 2000, farEnergyMax := 5000,
     farEnergyMaxMin := 3000, farEnergyVAD := 2230, farLogEnergy := 3000\<rparr>"] by (simp add: levels_ok_def zero_core_def)

text \<open>C4: The suppression gain. Without far-end activity the target is 0; otherwise it is \<open>A\<close> when the estimated echo
  explains the near end exactly, \<open>D\<close> from a deviation of 400 on, and linear in between (through \<open>B\<close> at 200), in
  particular never outside \<open>D\<close> to \<open>A\<close>. The gain moves a sixteenth of the way towards the larger
  of the last two targets and never past it.\<close>

theorem suppression_gain:
  assumes "gain_params aecm A B D" "gain_ok A aecm" "energies_ok aecm"
  defines "dev \<equiv> \<bar>nearLogEnergy aecm ! 0 - echoStoredLogEnergy aecm ! 0\<bar>"
  defines "gain \<equiv> if currentVADValue aecm = 0 then 0 else ideal_gain A B D dev"
  defines "t \<equiv> max gain (supGainOld aecm)"
  shows "WebRtcAecm_CalcSuppressionGain aecm =
      (aecm\<lparr>supGainOld := gain, supGain := supGain aecm + (t - supGain aecm) div 16\<rparr>, supGain aecm + (t - supGain aecm) div 16) \<and>
    min t (supGain aecm) \<le> supGain aecm + (t - supGain aecm) div 16 \<and>
    supGain aecm + (t - supGain aecm) div 16 \<le> max t (supGain aecm) \<and>
    (currentVADValue aecm \<noteq> 0 \<longrightarrow> D \<le> gain \<and> gain \<le> A)"
proof -
  note l = energies_newest [OF assms(3)]
  have g: "target_gain aecm = gain"
    using target_gain_eq [OF assms(1)] l by (cases "currentVADValue aecm = 0") (simp_all add: gain_def dev_def target_gain_def)
  have p: "0 \<le> D" "D \<le> B" "B \<le> A" "A \<le> 16384" using assms(1) by (simp_all add: gain_params_def)
  have b: "0 \<le> target_gain aecm" "target_gain aecm \<le> A" using target_gain_bounds [OF assms(1)] l by simp_all
  have s: "shr x 4 = x div 16" for x by (simp add: shr_def)
  have "D \<le> gain \<and> gain \<le> A" if "currentVADValue aecm \<noteq> 0"
    using that ideal_gain_bounds [of D B A dev] p by (simp add: gain_def dev_def)
  then show ?thesis using CalcSuppressionGain_eq [OF assms(2) b p(4)] unfolding g t_def s by blast
qed

theorem suppression_gain_witness:
  "snd (WebRtcAecm_CalcSuppressionGain (init_core_levels (init_core_history zero_core 16000)\<lparr>currentVADValue := 1\<rparr>)) = 256 + 240"
proof -
  let ?a = "init_core_levels (init_core_history zero_core 16000)\<lparr>currentVADValue := 1\<rparr>"
  have e: "gain_params ?a 4096 2048 768" "gain_ok 4096 ?a" "energies_ok ?a"
    using initialised_estimation by (simp_all add: estimation_ok_def gain_params_def gain_ok_def energies_ok_def levels_ok_def)
  have "nearLogEnergy ?a ! 0 = 0" "echoStoredLogEnergy ?a ! 0 = 0" "supGain ?a = 256" "supGainOld ?a = 256"
    by (simp_all add: init_core_levels_def init_core_history_def Let_def WebRtcAecm_InitEchoPathCore_def MAX_BUF_LEN_def
        SUPGAIN_DEFAULT_def RESOLUTION_SUPGAIN_def shl32_def i32_def)
  then show ?thesis using suppression_gain [OF e] by (simp add: ideal_gain_def)
qed

text \<open>C16: When the far end falls silent, suppression ends: after the first block without activity the gain
  falls by at least one per block, and once \<open>n\<close> blocks have passed, \<open>n\<close> at least the gain, it is exactly 0.\<close>

theorem suppression_ends:
  assumes "gain_ok A aecm" "A \<le> 16384" "currentVADValue aecm = 0" "A \<le> int n"
  shows "supGain (((\<lambda>a. fst (WebRtcAecm_CalcSuppressionGain a)) ^^ Suc n) aecm) = 0"
proof -
  let ?a = "fst (WebRtcAecm_CalcSuppressionGain aecm)"
  have t: "target_gain aecm = 0" using assms(3) by (simp add: target_gain_def)
  have A: "0 \<le> A" using assms(1) by (simp add: gain_ok_def)
  note e = CalcSuppressionGain_eq [OF assms(1), unfolded t, OF _ A assms(2)]
  have "gain_ok A ?a" "currentVADValue ?a = 0" "supGainOld ?a = 0" "supGain ?a \<le> int n"
    using e assms A by (auto simp: gain_ok_def max_def min_def split: if_splits)
  then have "supGain (((\<lambda>a. fst (WebRtcAecm_CalcSuppressionGain a)) ^^ n) ?a) = 0" using assms(2) by (intro idle_blocks)
  then show ?thesis by (simp add: funpow_Suc_right del: funpow.simps)
qed

theorem suppression_ends_witness:
  "supGain (((\<lambda>a. fst (WebRtcAecm_CalcSuppressionGain a)) ^^ Suc 4096) (zero_core\<lparr>supGain := 4000, supGainOld := 4096\<rparr>)) = 0"
  by (rule suppression_ends [of 4096]) (simp_all add: gain_ok_def zero_core_def)

end
