(* ===== verification/Aecm_Block.thy ===== *)
theory Aecm_Block
  imports Aecm_Channel
begin

unbundle bit_operations_syntax

text \<open>
  The fixed-point half of \<open>src/webrtc/modules/audio_processing/aecm/aecm_core_c.c\<close>: the
  transforms between time and frequency, the Wiener filter, the non-linear processing, the
  comfort noise and \<open>WebRtcAecm_ProcessBlock\<close>. A local array that is written in full before it
  is read is built by \<open>map\<close>. The variant without \<open>AECM_WITH_ABS_APPROX\<close> and without ARM
  assembly is modelled, which is what the build selects.
\<close>

section \<open>Transforms\<close>

definition WebRtcAecm_kSqrtHanning :: "int list" where
  "WebRtcAecm_kSqrtHanning = [
    0, 100, 201, 301, 401, 502, 602, 702, 802, 903, 1003, 1103, 1203, 1303, 1403, 1503,
    1603, 1703, 1802, 1902, 2002, 2101, 2201, 2300, 2399, 2499, 2598, 2697, 2796, 2894, 2993, 3092,
    3190, 3289, 3387, 3485, 3583, 3681, 3778, 3876, 3973, 4071, 4168, 4265, 4362, 4458, 4555, 4651,
    4747, 4843, 4939, 5034, 5130, 5225, 5320, 5415, 5509, 5604, 5698, 5792, 5886, 5979, 6072, 6165,
    6258, 6351, 6443, 6535, 6627, 6719, 6810, 6901, 6992, 7083, 7173, 7263, 7353, 7443, 7532, 7621,
    7710, 7798, 7886, 7974, 8061, 8149, 8235, 8322, 8408, 8494, 8580, 8665, 8750, 8835, 8919, 9003,
    9087, 9170, 9253, 9336, 9418, 9500, 9582, 9663, 9744, 9824, 9904, 9984, 10063, 10142, 10221, 10299,
    10377, 10454, 10531, 10608, 10684, 10760, 10836, 10911, 10985, 11060, 11133, 11207, 11280, 11352, 11425, 11496,
    11567, 11638, 11709, 11779, 11848, 11917, 11986, 12054, 12122, 12189, 12256, 12322, 12388, 12454, 12519, 12583,
    12647, 12711, 12774, 12836, 12898, 12960, 13021, 13082, 13142, 13202, 13261, 13320, 13378, 13435, 13493, 13549,
    13605, 13661, 13716, 13771, 13825, 13878, 13932, 13984, 14036, 14088, 14139, 14189, 14239, 14288, 14337, 14385,
    14433, 14480, 14527, 14573, 14619, 14664, 14708, 14752, 14796, 14838, 14881, 14922, 14963, 15004, 15044, 15084,
    15122, 15161, 15198, 15236, 15272, 15308, 15344, 15379, 15413, 15447, 15480, 15512, 15544, 15576, 15607, 15637,
    15667, 15696, 15724, 15752, 15779, 15806, 15832, 15858, 15883, 15907, 15931, 15954, 15976, 15998, 16020, 16040,
    16061, 16080, 16099, 16117, 16135, 16152, 16169, 16185, 16200, 16215, 16229, 16242, 16255, 16267, 16279, 16290,
    16300, 16310, 16319, 16328, 16336, 16343, 16350, 16356, 16362, 16367, 16371, 16375, 16378, 16380, 16382, 16383,
    16384]"

definition kNoiseEstQDomain :: int where "kNoiseEstQDomain = 15"

definition kNoiseEstIncCount :: int where "kNoiseEstIncCount = 5"

definition from_complex :: "ComplexInt16 list \<Rightarrow> samples" where
  "from_complex xs = concat (map (\<lambda>(re, im). [re, im]) xs)"

definition to_complex :: "samples \<Rightarrow> nat \<Rightarrow> ComplexInt16 list" where
  "to_complex xs n = map (\<lambda>i. (xs ! (2 * i), xs ! (2 * i + 1))) [0..<n]"

definition window_signal :: "samples \<Rightarrow> int \<Rightarrow> samples" where
  "window_signal time_signal scaling =
     map (\<lambda>i. i16 (shr (i32 (i16 (shl32 (time_signal ! i) scaling) * WebRtcAecm_kSqrtHanning ! i)) 14)) [0..<PART_LEN]
     @ map (\<lambda>i. i16 (shr (i32 (i16 (shl32 (time_signal ! (i + PART_LEN)) scaling)
                                 * WebRtcAecm_kSqrtHanning ! (PART_LEN - i))) 14)) [0..<PART_LEN]"

definition WindowAndFFT :: "AecmCore \<Rightarrow> samples \<Rightarrow> ComplexInt16 list \<Rightarrow> int \<Rightarrow> ComplexInt16 list" where
  "WindowAndFFT aecm time_signal freq_signal scaling =
     (let fft = window_signal time_signal scaling;
          (_, freq) = WebRtcSpl_RealForwardFFT (the (real_fft aecm)) fft (from_complex freq_signal);
          freq = to_complex freq PART_LEN1
      in fold (\<lambda>i f. f[i := (fst (f ! i), i16 (- snd (f ! i)))]) [0..<PART_LEN] freq)"

text \<open>The magnitude of one frequency bin.\<close>

definition magnitude :: "ComplexInt16 \<Rightarrow> int" where
  "magnitude c =
     (let (re, im) = c
      in if re = 0 then u16 (WEBRTC_SPL_ABS_W16 im)
         else if im = 0 then u16 (WEBRTC_SPL_ABS_W16 re)
         else (let tmp16no1 = i16 (WEBRTC_SPL_ABS_W16 re); tmp16no2 = i16 (WEBRTC_SPL_ABS_W16 im);
                   tmp32no1 = i32 (tmp16no1 * tmp16no1); tmp32no2 = i32 (tmp16no2 * tmp16no2);
                   tmp32no2 = WebRtcSpl_AddSatW32 tmp32no1 tmp32no2
               in u16 (WebRtcSpl_SqrtFloor tmp32no2)))"

text \<open>The result: the scaling, the spectrum, its magnitudes and their sum.\<close>

definition TimeToFrequencyDomain ::
    "AecmCore \<Rightarrow> samples \<Rightarrow> ComplexInt16 list \<Rightarrow> int \<times> ComplexInt16 list \<times> int list \<times> int" where
  "TimeToFrequencyDomain aecm time_signal freq_signal =
     (let tmp16no1 = WebRtcSpl_MaxAbsValueW16C (take PART_LEN2 time_signal);
          scaling = WebRtcSpl_NormW16 tmp16no1;
          freq = WindowAndFFT aecm time_signal freq_signal scaling;
          freq = freq[0 := (fst (freq ! 0), 0)];
          freq = freq[PART_LEN := (fst (freq ! PART_LEN), 0)];
          abs0 = u16 (WEBRTC_SPL_ABS_W16 (fst (freq ! 0)));
          absN = u16 (WEBRTC_SPL_ABS_W16 (fst (freq ! PART_LEN)));
          mags = abs0 # map (\<lambda>i. magnitude (freq ! i)) [1..<PART_LEN] @ [absN];
          sum_abs = fold (\<lambda>i s. u32 (s + mags ! i)) [1..<PART_LEN] (u32 (abs0 + absN))
      in (scaling, freq, mags, sum_abs))"

text \<open>One sample of the overlap-add: the output and the next \<open>outBuf\<close>.\<close>

definition overlap_add :: "int \<Rightarrow> samples \<Rightarrow> samples \<Rightarrow> nat \<Rightarrow> int \<times> int" where
  "overlap_add shift ifft_out out_buf i =
     (let s = i16 (WEBRTC_SPL_MUL_16_16_RSFT_WITH_ROUND (ifft_out ! i) (WebRtcAecm_kSqrtHanning ! i) 14);
          tmp32no1 = WEBRTC_SPL_SHIFT_W32 s shift;
          out = i16 (WEBRTC_SPL_SAT WEBRTC_SPL_WORD16_MAX (i32 (tmp32no1 + out_buf ! i)) WEBRTC_SPL_WORD16_MIN);
          tmp32no1 = shr (i32 (ifft_out ! (PART_LEN + i) * WebRtcAecm_kSqrtHanning ! (PART_LEN - i))) 14;
          tmp32no1 = WEBRTC_SPL_SHIFT_W32 tmp32no1 shift
      in (out, i16 (WEBRTC_SPL_SAT WEBRTC_SPL_WORD16_MAX tmp32no1 WEBRTC_SPL_WORD16_MIN)))"

definition InverseFFTAndWindow :: "AecmCore \<Rightarrow> ComplexInt16 list \<Rightarrow> bool \<Rightarrow> AecmCore \<times> samples" where
  "InverseFFTAndWindow aecm efw has_clean =
     (let fft = concat (map (\<lambda>i. [fst (efw ! i), i16 (- snd (efw ! i))]) [0..<PART_LEN1]);
          (outCFFT, ifft_out) = WebRtcSpl_RealInverseFFT (the (real_fft aecm)) fft (from_complex efw);
          pairs = map (overlap_add (i32 (outCFFT - dfaCleanQDomain aecm)) ifft_out (outBuf aecm)) [0..<PART_LEN];
          aecm = aecm\<lparr>outBuf := map snd pairs,
                      xBuf := mem_copy (xBuf aecm) 0 (mem_slice (xBuf aecm) PART_LEN PART_LEN),
                      dBufNoisy := mem_copy (dBufNoisy aecm) 0 (mem_slice (dBufNoisy aecm) PART_LEN PART_LEN)\<rparr>;
          aecm = (if has_clean
                  then aecm\<lparr>dBufClean := mem_copy (dBufClean aecm) 0 (mem_slice (dBufClean aecm) PART_LEN PART_LEN)\<rparr>
                  else aecm)
      in (aecm, map fst pairs))"

section \<open>The Wiener filter\<close>

text \<open>The echo estimate times the suppression gain, and the resolution of the product.\<close>

definition gained_echo :: "int \<Rightarrow> int \<Rightarrow> int \<Rightarrow> int \<times> int" where
  "gained_echo echo gain clean_q =
     (let zeros32 = i16 (WebRtcSpl_NormW32 echo + 1); zeros16 = i16 (WebRtcSpl_NormW16 gain + 1)
      in if zeros32 + zeros16 > 16
         then (WEBRTC_SPL_UMUL_32_16 (u32 echo) (u16 gain),
               i16 (14 - RESOLUTION_CHANNEL16 - RESOLUTION_SUPGAIN + clean_q))
         else
           (let tmp16no1 = i16 (17 - zeros32 - zeros16);
                diff = i16 (i16 (14 + tmp16no1 - RESOLUTION_CHANNEL16 - RESOLUTION_SUPGAIN) + clean_q)
            in if zeros32 > tmp16no1 then (WEBRTC_SPL_UMUL_32_16 (u32 echo) (shr gain tmp16no1), diff)
               else (u32 (i32 (shr echo tmp16no1 * gain)), diff)))"

text \<open>
  The smoothed near-end magnitude. The saturation test is a bitwise \<open>&\<close> of the value and
  a comparison, so it looks at the lowest bit of the value only.
\<close>

definition next_near_filt :: "int \<Rightarrow> int \<Rightarrow> int \<Rightarrow> int" where
  "next_near_filt near dfa q_diff =
     (let zeros16 = i16 (WebRtcSpl_NormW16 near);
          (tmp16no1, qDomainDiff, tmp16no2) =
            (if zeros16 < q_diff \<and> near \<noteq> 0
             then (let qd = i16 (zeros16 - q_diff) in (i16 (shl32 near zeros16), qd, i16 (shr dfa (- qd))))
             else (i16 (if q_diff < 0 then shr near (- q_diff) else shl32 near q_diff), 0, i16 dfa));
          tmp32no1 = tmp16no2 - tmp16no1;
          tmp16no2 = i16 (shr tmp32no1 4);
          tmp16no2 = i16 (tmp16no2 + tmp16no1);
          zeros16 = i16 (WebRtcSpl_NormW16 tmp16no2)
      in if tmp16no2 AND c_bool (- qDomainDiff > zeros16) \<noteq> 0 then WEBRTC_SPL_WORD16_MAX
         else i16 (if qDomainDiff < 0 then shl32 tmp16no2 (- qDomainDiff) else shr tmp16no2 qDomainDiff))"

definition wiener_gain :: "int \<Rightarrow> int \<Rightarrow> int \<Rightarrow> int" where
  "wiener_gain gained resolutionDiff near =
     (if gained = 0 then ONE_Q14
      else if near = 0 then 0
      else
        (let gained = u32 (gained + u32 (shr near 1));
             tmpU32 = WebRtcSpl_DivU32U16 gained (u16 near);
             tmp32no1 = i32 (WEBRTC_SPL_SHIFT_U32 tmpU32 resolutionDiff)
         in if tmp32no1 > ONE_Q14 then 0
            else if tmp32no1 < 0 then ONE_Q14
            else (let h = i16 (ONE_Q14 - i16 tmp32no1) in if h < 0 then 0 else h)))"

text \<open>One band: the echo filter, the near-end filter and the coefficient.\<close>

definition wiener_band :: "int \<Rightarrow> int \<Rightarrow> int \<Rightarrow> int \<Rightarrow> int \<Rightarrow> int \<Rightarrow> int \<times> int \<Rightarrow> int \<times> int \<times> int" where
  "wiener_band echoEst zerosXBuf gain dfa clean_q clean_q_old = (\<lambda>(echo, near).
     (let tmp32no1 = i32 (WEBRTC_SPL_SHIFT_W32 echoEst (- zerosXBuf) - echo);
          echo = i32 (echo + shr (i32 (tmp32no1 * 50)) 8);
          (gained, resolutionDiff) = gained_echo echo gain clean_q;
          near = next_near_filt near dfa (i16 (clean_q - clean_q_old))
      in (echo, near, wiener_gain gained resolutionDiff near)))"

definition wiener_filter :: "AecmCore \<Rightarrow> int list \<Rightarrow> int \<Rightarrow> int \<Rightarrow> int list \<Rightarrow> AecmCore \<times> int list" where
  "wiener_filter aecm echoEst zerosXBuf gain dfaClean =
     (let bands = map (\<lambda>i. wiener_band (echoEst ! i) zerosXBuf gain (dfaClean ! i)
                              (dfaCleanQDomain aecm) (dfaCleanQDomainOld aecm) (echoFilt aecm ! i, nearFilt aecm ! i))
                    [0..<PART_LEN1]
      in (aecm\<lparr>echoFilt := map fst bands, nearFilt := map (fst \<circ> snd) bands\<rparr>, map (snd \<circ> snd) bands))"

definition kMinPrefBand :: nat where "kMinPrefBand = 4"

definition kMaxPrefBand :: nat where "kMaxPrefBand = 24"

text \<open>Only in wideband: the gain of the upper bands is capped by the mean of the preferred ones.\<close>

definition limit_upper_bands :: "AecmCore \<Rightarrow> int list \<Rightarrow> int list" where
  "limit_upper_bands aecm hnl =
     (if mult aecm = 2
      then
        (let hnl = map (\<lambda>h. i16 (shr (i32 (h * h)) 14)) hnl;
             avgHnl32 = fold (\<lambda>i a. i32 (a + hnl ! i)) [kMinPrefBand..<kMaxPrefBand + 1] 0;
             avgHnl32 = avgHnl32 sdiv (int kMaxPrefBand - int kMinPrefBand + 1)
         in fold (\<lambda>i h. if h ! i > i16 avgHnl32 then h[i := i16 avgHnl32] else h) [kMaxPrefBand..<PART_LEN1] hnl)
      else hnl)"

section \<open>Non-linear processing\<close>

definition apply_gain :: "int \<Rightarrow> int \<Rightarrow> int" where
  "apply_gain x h = i16 (WEBRTC_SPL_MUL_16_16_RSFT_WITH_ROUND x h 14)"

definition square_16 :: "int \<Rightarrow> int" where
  "square_16 x = shr (u32 (WEBRTC_SPL_MUL_16_U16 x x)) 8"

text \<open>The energies after (\<open>eb\<close>) and before (\<open>ea\<close>) the filter, over a range of bands.\<close>

definition nlp_energy_step :: "ComplexInt16 list \<Rightarrow> int list \<Rightarrow> nat \<Rightarrow> int \<times> int \<Rightarrow> int \<times> int" where
  "nlp_energy_step dfw hnl i = (\<lambda>(eb, ea).
     (let (re, im) = dfw ! i;
          eb = u32 (eb + square_16 (apply_gain re (hnl ! i)));
          ea = u32 (ea + square_16 re);
          eb = u32 (eb + square_16 (apply_gain im (hnl ! i)));
          ea = u32 (ea + square_16 im)
      in (eb, ea)))"

definition nlp_energies :: "ComplexInt16 list \<Rightarrow> int list \<Rightarrow> nat \<Rightarrow> nat \<Rightarrow> int \<times> int" where
  "nlp_energies dfw hnl m n = fold (nlp_energy_step dfw hnl) [m..<n] (0, 0)"

text \<open>\<open>(nlpGain, tmp16no2)\<close>: the gains of the upper and of the lowest bands.\<close>

definition nlp_gains :: "ComplexInt16 list \<Rightarrow> int list \<Rightarrow> int \<times> int" where
  "nlp_gains dfw hnl =
     (let (eb, ea) = nlp_energies dfw hnl 5 PART_LEN1;
          tmpU32 = WebRtcSpl_DivU32U16 eb (u16 (shr ea 16));
          nlpGain = (if tmpU32 > 6231
                     then (let g = i16 (shr tmpU32 2) in if g > ONE_Q14 then ONE_Q14 else g) else 0);
          (eb, ea) = nlp_energies dfw hnl 1 15;
          tmpU32 = WebRtcSpl_DivU32U16 eb (u16 (shr ea 16));
          tmp16no2 = (if nlpGain < shr ONE_Q14 7 \<and> tmpU32 < ONE_Q14
                      then (let t = i16 (shr eb 22) in if t > ONE_Q14 then ONE_Q14 else t) else ONE_Q14)
      in (nlpGain, tmp16no2))"

definition nlp_band :: "int \<Rightarrow> int \<Rightarrow> nat \<Rightarrow> int \<Rightarrow> int" where
  "nlp_band nlpGain tmp16no2 i h =
     (if i > 15
      then
        (let h = (if h > NLP_COMP_HIGH then ONE_Q14 else if h < NLP_COMP_LOW then 0 else h)
         in if h = ONE_Q14 \<and> nlpGain = ONE_Q14 then ONE_Q14 else i16 (shr (i32 (h * nlpGain)) 14))
      else i16 (shr (i32 (h * tmp16no2)) 14))"

text \<open>The coefficients after the non-linear processing and the filtered spectrum.\<close>

definition filter_spectrum :: "AecmCore \<Rightarrow> ComplexInt16 list \<Rightarrow> int list \<Rightarrow> int list \<times> ComplexInt16 list" where
  "filter_spectrum aecm dfw hnl =
     (let hnl =
            (if nlpFlag aecm \<noteq> 0
             then (let (nlpGain, tmp16no2) = nlp_gains dfw hnl
                   in map (\<lambda>i. nlp_band nlpGain tmp16no2 i (hnl ! i)) [0..<PART_LEN1])
             else hnl)
      in (hnl, map (\<lambda>i. (apply_gain (fst (dfw ! i)) (hnl ! i), apply_gain (snd (dfw ! i)) (hnl ! i))) [0..<PART_LEN1]))"

section \<open>Comfort noise\<close>

text \<open>One band of the noise estimation: the estimate and the two counters.\<close>

definition track_noise :: "int \<Rightarrow> int \<Rightarrow> int \<times> int \<times> int \<Rightarrow> int \<times> int \<times> int" where
  "track_noise minTrackShift outLShift32 = (\<lambda>(noise, low, high).
     if outLShift32 < noise
     then
       (if noise < shl32 1 minTrackShift
        then (let high = i32 (high + 1)
              in if high \<ge> kNoiseEstIncCount then (i32 (noise - 1), 0, 0) else (noise, 0, high))
        else (i32 (noise - shr (i32 (noise - outLShift32)) minTrackShift), 0, high))
     else if shr noise 19 > 0 then (i32 (shr noise 11 * 2049), low, 0)
     else if shr noise 11 > 0 then (shr (i32 (noise * 2049)) 11, low, 0)
     else (let low = i32 (low + 1)
           in if low \<ge> kNoiseEstIncCount then (i32 (noise + (shr noise 9 + 1)), 0, 0) else (noise, low, 0)))"

text \<open>The level of the noise of one band: the clipped estimate, and the level after the gain.\<close>

definition noise_level :: "int \<Rightarrow> int \<Rightarrow> int \<Rightarrow> int \<times> int" where
  "noise_level shift lam noise =
     (let tmp32 = shr noise shift;
          (tmp32, noise) = (if tmp32 > 32767 then (32767, shl32 32767 shift) else (tmp32, noise));
          level = i16 tmp32;
          tmp16 = i16 (ONE_Q14 - lam)
      in (noise, i16 (shr (i32 (tmp16 * level)) 14)))"

definition noise_index :: "int \<Rightarrow> int" where
  "noise_index r = i16 (shr (i32 (359 * r)) 15)"

definition noise_sample :: "int \<Rightarrow> int \<Rightarrow> ComplexInt16" where
  "noise_sample level r =
     (let k = nat (noise_index r)
      in (i16 (shr (i32 (level * WebRtcAecm_kCosTable ! k)) 13),
          i16 (shr (i32 (- level * WebRtcAecm_kSinTable ! k)) 13)))"

definition ComfortNoise :: "AecmCore \<Rightarrow> int list \<Rightarrow> ComplexInt16 list \<Rightarrow> int list \<Rightarrow> AecmCore \<times> ComplexInt16 list" where
  "ComfortNoise aecm dfa out lam =
     (let shiftFromNearToNoise = i16 (kNoiseEstQDomain - dfaCleanQDomain aecm);
          (aecm, minTrackShift) =
            (if noiseEstCtr aecm < 100 then (aecm\<lparr>noiseEstCtr := i16 (noiseEstCtr aecm + 1)\<rparr>, 6) else (aecm, 9));
          tracked = map (\<lambda>i. track_noise minTrackShift (shl32 (dfa ! i) shiftFromNearToNoise)
                               (noiseEst aecm ! i, noiseEstTooLowCtr aecm ! i, noiseEstTooHighCtr aecm ! i)) [0..<PART_LEN1];
          levels = map (\<lambda>i. noise_level shiftFromNearToNoise (lam ! i) (fst (tracked ! i))) [0..<PART_LEN1];
          (sd, randW16, _) = WebRtcSpl_RandUArray (replicate PART_LEN 0) (int PART_LEN) (seed aecm);
          aecm = aecm\<lparr>noiseEst := map fst levels, noiseEstTooLowCtr := map (fst \<circ> snd) tracked,
                      noiseEstTooHighCtr := map (snd \<circ> snd) tracked, seed := sd\<rparr>;
          u = (0, 0) # map (\<lambda>i. noise_sample (snd (levels ! i)) (randW16 ! (i - 1))) [1..<PART_LEN1];
          u = u[PART_LEN := (fst (u ! PART_LEN), 0)]
      in (aecm, map (\<lambda>i. (WebRtcSpl_AddSatW16 (fst (out ! i)) (fst (u ! i)),
                          WebRtcSpl_AddSatW16 (snd (out ! i)) (snd (u ! i)))) [0..<PART_LEN1]))"

section \<open>One block\<close>

text \<open>The startup state and the signal buffers.\<close>

definition begin_block :: "AecmCore \<Rightarrow> samples \<Rightarrow> samples \<Rightarrow> samples option \<Rightarrow> AecmCore" where
  "begin_block aecm farend nearendNoisy nearendClean =
     (let aecm = (if startupState aecm < 2
                  then aecm\<lparr>startupState := c_bool (totCount aecm \<ge> CONV_LEN) + c_bool (totCount aecm \<ge> CONV_LEN2)\<rparr>
                  else aecm);
          aecm = aecm\<lparr>xBuf := mem_copy (xBuf aecm) PART_LEN (take PART_LEN farend),
                      dBufNoisy := mem_copy (dBufNoisy aecm) PART_LEN (take PART_LEN nearendNoisy)\<rparr>
      in (case nearendClean of None \<Rightarrow> aecm
          | Some clean \<Rightarrow> aecm\<lparr>dBufClean := mem_copy (dBufClean aecm) PART_LEN (take PART_LEN clean)\<rparr>))"

text \<open>
  The near end: the spectrum that will be filtered, the magnitudes of the noisy and the clean
  signal, the sum of the noisy magnitudes and the Q-domain of the noisy signal.
\<close>

definition near_spectra ::
    "AecmCore \<Rightarrow> ComplexInt16 list \<Rightarrow> bool \<Rightarrow> AecmCore \<times> ComplexInt16 list \<times> int list \<times> int list \<times> int \<times> int" where
  "near_spectra aecm dfw has_clean =
     (let (zerosDBufNoisy, dfw, dfaNoisy, dfaNoisySum) = TimeToFrequencyDomain aecm (dBufNoisy aecm) dfw;
          aecm = aecm\<lparr>dfaNoisyQDomainOld := dfaNoisyQDomain aecm, dfaNoisyQDomain := i16 zerosDBufNoisy\<rparr>
      in if \<not> has_clean
         then (aecm\<lparr>dfaCleanQDomainOld := dfaNoisyQDomainOld aecm, dfaCleanQDomain := dfaNoisyQDomain aecm\<rparr>,
               dfw, dfaNoisy, dfaNoisy, dfaNoisySum, i16 zerosDBufNoisy)
         else
           (let (zerosDBufClean, dfw, dfaClean, _) = TimeToFrequencyDomain aecm (dBufClean aecm) dfw
            in (aecm\<lparr>dfaCleanQDomainOld := dfaCleanQDomain aecm, dfaCleanQDomain := i16 zerosDBufClean\<rparr>,
                dfw, dfaNoisy, dfaClean, dfaNoisySum, i16 zerosDBufNoisy)))"

text \<open>The delay estimation; \<open>None\<close> for the early return with -1.\<close>

definition estimate_delay :: "AecmCore \<Rightarrow> int list \<Rightarrow> int list \<Rightarrow> int \<Rightarrow> int \<Rightarrow> AecmCore \<times> int option" where
  "estimate_delay aecm xfa dfaNoisy far_q zerosDBufNoisy =
     (let (farend, r) = WebRtc_AddFarSpectrumFix (delay_estimator_farend aecm) (Some xfa) (int PART_LEN1) far_q;
          aecm = aecm\<lparr>delay_estimator_farend := farend\<rparr>
      in if r = - 1 then (aecm, None)
         else
           (let (estimator, delay) = WebRtc_DelayEstimatorProcessFix (binary_farend (the farend)) (delay_estimator aecm)
                                       (Some dfaNoisy) (int PART_LEN1) zerosDBufNoisy;
                aecm = aecm\<lparr>delay_estimator := estimator\<rparr>
            in if delay = - 1 then (aecm, None)
               else
                 (let delay = (if delay = - 2 then 0 else delay);
                      delay = (if fixedDelay aecm \<ge> 0 then fixedDelay aecm else delay)
                  in (aecm\<lparr>currentDelay := i16 (delay + 1)\<rparr>, Some delay))))"

text \<open>
  From the far-end history to the filtered spectrum: energies, step size, channel, suppression
  gain, Wiener filter and non-linear processing. The result is the state, the
  coefficients and the spectrum.
\<close>

definition suppress_echo ::
    "AecmCore \<Rightarrow> int list \<Rightarrow> int \<Rightarrow> int \<Rightarrow> ComplexInt16 list \<Rightarrow> int list \<Rightarrow> int list \<Rightarrow> int \<Rightarrow>
     AecmCore \<times> int list \<times> ComplexInt16 list" where
  "suppress_echo aecm xfa far_q delay dfw dfaNoisy dfaClean dfaNoisySum =
     (let aecm = WebRtcAecm_UpdateFarHistory aecm xfa dfw far_q;
          (far_q, far_spectrum) = WebRtcAecm_AlignedFarend aecm delay;
          zerosXBuf = i16 far_q;
          (aecm, echoEst32) = WebRtcAecm_CalcEnergies aecm far_spectrum zerosXBuf dfaNoisySum (replicate PART_LEN1 0);
          mu = WebRtcAecm_CalcStepSize aecm;
          aecm = aecm\<lparr>totCount := u32 (totCount aecm + 1)\<rparr>;
          (aecm, echoEst32) = WebRtcAecm_UpdateChannel aecm far_spectrum zerosXBuf dfaNoisy mu echoEst32;
          (aecm, gain) = WebRtcAecm_CalcSuppressionGain aecm;
          (aecm, hnl) = wiener_filter aecm echoEst32 zerosXBuf gain dfaClean;
          hnl = limit_upper_bands aecm hnl;
          (hnl, efw) = filter_spectrum aecm dfw hnl
      in (aecm, hnl, efw))"

text \<open>The state, the output block (\<open>None\<close> when it is not written) and the return value.\<close>

definition WebRtcAecm_ProcessBlock ::
    "AecmCore \<Rightarrow> samples \<Rightarrow> samples \<Rightarrow> samples option \<Rightarrow> AecmCore \<times> samples option \<times> int" where
  "WebRtcAecm_ProcessBlock aecm farend nearendNoisy nearendClean =
     (let aecm = begin_block aecm farend nearendNoisy nearendClean;
          (far_q, dfw, xfa, _) = TimeToFrequencyDomain aecm (xBuf aecm) (replicate PART_LEN1 (0, 0));
          (aecm, dfw, dfaNoisy, dfaClean, dfaNoisySum, zerosDBufNoisy) = near_spectra aecm dfw (nearendClean \<noteq> None);
          (aecm, delay) = estimate_delay aecm xfa dfaNoisy far_q zerosDBufNoisy
      in case delay of None \<Rightarrow> (aecm, None, - 1)
         | Some d \<Rightarrow>
            (let (aecm, hnl, efw) = suppress_echo aecm xfa far_q d dfw dfaNoisy dfaClean dfaNoisySum;
                 (aecm, efw) = (if cngMode aecm = AecmTrue then ComfortNoise aecm dfaClean efw hnl else (aecm, efw));
                 (aecm, out) = InverseFFTAndWindow aecm efw (nearendClean \<noteq> None)
             in (aecm, Some out, 0)))"

section \<open>Spectra and magnitudes\<close>

lemma AddSatW32_nonneg:
  assumes "0 \<le> a" "0 \<le> b" "a \<le> 1073741824" "b \<le> 1073741824"
  shows "WebRtcSpl_AddSatW32 a b = min (a + b) 2147483647"
proof (cases "a + b = 2147483648")
  case True
  then have "i32 (a + b) = - 2147483648" by (simp add: i32_def)
  then show ?thesis using assms True by (simp add: WebRtcSpl_AddSatW32_def Let_def)
next
  case False
  then have "i32 (a + b) = a + b" using assms by (intro i32_id) (simp add: in_i32_def)
  then show ?thesis using assms False by (simp add: WebRtcSpl_AddSatW32_def Let_def)
qed

lemma abs_i16_square: "in_i16 x \<Longrightarrow> i32 (i16 (WEBRTC_SPL_ABS_W16 x) * i16 (WEBRTC_SPL_ABS_W16 x)) = x * x"
proof -
  assume x: "in_i16 x"
  have "i16 (WEBRTC_SPL_ABS_W16 x) = x \<or> i16 (WEBRTC_SPL_ABS_W16 x) = - x"
  proof (cases "x = - 32768")
    case True
    then show ?thesis by (simp add: WEBRTC_SPL_ABS_W16_def i16_def)
  next
    case False
    then show ?thesis using x by (auto simp: WEBRTC_SPL_ABS_W16_def i16_id in_i16_def)
  qed
  then have "i16 (WEBRTC_SPL_ABS_W16 x) * i16 (WEBRTC_SPL_ABS_W16 x) = x * x" by auto
  then show ?thesis using x by (simp add: i32_mult_i16)
qed

lemma i16_square_bound: "in_i16 x \<Longrightarrow> 0 \<le> x * x \<and> x * x \<le> 1073741824"
  using i16_mult_bound [of x x] by simp

lemma abs_u16: "in_i16 x \<Longrightarrow> u16 (WEBRTC_SPL_ABS_W16 x) = \<bar>x\<bar>"
  by (auto simp: WEBRTC_SPL_ABS_W16_def i16_id u16_id in_i16_def in_u16_def)

definition is_magnitude :: "int \<times> int \<Rightarrow> int \<Rightarrow> bool" where
  "is_magnitude c m \<longleftrightarrow> 0 \<le> m \<and> m * m \<le> fst c * fst c + snd c * snd c \<and> fst c * fst c + snd c * snd c < (m + 1) * (m + 1)"

lemma is_magnitude_abs: "is_magnitude (0, x) \<bar>x\<bar>" "is_magnitude (x, 0) \<bar>x\<bar>"
proof -
  have "x * x < (\<bar>x\<bar> + 1) * (\<bar>x\<bar> + 1)"
    using abs_ge_zero [of x] by (simp add: algebra_simps)
  then show "is_magnitude (0, x) \<bar>x\<bar>" "is_magnitude (x, 0) \<bar>x\<bar>" by (simp_all add: is_magnitude_def)
qed

lemma is_magnitude_real: "snd c = 0 \<Longrightarrow> is_magnitude c \<bar>fst c\<bar>"
  using is_magnitude_abs(2) [of "fst c"] by (simp add: is_magnitude_def)

lemma magnitude_root:
  assumes "in_i16 re" "in_i16 im"
  shows "is_magnitude (re, im) (magnitude (re, im)) \<and> magnitude (re, im) \<le> 46340"
proof -
  note sq = i16_square_bound [OF assms(1)] i16_square_bound [OF assms(2)]
  have b: "m \<le> 46340" if "is_magnitude (re, im) m" for m
  proof (rule ccontr)
    assume "\<not> m \<le> 46340"
    then have "46341 * 46341 \<le> m * m" by (intro mult_mono) simp_all
    then show False using that sq by (simp add: is_magnitude_def)
  qed
  have "is_magnitude (re, im) (magnitude (re, im))"
  proof (cases "re = 0 \<or> im = 0")
    case True
    then show ?thesis using assms is_magnitude_abs by (auto simp: magnitude_def abs_u16)
  next
    case False
    let ?s = "min (re * re + im * im) 2147483647" and ?r = "WebRtcSpl_SqrtFloor (min (re * re + im * im) 2147483647)"
    have m: "magnitude (re, im) = u16 ?r"
      using False sq by (simp add: magnitude_def Let_def abs_i16_square [OF assms(1)] abs_i16_square [OF assms(2)] AddSatW32_nonneg)
    have r: "0 \<le> ?r" "?r * ?r \<le> ?s" "?s < (?r + 1) * (?r + 1)" using SqrtFloor_root [of ?s] sq by simp_all
    have "?r \<le> 46340"
    proof (rule ccontr)
      assume "\<not> ?r \<le> 46340"
      then have "46341 * 46341 \<le> ?r * ?r" by (intro mult_mono) simp_all
      then show False using r(2) by simp
    qed
    then have u: "u16 ?r = ?r" using r(1) by (intro u16_id) (simp add: in_u16_def)
    have "re * re + im * im < (?r + 1) * (?r + 1)"
    proof (cases "re * re + im * im \<le> 2147483647")
      case True
      then show ?thesis using r(3) by simp
    next
      case False
      then have e: "re * re + im * im = 2147483648" "?s = 2147483647" using sq by simp_all
      have "46340 \<le> ?r"
      proof (rule ccontr)
        assume "\<not> 46340 \<le> ?r"
        then have "(?r + 1) * (?r + 1) \<le> 46340 * 46340" using r(1) by (intro mult_mono) simp_all
        then show False using r(3) e(2) by simp
      qed
      then have "46341 * 46341 \<le> (?r + 1) * (?r + 1)" by (intro mult_mono) simp_all
      then show ?thesis using e by simp
    qed
    then show ?thesis using r(1,2) unfolding m u is_magnitude_def by simp
  qed
  then show ?thesis using b by simp
qed


lemma NormW16_bounds:
  assumes "0 \<le> x" "x \<le> 32767"
  shows "0 \<le> WebRtcSpl_NormW16 x \<and> WebRtcSpl_NormW16 x \<le> 15"
proof (cases "x = 0")
  case False
  note n = norm_ok_NormW16 [of x, unfolded norm_ok_def]
  have "\<not> 15 \<le> WebRtcSpl_NormW16 x"
  proof
    assume "15 \<le> WebRtcSpl_NormW16 x"
    then have "(2::int) ^ 15 \<le> 2 ^ nat (WebRtcSpl_NormW16 x)" by (intro power_increasing) simp_all
    then have "1 * 2 ^ 15 \<le> x * 2 ^ nat (WebRtcSpl_NormW16 x)" using False assms by (intro mult_mono) simp_all
    then show False using n assms by simp
  qed
  then show ?thesis using n assms by simp
qed (simp add: WebRtcSpl_NormW16_def)

definition bins_ok :: "(int \<times> int) list \<Rightarrow> bool" where
  "bins_ok freq \<longleftrightarrow> length freq = PART_LEN1 \<and> list_all (\<lambda>(re, im). in_i16 re \<and> in_i16 im) freq"

lemma window_signal_range: "length (window_signal xs z) = 512 \<and> list_all in_i16 (window_signal xs z)"
  by (auto simp: window_signal_def list_all_iff aecm_sizes)

lemma length_from_complex: "length (from_complex c) = 2 * length c"
  by (induction c) (auto simp: from_complex_def)

lemma WindowAndFFT_range:
  assumes "real_fft aecm = Some \<lparr>order = PART_LEN_SHIFT\<rparr>" "length freq = PART_LEN1"
  shows "bins_ok (WindowAndFFT aecm xs freq z)"
proof -
  obtain k f where f: "WebRtcSpl_RealForwardFFT \<lparr>order = PART_LEN_SHIFT\<rparr> (window_signal xs z) (from_complex freq) = (k, f)" by (metis surj_pair)
  have r: "length f = 514" "list_all in_i16 f"
    using RealForwardFFT_range [of "\<lparr>order = PART_LEN_SHIFT\<rparr>" 9 "window_signal xs z" "from_complex freq"] window_signal_range [of xs z] assms(2) f
    by (simp_all add: PART_LEN_SHIFT_def length_from_complex aecm_sizes)
  let ?P = "\<lambda>(re, im). in_i16 re \<and> in_i16 im"
  have c: "length (to_complex f PART_LEN1) = PART_LEN1" "list_all ?P (to_complex f PART_LEN1)"
    using r by (auto simp: to_complex_def list_all_iff aecm_sizes)
  have "list_all ?P (fold (\<lambda>i g. g[i := (\<lambda>_ x. (fst x, i16 (- snd x))) i (g ! i)]) [0..<PART_LEN] (to_complex f PART_LEN1))"
    using c by (intro list_all_fold_update) (auto simp: aecm_sizes)
  moreover have "length (fold (\<lambda>i g. g[i := (\<lambda>_ x. (fst x, i16 (- snd x))) i (g ! i)]) [0..<PART_LEN] (to_complex f PART_LEN1)) = PART_LEN1"
    using c by (subst fold_update_prefix) (simp_all add: aecm_sizes)
  ultimately show ?thesis using assms(1) f by (simp add: WindowAndFFT_def bins_ok_def)
qed

lemma fold_u32_sum:
  assumes "0 \<le> s" "\<And>i. i \<in> set js \<Longrightarrow> 0 \<le> f i" "s + sum_list (map f js) \<le> 4294967295"
  shows "fold (\<lambda>i s. u32 (s + f i)) js s = s + sum_list (map f js)"
  using assms
proof (induction js arbitrary: s)
  case (Cons j js)
  have "0 \<le> sum_list (map f js)" using Cons.prems(2) by (intro sum_list_nonneg) auto
  then have "u32 (s + f j) = s + f j" using Cons.prems by (intro u32_id) (auto simp: in_u32_def)
  then show ?case using Cons.IH [of "s + f j"] Cons.prems by (simp add: add.assoc)
qed simp

lemma TimeToFrequencyDomain_ok:
  assumes "real_fft aecm = Some \<lparr>order = PART_LEN_SHIFT\<rparr>" "length freq = PART_LEN1" "list_all in_i16 xs"
    and "TimeToFrequencyDomain aecm xs freq = (z, c, mags, tot)"
  shows "0 \<le> z \<and> z \<le> 15 \<and> bins_ok c \<and> length mags = PART_LEN1 \<and>
    (\<forall>i<PART_LEN1. is_magnitude (c ! i) (mags ! i) \<and> mags ! i \<le> 46340) \<and> tot = sum_list mags"
proof -
  define z0 where "z0 = WebRtcSpl_NormW16 (WebRtcSpl_MaxAbsValueW16C (take PART_LEN2 xs))"
  define f0 where "f0 = WindowAndFFT aecm xs freq z0"
  define f1 where "f1 = f0[0 := (fst (f0 ! 0), 0)]"
  define f2 where "f2 = f1[PART_LEN := (fst (f1 ! PART_LEN), 0)]"
  define a0 where "a0 = u16 (WEBRTC_SPL_ABS_W16 (fst (f2 ! 0)))"
  define aN where "aN = u16 (WEBRTC_SPL_ABS_W16 (fst (f2 ! PART_LEN)))"
  define ms where "ms = a0 # map (\<lambda>i. magnitude (f2 ! i)) [1..<PART_LEN] @ [aN]"
  have d: "z = z0" "c = f2" "mags = ms" "tot = fold (\<lambda>i s. u32 (s + ms ! i)) [1..<PART_LEN] (u32 (a0 + aN))"
    using assms(4) unfolding TimeToFrequencyDomain_def Let_def z0_def [symmetric] f0_def [symmetric] f1_def [symmetric]
      f2_def [symmetric] a0_def [symmetric] aN_def [symmetric] ms_def [symmetric] by auto
  have "\<forall>x\<in>set (take PART_LEN2 xs). in_i16 x" using assms(3) by (meson in_set_takeD list_all_iff)
  then have z: "0 \<le> z0 \<and> z0 \<le> 15"
    using MaxAbsValueW16C_bound [OF _ refl] NormW16_bounds unfolding z0_def by blast
  have f0: "bins_ok f0" unfolding f0_def by (rule WindowAndFFT_range [OF assms(1,2)])
  have zero: "bins_ok (f[k := (fst (f ! k), 0)])" if "bins_ok f" "k < PART_LEN1" for f k
  proof -
    have "case (fst (f ! k), 0) of (re, im) \<Rightarrow> in_i16 re \<and> in_i16 im"
      using that by (auto simp: bins_ok_def list_all_length in_i16_def split_def)
    then show ?thesis using that by (simp add: bins_ok_def list_all_update)
  qed
  have f2: "bins_ok f2" unfolding f2_def f1_def by (intro zero f0) (simp_all add: aecm_sizes)
  then have l: "length f2 = 257" and i16: "\<And>i. i < 257 \<Longrightarrow> in_i16 (fst (f2 ! i)) \<and> in_i16 (snd (f2 ! i))"
    by (auto simp: bins_ok_def aecm_sizes list_all_length split_def)
  have lf: "length f1 = 257" "length f0 = 257" using f0 by (simp_all add: bins_ok_def aecm_sizes f1_def)
  have e0: "snd (f2 ! 0) = 0" "snd (f2 ! 256) = 0"
    using lf by (simp_all add: f2_def f1_def aecm_sizes)
  have abs: "a0 = \<bar>fst (f2 ! 0)\<bar>" "aN = \<bar>fst (f2 ! 256)\<bar>"
    using i16 [of 0] i16 [of 256] by (simp_all add: a0_def aN_def abs_u16 aecm_sizes)
  have n: "ms ! i = (if i = 0 then a0 else if i < 256 then magnitude (f2 ! i) else aN)" if "i < 257" for i
    using that by (auto simp: ms_def nth_append nth_Cons aecm_sizes split: nat.splits)
  have m: "is_magnitude (f2 ! i) (ms ! i) \<and> ms ! i \<le> 46340" if i: "i < 257" for i
  proof -
    consider "i = 0" | "i = 256" | "0 < i" "i < 256" using i by linarith
    then show ?thesis
    proof cases
      case 1
      have "\<bar>fst (f2 ! 0)\<bar> \<le> 32768" using i16 [of 0] by (simp add: in_i16_abs)
      then show ?thesis using n [of 0] abs is_magnitude_real [of "f2 ! 0"] e0 \<open>i = 0\<close> by simp
    next
      case 2
      have "\<bar>fst (f2 ! 256)\<bar> \<le> 32768" using i16 [of 256] by (simp add: in_i16_abs)
      then show ?thesis using n [of 256] abs is_magnitude_real [of "f2 ! 256"] e0 \<open>i = 256\<close> by simp
    next
      case 3
      then show ?thesis using n [of i] magnitude_root [of "fst (f2 ! i)" "snd (f2 ! i)"] i16 [of i] by simp
    qed
  qed
  have lm: "length ms = 257" by (simp add: ms_def aecm_sizes)
  have t: "tot = sum_list ms"
  proof -
    have nn: "0 \<le> ms ! i \<and> ms ! i \<le> 46340" if "i < 257" for i using m [OF that] by (simp add: is_magnitude_def)
    have a: "0 \<le> a0" "a0 \<le> 46340" "0 \<le> aN" "aN \<le> 46340" using nn [of 0] nn [of 256] n [of 0] n [of 256] by simp_all
    have "sum_list (map (\<lambda>i. ms ! i) [1..<256]) \<le> sum_list (map (\<lambda>i. 46340) [1..<256])" using nn by (intro sum_list_mono) simp
    also have "\<dots> = 255 * 46340" by (simp add: sum_list_triv)
    finally have b: "sum_list (map (\<lambda>i. ms ! i) [1..<256]) \<le> 255 * 46340" .
    have "tot = fold (\<lambda>i s. u32 (s + ms ! i)) [1..<256] (a0 + aN)"
      using a unfolding d by (simp add: u32_id in_u32_def aecm_sizes)
    also have "\<dots> = a0 + aN + sum_list (map (\<lambda>i. ms ! i) [1..<256])"
      using a b nn by (intro fold_u32_sum) simp_all
    also have "map (\<lambda>i. ms ! i) [1..<256] = map (\<lambda>i. magnitude (f2 ! i)) [1..<256]" using n by (intro map_cong) auto
    finally show ?thesis by (simp add: ms_def aecm_sizes)
  qed
  show ?thesis using z f2 m lm t unfolding d(1-3) by (simp add: aecm_sizes)
qed

section \<open>The coefficients\<close>

definition in_q14 :: "int \<Rightarrow> bool" where
  "in_q14 h \<longleftrightarrow> 0 \<le> h \<and> h \<le> 16384"

lemma ONE_Q14_eq: "ONE_Q14 = 16384"
  by (simp add: ONE_Q14_def shl32_def i32_def)

lemma wiener_gain_range: "in_q14 (wiener_gain gained diff near)"
proof -
  have r: "in_q14 (if t > 16384 then 0 else if t < 0 then 16384 else (let h = i16 (16384 - i16 t) in if h < 0 then 0 else h))" for t
  proof (cases "0 \<le> t \<and> t \<le> 16384")
    case True
    then have "i16 t = t" "i16 (16384 - t) = 16384 - t" by (simp_all add: i16_id in_i16_def)
    then show ?thesis using True by (simp add: in_q14_def Let_def)
  qed (auto simp: in_q14_def)
  show ?thesis
    using r [of "i32 (WEBRTC_SPL_SHIFT_U32 (WebRtcSpl_DivU32U16 (u32 (gained + u32 (shr near 1))) (u16 near)) diff)"]
    by (cases "gained = 0 \<or> near = 0") (auto simp: wiener_gain_def ONE_Q14_eq Let_def in_q14_def)
qed

lemma wiener_filter_range:
  "length (snd (wiener_filter aecm est z gain dfa)) = PART_LEN1 \<and> list_all in_q14 (snd (wiener_filter aecm est z gain dfa))"
  by (simp add: wiener_filter_def Let_def list_all_iff wiener_band_def split_def wiener_gain_range)

lemma mult_q14: "in_q14 g \<Longrightarrow> in_q14 h \<Longrightarrow> i32 (g * h) = g * h \<and> i16 (shr (g * h) 14) = shr (g * h) 14 \<and> 0 \<le> shr (g * h) 14 \<and> shr (g * h) 14 \<le> h"
proof -
  assume a: "in_q14 g" "in_q14 h"
  have "g * h \<le> 16384 * h" using a by (intro mult_right_mono) (simp_all add: in_q14_def)
  then have "g * h div 16384 \<le> 16384 * h div 16384" by (intro zdiv_mono1) simp_all
  then have d: "shr (g * h) 14 \<le> h" by (simp add: shr_def)
  have n: "0 \<le> g * h" using a by (simp add: in_q14_def)
  have "g * h \<le> 16384 * 16384" using a by (intro mult_mono) (simp_all add: in_q14_def)
  then have "i32 (g * h) = g * h" using n by (intro i32_id) (simp add: in_i32_def)
  moreover have "0 \<le> shr (g * h) 14" using n by (rule shr_nonneg)
  ultimately show ?thesis using d a by (simp add: i16_id in_i16_def in_q14_def)
qed

lemma q14_product: "in_q14 g \<Longrightarrow> in_q14 h \<Longrightarrow> in_q14 (i16 (shr (i32 (g * h)) 14))"
  using mult_q14 [of g h] by (simp add: in_q14_def)

lemma limit_upper_bands_range:
  assumes "length hnl = PART_LEN1" "list_all in_q14 hnl"
  shows "length (limit_upper_bands aecm hnl) = PART_LEN1 \<and> list_all in_q14 (limit_upper_bands aecm hnl)"
proof (cases "mult aecm = 2")
  case True
  define h where "h = map (\<lambda>h. i16 (shr (i32 (h * h)) 14)) hnl"
  have h: "length h = PART_LEN1" "list_all in_q14 h"
    using assms q14_product unfolding h_def by (auto simp: list_all_iff)
  define s where "s = fold (\<lambda>i a. i32 (a + h ! i)) [kMinPrefBand..<kMaxPrefBand + 1] 0"
  have "fold (\<lambda>i a. i32 (a + h ! i)) js a \<in> {0..a + 16384 * int (length js)}" if "\<forall>i\<in>set js. i < PART_LEN1" "0 \<le> a" "a + 16384 * int (length js) \<le> 2147483647" for js a
    using that
  proof (induction js arbitrary: a)
    case (Cons j js)
    then have q: "0 \<le> h ! j" "h ! j \<le> 16384" using h by (simp_all add: list_all_length in_q14_def)
    then have "i32 (a + h ! j) = a + h ! j" using Cons.prems by (intro i32_id) (simp add: in_i32_def)
    moreover have "fold (\<lambda>i a. i32 (a + h ! i)) js (a + h ! j) \<in> {0..a + h ! j + 16384 * int (length js)}"
      using Cons.prems q by (intro Cons.IH) simp_all
    ultimately show ?case using q by (simp add: algebra_simps)
  qed simp
  from this [of "[kMinPrefBand..<kMaxPrefBand + 1]" 0] have "0 \<le> s" "s \<le> 16384 * 21"
    by (simp_all add: s_def kMinPrefBand_def kMaxPrefBand_def aecm_sizes)
  then have "0 \<le> s div 21" "s div 21 \<le> 16384" "s sdiv 21 = s div 21" by (simp_all add: sdiv_nonneg pos_imp_zdiv_nonneg_iff)
  moreover define m where "m = i16 (s sdiv (int kMaxPrefBand - int kMinPrefBand + 1))"
  ultimately have m: "in_q14 m"
    by (simp add: kMaxPrefBand_def kMinPrefBand_def in_q14_def i16_id in_i16_def)
  have "length (fold (\<lambda>i h. if h ! i > m then h[i := m] else h) js g) = length g \<and>
      list_all in_q14 (fold (\<lambda>i h. if h ! i > m then h[i := m] else h) js g)" if "list_all in_q14 g" for js g
    using that by (induction js arbitrary: g) (simp_all add: list_all_update m)
  then show ?thesis using True h unfolding limit_upper_bands_def Let_def h_def [symmetric] s_def [symmetric] m_def [symmetric] by simp
qed (use assms in \<open>simp add: limit_upper_bands_def\<close>)

text \<open>A coefficient between 0 and 1 moves a value towards 0.\<close>

definition shrinks :: "int \<Rightarrow> int \<Rightarrow> bool" where
  "shrinks y x \<longleftrightarrow> 0 \<le> y \<and> y \<le> x \<or> x \<le> y \<and> y \<le> 0"

lemma apply_gain_shrinks:
  assumes "in_i16 x" "in_q14 h"
  shows "shrinks (apply_gain x h) x"
proof -
  have h: "in_i16 h" using assms(2) by (simp add: in_q14_def in_i16_def)
  have w: "WEBRTC_SPL_MUL_16_16 x h = x * h"
    using assms(1) h by (simp add: WEBRTC_SPL_MUL_16_16_def i16_id i32_mult_i16)
  have b: "\<bar>x * h\<bar> \<le> 1073741824" using i16_mult_bound [OF assms(1) h] .
  have "i32 (x * h + 8192) = x * h + 8192" using b by (intro i32_id) (simp add: in_i32_def abs_le_iff)
  moreover have "shl32 1 (14 - 1) = 8192" by (simp add: shl32_def i32_def)
  ultimately have e: "apply_gain x h = i16 ((x * h + 8192) div 16384)"
    by (simp add: apply_gain_def WEBRTC_SPL_MUL_16_16_RSFT_WITH_ROUND_def w shr_def)
  show ?thesis
  proof (cases "0 \<le> x")
    case True
    have "x * h \<le> x * 16384" using True assms(2) by (intro mult_left_mono) (simp_all add: in_q14_def)
    then have "(x * h + 8192) div 16384 \<le> (x * 16384 + 8192) div 16384" by (intro zdiv_mono1) simp_all
    moreover have "0 \<le> (x * h + 8192) div 16384" using True assms(2) by (simp add: pos_imp_zdiv_nonneg_iff in_q14_def)
    ultimately show ?thesis using assms(1) e by (simp add: shrinks_def i16_id in_i16_def)
  next
    case False
    have "x * 16384 \<le> x * h" using False assms(2) by (intro mult_left_mono_neg) (simp_all add: in_q14_def)
    then have "(x * 16384 + 8192) div 16384 \<le> (x * h + 8192) div 16384" by (intro zdiv_mono1) simp_all
    moreover have "x * h \<le> 0" using False assms(2) by (intro mult_nonpos_nonneg) (simp_all add: in_q14_def)
    then have "(x * h + 8192) div 16384 \<le> 8192 div 16384" by (intro zdiv_mono1) simp_all
    ultimately show ?thesis using assms(1) e by (simp add: shrinks_def i16_id in_i16_def)
  qed
qed


lemma nlp_energies_range: "in_u32 (fst (nlp_energies dfw hnl m n)) \<and> in_u32 (snd (nlp_energies dfw hnl m n))"
proof -
  have "in_u32 (fst (fold (nlp_energy_step dfw hnl) js p)) \<and> in_u32 (snd (fold (nlp_energy_step dfw hnl) js p))"
    if "in_u32 (fst p)" "in_u32 (snd p)" for js p
    using that by (induction js arbitrary: p) (simp_all add: nlp_energy_step_def Let_def split_def)
  from this [of "(0, 0)"] show ?thesis by (simp add: nlp_energies_def in_u32_def)
qed

lemma nlp_gains_range: "fst (nlp_gains dfw hnl) \<le> 16384 \<and> in_q14 (snd (nlp_gains dfw hnl))"
proof -
  have "in_u32 (fst (nlp_energies dfw hnl 1 15))" using nlp_energies_range by blast
  then have "0 \<le> shr (fst (nlp_energies dfw hnl 1 15)) 22" "shr (fst (nlp_energies dfw hnl 1 15)) 22 \<le> shr 4294967295 22"
    by (simp_all only: in_u32_def shr_nonneg shr_mono)
  moreover have "shr 4294967295 22 = 1023" by (simp add: shr_def)
  ultimately have "0 \<le> shr (fst (nlp_energies dfw hnl 1 15)) 22" "shr (fst (nlp_energies dfw hnl 1 15)) 22 \<le> 1023" by simp_all
  then have "in_q14 (i16 (shr (fst (nlp_energies dfw hnl 1 15)) 22))" by (simp add: in_q14_def i16_id in_i16_def)
  then show ?thesis
    by (simp add: nlp_gains_def Let_def split_def ONE_Q14_eq) (simp add: in_q14_def)
qed

lemma nlp_band_range:
  assumes "in_q14 h" "in_q14 g" "in_q14 t"
  shows "in_q14 (nlp_band g t i h)"
proof -
  define k where "k = (if h > NLP_COMP_HIGH then ONE_Q14 else if h < NLP_COMP_LOW then 0 else h)"
  have "in_q14 k" using assms(1) by (simp add: k_def in_q14_def ONE_Q14_eq NLP_COMP_HIGH_def)
  moreover have "in_q14 ONE_Q14" by (simp add: in_q14_def ONE_Q14_eq)
  ultimately show ?thesis
    using q14_product [of k g] q14_product [OF assms(1,3)] assms(2) unfolding nlp_band_def k_def [symmetric] Let_def by simp
qed

lemma nlp_gain_16: "in_i16 (fst (nlp_gains dfw hnl))"
  by (simp add: nlp_gains_def Let_def split_def ONE_Q14_eq) (simp add: in_i16_def)

lemma nlp_band_low: "in_q14 h \<Longrightarrow> in_q14 t \<Longrightarrow> i \<le> 15 \<Longrightarrow> in_q14 (nlp_band g t i h)"
  by (simp add: nlp_band_def q14_product)

lemma nlp_band_negative:
  assumes "in_q14 h" "in_i16 g" "g < 0" "15 < i"
  shows "g \<le> nlp_band g t i h \<and> nlp_band g t i h \<le> 0"
proof -
  define k where "k = (if h > NLP_COMP_HIGH then ONE_Q14 else if h < NLP_COMP_LOW then 0 else h)"
  have k: "0 \<le> k" "k \<le> 16384" using assms(1) by (auto simp: k_def in_q14_def ONE_Q14_eq)
  have "16384 * g \<le> k * g" using k assms(3) by (intro mult_right_mono_neg) simp_all
  moreover have n: "k * g \<le> 0" using k(1) assms(3) by (simp add: mult_nonneg_nonpos)
  ultimately have m: "i32 (k * g) = k * g" using assms(2) by (intro i32_id) (simp add: in_i32_def in_i16_def)
  have "16384 * g div 16384 \<le> k * g div 16384" "k * g div 16384 \<le> 0 div 16384"
    using \<open>16384 * g \<le> k * g\<close> n by (intro zdiv_mono1; simp)+
  then have d: "g \<le> k * g div 16384" "k * g div 16384 \<le> 0" by simp_all
  then have "i16 (k * g div 16384) = k * g div 16384" using assms(2) by (intro i16_id) (simp add: in_i16_def)
  moreover have "g \<noteq> ONE_Q14" using assms(3) by (simp add: ONE_Q14_eq)
  ultimately show ?thesis using d m assms(4) unfolding nlp_band_def k_def [symmetric] Let_def by (simp add: shr_def)
qed

lemma apply_gain_muted:
  assumes "\<bar>x\<bar> < 8192" "h = - 1 \<or> h = 0"
  shows "apply_gain x h = 0"
proof -
  have "in_i16 x" "in_i16 h" using assms by (auto simp: in_i16_def abs_le_iff)
  then have w: "WEBRTC_SPL_MUL_16_16 x h = x * h"
    by (simp add: WEBRTC_SPL_MUL_16_16_def i16_id i32_mult_i16)
  have r: "0 \<le> x * h + 8192" "x * h + 8192 < 16384" using assms by auto
  then have "i32 (x * h + 8192) = x * h + 8192" by (intro i32_id) (simp add: in_i32_def)
  moreover have "shl32 1 (14 - 1) = 8192" by (simp add: shl32_def i32_def)
  moreover have "(x * h + 8192) div 16384 = 0" using r by (rule div_pos_pos_trivial)
  ultimately show ?thesis
    by (simp add: apply_gain_def WEBRTC_SPL_MUL_16_16_RSFT_WITH_ROUND_def w shr_def i16_def)
qed

lemma filter_spectrum_bands:
  assumes "bins_ok dfw" "length hnl = PART_LEN1" "list_all in_q14 hnl" 
    and "filter_spectrum aecm dfw hnl = (h, efw)" "i < PART_LEN1"
  shows "(i \<le> 15 \<or> nlpFlag aecm = 0 \<or> 0 \<le> fst (nlp_gains dfw hnl) \<longrightarrow>
      in_q14 (h ! i) \<and> shrinks (fst (efw ! i)) (fst (dfw ! i)) \<and> shrinks (snd (efw ! i)) (snd (dfw ! i)))"
    and "15 < i \<and> nlpFlag aecm \<noteq> 0 \<and> fst (nlp_gains dfw hnl) < 0 \<longrightarrow> fst (nlp_gains dfw hnl) \<le> h ! i \<and> h ! i \<le> 0 \<and>
      (fst (nlp_gains dfw hnl) = - 1 \<and> \<bar>fst (dfw ! i)\<bar> < 8192 \<and> \<bar>snd (dfw ! i)\<bar> < 8192 \<longrightarrow> efw ! i = (0, 0))"
proof -
  define g t where "g = fst (nlp_gains dfw hnl)" and "t = snd (nlp_gains dfw hnl)"
  have gt: "g \<le> 16384" "in_q14 t" "in_i16 g" using nlp_gains_range [of dfw hnl] nlp_gain_16 by (simp_all add: g_def t_def)
  have hi: "in_q14 (hnl ! i)" using assms(2,3,5) by (simp add: list_all_length)
  have h: "h ! i = (if nlpFlag aecm \<noteq> 0 then nlp_band g t i (hnl ! i) else hnl ! i)"
    using assms(4,5) by (auto simp: filter_spectrum_def Let_def split_def g_def t_def)
  have e: "efw ! i = (apply_gain (fst (dfw ! i)) (h ! i), apply_gain (snd (dfw ! i)) (h ! i))"
    using assms(4,5) by (auto simp: filter_spectrum_def Let_def split_def)
  have x: "in_i16 (fst (dfw ! i))" "in_i16 (snd (dfw ! i))"
    using assms(1,5) by (auto simp: bins_ok_def list_all_length split_def)
  have q: "in_q14 (h ! i)" if "i \<le> 15 \<or> nlpFlag aecm = 0 \<or> 0 \<le> g"
    using that h hi gt nlp_band_low [OF hi gt(2)] nlp_band_range [OF hi _ gt(2), of g i] by (auto simp: in_q14_def)
  then show "i \<le> 15 \<or> nlpFlag aecm = 0 \<or> 0 \<le> fst (nlp_gains dfw hnl) \<longrightarrow>
      in_q14 (h ! i) \<and> shrinks (fst (efw ! i)) (fst (dfw ! i)) \<and> shrinks (snd (efw ! i)) (snd (dfw ! i))"
    using e x unfolding g_def by (simp add: apply_gain_shrinks)
  have "g \<le> h ! i \<and> h ! i \<le> 0" if "15 < i" "nlpFlag aecm \<noteq> 0" "g < 0"
    using nlp_band_negative [OF hi gt(3) that(3,1)] h that by simp
  moreover from this have "efw ! i = (0, 0)" if "15 < i" "nlpFlag aecm \<noteq> 0" "g = - 1" "\<bar>fst (dfw ! i)\<bar> < 8192" "\<bar>snd (dfw ! i)\<bar> < 8192"
    using that apply_gain_muted [of _ "h ! i"] e by force
  ultimately show "15 < i \<and> nlpFlag aecm \<noteq> 0 \<and> fst (nlp_gains dfw hnl) < 0 \<longrightarrow> fst (nlp_gains dfw hnl) \<le> h ! i \<and> h ! i \<le> 0 \<and>
      (fst (nlp_gains dfw hnl) = - 1 \<and> \<bar>fst (dfw ! i)\<bar> < 8192 \<and> \<bar>snd (dfw ! i)\<bar> < 8192 \<longrightarrow> efw ! i = (0, 0))"
    unfolding g_def by blast
qed

text \<open>
  On digital silence the energy before the filter is 0, the division by it gives the
  largest value, and its quarter wraps to -1.
\<close>

lemma nlp_gain_silence: "nlp_gains (replicate PART_LEN1 (0, 0)) hnl = (- 1, 16384)"
proof -
  have z: "apply_gain 0 x = 0" for x
    by (simp add: apply_gain_def WEBRTC_SPL_MUL_16_16_RSFT_WITH_ROUND_def WEBRTC_SPL_MUL_16_16_def i16_def i32_def shl32_def shr_def)
  have e: "nlp_energies (replicate PART_LEN1 (0, 0)) hnl m n = (0, 0)" if "n \<le> PART_LEN1" for m n
  proof -
    have "square_16 0 = 0" "u32 0 = 0" by (simp_all add: square_16_def WEBRTC_SPL_MUL_16_U16_def i16_def i32_def u32_def u16_def shr_def)
    then have "nlp_energy_step (replicate PART_LEN1 (0, 0)) hnl i (0, 0) = (0, 0)" if "i < PART_LEN1" for i
      using that by (simp add: nlp_energy_step_def z)
    then have "fold (nlp_energy_step (replicate PART_LEN1 (0, 0)) hnl) js (0, 0) = (0, 0)" if "\<forall>i\<in>set js. i < PART_LEN1" for js
      using that by (induction js) simp_all
    from this [of "[m..<n]"] that show ?thesis by (simp add: nlp_energies_def)
  qed
  show ?thesis
    using e [of PART_LEN1 5] e [of 15 1]
    by (simp add: nlp_gains_def WebRtcSpl_DivU32U16_def u16_def shr_def i16_def ONE_Q14_eq aecm_sizes)
qed

text \<open>
  The squares of negative bins are taken with an unsigned factor and are far too large: the sums wrap, and the gain can take large
  negative values.
\<close>

lemma nlp_gain_wraps:
  "fst (nlp_gains (replicate 129 (- 3000, - 40) @ replicate 128 (- 1, 100)) (replicate 257 8000)) = - 30444"
  by code_simp

lemma wiener_filter_uniform:
  assumes "zero_core\<lparr>nlpFlag := 1\<rparr> = c" "wiener_band e z gain d 0 0 (0, 0) = (x, y, h)"
  shows "wiener_filter c (replicate PART_LEN1 e) z gain (replicate PART_LEN1 d) =
     (c\<lparr>echoFilt := replicate PART_LEN1 x, nearFilt := replicate PART_LEN1 y\<rparr>, replicate PART_LEN1 h)"
proof -
  have "map (\<lambda>i. wiener_band (replicate PART_LEN1 e ! i) z gain (replicate PART_LEN1 d ! i) 0 0
      (replicate PART_LEN1 0 ! i, replicate PART_LEN1 0 ! i)) [0..<PART_LEN1] = map (\<lambda>i. (x, y, h)) [0..<PART_LEN1]"
    by (rule map_cong) (simp_all add: assms(2))
  then show ?thesis unfolding assms(1) [symmetric] by (simp add: wiener_filter_def Let_def zero_core_def map_replicate_const)
qed

section \<open>Comfort noise\<close>

text \<open>The estimate of a band and its counters.\<close>

definition noise_ok :: "int \<times> int \<times> int \<Rightarrow> bool" where
  "noise_ok = (\<lambda>(noise, low, high). 0 \<le> noise \<and> noise \<le> 1073741823 \<and> 0 \<le> low \<and> low \<le> 4 \<and> 0 \<le> high \<and> high \<le> 4)"

lemma track_noise_ok:
  assumes "noise_ok (n, l, h)" "0 \<le> x" "x \<le> 2147483647" "track_noise m x (n, l, h) = (n', l', h')"
  shows "0 \<le> n' \<and> n' \<le> 1074790399 \<and> 0 \<le> l' \<and> l' \<le> 4 \<and> 0 \<le> h' \<and> h' \<le> 4"
proof -
  have n: "0 \<le> n" "n \<le> 1073741823" "0 \<le> l" "l \<le> 4" "0 \<le> h" "h \<le> 4" using assms(1) by (simp_all add: noise_ok_def)
  have ctr: "i32 (h + 1) = h + 1" "i32 (l + 1) = l + 1" using n by (auto intro!: i32_id simp: in_i32_def)
  have down: "i32 (n - shr (i32 (n - x)) m) = n - shr (n - x) m \<and> 0 \<le> shr (n - x) m \<and> shr (n - x) m \<le> n - x" if "x < n"
  proof -
    have "i32 (n - x) = n - x" using that n assms(2) by (intro i32_id) (simp add: in_i32_def)
    moreover have "0 \<le> shr (n - x) m" "shr (n - x) m \<le> n - x" using that by (simp_all add: shr_nonneg shr_le)
    moreover have "i32 (n - shr (n - x) m) = n - shr (n - x) m"
      using calculation(2,3) n assms(2) by (intro i32_id) (simp add: in_i32_def)
    ultimately show ?thesis by simp
  qed
  have one: "i32 (n - 1) = n - 1" using n by (intro i32_id) (simp add: in_i32_def)
  have e: "0 \<le> shr n 11" "shr n 11 \<le> 524287" using n zdiv_mono1 [of n 1073741823 2048] by (simp_all add: shr_def pos_imp_zdiv_nonneg_iff)
  then have up1: "i32 (shr n 11 * 2049) = shr n 11 * 2049" by (intro i32_id) (simp add: in_i32_def)
  have up2: "i32 (n * 2049) = n * 2049 \<and> 0 \<le> shr (n * 2049) 11 \<and> shr (n * 2049) 11 \<le> n * 2049 \<and> n * 2049 \<le> 1074266112" if "\<not> shr n 19 > 0"
  proof -
    have "n < 524288" using that div_less_mult [of 524288 n 1] pos_imp_zdiv_pos_iff [of 524288 n] by (simp add: shr_def not_less)
    then show ?thesis using n by (simp add: i32_id in_i32_def shr_nonneg shr_le)
  qed
  have "0 \<le> shr n 9" "shr n 9 \<le> n" using n by (simp_all add: shr_nonneg shr_le)
  moreover have "n < 2048" if "\<not> shr n 11 > 0" using that pos_imp_zdiv_pos_iff [of 2048 n] by (simp add: shr_def not_less)
  ultimately have up3: "i32 (n + (shr n 9 + 1)) = n + (shr n 9 + 1) \<and> 0 \<le> n + (shr n 9 + 1) \<and> n + (shr n 9 + 1) \<le> 4096" if "\<not> shr n 11 > 0"
    using that n by (auto intro!: i32_id simp: in_i32_def)
  show ?thesis
    using assms(2,4) n ctr down one e up1 up2 up3
    unfolding track_noise_def prod.case Let_def kNoiseEstIncCount_def by (auto split: if_splits)
qed

lemma noise_level_ok:
  assumes "0 \<le> n" "n \<le> 1074790399" "0 \<le> s" "s \<le> 15" "in_q14 lam" "noise_level s lam n = (n', v)"
  shows "0 \<le> n' \<and> n' \<le> 1073741823 \<and> v = ((16384 - lam) * shr n' s) div 16384 \<and> 0 \<le> v \<and> v \<le> shr n' s \<and> shr n' s \<le> 32767"
proof -
  have p: "(1::int) \<le> 2 ^ nat s" "(2::int) ^ nat s \<le> 2 ^ 15" using assms(3,4) by (simp, intro power_increasing, simp_all)
  define t where "t = (if shr n s > 32767 then 32767 else shr n s)"
  have t: "0 \<le> t" "t \<le> 32767" using shr_nonneg [OF assms(1), of s] by (auto simp: t_def)
  have "0 \<le> 32767 * (2::int) ^ nat s" "32767 * (2::int) ^ nat s \<le> 1073709056" using p by simp_all
  then have sh: "shl32 32767 s = 32767 * 2 ^ nat s"
    unfolding shl32_def by (intro i32_id_nonneg) linarith+
  have n': "n' = (if shr n s > 32767 then 32767 * 2 ^ nat s else n)" and v: "v = i16 (shr (i32 (i16 (16384 - lam) * i16 t)) 14)"
    using assms(6) by (auto simp: noise_level_def Let_def sh t_def ONE_Q14_eq split: if_splits)
  have nt: "shr n' s = t" by (simp add: n' t_def shr_def)
  have "n < 32768 * 2 ^ nat s" if "\<not> shr n s > 32767"
  proof (rule ccontr)
    assume "\<not> n < 32768 * 2 ^ nat s"
    then have "(32768 * 2 ^ nat s) div 2 ^ nat s \<le> n div 2 ^ nat s" by (intro zdiv_mono1) simp_all
    then show False using that by (simp add: shr_def)
  qed
  then have b: "0 \<le> n' \<and> n' \<le> 1073741823" using p assms(1) by (auto simp: n')
  have q: "in_q14 (16384 - lam)" "i16 (16384 - lam) = 16384 - lam" "i16 t = t"
    using assms(5) t by (simp_all add: in_q14_def i16_id in_i16_def)
  have m: "0 \<le> (16384 - lam) * t" "(16384 - lam) * t \<le> 16384 * t"
    using q(1) t by (auto simp: in_q14_def intro!: mult_right_mono)
  then have "i32 ((16384 - lam) * t) = (16384 - lam) * t" using t by (intro i32_id) (simp add: in_i32_def)
  moreover have d: "0 \<le> (16384 - lam) * t div 16384" "(16384 - lam) * t div 16384 \<le> t"
    using m zdiv_mono1 [OF m(2), of 16384] by (simp_all add: pos_imp_zdiv_nonneg_iff)
  ultimately have "v = (16384 - lam) * t div 16384" using t by (simp add: v q shr_def i16_id in_i16_def)
  then show ?thesis using b d t nt by simp
qed


lemma table_bounds: "length WebRtcAecm_kCosTable = 360" "length WebRtcAecm_kSinTable = 360"
    "list_all (\<lambda>c. - 8192 \<le> c \<and> c \<le> 8192) WebRtcAecm_kCosTable" "list_all (\<lambda>c. - 8192 \<le> c \<and> c \<le> 8192) WebRtcAecm_kSinTable"
  by (simp_all add: WebRtcAecm_kCosTable_def WebRtcAecm_kSinTable_def)

lemma noise_index_range: "0 \<le> r \<Longrightarrow> r \<le> 32767 \<Longrightarrow> 0 \<le> noise_index r \<and> noise_index r \<le> 358"
proof -
  assume r: "0 \<le> r" "r \<le> 32767"
  have "i32 (359 * r) = 359 * r" using r by (intro i32_id) (simp add: in_i32_def)
  moreover have "0 \<le> 359 * r div 32768" "359 * r div 32768 \<le> 358"
    using r zdiv_mono1 [of "359 * r" "359 * 32767" 32768] by (simp_all add: pos_imp_zdiv_nonneg_iff)
  ultimately show ?thesis by (simp add: noise_index_def shr_def i16_id in_i16_def)
qed

lemma scaled_by_table:
  assumes "0 \<le> v" "v \<le> 32767" "- 8192 \<le> c" "c \<le> 8192"
  shows "\<bar>i16 (shr (i32 (v * c)) 13)\<bar> \<le> v"
proof -
  have b: "v * - 8192 \<le> v * c" "v * c \<le> v * 8192" using assms mult_left_mono [of "- 8192" c v] mult_left_mono [of c 8192 v] by simp_all
  then have "i32 (v * c) = v * c" using assms by (intro i32_id) (simp add: in_i32_def)
  moreover have "- v \<le> v * c div 8192" "v * c div 8192 \<le> v"
    using zdiv_mono1 [OF b(1), of 8192] zdiv_mono1 [OF b(2), of 8192] by (simp_all add: zdiv_zminus1_eq_if)
  ultimately show ?thesis using assms by (simp add: shr_def i16_id in_i16_def abs_le_iff)
qed

lemma noise_sample_bound:
  assumes "0 \<le> v" "v \<le> 32767" "0 \<le> r" "r \<le> 32767"
  shows "\<bar>fst (noise_sample v r)\<bar> \<le> v \<and> \<bar>snd (noise_sample v r)\<bar> \<le> v"
proof -
  have "nat (noise_index r) < 360" using noise_index_range [OF assms(3,4)] by linarith
  then have c: "- 8192 \<le> WebRtcAecm_kCosTable ! nat (noise_index r) \<and> WebRtcAecm_kCosTable ! nat (noise_index r) \<le> 8192"
      "- 8192 \<le> WebRtcAecm_kSinTable ! nat (noise_index r) \<and> WebRtcAecm_kSinTable ! nat (noise_index r) \<le> 8192"
    using table_bounds by (simp_all add: list_all_length)
  then show ?thesis
    using scaled_by_table [OF assms(1,2), of "WebRtcAecm_kCosTable ! nat (noise_index r)"]
      scaled_by_table [OF assms(1,2), of "- WebRtcAecm_kSinTable ! nat (noise_index r)"]
    by (simp add: noise_sample_def Let_def)
qed

lemma RandU_range: "0 \<le> snd (WebRtcSpl_RandU sd) \<and> snd (WebRtcSpl_RandU sd) \<le> 32767"
proof -
  have s: "0 \<le> IncreaseSeed sd" "IncreaseSeed sd < 2147483648" by (simp_all add: IncreaseSeed_eq)
  then have "IncreaseSeed sd div 65536 < 32768" "0 \<le> IncreaseSeed sd div 65536"
    by (auto intro: div_less_mult simp: pos_imp_zdiv_nonneg_iff)
  then show ?thesis by (simp add: WebRtcSpl_RandU_def Let_def shr_def i16_id in_i16_def)
qed

lemma rand_u_array_range:
  "length (snd (rand_u_array n sd)) = n \<and> list_all (\<lambda>r. 0 \<le> r \<and> r \<le> 32767) (snd (rand_u_array n sd))"
  using RandU_range by (induction n arbitrary: sd) (simp_all add: Let_def split_def)


definition comfort_ok :: "AecmCore \<Rightarrow> bool" where
  "comfort_ok aecm \<longleftrightarrow> length (noiseEst aecm) = PART_LEN1 \<and> length (noiseEstTooLowCtr aecm) = PART_LEN1 \<and>
     length (noiseEstTooHighCtr aecm) = PART_LEN1 \<and>
     (\<forall>i<PART_LEN1. noise_ok (noiseEst aecm ! i, noiseEstTooLowCtr aecm ! i, noiseEstTooHighCtr aecm ! i))"

lemma shift_magnitude:
  assumes "in_u16 x" "0 \<le> s" "s \<le> 15"
  shows "0 \<le> shl32 x s \<and> shl32 x s \<le> 2147483647"
proof -
  have "(2::int) ^ nat s \<le> 2 ^ 15" using assms(2,3) by (intro power_increasing) simp_all
  then have "x * 2 ^ nat s \<le> 65535 * 2 ^ 15" using assms(1) by (intro mult_mono) (simp_all add: in_u16_def)
  moreover have "0 \<le> x * 2 ^ nat s" using assms(1) by (simp add: in_u16_def)
  ultimately show ?thesis unfolding shl32_def by (subst (1 2) i32_id_nonneg) simp_all
qed

lemma ComfortNoise_ok:
  assumes "comfort_ok aecm" "0 \<le> dfaCleanQDomain aecm" "dfaCleanQDomain aecm \<le> 15" "magnitudes dfa"
    and "length lam = PART_LEN1" "list_all in_q14 lam" "ComfortNoise aecm dfa out lam = (a, res)"
  defines "v \<equiv> (\<lambda>i. ((16384 - lam ! i) * shr (noiseEst a ! i) (15 - dfaCleanQDomain aecm)) div 16384)"
  shows "comfort_ok a \<and> length res = PART_LEN1 \<and>
    (\<exists>u. u ! 0 = (0, 0) \<and> (\<forall>i<PART_LEN1. \<bar>fst (u ! i)\<bar> \<le> v i \<and> \<bar>snd (u ! i)\<bar> \<le> v i \<and>
       res ! i = (WebRtcSpl_AddSatW16 (fst (out ! i)) (fst (u ! i)), WebRtcSpl_AddSatW16 (snd (out ! i)) (snd (u ! i)))))"
proof -
  let ?s = "15 - dfaCleanQDomain aecm"
  have s: "i16 (kNoiseEstQDomain - dfaCleanQDomain aecm) = ?s" "0 \<le> ?s" "?s \<le> 15"
    using assms(2,3) by (simp_all add: kNoiseEstQDomain_def i16_id in_i16_def)
  define p where "p = (if noiseEstCtr aecm < 100 then (aecm\<lparr>noiseEstCtr := i16 (noiseEstCtr aecm + 1)\<rparr>, 6 :: int) else (aecm, 9))"
  obtain b m where p: "p = (b, m)" by (metis surj_pair)
  have b: "noiseEst b = noiseEst aecm" "noiseEstTooLowCtr b = noiseEstTooLowCtr aecm" "noiseEstTooHighCtr b = noiseEstTooHighCtr aecm"
    using p by (auto simp: p_def split: if_splits)
  define tr where "tr = (\<lambda>i. track_noise m (shl32 (dfa ! i) ?s) (noiseEst b ! i, noiseEstTooLowCtr b ! i, noiseEstTooHighCtr b ! i))"
  define lv where "lv = (\<lambda>i. noise_level ?s (lam ! i) (fst (tr i)))"
  obtain sd rw z where rr: "WebRtcSpl_RandUArray (replicate PART_LEN 0) (int PART_LEN) (seed b) = (sd, rw, z)" by (metis surj_pair)
  have rw: "length rw = PART_LEN" "\<And>i. i < PART_LEN \<Longrightarrow> 0 \<le> rw ! i \<and> rw ! i \<le> 32767"
    using rr rand_u_array_range [of PART_LEN "seed b"] by (auto simp: WebRtcSpl_RandUArray_def Let_def split_def mem_copy_def list_all_length)
  define u0 where "u0 = (0, 0) # map (\<lambda>i. noise_sample (snd (lv i)) (rw ! (i - 1))) [1..<PART_LEN1]"
  define u where "u = u0[PART_LEN := (fst (u0 ! PART_LEN), 0)]"
  have levels: "map (\<lambda>i. noise_level ?s (lam ! i) (fst (map tr [0..<PART_LEN1] ! i))) [0..<PART_LEN1] = map lv [0..<PART_LEN1]"
    by (auto simp: lv_def)
  have samples: "map (\<lambda>i. noise_sample (snd (map lv [0..<PART_LEN1] ! i)) (rw ! (i - 1))) [1..<PART_LEN1] =
      map (\<lambda>i. noise_sample (snd (lv i)) (rw ! (i - 1))) [1..<PART_LEN1]" by auto
  have "(a, res) = (b\<lparr>noiseEst := map fst (map lv [0..<PART_LEN1]), noiseEstTooLowCtr := map (fst \<circ> snd) (map tr [0..<PART_LEN1]),
      noiseEstTooHighCtr := map (snd \<circ> snd) (map tr [0..<PART_LEN1]), seed := sd\<rparr>,
      map (\<lambda>i. (WebRtcSpl_AddSatW16 (fst (out ! i)) (fst (u ! i)), WebRtcSpl_AddSatW16 (snd (out ! i)) (snd (u ! i)))) [0..<PART_LEN1])"
    unfolding assms(7) [symmetric] ComfortNoise_def s(1) Let_def p_def [symmetric] p prod.case tr_def [symmetric] levels rr samples
      u0_def [symmetric] u_def [symmetric] by (rule refl)
  then have a: "a = b\<lparr>noiseEst := map fst (map lv [0..<PART_LEN1]), noiseEstTooLowCtr := map (fst \<circ> snd) (map tr [0..<PART_LEN1]),
      noiseEstTooHighCtr := map (snd \<circ> snd) (map tr [0..<PART_LEN1]), seed := sd\<rparr>"
    and res: "res = map (\<lambda>i. (WebRtcSpl_AddSatW16 (fst (out ! i)) (fst (u ! i)), WebRtcSpl_AddSatW16 (snd (out ! i)) (snd (u ! i)))) [0..<PART_LEN1]"
    by simp_all
  have band: "noise_ok (fst (lv i), fst (snd (tr i)), snd (snd (tr i))) \<and> snd (lv i) = v i \<and> 0 \<le> v i \<and> v i \<le> 32767" if i: "i < PART_LEN1" for i
  proof -
    obtain n l h where t: "tr i = (n, l, h)" by (metis surj_pair)
    have "0 \<le> shl32 (dfa ! i) ?s \<and> shl32 (dfa ! i) ?s \<le> 2147483647"
      using shift_magnitude [of "dfa ! i" ?s] s(2,3) assms(4) i by (simp add: magnitudes_def list_all_length)
    then have n: "0 \<le> n \<and> n \<le> 1074790399 \<and> 0 \<le> l \<and> l \<le> 4 \<and> 0 \<le> h \<and> h \<le> 4"
      using assms(1) i t by (intro track_noise_ok [where m = m]) (auto simp: comfort_ok_def tr_def b)
    obtain n2 w where lw: "lv i = (n2, w)" by (metis surj_pair)
    have q: "in_q14 (lam ! i)" using assms(5,6) i by (simp add: list_all_length)
    have "noise_level ?s (lam ! i) n = (n2, w)" using lw t by (simp add: lv_def)
    note nl = noise_level_ok [OF _ _ s(2,3) q this]
    have "noiseEst a ! i = n2" using i lw by (simp add: a)
    then show ?thesis using nl n t lw by (simp add: noise_ok_def v_def)
  qed
  have "comfort_ok a" using band by (simp add: comfort_ok_def a)
  moreover have "u ! 0 = (0, 0)" by (simp add: u_def u0_def aecm_sizes)
  moreover have "\<bar>fst (u ! i)\<bar> \<le> v i \<and> \<bar>snd (u ! i)\<bar> \<le> v i" if i: "i < PART_LEN1" for i
  proof (cases "i = 0")
    case True
    then show ?thesis using band [OF i] \<open>u ! 0 = (0, 0)\<close> by simp
  next
    case False
    then have "[1..<PART_LEN1] ! (i - 1) = i" using i by simp
    then have u0: "u0 ! i = noise_sample (v i) (rw ! (i - 1))" using False i band [OF i] by (simp add: u0_def nth_Cons')
    have "i - 1 < PART_LEN" using i False by (simp add: PART_LEN1_def)
    then have "\<bar>fst (u0 ! i)\<bar> \<le> v i \<and> \<bar>snd (u0 ! i)\<bar> \<le> v i"
      unfolding u0 using band [OF i] rw(2) by (intro noise_sample_bound) simp_all
    moreover have "length u0 = PART_LEN1" by (simp add: u0_def PART_LEN1_def)
    then have "u ! i = (if i = PART_LEN then (fst (u0 ! i), 0) else u0 ! i)" using i by (simp add: u_def nth_list_update)
    ultimately show ?thesis using band [OF i] by auto
  qed
  ultimately show ?thesis by (auto simp: res)
qed


section \<open>Properties\<close>

text \<open>C9: The spectrum of a block. For any 16-bit samples, \<open>TimeToFrequencyDomain\<close> gives a scaling between 0 and 15, 257
  bins in 16 bits, the magnitude of every bin exactly as the integer square root of the sum of the squares
  (also for -32768, where the sum saturates), and the exact sum of the magnitudes.\<close>

theorem block_spectrum:
  assumes "real_fft aecm = Some \<lparr>order = PART_LEN_SHIFT\<rparr>" "length freq = PART_LEN1" "list_all in_i16 xs"
  shows "case TimeToFrequencyDomain aecm xs freq of (z, c, mags, tot) \<Rightarrow>
    0 \<le> z \<and> z \<le> 15 \<and> length c = PART_LEN1 \<and> list_all (\<lambda>(re, im). in_i16 re \<and> in_i16 im) c \<and> length mags = PART_LEN1 \<and>
    (\<forall>i<PART_LEN1. 0 \<le> mags ! i \<and> mags ! i * mags ! i \<le> fst (c ! i) * fst (c ! i) + snd (c ! i) * snd (c ! i) \<and>
       fst (c ! i) * fst (c ! i) + snd (c ! i) * snd (c ! i) < (mags ! i + 1) * (mags ! i + 1)) \<and>
    tot = sum_list mags"
proof -
  obtain z c mags tot where e: "TimeToFrequencyDomain aecm xs freq = (z, c, mags, tot)" by (metis surj_pair)
  show ?thesis using TimeToFrequencyDomain_ok [OF assms e] by (simp add: e bins_ok_def is_magnitude_def)
qed

theorem block_spectrum_witness:
  "case TimeToFrequencyDomain (zero_core\<lparr>real_fft := Some \<lparr>order = 9\<rparr>\<rparr>) (replicate 512 (- 32768)) (replicate 257 (0, 0)) of
     (z, c, mags, tot) \<Rightarrow> 0 \<le> z \<and> z \<le> 15 \<and> length c = 257 \<and> tot = sum_list mags"
  using block_spectrum [of "zero_core\<lparr>real_fft := Some \<lparr>order = 9\<rparr>\<rparr>" "replicate 257 (0, 0)" "replicate 512 (- 32768)"]
  by (auto simp: PART_LEN_SHIFT_def aecm_sizes list_all_iff in_i16_def split: prod.splits)

text \<open>C7: Suppression attenuates. Whatever the echo estimate, the gain and the state, the coefficients of the
  Wiener filter, also after the limit on the upper bands, are between 0 and 1 in Q14. In the bands up to 15, in every band when the
  non-linear processing is off, and in every band when it is on and its gain is not negative, so are the final coefficients, and the
  real and imaginary part of the bin lie between 0 and those of the near-end spectrum. The gain of the non-linear processing can be
  negative, because the energies it is computed from wrap (\<open>nlp_gain_silence\<close>, \<open>nlp_gain_wraps\<close>): then the coefficients of the
  bands from 16 on are between that gain and 0, and for the gain -1 of a silent near end the bins with parts below 8192 in magnitude
  are cleared.\<close>

theorem suppression_attenuates:
  assumes "bins_ok dfw" "wiener_filter aecm est z gain dfa = (a, w)" "hnl = limit_upper_bands a w"
    and "filter_spectrum a dfw hnl = (h, efw)" "i < PART_LEN1"
  shows "in_q14 (w ! i) \<and> in_q14 (hnl ! i) \<and>
    (i \<le> 15 \<or> nlpFlag a = 0 \<or> 0 \<le> fst (nlp_gains dfw hnl) \<longrightarrow>
       in_q14 (h ! i) \<and> shrinks (fst (efw ! i)) (fst (dfw ! i)) \<and> shrinks (snd (efw ! i)) (snd (dfw ! i))) \<and>
    (15 < i \<and> nlpFlag a \<noteq> 0 \<and> fst (nlp_gains dfw hnl) < 0 \<longrightarrow>
       fst (nlp_gains dfw hnl) \<le> h ! i \<and> h ! i \<le> 0 \<and>
       (fst (nlp_gains dfw hnl) = - 1 \<and> \<bar>fst (dfw ! i)\<bar> < 8192 \<and> \<bar>snd (dfw ! i)\<bar> < 8192 \<longrightarrow> efw ! i = (0, 0)))"
proof -
  have w: "length w = PART_LEN1" "list_all in_q14 w" using wiener_filter_range [of aecm est z gain dfa] assms(2) by simp_all
  have l: "length hnl = PART_LEN1" "list_all in_q14 hnl" using limit_upper_bands_range [OF w, of a] assms(3) by simp_all
  show ?thesis using filter_spectrum_bands [OF assms(1) l assms(4,5)] w l assms(5) by (simp add: list_all_length)
qed

theorem suppression_attenuates_witness:
  "\<exists>a w h efw. wiener_filter (zero_core\<lparr>nlpFlag := 1\<rparr>) (replicate 257 70000) 3 256 (replicate 257 100) = (a, w) \<and>
     nlpFlag a = 1 \<and> filter_spectrum a (replicate 257 (3000, 4000)) (limit_upper_bands a w) = (h, efw) \<and>
     in_q14 (h ! 20) \<and> shrinks (fst (efw ! 20)) 3000 \<and> shrinks (snd (efw ! 20)) 4000"
proof -
  have b: "wiener_band 70000 3 256 100 0 0 (0, 0) = (1708, 6, 15246)" by code_simp
  define a where "a = zero_core\<lparr>nlpFlag := 1, echoFilt := replicate 257 1708, nearFilt := replicate 257 6\<rparr>"
  have w: "wiener_filter (zero_core\<lparr>nlpFlag := 1\<rparr>) (replicate 257 70000) 3 256 (replicate 257 100) = (a, replicate 257 15246)"
    using wiener_filter_uniform [OF refl b] by (simp add: aecm_sizes a_def)
  have a: "limit_upper_bands a (replicate 257 15246) = replicate 257 15246" "nlpFlag a = 1"
    by (simp_all add: a_def limit_upper_bands_def zero_core_def)
  obtain h efw where f: "filter_spectrum a (replicate 257 (3000, 4000)) (replicate 257 15246) = (h, efw)" by (metis surj_pair)
  have g: "0 \<le> fst (nlp_gains (replicate 257 (3000, 4000)) (replicate 257 15246))" by code_simp
  have "bins_ok (replicate 257 (3000, 4000))" by (simp add: bins_ok_def list_all_iff in_i16_def aecm_sizes)
  from suppression_attenuates [OF this w a(1) [symmetric] f, of 20] g
  have "in_q14 (h ! 20) \<and> shrinks (fst (efw ! 20)) 3000 \<and> shrinks (snd (efw ! 20)) 4000" by (simp add: aecm_sizes)
  then show ?thesis using w a f by auto
qed

text \<open>C10: Comfort noise. The noise estimate of every band stays in range (no 32-bit step of the tracking overflows and the counters stay below
  5), and what is added to a bin is at most the suppressed share of the tracked noise in that band, at random phase:
  nothing at all where the coefficient is 1, and nothing to the zero-frequency bin.\<close>

theorem comfort_noise:
  assumes "comfort_ok aecm" "0 \<le> dfaCleanQDomain aecm" "dfaCleanQDomain aecm \<le> 15" "magnitudes dfa"
    and "length lam = PART_LEN1" "list_all in_q14 lam"
  shows "case ComfortNoise aecm dfa out lam of (a, res) \<Rightarrow> comfort_ok a \<and> length res = PART_LEN1 \<and>
    (\<exists>u. u ! 0 = (0, 0) \<and> (\<forall>i<PART_LEN1.
       \<bar>fst (u ! i)\<bar> \<le> ((16384 - lam ! i) * shr (noiseEst a ! i) (15 - dfaCleanQDomain aecm)) div 16384 \<and>
       \<bar>snd (u ! i)\<bar> \<le> ((16384 - lam ! i) * shr (noiseEst a ! i) (15 - dfaCleanQDomain aecm)) div 16384 \<and>
       res ! i = (WebRtcSpl_AddSatW16 (fst (out ! i)) (fst (u ! i)), WebRtcSpl_AddSatW16 (snd (out ! i)) (snd (u ! i)))))"
proof -
  obtain a res where e: "ComfortNoise aecm dfa out lam = (a, res)" by (metis surj_pair)
  show ?thesis using ComfortNoise_ok [OF assms e] by (simp add: e)
qed

theorem comfort_noise_witness:
  "case ComfortNoise zero_core (replicate 257 100) (replicate 257 (5, 6)) (replicate 257 16384) of (a, res) \<Rightarrow>
     comfort_ok a \<and> res ! 7 = (5, 6)"
proof -
  have "comfort_ok zero_core" by (simp add: comfort_ok_def noise_ok_def zero_core_def)
  moreover have "0 \<le> dfaCleanQDomain zero_core" "dfaCleanQDomain zero_core \<le> 15" by (simp_all add: zero_core_def)
  moreover have "magnitudes (replicate 257 100)" by (simp add: magnitudes_def in_u16_def list_all_iff aecm_sizes)
  moreover have "length (replicate 257 (16384 :: int)) = PART_LEN1" "list_all in_q14 (replicate 257 16384)"
    by (simp_all add: aecm_sizes list_all_iff in_q14_def)
  ultimately have c: "case ComfortNoise zero_core (replicate 257 100) (replicate 257 (5, 6)) (replicate 257 16384) of (a, res) \<Rightarrow>
      comfort_ok a \<and> (\<exists>u. (\<forall>i<257. \<bar>fst (u ! i)\<bar> \<le> 0 \<and> \<bar>snd (u ! i)\<bar> \<le> 0 \<and>
        res ! i = (WebRtcSpl_AddSatW16 5 (fst (u ! i)), WebRtcSpl_AddSatW16 6 (snd (u ! i)))))"
    using comfort_noise [of zero_core "replicate 257 100" "replicate 257 16384" "replicate 257 (5, 6)"]
    by (auto simp: aecm_sizes split: prod.splits)
  obtain a res where e: "ComfortNoise zero_core (replicate 257 100) (replicate 257 (5, 6)) (replicate 257 16384) = (a, res)" by (metis surj_pair)
  then obtain u where u: "comfort_ok a" "\<forall>i<257. \<bar>fst (u ! i)\<bar> \<le> (0 :: int) \<and> \<bar>snd (u ! i)\<bar> \<le> (0 :: int) \<and>
        res ! i = (WebRtcSpl_AddSatW16 5 (fst (u ! i)), WebRtcSpl_AddSatW16 6 (snd (u ! i)))"
    using c by auto
  from u(2) [rule_format, of 7] have "res ! 7 = (WebRtcSpl_AddSatW16 5 0, WebRtcSpl_AddSatW16 6 0)" by simp
  then show ?thesis using e u(1) by (simp add: WebRtcSpl_AddSatW16_def WebRtcSpl_SatW32ToW16_def i32_def i16_def)
qed

end
