(* ===== verification/Aecm_Float.thy ===== *)
theory Aecm_Float
  imports Aecm_Block
begin

unbundle bit_operations_syntax

text \<open>
  The floating-point half of \<open>src/webrtc/modules/audio_processing/aecm/aecm_core_c.c\<close>
  (\<open>FLOATPRO\<close>): the power spectra, the noise tracking, the linear echo estimate, the
  suppression and \<open>WebRtcAecm_ProcessBlockwithFloat\<close>. Every \<open>float\<close> operation is
  rounded to binary32 in the order C evaluates it; the constants without suffix make the
  operations around them \<open>double\<close>.
\<close>

section \<open>Spectra\<close>

definition int_normalize :: "int \<Rightarrow> rat" where
  "int_normalize zeros = (if zeros > 0 then f32 (1 / f32 (of_int (shl32 1 zeros))) else f32 (of_int (shl32 1 (- zeros))))"

text \<open>The \<open>2 * PART_LEN\<close> values written to \<open>fp\<close>.\<close>

definition CopyFixFFT2Float :: "ComplexInt16 list \<Rightarrow> int \<Rightarrow> rat list" where
  "CopyFixFFT2Float freq_signal zeros =
     (let normalize = int_normalize zeros
      in concat (map (\<lambda>i. [f32 (f32 (of_int (fst (freq_signal ! i))) * normalize),
                           f32 (f32 (of_int (snd (freq_signal ! i))) * normalize)]) [0..<PART_LEN]))"

definition mul32 :: "rat \<Rightarrow> rat \<Rightarrow> rat" where
  "mul32 a b = f32 (a * b)"

definition add32 :: "rat \<Rightarrow> rat \<Rightarrow> rat" where
  "add32 a b = f32 (a + b)"

definition sub32 :: "rat \<Rightarrow> rat \<Rightarrow> rat" where
  "sub32 a b = f32 (a - b)"

definition div32 :: "rat \<Rightarrow> rat \<Rightarrow> rat" where
  "div32 a b = f32 (a / b)"

text \<open>The smoothed power of one bin from the powers \<open>t\<close> of the block.\<close>

definition power_window :: "(nat \<Rightarrow> rat) \<Rightarrow> nat \<Rightarrow> rat" where
  "power_window t i =
     (if i = 0 then add32 (mul32 (t 0) (f32 (9 / 10))) (mul32 (t 1) (f32 (1 / 10)))
      else if i < 48
      then add32 (add32 (mul32 (t (i - 1)) (f32 (1 / 10))) (mul32 (t i) (f32 (8 / 10)))) (mul32 (t (i + 1)) (f32 (1 / 10)))
      else if i < PART_LEN - 2
      then add32 (add32 (add32 (add32 (mul32 (t (i - 1)) (f32 (1 / 10))) (mul32 (t i) (f32 (7 / 10))))
               (mul32 (t (i + 1)) (f32 (1 / 10)))) (mul32 (t (i + 2)) (f32 (5 / 100)))) (mul32 (t (i - 2)) (f32 (5 / 100)))
      else if i = PART_LEN - 2
      then add32 (add32 (add32 (mul32 (t i) (f32 (7 / 10))) (mul32 (t (i - 1)) (f32 (1 / 10))))
               (mul32 (t (i - 2)) (f32 (5 / 100)))) (mul32 (t (i + 1)) (f32 (15 / 100)))
      else add32 (add32 (mul32 (t i) (f32 (85 / 100))) (mul32 (t (i - 1)) (f32 (1 / 10)))) (mul32 (t (i - 2)) (f32 (5 / 100))))"

definition bin_power :: "rat list \<Rightarrow> nat \<Rightarrow> rat" where
  "bin_power fpin i = add32 (mul32 (fpin ! (2 * i)) (fpin ! (2 * i))) (mul32 (fpin ! (2 * i + 1)) (fpin ! (2 * i + 1)))"

definition PowerEstimation :: "rat list \<Rightarrow> rat list \<Rightarrow> rat list" where
  "PowerEstimation fpin fpout =
     fold (\<lambda>i out. out[i := add32 (mul32 (out ! i) (f32 (3 / 10))) (mul32 (f32 (7 / 10)) (power_window (bin_power fpin) i))])
       [0..<PART_LEN] fpout"

section \<open>Noise\<close>

definition min_noise :: "nat \<Rightarrow> rat" where
  "min_noise i =
     (let freqgain = (if i > 32 then div32 16 (sub32 (of_nat i) 16) else 1) in mul32 freqgain NOISEGATE)"

definition track_float_noise :: "nat \<Rightarrow> rat \<Rightarrow> rat \<Rightarrow> rat" where
  "track_float_noise i noise pw =
     (if noise \<ge> pw then (if pw > min_noise i then pw else min_noise i)
      else
        (let alpha = div32 (div32 noise 10) pw;
             alpha = (if alpha > f32 (1 / 100) then alpha else f32 (1 / 100))
         in add32 noise (mul32 alpha (sub32 pw noise))))"

definition NoiseTrack :: "AecmFloat \<Rightarrow> AecmFloat" where
  "NoiseTrack fl =
     fl\<lparr>FarNoise := fold (\<lambda>i n. n[i := track_float_noise i (n ! i) (FarPower fl ! i)]) [0..<PART_LEN] (FarNoise fl),
        NearNoise := fold (\<lambda>i n. n[i := track_float_noise i (n ! i) (NearPower fl ! i)]) [0..<PART_LEN] (NearNoise fl)\<rparr>"

section \<open>The linear echo estimate\<close>

definition far_offset :: "AecmFloat \<Rightarrow> int \<Rightarrow> nat" where
  "far_offset fl delay = nat ((FarWritePosition fl - delay + int MAX_DELAY) smod int MAX_DELAY) * PART_LEN2"

text \<open>The update of the channel of one bin, where the far end is above its noise.\<close>

definition update_channel_bin :: "nat \<Rightarrow> nat \<Rightarrow> AecmFloat \<Rightarrow> AecmFloat" where
  "update_channel_bin delay i fl =
     (if FarPower fl ! i > f64 (f64 (14 / 10) * FarNoise fl ! i)
      then
        (let x = FarSpectrumHistory fl ! (delay + 2 * i); y = FarSpectrumHistory fl ! (delay + 2 * i + 1);
             nr = NearSpectrum fl ! (2 * i); ni = NearSpectrum fl ! (2 * i + 1);
             re = add32 (mul32 x nr) (mul32 y ni);
             im = sub32 (mul32 x ni) (mul32 y nr);
             cross = CrossRelation fl;
             cr = add32 (cross ! (2 * i)) (mul32 (SmoothFactor fl) (sub32 re (cross ! (2 * i))));
             ci = add32 (cross ! (2 * i + 1)) (mul32 (SmoothFactor fl) (sub32 im (cross ! (2 * i + 1))));
             re = add32 (mul32 x x) (mul32 y y);
             au = add32 (AutoRelation fl ! (2 * i)) (mul32 (SmoothFactor fl) (sub32 re (AutoRelation fl ! (2 * i))));
             den = add32 au (mul32 (f32 (1 / 10)) (FarNoise fl ! i))
         in fl\<lparr>CrossRelation := cross[2 * i := cr, 2 * i + 1 := ci],
               AutoRelation := (AutoRelation fl)[2 * i := au, 2 * i + 1 := 0],
               float_H := (float_H fl)[2 * i := div32 cr den, 2 * i + 1 := div32 ci den]\<rparr>)
      else fl)"

text \<open>The echo estimate of one bin and the error, which is never larger than the near end.\<close>

definition estimate_bin :: "nat \<Rightarrow> nat \<Rightarrow> AecmFloat \<Rightarrow> AecmFloat" where
  "estimate_bin delay i fl =
     (let x = FarSpectrumHistory fl ! (delay + 2 * i); y = FarSpectrumHistory fl ! (delay + 2 * i + 1);
          hr = float_H fl ! (2 * i); hi = float_H fl ! (2 * i + 1);
          nr = NearSpectrum fl ! (2 * i); ni = NearSpectrum fl ! (2 * i + 1);
          er = sub32 (mul32 hr x) (mul32 hi y);
          ei = add32 (mul32 hi x) (mul32 hr y);
          dr = sub32 nr er; di = sub32 ni ei;
          re = add32 (mul32 dr dr) (mul32 di di);
          im = add32 (mul32 nr nr) (mul32 ni ni);
          (dr, di) = (if re > im then (nr, ni) else (dr, di))
      in fl\<lparr>EchoEstSpectrum := (EchoEstSpectrum fl)[2 * i := er, 2 * i + 1 := ei],
            ErrorSpectrum := (ErrorSpectrum fl)[2 * i := dr, 2 * i + 1 := di]\<rparr>)"

definition UpdateH :: "AecmFloat \<Rightarrow> int \<Rightarrow> AecmFloat" where
  "UpdateH fl delay =
     (let off = far_offset fl delay
      in fold (\<lambda>i fl. estimate_bin off i (update_channel_bin off i fl)) [0..<PART_LEN] fl)"

section \<open>Back to fixed point\<close>

definition float_normalize :: "int \<Rightarrow> rat" where
  "float_normalize zeros = (if zeros > 0 then f32 (of_int (shl32 1 zeros)) else f32 (1 / f32 (of_int (shl32 1 (- zeros)))))"

definition saturate_float :: "rat \<Rightarrow> int" where
  "saturate_float x =
     (let v = c_int_of x in if v > 32767 then 32767 else if v < - 32768 then - 32768 else i16 v)"

definition CopyFloatFFT2Fix :: "ComplexInt16 list \<Rightarrow> int \<Rightarrow> rat list \<Rightarrow> ComplexInt16 list" where
  "CopyFloatFFT2Fix freq_signal zeros fp =
     (let normalize = float_normalize zeros
      in fold (\<lambda>i f. f[i := (saturate_float (mul32 (fp ! (2 * i)) normalize),
                             saturate_float (mul32 (fp ! (2 * i + 1)) normalize))]) [0..<PART_LEN] freq_signal)"

section \<open>Suppression\<close>

definition band_gain :: "AecmFloat \<Rightarrow> nat \<Rightarrow> rat" where
  "band_gain fl i =
     (if NearPower fl ! i > NearNoise fl ! i
      then
        (let ratio = div32 (ErrorPower fl ! i) (NearPower fl ! i);
             gain = (if i > 32 then div32 (sub32 ratio (f32 (25 / 100))) (f32 (65 / 100))
                     else div32 (sub32 ratio (f32 (2 / 10))) (f32 (3 / 10)));
             gain = (if gain > f64 (1 / 100000000) then gain else 0);
             gain = mul32 gain gain;
             gain = (if gain < f32 (1 / 1000) then f32 (1 / 1000) else gain)
         in if gain > 1 then 1 else gain)
      else 1)"

text \<open>The first loop: the gains, the last gain, and the three sums over all bands.\<close>

definition all_band_step :: "AecmFloat \<Rightarrow> nat \<Rightarrow> rat list \<times> rat \<times> rat \<times> rat \<times> rat \<Rightarrow> rat list \<times> rat \<times> rat \<times> rat \<times> rat" where
  "all_band_step fl i = (\<lambda>(gains, _, a1, a2, a3).
     (let gain = band_gain fl i
      in (gains @ [gain], gain, add32 a1 (mul32 (mul32 (ErrorPower fl ! i) gain) gain),
          add32 a2 (EchoPower fl ! i), add32 a3 (NearPower fl ! i))))"

text \<open>The common ratio and the final \<open>allband2\<close>.\<close>

definition all_band_ratio :: "rat \<Rightarrow> rat \<Rightarrow> rat \<Rightarrow> rat \<Rightarrow> rat \<times> rat" where
  "all_band_ratio gain a1 a2 a3 =
     (let gain = (if a2 > f32 (1 / 100000)
                  then (let g = mul32 (div32 a1 a2) (f32 (707 / 1000)) in if g < 1 then g else 1) else gain)
      in if a3 > f32 (1 / 1000)
         then
           (let ratio = f32 (f64 (f64 (a1 - f64 (f64 (1 / 1000) * a3)) / mul32 (f32 (499 / 1000)) a3));
                ratio = (if ratio > 1 then 1 else ratio);
                full = mul32 32768 32768;
                a2 = div32 (sub32 (mul32 full (f32 (5 / 100))) a3) (mul32 full (f32 (499999 / 10000000)));
                a2 = (if a2 > 1 then 1 else a2);
                a2 = (if a2 < f32 (1 / 1000) then f32 (1 / 1000) else a2);
                floor_ratio = mul32 (f32 (1 / 10)) a2;
                ratio = (if ratio < floor_ratio then floor_ratio else ratio)
            in (mul32 ratio gain, a2))
         else (1, a2))"

definition scale_bin :: "nat \<Rightarrow> rat \<Rightarrow> AecmFloat \<Rightarrow> AecmFloat" where
  "scale_bin i g fl =
     fl\<lparr>ErrorSpectrum := (ErrorSpectrum fl)[2 * i := mul32 (ErrorSpectrum fl ! (2 * i)) g,
                                            2 * i + 1 := mul32 (ErrorSpectrum fl ! (2 * i + 1)) g]\<rparr>"

definition smooth_gain :: "nat \<Rightarrow> rat \<Rightarrow> rat \<Rightarrow> AecmFloat \<Rightarrow> AecmFloat" where
  "smooth_gain i factor gain fl =
     fl\<lparr>float_gain := (float_gain fl)[i := add32 (float_gain fl ! i) (mul32 factor (sub32 gain (float_gain fl ! i)))]\<rparr>"

definition low_floor :: "rat \<Rightarrow> rat \<Rightarrow> rat" where
  "low_floor ratio a2 =
     (let limit = (if a2 > f32 (8 / 10) then f32 (315 / 1000)
                   else mul32 (f32 (315 / 1000)) (div32 a2 (f32 (8 / 10))))
      in if ratio > limit then ratio else limit)"

definition low_band_step :: "rat list \<Rightarrow> rat \<Rightarrow> rat \<Rightarrow> nat \<Rightarrow> AecmFloat \<Rightarrow> AecmFloat" where
  "low_band_step g ratio a2 i fl =
     (let gain = add32 (add32 (mul32 (g ! i) (f32 (7 / 10))) (mul32 (f32 (15 / 100)) (g ! (i + 1))))
                   (mul32 (f32 (15 / 100)) (g ! (i - 1)));
          fl = smooth_gain i (f32 (7 / 10)) gain fl
      in scale_bin i (mul32 (float_gain fl ! i) (low_floor ratio a2)) fl)"

definition high_band_step :: "rat list \<Rightarrow> rat \<Rightarrow> nat \<Rightarrow> AecmFloat \<Rightarrow> AecmFloat" where
  "high_band_step g ratio i fl =
     (let gain = add32 (add32 (add32 (add32 (mul32 (g ! i) (f32 (5 / 10))) (mul32 (f32 (15 / 100)) (g ! (i + 1))))
                   (mul32 (f32 (15 / 100)) (g ! (i - 1)))) (mul32 (f32 (1 / 10)) (g ! (i + 2)))) (mul32 (f32 (1 / 10)) (g ! (i - 2)));
          fl = smooth_gain i (f32 (7 / 10)) gain fl
      in scale_bin i (mul32 (float_gain fl ! i) ratio) fl)"

definition NLP :: "AecmFloat \<Rightarrow> AecmFloat" where
  "NLP fl =
     (let (g, gain, a1, a2, a3) = fold (all_band_step fl) [1..<PART_LEN] ([0], 1, 0, 0, 0);
          (ratio, a2) = all_band_ratio gain a1 a2 a3;
          gain = add32 (mul32 (g ! 0) (f32 (8 / 10))) (mul32 (f32 (2 / 10)) (g ! 1));
          fl = smooth_gain 0 (f32 (7 / 10)) gain fl;
          fl = scale_bin 0 (float_gain fl ! 0) fl;
          fl = fold (low_band_step g ratio a2) [1..<32] fl;
          fl = fold (high_band_step g ratio) [32..<PART_LEN - 2] fl;
          gain = add32 (mul32 (g ! (PART_LEN - 1)) (f32 (8 / 10))) (mul32 (f32 (2 / 10)) (g ! (PART_LEN - 2)));
          fl = smooth_gain (PART_LEN - 1) (f32 (8 / 10)) gain fl
      in scale_bin (PART_LEN - 1) (mul32 (float_gain fl ! (PART_LEN - 1)) ratio) fl)"

section \<open>One block\<close>

text \<open>The far spectrum goes into its history before the near end is transformed.\<close>

definition store_far_float :: "AecmFloat \<Rightarrow> ComplexInt16 list \<Rightarrow> int \<Rightarrow> AecmFloat" where
  "store_far_float fl dfw far_q =
     fl\<lparr>FarSpectrumHistory := mem_copy (FarSpectrumHistory fl) (nat (FarWritePosition fl) * PART_LEN2) (CopyFixFFT2Float dfw far_q),
        FarWritePosition := (FarWritePosition fl + 1) smod int MAX_DELAY\<rparr>"

definition float_suppress :: "AecmFloat \<Rightarrow> int \<Rightarrow> AecmFloat" where
  "float_suppress fl delay =
     (let fl = fl\<lparr>NearPower := PowerEstimation (NearSpectrum fl) (NearPower fl)\<rparr>;
          fl = fl\<lparr>FarPower := PowerEstimation (mem_slice (FarSpectrumHistory fl) (far_offset fl delay) PART_LEN2) (FarPower fl)\<rparr>;
          fl = UpdateH (NoiseTrack fl) delay;
          fl = fl\<lparr>ErrorPower := PowerEstimation (ErrorSpectrum fl) (ErrorPower fl)\<rparr>;
          fl = fl\<lparr>EchoPower := PowerEstimation (EchoEstSpectrum fl) (EchoPower fl)\<rparr>
      in NLP fl)"

text \<open>
  The near spectrum is copied to \<open>aecmfloat\<close> after the transform of the noisy signal and before
  that of the clean one; \<open>near_spectra\<close> does both transforms, so the copy is made from the
  noisy spectrum it starts with.
\<close>

definition WebRtcAecm_ProcessBlockwithFloat ::
    "AecmCore \<Rightarrow> samples \<Rightarrow> samples \<Rightarrow> samples option \<Rightarrow> AecmCore \<times> samples option \<times> int" where
  "WebRtcAecm_ProcessBlockwithFloat aecm farend nearendNoisy nearendClean =
     (let aecm = begin_block aecm farend nearendNoisy nearendClean;
          (far_q, dfw, xfa, _) = TimeToFrequencyDomain aecm (xBuf aecm) (replicate PART_LEN1 (0, 0));
          on = (enablefloatpro aecm = 1);
          aecm = (if on then aecm\<lparr>aecmfloat := store_far_float (aecmfloat aecm) dfw far_q\<rparr> else aecm);
          (_, noisy, _, _) = TimeToFrequencyDomain aecm (dBufNoisy aecm) dfw;
          (aecm, dfw, dfaNoisy, dfaClean, dfaNoisySum, zerosDBufNoisy) = near_spectra aecm dfw (nearendClean \<noteq> None);
          aecm = (if on then aecm\<lparr>aecmfloat := (aecmfloat aecm)\<lparr>NearSpectrum := CopyFixFFT2Float noisy (dfaNoisyQDomain aecm)\<rparr>\<rparr>
                  else aecm);
          (aecm, delay) = estimate_delay aecm xfa dfaNoisy far_q zerosDBufNoisy
      in case delay of None \<Rightarrow> (aecm, None, - 1)
         | Some _ \<Rightarrow>
            (let aecm = (if on then aecm\<lparr>aecmfloat := float_suppress (aecmfloat aecm) (currentDelay aecm)\<rparr> else aecm);
                 d = currentDelay aecm - 1;
                 (aecm, hnl, efw) = suppress_echo aecm xfa far_q d dfw dfaNoisy dfaClean dfaNoisySum;
                 efw = (if on \<and> currentDelay aecm > 1
                        then CopyFloatFFT2Fix efw (dfaNoisyQDomain aecm) (ErrorSpectrum (aecmfloat aecm)) else efw);
                 (aecm, out) = InverseFFTAndWindow aecm efw (nearendClean \<noteq> None)
             in (aecm, Some out, 0)))"

section \<open>A block as the frame loop sees it\<close>

text \<open>The frame buffers and the settings, which no block touches; the signals and the estimators.\<close>

definition same_frames :: "AecmCore \<Rightarrow> AecmCore \<Rightarrow> bool" where
  "same_frames a b \<longleftrightarrow> farBufWritePos a = farBufWritePos b \<and> farBufReadPos a = farBufReadPos b \<and> knownDelay a = knownDelay b \<and>
     lastKnownDelay a = lastKnownDelay b \<and> farFrameBuf a = farFrameBuf b \<and> nearNoisyFrameBuf a = nearNoisyFrameBuf b \<and>
     nearCleanFrameBuf a = nearCleanFrameBuf b \<and> outFrameBuf a = outFrameBuf b \<and> farBuf a = farBuf b \<and>
     real_fft a = real_fft b \<and> fixedDelay a = fixedDelay b \<and> enablefloatpro a = enablefloatpro b \<and> mult a = mult b"

definition same_signals :: "AecmCore \<Rightarrow> AecmCore \<Rightarrow> bool" where
  "same_signals a b \<longleftrightarrow> same_frames a b \<and> xBuf a = xBuf b \<and> dBufNoisy a = dBufNoisy b \<and> dBufClean a = dBufClean b \<and>
     delay_estimator_farend a = delay_estimator_farend b \<and> delay_estimator a = delay_estimator b"

lemma same_frames_trans: "same_frames a b \<Longrightarrow> same_frames b c \<Longrightarrow> same_frames a c"
  by (simp add: same_frames_def)

lemma same_signals_trans: "same_signals a b \<Longrightarrow> same_signals b c \<Longrightarrow> same_signals a c"
  by (simp add: same_signals_def same_frames_def)

lemmas signals = same_signals_def same_frames_def

lemma nlms_loop_signals: "same_signals (fold (nlms_step far q dfa mu) is a) a"
  by (induction "is" arbitrary: a) (simp_all add: signals nlms_step_def split_def Let_def)

lemma Store_signals: "same_signals (fst (StoreAdaptiveChannelC a far e)) a"
  by (simp add: StoreAdaptiveChannelC_def Let_def signals)

lemma Reset_signals: "same_signals (ResetAdaptiveChannelC a) a"
  by (simp add: ResetAdaptiveChannelC_def Let_def signals)

lemma validate_signals: "same_signals (fst (validate_channel a far e)) a"
  using Store_signals [of a far e] Reset_signals [of a] by (simp add: validate_channel_def Let_def split_def signals)

lemma UpdateChannel_signals: "same_signals (fst (WebRtcAecm_UpdateChannel a far q dfa mu e)) a"
proof -
  define b where "b = (if mu \<noteq> 0 then fold (nlms_step far q dfa mu) [0..<PART_LEN1] a else a)"
  define c where "c = (if farLogEnergy b < farEnergyMSE b then b\<lparr>mseChannelCount := 0\<rparr> else b\<lparr>mseChannelCount := i16 (mseChannelCount b + 1)\<rparr>)"
  have b: "same_signals b a" using nlms_loop_signals by (simp add: b_def) (simp add: signals)
  then have c: "same_signals c a" by (simp add: c_def signals)
  have "WebRtcAecm_UpdateChannel a far q dfa mu e = (if startupState b = 0 \<and> currentVADValue b AND 1 \<noteq> 0 then StoreAdaptiveChannelC b far e
      else if mseChannelCount c \<ge> int MIN_MSE_COUNT + 10 then validate_channel c far e else (c, e))"
    unfolding WebRtcAecm_UpdateChannel_def Let_def b_def [symmetric] c_def [symmetric] by simp
  then show ?thesis
    using b c same_signals_trans [OF validate_signals c] same_signals_trans [OF Store_signals b] by simp
qed

lemma CalcEnergies_signals: "same_signals (fst (WebRtcAecm_CalcEnergies a far q near e)) a"
proof -
  have u: "same_signals (update_vad b) b" "same_signals (update_far_levels b) b" for b
    by (simp_all add: update_vad_def update_far_levels_def Let_def split_def signals)
  show ?thesis
    using u by (simp add: WebRtcAecm_CalcEnergies_def Let_def split_def signals)
qed

lemma suppress_echo_signals: "same_signals (fst (suppress_echo aecm xfa far_q delay dfw dfaNoisy dfaClean tot)) aecm"
proof -
  define a1 where "a1 = WebRtcAecm_UpdateFarHistory aecm xfa dfw far_q"
  obtain fq fs where al: "WebRtcAecm_AlignedFarend a1 delay = (fq, fs)" by (metis surj_pair)
  obtain a2 e2 where ce: "WebRtcAecm_CalcEnergies a1 fs (i16 fq) tot (replicate PART_LEN1 0) = (a2, e2)" by (metis surj_pair)
  let ?a3 = "a2\<lparr>totCount := u32 (totCount a2 + 1)\<rparr>"
  obtain a4 e4 where uc: "WebRtcAecm_UpdateChannel ?a3 fs (i16 fq) dfaNoisy (WebRtcAecm_CalcStepSize a2) e2 = (a4, e4)" by (metis surj_pair)
  obtain a5 g where sg: "WebRtcAecm_CalcSuppressionGain a4 = (a5, g)" by (metis surj_pair)
  have "same_signals a1 aecm" by (simp add: a1_def WebRtcAecm_UpdateFarHistory_def Let_def signals)
  moreover have "same_signals a2 a1" using CalcEnergies_signals [of a1 fs "i16 fq" tot "replicate PART_LEN1 0"] ce by simp
  moreover have "same_signals ?a3 a2" by (simp add: signals)
  moreover have "same_signals a4 ?a3" using UpdateChannel_signals [of ?a3 fs "i16 fq" dfaNoisy "WebRtcAecm_CalcStepSize a2" e2] uc by simp
  moreover have "same_signals a5 a4" using sg by (auto simp: WebRtcAecm_CalcSuppressionGain_def Let_def signals)
  ultimately have "same_signals a5 aecm" by (metis same_signals_trans)
  moreover have "fst (suppress_echo aecm xfa far_q delay dfw dfaNoisy dfaClean tot) = fst (wiener_filter a5 e4 (i16 fq) g dfaClean)"
    unfolding suppress_echo_def Let_def a1_def [symmetric] al prod.case ce uc sg by (simp add: split_def)
  ultimately show ?thesis by (simp add: wiener_filter_def Let_def signals)
qed

lemma ComfortNoise_signals: "same_signals (fst (ComfortNoise a dfa out lam)) a"
  by (simp add: ComfortNoise_def Let_def split_def signals)


definition samples_ok :: "nat \<Rightarrow> samples \<Rightarrow> bool" where
  "samples_ok n xs \<longleftrightarrow> length xs = n \<and> list_all in_i16 xs"

definition estimators_ok :: "AecmCore \<Rightarrow> bool" where
  "estimators_ok aecm \<longleftrightarrow>
     (\<exists>f. delay_estimator_farend aecm = Some f \<and> farend_wrapper_ok (int MAX_DELAY) f \<and> farend_spectrum_size f = int PART_LEN1) \<and>
     (\<exists>e. delay_estimator aecm = Some e \<and> estimator_wrapper_ok (int MAX_DELAY) e \<and> spectrum_size e = int PART_LEN1)"

definition block_ok :: "AecmCore \<Rightarrow> bool" where
  "block_ok aecm \<longleftrightarrow> real_fft aecm = Some \<lparr>order = PART_LEN_SHIFT\<rparr> \<and> samples_ok PART_LEN2 (xBuf aecm) \<and>
     samples_ok PART_LEN2 (dBufNoisy aecm) \<and> samples_ok PART_LEN2 (dBufClean aecm) \<and> estimators_ok aecm \<and> fixedDelay aecm < int MAX_DELAY"

lemma same_signals_block_ok: "same_signals a b \<Longrightarrow> block_ok b \<Longrightarrow> block_ok a"
  by (simp add: signals block_ok_def estimators_ok_def)

lemma samples_ok_copy:
  assumes "samples_ok n dst" "list_all in_i16 src" "p + length src \<le> n"
  shows "samples_ok n (mem_copy dst p src)"
  using assms set_mem_copy [of dst p src] by (auto simp: samples_ok_def list_all_iff)

lemma samples_ok_take: "samples_ok n xs \<Longrightarrow> take n xs = xs"
  by (simp add: samples_ok_def)

lemma begin_block_ok:
  assumes "block_ok aecm" "samples_ok PART_LEN far" "samples_ok PART_LEN noisy" "\<And>c. clean = Some c \<Longrightarrow> samples_ok PART_LEN c"
  shows "block_ok (begin_block aecm far noisy clean) \<and> same_frames (begin_block aecm far noisy clean) aecm"
proof -
  have c: "samples_ok PART_LEN2 (mem_copy dst PART_LEN (take PART_LEN src))" if "samples_ok PART_LEN2 dst" "samples_ok PART_LEN src" for dst src
    using samples_ok_copy [OF that(1), of "take PART_LEN src" PART_LEN] that(2) by (simp add: samples_ok_def aecm_sizes)
  show ?thesis
    using assms c by (simp add: begin_block_def Let_def block_ok_def estimators_ok_def same_frames_def split: option.splits)
qed

lemma near_spectra_ok:
  assumes "block_ok aecm" "length dfw = PART_LEN1" "near_spectra aecm dfw hc = (a, dfw', dn, dc, tot, zn)"
  shows "block_ok a \<and> same_frames a aecm \<and> length dfw' = PART_LEN1 \<and> magnitudes dn \<and> magnitudes dc \<and> 0 \<le> zn \<and> zn \<le> 15 \<and>
    aecmfloat a = aecmfloat aecm"
proof -
  have m: "magnitudes mags" if "length mags = PART_LEN1" "\<forall>i<PART_LEN1. is_magnitude (c ! i) (mags ! i) \<and> mags ! i \<le> 46340" for mags :: "int list" and c
    using that by (auto simp: magnitudes_def list_all_length is_magnitude_def in_u16_def)
  have fft: "real_fft aecm = Some \<lparr>order = PART_LEN_SHIFT\<rparr>" "list_all in_i16 (dBufNoisy aecm)" "list_all in_i16 (dBufClean aecm)"
    using assms(1) by (simp_all add: block_ok_def samples_ok_def)
  obtain z c mags t where n: "TimeToFrequencyDomain aecm (dBufNoisy aecm) dfw = (z, c, mags, t)" by (metis surj_pair)
  note tn = TimeToFrequencyDomain_ok [OF fft(1) assms(2) fft(2) n]
  have z: "i16 z = z" using tn by (intro i16_id) (simp add: in_i16_def)
  have mn: "magnitudes mags" using m tn by blast
  show ?thesis
  proof (cases hc)
    case False
    then have e: "a = aecm\<lparr>dfaNoisyQDomainOld := dfaNoisyQDomain aecm, dfaNoisyQDomain := z, dfaCleanQDomainOld := dfaNoisyQDomain aecm, dfaCleanQDomain := z\<rparr>"
      "dfw' = c" "dn = mags" "dc = mags" "zn = z"
      using assms(3) n z by (auto simp: near_spectra_def)
    then show ?thesis using tn mn assms(1) unfolding e by (simp add: block_ok_def estimators_ok_def same_frames_def bins_ok_def)
  next
    case True
    define b where "b = aecm\<lparr>dfaNoisyQDomainOld := dfaNoisyQDomain aecm, dfaNoisyQDomain := z\<rparr>"
    obtain z2 c2 mags2 t2 where n2: "TimeToFrequencyDomain b (dBufClean aecm) c = (z2, c2, mags2, t2)" by (metis surj_pair)
    have "real_fft b = Some \<lparr>order = PART_LEN_SHIFT\<rparr>" "list_all in_i16 (dBufClean aecm)" "length c = PART_LEN1"
      using fft tn by (simp_all add: b_def bins_ok_def)
    then have tc: "bins_ok c2" "magnitudes mags2" using TimeToFrequencyDomain_ok [OF _ _ _ n2] m by blast+
    have e: "a = b\<lparr>dfaCleanQDomainOld := dfaCleanQDomain aecm, dfaCleanQDomain := i16 z2\<rparr>" "dfw' = c2" "dn = mags" "dc = mags2" "zn = z"
      using True assms(3) n n2 z by (auto simp: near_spectra_def b_def [symmetric])
    then show ?thesis using tn mn tc assms(1) unfolding e by (simp add: b_def block_ok_def estimators_ok_def same_frames_def bins_ok_def)
  qed
qed

lemma estimate_delay_ok:
  assumes "block_ok aecm" "magnitudes xfa" "magnitudes dn" "0 \<le> fq" "fq \<le> 15" "0 \<le> zn" "zn \<le> 15"
  obtains a d where "estimate_delay aecm xfa dn fq zn = (a, Some d)" "0 \<le> d" "d < int MAX_DELAY" "block_ok a" "same_frames a aecm"
    "currentDelay a = d + 1"
proof -
  obtain f e where f: "delay_estimator_farend aecm = Some f" "farend_wrapper_ok (int MAX_DELAY) f" "farend_spectrum_size f = int PART_LEN1"
    and e: "delay_estimator aecm = Some e" "estimator_wrapper_ok (int MAX_DELAY) e" "spectrum_size e = int PART_LEN1"
    using assms(1) by (auto simp: block_ok_def estimators_ok_def)
  have so: "spectrum_ok xfa fq" "spectrum_ok dn zn" using assms(2-7) by (simp_all add: spectrum_ok_def magnitudes_def aecm_sizes)
  obtain f' where f': "WebRtc_AddFarSpectrumFix (Some f) (Some xfa) (int PART_LEN1) fq = (Some f', 0)"
      "farend_wrapper_ok (int MAX_DELAY) f'" "farend_spectrum_size f' = int PART_LEN1"
    using AddFarSpectrumFix_ok [OF f(2) so(1), of "int PART_LEN1"] f(3) assms(5) by (auto split: prod.splits)
  have bf: "farend_ok (binary_farend f')" "farend_history_size (binary_farend f') = int MAX_DELAY" using f'(2) by (simp_all add: farend_wrapper_ok_def)
  obtain e' r where e': "WebRtc_DelayEstimatorProcessFix (binary_farend f') (Some e) (Some dn) (int PART_LEN1) zn = (Some e', r)"
      "r = - 2 \<or> 0 \<le> r \<and> r < int MAX_DELAY" "estimator_wrapper_ok (int MAX_DELAY) e'" "spectrum_size e' = int PART_LEN1"
    using DelayEstimatorProcessFix_ok [OF bf e(2) so(2), of "int PART_LEN1"] e(3) assms(7) by (auto split: prod.splits)
  define d where "d = (if fixedDelay aecm \<ge> 0 then fixedDelay aecm else if r = - 2 then 0 else r)"
  have d: "0 \<le> d" "d < int MAX_DELAY" using e'(2) assms(1) by (auto simp: d_def block_ok_def MAX_DELAY_def)
  then have w: "i16 (d + 1) = d + 1" by (simp add: i16_id in_i16_def MAX_DELAY_def)
  let ?a = "aecm\<lparr>delay_estimator_farend := Some f', delay_estimator := Some e', currentDelay := d + 1\<rparr>"
  have "estimate_delay aecm xfa dn fq zn = (?a, Some d)"
  proof -
    have "r \<noteq> - 1" using e'(2) by auto
    then have "estimate_delay aecm xfa dn fq zn = (aecm\<lparr>delay_estimator_farend := Some f', delay_estimator := Some e', currentDelay := i16 (d + 1)\<rparr>, Some d)"
      unfolding estimate_delay_def f(1) f'(1) Let_def prod.case d_def by (simp add: e(1) e'(1))
    then show ?thesis by (simp add: w)
  qed
  moreover have "block_ok ?a" using assms(1) f'(2,3) e'(3,4) by (simp add: block_ok_def estimators_ok_def)
  moreover have "same_frames ?a aecm" by (simp add: same_frames_def)
  ultimately show thesis using that d by simp
qed

lemma InverseFFTAndWindow_ok:
  assumes "block_ok aecm" "InverseFFTAndWindow aecm efw hc = (a, out)"
  shows "block_ok a \<and> same_frames a aecm \<and> samples_ok PART_LEN out"
proof -
  have s: "samples_ok PART_LEN2 (mem_copy b 0 (mem_slice b PART_LEN PART_LEN))" if "samples_ok PART_LEN2 b" for b
    using that set_mem_slice [of b PART_LEN PART_LEN] by (intro samples_ok_copy) (auto simp: samples_ok_def list_all_iff aecm_sizes)
  obtain k ifft where r: "WebRtcSpl_RealInverseFFT (the (real_fft aecm)) (concat (map (\<lambda>i. [fst (efw ! i), i16 (- snd (efw ! i))]) [0..<PART_LEN1]))
      (from_complex efw) = (k, ifft)" by (metis surj_pair)
  define ps where "ps = map (overlap_add (i32 (k - dfaCleanQDomain aecm)) ifft (outBuf aecm)) [0..<PART_LEN]"
  define b where "b = aecm\<lparr>outBuf := map snd ps, xBuf := mem_copy (xBuf aecm) 0 (mem_slice (xBuf aecm) PART_LEN PART_LEN),
      dBufNoisy := mem_copy (dBufNoisy aecm) 0 (mem_slice (dBufNoisy aecm) PART_LEN PART_LEN)\<rparr>"
  have e: "a = (if hc then b\<lparr>dBufClean := mem_copy (dBufClean b) 0 (mem_slice (dBufClean b) PART_LEN PART_LEN)\<rparr> else b)" "out = map fst ps"
    using assms(2) unfolding InverseFFTAndWindow_def Let_def r prod.case ps_def [symmetric] b_def by simp_all
  have "samples_ok PART_LEN out" by (auto simp: e(2) ps_def samples_ok_def list_all_iff overlap_add_def Let_def)
  moreover have "block_ok b" using assms(1) s by (simp add: b_def block_ok_def estimators_ok_def)
  then have "block_ok a" using s by (simp add: e(1) block_ok_def estimators_ok_def)
  moreover have "same_frames a aecm" by (simp add: e(1) b_def same_frames_def)
  ultimately show ?thesis by simp
qed


definition block_done :: "AecmCore \<Rightarrow> AecmCore \<times> samples option \<times> int \<Rightarrow> bool" where
  "block_done aecm res \<longleftrightarrow> (\<exists>a out. res = (a, Some out, 0) \<and> block_ok a \<and> same_frames a aecm \<and> samples_ok PART_LEN out)"

lemma far_spectrum_ok:
  assumes "block_ok aecm" "TimeToFrequencyDomain aecm (xBuf aecm) (replicate PART_LEN1 (0, 0)) = (fq, dfw, xfa, t)"
  shows "0 \<le> fq" "fq \<le> 15" "length dfw = PART_LEN1" "magnitudes xfa"
proof -
  have "real_fft aecm = Some \<lparr>order = PART_LEN_SHIFT\<rparr>" "list_all in_i16 (xBuf aecm)" using assms(1) by (simp_all add: block_ok_def samples_ok_def)
  note t = TimeToFrequencyDomain_ok [OF this(1) _ this(2) assms(2)]
  then show "0 \<le> fq" "fq \<le> 15" "length dfw = PART_LEN1" "magnitudes xfa"
    by (auto simp: bins_ok_def magnitudes_def list_all_length is_magnitude_def in_u16_def)
qed

lemma suppress_echo_block:
  assumes "block_ok a" "suppress_echo a xfa fq d dfw dn dc tot = (b, h, efw)"
  shows "block_ok b \<and> same_frames b a"
  using suppress_echo_signals [of a xfa fq d dfw dn dc tot] assms same_signals_block_ok by (auto simp: same_signals_def)

lemma ProcessBlock_ok:
  assumes "block_ok aecm" "samples_ok PART_LEN far" "samples_ok PART_LEN noisy" "\<And>c. clean = Some c \<Longrightarrow> samples_ok PART_LEN c"
  shows "block_done aecm (WebRtcAecm_ProcessBlock aecm far noisy clean)"
proof -
  define a1 where "a1 = begin_block aecm far noisy clean"
  have a1: "block_ok a1" "same_frames a1 aecm" using begin_block_ok [OF assms(1-3), of clean] assms(4) by (simp_all add: a1_def)
  obtain fq dfw xfa t where fd: "TimeToFrequencyDomain a1 (xBuf a1) (replicate PART_LEN1 (0, 0)) = (fq, dfw, xfa, t)" by (metis surj_pair)
  note f = far_spectrum_ok [OF a1(1) fd]
  obtain a2 dfw2 dn dc tot zn where ns: "near_spectra a1 dfw (clean \<noteq> None) = (a2, dfw2, dn, dc, tot, zn)" by (metis surj_pair)
  note n = near_spectra_ok [OF a1(1) f(3) ns]
  obtain a3 d where ed: "estimate_delay a2 xfa dn fq zn = (a3, Some d)" "block_ok a3" "same_frames a3 a2"
    using estimate_delay_ok [of a2 xfa dn fq zn] n f by blast
  obtain a4 h efw where se: "suppress_echo a3 xfa fq d dfw2 dn dc tot = (a4, h, efw)" by (metis surj_pair)
  note s = suppress_echo_block [OF ed(2) se]
  obtain a5 efw2 where cn: "(if cngMode a4 = AecmTrue then ComfortNoise a4 dc efw h else (a4, efw)) = (a5, efw2)" by (metis surj_pair)
  have c: "block_ok a5 \<and> same_frames a5 a4"
    using ComfortNoise_signals [of a4 dc efw h] same_signals_block_ok [of a5 a4] s cn by (auto simp: same_signals_def same_frames_def split: if_splits)
  obtain a6 out where iv: "InverseFFTAndWindow a5 efw2 (clean \<noteq> None) = (a6, out)" by (metis surj_pair)
  note i = InverseFFTAndWindow_ok [OF _ iv]
  have "WebRtcAecm_ProcessBlock aecm far noisy clean = (a6, Some out, 0)"
    unfolding WebRtcAecm_ProcessBlock_def Let_def a1_def [symmetric] fd prod.case ns ed(1) option.case se cn iv by (rule refl)
  moreover have "same_frames a6 aecm" using a1(2) n ed(3) s c i by (meson same_frames_trans)
  ultimately show ?thesis using c i by (simp add: block_done_def)
qed

lemma ProcessBlockwithFloat_ok:
  assumes "block_ok aecm" "samples_ok PART_LEN far" "samples_ok PART_LEN noisy" "\<And>c. clean = Some c \<Longrightarrow> samples_ok PART_LEN c"
  shows "block_done aecm (WebRtcAecm_ProcessBlockwithFloat aecm far noisy clean)"
proof -
  have fl: "block_ok (if on then a\<lparr>aecmfloat := x\<rparr> else a) \<and> same_frames (if on then a\<lparr>aecmfloat := x\<rparr> else a) a" if "block_ok a" for on a x
    using that by (simp add: block_ok_def estimators_ok_def same_frames_def)
  define a1 where "a1 = begin_block aecm far noisy clean"
  have a1: "block_ok a1" "same_frames a1 aecm" using begin_block_ok [OF assms(1-3), of clean] assms(4) by (simp_all add: a1_def)
  obtain fq dfw xfa t where fd: "TimeToFrequencyDomain a1 (xBuf a1) (replicate PART_LEN1 (0, 0)) = (fq, dfw, xfa, t)" by (metis surj_pair)
  note f = far_spectrum_ok [OF a1(1) fd]
  define on where "on = (enablefloatpro a1 = 1)"
  define b where "b = (if on then a1\<lparr>aecmfloat := store_far_float (aecmfloat a1) dfw fq\<rparr> else a1)"
  have b: "block_ok b" "same_frames b a1" using fl [OF a1(1)] by (simp_all add: b_def)
  obtain z1 nz z2 z3 where nb: "TimeToFrequencyDomain b (dBufNoisy b) dfw = (z1, nz, z2, z3)" by (metis surj_pair)
  obtain a2 dfw2 dn dc tot zn where ns: "near_spectra b dfw (clean \<noteq> None) = (a2, dfw2, dn, dc, tot, zn)" by (metis surj_pair)
  note n = near_spectra_ok [OF b(1) f(3) ns]
  define c where "c = (if on then a2\<lparr>aecmfloat := (aecmfloat a2)\<lparr>NearSpectrum := CopyFixFFT2Float nz (dfaNoisyQDomain a2)\<rparr>\<rparr> else a2)"
  have c: "block_ok c" "same_frames c a2" using fl n by (simp_all add: c_def)
  obtain a3 d where ed: "estimate_delay c xfa dn fq zn = (a3, Some d)" "block_ok a3" "same_frames a3 c"
    using estimate_delay_ok [of c xfa dn fq zn] c n f by blast
  define e where "e = (if on then a3\<lparr>aecmfloat := float_suppress (aecmfloat a3) (currentDelay a3)\<rparr> else a3)"
  have e: "block_ok e" "same_frames e a3" using fl ed by (simp_all add: e_def)
  obtain a4 h efw where se: "suppress_echo e xfa fq (currentDelay e - 1) dfw2 dn dc tot = (a4, h, efw)" by (metis surj_pair)
  note s = suppress_echo_block [OF e(1) se]
  define efw2 where "efw2 = (if on \<and> currentDelay a4 > 1 then CopyFloatFFT2Fix efw (dfaNoisyQDomain a4) (ErrorSpectrum (aecmfloat a4)) else efw)"
  obtain a6 out where iv: "InverseFFTAndWindow a4 efw2 (clean \<noteq> None) = (a6, out)" by (metis surj_pair)
  note i = InverseFFTAndWindow_ok [OF _ iv]
  have "WebRtcAecm_ProcessBlockwithFloat aecm far noisy clean = (a6, Some out, 0)"
    unfolding WebRtcAecm_ProcessBlockwithFloat_def Let_def a1_def [symmetric] fd prod.case on_def [symmetric] b_def [symmetric] nb ns
      c_def [symmetric] ed(1) option.case e_def [symmetric] se efw2_def [symmetric] iv by (rule refl)
  moreover have "same_frames a6 aecm" using a1(2) b(2) n c(2) ed(3) e(2) s i by (meson same_frames_trans)
  ultimately show ?thesis using s i by (simp add: block_done_def)
qed

end
