(* ===== verification/Aecm_Frame.thy ===== *)
theory Aecm_Frame
  imports Aecm_Float
begin

text \<open>
  \<open>WebRtcAecm_ProcessFrame\<close> of \<open>src/webrtc/modules/audio_processing/aecm/aecm_core.c\<close>: frames of 80
  samples in and out, blocks of 256 samples inside. The block loop and the two wrapping
  loops below it are partial: \<open>None\<close> is a call that does not return.
\<close>

section \<open>Frames\<close>

definition process_block ::
    "AecmCore \<Rightarrow> samples \<Rightarrow> samples \<Rightarrow> samples option \<Rightarrow> AecmCore \<times> samples option \<times> int" where
  "process_block aecm far_block near_noisy_block near_clean_block =
     (if enablefloatpro aecm = 1 then WebRtcAecm_ProcessBlockwithFloat aecm far_block near_noisy_block near_clean_block
      else WebRtcAecm_ProcessBlock aecm far_block near_noisy_block near_clean_block)"

text \<open>What a block is read as: the elements the pointer set by \<open>WebRtc_ReadBuffer\<close> refers to.\<close>

definition read_block :: "int RingBuffer option \<Rightarrow> nat \<Rightarrow> int RingBuffer option \<times> samples" where
  "read_block buf n =
     (let (buf, _, ptr, _) = WebRtc_ReadBuffer buf True (Some (replicate n 0)) n in (buf, the ptr))"

text \<open>The state after the block loop, and whether a block failed.\<close>

partial_function (option) process_blocks :: "bool \<Rightarrow> AecmCore \<Rightarrow> (AecmCore \<times> int) option" where
  "process_blocks has_clean aecm =
     (if WebRtc_available_read (farFrameBuf aecm) \<ge> PART_LEN
      then
        (let (buf, far_block) = read_block (farFrameBuf aecm) PART_LEN;
             aecm = aecm\<lparr>farFrameBuf := buf\<rparr>;
             (buf, near_noisy_block) = read_block (nearNoisyFrameBuf aecm) PART_LEN;
             aecm = aecm\<lparr>nearNoisyFrameBuf := buf\<rparr>;
             (aecm, near_clean_block) =
               (if has_clean
                then (let (buf, b) = read_block (nearCleanFrameBuf aecm) PART_LEN
                      in (aecm\<lparr>nearCleanFrameBuf := buf\<rparr>, Some b))
                else (aecm, None));
             (aecm, outBlock, r) = process_block aecm far_block near_noisy_block near_clean_block
         in if r = - 1 then Some (aecm, - 1)
            else process_blocks has_clean
                   (aecm\<lparr>outFrameBuf := fst (WebRtc_WriteBuffer (outFrameBuf aecm) outBlock PART_LEN)\<rparr>))
      else Some (aecm, 0))"

text \<open>The output frame: the buffer is stuffed when it holds less than a frame.\<close>

definition output_frame :: "AecmCore \<Rightarrow> samples \<Rightarrow> AecmCore \<times> samples" where
  "output_frame aecm out =
     (let size = i32 (int (WebRtc_available_read (outFrameBuf aecm)));
          aecm = (if size < int FRAME_LEN
                  then aecm\<lparr>outFrameBuf := fst (WebRtc_MoveReadPtr (outFrameBuf aecm) (i32 (size - int FRAME_LEN)))\<rparr>
                  else aecm);
          (buf, frame) = read_block (outFrameBuf aecm) FRAME_LEN
      in (aecm\<lparr>outFrameBuf := buf\<rparr>, mem_copy out 0 (take FRAME_LEN frame)))"

definition buffer_frames :: "AecmCore \<Rightarrow> samples \<Rightarrow> samples \<Rightarrow> samples option \<Rightarrow> AecmCore" where
  "buffer_frames aecm farFrame nearendNoisy nearendClean =
     (let aecm = aecm\<lparr>farFrameBuf := fst (WebRtc_WriteBuffer (farFrameBuf aecm) (Some farFrame) FRAME_LEN),
                      nearNoisyFrameBuf := fst (WebRtc_WriteBuffer (nearNoisyFrameBuf aecm) (Some nearendNoisy) FRAME_LEN)\<rparr>
      in (case nearendClean of None \<Rightarrow> aecm
          | Some clean \<Rightarrow>
             aecm\<lparr>nearCleanFrameBuf := fst (WebRtc_WriteBuffer (nearCleanFrameBuf aecm) (Some clean) FRAME_LEN)\<rparr>))"

definition WebRtcAecm_ProcessFrame ::
    "AecmCore \<Rightarrow> samples \<Rightarrow> samples \<Rightarrow> samples option \<Rightarrow> samples \<Rightarrow> (AecmCore \<times> samples \<times> int) option" where
  "WebRtcAecm_ProcessFrame aecm farend nearendNoisy nearendClean out =
     (case WebRtcAecm_BufferFarFrame aecm farend (int FRAME_LEN) of None \<Rightarrow> None
      | Some aecm \<Rightarrow>
         (case WebRtcAecm_FetchFarFrame aecm (replicate FRAME_LEN 0) (int FRAME_LEN) (knownDelay aecm) of None \<Rightarrow> None
          | Some (aecm, farFrame) \<Rightarrow>
             (case process_blocks (nearendClean \<noteq> None) (buffer_frames aecm farFrame nearendNoisy nearendClean) of
                None \<Rightarrow> None
              | Some (aecm, r) \<Rightarrow>
                 (if r = - 1 then Some (aecm, out, - 1)
                  else (let (aecm, out) = output_frame aecm out in Some (aecm, out, 0))))))"

section \<open>The frame buffers\<close>

text \<open>A ring buffer of capacity \<open>c\<close> that holds the samples \<open>xs\<close>; a frame buffer holds up to 336.\<close>

definition buffer_ok :: "nat \<Rightarrow> int RingBuffer option \<Rightarrow> samples \<Rightarrow> bool" where
  "buffer_ok c h xs \<longleftrightarrow> (\<exists>b. h = Some b \<and> rb_inv b \<and> element_count b = c \<and> list_all in_i16 (data b) \<and> rb_content b = xs)"

abbreviation queue_ok :: "int RingBuffer option \<Rightarrow> samples \<Rightarrow> bool" where
  "queue_ok \<equiv> buffer_ok (FRAME_LEN + PART_LEN)"

lemma buffer_okE:
  assumes "buffer_ok c h xs"
  obtains b where "h = Some b" "rb_inv b" "element_count b = c" "list_all in_i16 (data b)" "rb_content b = xs"
  using assms by (auto simp: buffer_ok_def)

lemma content_subset: "set (rb_content b) \<subseteq> set (data b)"
proof -
  have "set (rb_view b) \<subseteq> set (data b)" by (auto simp: rb_view_def dest: in_set_dropD in_set_takeD)
  then show ?thesis by (auto simp: rb_content_def dest: in_set_takeD)
qed

lemma buffer_samples: "buffer_ok c h xs \<Longrightarrow> list_all in_i16 xs"
  using content_subset by (fastforce simp: buffer_ok_def list_all_iff)

lemma buffer_available: "buffer_ok c h xs \<Longrightarrow> WebRtc_available_read h = length xs"
  by (auto simp: buffer_ok_def WebRtc_available_read_def)

lemma buffer_length: "buffer_ok c h xs \<Longrightarrow> length xs \<le> c"
  using available_read_le by (fastforce simp: buffer_ok_def)

lemma write_data_subset: "set (data (fst (write_buffer b src n))) \<subseteq> set (data b) \<union> set src"
proof -
  have t: "set (take k src) \<subseteq> set src" "set (mem_slice src k l) \<subseteq> set src" for k l
    using set_mem_slice [of src k l] by (auto dest: in_set_takeD)
  have c: "set (mem_copy d p s) \<subseteq> D \<union> S" if "set d \<subseteq> D \<union> S" "set s \<subseteq> S" for d p s and D S :: "'a set"
    using set_mem_copy [of d p s] that by blast
  show ?thesis
    unfolding write_buffer_def Let_def split_def by (simp, intro conjI impI c t) (auto simp: c t)
qed

lemma buffer_write:
  assumes "buffer_ok c h xs" "samples_ok n src"
  shows "buffer_ok c (fst (WebRtc_WriteBuffer h (Some src) n)) (xs @ take (c - length xs) src)"
proof -
  obtain b where b: "h = Some b" "rb_inv b" "element_count b = c" "list_all in_i16 (data b)" "rb_content b = xs"
    by (rule buffer_okE [OF assms(1)])
  let ?b = "fst (write_buffer b src n)"
  have n: "min n (available_write b) \<le> length src" using assms(2) by (auto simp: samples_ok_def)
  have "take (min n (available_write b)) src = take (c - length xs) src"
    using assms(2) b by (auto simp: available_write_eq samples_ok_def min_def)
  then have "rb_inv ?b" "rb_content ?b = xs @ take (c - length xs) src"
    using write_buffer_inv [OF b(2)] write_buffer_content [OF b(2)] n b(5) assms(2) by (auto simp: samples_ok_def)
  moreover have "list_all in_i16 (data ?b)" using write_data_subset [of b src n] b(4) assms(2) by (fastforce simp: list_all_iff samples_ok_def)
  moreover have "fst (WebRtc_WriteBuffer h (Some src) n) = Some ?b" by (simp add: b(1) WebRtc_WriteBuffer_def split_def Let_def)
  ultimately show ?thesis using b(3) by (simp add: buffer_ok_def)
qed

lemma queue_write:
  assumes "queue_ok h xs" "samples_ok n src" "length xs + n \<le> FRAME_LEN + PART_LEN"
  shows "queue_ok (fst (WebRtc_WriteBuffer h (Some src) n)) (xs @ src)"
  using buffer_write [OF assms(1,2)] assms(2,3) by (simp add: samples_ok_def)

lemma move_data [simp]: "data (fst (move_read_ptr b k)) = data b"
  by (simp add: move_read_ptr_def Let_def split: prod.splits)

lemma buffer_read:
  assumes "buffer_ok c h xs" "n \<le> length xs"
  obtains h' where "read_block h n = (h', take n xs)" "buffer_ok c h' (drop n xs)"
proof -
  obtain b where b: "h = Some b" "rb_inv b" "element_count b = c" "list_all in_i16 (data b)" "rb_content b = xs"
    by (rule buffer_okE [OF assms(1)])
  have n: "n = min n (available_read b)" using assms(2) b by auto
  note e = read_buffer_eq [OF b(2) n, of True "replicate n 0"]
  let ?b = "fst (move_read_ptr b (int n))"
  have "read_block h n = (Some ?b, take n xs)"
    using e b(1,5) by (simp add: read_block_def WebRtc_ReadBuffer_def split_def Let_def)
  moreover have "buffer_ok c (Some ?b) (drop n xs)"
    using rb_inv_forward(1) [OF b(2), of n] rb_content_forward [OF b(2), of n] n b by (simp add: buffer_ok_def)
  ultimately show thesis by (rule that)
qed

lemma buffer_stuff:
  assumes "buffer_ok c h xs" "length xs \<le> k" "k \<le> c"
  obtains ys where "buffer_ok c (fst (WebRtc_MoveReadPtr h (int (length xs) - int k))) (ys @ xs)" "length ys = k - length xs"
proof -
  obtain b where b: "h = Some b" "rb_inv b" "element_count b = c" "list_all in_i16 (data b)" "rb_content b = xs"
    by (rule buffer_okE [OF assms(1)])
  let ?m = "k - length xs"
  have m: "?m \<le> available_write b" using assms(2,3) b by (auto simp: available_write_eq)
  have i: "int (length xs) - int k = - int ?m" using assms(2) by simp
  let ?b = "fst (move_read_ptr b (- int ?m))"
  have "fst (WebRtc_MoveReadPtr h (int (length xs) - int k)) = Some ?b"
    unfolding i by (simp add: WebRtc_MoveReadPtr_def b(1) split_def Let_def)
  moreover have "buffer_ok c (Some ?b) (drop (element_count b - ?m) (rb_view b) @ xs)"
    using rb_inv_back(1) [OF b(2) m] rb_content_back [OF b(2) m] b by (simp add: buffer_ok_def)
  moreover have "length (drop (element_count b - ?m) (rb_view b)) = ?m" using b(2,3) assms(3) by (simp add: rb_inv_def)
  ultimately show thesis using that by metis
qed

lemma buffer_move:
  assumes "buffer_ok c h xs"
  shows "\<exists>ys. buffer_ok c (fst (WebRtc_MoveReadPtr h k)) ys"
proof -
  obtain b where b: "h = Some b" "rb_inv b" "element_count b = c" "list_all in_i16 (data b)"
    by (rule buffer_okE [OF assms])
  have "rb_inv (fst (move_read_ptr b k))"
  proof (cases "0 \<le> k")
    case True
    then show ?thesis using rb_inv_forward(1) [OF b(2), of "min (nat k) (available_read b)"] move_clip(1) [OF b(2) True] by simp
  next
    case False
    then show ?thesis using rb_inv_back(1) [OF b(2), of "min (nat (- k)) (available_write b)"] move_clip(2) [OF b(2)] by simp
  qed
  then show ?thesis using b by (auto simp: buffer_ok_def WebRtc_MoveReadPtr_def split_def Let_def)
qed


section \<open>The frame loop\<close>

lemma process_block_ok:
  assumes "block_ok aecm" "samples_ok PART_LEN far" "samples_ok PART_LEN noisy" "\<And>c. clean = Some c \<Longrightarrow> samples_ok PART_LEN c"
  shows "block_done aecm (process_block aecm far noisy clean)"
  using ProcessBlock_ok [OF assms] ProcessBlockwithFloat_ok [OF assms] by (simp add: process_block_def)

text \<open>
  How many samples wait on the two sides between frames. Frames of 80 fill blocks of 256: the
  level of the input is a multiple of 16, and from the third frame on input and output together hold 240 samples.
\<close>

definition levels :: "nat \<Rightarrow> nat \<Rightarrow> bool" where
  "levels i k \<longleftrightarrow> 16 dvd i \<and> i < 256 \<and> (i + k = 240 \<or> k = 0 \<and> i \<in> {0, 80, 160})"

lemma set_delay_line: "far_buf_ok aecm \<Longrightarrow> set (delay_line aecm) = set (farBuf aecm)"
  by (simp add: delay_line_def)

text \<open>The samples waiting for a block, and all samples inside.\<close>

definition waiting :: "AecmCore \<Rightarrow> nat \<times> nat" where
  "waiting aecm = (WebRtc_available_read (farFrameBuf aecm), WebRtc_available_read (farFrameBuf aecm) + WebRtc_available_read (outFrameBuf aecm))"

text \<open>
  The queues after the frame has been buffered, and the loop over the blocks. With \<open>hc\<close> the clean near end has been given in every
  call so far, and its queue keeps up with the others; without it the queue is well formed but not read.
\<close>

definition queues :: "bool \<Rightarrow> AecmCore \<Rightarrow> samples \<Rightarrow> samples \<Rightarrow> samples \<Rightarrow> samples \<Rightarrow> bool" where
  "queues hc a fs ns cs os \<longleftrightarrow> queue_ok (farFrameBuf a) fs \<and> queue_ok (nearNoisyFrameBuf a) ns \<and> queue_ok (outFrameBuf a) os \<and>
     length ns = length fs \<and> queue_ok (nearCleanFrameBuf a) cs \<and> (hc \<longrightarrow> length cs = length fs)"

text \<open>The state between frames.\<close>

definition frame_ok :: "bool \<Rightarrow> AecmCore \<Rightarrow> bool" where
  "frame_ok hc aecm \<longleftrightarrow> block_ok aecm \<and> far_buf_ok aecm \<and> list_all in_i16 (farBuf aecm) \<and>
     0 \<le> knownDelay aecm \<and> nat (knownDelay aecm) + FRAME_LEN \<le> FAR_BUF_LEN \<and> mult aecm \<in> {1, 2} \<and>
     (\<exists>fs ns cs os. queues hc aecm fs ns cs os \<and> levels (length fs) (length os))"

definition same_far :: "AecmCore \<Rightarrow> AecmCore \<Rightarrow> bool" where
  "same_far a b \<longleftrightarrow> farBuf a = farBuf b \<and> farBufWritePos a = farBufWritePos b \<and> farBufReadPos a = farBufReadPos b \<and>
     knownDelay a = knownDelay b \<and> lastKnownDelay a = lastKnownDelay b \<and> mult a = mult b"

lemma queues_waiting: "queues hc a fs ns cs os \<Longrightarrow> waiting a = (length fs, length fs + length os)"
  using buffer_available [of "FRAME_LEN + PART_LEN" "farFrameBuf a" fs] buffer_available [of "FRAME_LEN + PART_LEN" "outFrameBuf a" os] by (simp add: queues_def waiting_def)

lemma process_blocks_none:
  assumes "queues hc a fs ns cs os" "length fs < PART_LEN"
  shows "process_blocks hc a = Some (a, 0)"
proof -
  have "WebRtc_available_read (farFrameBuf a) = length fs" using queues_waiting [OF assms(1)] by (simp add: waiting_def)
  then show ?thesis using assms(2) by (simp add: process_blocks.simps)
qed

lemma process_blocks_one:
  assumes "queues hc a fs ns cs os" "block_ok a" "PART_LEN \<le> length fs" "length fs < PART_LEN2" "length os + PART_LEN \<le> FRAME_LEN + PART_LEN"
  obtains a' out where "process_blocks hc a = Some (a', 0)" "block_ok a'" "same_far a' a" "samples_ok PART_LEN out"
    "queues hc a' (drop PART_LEN fs) (drop PART_LEN ns) (if hc then drop PART_LEN cs else cs) (os @ out)"
proof -
  have q: "queue_ok (farFrameBuf a) fs" "queue_ok (nearNoisyFrameBuf a) ns" "queue_ok (outFrameBuf a) os" "length ns = length fs"
    "queue_ok (nearCleanFrameBuf a) cs" "hc \<Longrightarrow> length cs = length fs" using assms(1) by (auto simp: queues_def)
  obtain h1 where h1: "read_block (farFrameBuf a) PART_LEN = (h1, take PART_LEN fs)" "queue_ok h1 (drop PART_LEN fs)"
    using buffer_read [OF q(1) assms(3)] by blast
  obtain h2 where h2: "read_block (nearNoisyFrameBuf a) PART_LEN = (h2, take PART_LEN ns)" "queue_ok h2 (drop PART_LEN ns)"
    using buffer_read [OF q(2), of PART_LEN] assms(3) q(4) by auto
  define a1 where "a1 = a\<lparr>farFrameBuf := h1, nearNoisyFrameBuf := h2\<rparr>"
  obtain a2 cb where c: "(if hc then (let (buf, b) = read_block (nearCleanFrameBuf a) PART_LEN in (a1\<lparr>nearCleanFrameBuf := buf\<rparr>, Some b)) else (a1, None)) = (a2, cb)"
    by (metis surj_pair)
  have t: "samples_ok PART_LEN (take PART_LEN xs)" if "queue_ok h xs" "PART_LEN \<le> length xs" for h xs
    using that buffer_samples [OF that(1)] by (auto simp: samples_ok_def list_all_iff dest: in_set_takeD)
  have a1: "block_ok a1" using assms(2) by (simp add: a1_def block_ok_def estimators_ok_def)
  have a2: "block_ok a2" "same_far a2 a" "farFrameBuf a2 = h1" "nearNoisyFrameBuf a2 = h2" "outFrameBuf a2 = outFrameBuf a"
      "queue_ok (nearCleanFrameBuf a2) (if hc then drop PART_LEN cs else cs)" "\<And>x. cb = Some x \<Longrightarrow> samples_ok PART_LEN x"
  proof -
    have "block_ok a2 \<and> same_far a2 a \<and> farFrameBuf a2 = h1 \<and> nearNoisyFrameBuf a2 = h2 \<and> outFrameBuf a2 = outFrameBuf a \<and>
        queue_ok (nearCleanFrameBuf a2) (if hc then drop PART_LEN cs else cs) \<and> (\<forall>x. cb = Some x \<longrightarrow> samples_ok PART_LEN x)"
    proof (cases hc)
      case True
      obtain h3 where h3: "read_block (nearCleanFrameBuf a) PART_LEN = (h3, take PART_LEN cs)" "queue_ok h3 (drop PART_LEN cs)"
        using buffer_read [OF q(5), of PART_LEN] assms(3) q(6) [OF True] by auto
      have "a2 = a1\<lparr>nearCleanFrameBuf := h3\<rparr>" "cb = Some (take PART_LEN cs)" using c h3(1) True by auto
      then show ?thesis using a1 h3(2) t [OF q(5)] assms(3) q(6) [OF True] True
        by (simp add: a1_def same_far_def block_ok_def estimators_ok_def)
    next
      case False
      then show ?thesis using c a1 q(5) by (auto simp: a1_def same_far_def)
    qed
    then show "block_ok a2" "same_far a2 a" "farFrameBuf a2 = h1" "nearNoisyFrameBuf a2 = h2" "outFrameBuf a2 = outFrameBuf a"
      "queue_ok (nearCleanFrameBuf a2) (if hc then drop PART_LEN cs else cs)" "\<And>x. cb = Some x \<Longrightarrow> samples_ok PART_LEN x" by auto
  qed
  obtain a3 out where p: "process_block a2 (take PART_LEN fs) (take PART_LEN ns) cb = (a3, Some out, 0)" "block_ok a3" "same_frames a3 a2" "samples_ok PART_LEN out"
    using process_block_ok [OF a2(1) t [OF q(1) assms(3)], of "take PART_LEN ns" cb] t [OF q(2)] a2(7) assms(3) q(4) by (auto simp: block_done_def)
  define a4 where "a4 = a3\<lparr>outFrameBuf := fst (WebRtc_WriteBuffer (outFrameBuf a3) (Some out) PART_LEN)\<rparr>"
  have o: "queue_ok (outFrameBuf a4) (os @ out)"
    using queue_write [OF q(3) p(4) assms(5)] p(3) a2(5) by (simp add: a4_def same_frames_def)
  have q4: "queues hc a4 (drop PART_LEN fs) (drop PART_LEN ns) (if hc then drop PART_LEN cs else cs) (os @ out)"
    using o h1(2) h2(2) a2(3-6) q(4,6) p(3) by (simp add: queues_def a4_def same_frames_def)
  have r: "WebRtc_available_read (farFrameBuf a) \<ge> PART_LEN" using buffer_available [OF q(1)] assms(3) by simp
  have "process_blocks hc a = process_blocks hc a4"
    using r h1(1) h2(1) c p(1) unfolding a1_def a4_def
    by (subst process_blocks.simps) (cases hc; auto simp: Let_def split: prod.splits)
  moreover have "process_blocks hc a4 = Some (a4, 0)"
    using process_blocks_none [OF q4] assms(4) by (simp add: aecm_sizes)
  moreover have "block_ok a4" using p(2) by (simp add: a4_def block_ok_def estimators_ok_def)
  moreover have "same_far a4 a" using p(3) a2(2) by (simp add: a4_def same_far_def same_frames_def)
  ultimately show thesis using that p(4) q4 by simp
qed


lemma buffer_frames_queues:
  assumes "queues hc a fs ns cs os" "samples_ok FRAME_LEN far" "samples_ok FRAME_LEN noisy" "hc = (clean \<noteq> None)"
    "\<And>c. clean = Some c \<Longrightarrow> samples_ok FRAME_LEN c" "length fs \<le> PART_LEN"
  shows "queues hc (buffer_frames a far noisy clean) (fs @ far) (ns @ noisy) (if hc then cs @ the clean else cs) os"
proof -
  have w: "queue_ok (fst (WebRtc_WriteBuffer h (Some src) FRAME_LEN)) (xs @ src)"
    if "queue_ok h xs" "samples_ok FRAME_LEN src" "length xs = length fs" for h xs src
    using queue_write [OF that(1,2)] that(3) assms(6) by simp
  have l: "length far = FRAME_LEN" "length noisy = FRAME_LEN" using assms(2,3) by (simp_all add: samples_ok_def)
  show ?thesis
  proof (cases clean)
    case None
    then show ?thesis using assms(1-4) w [of "farFrameBuf a" fs far] w [of "nearNoisyFrameBuf a" ns noisy] l
      by (simp add: queues_def buffer_frames_def)
  next
    case (Some c)
    then have "samples_ok FRAME_LEN c" using assms(5) by simp
    then show ?thesis using assms(1-4) Some w [of "farFrameBuf a" fs far] w [of "nearNoisyFrameBuf a" ns noisy]
        w [of "nearCleanFrameBuf a" cs c] l
      by (simp add: queues_def buffer_frames_def) (simp add: samples_ok_def)
  qed
qed

lemma buffer_frames_same:
  "same_far (buffer_frames a far noisy clean) a" "block_ok a \<Longrightarrow> block_ok (buffer_frames a far noisy clean)"
  by (simp_all add: buffer_frames_def Let_def same_far_def block_ok_def estimators_ok_def split: option.splits)

text \<open>The output frame: the oldest 80 samples, behind a stuffing when less than a frame is there.\<close>

lemma output_frame_ok:
  assumes "queue_ok (outFrameBuf a) os" "length out = FRAME_LEN"
  obtains buf frame ys where "output_frame a out = (a\<lparr>outFrameBuf := buf\<rparr>, frame)" "samples_ok FRAME_LEN frame"
    "queue_ok buf (drop FRAME_LEN (ys @ os))" "frame = take FRAME_LEN (ys @ os)" "length ys = FRAME_LEN - length os"
proof -
  have ne: "outFrameBuf a \<noteq> None" and len: "length os \<le> FRAME_LEN + PART_LEN"
    using assms(1) buffer_length [OF assms(1)] by (auto simp: buffer_ok_def)
  then have i: "i32 (int (length os)) = int (length os)" "i32 (int (length os) - int FRAME_LEN) = int (length os) - int FRAME_LEN"
    by (auto intro!: i32_id simp: in_i32_def aecm_sizes)
  define h where "h = (if int (length os) < int FRAME_LEN then fst (WebRtc_MoveReadPtr (outFrameBuf a) (int (length os) - int FRAME_LEN)) else outFrameBuf a)"
  obtain ys where ys: "queue_ok h (ys @ os)" "length ys = FRAME_LEN - length os"
  proof (cases "length os < FRAME_LEN")
    case True
    then show thesis using buffer_stuff [OF assms(1), of FRAME_LEN] that by (auto simp: h_def)
  next
    case False
    then show thesis using that [of "[]"] assms(1) by (simp add: h_def)
  qed
  have n: "FRAME_LEN \<le> length (ys @ os)" using ys(2) by simp
  obtain buf where b: "read_block h FRAME_LEN = (buf, take FRAME_LEN (ys @ os))" "queue_ok buf (drop FRAME_LEN (ys @ os))"
    by (rule buffer_read [OF ys(1) n])
  define fr where "fr = take FRAME_LEN (ys @ os)"
  have "length fr = FRAME_LEN" "read_block h FRAME_LEN = (buf, fr)" using n b(1) by (simp_all add: fr_def)
  then have "output_frame a out = (a\<lparr>outFrameBuf := buf\<rparr>, fr)"
    using assms(2) by (auto simp: output_frame_def Let_def buffer_available [OF assms(1)] i h_def mem_copy_def)
  then have "output_frame a out = (a\<lparr>outFrameBuf := buf\<rparr>, take FRAME_LEN (ys @ os))" by (simp only: fr_def)
  moreover have "samples_ok FRAME_LEN (take FRAME_LEN (ys @ os))"
    using buffer_samples [OF ys(1)] n by (auto simp: samples_ok_def list_all_iff dest: in_set_takeD)
  ultimately show thesis using that b(2) ys(2) by blast
qed


lemma same_far_ok: "same_far a b \<Longrightarrow> far_buf_ok a = far_buf_ok b"
  by (simp add: same_far_def far_buf_ok_def)

lemma levels_next:
  assumes "levels i k"
  shows "i + 80 < 256 \<Longrightarrow> levels (i + 80) (80 - k + k - 80)" "256 \<le> i + 80 \<Longrightarrow> k \<le> 80" "256 \<le> i + 80 \<Longrightarrow> levels (i + 80 - 256) (k + 256 - 80)"
proof -
  obtain m where m: "i = 16 * m" using assms by (auto simp: levels_def)
  have d: "i + 80 = 16 * (m + 5)" "256 \<le> i + 80 \<Longrightarrow> i + 80 - 256 = 16 * (m - 11)" using m by auto
  show "256 \<le> i + 80 \<Longrightarrow> k \<le> 80" using assms m by (auto simp: levels_def)
  show "i + 80 < 256 \<Longrightarrow> levels (i + 80) (80 - k + k - 80)" using assms m unfolding levels_def d(1) by auto
  show "256 \<le> i + 80 \<Longrightarrow> levels (i + 80 - 256) (k + 256 - 80)" using assms m d(2) unfolding levels_def by auto
qed

lemma levels_total:
  assumes "levels i k"
  shows "i + 80 < 256 \<Longrightarrow> i + 80 + (80 - k + k - 80) = min 240 (i + k + 80)" "256 \<le> i + 80 \<Longrightarrow> i + k = 240"
proof -
  obtain m where m: "i = 16 * m" using assms by (auto simp: levels_def)
  show "i + 80 < 256 \<Longrightarrow> i + 80 + (80 - k + k - 80) = min 240 (i + k + 80)" using assms m by (auto simp: levels_def)
  show "256 \<le> i + 80 \<Longrightarrow> i + k = 240" using assms by (auto simp: levels_def)
qed

lemma process_blocks_ok:
  assumes "queues hc a fs ns cs os" "block_ok a" "length fs = i + FRAME_LEN" "levels i (length os)"
  obtains a' fs' ns' cs' os' where "process_blocks hc a = Some (a', 0)" "block_ok a'" "same_far a' a" "queues hc a' fs' ns' cs' os'"
    "levels (length fs') (FRAME_LEN - length os' + length os' - FRAME_LEN)" "length fs' = length fs mod PART_LEN"
    "length fs' + (FRAME_LEN - length os' + length os' - FRAME_LEN) = min 240 (i + length os + 80)"
proof (cases "length fs < PART_LEN")
  case True
  then have "levels (length fs) (FRAME_LEN - length os + length os - FRAME_LEN)"
    using levels_next(1) [OF assms(4)] assms(3) by (simp add: aecm_sizes)
  moreover have "length fs + (FRAME_LEN - length os + length os - FRAME_LEN) = min 240 (i + length os + 80)"
    using levels_total(1) [OF assms(4)] True assms(3) by (simp add: aecm_sizes)
  ultimately show thesis using process_blocks_none [OF assms(1) True] assms(1,2) True by (intro that [of a fs ns cs os]) (auto simp: same_far_def)
next
  case False
  have l: "i < 256" using assms(4) by (simp add: levels_def)
  have k: "length os \<le> FRAME_LEN" using levels_next(2) [OF assms(4)] False assms(3) by (simp add: aecm_sizes)
  obtain a' out where o: "process_blocks hc a = Some (a', 0)" "block_ok a'" "same_far a' a" "samples_ok PART_LEN out"
    "queues hc a' (drop PART_LEN fs) (drop PART_LEN ns) (if hc then drop PART_LEN cs else cs) (os @ out)"
    by (rule process_blocks_one [OF assms(1,2)]) (use False l k assms(3) in \<open>auto simp: aecm_sizes\<close>)
  have "levels (length (drop PART_LEN fs)) (FRAME_LEN - length (os @ out) + length (os @ out) - FRAME_LEN)"
    using levels_next(3) [OF assms(4)] False assms(3) o(4) by (simp add: samples_ok_def aecm_sizes)
  moreover have "length (drop PART_LEN fs) = length fs mod PART_LEN" using False l assms(3) by (simp add: aecm_sizes mod_if)
  moreover have "length (drop PART_LEN fs) + (FRAME_LEN - length (os @ out) + length (os @ out) - FRAME_LEN) = min 240 (i + length os + 80)"
    using levels_total(2) [OF assms(4)] False assms(3) o(4) by (simp add: samples_ok_def aecm_sizes)
  ultimately show thesis by (intro that [OF o(1-3,5)])
qed

lemma process_frame_ok:
  assumes "frame_ok hc aecm" "samples_ok FRAME_LEN far" "samples_ok FRAME_LEN noisy" "hc = (clean \<noteq> None)"
    "\<And>c. clean = Some c \<Longrightarrow> samples_ok FRAME_LEN c" "length out = FRAME_LEN"
  obtains a frame where "WebRtcAecm_ProcessFrame aecm far noisy clean out = Some (a, frame, 0)" "frame_ok hc a" "samples_ok FRAME_LEN frame"
    "waiting a = ((fst (waiting aecm) + FRAME_LEN) mod PART_LEN, min 240 (snd (waiting aecm) + FRAME_LEN))"
proof -
  have ok: "block_ok aecm" "far_buf_ok aecm" "list_all in_i16 (farBuf aecm)" "0 \<le> knownDelay aecm" "nat (knownDelay aecm) + FRAME_LEN \<le> FAR_BUF_LEN" "mult aecm \<in> {1, 2}"
    using assms(1) by (simp_all add: frame_ok_def)
  obtain fs ns cs os where q: "queues hc aecm fs ns cs os" "levels (length fs) (length os)" using assms(1) by (auto simp: frame_ok_def)
  let ?line = "delay_line aecm @ far" and ?d = "knownDelay aecm"
  let ?f = "mem_slice ?line (FAR_BUF_LEN - nat ?d) FRAME_LEN"
  have lf: "length far = FRAME_LEN" using assms(2) by (simp add: samples_ok_def)
  obtain b w r where B: "WebRtcAecm_BufferFarFrame aecm far (int FRAME_LEN) = Some (aecm\<lparr>farBuf := b, farBufWritePos := w\<rparr>)"
    "WebRtcAecm_FetchFarFrame (aecm\<lparr>farBuf := b, farBufWritePos := w\<rparr>) (replicate FRAME_LEN 0) (int FRAME_LEN) ?d =
       Some (aecm\<lparr>farBuf := b, farBufWritePos := w, farBufReadPos := r, lastKnownDelay := ?d\<rparr>, ?f)"
    "far_buf_ok (aecm\<lparr>farBuf := b, farBufWritePos := w, farBufReadPos := r, lastKnownDelay := ?d\<rparr>)"
    "delay_line (aecm\<lparr>farBuf := b, farBufWritePos := w, farBufReadPos := r, lastKnownDelay := ?d\<rparr>) = drop FRAME_LEN ?line"
    by (rule buffer_then_fetch [OF ok(2) lf length_replicate ok(4,5)])
  define a1 where "a1 = aecm\<lparr>farBuf := b, farBufWritePos := w, farBufReadPos := r, lastKnownDelay := ?d\<rparr>"
  have all: "list_all in_i16 ?line" using ok(3) assms(2) set_delay_line [OF ok(2)] by (auto simp: list_all_iff samples_ok_def)
  have "set b = set (drop FRAME_LEN ?line)" using B(4) set_delay_line [OF B(3)] by simp
  then have b: "list_all in_i16 (farBuf a1)" using all by (auto simp: a1_def list_all_iff dest: in_set_dropD)
  have lline: "length ?line = FAR_BUF_LEN + FRAME_LEN" using ok(2) lf by (simp add: delay_line_def far_buf_ok_def)
  then have f: "samples_ok FRAME_LEN ?f"
    using all set_mem_slice [of ?line "FAR_BUF_LEN - nat ?d" FRAME_LEN] by (auto simp: samples_ok_def list_all_iff mem_slice_def)
  have a1: "block_ok a1" "queues hc a1 fs ns cs os" using ok(1) q(1) by (simp_all add: a1_def block_ok_def estimators_ok_def queues_def)
  define a2 where "a2 = buffer_frames a1 ?f noisy clean"
  have "length fs \<le> PART_LEN" using q(2) by (simp add: levels_def aecm_sizes)
  then have q2: "queues hc a2 (fs @ ?f) (ns @ noisy) (if hc then cs @ the clean else cs) os"
    unfolding a2_def by (intro buffer_frames_queues [OF a1(2) f assms(3,4,5)])
  have a2: "block_ok a2" "same_far a2 a1" using buffer_frames_same a1(1) by (simp_all add: a2_def)
  have len: "length (fs @ ?f) = length fs + FRAME_LEN" using f by (simp add: samples_ok_def)
  obtain a3 fs' ns' cs' os' where p: "process_blocks hc a2 = Some (a3, 0)" "block_ok a3" "same_far a3 a2" "queues hc a3 fs' ns' cs' os'"
      "levels (length fs') (FRAME_LEN - length os' + length os' - FRAME_LEN)" "length fs' = length (fs @ ?f) mod PART_LEN"
      "length fs' + (FRAME_LEN - length os' + length os' - FRAME_LEN) = min 240 (length fs + length os + 80)"
    by (rule process_blocks_ok [OF q2 a2(1) len q(2)])
  have qo: "queue_ok (outFrameBuf a3) os'" using p(4) by (simp add: queues_def)
  obtain buf frame ys where o: "output_frame a3 out = (a3\<lparr>outFrameBuf := buf\<rparr>, frame)" "samples_ok FRAME_LEN frame"
      "queue_ok buf (drop FRAME_LEN (ys @ os'))" "length ys = FRAME_LEN - length os'"
    by (rule output_frame_ok [OF qo assms(6)])
  let ?a = "a3\<lparr>outFrameBuf := buf\<rparr>"
  have "WebRtcAecm_ProcessFrame aecm far noisy clean out = Some (?a, frame, 0)"
    using B(1,2) p(1) o(1) assms(4) by (simp add: WebRtcAecm_ProcessFrame_def a2_def a1_def)
  moreover have q3: "queues hc ?a fs' ns' cs' (drop FRAME_LEN (ys @ os'))" using p(4) o(3) by (simp add: queues_def)
  moreover have "block_ok ?a" using p(2) by (simp add: block_ok_def estimators_ok_def)
  moreover have s: "same_far ?a a1" using p(3) a2(2) by (simp add: same_far_def)
  moreover have "far_buf_ok ?a" using same_far_ok [OF s] B(3) by (simp add: a1_def)
  moreover have "length (drop FRAME_LEN (ys @ os')) = FRAME_LEN - length os' + length os' - FRAME_LEN" using o(4) by simp
  then have "levels (length fs') (length (drop FRAME_LEN (ys @ os')))" using p(5) by (simp only:)
  moreover have "knownDelay ?a = knownDelay aecm" "farBuf ?a = farBuf a1" "mult ?a = mult aecm" using s by (simp_all add: same_far_def a1_def)
  ultimately have "frame_ok hc ?a" unfolding frame_ok_def using b ok(4-6) by metis
  moreover have "waiting ?a = ((fst (waiting aecm) + FRAME_LEN) mod PART_LEN, min 240 (snd (waiting aecm) + FRAME_LEN))"
    unfolding queues_waiting [OF q(1)] queues_waiting [OF q3] using p(6,7) o(4) len by (simp add: FRAME_LEN_def)
  ultimately show thesis using that o(2) \<open>WebRtcAecm_ProcessFrame aecm far noisy clean out = Some (?a, frame, 0)\<close> by blast
qed

section \<open>From creation to the end of a session\<close>

text \<open>
  What the allocation of the core gives: arrays of their sizes with arbitrary 16-bit contents
  where \<open>WebRtcAecm_InitCore\<close> leaves them as they are.
\<close>

definition raw_core :: "AecmCore \<Rightarrow> bool" where
  "raw_core raw \<longleftrightarrow> samples_ok FAR_BUF_LEN (farBuf raw) \<and> length (channelStored raw) = PART_LEN1 \<and>
     length (channelAdapt16 raw) = PART_LEN1 \<and> length (channelAdapt32 raw) = PART_LEN1"

definition fresh_buffer :: "int RingBuffer option \<Rightarrow> bool" where
  "fresh_buffer h \<longleftrightarrow> (\<exists>b. h = Some b \<and> element_count b = FRAME_LEN + PART_LEN)"

definition init_shape :: "AecmCore \<Rightarrow> bool" where
  "init_shape a \<longleftrightarrow> samples_ok FAR_BUF_LEN (farBuf a) \<and> fresh_buffer (farFrameBuf a) \<and> fresh_buffer (nearNoisyFrameBuf a) \<and> fresh_buffer (nearCleanFrameBuf a) \<and>
     fresh_buffer (outFrameBuf a) \<and> real_fft a = Some \<lparr>order = PART_LEN_SHIFT\<rparr> \<and>
     (\<exists>f. delay_estimator_farend a = Some f \<and> farend_shape (int MAX_DELAY) (int PART_LEN1) f) \<and>
     (\<exists>e. delay_estimator a = Some e \<and> estimator_shape (int MAX_DELAY) (int PART_LEN1) e)"

definition core_shape :: "AecmCore \<Rightarrow> bool" where
  "core_shape a \<longleftrightarrow> raw_core a \<and> init_shape a"

lemma CreateCore_shape:
  assumes "raw_core raw"
  shows "\<exists>a. WebRtcAecm_CreateCore (\<lambda>_. True) g raw = Some a \<and> core_shape a"
proof -
  have s: "44 \<le> int PART_LEN1" "1 < int MAX_DELAY" by (simp_all add: aecm_sizes)
  obtain f where f: "WebRtc_CreateDelayEstimatorFarend True True True True True g g (int PART_LEN1) (int MAX_DELAY) = Some f"
      "farend_shape (int MAX_DELAY) (int PART_LEN1) f"
    using CreateDelayEstimatorFarend_shape [OF s] by blast
  obtain e where e: "WebRtc_CreateDelayEstimator True True True True True True True g g (Some f) 0 = Some e"
      "estimator_shape (int MAX_DELAY) (int PART_LEN1) e"
    using CreateDelayEstimator_shape [OF f(2), of 0 g g] by auto
  obtain b :: "int RingBuffer" where b: "WebRtc_CreateBuffer True True (FRAME_LEN + PART_LEN) 2 = Some b" "element_count b = FRAME_LEN + PART_LEN"
    by (simp add: WebRtc_CreateBuffer_def WebRtc_InitBuffer_def aecm_sizes)
  have "WebRtcSpl_CreateRealFFT True PART_LEN_SHIFT = Some \<lparr>order = PART_LEN_SHIFT\<rparr>"
    by (simp add: WebRtcSpl_CreateRealFFT_def PART_LEN_SHIFT_def kMaxFFTOrder_def)
  then show ?thesis
    using assms e(2) f(2) b(2)
    by (simp add: WebRtcAecm_CreateCore_def b(1) f(1) e(1) WebRtc_enable_robust_validation_def core_shape_def init_shape_def fresh_buffer_def
        raw_core_def estimator_shape_def)
qed

lemma InitCore_frame_ok:
  assumes "init_shape a" "freq = 8000 \<or> freq = 16000"
  obtains b where "WebRtcAecm_InitCore a freq = (b, 0)" "frame_ok hc b" "raw_core a \<Longrightarrow> estimation_ok 4096 2048 768 b" "mult b = freq div 8000" "waiting b = (0, 0)"
proof -
  obtain f e where fe: "delay_estimator_farend a = Some f" "farend_shape (int MAX_DELAY) (int PART_LEN1) f"
      "delay_estimator a = Some e" "estimator_shape (int MAX_DELAY) (int PART_LEN1) e" using assms(1) by (auto simp: init_shape_def)
  obtain f' where f': "WebRtc_InitDelayEstimatorFarend (Some f) = (Some f', 0)" "farend_wrapper_ok (int MAX_DELAY) f'" "farend_spectrum_size f' = int PART_LEN1"
    using InitDelayEstimatorFarend_ok [OF fe(2)] by auto
  obtain e' where e': "WebRtc_InitDelayEstimator (Some e) = (Some e', 0)" "estimator_wrapper_ok (int MAX_DELAY) e'" "spectrum_size e' = int PART_LEN1"
    using InitDelayEstimator_ok [OF fe(4)] by auto
  define c where "c = (init_core_buffers a freq)\<lparr>delay_estimator_farend := Some f', delay_estimator := Some e'\<rparr>"
  define b where "b = init_core_levels (init_core_history c freq)"
  have i: "WebRtcAecm_InitCore a freq = (b, 0)"
    using assms(2) fe f'(1) e'(1) by (auto simp: WebRtcAecm_InitCore_def Let_def b_def c_def init_core_buffers_def)
  have raw: "samples_ok FAR_BUF_LEN (farBuf a)" using assms(1) by (simp add: init_shape_def)
  have est: "raw_core a \<Longrightarrow> estimation_ok 4096 2048 768 b"
    unfolding b_def by (intro estimation_initial) (simp_all add: c_def init_core_buffers_def raw_core_def)
  have keep: "farBuf b = farBuf a" "farBufWritePos b = 0" "farBufReadPos b = 0" "knownDelay b = 0" "lastKnownDelay b = 0"
      "farFrameBuf b = map_option WebRtc_InitBuffer (farFrameBuf a)" "nearNoisyFrameBuf b = map_option WebRtc_InitBuffer (nearNoisyFrameBuf a)"
      "nearCleanFrameBuf b = map_option WebRtc_InitBuffer (nearCleanFrameBuf a)" "outFrameBuf b = map_option WebRtc_InitBuffer (outFrameBuf a)"
      "real_fft b = real_fft a" "fixedDelay b = - 1" "delay_estimator_farend b = Some f'" "delay_estimator b = Some e'"
      "xBuf b = replicate PART_LEN2 0" "dBufNoisy b = replicate PART_LEN2 0" "dBufClean b = replicate PART_LEN2 0" "mult b = i16 freq sdiv 8000"
    by (simp_all add: b_def c_def init_core_levels_def init_core_history_def init_core_buffers_def Let_def WebRtcAecm_InitEchoPathCore_def)
  have z: "queue_ok (map_option WebRtc_InitBuffer h) []" if "fresh_buffer h" for h
    using that by (auto simp: fresh_buffer_def buffer_ok_def intro!: rb_inv_init) (simp_all add: WebRtc_InitBuffer_def list_all_iff aecm_sizes in_i16_def)
  have "queues hc b [] [] [] []" using z assms(1) by (simp add: queues_def keep init_shape_def)
  moreover have "block_ok b"
    using assms(1) f'(2,3) e'(2,3) by (simp add: block_ok_def estimators_ok_def keep init_shape_def samples_ok_def list_all_iff MAX_DELAY_def in_i16_def)
  moreover have "far_buf_ok b" using raw by (simp add: far_buf_ok_def keep samples_ok_def)
  moreover have "levels 0 0" by (simp add: levels_def)
  moreover have m: "mult b = freq div 8000" using assms(2) by (auto simp: keep i16_def signed_divide_int_def)
  ultimately have "frame_ok hc b"
    unfolding frame_ok_def using raw assms(2) by (auto simp: keep samples_ok_def aecm_sizes intro!: exI [of _ "[]"])
  moreover have "waiting b = (0, 0)" using queues_waiting [OF \<open>queues hc b [] [] [] []\<close>] by simp
  ultimately show thesis using that i est m by simp
qed

lemma InitCore_ok:
  assumes "core_shape a" "freq = 8000 \<or> freq = 16000"
  obtains b where "WebRtcAecm_InitCore a freq = (b, 0)" "frame_ok hc b" "estimation_ok 4096 2048 768 b" "mult b = freq div 8000" "waiting b = (0, 0)"
  by (rule InitCore_frame_ok [of a freq hc]) (use assms in \<open>auto simp: core_shape_def\<close>)

text \<open>A core in use can be initialised again, and the clean near end can be left out from any frame on.\<close>

lemma frame_ok_shape: "frame_ok hc a \<Longrightarrow> init_shape a"
  by (auto simp: frame_ok_def init_shape_def far_buf_ok_def samples_ok_def queues_def buffer_ok_def fresh_buffer_def block_ok_def estimators_ok_def
      farend_wrapper_ok_def farend_ok_def farend_shape_def estimator_wrapper_ok_def estimator_ok_def estimator_shape_def aecm_sizes)

lemma frame_ok_without_clean: "frame_ok True a \<Longrightarrow> frame_ok False a"
  by (auto simp: frame_ok_def queues_def)

text \<open>
  What happens when the clean near end comes back after a frame without it: its queue holds 80 samples less, and when the fourth frame
  completes a block of 256 samples, only 240 are there to be read.
\<close>

lemma clean_gap:
  assumes "queues True a [] [] [] os" "samples_ok FRAME_LEN x"
  defines "b \<equiv> fold (\<lambda>clean a. buffer_frames a x x clean) [None, Some x, Some x, Some x] a"
  shows "WebRtc_available_read (farFrameBuf b) = 320" and "WebRtc_available_read (nearCleanFrameBuf b) = 240"
proof -
  have l: "length x = 80" using assms(2) by (simp add: samples_ok_def FRAME_LEN_def)
  have w: "queue_ok (fst (WebRtc_WriteBuffer h (Some x) FRAME_LEN)) (xs @ x)" if "queue_ok h xs" "length xs \<le> 256" for h xs
    using queue_write [OF that(1) assms(2)] that(2) by (simp add: aecm_sizes)
  have q: "queue_ok (farFrameBuf a) []" "queue_ok (nearCleanFrameBuf a) []" using assms(1) by (simp_all add: queues_def)
  have "queue_ok (farFrameBuf b) (((([] @ x) @ x) @ x) @ x)"
    unfolding b_def by (simp add: buffer_frames_def Let_def) (use w [OF w [OF w [OF w [OF q(1)]]]] l in simp)
  moreover have "queue_ok (nearCleanFrameBuf b) ((([] @ x) @ x) @ x)"
    unfolding b_def by (simp add: buffer_frames_def Let_def) (use w [OF w [OF w [OF q(2)]]] l in simp)
  ultimately show "WebRtc_available_read (farFrameBuf b) = 320" "WebRtc_available_read (nearCleanFrameBuf b) = 240"
    using l by (simp_all add: buffer_available)
qed

text \<open>A session: every frame of the list in turn; the output \<open>None\<close> would be a call that does not return.\<close>

definition frame_step ::
    "AecmCore \<Rightarrow> samples \<times> samples \<times> samples option \<Rightarrow> AecmCore \<times> (samples \<times> int) option" where
  "frame_step aecm = (\<lambda>(far, noisy, clean).
     (case WebRtcAecm_ProcessFrame aecm far noisy clean (replicate FRAME_LEN 0) of
        None \<Rightarrow> (aecm, None)
      | Some (a, out, r) \<Rightarrow> (a, Some (out, r))))"

definition frame_input :: "bool \<Rightarrow> samples \<times> samples \<times> samples option \<Rightarrow> bool" where
  "frame_input hc = (\<lambda>(far, noisy, clean). samples_ok FRAME_LEN far \<and> samples_ok FRAME_LEN noisy \<and>
     (case clean of None \<Rightarrow> \<not> hc | Some c \<Rightarrow> hc \<and> samples_ok FRAME_LEN c))"

lemma frame_step_ok:
  assumes "frame_ok hc aecm" "frame_input hc e"
  shows "frame_ok hc (fst (frame_step aecm e)) \<and> (\<exists>out. snd (frame_step aecm e) = Some (out, 0) \<and> samples_ok FRAME_LEN out) \<and>
    waiting (fst (frame_step aecm e)) = ((fst (waiting aecm) + FRAME_LEN) mod PART_LEN, min 240 (snd (waiting aecm) + FRAME_LEN))"
proof -
  obtain far noisy clean where e: "e = (far, noisy, clean)" by (metis surj_pair)
  have i: "samples_ok FRAME_LEN far" "samples_ok FRAME_LEN noisy" "hc = (clean \<noteq> None)" "\<And>c. clean = Some c \<Longrightarrow> samples_ok FRAME_LEN c"
    using assms(2) by (auto simp: e frame_input_def split: option.splits)
  show ?thesis
    by (rule process_frame_ok [OF assms(1) i, of "replicate FRAME_LEN 0"]) (simp_all add: e frame_step_def)
qed

interpretation frames: invariant_step frame_step "frame_ok hc" "frame_input hc" "\<lambda>_ r. \<exists>out. r = Some (out, 0) \<and> samples_ok FRAME_LEN out" for hc
  by unfold_locales (use frame_step_ok in blast)+

lemma session_waiting:
  assumes "frame_ok hc aecm" "list_all (frame_input hc) es" "waiting aecm = (80 * n mod 256, min 240 (80 * n))"
  shows "waiting (fst (run frame_step aecm es)) = (80 * (n + length es) mod 256, min 240 (80 * (n + length es)))"
  using assms
proof (induction es arbitrary: aecm n)
  case (Cons e es)
  let ?a = "fst (frame_step aecm e)"
  have s: "frame_ok hc ?a" "waiting ?a = ((fst (waiting aecm) + FRAME_LEN) mod PART_LEN, min 240 (snd (waiting aecm) + FRAME_LEN))"
    using frame_step_ok [of hc aecm e] Cons.prems by simp_all
  then have "waiting ?a = (80 * Suc n mod 256, min 240 (80 * Suc n))" using Cons.prems(3) by (simp add: aecm_sizes mod_simps add.commute)
  from Cons.IH [OF s(1) _ this] Cons.prems(2) show ?case by (simp add: split_def Let_def)
qed simp


section \<open>Properties\<close>

text \<open>C2: a session returns and is safe. When the core has been allocated and initialised for 8 or
  16 kHz, every call of \<open>WebRtcAecm_ProcessFrame\<close> in any sequence of 80-sample frames, where the clean near end is given in the first
  frames (all of them, some, or none) and not in the later ones, returns (its loops end), answers 0 and gives 80 16-bit samples, and the
  invariant of the frame buffers, the far-end buffer, the signals and the delay estimators holds at the end. A clean near end
  that comes back after it was left out is excluded: its buffer then holds less than the others (lemma \<open>clean_gap\<close>).\<close>

theorem frame_session:
  assumes "raw_core raw" "freq = 8000 \<or> freq = 16000" "list_all (frame_input True) given" "list_all (frame_input False) without"
    "i < length (given @ without)"
  shows "\<exists>a b out. WebRtcAecm_CreateCore (\<lambda>_. True) g raw = Some a \<and> WebRtcAecm_InitCore a freq = (b, 0) \<and>
    frame_ok (without = []) (fst (run frame_step b (given @ without))) \<and>
    snd (run frame_step b (given @ without)) ! i = Some (out, 0) \<and> samples_ok FRAME_LEN out"
proof -
  obtain a where a: "WebRtcAecm_CreateCore (\<lambda>_. True) g raw = Some a" "core_shape a" using CreateCore_shape [OF assms(1)] by blast
  obtain b where b: "WebRtcAecm_InitCore a freq = (b, 0)" "frame_ok True b" by (rule InitCore_ok [OF a(2) assms(2)])
  define c where "c = fst (run frame_step b given)"
  have c: "frame_ok True c" "frame_ok False c" using frames.run_inv [OF b(2) assms(3)] frame_ok_without_clean by (simp_all add: c_def)
  have e: "run frame_step b (given @ without) = (fst (run frame_step c without), snd (run frame_step b given) @ snd (run frame_step c without))"
    by (simp add: run_append split_def Let_def c_def)
  have "frame_ok (without = []) (fst (run frame_step c without))" using c frames.run_inv [OF c(2) assms(4)] by (cases without) auto
  moreover obtain out where "(snd (run frame_step b given) @ snd (run frame_step c without)) ! i = Some (out, 0)" "samples_ok FRAME_LEN out"
  proof (cases "i < length given")
    case True
    then show thesis using frames.run_outputs [OF b(2) assms(3) True] that by (auto simp: nth_append)
  next
    case False
    then have "i - length given < length without" using assms(5) by simp
    from frames.run_outputs [OF c(2) assms(4) this] show thesis using False that by (auto simp: nth_append)
  qed
  ultimately have "frame_ok (without = []) (fst (run frame_step b (given @ without))) \<and>
      snd (run frame_step b (given @ without)) ! i = Some (out, 0) \<and> samples_ok FRAME_LEN out" by (simp add: e)
  then show ?thesis using a(1) b(1) by blast
qed

lemma raw_core_zero: "raw_core zero_core"
  by (simp add: raw_core_def zero_core_def samples_ok_def list_all_iff in_i16_def)

lemma frame_input_clean: "in_i16 x \<Longrightarrow> in_i16 y \<Longrightarrow> frame_input True (replicate 80 x, replicate 80 y, Some (replicate 80 y))"
  by (simp add: frame_input_def samples_ok_def list_all_iff FRAME_LEN_def)

lemma frame_input_constant: "in_i16 x \<Longrightarrow> in_i16 y \<Longrightarrow> frame_input False (replicate 80 x, replicate 80 y, None)"
  by (simp add: frame_input_def samples_ok_def list_all_iff FRAME_LEN_def)

theorem frame_session_witness:
  "\<exists>a b out. WebRtcAecm_CreateCore (\<lambda>_. True) (\<lambda>_. 7) zero_core = Some a \<and> WebRtcAecm_InitCore a 16000 = (b, 0) \<and>
     frame_ok False (fst (run frame_step b (replicate 2 (replicate 80 1000, replicate 80 (- 300), Some (replicate 80 (- 300))) @
       replicate 3 (replicate 80 1000, replicate 80 (- 300), None)))) \<and>
     snd (run frame_step b (replicate 2 (replicate 80 1000, replicate 80 (- 300), Some (replicate 80 (- 300))) @
       replicate 3 (replicate 80 1000, replicate 80 (- 300), None))) ! 4 = Some (out, 0) \<and> samples_ok FRAME_LEN out"
  using frame_session [OF raw_core_zero, of 16000 "replicate 2 (replicate 80 1000, replicate 80 (- 300), Some (replicate 80 (- 300)))"
      "replicate 3 (replicate 80 1000, replicate 80 (- 300), None)" 4 "\<lambda>_. 7"]
  by (simp add: frame_input_constant frame_input_clean list_all_iff in_i16_def)

text \<open>C8: the latency. After \<open>n\<close> frames of a session the canceller holds \<open>min 240 (80 * n)\<close> samples,
  \<open>80 * n mod 256\<close> of them waiting for a block to fill: the output is stuffed with a whole frame
  in each of the first three calls and never again, so that from the third on as many samples leave as enter.\<close>

theorem frame_latency:
  assumes "raw_core raw" "freq = 8000 \<or> freq = 16000" "list_all (frame_input hc) frames"
  shows "\<exists>a b. WebRtcAecm_CreateCore (\<lambda>_. True) g raw = Some a \<and> WebRtcAecm_InitCore a freq = (b, 0) \<and>
    waiting (fst (run frame_step b frames)) = (80 * length frames mod 256, min 240 (80 * length frames))"
proof -
  obtain a where a: "WebRtcAecm_CreateCore (\<lambda>_. True) g raw = Some a" "core_shape a" using CreateCore_shape [OF assms(1)] by blast
  obtain b where b: "WebRtcAecm_InitCore a freq = (b, 0)" "frame_ok hc b" "waiting b = (0, 0)" by (rule InitCore_ok [OF a(2) assms(2)])
  show ?thesis using a(1) b(1) session_waiting [OF b(2) assms(3), of 0] b(3) by simp
qed

theorem frame_latency_witness:
  "\<exists>a b. WebRtcAecm_CreateCore (\<lambda>_. True) (\<lambda>_. 7) zero_core = Some a \<and> WebRtcAecm_InitCore a 8000 = (b, 0) \<and>
     waiting (fst (run frame_step b (replicate 4 (replicate 80 1000, replicate 80 (- 300), None)))) = (64, 240)"
  using frame_latency [OF raw_core_zero, of 8000 False "replicate 4 (replicate 80 1000, replicate 80 (- 300), None)" "\<lambda>_. 7"]
  by (simp add: frame_input_constant list_all_iff in_i16_def)

end
