(* ===== verification/Echo_Control_Mobile.thy ===== *)
theory Echo_Control_Mobile
  imports Aecm_Frame
begin

unbundle bit_operations_syntax

text \<open>
  \<open>src/webrtc/modules/audio_processing/aecm/echo_control_mobile.c\<close>: the interface of the AECM. A
  handle is an \<open>option\<close>, \<open>None\<close> for \<open>NULL\<close>; an array argument likewise. An operation returns
  the instance, the caller's arrays it writes, and the return code. \<open>knownDelay\<close> and \<open>sum\<close> of
  the structure are \<open>instKnownDelay\<close> and \<open>bufSum\<close> here.
\<close>

section \<open>State\<close>

definition AECM_UNSPECIFIED_ERROR :: int where "AECM_UNSPECIFIED_ERROR = 12000"

definition AECM_UNINITIALIZED_ERROR :: int where "AECM_UNINITIALIZED_ERROR = 12002"

definition AECM_NULL_POINTER_ERROR :: int where "AECM_NULL_POINTER_ERROR = 12003"

definition AECM_BAD_PARAMETER_ERROR :: int where "AECM_BAD_PARAMETER_ERROR = 12004"

definition AECM_BAD_PARAMETER_WARNING :: int where "AECM_BAD_PARAMETER_WARNING = 12100"

definition BUF_SIZE_FRAMES :: int where "BUF_SIZE_FRAMES = 50"

definition kBufSizeSamp :: nat where "kBufSizeSamp = nat BUF_SIZE_FRAMES * FRAME_LEN"

definition kSampMsNb :: int where "kSampMsNb = 8"

definition kInitCheck :: int where "kInitCheck = 42"

record AecmConfig =
  config_cngMode :: int
  config_echoMode :: int

record AecMobile =
  sampFreq :: int
  scSampFreq :: int
  bufSizeStart :: int
  instKnownDelay :: int
  farendOld :: "samples list"
  initFlag :: int
  counter :: int
  bufSum :: int
  firstVal :: int
  checkBufSizeCtr :: int
  msInSndCardBuf :: int
  filtDelay :: int
  timeForDelayChange :: int
  ECstartup :: int
  checkBuffSize :: int
  delayChange :: int
  lastDelayDiff :: int
  echoMode :: int
  farendBuf :: "int RingBuffer option"
  aecmCore :: AecmCore

section \<open>Creation and configuration\<close>

text \<open>
  \<open>ok\<close> and \<open>g\<close> are as for \<open>WebRtcAecm_CreateCore\<close>; \<open>raw\<close> is what the memory of the
  instance holds after the unchecked \<open>malloc\<close>, and its core what the core's memory holds.
\<close>

definition WebRtcAecm_Create :: "(nat \<Rightarrow> bool) \<Rightarrow> (nat \<Rightarrow> int) \<Rightarrow> AecMobile \<Rightarrow> AecMobile option" where
  "WebRtcAecm_Create ok g raw =
     (case WebRtcAecm_CreateCore ok g (aecmCore raw) of None \<Rightarrow> None
      | Some core \<Rightarrow>
         (case WebRtc_CreateBuffer (ok 21) (ok 22) kBufSizeSamp 2 of None \<Rightarrow> None
          | Some buf \<Rightarrow> Some (raw\<lparr>aecmCore := core, farendBuf := Some buf, initFlag := 0\<rparr>)))"

text \<open>The gains of an echo mode; \<open>s\<close> is the shift the branch applies to every constant.\<close>

definition set_gains :: "(int \<Rightarrow> int) \<Rightarrow> AecmCore \<Rightarrow> AecmCore" where
  "set_gains s core =
     core\<lparr>supGain := i16 (s SUPGAIN_DEFAULT), supGainOld := i16 (s SUPGAIN_DEFAULT),
          supGainErrParamA := i16 (s SUPGAIN_ERROR_PARAM_A), supGainErrParamD := i16 (s SUPGAIN_ERROR_PARAM_D),
          supGainErrParamDiffAB := i16 (s SUPGAIN_ERROR_PARAM_A - s SUPGAIN_ERROR_PARAM_B),
          supGainErrParamDiffBD := i16 (s SUPGAIN_ERROR_PARAM_B - s SUPGAIN_ERROR_PARAM_D)\<rparr>"

definition WebRtcAecm_set_config :: "AecMobile option \<Rightarrow> AecmConfig \<Rightarrow> AecMobile option \<times> int" where
  "WebRtcAecm_set_config handle config =
     (case handle of None \<Rightarrow> (None, - 1)
      | Some aecm \<Rightarrow>
         (if initFlag aecm \<noteq> kInitCheck then (handle, AECM_UNINITIALIZED_ERROR)
          else if config_cngMode config \<noteq> AecmFalse \<and> config_cngMode config \<noteq> AecmTrue
          then (handle, AECM_BAD_PARAMETER_ERROR)
          else
            (let aecm = aecm\<lparr>aecmCore := (aecmCore aecm)\<lparr>cngMode := config_cngMode config\<rparr>\<rparr>
             in if config_echoMode config < 0 \<or> config_echoMode config > 4 then (Some aecm, AECM_BAD_PARAMETER_ERROR)
                else
                  (let aecm = aecm\<lparr>echoMode := config_echoMode config\<rparr>;
                       core = aecmCore aecm;
                       core = (if echoMode aecm = 0 then set_gains (\<lambda>x. shr x 3) core
                               else if echoMode aecm = 1 then set_gains (\<lambda>x. shr x 2) core
                               else if echoMode aecm = 2 then set_gains (\<lambda>x. shr x 1) core
                               else if echoMode aecm = 3 then set_gains (\<lambda>x. x) core
                               else if echoMode aecm = 4 then set_gains (\<lambda>x. shl32 x 1) core
                               else core)
                   in (Some (aecm\<lparr>aecmCore := core\<rparr>), 0)))))"

text \<open>
  \<open>memset(&aecm->farendOld[0][0], 0, 160)\<close> clears 160 bytes, the 80 samples of the first row.
\<close>

definition init_instance :: "AecMobile \<Rightarrow> AecMobile" where
  "init_instance aecm =
     aecm\<lparr>farendBuf := map_option WebRtc_InitBuffer (farendBuf aecm),
          initFlag := kInitCheck, delayChange := 1, bufSum := 0, counter := 0, checkBuffSize := 1, firstVal := 0,
          ECstartup := 1, bufSizeStart := 0, checkBufSizeCtr := 0, filtDelay := 0, timeForDelayChange := 0,
          instKnownDelay := 0, lastDelayDiff := 0,
          farendOld := (farendOld aecm)[0 := replicate FRAME_LEN 0]\<rparr>"

definition WebRtcAecm_Init :: "AecMobile option \<Rightarrow> int \<Rightarrow> AecMobile option \<times> int" where
  "WebRtcAecm_Init handle freq =
     (case handle of None \<Rightarrow> (None, - 1)
      | Some aecm \<Rightarrow>
         (if freq \<noteq> 8000 \<and> freq \<noteq> 16000 then (handle, AECM_BAD_PARAMETER_ERROR)
          else
            (let aecm = aecm\<lparr>sampFreq := freq\<rparr>;
                 (core, r) = WebRtcAecm_InitCore (aecmCore aecm) (sampFreq aecm);
                 aecm = aecm\<lparr>aecmCore := core\<rparr>
             in if r = - 1 then (Some aecm, AECM_UNSPECIFIED_ERROR)
                else
                  (let aecm = init_instance aecm;
                       (handle, r) = WebRtcAecm_set_config (Some aecm) \<lparr>config_cngMode = AecmTrue, config_echoMode = 3\<rparr>
                   in if r = - 1 then (handle, AECM_UNSPECIFIED_ERROR) else (handle, 0)))))"

section \<open>The far end\<close>

definition WebRtcAecm_GetBufferFarendError :: "AecMobile option \<Rightarrow> samples option \<Rightarrow> nat \<Rightarrow> int" where
  "WebRtcAecm_GetBufferFarendError handle farend nrOfSamples =
     (case handle of None \<Rightarrow> - 1
      | Some aecm \<Rightarrow>
         (if farend = None then AECM_NULL_POINTER_ERROR
          else if initFlag aecm \<noteq> kInitCheck then AECM_UNINITIALIZED_ERROR
          else if nrOfSamples \<noteq> 80 \<and> nrOfSamples \<noteq> 160 then AECM_BAD_PARAMETER_ERROR
          else 0))"

definition WebRtcAecm_DelayComp :: "AecMobile \<Rightarrow> AecMobile" where
  "WebRtcAecm_DelayComp aecm =
     (let nSampFar = i32 (int (WebRtc_available_read (farendBuf aecm)));
          maxStuffSamp = 10 * int FRAME_LEN;
          nSampSndCard = i32 (msInSndCardBuf aecm * kSampMsNb * mult (aecmCore aecm));
          delayNew = i32 (nSampSndCard - nSampFar)
      in if delayNew > int FAR_BUF_LEN - int FRAME_LEN * mult (aecmCore aecm)
         then
           (let nSampAdd = WEBRTC_SPL_MAX (i32 (shr nSampSndCard 1 - nSampFar)) (int FRAME_LEN);
                nSampAdd = WEBRTC_SPL_MIN nSampAdd maxStuffSamp
            in aecm\<lparr>farendBuf := fst (WebRtc_MoveReadPtr (farendBuf aecm) (- nSampAdd)), delayChange := 1\<rparr>)
         else aecm)"

definition WebRtcAecm_BufferFarend :: "AecMobile option \<Rightarrow> samples option \<Rightarrow> nat \<Rightarrow> AecMobile option \<times> int" where
  "WebRtcAecm_BufferFarend handle farend nrOfSamples =
     (let err = WebRtcAecm_GetBufferFarendError handle farend nrOfSamples
      in if err \<noteq> 0 then (handle, err)
         else
           (let aecm = the handle;
                aecm = (if ECstartup aecm = 0 then WebRtcAecm_DelayComp aecm else aecm)
            in (Some (aecm\<lparr>farendBuf := fst (WebRtc_WriteBuffer (farendBuf aecm) farend nrOfSamples)\<rparr>), 0)))"

section \<open>Processing\<close>

definition u64 :: "int \<Rightarrow> int" where
  "u64 x = x mod 18446744073709551616"

definition WebRtcAecm_EstBufDelay :: "AecMobile \<Rightarrow> int \<Rightarrow> AecMobile" where
  "WebRtcAecm_EstBufDelay aecm ms =
     (let nSampFar = i16 (int (WebRtc_available_read (farendBuf aecm)));
          nSampSndCard = i16 (i32 (ms * kSampMsNb * mult (aecmCore aecm)));
          delayNew = i16 (nSampSndCard - nSampFar);
          (aecm, delayNew) =
            (if delayNew < int FRAME_LEN
             then (aecm\<lparr>farendBuf := fst (WebRtc_MoveReadPtr (farendBuf aecm) (int FRAME_LEN))\<rparr>, i16 (delayNew + int FRAME_LEN))
             else (aecm, delayNew));
          aecm = aecm\<lparr>filtDelay := i16 (WEBRTC_SPL_MAX 0 ((8 * filtDelay aecm + 2 * delayNew) sdiv 10))\<rparr>;
          diff = i16 (filtDelay aecm - instKnownDelay aecm);
          aecm =
            (if diff > 224
             then (if lastDelayDiff aecm < 96 then aecm\<lparr>timeForDelayChange := 0\<rparr>
                   else aecm\<lparr>timeForDelayChange := i32 (timeForDelayChange aecm + 1)\<rparr>)
             else if diff < 96 \<and> instKnownDelay aecm > 0
             then (if lastDelayDiff aecm > 224 then aecm\<lparr>timeForDelayChange := 0\<rparr>
                   else aecm\<lparr>timeForDelayChange := i32 (timeForDelayChange aecm + 1)\<rparr>)
             else aecm\<lparr>timeForDelayChange := 0\<rparr>);
          aecm = aecm\<lparr>lastDelayDiff := diff\<rparr>
      in if timeForDelayChange aecm > 25
         then aecm\<lparr>instKnownDelay := WEBRTC_SPL_MAX (filtDelay aecm - 160) 0\<rparr> else aecm)"

text \<open>
  Start-up. The comparison of the buffer levels is made in \<open>double\<close>; the counters are
  multiplied with a \<open>size_t\<close>.
\<close>

definition level_stable :: "AecMobile \<Rightarrow> bool" where
  "level_stable aecm \<longleftrightarrow>
     (let limit = f64 (f64 (1 / 5) * of_int (msInSndCardBuf aecm));
          limit = (if limit > of_int kSampMsNb then limit else of_int kSampMsNb)
      in of_int (c_abs (firstVal aecm - msInSndCardBuf aecm)) < limit)"

definition check_buffer_size :: "AecMobile \<Rightarrow> nat \<Rightarrow> AecMobile" where
  "check_buffer_size aecm nBlocks10ms =
     (let aecm = aecm\<lparr>checkBufSizeCtr := i16 (checkBufSizeCtr aecm + 1)\<rparr>;
          aecm = (if counter aecm = 0 then aecm\<lparr>firstVal := msInSndCardBuf aecm, bufSum := 0\<rparr> else aecm);
          aecm = (if level_stable aecm
                  then aecm\<lparr>bufSum := i16 (bufSum aecm + msInSndCardBuf aecm), counter := i16 (counter aecm + 1)\<rparr>
                  else aecm\<lparr>counter := 0\<rparr>);
          aecm = (if u64 (u64 (counter aecm) * int nBlocks10ms) \<ge> 6
                  then aecm\<lparr>bufSizeStart := i16 (WEBRTC_SPL_MIN
                                (i32 (3 * bufSum aecm * mult (aecmCore aecm)) sdiv (counter aecm * 40)) BUF_SIZE_FRAMES),
                            checkBuffSize := 0\<rparr>
                  else aecm)
      in if u64 (u64 (checkBufSizeCtr aecm) * int nBlocks10ms) > 50
         then aecm\<lparr>bufSizeStart := i16 (WEBRTC_SPL_MIN
                       (i32 (3 * msInSndCardBuf aecm * mult (aecmCore aecm)) sdiv 40) BUF_SIZE_FRAMES),
                   checkBuffSize := 0\<rparr>
         else aecm)"

definition startup_step :: "AecMobile \<Rightarrow> nat \<Rightarrow> AecMobile" where
  "startup_step aecm nBlocks10ms =
     (let nmbrOfFilledBuffers = i16 (int (WebRtc_available_read (farendBuf aecm))) sdiv int FRAME_LEN;
          aecm = (if checkBuffSize aecm \<noteq> 0 then check_buffer_size aecm nBlocks10ms else aecm)
      in if checkBuffSize aecm = 0
         then (if nmbrOfFilledBuffers = bufSizeStart aecm then aecm\<lparr>ECstartup := 0\<rparr>
               else if nmbrOfFilledBuffers > bufSizeStart aecm
               then aecm\<lparr>farendBuf := fst (WebRtc_MoveReadPtr (farendBuf aecm)
                           (i32 (int (WebRtc_available_read (farendBuf aecm)) - bufSizeStart aecm * int FRAME_LEN))),
                         ECstartup := 0\<rparr>
               else aecm)
         else aecm)"

text \<open>The far-end frame of turn \<open>i\<close>: from the buffer, or the last one played.\<close>

definition next_far_frame :: "AecMobile \<Rightarrow> nat \<Rightarrow> AecMobile \<times> samples" where
  "next_far_frame aecm i =
     (let nmbrOfFilledBuffers = i16 (int (WebRtc_available_read (farendBuf aecm))) sdiv int FRAME_LEN
      in if nmbrOfFilledBuffers > 0
         then (let (buf, frame) = read_block (farendBuf aecm) FRAME_LEN
               in (aecm\<lparr>farendBuf := buf, farendOld := (farendOld aecm)[i := frame]\<rparr>, frame))
         else (aecm, farendOld aecm ! i))"

text \<open>The turns \<open>i\<close> to \<open>nFrames - 1\<close> of the loop over the frames.\<close>

function process_frames ::
    "AecMobile \<Rightarrow> samples \<Rightarrow> samples option \<Rightarrow> samples \<Rightarrow> nat \<Rightarrow> nat \<Rightarrow> (AecMobile \<times> samples \<times> bool) option" where
  "process_frames aecm nearendNoisy nearendClean out i nFrames =
     (if i < nFrames
      then
        (let (aecm, farend) = next_far_frame aecm i;
             aecm = (if i = 0 \<and> sampFreq aecm = 8000 \<or> i = 1 \<and> sampFreq aecm = 16000
                     then WebRtcAecm_EstBufDelay aecm (msInSndCardBuf aecm) else aecm)
         in case WebRtcAecm_ProcessFrame (aecmCore aecm) farend (mem_slice nearendNoisy (FRAME_LEN * i) FRAME_LEN)
                   (map_option (\<lambda>c. mem_slice c (FRAME_LEN * i) FRAME_LEN) nearendClean)
                   (mem_slice out (FRAME_LEN * i) FRAME_LEN) of
              None \<Rightarrow> None
            | Some (core, frame, r) \<Rightarrow>
               (let aecm = aecm\<lparr>aecmCore := core\<rparr>; out = mem_copy out (FRAME_LEN * i) frame
                in if r = - 1 then Some (aecm, out, False)
                   else process_frames aecm nearendNoisy nearendClean out (i + 1) nFrames))
      else Some (aecm, out, True))"
  by auto
termination by (relation "measure (\<lambda>(_, _, _, _, i, n). n - i)") auto

declare process_frames.simps [simp del]

text \<open>The clipped level of the sound card buffer and the warning.\<close>

definition clip_level :: "int \<Rightarrow> int \<times> int" where
  "clip_level ms =
     (let (ms, retVal) = (if ms < 0 then (0, AECM_BAD_PARAMETER_WARNING)
                          else if ms > 500 then (500, AECM_BAD_PARAMETER_WARNING) else (ms, 0))
      in (i16 (ms + 10), retVal))"

definition process_checked ::
    "AecMobile \<Rightarrow> samples \<Rightarrow> samples option \<Rightarrow> samples \<Rightarrow> nat \<Rightarrow> int \<Rightarrow> (AecMobile \<times> samples \<times> int) option" where
  "process_checked aecm nearendNoisy nearendClean out nrOfSamples ms =
     (let (ms, retVal) = clip_level ms;
          aecm = aecm\<lparr>msInSndCardBuf := ms\<rparr>;
          nFrames = nrOfSamples div FRAME_LEN;
          nBlocks10ms = nFrames div nat (mult (aecmCore aecm))
      in if ECstartup aecm \<noteq> 0
         then (let out = mem_copy out 0 (take nrOfSamples (case nearendClean of None \<Rightarrow> nearendNoisy | Some c \<Rightarrow> c))
               in Some (startup_step aecm nBlocks10ms, out, retVal))
         else map_option (\<lambda>(aecm, out, ok). (aecm, out, if ok then retVal else - 1))
                (process_frames aecm nearendNoisy nearendClean out 0 nFrames))"

definition WebRtcAecm_Process ::
    "AecMobile option \<Rightarrow> samples option \<Rightarrow> samples option \<Rightarrow> samples option \<Rightarrow> nat \<Rightarrow> int \<Rightarrow>
     (AecMobile option \<times> samples option \<times> int) option" where
  "WebRtcAecm_Process handle nearendNoisy nearendClean out nrOfSamples ms =
     (case handle of None \<Rightarrow> Some (handle, out, - 1)
      | Some aecm \<Rightarrow>
         (case nearendNoisy of None \<Rightarrow> Some (handle, out, AECM_NULL_POINTER_ERROR)
          | Some noisy \<Rightarrow>
             (case out of None \<Rightarrow> Some (handle, out, AECM_NULL_POINTER_ERROR)
              | Some o1 \<Rightarrow>
                 (if initFlag aecm \<noteq> kInitCheck then Some (handle, out, AECM_UNINITIALIZED_ERROR)
                  else if nrOfSamples \<noteq> 80 \<and> nrOfSamples \<noteq> 160 then Some (handle, out, AECM_BAD_PARAMETER_ERROR)
                  else map_option (\<lambda>(aecm, out, r). (Some aecm, Some out, r))
                         (process_checked aecm noisy nearendClean o1 nrOfSamples ms)))))"

section \<open>The echo path\<close>

definition WebRtcAecm_echo_path_size_bytes :: nat where
  "WebRtcAecm_echo_path_size_bytes = PART_LEN1 * 2"

definition WebRtcAecm_InitEchoPath :: "AecMobile option \<Rightarrow> int list option \<Rightarrow> nat \<Rightarrow> AecMobile option \<times> int" where
  "WebRtcAecm_InitEchoPath handle echo_path size_bytes =
     (case handle of None \<Rightarrow> (None, - 1)
      | Some aecm \<Rightarrow>
         (case echo_path of None \<Rightarrow> (handle, AECM_NULL_POINTER_ERROR)
          | Some path \<Rightarrow>
             (if size_bytes \<noteq> WebRtcAecm_echo_path_size_bytes then (handle, AECM_BAD_PARAMETER_ERROR)
              else if initFlag aecm \<noteq> kInitCheck then (handle, AECM_UNINITIALIZED_ERROR)
              else (Some (aecm\<lparr>aecmCore := WebRtcAecm_InitEchoPathCore (aecmCore aecm) path\<rparr>), 0))))"

text \<open>The result: the caller's array and the return value; \<open>size_bytes div 2\<close> samples are copied.\<close>

definition WebRtcAecm_GetEchoPath :: "AecMobile option \<Rightarrow> int list option \<Rightarrow> nat \<Rightarrow> int list option \<times> int" where
  "WebRtcAecm_GetEchoPath handle echo_path size_bytes =
     (case handle of None \<Rightarrow> (echo_path, - 1)
      | Some aecm \<Rightarrow>
         (case echo_path of None \<Rightarrow> (echo_path, AECM_NULL_POINTER_ERROR)
          | Some path \<Rightarrow>
             (if size_bytes \<noteq> WebRtcAecm_echo_path_size_bytes then (echo_path, AECM_BAD_PARAMETER_ERROR)
              else if initFlag aecm \<noteq> kInitCheck then (echo_path, AECM_UNINITIALIZED_ERROR)
              else (Some (mem_copy path 0 (take (size_bytes div 2) (channelStored (aecmCore aecm)))), 0))))"

section \<open>The invariant of an instance\<close>

text \<open>
  An initialised instance: the far-end buffer, the two frames kept for repetition and the core.
  \<open>hc\<close> says whether the calls bring a clean near end.
\<close>

definition mobile_ok :: "bool \<Rightarrow> AecMobile \<Rightarrow> bool" where
  "mobile_ok hc m \<longleftrightarrow> initFlag m = kInitCheck \<and> (\<exists>xs. buffer_ok kBufSizeSamp (farendBuf m) xs) \<and>
     length (farendOld m) = 2 \<and> list_all (samples_ok FRAME_LEN) (farendOld m) \<and> frame_ok hc (aecmCore m)"

lemma samples_slice:
  assumes "samples_ok n xs" "p + k \<le> n"
  shows "samples_ok k (mem_slice xs p k)"
  using assms set_mem_slice [of xs p k] by (auto simp: samples_ok_def list_all_iff mem_slice_def)

lemma buffered_frames:
  assumes "buffer_ok kBufSizeSamp h xs"
  shows "i16 (int (WebRtc_available_read h)) = int (length xs)"
  using buffer_available [OF assms] buffer_length [OF assms]
  by (auto simp: kBufSizeSamp_def BUF_SIZE_FRAMES_def FRAME_LEN_def in_i16_def intro!: i16_id)

lemma next_far_frame_ok:
  assumes "mobile_ok hc m" "i < 2"
  shows "mobile_ok hc (fst (next_far_frame m i)) \<and> samples_ok FRAME_LEN (snd (next_far_frame m i))"
proof -
  obtain xs where b: "buffer_ok kBufSizeSamp (farendBuf m) xs" using assms(1) by (auto simp: mobile_ok_def)
  have old: "length (farendOld m) = 2" "list_all (samples_ok FRAME_LEN) (farendOld m)" using assms(1) by (simp_all add: mobile_ok_def)
  show ?thesis
  proof (cases "i16 (int (WebRtc_available_read (farendBuf m))) sdiv int FRAME_LEN > 0")
    case True
    then have n: "FRAME_LEN \<le> length xs" unfolding buffered_frames [OF b] by (cases xs) (auto simp: signed_divide_int_def FRAME_LEN_def pos_imp_zdiv_pos_iff)
    obtain h where h: "read_block (farendBuf m) FRAME_LEN = (h, take FRAME_LEN xs)" "buffer_ok kBufSizeSamp h (drop FRAME_LEN xs)"
      by (rule buffer_read [OF b n])
    have "samples_ok FRAME_LEN (take FRAME_LEN xs)"
      using buffer_samples [OF b] n by (auto simp: samples_ok_def list_all_iff dest: in_set_takeD)
    then show ?thesis using True h assms old by (auto simp: next_far_frame_def mobile_ok_def Let_def intro: list_all_update)
  next
    case False
    then show ?thesis using assms old by (simp add: next_far_frame_def Let_def list_all_length)
  qed
qed

lemma moved_far_end:
  assumes "mobile_ok hc m"
  shows "mobile_ok hc (m\<lparr>farendBuf := fst (WebRtc_MoveReadPtr (farendBuf m) k)\<rparr>)"
  using assms buffer_move [of kBufSizeSamp "farendBuf m" _ k] by (auto simp: mobile_ok_def)

text \<open>The fields of the delay tracking and the start-up do not matter to the invariant.\<close>

lemma mobile_ok_cong:
  assumes "mobile_ok hc m" "initFlag m' = initFlag m" "farendBuf m' = farendBuf m" "farendOld m' = farendOld m" "aecmCore m' = aecmCore m"
  shows "mobile_ok hc m'"
  using assms by (simp add: mobile_ok_def)

lemma DelayComp_ok: "mobile_ok hc m \<Longrightarrow> mobile_ok hc (WebRtcAecm_DelayComp m)"
  using moved_far_end [of hc m] by (auto simp: WebRtcAecm_DelayComp_def Let_def mobile_ok_def)

text \<open>The delay tracking: a possible move of the read position, and four fields.\<close>

lemma EstBufDelay_cases:
  obtains m1 f t l k where "m1 = m \<or> m1 = m\<lparr>farendBuf := fst (WebRtc_MoveReadPtr (farendBuf m) (int FRAME_LEN))\<rparr>"
    "WebRtcAecm_EstBufDelay m ms = m1\<lparr>filtDelay := f, timeForDelayChange := t, lastDelayDiff := l\<rparr> \<or>
     WebRtcAecm_EstBufDelay m ms = m1\<lparr>filtDelay := f, timeForDelayChange := t, lastDelayDiff := l, instKnownDelay := k\<rparr>"
proof -
  define d0 where "d0 = i16 (i16 (i32 (ms * kSampMsNb * mult (aecmCore m))) - i16 (int (WebRtc_available_read (farendBuf m))))"
  obtain m1 d where p: "(if d0 < int FRAME_LEN
      then (m\<lparr>farendBuf := fst (WebRtc_MoveReadPtr (farendBuf m) (int FRAME_LEN))\<rparr>, i16 (d0 + int FRAME_LEN)) else (m, d0)) = (m1, d)"
    by (metis surj_pair)
  define m2 where "m2 = m1\<lparr>filtDelay := i16 (WEBRTC_SPL_MAX 0 ((8 * filtDelay m1 + 2 * d) sdiv 10))\<rparr>"
  define f where "f = i16 (filtDelay m2 - instKnownDelay m2)"
  define t where "t = timeForDelayChange (if f > 224
      then (if lastDelayDiff m2 < 96 then m2\<lparr>timeForDelayChange := 0\<rparr> else m2\<lparr>timeForDelayChange := i32 (timeForDelayChange m2 + 1)\<rparr>)
      else if f < 96 \<and> instKnownDelay m2 > 0
      then (if lastDelayDiff m2 > 224 then m2\<lparr>timeForDelayChange := 0\<rparr> else m2\<lparr>timeForDelayChange := i32 (timeForDelayChange m2 + 1)\<rparr>)
      else m2\<lparr>timeForDelayChange := 0\<rparr>)"
  define m3 where "m3 = m2\<lparr>timeForDelayChange := t\<rparr>\<lparr>lastDelayDiff := f\<rparr>"
  have "WebRtcAecm_EstBufDelay m ms = (if timeForDelayChange m3 > 25 then m3\<lparr>instKnownDelay := WEBRTC_SPL_MAX (filtDelay m3 - 160) 0\<rparr> else m3)"
    unfolding WebRtcAecm_EstBufDelay_def Let_def d0_def [symmetric] p prod.case m2_def [symmetric] f_def [symmetric] m3_def t_def
    by (simp cong: if_cong)
  then have "WebRtcAecm_EstBufDelay m ms = m3 \<or> WebRtcAecm_EstBufDelay m ms = m3\<lparr>instKnownDelay := WEBRTC_SPL_MAX (filtDelay m3 - 160) 0\<rparr>" by simp
  moreover have "m1 = m \<or> m1 = m\<lparr>farendBuf := fst (WebRtc_MoveReadPtr (farendBuf m) (int FRAME_LEN))\<rparr>" using p by (auto split: if_splits)
  ultimately show thesis using that unfolding m3_def m2_def by blast
qed

lemma EstBufDelay_ok:
  assumes "mobile_ok hc m"
  shows "mobile_ok hc (WebRtcAecm_EstBufDelay m ms)"
proof (rule EstBufDelay_cases [of m ms])
  fix m1 f t l k
  assume a: "m1 = m \<or> m1 = m\<lparr>farendBuf := fst (WebRtc_MoveReadPtr (farendBuf m) (int FRAME_LEN))\<rparr>"
    "WebRtcAecm_EstBufDelay m ms = m1\<lparr>filtDelay := f, timeForDelayChange := t, lastDelayDiff := l\<rparr> \<or>
     WebRtcAecm_EstBufDelay m ms = m1\<lparr>filtDelay := f, timeForDelayChange := t, lastDelayDiff := l, instKnownDelay := k\<rparr>"
  then have "mobile_ok hc m1" using assms moved_far_end [OF assms] by blast
  then show ?thesis using a(2) by (auto simp: mobile_ok_def)
qed

text \<open>The size check leaves the buffers alone, counts the call, and is over at the latest when the count exceeds 50.\<close>

definition same_far_end :: "AecMobile \<Rightarrow> AecMobile \<Rightarrow> bool" where
  "same_far_end a b \<longleftrightarrow> initFlag a = initFlag b \<and> farendBuf a = farendBuf b \<and> farendOld a = farendOld b \<and>
     aecmCore a = aecmCore b \<and> ECstartup a = ECstartup b"

lemma check_buffer_size_effect:
  defines "c m \<equiv> i16 (checkBufSizeCtr m + 1)"
  shows "same_far_end (check_buffer_size m nb) m" "checkBufSizeCtr (check_buffer_size m nb) = c m"
    "checkBuffSize (check_buffer_size m nb) = 0 \<or> checkBuffSize (check_buffer_size m nb) = checkBuffSize m \<and> u64 (u64 (c m) * int nb) \<le> 50"
    "nb = 0 \<Longrightarrow> checkBuffSize (check_buffer_size m nb) = checkBuffSize m"
proof -
  define m1 where "m1 = m\<lparr>checkBufSizeCtr := i16 (checkBufSizeCtr m + 1)\<rparr>"
  define m2 where "m2 = (if counter m1 = 0 then m1\<lparr>firstVal := msInSndCardBuf m1, bufSum := 0\<rparr> else m1)"
  define m3 where "m3 = (if level_stable m2 then m2\<lparr>bufSum := i16 (bufSum m2 + msInSndCardBuf m2), counter := i16 (counter m2 + 1)\<rparr> else m2\<lparr>counter := 0\<rparr>)"
  define m4 where "m4 = (if u64 (u64 (counter m3) * int nb) \<ge> 6
      then m3\<lparr>bufSizeStart := i16 (WEBRTC_SPL_MIN (i32 (3 * bufSum m3 * mult (aecmCore m3)) sdiv (counter m3 * 40)) BUF_SIZE_FRAMES), checkBuffSize := 0\<rparr>
      else m3)"
  have e: "check_buffer_size m nb = (if u64 (u64 (checkBufSizeCtr m4) * int nb) > 50
      then m4\<lparr>bufSizeStart := i16 (WEBRTC_SPL_MIN (i32 (3 * msInSndCardBuf m4 * mult (aecmCore m4)) sdiv 40) BUF_SIZE_FRAMES), checkBuffSize := 0\<rparr>
      else m4)"
    unfolding check_buffer_size_def Let_def m4_def m3_def m2_def m1_def by (rule refl)
  have m3: "same_far_end m3 m" "checkBufSizeCtr m3 = c m" "checkBuffSize m3 = checkBuffSize m"
    by (simp_all add: m3_def m2_def m1_def same_far_end_def c_def)
  then have m4: "same_far_end m4 m" "checkBufSizeCtr m4 = c m" "checkBuffSize m4 = 0 \<or> checkBuffSize m4 = checkBuffSize m"
      "nb = 0 \<Longrightarrow> checkBuffSize m4 = checkBuffSize m" by (simp_all add: m4_def same_far_end_def u64_def)
  show "same_far_end (check_buffer_size m nb) m" "checkBufSizeCtr (check_buffer_size m nb) = c m"
    using m4(1,2) unfolding e by (simp_all add: same_far_end_def)
  show "checkBuffSize (check_buffer_size m nb) = 0 \<or> checkBuffSize (check_buffer_size m nb) = checkBuffSize m \<and> u64 (u64 (c m) * int nb) \<le> 50"
    using m4(2,3) unfolding e by auto
  show "nb = 0 \<Longrightarrow> checkBuffSize (check_buffer_size m nb) = checkBuffSize m" using m4(4) unfolding e by (simp add: u64_def)
qed

lemma check_buffer_size_ok: "mobile_ok hc m \<Longrightarrow> mobile_ok hc (check_buffer_size m n)"
  using check_buffer_size_effect(1) [of m n] by (simp add: same_far_end_def mobile_ok_def)

lemma startup_step_ok:
  assumes "mobile_ok hc m"
  shows "mobile_ok hc (startup_step m n)"
proof -
  have e: "mobile_ok hc (m'\<lparr>ECstartup := 0\<rparr>)" if "mobile_ok hc m'" for m' using that by (simp add: mobile_ok_def)
  define c where "c = (if checkBuffSize m \<noteq> 0 then check_buffer_size m n else m)"
  have "mobile_ok hc c" using assms check_buffer_size_ok by (simp add: c_def)
  then show ?thesis
    unfolding startup_step_def Let_def c_def [symmetric]
    using moved_far_end [of hc c] by (auto simp: mobile_ok_def)
qed


lemma process_frames_ok:
  assumes "mobile_ok hc m" "samples_ok (FRAME_LEN * nf) noisy" "samples_ok (FRAME_LEN * nf) out" "nf \<le> 2"
    "hc = (clean \<noteq> None)" "\<And>c. clean = Some c \<Longrightarrow> samples_ok (FRAME_LEN * nf) c"
  shows "\<exists>m' out'. process_frames m noisy clean out i nf = Some (m', out', True) \<and> mobile_ok hc m' \<and> samples_ok (FRAME_LEN * nf) out'"
  using assms(1,3)
proof (induction "nf - i" arbitrary: m out i)
  case 0
  then show ?case by (simp add: process_frames.simps)
next
  case (Suc k)
  then have i: "i < nf" by simp
  obtain m1 far where nf: "next_far_frame m i = (m1, far)" by (metis surj_pair)
  have m1: "mobile_ok hc m1" "samples_ok FRAME_LEN far" using next_far_frame_ok [OF Suc.prems(1), of i] nf i assms(4) by simp_all
  define m2 where "m2 = (if i = 0 \<and> sampFreq m1 = 8000 \<or> i = 1 \<and> sampFreq m1 = 16000 then WebRtcAecm_EstBufDelay m1 (msInSndCardBuf m1) else m1)"
  have m2: "mobile_ok hc m2" using m1(1) EstBufDelay_ok by (simp add: m2_def)
  have sl: "samples_ok FRAME_LEN (mem_slice xs (FRAME_LEN * i) FRAME_LEN)" if "samples_ok (FRAME_LEN * nf) xs" for xs
    using samples_slice [OF that, of "FRAME_LEN * i" FRAME_LEN] i by (simp add: FRAME_LEN_def)
  let ?c = "map_option (\<lambda>c. mem_slice c (FRAME_LEN * i) FRAME_LEN) clean"
  have c: "hc = (?c \<noteq> None)" "\<And>x. ?c = Some x \<Longrightarrow> samples_ok FRAME_LEN x" using assms(5,6) sl by auto
  have f: "frame_ok hc (aecmCore m2)" "length (mem_slice out (FRAME_LEN * i) FRAME_LEN) = FRAME_LEN"
    using m2 sl [OF Suc.prems(2)] by (simp_all add: mobile_ok_def samples_ok_def)
  obtain core frame where p: "WebRtcAecm_ProcessFrame (aecmCore m2) far (mem_slice noisy (FRAME_LEN * i) FRAME_LEN) ?c
      (mem_slice out (FRAME_LEN * i) FRAME_LEN) = Some (core, frame, 0)" "frame_ok hc core" "samples_ok FRAME_LEN frame"
    by (rule process_frame_ok [OF f(1) m1(2) sl [OF assms(2)] c(1) c(2) f(2)])
  let ?m = "m2\<lparr>aecmCore := core\<rparr>" and ?o = "mem_copy out (FRAME_LEN * i) frame"
  have "mobile_ok hc ?m" using m2 p(2) by (simp add: mobile_ok_def)
  moreover have "samples_ok (FRAME_LEN * nf) ?o"
    using samples_ok_copy [OF Suc.prems(2), of frame "FRAME_LEN * i"] p(3) i by (simp add: samples_ok_def FRAME_LEN_def)
  moreover have "k = nf - Suc i" using Suc.hyps(2) by simp
  ultimately obtain m' out' where r: "process_frames ?m noisy clean ?o (Suc i) nf = Some (m', out', True)" "mobile_ok hc m'" "samples_ok (FRAME_LEN * nf) out'"
    using Suc.hyps(1) [of "Suc i" ?m ?o] by blast
  have "process_frames m noisy clean out i nf = process_frames ?m noisy clean ?o (Suc i) nf"
    using i unfolding process_frames.simps [of m noisy clean out i nf] Let_def nf prod.case m2_def [symmetric] p(1) option.case by simp
  then show ?case using r by simp
qed

text \<open>The return code of a good call: a warning when the level of the sound card buffer is clipped.\<close>

definition level_code :: "int \<Rightarrow> int" where
  "level_code ms = (if 0 \<le> ms \<and> ms \<le> 500 then 0 else AECM_BAD_PARAMETER_WARNING)"

lemma clip_level_code: "snd (clip_level ms) = level_code ms"
  by (simp add: clip_level_def level_code_def)

definition near_input :: "bool \<Rightarrow> nat \<Rightarrow> samples \<Rightarrow> samples option \<Rightarrow> samples \<Rightarrow> bool" where
  "near_input hc n noisy clean out \<longleftrightarrow> n \<in> {80, 160} \<and> samples_ok n noisy \<and> samples_ok n out \<and>
     (case clean of None \<Rightarrow> \<not> hc | Some c \<Rightarrow> hc \<and> samples_ok n c)"

lemma Process_ok:
  assumes "mobile_ok hc m" "near_input hc n noisy clean out"
  shows "\<exists>m' out'. WebRtcAecm_Process (Some m) (Some noisy) clean (Some out) n ms = Some (Some m', Some out', level_code ms) \<and>
    mobile_ok hc m' \<and> samples_ok n out'"
proof -
  have n: "n = 80 \<or> n = 160" and s: "samples_ok n noisy" "samples_ok n out" "hc = (clean \<noteq> None)" "\<And>c. clean = Some c \<Longrightarrow> samples_ok n c"
    using assms(2) by (auto simp: near_input_def split: option.splits)
  obtain l r where cl: "clip_level ms = (l, r)" by (metis surj_pair)
  have r: "r = level_code ms" using clip_level_code [of ms] cl by simp
  let ?m = "m\<lparr>msInSndCardBuf := l\<rparr>" and ?nf = "n div FRAME_LEN"
  have nf: "FRAME_LEN * ?nf = n" "?nf \<le> 2" using n by (auto simp: FRAME_LEN_def)
  have m: "mobile_ok hc ?m" using assms(1) by (simp add: mobile_ok_def)
  have "\<exists>m' out'. process_checked m noisy clean out n ms = Some (m', out', level_code ms) \<and> mobile_ok hc m' \<and> samples_ok n out'"
  proof (cases "ECstartup m = 0")
    case True
    obtain m' out' where "process_frames ?m noisy clean out 0 ?nf = Some (m', out', True)" "mobile_ok hc m'" "samples_ok n out'"
      using process_frames_ok [OF m, of ?nf noisy out clean 0] s nf by auto
    then show ?thesis using True by (simp add: process_checked_def cl r Let_def)
  next
    case False
    let ?src = "case clean of None \<Rightarrow> noisy | Some c \<Rightarrow> c"
    have "samples_ok n ?src" using s by (auto split: option.splits)
    then have "samples_ok n (mem_copy out 0 (take n ?src))" using samples_ok_copy [OF s(2), of ?src 0] by (simp add: samples_ok_def)
    then show ?thesis using False startup_step_ok [OF m] by (simp add: process_checked_def cl r Let_def)
  qed
  then show ?thesis using assms(1) n by (auto simp: WebRtcAecm_Process_def mobile_ok_def)
qed

lemma BufferFarend_ok:
  assumes "mobile_ok hc m" "n \<in> {80, 160}" "samples_ok n far"
  shows "\<exists>m'. WebRtcAecm_BufferFarend (Some m) (Some far) n = (Some m', 0) \<and> mobile_ok hc m'"
proof -
  define m1 where "m1 = (if ECstartup m = 0 then WebRtcAecm_DelayComp m else m)"
  have "mobile_ok hc m1" using assms(1) DelayComp_ok by (simp add: m1_def)
  then have "mobile_ok hc (m1\<lparr>farendBuf := fst (WebRtc_WriteBuffer (farendBuf m1) (Some far) n)\<rparr>)"
    using buffer_write [of kBufSizeSamp "farendBuf m1" _ n far] assms(3) by (auto simp: mobile_ok_def)
  then show ?thesis using assms(1,2)
    by (auto simp: WebRtcAecm_BufferFarend_def WebRtcAecm_GetBufferFarendError_def Let_def m1_def [symmetric] mobile_ok_def)
qed

text \<open>The gains, the noise switch and the channel are not part of the frame invariant.\<close>

lemma frame_ok_gains: "frame_ok hc core \<Longrightarrow> frame_ok hc (set_gains s core)" "frame_ok hc core \<Longrightarrow> frame_ok hc (core\<lparr>cngMode := c\<rparr>)"
  by (simp_all add: set_gains_def frame_ok_def block_ok_def estimators_ok_def queues_def far_buf_ok_def)

lemma set_config_ok:
  assumes "mobile_ok hc m"
  shows "\<exists>m' r. WebRtcAecm_set_config (Some m) config = (Some m', r) \<and> mobile_ok hc m'"
proof -
  have c: "mobile_ok hc (m'\<lparr>aecmCore := core\<rparr>)" if "mobile_ok hc m'" "frame_ok hc core" for m' core using that by (simp add: mobile_ok_def)
  have "mobile_ok hc (m\<lparr>aecmCore := core, echoMode := e\<rparr>)" if "frame_ok hc core" for core e using that assms by (simp add: mobile_ok_def)
  then show ?thesis using assms frame_ok_gains [of hc "aecmCore m"] frame_ok_gains(1) [of hc "(aecmCore m)\<lparr>cngMode := config_cngMode config\<rparr>"]
    by (auto simp: WebRtcAecm_set_config_def Let_def mobile_ok_def)
qed

lemma InitEchoPath_ok:
  assumes "mobile_ok hc m"
  shows "\<exists>m' r. WebRtcAecm_InitEchoPath (Some m) path size_bytes = (Some m', r) \<and> mobile_ok hc m'"
  using assms by (auto simp: WebRtcAecm_InitEchoPath_def WebRtcAecm_InitEchoPathCore_def Let_def mobile_ok_def frame_ok_def
      block_ok_def estimators_ok_def queues_def far_buf_ok_def split: option.split)

text \<open>Creation with every allocation granted, and initialisation.\<close>

definition raw_mobile :: "AecMobile \<Rightarrow> bool" where
  "raw_mobile raw \<longleftrightarrow> raw_core (aecmCore raw) \<and> length (farendOld raw) = 2 \<and> list_all (samples_ok FRAME_LEN) (farendOld raw)"

lemma init_instance_fields:
  "aecmCore (init_instance m) = aecmCore m" "initFlag (init_instance m) = kInitCheck" "ECstartup (init_instance m) = 1" "checkBuffSize (init_instance m) = 1"
  "checkBufSizeCtr (init_instance m) = 0" "counter (init_instance m) = 0" "sampFreq (init_instance m) = sampFreq m"
  by (simp_all add: init_instance_def)

text \<open>Initialisation of an instance whose core and far-end buffer have been allocated, used before or not.\<close>

lemma Init_mobile_ok:
  assumes "init_shape (aecmCore a)" "farendBuf a = Some b" "element_count b = kBufSizeSamp" "length (farendOld a) = 2"
    "list_all (samples_ok FRAME_LEN) (farendOld a)" "freq = 8000 \<or> freq = 16000"
  obtains m where "WebRtcAecm_Init (Some a) freq = (Some m, 0)" "mobile_ok hc m"
    "ECstartup m = 1" "checkBuffSize m = 1" "checkBufSizeCtr m = 0" "counter m = 0" "mult (aecmCore m) = freq div 8000" "sampFreq m = freq"
proof -
  obtain d where d: "WebRtcAecm_InitCore (aecmCore a) freq = (d, 0)" "frame_ok hc d" "mult d = freq div 8000" by (rule InitCore_frame_ok [OF assms(1,6)])
  define m0 where "m0 = init_instance (a\<lparr>sampFreq := freq, aecmCore := d\<rparr>)"
  have "buffer_ok kBufSizeSamp (Some (WebRtc_InitBuffer b)) []"
    using assms(3) rb_inv_init [of b] by (simp add: buffer_ok_def kBufSizeSamp_def BUF_SIZE_FRAMES_def FRAME_LEN_def) (simp add: WebRtc_InitBuffer_def list_all_iff in_i16_def)
  moreover have "samples_ok FRAME_LEN (replicate FRAME_LEN 0)" by (simp add: samples_ok_def list_all_iff in_i16_def)
  ultimately have m0: "mobile_ok hc m0"
    using d(2) assms(2,4,5) by (auto simp: m0_def init_instance_def mobile_ok_def intro: list_all_update)
  define m where "m = m0\<lparr>echoMode := 3, aecmCore := set_gains (\<lambda>x. x) (d\<lparr>cngMode := AecmTrue\<rparr>)\<rparr>"
  have e: "initFlag m0 = kInitCheck" "aecmCore m0 = d" by (simp_all add: m0_def init_instance_fields)
  have "WebRtcAecm_set_config (Some m0) \<lparr>config_cngMode = AecmTrue, config_echoMode = 3\<rparr> = (Some m, 0)"
    using e by (simp add: WebRtcAecm_set_config_def Let_def m_def)
  moreover have "(freq \<noteq> 8000 \<and> freq \<noteq> 16000) = False" using assms(6) by auto
  ultimately have i: "WebRtcAecm_Init (Some a) freq = (Some m, 0)"
    using d(1) by (simp add: WebRtcAecm_Init_def Let_def m0_def [symmetric] del: de_Morgan_conj not_False_eq_True)
  have "mobile_ok hc m" using m0 e frame_ok_gains(1) [OF frame_ok_gains(2) [of hc d AecmTrue]] d(2) by (simp add: m_def mobile_ok_def)
  moreover have "mult (aecmCore m) = freq div 8000" using d(3) by (simp add: m_def set_gains_def)
  moreover have "ECstartup m = 1" "checkBuffSize m = 1" "checkBufSizeCtr m = 0" "counter m = 0" "sampFreq m = freq"
    by (simp_all add: m_def m0_def init_instance_fields)
  ultimately show thesis using that i by blast
qed

lemma Create_Init_ok:
  assumes "raw_mobile raw" "freq = 8000 \<or> freq = 16000"
  obtains a m where "WebRtcAecm_Create (\<lambda>_. True) g raw = Some a" "WebRtcAecm_Init (Some a) freq = (Some m, 0)" "mobile_ok hc m"
    "ECstartup m = 1" "checkBuffSize m = 1" "checkBufSizeCtr m = 0" "counter m = 0" "mult (aecmCore m) = freq div 8000" "sampFreq m = freq"
proof -
  obtain c where c: "WebRtcAecm_CreateCore (\<lambda>_. True) g (aecmCore raw) = Some c" "core_shape c"
    using CreateCore_shape [of "aecmCore raw" g] assms(1) by (auto simp: raw_mobile_def)
  obtain b :: "int RingBuffer" where b: "WebRtc_CreateBuffer True True kBufSizeSamp 2 = Some b" "element_count b = kBufSizeSamp"
    by (simp add: WebRtc_CreateBuffer_def WebRtc_InitBuffer_def kBufSizeSamp_def BUF_SIZE_FRAMES_def FRAME_LEN_def)
  define a where "a = raw\<lparr>aecmCore := c, farendBuf := Some b, initFlag := 0\<rparr>"
  have a: "WebRtcAecm_Create (\<lambda>_. True) g raw = Some a" by (simp add: WebRtcAecm_Create_def c(1) b(1) a_def)
  have "init_shape (aecmCore a)" "farendBuf a = Some b" "length (farendOld a) = 2" "list_all (samples_ok FRAME_LEN) (farendOld a)"
    using c(2) assms(1) by (simp_all add: a_def core_shape_def raw_mobile_def)
  from Init_mobile_ok [OF this(1,2) b(2) this(3,4) assms(2)] show thesis using that [OF a] by metis
qed

text \<open>An instance in use can be initialised again, at either rate, with or without a clean near end from there on.\<close>

lemma Init_again_ok:
  assumes "mobile_ok hc m" "WebRtcAecm_Init (Some m) freq = (Some m', 0)"
  shows "mobile_ok hc' m'"
proof -
  have f: "freq = 8000 \<or> freq = 16000" using assms(2) by (auto simp: WebRtcAecm_Init_def AECM_BAD_PARAMETER_ERROR_def split: if_splits)
  obtain b where b: "farendBuf m = Some b" "element_count b = kBufSizeSamp" using assms(1) by (auto simp: mobile_ok_def buffer_ok_def)
  have "init_shape (aecmCore m)" "length (farendOld m) = 2" "list_all (samples_ok FRAME_LEN) (farendOld m)"
    using assms(1) frame_ok_shape [of hc "aecmCore m"] by (simp_all add: mobile_ok_def)
  from Init_mobile_ok [OF this(1) b this(2,3) f, of hc'] show ?thesis using assms(2) by (metis option.inject prod.inject)
qed

section \<open>Sessions\<close>

text \<open>
  The states of an instance that a client can bring about, by any order of calls: \<open>hc\<close> tells whether the clean near end
  has been given in every call since the last initialisation. It can be left out from any call on, and taken up again only
  after another initialisation (which may also change the rate): after a gap its buffer holds less than the
  others (lemma \<open>clean_gap\<close> of \<open>Aecm_Frame\<close>).
\<close>

inductive reachable :: "bool \<Rightarrow> int \<Rightarrow> AecMobile \<Rightarrow> bool" where
  start: "raw_mobile raw \<Longrightarrow> WebRtcAecm_Create (\<lambda>_. True) g raw = Some a \<Longrightarrow> WebRtcAecm_Init (Some a) freq = (Some m, 0) \<Longrightarrow> reachable hc freq m"
| again: "reachable hc freq m \<Longrightarrow> WebRtcAecm_Init (Some m) freq' = (Some m', 0) \<Longrightarrow> reachable hc' freq' m'"
| leave: "reachable True freq m \<Longrightarrow> reachable False freq m"
| far: "reachable hc freq m \<Longrightarrow> n \<in> {80, 160} \<Longrightarrow> samples_ok n x \<Longrightarrow> WebRtcAecm_BufferFarend (Some m) (Some x) n = (Some m', r) \<Longrightarrow> reachable hc freq m'"
| near: "reachable hc freq m \<Longrightarrow> near_input hc n noisy clean out \<Longrightarrow>
    WebRtcAecm_Process (Some m) (Some noisy) clean (Some out) n ms = Some (Some m', out', r) \<Longrightarrow> reachable hc freq m'"
| config: "reachable hc freq m \<Longrightarrow> WebRtcAecm_set_config (Some m) c = (Some m', r) \<Longrightarrow> reachable hc freq m'"
| path: "reachable hc freq m \<Longrightarrow> WebRtcAecm_InitEchoPath (Some m) p size_bytes = (Some m', r) \<Longrightarrow> reachable hc freq m'"

lemma Init_rates: "WebRtcAecm_Init (Some a) freq = (h, 0) \<Longrightarrow> freq = 8000 \<or> freq = 16000"
  by (auto simp: WebRtcAecm_Init_def AECM_BAD_PARAMETER_ERROR_def split: if_splits)

lemma reachable_ok: "reachable hc freq m \<Longrightarrow> mobile_ok hc m"
proof (induction rule: reachable.induct)
  case (start raw g a freq m hc)
  show ?case by (rule Create_Init_ok [OF start(1) Init_rates [OF start(3)], of g hc]) (use start(2,3) in auto)
next
  case (again hc freq m freq' m' hc')
  then show ?case using Init_again_ok by blast
next
  case (leave freq m)
  then show ?case using frame_ok_without_clean by (simp add: mobile_ok_def)
next
  case (far hc freq m n x m' r)
  then show ?case using BufferFarend_ok [OF far.IH far(2,3)] by auto
next
  case (near hc freq m n noisy clean out ms m' out' r)
  then show ?case using Process_ok [OF near.IH near(2), of ms] by auto
next
  case (config hc freq m c m' r)
  then show ?case using set_config_ok [OF config.IH, of c] by auto
next
  case (path hc freq m p size_bytes m' r)
  then show ?case using InitEchoPath_ok [OF path.IH, of p size_bytes] by auto
qed

text \<open>An instance in fresh memory that holds zeros.\<close>

definition zero_mobile :: AecMobile where
  "zero_mobile =
     \<lparr>sampFreq = 0, scSampFreq = 0, bufSizeStart = 0, instKnownDelay = 0, farendOld = replicate 2 (replicate FRAME_LEN 0),
      initFlag = 0, counter = 0, bufSum = 0, firstVal = 0, checkBufSizeCtr = 0, msInSndCardBuf = 0, filtDelay = 0,
      timeForDelayChange = 0, ECstartup = 0, checkBuffSize = 0, delayChange = 0, lastDelayDiff = 0, echoMode = 0,
      farendBuf = None, aecmCore = zero_core\<rparr>"

lemma raw_mobile_zero: "raw_mobile zero_mobile"
  by (simp add: raw_mobile_def zero_mobile_def raw_core_zero samples_ok_def list_all_iff in_i16_def)

lemma reachable_initial:
  obtains m where "reachable hc 16000 m" "ECstartup m = 1" "checkBuffSize m = 1" "checkBufSizeCtr m = 0" "mult (aecmCore m) = 2"
proof -
  obtain a m where "WebRtcAecm_Create (\<lambda>_. True) (\<lambda>_. 0) zero_mobile = Some a" "WebRtcAecm_Init (Some a) 16000 = (Some m, 0)"
    "ECstartup m = 1" "checkBuffSize m = 1" "checkBufSizeCtr m = 0" "mult (aecmCore m) = 16000 div 8000"
    by (rule Create_Init_ok [OF raw_mobile_zero, of 16000 "\<lambda>_. 0" hc]) auto
  then show thesis using that reachable.start [OF raw_mobile_zero] by fastforce
qed

section \<open>Start-up\<close>

text \<open>One call of \<open>WebRtcAecm_Process\<close> or \<open>WebRtcAecm_BufferFarend\<close> of a client's sequence.\<close>

datatype client_call = FarEnd samples | NearEnd samples "samples option" samples int

definition mobile_step :: "AecMobile \<Rightarrow> client_call \<Rightarrow> AecMobile" where
  "mobile_step m e = (case e of
       FarEnd x \<Rightarrow> the (fst (WebRtcAecm_BufferFarend (Some m) (Some x) (length x)))
     | NearEnd noisy clean out ms \<Rightarrow>
         (case WebRtcAecm_Process (Some m) (Some noisy) clean (Some out) (length noisy) ms of
            None \<Rightarrow> m | Some (h, _, _) \<Rightarrow> the h))"

definition client_ok :: "bool \<Rightarrow> client_call \<Rightarrow> bool" where
  "client_ok hc e = (case e of FarEnd x \<Rightarrow> length x \<in> {80, 160} \<and> samples_ok (length x) x
     | NearEnd noisy clean out ms \<Rightarrow> near_input hc (length noisy) noisy clean out)"

fun near_length :: "client_call \<Rightarrow> nat" where
  "near_length (FarEnd x) = 0"
| "near_length (NearEnd noisy clean out ms) = length noisy"

lemma mobile_step_ok: "mobile_ok hc m \<Longrightarrow> client_ok hc e \<Longrightarrow> mobile_ok hc (mobile_step m e)"
proof (cases e)
  case (FarEnd x)
  assume "mobile_ok hc m" "client_ok hc e"
  then show ?thesis using BufferFarend_ok [of hc m "length x" x] by (auto simp: FarEnd mobile_step_def client_ok_def)
next
  case (NearEnd noisy clean out ms)
  assume "mobile_ok hc m" "client_ok hc e"
  then show ?thesis using Process_ok [of hc m "length noisy" noisy clean out ms] by (auto simp: NearEnd mobile_step_def client_ok_def)
qed

text \<open>What the calls do to the state of the start-up.\<close>

lemma BufferFarend_startup:
  assumes "mobile_ok hc m" "length x \<in> {80, 160}"
  defines "m' \<equiv> the (fst (WebRtcAecm_BufferFarend (Some m) (Some x) (length x)))"
  shows "ECstartup m' = ECstartup m" "checkBuffSize m' = checkBuffSize m" "checkBufSizeCtr m' = checkBufSizeCtr m" "aecmCore m' = aecmCore m"
  using assms(1,2) unfolding m'_def WebRtcAecm_BufferFarend_def WebRtcAecm_GetBufferFarendError_def
  by (simp_all add: mobile_ok_def Let_def WebRtcAecm_DelayComp_def cong: if_cong)

lemma EstBufDelay_startup: "checkBuffSize (WebRtcAecm_EstBufDelay m ms) = checkBuffSize m"
  by (rule EstBufDelay_cases [of m ms]) auto

lemma process_frames_startup:
  "process_frames m noisy clean out i nf = Some (m', out', ok) \<Longrightarrow> checkBuffSize m' = checkBuffSize m"
proof (induction "nf - i" arbitrary: m out i)
  case 0
  then show ?case by (simp add: process_frames.simps)
next
  case (Suc k)
  then have i: "i < nf" by simp
  obtain m1 far where n: "next_far_frame m i = (m1, far)" by (metis surj_pair)
  have m1: "checkBuffSize m1 = checkBuffSize m" using n by (auto simp: next_far_frame_def Let_def split: if_splits prod.splits)
  define m2 where "m2 = (if i = 0 \<and> sampFreq m1 = 8000 \<or> i = 1 \<and> sampFreq m1 = 16000 then WebRtcAecm_EstBufDelay m1 (msInSndCardBuf m1) else m1)"
  have m2: "checkBuffSize m2 = checkBuffSize m" using m1 EstBufDelay_startup by (simp add: m2_def)
  obtain core frame r where f: "WebRtcAecm_ProcessFrame (aecmCore m2) far (mem_slice noisy (FRAME_LEN * i) FRAME_LEN)
      (map_option (\<lambda>c. mem_slice c (FRAME_LEN * i) FRAME_LEN) clean) (mem_slice out (FRAME_LEN * i) FRAME_LEN) = Some (core, frame, r)"
    using Suc.prems i unfolding process_frames.simps [of m noisy clean out i nf] Let_def n prod.case m2_def [symmetric]
    by (auto split: option.splits)
  let ?m = "m2\<lparr>aecmCore := core\<rparr>" and ?o = "mem_copy out (FRAME_LEN * i) frame"
  have "(if r = - 1 then Some (?m, ?o, False) else process_frames ?m noisy clean ?o (i + 1) nf) = Some (m', out', ok)"
    using Suc.prems i unfolding process_frames.simps [of m noisy clean out i nf] Let_def n prod.case m2_def [symmetric] f option.case by simp
  then show ?case using Suc.hyps(1) [of "i + 1" ?m ?o] Suc.hyps(2) m2 by (auto split: if_splits)
qed

text \<open>A processing call during start-up copies the near end and counts.\<close>

lemma Process_startup:
  assumes "mobile_ok hc m" "n \<in> {80, 160}" "ECstartup m \<noteq> 0"
  shows "WebRtcAecm_Process (Some m) (Some noisy) clean (Some out) n ms =
    Some (Some (startup_step (m\<lparr>msInSndCardBuf := fst (clip_level ms)\<rparr>) (n div FRAME_LEN div nat (mult (aecmCore m)))),
          Some (mem_copy out 0 (take n (case clean of None \<Rightarrow> noisy | Some c \<Rightarrow> c))), level_code ms)"
  using assms clip_level_code [of ms]
  by (auto simp: WebRtcAecm_Process_def mobile_ok_def process_checked_def Let_def split_def)

lemma Process_running:
  assumes "mobile_ok hc m" "ECstartup m = 0" "WebRtcAecm_Process (Some m) (Some noisy) clean (Some out) n ms = Some (Some m', o', r)"
  shows "checkBuffSize m' = checkBuffSize m"
proof -
  have "m' = m \<or> (\<exists>m0 out' ok. checkBuffSize m0 = checkBuffSize m \<and> process_frames m0 noisy clean out 0 (n div FRAME_LEN) = Some (m', out', ok))"
    using assms by (auto simp: WebRtcAecm_Process_def process_checked_def Let_def split: if_splits prod.splits)
  then show ?thesis using process_frames_startup by fastforce
qed

lemma startup_step_check:
  "checkBuffSize (startup_step m nb) = checkBuffSize (if checkBuffSize m \<noteq> 0 then check_buffer_size m nb else m)"
  "checkBuffSize (startup_step m nb) \<noteq> 0 \<Longrightarrow> startup_step m nb = check_buffer_size m nb"
proof -
  define c where "c = (if checkBuffSize m \<noteq> 0 then check_buffer_size m nb else m)"
  show e: "checkBuffSize (startup_step m nb) = checkBuffSize (if checkBuffSize m \<noteq> 0 then check_buffer_size m nb else m)"
    unfolding startup_step_def Let_def c_def [symmetric] by simp
  assume "checkBuffSize (startup_step m nb) \<noteq> 0"
  then have "checkBuffSize c \<noteq> 0" "c = check_buffer_size m nb" using e by (auto simp: c_def split: if_splits)
  then show "startup_step m nb = check_buffer_size m nb" unfolding startup_step_def Let_def c_def [symmetric] by simp
qed

text \<open>The size check is done, or \<open>k\<close> processing calls have been counted.\<close>

definition counting :: "bool \<Rightarrow> int \<Rightarrow> nat \<Rightarrow> AecMobile \<Rightarrow> bool" where
  "counting hc mu k m \<longleftrightarrow> mobile_ok hc m \<and>
     (checkBuffSize m = 0 \<or> ECstartup m \<noteq> 0 \<and> checkBufSizeCtr m = int k \<and> k \<le> 50 \<and> mult (aecmCore m) = mu)"

lemma counting_far:
  assumes "counting hc mu k m" "client_ok hc (FarEnd x)"
  shows "counting hc mu k (mobile_step m (FarEnd x))"
proof -
  have m: "mobile_ok hc m" using assms(1) by (simp add: counting_def)
  have x: "length x \<in> {80, 160}" using assms(2) by (simp add: client_ok_def)
  show ?thesis
    using assms(1) mobile_step_ok [OF m assms(2)] BufferFarend_startup [OF m x] unfolding counting_def by (simp add: mobile_step_def)
qed

lemma counting_near:
  assumes "counting hc mu k m" "client_ok hc e" "e = NearEnd noisy clean out ms" "mu \<in> {1, 2}" "80 * nat mu \<le> length noisy"
  shows "counting hc mu (Suc k) (mobile_step m e)"
proof -
  have m: "mobile_ok hc m" using assms(1) by (simp add: counting_def)
  have ok: "mobile_ok hc (mobile_step m e)" by (rule mobile_step_ok [OF m assms(2)])
  have n: "near_input hc (length noisy) noisy clean out" using assms(2,3) by (simp add: client_ok_def)
  then have l: "length noisy \<in> {80, 160}" by (simp add: near_input_def)
  show ?thesis
  proof (cases "ECstartup m = 0")
    case True
    obtain m' o' where p: "WebRtcAecm_Process (Some m) (Some noisy) clean (Some out) (length noisy) ms = Some (Some m', Some o', level_code ms)"
      using Process_ok [OF m n, of ms] by blast
    then have "checkBuffSize m' = checkBuffSize m" by (rule Process_running [OF m True])
    then show ?thesis using ok p assms(1,3) True by (simp add: counting_def mobile_step_def)
  next
    case False
    let ?nb = "length noisy div FRAME_LEN div nat (mult (aecmCore m))"
    let ?m = "m\<lparr>msInSndCardBuf := fst (clip_level ms)\<rparr>"
    have e: "mobile_step m e = startup_step ?m ?nb" using Process_startup [OF m l False, of noisy clean out ms] assms(3) by (simp add: mobile_step_def)
    show ?thesis
    proof (cases "checkBuffSize (startup_step ?m ?nb) = 0")
      case True
      then show ?thesis using ok e by (simp add: counting_def)
    next
      case c: False
      then have c0: "checkBuffSize m \<noteq> 0" using startup_step_check(1) [of ?m ?nb] by (auto split: if_splits)
      then have k: "checkBufSizeCtr m = int k" "k \<le> 50" "mult (aecmCore m) = mu" using assms(1) by (auto simp: counting_def)
      have s: "startup_step ?m ?nb = check_buffer_size ?m ?nb" by (rule startup_step_check(2) [OF c])
      have cc: "checkBufSizeCtr (check_buffer_size ?m ?nb) = i16 (int k + 1)" "u64 (u64 (i16 (int k + 1)) * int ?nb) \<le> 50"
        using check_buffer_size_effect(2,3) [of ?m ?nb] c c0 k(1) s by auto
      have i: "i16 (int k + 1) = int k + 1" "u64 (int k + 1) = int k + 1" using k(2) by (auto simp: i16_def u64_def)
      have nb: "1 \<le> ?nb" "?nb \<le> 2" using l assms(4,5) k(3) by (auto simp: FRAME_LEN_def)
      define p where "p = (int k + 1) * int ?nb"
      have "p \<le> 51 * 2" unfolding p_def using nb(2) k(2) by (intro mult_mono) auto
      moreover have "(int k + 1) * 1 \<le> p" unfolding p_def using nb(1) by (intro mult_left_mono) auto
      ultimately have "int k + 1 \<le> p" "u64 p = p" unfolding u64_def by auto
      moreover have "u64 p \<le> 50" using cc(2) unfolding i p_def .
      ultimately have "int k + 1 \<le> 50" by simp
      then show ?thesis using ok e s cc(1) i False k(3) check_buffer_size_effect(1) [of ?m ?nb] by (simp add: counting_def same_far_end_def)
    qed
  qed
qed

lemma counting_run:
  assumes "counting hc mu k m" "list_all (client_ok hc) es" "mu \<in> {1, 2}" "list_all (\<lambda>e. near_length e = 0 \<or> 80 * nat mu \<le> near_length e) es"
  shows "counting hc mu (k + length (filter (\<lambda>e. near_length e \<noteq> 0) es)) (foldl mobile_step m es)"
  using assms
proof (induction es arbitrary: k m)
  case (Cons e es)
  show ?case
  proof (cases e)
    case (FarEnd x)
    have "counting hc mu k (mobile_step m e)" using counting_far [of hc mu k m x] Cons.prems FarEnd by simp
    from Cons.IH [OF this] show ?thesis using Cons.prems FarEnd by simp
  next
    case (NearEnd noisy clean out ms)
    then have "length noisy \<in> {80, 160}" using Cons.prems(2) by (auto simp: client_ok_def near_input_def)
    then have n: "near_length e \<noteq> 0" "80 * nat mu \<le> length noisy" using NearEnd Cons.prems(4) by auto
    have "counting hc mu (Suc k) (mobile_step m e)"
      by (rule counting_near [OF Cons.prems(1) _ NearEnd Cons.prems(3) n(2)]) (use Cons.prems(2) in simp)
    from Cons.IH [OF this] show ?thesis using Cons.prems n(1) by simp
  qed
qed simp

text \<open>Wideband calls of 80 samples: nothing is counted.\<close>

definition stuck :: "bool \<Rightarrow> AecMobile \<Rightarrow> bool" where
  "stuck hc m \<longleftrightarrow> mobile_ok hc m \<and> ECstartup m \<noteq> 0 \<and> checkBuffSize m \<noteq> 0 \<and> mult (aecmCore m) = 2"

lemma stuck_step:
  assumes "stuck hc m" "client_ok hc e" "near_length e \<le> 80"
  shows "stuck hc (mobile_step m e)"
proof -
  have m: "mobile_ok hc m" "ECstartup m \<noteq> 0" "checkBuffSize m \<noteq> 0" "mult (aecmCore m) = 2" using assms(1) by (simp_all add: stuck_def)
  have ok: "mobile_ok hc (mobile_step m e)" by (rule mobile_step_ok [OF m(1) assms(2)])
  show ?thesis
  proof (cases e)
    case (FarEnd x)
    then have "length x \<in> {80, 160}" using assms(2) by (simp add: client_ok_def)
    from BufferFarend_startup [OF m(1) this] show ?thesis using m ok FarEnd by (simp add: stuck_def mobile_step_def)
  next
    case (NearEnd noisy clean out ms)
    have l: "length noisy = 80" using assms(2,3) NearEnd by (auto simp: client_ok_def near_input_def)
    let ?m = "m\<lparr>msInSndCardBuf := fst (clip_level ms)\<rparr>"
    have e: "mobile_step m e = startup_step ?m 0"
      using Process_startup [OF m(1) _ m(2), of 80 noisy clean out ms] m(4) l NearEnd by (simp add: mobile_step_def FRAME_LEN_def)
    have "checkBuffSize (check_buffer_size ?m 0) = checkBuffSize ?m" by (rule check_buffer_size_effect(4)) simp
    then have c: "checkBuffSize (startup_step ?m 0) \<noteq> 0" using startup_step_check(1) [of ?m 0] m(3) by simp
    from startup_step_check(2) [OF c] show ?thesis using c m ok e check_buffer_size_effect(1) [of ?m 0] by (simp add: stuck_def same_far_end_def)
  qed
qed

lemma stuck_run: "stuck hc m \<Longrightarrow> list_all (client_ok hc) es \<Longrightarrow> list_all (\<lambda>e. near_length e \<le> 80) es \<Longrightarrow> stuck hc (foldl mobile_step m es)"
  by (induction es arbitrary: m) (auto simp: stuck_step)


section \<open>Echo modes\<close>

text \<open>The scale of mode \<open>k\<close>: the gains are halved per mode below 3 and doubled in mode 4.\<close>

lemma set_gains_params:
  assumes "s SUPGAIN_DEFAULT = d" "s SUPGAIN_ERROR_PARAM_A = 16 * d" "s SUPGAIN_ERROR_PARAM_B = 8 * d" "s SUPGAIN_ERROR_PARAM_D = 3 * d" "0 \<le> d" "d \<le> 512"
  shows "gain_params (set_gains s core) (16 * d) (8 * d) (3 * d) \<and> gain_ok (16 * d) (set_gains s core) \<and> supGain (set_gains s core) = d"
proof -
  have "i16 d = d" "i16 (16 * d) = 16 * d" "i16 (8 * d) = 8 * d" "i16 (3 * d) = 3 * d" "i16 (5 * d) = 5 * d"
    using assms(5,6) by (auto intro!: i16_id simp: in_i16_def)
  then show ?thesis using assms by (simp add: set_gains_def gain_params_def gain_ok_def)
qed

lemmas supgain_defs = SUPGAIN_ERROR_PARAM_A_def SUPGAIN_ERROR_PARAM_B_def SUPGAIN_ERROR_PARAM_D_def SUPGAIN_DEFAULT_def RESOLUTION_SUPGAIN_def

section \<open>Properties\<close>

text \<open>C1: the interface never hangs or fails on good arguments. In every state a client can reach after
  creation and initialisation by calls in any order (far end, near end, configuration, echo path, further initialisations),
  \<open>WebRtcAecm_Process\<close> with 80 or 160 samples returns, with code 0 or the warning 12100 when the delay is outside 0 to 500 ms, and
  as many 16-bit samples; \<open>WebRtcAecm_BufferFarend\<close> returns 0. One order is excluded: a clean near end can be given as long as it
  was given in every call since the last initialisation, and is optional only in that it can be left out from some call on; to come back after
  a gap it needs an initialisation, since its buffer then holds less than a block.\<close>

theorem process_session:
  assumes "reachable hc freq m" "near_input hc' n noisy clean out" "hc' \<longrightarrow> hc" "samples_ok n x"
  shows "(\<exists>m' out'. WebRtcAecm_Process (Some m) (Some noisy) clean (Some out) n ms = Some (Some m', Some out', level_code ms) \<and>
      samples_ok n out' \<and> reachable hc' freq m') \<and>
    (\<exists>m'. WebRtcAecm_BufferFarend (Some m) (Some x) n = (Some m', 0) \<and> reachable hc freq m')"
proof -
  have n: "n \<in> {80, 160}" using assms(2) by (simp add: near_input_def)
  have r: "reachable hc' freq m"
  proof (cases "hc' = hc")
    case False
    then have "hc" "\<not> hc'" using assms(3) by auto
    then show ?thesis using assms(1) reachable.leave by simp
  qed (use assms(1) in simp)
  show ?thesis
    using Process_ok [OF reachable_ok [OF r] assms(2), of ms] BufferFarend_ok [OF reachable_ok [OF assms(1)] n assms(4)]
      reachable.near [OF r assms(2)] reachable.far [OF assms(1) n assms(4)] by blast
qed

lemma constant_samples: "in_i16 x \<Longrightarrow> samples_ok n (replicate n x)"
  by (simp add: samples_ok_def list_all_iff)

theorem process_session_witness:
  "\<exists>m m' out'. reachable True 16000 m \<and>
     WebRtcAecm_Process (Some m) (Some (replicate 160 500)) None (Some (replicate 160 0)) 160 600 = Some (Some m', Some out', 12100) \<and>
     samples_ok 160 out' \<and> reachable False 16000 m'"
proof -
  obtain m where m: "reachable True 16000 m" by (rule reachable_initial [of True])
  have "near_input False 160 (replicate 160 500) None (replicate 160 0)" by (simp add: near_input_def constant_samples in_i16_def)
  from process_session [OF m this, of "replicate 160 3" 600] show ?thesis
    using m by (auto simp: constant_samples in_i16_def level_code_def AECM_BAD_PARAMETER_WARNING_def)
qed

text \<open>C14: the error codes of an initialised instance. For arguments of any kind, whose arrays when given
  hold the samples announced, \<open>WebRtcAecm_Process\<close> answers 12003 exactly when the noisy input or the
  output is missing and else 12004 exactly when the count is not 80 or 160; \<open>WebRtcAecm_BufferFarend\<close> likewise; and
  a call that answers with an error changes neither the instance nor the output.\<close>

theorem process_errors:
  assumes "reachable hc freq m"
    "\<And>a b. noisy = Some a \<Longrightarrow> out = Some b \<Longrightarrow> n \<in> {80, 160} \<Longrightarrow> near_input hc n a clean b"
    "\<And>x. far = Some x \<Longrightarrow> n \<in> {80, 160} \<Longrightarrow> samples_ok n x"
  shows "(\<exists>h out' r. WebRtcAecm_Process (Some m) noisy clean out n ms = Some (h, out', r) \<and>
      (r = 12003) = (noisy = None \<or> out = None) \<and> (r = 12004) = (noisy \<noteq> None \<and> out \<noteq> None \<and> n \<notin> {80, 160}) \<and>
      (r \<in> {0, 12100} \<or> h = Some m \<and> out' = out)) \<and>
    (\<exists>h r. WebRtcAecm_BufferFarend (Some m) far n = (h, r) \<and> (r = 12003) = (far = None) \<and>
      (r = 12004) = (far \<noteq> None \<and> n \<notin> {80, 160}) \<and> (r = 0 \<or> h = Some m))"
proof -
  have m: "mobile_ok hc m" by (rule reachable_ok [OF assms(1)])
  then have f: "initFlag m = kInitCheck" by (simp add: mobile_ok_def)
  note codes = AECM_NULL_POINTER_ERROR_def AECM_BAD_PARAMETER_ERROR_def AECM_BAD_PARAMETER_WARNING_def
  have "\<exists>h out' r. WebRtcAecm_Process (Some m) noisy clean out n ms = Some (h, out', r) \<and>
      (r = 12003) = (noisy = None \<or> out = None) \<and> (r = 12004) = (noisy \<noteq> None \<and> out \<noteq> None \<and> n \<notin> {80, 160}) \<and>
      (r \<in> {0, 12100} \<or> h = Some m \<and> out' = out)"
  proof (cases "noisy \<noteq> None \<and> out \<noteq> None \<and> n \<in> {80, 160}")
    case True
    then obtain a b where ab: "noisy = Some a" "out = Some b" "n \<in> {80, 160}" by blast
    have "level_code ms \<in> {0, 12100}" by (simp add: level_code_def codes)
    then show ?thesis using Process_ok [OF m assms(2) [OF ab], of ms] ab by auto
  next
    case False
    then show ?thesis using f by (auto simp: WebRtcAecm_Process_def codes split: option.split)
  qed
  moreover have "\<exists>h r. WebRtcAecm_BufferFarend (Some m) far n = (h, r) \<and> (r = 12003) = (far = None) \<and>
      (r = 12004) = (far \<noteq> None \<and> n \<notin> {80, 160}) \<and> (r = 0 \<or> h = Some m)"
  proof (cases "far \<noteq> None \<and> n \<in> {80, 160}")
    case True
    then obtain x where x: "far = Some x" "n \<in> {80, 160}" by blast
    then show ?thesis using BufferFarend_ok [OF m x(2) assms(3) [OF x]] by auto
  next
    case False
    then show ?thesis using f by (auto simp: WebRtcAecm_BufferFarend_def WebRtcAecm_GetBufferFarendError_def codes)
  qed
  ultimately show ?thesis by blast
qed

theorem process_errors_witness:
  "\<exists>m. reachable True 16000 m \<and> WebRtcAecm_Process (Some m) (Some [1]) None (Some [2]) 100 20 = Some (Some m, Some [2], 12004)"
proof -
  obtain m where m: "reachable True 16000 m" by (rule reachable_initial [of True])
  from process_errors [OF m, of "Some [1]" "Some [2]" 100 None None 20] show ?thesis using m by auto
qed


text \<open>C13: the echo path can be read back. Setting the echo path of an initialised instance with 257
  non-negative 16-bit values succeeds; \<open>WebRtcAecm_GetEchoPath\<close> then returns exactly this path, and the
  adaptive channels start from it, the 32-bit one in the finer resolution.\<close>

theorem echo_path_roundtrip:
  assumes "initFlag m = kInitCheck" "channel_ok (aecmCore m)" "length path = 257" "list_all (\<lambda>c. 0 \<le> c \<and> c \<le> 32767) path" "length buf = 257"
  shows "\<exists>m'. WebRtcAecm_InitEchoPath (Some m) (Some path) 514 = (Some m', 0) \<and>
    WebRtcAecm_GetEchoPath (Some m') (Some buf) 514 = (Some path, 0) \<and> channel_ok (aecmCore m') \<and>
    channelAdapt16 (aecmCore m') = path \<and> channelAdapt32 (aecmCore m') = map (\<lambda>c. c * 65536) path"
proof -
  have l: "length (channelStored (aecmCore m)) = PART_LEN1" "length (channelAdapt16 (aecmCore m)) = PART_LEN1" "length (channelAdapt32 (aecmCore m)) = PART_LEN1"
    "length path = PART_LEN1" using assms(2,3) by (simp_all add: channel_ok_def aecm_sizes)
  note e = InitEchoPathCore_channel [OF l assms(4)]
  have z: "WebRtcAecm_echo_path_size_bytes = 514" by (simp add: WebRtcAecm_echo_path_size_bytes_def aecm_sizes)
  let ?m = "m\<lparr>aecmCore := WebRtcAecm_InitEchoPathCore (aecmCore m) path\<rparr>"
  have "WebRtcAecm_InitEchoPath (Some m) (Some path) 514 = (Some ?m, 0)" using assms(1) z by (simp add: WebRtcAecm_InitEchoPath_def)
  moreover have "WebRtcAecm_GetEchoPath (Some ?m) (Some buf) 514 = (Some path, 0)"
    using assms(1,3,5) z e(1) by (simp add: WebRtcAecm_GetEchoPath_def mem_copy_def)
  ultimately show ?thesis using e by simp
qed

theorem echo_path_roundtrip_witness:
  "\<exists>m'. WebRtcAecm_InitEchoPath (Some (zero_mobile\<lparr>initFlag := kInitCheck\<rparr>)) (Some (replicate 257 1200)) 514 = (Some m', 0) \<and>
     WebRtcAecm_GetEchoPath (Some m') (Some (replicate 257 0)) 514 = (Some (replicate 257 1200), 0)"
proof -
  let ?m = "zero_mobile\<lparr>initFlag := kInitCheck\<rparr>"
  have "channel_ok (aecmCore ?m)" by (simp add: zero_mobile_def zero_core_def channel_ok_def list_all_iff)
  then show ?thesis using echo_path_roundtrip [of ?m "replicate 257 1200" "replicate 257 0"]
    by (auto simp: list_all_iff)
qed

text \<open>C15: the echo modes. \<open>WebRtcAecm_set_config\<close> of an initialised instance succeeds exactly when the
  noise switch is 0 or 1 and the mode 0 to 4, and then the gain curve of \<open>WebRtcAecm_CalcSuppressionGain\<close> is the
  default one scaled by \<open>2 ^ mode / 8\<close>: ordered, not negative and within 14 bits, as its properties require.\<close>

theorem config_gains:
  assumes "initFlag m = kInitCheck"
  shows "if c \<in> {0, 1} \<and> k \<in> {0, 1, 2, 3, 4}
    then \<exists>m' d. WebRtcAecm_set_config (Some m) \<lparr>config_cngMode = c, config_echoMode = k\<rparr> = (Some m', 0) \<and> d = 32 * 2 ^ nat k \<and>
      echoMode m' = k \<and> cngMode (aecmCore m') = c \<and> supGain (aecmCore m') = d \<and>
      gain_params (aecmCore m') (16 * d) (8 * d) (3 * d) \<and> gain_ok (16 * d) (aecmCore m')
    else snd (WebRtcAecm_set_config (Some m) \<lparr>config_cngMode = c, config_echoMode = k\<rparr>) = 12004"
proof (cases "c \<in> {0, 1} \<and> k \<in> {0, 1, 2, 3, 4}")
  case False
  then have "\<not> (c \<in> {0, 1} \<and> 0 \<le> k \<and> k \<le> 4)" by auto
  then show ?thesis using False assms
    by (auto simp: WebRtcAecm_set_config_def AecmFalse_def AecmTrue_def AECM_BAD_PARAMETER_ERROR_def Let_def)
next
  case True
  let ?core = "(aecmCore m)\<lparr>cngMode := c\<rparr>"
  define s where "s = (if k = 0 then (\<lambda>x. shr x 3) else if k = 1 then (\<lambda>x. shr x 2) else if k = 2 then (\<lambda>x. shr x 1) else if k = 3 then (\<lambda>x. x) else (\<lambda>x. shl32 x 1))"
  define d :: int where "d = 32 * 2 ^ nat k"
  have k: "k = 0 \<or> k = 1 \<or> k = 2 \<or> k = 3 \<or> k = 4" using True by auto
  then have s: "s SUPGAIN_DEFAULT = d" "s SUPGAIN_ERROR_PARAM_A = 16 * d" "s SUPGAIN_ERROR_PARAM_B = 8 * d" "s SUPGAIN_ERROR_PARAM_D = 3 * d" "0 \<le> d" "d \<le> 512"
    by (auto simp: s_def d_def supgain_defs shr_def shl32_def i32_def)
  have e: "WebRtcAecm_set_config (Some m) \<lparr>config_cngMode = c, config_echoMode = k\<rparr> =
      (Some (m\<lparr>echoMode := k, aecmCore := set_gains s ?core\<rparr>), 0)"
  proof -
    have "(c \<noteq> AecmFalse \<and> c \<noteq> AecmTrue) = False" using True by (auto simp: AecmFalse_def AecmTrue_def)
    then show ?thesis using k assms unfolding WebRtcAecm_set_config_def s_def by (elim disjE) (simp_all add: Let_def del: de_Morgan_conj not_False_eq_True)
  qed
  have "cngMode (set_gains s ?core) = c" by (simp add: set_gains_def)
  then show ?thesis using True e set_gains_params [OF s, of ?core] d_def by simp
qed

theorem config_gains_witness:
  "\<exists>m'. WebRtcAecm_set_config (Some (zero_mobile\<lparr>initFlag := kInitCheck\<rparr>)) \<lparr>config_cngMode = 1, config_echoMode = 4\<rparr> = (Some m', 0) \<and>
     gain_params (aecmCore m') 8192 4096 1536"
  using config_gains [of "zero_mobile\<lparr>initFlag := kInitCheck\<rparr>" 1 4] by auto

text \<open>C11: the size check of the start-up ends. In any sequence of calls on a fresh instance in which the
  processing calls bring at least 10 ms each, the check of the buffer size is over after at most 51 processing calls, whatever delays
  are reported, and stays over.\<close>

theorem startup_check_ends:
  assumes "raw_mobile raw" "freq = 8000 \<or> freq = 16000" "list_all (client_ok hc) calls"
    "list_all (\<lambda>e. near_length e = 0 \<or> freq div 100 \<le> int (near_length e)) calls" "51 \<le> length (filter (\<lambda>e. near_length e \<noteq> 0) calls)"
  shows "\<exists>a m. WebRtcAecm_Create (\<lambda>_. True) g raw = Some a \<and> WebRtcAecm_Init (Some a) freq = (Some m, 0) \<and>
    checkBuffSize m = 1 \<and> checkBuffSize (foldl mobile_step m calls) = 0"
proof -
  obtain a m where a: "WebRtcAecm_Create (\<lambda>_. True) g raw = Some a" "WebRtcAecm_Init (Some a) freq = (Some m, 0)" "mobile_ok hc m"
    "ECstartup m = 1" "checkBuffSize m = 1" "checkBufSizeCtr m = 0" "mult (aecmCore m) = freq div 8000"
    by (rule Create_Init_ok [OF assms(1,2)])
  have "counting hc (freq div 8000) 0 m" using a by (simp add: counting_def)
  moreover have "freq div 8000 \<in> {1, 2}" using assms(2) by auto
  moreover have "list_all (\<lambda>e. near_length e = 0 \<or> 80 * nat (freq div 8000) \<le> near_length e) calls"
    using assms(2,4) by (auto simp: list_all_iff)
  ultimately have "counting hc (freq div 8000) (0 + length (filter (\<lambda>e. near_length e \<noteq> 0) calls)) (foldl mobile_step m calls)"
    by (intro counting_run assms(3))
  then show ?thesis using a(1,2,5) assms(5) by (auto simp: counting_def)
qed

lemma near_call_constant: "client_ok False (NearEnd (replicate 80 7) None (replicate 80 0) ms)"
  by (simp add: client_ok_def near_input_def constant_samples in_i16_def)

theorem startup_check_ends_witness:
  "\<exists>a m. WebRtcAecm_Create (\<lambda>_. True) (\<lambda>_. 5) zero_mobile = Some a \<and> WebRtcAecm_Init (Some a) 8000 = (Some m, 0) \<and>
     checkBuffSize m = 1 \<and> checkBuffSize (foldl mobile_step m (replicate 51 (NearEnd (replicate 80 7) None (replicate 80 0) 40))) = 0"
  by (rule startup_check_ends [OF raw_mobile_zero, of _ False]) (simp_all add: list_all_iff near_call_constant)

text \<open>C12: wideband calls of 80 samples never leave the start-up. At 16 kHz 80 samples are 5 ms, counted as
  no 10 ms block at all, so that in any sequence of such calls, of any length, the canceller stays in start-up: it
  copies the near end through and never cancels.\<close>

theorem startup_never_ends:
  assumes "raw_mobile raw" "list_all (client_ok hc) calls" "list_all (\<lambda>e. near_length e \<le> 80) calls"
    "near_input hc 80 noisy clean out"
  shows "\<exists>a m h. WebRtcAecm_Create (\<lambda>_. True) g raw = Some a \<and> WebRtcAecm_Init (Some a) 16000 = (Some m, 0) \<and>
    ECstartup (foldl mobile_step m calls) \<noteq> 0 \<and>
    WebRtcAecm_Process (Some (foldl mobile_step m calls)) (Some noisy) clean (Some out) 80 ms =
      Some (h, Some (case clean of None \<Rightarrow> noisy | Some c \<Rightarrow> c), level_code ms)"
proof -
  obtain a m where a: "WebRtcAecm_Create (\<lambda>_. True) g raw = Some a" "WebRtcAecm_Init (Some a) 16000 = (Some m, 0)" "mobile_ok hc m"
    "ECstartup m = 1" "checkBuffSize m = 1" "mult (aecmCore m) = 16000 div 8000"
    by (rule Create_Init_ok [OF assms(1), of 16000 g hc]) auto
  then have "stuck hc m" by (simp add: stuck_def)
  then have s: "stuck hc (foldl mobile_step m calls)" by (rule stuck_run [OF _ assms(2,3)])
  then have k: "mobile_ok hc (foldl mobile_step m calls)" "ECstartup (foldl mobile_step m calls) \<noteq> 0" by (simp_all add: stuck_def)
  have "mem_copy out 0 (take 80 (case clean of None \<Rightarrow> noisy | Some c \<Rightarrow> c)) = (case clean of None \<Rightarrow> noisy | Some c \<Rightarrow> c)"
    using assms(4) by (auto simp: near_input_def samples_ok_def mem_copy_def split: option.split)
  then show ?thesis using a(1,2) k(2) Process_startup [OF k(1) _ k(2), of 80 noisy clean out ms] by simp
qed

theorem startup_never_ends_witness:
  "\<exists>a m h. WebRtcAecm_Create (\<lambda>_. True) (\<lambda>_. 5) zero_mobile = Some a \<and> WebRtcAecm_Init (Some a) 16000 = (Some m, 0) \<and>
     ECstartup (foldl mobile_step m (replicate 1000 (NearEnd (replicate 80 7) None (replicate 80 0) 40))) \<noteq> 0 \<and>
     WebRtcAecm_Process (Some (foldl mobile_step m (replicate 1000 (NearEnd (replicate 80 7) None (replicate 80 0) 40))))
       (Some (replicate 80 9)) None (Some (replicate 80 0)) 80 40 = Some (h, Some (replicate 80 9), 0)"
  using startup_never_ends [OF raw_mobile_zero, of False "replicate 1000 (NearEnd (replicate 80 7) None (replicate 80 0) 40)"
      "replicate 80 9" None "replicate 80 0" "\<lambda>_. 5" 40]
  by (simp add: list_all_iff near_call_constant near_input_def constant_samples in_i16_def level_code_def)

end
