(* ===== verification/Spl_Resample.thy ===== *)
theory Spl_Resample
  imports Spl_Inline
begin

text \<open>
  The sampling rate converters of the signal processing library: the by-two converters of
  \<open>resample_by_2.c\<close> and \<open>resample_by_2_internal.c\<close>, the fractional converters of
  \<open>resample_fractional.c\<close> and \<open>resample.c\<close>, and the 48 kHz and 22 kHz chains of
  \<open>resample_48khz.c\<close> and \<open>resample.c\<close> built from them.

  A converter takes its input samples and the array with its filter state and returns the new
  state array and the samples it writes. The fractional converters work inside one scratch
  memory \<open>tmpmem\<close>, where the output overlaps the input they still have to read: they take that memory
  and the positions of \<open>In\<close> and \<open>Out\<close> in it. The locale \<open>block_resampler\<close> is the contract under
  which such a conversion in place gives what a conversion into a separate array would.
\<close>

section \<open>Filter sections\<close>

text \<open>The four state words of one all-pass branch: \<open>state0\<close> to \<open>state3\<close>, or \<open>state4\<close> to \<open>state7\<close>.\<close>

type_synonym section_state = "int \<times> int \<times> int \<times> int"

definition get_section :: "int list \<Rightarrow> nat \<Rightarrow> section_state" where
  "get_section st k = (st ! k, st ! (k + 1), st ! (k + 2), st ! (k + 3))"

definition put_section :: "int list \<Rightarrow> nat \<Rightarrow> section_state \<Rightarrow> int list" where
  "put_section st k = (\<lambda>(s0, s1, s2, s3). mem_copy st k [s0, s1, s2, s3])"

text \<open>The samples at even and at odd positions, \<open>in[i << 1]\<close> before and after \<open>in++\<close>.\<close>

definition evens :: "'a list \<Rightarrow> 'a list" where
  "evens xs = map (\<lambda>i. xs ! (2 * i)) [0..<length xs div 2]"

definition odds :: "'a list \<Rightarrow> 'a list" where
  "odds xs = map (\<lambda>i. xs ! (2 * i + 1)) [0..<length xs div 2]"

definition interleave :: "'a list \<Rightarrow> 'a list \<Rightarrow> 'a list" where
  "interleave xs ys = concat (map2 (\<lambda>x y. [x, y]) xs ys)"

text \<open>A branch of all-pass filters over a list of inputs, with the last state word as output.\<close>

definition branch_step :: "(section_state \<Rightarrow> int \<Rightarrow> section_state) \<Rightarrow> section_state \<Rightarrow> int
    \<Rightarrow> section_state \<times> int" where
  "branch_step f s x = (let (s0, s1, s2, s3) = f s x in ((s0, s1, s2, s3), s3))"

section \<open>resample_by_2.c\<close>

definition kResampleAllpass1 :: "int list" where
  "kResampleAllpass1 = [3284, 24441, 49528]"

definition kResampleAllpass2 :: "int list" where
  "kResampleAllpass2 = [12199, 37471, 60255]"

definition MUL_ACCUM_1 :: "int \<Rightarrow> int \<Rightarrow> int \<Rightarrow> int" where
  "MUL_ACCUM_1 a b c = WEBRTC_SPL_SCALEDIFF32 a b c"

definition MUL_ACCUM_2 :: "int \<Rightarrow> int \<Rightarrow> int \<Rightarrow> int" where
  "MUL_ACCUM_2 a b c = WEBRTC_SPL_SCALEDIFF32 a b c"

text \<open>The lower branch of the decimator and the upper branch of the interpolator.\<close>

definition allpass_2 :: "section_state \<Rightarrow> int \<Rightarrow> section_state" where
  "allpass_2 = (\<lambda>(state0, state1, state2, state3) in32.
     let diff = i32 (in32 - state1);
         tmp1 = MUL_ACCUM_1 (kResampleAllpass2 ! 0) diff state0;
         diff = i32 (tmp1 - state2);
         tmp2 = MUL_ACCUM_2 (kResampleAllpass2 ! 1) diff state1;
         diff = i32 (tmp2 - state3);
         state3 = MUL_ACCUM_2 (kResampleAllpass2 ! 2) diff state2
     in (in32, tmp1, tmp2, state3))"

text \<open>The upper branch of the decimator and the lower branch of the interpolator.\<close>

definition allpass_1 :: "section_state \<Rightarrow> int \<Rightarrow> section_state" where
  "allpass_1 = (\<lambda>(state0, state1, state2, state3) in32.
     let diff = i32 (in32 - state1);
         tmp1 = MUL_ACCUM_1 (kResampleAllpass1 ! 0) diff state0;
         diff = i32 (tmp1 - state2);
         tmp2 = MUL_ACCUM_1 (kResampleAllpass1 ! 1) diff state1;
         diff = i32 (tmp2 - state3);
         state3 = MUL_ACCUM_2 (kResampleAllpass1 ! 2) diff state2
     in (in32, tmp1, tmp2, state3))"

text \<open>One round of the decimator's loop: two input samples give one output sample.\<close>

definition down_by_2 :: "section_state \<times> section_state \<Rightarrow> int \<times> int
    \<Rightarrow> (section_state \<times> section_state) \<times> int" where
  "down_by_2 = (\<lambda>(lower, upper) (x, y).
     let lower = allpass_2 lower (shl32 x 10);
         upper = allpass_1 upper (shl32 y 10);
         (_, _, _, state3) = lower;
         (_, _, _, state7) = upper;
         out32 = shr (i32 (state3 + state7 + 1024)) 11
     in ((lower, upper), WebRtcSpl_SatW32ToW16 out32))"

definition WebRtcSpl_DownsampleBy2 :: "int list \<Rightarrow> samples \<Rightarrow> int list \<times> samples" where
  "WebRtcSpl_DownsampleBy2 filtState xs =
     (let ((lower, upper), out) = run down_by_2 (get_section filtState 0, get_section filtState 4)
                                    (zip (evens xs) (odds xs))
      in (put_section (put_section filtState 0 lower) 4 upper, out))"

text \<open>One round of the interpolator's loop: one input sample gives two output samples.\<close>

definition up_by_2 :: "section_state \<times> section_state \<Rightarrow> int
    \<Rightarrow> (section_state \<times> section_state) \<times> int list" where
  "up_by_2 = (\<lambda>(lower, upper) x.
     let in32 = shl32 x 10;
         lower = allpass_1 lower in32;
         (_, _, _, state3) = lower;
         out0 = WebRtcSpl_SatW32ToW16 (shr (i32 (state3 + 512)) 10);
         upper = allpass_2 upper in32;
         (_, _, _, state7) = upper;
         out1 = WebRtcSpl_SatW32ToW16 (shr (i32 (state7 + 512)) 10)
     in ((lower, upper), [out0, out1]))"

definition WebRtcSpl_UpsampleBy2 :: "int list \<Rightarrow> samples \<Rightarrow> int list \<times> samples" where
  "WebRtcSpl_UpsampleBy2 filtState xs =
     (let ((lower, upper), out) = run up_by_2 (get_section filtState 0, get_section filtState 4) xs
      in (put_section (put_section filtState 0 lower) 4 upper, concat out))"

section \<open>resample_by_2_internal.c\<close>

definition kResampleAllpass :: "int list list" where
  "kResampleAllpass = [[821, 6110, 12382], [3050, 9368, 15063]]"

text \<open>
  The body of every filter loop of the file. \<open>n\<close> is the branch, 1 for the lower and 0 for the
  upper one. The first difference is scaled down with rounding, the other two are truncated towards zero
  (up to one unit: an exact negative multiple of \<open>2 ^ 14\<close> is moved up as well).
\<close>

definition scale_down_round :: "int \<Rightarrow> int" where
  "scale_down_round diff = shr (i32 (diff + 2 ^ 13)) 14"

definition scale_down_truncate :: "int \<Rightarrow> int" where
  "scale_down_truncate diff = (let diff = shr diff 14 in if diff < 0 then diff + 1 else diff)"

definition allpass_int :: "nat \<Rightarrow> section_state \<Rightarrow> int \<Rightarrow> section_state" where
  "allpass_int n = (\<lambda>(state0, state1, state2, state3) tmp0.
     let diff = scale_down_round (i32 (tmp0 - state1));
         tmp1 = i32 (state0 + diff * (kResampleAllpass ! n ! 0));
         state0 = tmp0;
         diff = scale_down_truncate (i32 (tmp1 - state2));
         tmp0 = i32 (state1 + diff * (kResampleAllpass ! n ! 1));
         state1 = tmp1;
         diff = scale_down_truncate (i32 (tmp0 - state3));
         state3 = i32 (state2 + diff * (kResampleAllpass ! n ! 2));
         state2 = tmp0
     in (state0, state1, state2, state3))"

text \<open>One loop: the section at \<open>state + k\<close> runs over the inputs and gives its output words.\<close>

definition allpass_loop :: "nat \<Rightarrow> int list \<Rightarrow> nat \<Rightarrow> int list \<Rightarrow> int list \<times> int list" where
  "allpass_loop n state k xs =
     (let (s, ys) = run (branch_step (allpass_int n)) (get_section state k) xs
      in (put_section state k s, ys))"

definition to_q15 :: "int \<Rightarrow> int" where
  "to_q15 x = i32 (shl32 x 15 + 2 ^ 14)"

text \<open>The two saturating comparisons that the converters to \<open>int16_t\<close> write out.\<close>

definition saturate :: "int \<Rightarrow> int" where
  "saturate tmp = (let tmp = (if tmp > 0x7FFF then 0x7FFF else tmp)
                   in i16 (if tmp < - 0x8000 then - 0x8000 else tmp))"

text \<open>
  The decimator to \<open>int16_t\<close> stores both halved branches in its input array, which it returns as well.
  The combining loop makes two outputs per round, so half the length has to be even.
\<close>

definition WebRtcSpl_DownBy2IntToShort ::
    "int list \<Rightarrow> int list \<Rightarrow> int list \<times> int list \<times> samples" where
  "WebRtcSpl_DownBy2IntToShort state xs =
     (let len = length xs div 2;
          (state, lower) = allpass_loop 1 state 0 (evens xs);
          (state, upper) = allpass_loop 0 state 4 (odds xs);
          xs = mem_copy xs 0 (interleave (map (\<lambda>s. shr s 1) lower) (map (\<lambda>s. shr s 1) upper));
          out = concat (map (\<lambda>h. let i = 2 * h;
                                     tmp0 = shr (i32 (xs ! (2 * i) + xs ! (2 * i + 1))) 15;
                                     tmp1 = shr (i32 (xs ! (2 * i + 2) + xs ! (2 * i + 3))) 15
                                 in [saturate tmp0, saturate tmp1]) [0..<(len + 1) div 2])
      in (state, xs, out))"

definition WebRtcSpl_DownBy2ShortToInt :: "int list \<Rightarrow> samples \<Rightarrow> int list \<times> int list" where
  "WebRtcSpl_DownBy2ShortToInt state xs =
     (let (state, lower) = allpass_loop 1 state 0 (map to_q15 (evens xs));
          (state, upper) = allpass_loop 0 state 4 (map to_q15 (odds xs))
      in (state, map2 (\<lambda>l u. i32 (shr l 1 + shr u 1)) lower upper))"

definition WebRtcSpl_UpBy2ShortToInt :: "int list \<Rightarrow> samples \<Rightarrow> int list \<times> int list" where
  "WebRtcSpl_UpBy2ShortToInt state xs =
     (let (state, upper) = allpass_loop 0 state 4 (map to_q15 xs);
          (state, lower) = allpass_loop 1 state 0 (map to_q15 xs)
      in (state, interleave (map (\<lambda>s. shr s 15) upper) (map (\<lambda>s. shr s 15) lower)))"

definition WebRtcSpl_UpBy2IntToInt :: "int list \<Rightarrow> int list \<Rightarrow> int list \<times> int list" where
  "WebRtcSpl_UpBy2IntToInt state xs =
     (let (state, upper) = allpass_loop 0 state 4 xs;
          (state, lower) = allpass_loop 1 state 0 xs
      in (state, interleave upper lower))"

definition WebRtcSpl_UpBy2IntToShort :: "int list \<Rightarrow> int list \<Rightarrow> int list \<times> samples" where
  "WebRtcSpl_UpBy2IntToShort state xs =
     (let (state, upper) = allpass_loop 0 state 4 xs;
          (state, lower) = allpass_loop 1 state 0 xs
      in (state, interleave (map (\<lambda>s. saturate (shr s 15)) upper) (map (\<lambda>s. saturate (shr s 15)) lower)))"

text \<open>
  The low pass filters. The first loop starts from the delay element \<open>state[12]\<close>, the last odd
  input of the previous call, and reads one odd input less.
\<close>

definition average_out :: "int \<Rightarrow> int \<Rightarrow> int" where
  "average_out l u = shr (i32 (shr l 1 + shr u 1)) 15"

definition low_pass_loops :: "int list \<Rightarrow> int list \<Rightarrow> int list \<Rightarrow> int list \<times> int list" where
  "low_pass_loops state ev od =
     (let (state, lower) = allpass_loop 1 state 0 (take (length od) (state ! 12 # od));
          (state, upper) = allpass_loop 0 state 4 ev;
          even_out = map2 average_out lower upper;
          (state, lower) = allpass_loop 1 state 8 ev;
          (state, upper) = allpass_loop 0 state 12 od
      in (state, interleave even_out (map2 average_out lower upper)))"

definition WebRtcSpl_LPBy2ShortToInt :: "int list \<Rightarrow> samples \<Rightarrow> int list \<times> int list" where
  "WebRtcSpl_LPBy2ShortToInt state xs =
     low_pass_loops state (map to_q15 (evens xs)) (map to_q15 (odds xs))"

definition WebRtcSpl_LPBy2IntToInt :: "int list \<Rightarrow> int list \<Rightarrow> int list \<times> int list" where
  "WebRtcSpl_LPBy2IntToInt state xs = low_pass_loops state (evens xs) (odds xs)"

section \<open>resample_fractional.c\<close>

definition kCoefficients48To32 :: "int list list" where
  "kCoefficients48To32 =
     [[778, - 2050, 1087, 23285, 12903, - 3783, 441, 222],
      [222, 441, - 3783, 12903, 23285, 1087, - 2050, 778]]"

definition kCoefficients32To24 :: "int list list" where
  "kCoefficients32To24 =
     [[767, - 2362, 2434, 24406, 10620, - 3838, 721, 90],
      [386, - 381, - 2646, 19062, 19062, - 2646, - 381, 386],
      [90, 721, - 3838, 10620, 24406, 2434, - 2362, 767]]"

definition kCoefficients44To32 :: "int list list" where
  "kCoefficients44To32 =
     [[117, - 669, 2245, - 6183, 26267, 13529, - 3245, 845, - 138],
      [- 101, 612, - 2283, 8532, 29790, - 5138, 1789, - 524, 91],
      [50, - 292, 1016, - 3064, 32010, 3933, - 1147, 315, - 53],
      [- 156, 974, - 3863, 18603, 21691, - 6246, 2353, - 712, 126]]"

text \<open>
  \<open>tap_sum cs m p\<close> is \<open>(1 << 14) + cs[0] * m[p] + cs[1] * m[p + 1] + ...\<close>, and \<open>tap_sum_down\<close> the same
  with the samples read downwards, \<open>m[p - 1]\<close>, \<open>m[p - 2]\<close> and so on.
\<close>

definition tap_sum :: "int list \<Rightarrow> int list \<Rightarrow> nat \<Rightarrow> int" where
  "tap_sum cs m p = i32 (16384 + sum_list (map (\<lambda>j. cs ! j * m ! (p + j)) [0..<length cs]))"

definition tap_sum_down :: "int list \<Rightarrow> int list \<Rightarrow> nat \<Rightarrow> int" where
  "tap_sum_down cs m p = i32 (16384 + sum_list (map (\<lambda>j. cs ! j * m ! (p - j)) [0..<length cs]))"

text \<open>One sub block of each converter, with \<open>In\<close> and \<open>Out\<close> at positions \<open>i\<close> and \<open>p\<close> of the memory \<open>m\<close>.
  The dot products take both sums before they write; the code reads its last sample of the second sum after the
  first write, a place that \<open>out1\<close> never is as long as the output lies at or below the input.\<close>

definition block_48To32 :: "int list \<Rightarrow> nat \<Rightarrow> nat \<Rightarrow> int list" where
  "block_48To32 m i p =
     (let m = m[p := tap_sum (kCoefficients48To32 ! 0) m i]
      in m[p + 1 := tap_sum (kCoefficients48To32 ! 1) m (i + 1)])"

definition block_32To24 :: "int list \<Rightarrow> nat \<Rightarrow> nat \<Rightarrow> int list" where
  "block_32To24 m i p =
     (let m = m[p := tap_sum (kCoefficients32To24 ! 0) m i];
          m = m[p + 1 := tap_sum (kCoefficients32To24 ! 1) m (i + 1)]
      in m[p + 2 := tap_sum (kCoefficients32To24 ! 2) m (i + 2)])"

definition WebRtcSpl_ResampDotProduct ::
    "int list \<Rightarrow> nat \<Rightarrow> nat \<Rightarrow> int list \<Rightarrow> nat \<Rightarrow> nat \<Rightarrow> int list" where
  "WebRtcSpl_ResampDotProduct m in1 in2 coef_ptr out1 out2 =
     (let tmp1 = tap_sum coef_ptr m in1; tmp2 = tap_sum_down coef_ptr m in2
      in m[out1 := tmp1, out2 := tmp2])"

definition block_44To32 :: "int list \<Rightarrow> nat \<Rightarrow> nat \<Rightarrow> int list" where
  "block_44To32 m i p =
     (let m = m[p := i32 (shl32 (m ! (i + 3)) 15 + 16384)];
          m = m[p + 4 := tap_sum (kCoefficients44To32 ! 3) m (i + 5)];
          m = WebRtcSpl_ResampDotProduct m i (i + 17) (kCoefficients44To32 ! 0) (p + 1) (p + 7);
          m = WebRtcSpl_ResampDotProduct m (i + 2) (i + 15) (kCoefficients44To32 ! 1) (p + 2) (p + 6)
      in WebRtcSpl_ResampDotProduct m (i + 3) (i + 14) (kCoefficients44To32 ! 2) (p + 3) (p + 5))"

text \<open>The loop over \<open>K\<close> sub blocks, with its two pointer updates.\<close>

fun resample_blocks :: "(int list \<Rightarrow> nat \<Rightarrow> nat \<Rightarrow> int list) \<Rightarrow> nat \<Rightarrow> nat \<Rightarrow> int list \<Rightarrow> nat \<Rightarrow> nat \<Rightarrow> nat
    \<Rightarrow> int list" where
  "resample_blocks block a b m i p 0 = m"
| "resample_blocks block a b m i p (Suc K) = resample_blocks block a b (block m i p) (i + a) (p + b) K"

definition WebRtcSpl_Resample48khzTo32khz :: "int list \<Rightarrow> nat \<Rightarrow> nat \<Rightarrow> nat \<Rightarrow> int list" where
  "WebRtcSpl_Resample48khzTo32khz m In Out K = resample_blocks block_48To32 3 2 m In Out K"

definition WebRtcSpl_Resample32khzTo24khz :: "int list \<Rightarrow> nat \<Rightarrow> nat \<Rightarrow> nat \<Rightarrow> int list" where
  "WebRtcSpl_Resample32khzTo24khz m In Out K = resample_blocks block_32To24 4 3 m In Out K"

definition WebRtcSpl_Resample44khzTo32khz :: "int list \<Rightarrow> nat \<Rightarrow> nat \<Rightarrow> nat \<Rightarrow> int list" where
  "WebRtcSpl_Resample44khzTo32khz m In Out K = resample_blocks block_44To32 11 8 m In Out K"

section \<open>resample_48khz.c\<close>

record WebRtcSpl_State48khzTo16khz =
  S_48_48 :: "int list"
  S_48_32 :: "int list"
  S_32_16 :: "int list"

record WebRtcSpl_State16khzTo48khz =
  S_16_32 :: "int list"
  S_32_24 :: "int list"
  S_24_48 :: "int list"

record WebRtcSpl_State48khzTo8khz =
  S_48_24 :: "int list"
  S_24_24 :: "int list"
  S_24_16 :: "int list"
  S_16_8 :: "int list"

record WebRtcSpl_State8khzTo48khz =
  S_8_16 :: "int list"
  S_16_12 :: "int list"
  S_12_24 :: "int list"
  S_24_48_of_8 :: "int list"

text \<open>
  Each converter takes 10 ms of input and the scratch memory, and returns the new state, the
  scratch memory and the output. The fractional stage finds the last eight samples of the previous call
  in front of its input, copied there from the state.
\<close>

definition WebRtcSpl_Resample48khzTo16khz :: "samples \<Rightarrow> WebRtcSpl_State48khzTo16khz \<Rightarrow> int list
    \<Rightarrow> WebRtcSpl_State48khzTo16khz \<times> int list \<times> samples" where
  "WebRtcSpl_Resample48khzTo16khz xs state tmpmem =
     (let (s, lp) = WebRtcSpl_LPBy2ShortToInt (S_48_48 state) (mem_slice xs 0 480);
          state = state\<lparr>S_48_48 := s\<rparr>;
          tmpmem = mem_copy tmpmem 16 lp;
          tmpmem = mem_copy tmpmem 8 (S_48_32 state);
          state = state\<lparr>S_48_32 := mem_slice tmpmem 488 8\<rparr>;
          tmpmem = WebRtcSpl_Resample48khzTo32khz tmpmem 8 0 160;
          (s, low, out) = WebRtcSpl_DownBy2IntToShort (S_32_16 state) (mem_slice tmpmem 0 320);
          state = state\<lparr>S_32_16 := s\<rparr>
      in (state, mem_copy tmpmem 0 low, out))"

definition WebRtcSpl_ResetResample48khzTo16khz ::
    "WebRtcSpl_State48khzTo16khz \<Rightarrow> WebRtcSpl_State48khzTo16khz" where
  "WebRtcSpl_ResetResample48khzTo16khz state =
     state\<lparr>S_48_48 := replicate 16 0, S_48_32 := replicate 8 0, S_32_16 := replicate 8 0\<rparr>"

definition WebRtcSpl_Resample16khzTo48khz :: "samples \<Rightarrow> WebRtcSpl_State16khzTo48khz \<Rightarrow> int list
    \<Rightarrow> WebRtcSpl_State16khzTo48khz \<times> int list \<times> samples" where
  "WebRtcSpl_Resample16khzTo48khz xs state tmpmem =
     (let (s, up) = WebRtcSpl_UpBy2ShortToInt (S_16_32 state) (mem_slice xs 0 160);
          state = state\<lparr>S_16_32 := s\<rparr>;
          tmpmem = mem_copy tmpmem 16 up;
          tmpmem = mem_copy tmpmem 8 (S_32_24 state);
          state = state\<lparr>S_32_24 := mem_slice tmpmem 328 8\<rparr>;
          tmpmem = WebRtcSpl_Resample32khzTo24khz tmpmem 8 0 80;
          (s, out) = WebRtcSpl_UpBy2IntToShort (S_24_48 state) (mem_slice tmpmem 0 240);
          state = state\<lparr>S_24_48 := s\<rparr>
      in (state, tmpmem, out))"

definition WebRtcSpl_ResetResample16khzTo48khz ::
    "WebRtcSpl_State16khzTo48khz \<Rightarrow> WebRtcSpl_State16khzTo48khz" where
  "WebRtcSpl_ResetResample16khzTo48khz state =
     state\<lparr>S_16_32 := replicate 8 0, S_32_24 := replicate 8 0, S_24_48 := replicate 8 0\<rparr>"

definition WebRtcSpl_Resample48khzTo8khz :: "samples \<Rightarrow> WebRtcSpl_State48khzTo8khz \<Rightarrow> int list
    \<Rightarrow> WebRtcSpl_State48khzTo8khz \<times> int list \<times> samples" where
  "WebRtcSpl_Resample48khzTo8khz xs state tmpmem =
     (let (s, down) = WebRtcSpl_DownBy2ShortToInt (S_48_24 state) (mem_slice xs 0 480);
          state = state\<lparr>S_48_24 := s\<rparr>;
          tmpmem = mem_copy tmpmem 256 down;
          (s, lp) = WebRtcSpl_LPBy2IntToInt (S_24_24 state) (mem_slice tmpmem 256 240);
          state = state\<lparr>S_24_24 := s\<rparr>;
          tmpmem = mem_copy tmpmem 16 lp;
          tmpmem = mem_copy tmpmem 8 (S_24_16 state);
          state = state\<lparr>S_24_16 := mem_slice tmpmem 248 8\<rparr>;
          tmpmem = WebRtcSpl_Resample48khzTo32khz tmpmem 8 0 80;
          (s, low, out) = WebRtcSpl_DownBy2IntToShort (S_16_8 state) (mem_slice tmpmem 0 160);
          state = state\<lparr>S_16_8 := s\<rparr>
      in (state, mem_copy tmpmem 0 low, out))"

definition WebRtcSpl_ResetResample48khzTo8khz ::
    "WebRtcSpl_State48khzTo8khz \<Rightarrow> WebRtcSpl_State48khzTo8khz" where
  "WebRtcSpl_ResetResample48khzTo8khz state =
     state\<lparr>S_48_24 := replicate 8 0, S_24_24 := replicate 16 0, S_24_16 := replicate 8 0,
           S_16_8 := replicate 8 0\<rparr>"

definition WebRtcSpl_Resample8khzTo48khz :: "samples \<Rightarrow> WebRtcSpl_State8khzTo48khz \<Rightarrow> int list
    \<Rightarrow> WebRtcSpl_State8khzTo48khz \<times> int list \<times> samples" where
  "WebRtcSpl_Resample8khzTo48khz xs state tmpmem =
     (let (s, up) = WebRtcSpl_UpBy2ShortToInt (S_8_16 state) (mem_slice xs 0 80);
          state = state\<lparr>S_8_16 := s\<rparr>;
          tmpmem = mem_copy tmpmem 264 up;
          tmpmem = mem_copy tmpmem 256 (S_16_12 state);
          state = state\<lparr>S_16_12 := mem_slice tmpmem 416 8\<rparr>;
          tmpmem = WebRtcSpl_Resample32khzTo24khz tmpmem 256 240 40;
          (s, up) = WebRtcSpl_UpBy2IntToInt (S_12_24 state) (mem_slice tmpmem 240 120);
          state = state\<lparr>S_12_24 := s\<rparr>;
          tmpmem = mem_copy tmpmem 0 up;
          (s, out) = WebRtcSpl_UpBy2IntToShort (S_24_48_of_8 state) (mem_slice tmpmem 0 240);
          state = state\<lparr>S_24_48_of_8 := s\<rparr>
      in (state, tmpmem, out))"

definition WebRtcSpl_ResetResample8khzTo48khz ::
    "WebRtcSpl_State8khzTo48khz \<Rightarrow> WebRtcSpl_State8khzTo48khz" where
  "WebRtcSpl_ResetResample8khzTo48khz state =
     state\<lparr>S_8_16 := replicate 8 0, S_16_12 := replicate 8 0, S_12_24 := replicate 8 0,
           S_24_48_of_8 := replicate 8 0\<rparr>"

section \<open>resample.c\<close>

definition kCoefficients32To22 :: "int list list" where
  "kCoefficients32To22 =
     [[127, - 712, 2359, - 6333, 23456, 16775, - 3695, 945, - 154],
      [- 39, 230, - 830, 2785, 32366, - 2324, 760, - 218, 38],
      [117, - 663, 2222, - 6133, 26634, 13070, - 3174, 831, - 137],
      [- 77, 457, - 1677, 5958, 31175, - 4136, 1405, - 408, 71],
      [98, - 560, 1900, - 5406, 29240, 9423, - 2480, 663, - 110]]"

definition WebRtcSpl_DotProdIntToInt ::
    "int list \<Rightarrow> nat \<Rightarrow> nat \<Rightarrow> int list \<Rightarrow> nat \<Rightarrow> nat \<Rightarrow> int list" where
  "WebRtcSpl_DotProdIntToInt m in1 in2 coef_ptr out1 out2 =
     (let tmp1 = tap_sum coef_ptr m in1; tmp2 = tap_sum_down coef_ptr m in2
      in m[out1 := tmp1, out2 := tmp2])"

text \<open>The same sums saturated to 16 bits, into an output array \<open>ys\<close> of its own.\<close>

definition WebRtcSpl_DotProdIntToShort ::
    "int list \<Rightarrow> nat \<Rightarrow> nat \<Rightarrow> int list \<Rightarrow> samples \<Rightarrow> nat \<Rightarrow> nat \<Rightarrow> samples" where
  "WebRtcSpl_DotProdIntToShort m in1 in2 coef_ptr ys out1 out2 =
     (let tmp1 = tap_sum coef_ptr m in1; tmp2 = tap_sum_down coef_ptr m in2
      in ys[out1 := saturate (shr tmp1 15), out2 := saturate (shr tmp2 15)])"

definition block_32To22 :: "int list \<Rightarrow> nat \<Rightarrow> nat \<Rightarrow> int list" where
  "block_32To22 m i p =
     (let m = m[p := i32 (shl32 (m ! (i + 3)) 15 + 2 ^ 14)];
          m = WebRtcSpl_DotProdIntToInt m i (i + 22) (kCoefficients32To22 ! 0) (p + 1) (p + 10);
          m = WebRtcSpl_DotProdIntToInt m (i + 2) (i + 20) (kCoefficients32To22 ! 1) (p + 2) (p + 9);
          m = WebRtcSpl_DotProdIntToInt m (i + 3) (i + 19) (kCoefficients32To22 ! 2) (p + 3) (p + 8);
          m = WebRtcSpl_DotProdIntToInt m (i + 5) (i + 17) (kCoefficients32To22 ! 3) (p + 4) (p + 7)
      in WebRtcSpl_DotProdIntToInt m (i + 6) (i + 16) (kCoefficients32To22 ! 4) (p + 5) (p + 6))"

definition WebRtcSpl_32khzTo22khzIntToInt :: "int list \<Rightarrow> nat \<Rightarrow> nat \<Rightarrow> nat \<Rightarrow> int list" where
  "WebRtcSpl_32khzTo22khzIntToInt m In Out K = resample_blocks block_32To22 16 11 m In Out K"

text \<open>The eleven samples of one sub block of the converter to \<open>int16_t\<close>, whose \<open>Out\<close> is another array.\<close>

definition short_block_32To22 :: "int list \<Rightarrow> nat \<Rightarrow> samples" where
  "short_block_32To22 m i =
     (let ys = (replicate 11 0)[0 := saturate (m ! (i + 3))];
          ys = WebRtcSpl_DotProdIntToShort m i (i + 22) (kCoefficients32To22 ! 0) ys 1 10;
          ys = WebRtcSpl_DotProdIntToShort m (i + 2) (i + 20) (kCoefficients32To22 ! 1) ys 2 9;
          ys = WebRtcSpl_DotProdIntToShort m (i + 3) (i + 19) (kCoefficients32To22 ! 2) ys 3 8;
          ys = WebRtcSpl_DotProdIntToShort m (i + 5) (i + 17) (kCoefficients32To22 ! 3) ys 4 7
      in WebRtcSpl_DotProdIntToShort m (i + 6) (i + 16) (kCoefficients32To22 ! 4) ys 5 6)"

definition WebRtcSpl_32khzTo22khzIntToShort :: "int list \<Rightarrow> nat \<Rightarrow> samples" where
  "WebRtcSpl_32khzTo22khzIntToShort m K = concat (map (\<lambda>k. short_block_32To22 m (16 * k)) [0..<K])"

record WebRtcSpl_State22khzTo16khz =
  S_22_44 :: "int list"
  S_44_32 :: "int list"
  S_32_16_of_22 :: "int list"

record WebRtcSpl_State16khzTo22khz =
  S_16_32_of_22 :: "int list"
  S_32_22 :: "int list"

record WebRtcSpl_State22khzTo8khz =
  S_22_22 :: "int list"
  S_22_16 :: "int list"
  S_16_8_of_22 :: "int list"

record WebRtcSpl_State8khzTo22khz =
  S_8_16_of_22 :: "int list"
  S_16_11 :: "int list"
  S_11_22 :: "int list"

definition SUB_BLOCKS_22_16 :: nat where "SUB_BLOCKS_22_16 = 5"

definition SUB_BLOCKS_16_22 :: nat where "SUB_BLOCKS_16_22 = 4"

definition SUB_BLOCKS_22_8 :: nat where "SUB_BLOCKS_22_8 = 2"

definition SUB_BLOCKS_8_22 :: nat where "SUB_BLOCKS_8_22 = 2"

text \<open>
  One sub block of each converter, then the loop over the sub blocks with the state and the scratch
  memory carried along and the input cut into \<open>n\<close> pieces of \<open>a\<close> samples.
\<close>

definition sub_blocks :: "('s \<times> int list \<Rightarrow> samples \<Rightarrow> ('s \<times> int list) \<times> samples) \<Rightarrow> nat \<Rightarrow> nat
    \<Rightarrow> samples \<Rightarrow> 's \<Rightarrow> int list \<Rightarrow> 's \<times> int list \<times> samples" where
  "sub_blocks step n a xs state tmpmem =
     (let ((state, tmpmem), outs) = run step (state, tmpmem) (map (\<lambda>k. mem_slice xs (a * k) a) [0..<n])
      in (state, tmpmem, concat outs))"

definition sub_block_22_16 :: "WebRtcSpl_State22khzTo16khz \<times> int list \<Rightarrow> samples
    \<Rightarrow> (WebRtcSpl_State22khzTo16khz \<times> int list) \<times> samples" where
  "sub_block_22_16 = (\<lambda>(state, tmpmem) xs.
     let (s, up) = WebRtcSpl_UpBy2ShortToInt (S_22_44 state) xs;
         state = state\<lparr>S_22_44 := s\<rparr>;
         tmpmem = mem_copy tmpmem 16 up;
         tmpmem = mem_copy tmpmem 8 (S_44_32 state);
         state = state\<lparr>S_44_32 := mem_slice tmpmem (440 div SUB_BLOCKS_22_16 + 8) 8\<rparr>;
         tmpmem = WebRtcSpl_Resample44khzTo32khz tmpmem 8 0 (40 div SUB_BLOCKS_22_16);
         (s, low, out) = WebRtcSpl_DownBy2IntToShort (S_32_16_of_22 state)
                           (mem_slice tmpmem 0 (320 div SUB_BLOCKS_22_16));
         state = state\<lparr>S_32_16_of_22 := s\<rparr>
     in ((state, mem_copy tmpmem 0 low), out))"

definition WebRtcSpl_Resample22khzTo16khz :: "samples \<Rightarrow> WebRtcSpl_State22khzTo16khz \<Rightarrow> int list
    \<Rightarrow> WebRtcSpl_State22khzTo16khz \<times> int list \<times> samples" where
  "WebRtcSpl_Resample22khzTo16khz = sub_blocks sub_block_22_16 SUB_BLOCKS_22_16 (220 div SUB_BLOCKS_22_16)"

definition WebRtcSpl_ResetResample22khzTo16khz ::
    "WebRtcSpl_State22khzTo16khz \<Rightarrow> WebRtcSpl_State22khzTo16khz" where
  "WebRtcSpl_ResetResample22khzTo16khz state =
     state\<lparr>S_22_44 := replicate 8 0, S_44_32 := replicate 8 0, S_32_16_of_22 := replicate 8 0\<rparr>"

definition sub_block_16_22 :: "WebRtcSpl_State16khzTo22khz \<times> int list \<Rightarrow> samples
    \<Rightarrow> (WebRtcSpl_State16khzTo22khz \<times> int list) \<times> samples" where
  "sub_block_16_22 = (\<lambda>(state, tmpmem) xs.
     let (s, up) = WebRtcSpl_UpBy2ShortToInt (S_16_32_of_22 state) xs;
         state = state\<lparr>S_16_32_of_22 := s\<rparr>;
         tmpmem = mem_copy tmpmem 8 up;
         tmpmem = mem_copy tmpmem 0 (S_32_22 state);
         state = state\<lparr>S_32_22 := mem_slice tmpmem (320 div SUB_BLOCKS_16_22) 8\<rparr>;
         out = WebRtcSpl_32khzTo22khzIntToShort tmpmem (20 div SUB_BLOCKS_16_22)
     in ((state, tmpmem), out))"

definition WebRtcSpl_Resample16khzTo22khz :: "samples \<Rightarrow> WebRtcSpl_State16khzTo22khz \<Rightarrow> int list
    \<Rightarrow> WebRtcSpl_State16khzTo22khz \<times> int list \<times> samples" where
  "WebRtcSpl_Resample16khzTo22khz = sub_blocks sub_block_16_22 SUB_BLOCKS_16_22 (160 div SUB_BLOCKS_16_22)"

definition WebRtcSpl_ResetResample16khzTo22khz ::
    "WebRtcSpl_State16khzTo22khz \<Rightarrow> WebRtcSpl_State16khzTo22khz" where
  "WebRtcSpl_ResetResample16khzTo22khz state =
     state\<lparr>S_16_32_of_22 := replicate 8 0, S_32_22 := replicate 8 0\<rparr>"

definition sub_block_22_8 :: "WebRtcSpl_State22khzTo8khz \<times> int list \<Rightarrow> samples
    \<Rightarrow> (WebRtcSpl_State22khzTo8khz \<times> int list) \<times> samples" where
  "sub_block_22_8 = (\<lambda>(state, tmpmem) xs.
     let (s, lp) = WebRtcSpl_LPBy2ShortToInt (S_22_22 state) xs;
         state = state\<lparr>S_22_22 := s\<rparr>;
         tmpmem = mem_copy tmpmem 16 lp;
         tmpmem = mem_copy tmpmem 8 (S_22_16 state);
         state = state\<lparr>S_22_16 := mem_slice tmpmem (220 div SUB_BLOCKS_22_8 + 8) 8\<rparr>;
         tmpmem = WebRtcSpl_Resample44khzTo32khz tmpmem 8 0 (20 div SUB_BLOCKS_22_8);
         (s, low, out) = WebRtcSpl_DownBy2IntToShort (S_16_8_of_22 state)
                           (mem_slice tmpmem 0 (160 div SUB_BLOCKS_22_8));
         state = state\<lparr>S_16_8_of_22 := s\<rparr>
     in ((state, mem_copy tmpmem 0 low), out))"

definition WebRtcSpl_Resample22khzTo8khz :: "samples \<Rightarrow> WebRtcSpl_State22khzTo8khz \<Rightarrow> int list
    \<Rightarrow> WebRtcSpl_State22khzTo8khz \<times> int list \<times> samples" where
  "WebRtcSpl_Resample22khzTo8khz = sub_blocks sub_block_22_8 SUB_BLOCKS_22_8 (220 div SUB_BLOCKS_22_8)"

definition WebRtcSpl_ResetResample22khzTo8khz ::
    "WebRtcSpl_State22khzTo8khz \<Rightarrow> WebRtcSpl_State22khzTo8khz" where
  "WebRtcSpl_ResetResample22khzTo8khz state =
     state\<lparr>S_22_22 := replicate 16 0, S_22_16 := replicate 8 0, S_16_8_of_22 := replicate 8 0\<rparr>"

definition sub_block_8_22 :: "WebRtcSpl_State8khzTo22khz \<times> int list \<Rightarrow> samples
    \<Rightarrow> (WebRtcSpl_State8khzTo22khz \<times> int list) \<times> samples" where
  "sub_block_8_22 = (\<lambda>(state, tmpmem) xs.
     let (s, up) = WebRtcSpl_UpBy2ShortToInt (S_8_16_of_22 state) xs;
         state = state\<lparr>S_8_16_of_22 := s\<rparr>;
         tmpmem = mem_copy tmpmem 18 up;
         tmpmem = mem_copy tmpmem 10 (S_16_11 state);
         state = state\<lparr>S_16_11 := mem_slice tmpmem (160 div SUB_BLOCKS_8_22 + 10) 8\<rparr>;
         tmpmem = WebRtcSpl_32khzTo22khzIntToInt tmpmem 10 0 (10 div SUB_BLOCKS_8_22);
         (s, out) = WebRtcSpl_UpBy2IntToShort (S_11_22 state)
                      (mem_slice tmpmem 0 (110 div SUB_BLOCKS_8_22));
         state = state\<lparr>S_11_22 := s\<rparr>
     in ((state, tmpmem), out))"

definition WebRtcSpl_Resample8khzTo22khz :: "samples \<Rightarrow> WebRtcSpl_State8khzTo22khz \<Rightarrow> int list
    \<Rightarrow> WebRtcSpl_State8khzTo22khz \<times> int list \<times> samples" where
  "WebRtcSpl_Resample8khzTo22khz = sub_blocks sub_block_8_22 SUB_BLOCKS_8_22 (80 div SUB_BLOCKS_8_22)"

definition WebRtcSpl_ResetResample8khzTo22khz ::
    "WebRtcSpl_State8khzTo22khz \<Rightarrow> WebRtcSpl_State8khzTo22khz" where
  "WebRtcSpl_ResetResample8khzTo22khz state =
     state\<lparr>S_8_16_of_22 := replicate 8 0, S_16_11 := replicate 8 0, S_11_22 := replicate 8 0\<rparr>"

section \<open>The by-two converters are exact\<close>

text \<open>
  The reference: every all-pass stage \<open>y\<^sub>n = x\<^sub>n\<^sub>-\<^sub>1 + c / 2\<^sup>1\<^sup>6 * (x\<^sub>n - y\<^sub>n\<^sub>-\<^sub>1)\<close> over the integers, with the
  product rounded down, and the outputs clamped to 16 bits. Nothing wraps around in it.
\<close>

definition exact_section :: "int list \<Rightarrow> section_state \<Rightarrow> int \<Rightarrow> section_state" where
  "exact_section c = (\<lambda>(s0, s1, s2, s3) x.
     let y = s0 + c ! 0 * (x - s1) div 65536;
         z = s1 + c ! 1 * (y - s2) div 65536
     in (x, y, z, s2 + c ! 2 * (z - s3) div 65536))"

definition exact_down :: "section_state \<times> section_state \<Rightarrow> int \<times> int
    \<Rightarrow> (section_state \<times> section_state) \<times> int" where
  "exact_down = (\<lambda>(lower, upper) (x, y).
     let lower = exact_section kResampleAllpass2 lower (1024 * x);
         upper = exact_section kResampleAllpass1 upper (1024 * y)
     in ((lower, upper), clamp (- 32768) 32767
          ((snd (snd (snd lower)) + snd (snd (snd upper)) + 1024) div 2048)))"

definition exact_up :: "section_state \<times> section_state \<Rightarrow> int
    \<Rightarrow> (section_state \<times> section_state) \<times> int list" where
  "exact_up = (\<lambda>(lower, upper) x.
     let lower = exact_section kResampleAllpass1 lower (1024 * x);
         upper = exact_section kResampleAllpass2 upper (1024 * x)
     in ((lower, upper), [clamp (- 32768) 32767 ((snd (snd (snd lower)) + 512) div 1024),
                          clamp (- 32768) 32767 ((snd (snd (snd upper)) + 512) div 1024)]))"

lemma SCALEDIFF32_div:
  assumes "0 \<le> A" "A \<le> 65535"
  shows "WEBRTC_SPL_SCALEDIFF32 A B C = i32 (C + A * B div 65536)"
proof -
  have low: "0xFFFF AND B = B mod 65536"
    using take_bit_eq_mask [of 16 B] by (simp add: take_bit_eq_mod mask_eq_exp_minus_1 and.commute)
  have "(B mod 65536) * A \<le> 65535 * 65535"
    using assms by (intro mult_mono) auto
  then have u: "u32 ((0xFFFF AND B) * A) = (B mod 65536) * A"
    using assms by (intro u32_id [THEN trans]) (simp_all add: low in_u32_def)
  have "A * B = A * (65536 * (B div 65536) + B mod 65536)" by simp
  also have "\<dots> = (B mod 65536) * A + 65536 * (B div 65536 * A)" by (simp only: algebra_simps)
  finally have "A * B div 65536 = B div 65536 * A + (B mod 65536) * A div 65536" by simp
  then show ?thesis
    by (simp add: WEBRTC_SPL_SCALEDIFF32_def u shr_def add.assoc)
qed

text \<open>
  The bound of one stage with coefficient \<open>c\<close> in units of \<open>1 / Q\<close>: inputs up to \<open>X\<close> keep
  \<open>Q * x - c * y\<close> within \<open>(Q + c) * X + E\<close>, where \<open>E\<close> covers the rounding, at most \<open>R\<close> per
  step, and so the outputs within \<open>(1 + 2 * c / Q) * X\<close> and a little, which is \<open>Y\<close>.
\<close>

definition stage_ok :: "int \<Rightarrow> int \<Rightarrow> int \<Rightarrow> int \<Rightarrow> int \<Rightarrow> int \<Rightarrow> int \<Rightarrow> bool" where
  "stage_ok Q E c X Y x y \<longleftrightarrow> \<bar>x\<bar> \<le> X \<and> \<bar>y\<bar> \<le> Y \<and> \<bar>Q * x - c * y\<bar> \<le> (Q + c) * X + E"

definition stage_gain :: "int \<Rightarrow> int \<Rightarrow> int \<Rightarrow> int \<Rightarrow> int \<Rightarrow> int \<Rightarrow> bool" where
  "stage_gain Q E R c X Y \<longleftrightarrow> 0 \<le> c \<and> c < Q \<and> c * (E + R) \<le> Q * E \<and>
     (Q + 2 * c) * X + E + R < Q * (Y + 1)"

lemma stage_ok_step:
  assumes g: "stage_gain Q E R c X Y" and s: "stage_ok Q E c X Y x y" and x': "\<bar>x'\<bar> \<le> X"
    and y': "Q * y' = (Q * x - c * y) + c * x' + e" and e: "\<bar>e\<bar> \<le> R"
  shows "stage_ok Q E c X Y x' y'"
proof -
  define W where "W = Q * x - c * y"
  have c: "0 \<le> c" "c < Q" "0 < Q" using g by (simp_all add: stage_gain_def)
  have W: "\<bar>W\<bar> \<le> (Q + c) * X + E" using s by (simp add: stage_ok_def W_def)
  have cx: "\<bar>c * x'\<bar> \<le> c * X" using c x' by (simp add: abs_mult mult_left_mono)
  have "\<bar>Q * y'\<bar> \<le> (Q + c) * X + E + c * X + R"
    unfolding y' using W cx e by (simp add: W_def abs_le_iff)
  also have "\<dots> = (Q + 2 * c) * X + E + R" by (simp add: algebra_simps)
  also have "\<dots> < Q * (Y + 1)" using g by (simp add: stage_gain_def)
  finally have Y: "\<bar>y'\<bar> \<le> Y" using c by (simp add: abs_mult)
  have "Q * (Q * x' - c * y') = Q * Q * x' - c * (Q * y')" by (simp add: algebra_simps)
  also have "\<dots> = (Q * Q - c * c) * x' - c * W - c * e"
    unfolding y' by (simp add: W_def algebra_simps)
  finally have eq: "Q * (Q * x' - c * y') = (Q * Q - c * c) * x' - c * W - c * e" .
  have cc: "c * c \<le> Q * Q" using mult_mono [of c Q c Q] c by simp
  have "\<bar>(Q * Q - c * c) * x'\<bar> \<le> (Q * Q - c * c) * X"
    using cc x' by (simp add: abs_mult mult_left_mono)
  moreover have "\<bar>c * W\<bar> \<le> c * ((Q + c) * X + E)"
    using c W by (simp add: abs_mult mult_left_mono)
  moreover have "\<bar>c * e\<bar> \<le> c * R" using c e by (simp add: abs_mult mult_left_mono)
  moreover have "(Q * Q - c * c) * X + c * ((Q + c) * X + E) + c * R \<le> Q * ((Q + c) * X + E)"
    using g by (simp add: stage_gain_def algebra_simps)
  ultimately have "\<bar>Q * (Q * x' - c * y')\<bar> \<le> Q * ((Q + c) * X + E)"
    unfolding eq by linarith
  then show ?thesis using x' Y c by (simp add: stage_ok_def abs_mult)
qed

text \<open>The stages of \<open>resample_by_2.c\<close>, which round down.\<close>

lemma stage_16_step:
  assumes "stage_gain 65536 E 65535 c X Y" "stage_ok 65536 E c X Y x y" "\<bar>x'\<bar> \<le> X"
  shows "stage_ok 65536 E c X Y x' (x + c * (x' - y) div 65536)"
  using minus_mod_eq_mult_div [of "c * (x' - y)" 65536]
  by (intro stage_ok_step [OF assms, of _ "- (c * (x' - y) mod 65536)"])
    (simp_all add: algebra_simps)

lemma stage_16_exact:
  assumes "stage_gain 65536 E 65535 c X Y" "stage_ok 65536 E c X Y x y" "\<bar>x'\<bar> \<le> X" "X + Y \<le> 2147483647"
  shows "WEBRTC_SPL_SCALEDIFF32 c (i32 (x' - y)) x = x + c * (x' - y) div 65536"
proof -
  have c: "0 \<le> c" "c \<le> 65535" using assms(1) by (simp_all add: stage_gain_def)
  have d: "i32 (x' - y) = x' - y"
    using assms by (intro i32_id) (simp add: stage_ok_def in_i32_def abs_le_iff)
  have "\<bar>x + c * (x' - y) div 65536\<bar> \<le> Y" and "0 \<le> X"
    using stage_16_step [OF assms(1-3)] assms(3) by (simp_all add: stage_ok_def)
  then have "i32 (x + c * (x' - y) div 65536) = x + c * (x' - y) div 65536"
    using assms(4) by (intro i32_id) (simp add: in_i32_def abs_le_iff)
  then show ?thesis using c by (simp add: SCALEDIFF32_div d)
qed

definition section_ok :: "int list \<Rightarrow> int list \<Rightarrow> section_state \<Rightarrow> bool" where
  "section_ok c X = (\<lambda>(s0, s1, s2, s3). stage_ok 65536 1048576 (c ! 0) (X ! 0) (X ! 1) s0 s1 \<and>
     stage_ok 65536 1048576 (c ! 1) (X ! 1) (X ! 2) s1 s2 \<and> stage_ok 65536 1048576 (c ! 2) (X ! 2) (X ! 3) s2 s3)"

definition section_gain :: "int list \<Rightarrow> int list \<Rightarrow> bool" where
  "section_gain c X \<longleftrightarrow> stage_gain 65536 1048576 65535 (c ! 0) (X ! 0) (X ! 1) \<and> stage_gain 65536 1048576 65535 (c ! 1) (X ! 1) (X ! 2) \<and>
     stage_gain 65536 1048576 65535 (c ! 2) (X ! 2) (X ! 3) \<and> X ! 0 + X ! 1 \<le> 2147483647 \<and>
     X ! 1 + X ! 2 \<le> 2147483647 \<and> X ! 2 + X ! 3 \<le> 2147483647"

definition scaled_section :: "int list \<Rightarrow> section_state \<Rightarrow> int \<Rightarrow> section_state" where
  "scaled_section c = (\<lambda>(s0, s1, s2, s3) x.
     let y = WEBRTC_SPL_SCALEDIFF32 (c ! 0) (i32 (x - s1)) s0;
         z = WEBRTC_SPL_SCALEDIFF32 (c ! 1) (i32 (y - s2)) s1
     in (x, y, z, WEBRTC_SPL_SCALEDIFF32 (c ! 2) (i32 (z - s3)) s2))"

lemma allpass_scaled: "allpass_1 = scaled_section kResampleAllpass1"
  "allpass_2 = scaled_section kResampleAllpass2"
  by (simp_all add: allpass_1_def allpass_2_def scaled_section_def MUL_ACCUM_1_def MUL_ACCUM_2_def
      Let_def fun_eq_iff)

lemma section_exact:
  assumes g: "section_gain c X" and s: "section_ok c X s" and x: "\<bar>x\<bar> \<le> X ! 0"
  shows "scaled_section c s x = exact_section c s x \<and> section_ok c X (exact_section c s x)"
proof -
  obtain s0 s1 s2 s3 where S: "s = (s0, s1, s2, s3)" by (cases s)
  define y where "y = s0 + c ! 0 * (x - s1) div 65536"
  define z where "z = s1 + c ! 1 * (y - s2) div 65536"
  define w where "w = s2 + c ! 2 * (z - s3) div 65536"
  note gains = g [unfolded section_gain_def]
  have st: "stage_ok 65536 1048576 (c ! 0) (X ! 0) (X ! 1) s0 s1" "stage_ok 65536 1048576 (c ! 1) (X ! 1) (X ! 2) s1 s2"
    "stage_ok 65536 1048576 (c ! 2) (X ! 2) (X ! 3) s2 s3"
    using s by (simp_all add: S section_ok_def)
  have y: "stage_ok 65536 1048576 (c ! 0) (X ! 0) (X ! 1) x y" unfolding y_def
    using gains st(1) x by (intro stage_16_step) auto
  then have y': "\<bar>y\<bar> \<le> X ! 1" by (simp add: stage_ok_def)
  have z: "stage_ok 65536 1048576 (c ! 1) (X ! 1) (X ! 2) y z" unfolding z_def
    using gains st(2) y' by (intro stage_16_step) auto
  then have z': "\<bar>z\<bar> \<le> X ! 2" by (simp add: stage_ok_def)
  have w: "stage_ok 65536 1048576 (c ! 2) (X ! 2) (X ! 3) z w" unfolding w_def
    using gains st(3) z' by (intro stage_16_step) auto
  have e: "WEBRTC_SPL_SCALEDIFF32 (c ! 0) (i32 (x - s1)) s0 = y"
    "WEBRTC_SPL_SCALEDIFF32 (c ! 1) (i32 (y - s2)) s1 = z"
    "WEBRTC_SPL_SCALEDIFF32 (c ! 2) (i32 (z - s3)) s2 = w"
    unfolding y_def z_def w_def
    using gains st x y' z' by (auto intro!: stage_16_exact simp: z_def y_def)
  have "exact_section c s x = (x, y, z, w)"
    by (simp add: S exact_section_def Let_def y_def z_def w_def)
  moreover have "scaled_section c s x = (x, y, z, w)"
    using e by (simp add: S scaled_section_def Let_def)
  ultimately show ?thesis using y z w by (simp add: section_ok_def)
qed

text \<open>The bounds of the stages for 16-bit samples, which enter shifted by ten.\<close>

definition gains_1 :: "int list" where "gains_1 = [33554432, 36917265, 64453137, 161872435]"

definition gains_2 :: "int list" where "gains_2 = [33554432, 46046225, 98701214, 280196643]"

lemma section_gain_1: "section_gain kResampleAllpass1 gains_1"
  by (simp add: section_gain_def stage_gain_def kResampleAllpass1_def gains_1_def)

lemma section_gain_2: "section_gain kResampleAllpass2 gains_2"
  by (simp add: section_gain_def stage_gain_def kResampleAllpass2_def gains_2_def)

lemma section_exact_1:
  assumes "section_ok kResampleAllpass1 gains_1 s" "in_i16 x"
  shows "allpass_1 s (shl32 x 10) = exact_section kResampleAllpass1 s (1024 * x)"
    "section_ok kResampleAllpass1 gains_1 (exact_section kResampleAllpass1 s (1024 * x))"
  using section_exact [OF section_gain_1 assms(1), of "1024 * x"] assms(2)
  by (simp_all add: allpass_scaled shl32_def i32_id in_i16_def in_i32_def gains_1_def abs_le_iff mult.commute)

lemma section_exact_2:
  assumes "section_ok kResampleAllpass2 gains_2 s" "in_i16 x"
  shows "allpass_2 s (shl32 x 10) = exact_section kResampleAllpass2 s (1024 * x)"
    "section_ok kResampleAllpass2 gains_2 (exact_section kResampleAllpass2 s (1024 * x))"
  using section_exact [OF section_gain_2 assms(1), of "1024 * x"] assms(2)
  by (simp_all add: allpass_scaled shl32_def i32_id in_i16_def in_i32_def gains_2_def abs_le_iff mult.commute)

lemma section_ok_last:
  "section_ok kResampleAllpass1 gains_1 (a, b, c, d) \<Longrightarrow> \<bar>d\<bar> \<le> 161872435"
  "section_ok kResampleAllpass2 gains_2 (a, b, c, d) \<Longrightarrow> \<bar>d\<bar> \<le> 280196643"
  by (simp_all add: section_ok_def stage_ok_def gains_1_def gains_2_def)

definition both_ok :: "section_state \<times> section_state \<Rightarrow> bool" where
  "both_ok = (\<lambda>(lower, upper). section_ok kResampleAllpass2 gains_2 lower \<and>
                               section_ok kResampleAllpass1 gains_1 upper)"

lemma down_by_2_exact:
  assumes "both_ok s" "in_i16 (fst e) \<and> in_i16 (snd e)"
  shows "down_by_2 s e = exact_down s e \<and> both_ok (fst (exact_down s e))"
proof -
  obtain l u x y where S: "s = (l, u)" "e = (x, y)" by (cases s; cases e)
  have ok: "section_ok kResampleAllpass2 gains_2 l" "section_ok kResampleAllpass1 gains_1 u"
    "in_i16 x" "in_i16 y" using assms by (simp_all add: S both_ok_def)
  obtain a b c d where l: "exact_section kResampleAllpass2 l (1024 * x) = (a, b, c, d)"
    by (cases "exact_section kResampleAllpass2 l (1024 * x)")
  obtain a' b' c' d' where u: "exact_section kResampleAllpass1 u (1024 * y) = (a', b', c', d')"
    by (cases "exact_section kResampleAllpass1 u (1024 * y)")
  have "\<bar>d\<bar> \<le> 280196643" "\<bar>d'\<bar> \<le> 161872435"
    using section_exact_2(2) [OF ok(1,3)] section_exact_1(2) [OF ok(2,4)] section_ok_last
    by (auto simp: l u)
  then have "i32 (d + d' + 1024) = d + d' + 1024" by (intro i32_id) (simp add: in_i32_def abs_le_iff)
  then show ?thesis
    using section_exact_2 [OF ok(1,3)] section_exact_1 [OF ok(2,4)]
    by (simp add: S down_by_2_def exact_down_def Let_def l u both_ok_def shr_def SatW32ToW16_clamp)
qed

lemma up_by_2_exact:
  assumes "both_ok (snd s, fst s)" "in_i16 x"
  shows "up_by_2 s x = exact_up s x \<and> both_ok (snd (fst (exact_up s x)), fst (fst (exact_up s x)))"
proof -
  obtain l u where S: "s = (l, u)" by (cases s)
  have ok: "section_ok kResampleAllpass1 gains_1 l" "section_ok kResampleAllpass2 gains_2 u"
    using assms by (simp_all add: S both_ok_def)
  obtain a b c d where l: "exact_section kResampleAllpass1 l (1024 * x) = (a, b, c, d)"
    by (cases "exact_section kResampleAllpass1 l (1024 * x)")
  obtain a' b' c' d' where u: "exact_section kResampleAllpass2 u (1024 * x) = (a', b', c', d')"
    by (cases "exact_section kResampleAllpass2 u (1024 * x)")
  have "\<bar>d\<bar> \<le> 161872435" "\<bar>d'\<bar> \<le> 280196643"
    using section_exact_1(2) [OF ok(1) assms(2)] section_exact_2(2) [OF ok(2) assms(2)] section_ok_last
    by (auto simp: l u)
  then have "i32 (d + 512) = d + 512" "i32 (d' + 512) = d' + 512"
    by (auto intro!: i32_id simp: in_i32_def abs_le_iff)
  then show ?thesis
    using section_exact_1 [OF ok(1) assms(2)] section_exact_2 [OF ok(2) assms(2)]
    by (simp add: S up_by_2_def exact_up_def Let_def l u both_ok_def shr_def SatW32ToW16_clamp)
qed


text \<open>The two converters as filters over the chunks of a signal.\<close>

lemma get_put_section:
  "length st = 8 \<Longrightarrow> get_section (put_section (put_section st 0 l) 4 u) 0 = l"
  "length st = 8 \<Longrightarrow> get_section (put_section (put_section st 0 l) 4 u) 4 = u"
  by (cases l; cases u; simp add: get_section_def put_section_def mem_copy_def nth_append numeral_eq_Suc)+

lemma length_put_section [shape, simp]:
  "k + 4 \<le> length st \<Longrightarrow> length (put_section st k s) = length st"
  by (cases s) (simp add: put_section_def)

lemma put_put_section:
  "length st = 8 \<Longrightarrow> put_section (put_section (put_section (put_section st 0 l) 4 u) 0 l') 4 u' =
     put_section (put_section st 0 l') 4 u'"
  by (cases l; cases u; cases l'; cases u')
    (simp add: put_section_def mem_copy_def numeral_eq_Suc)

lemma put_get_section:
  assumes "length st = 8"
  shows "put_section (put_section st 0 (get_section st 0)) 4 (get_section st 4) = st"
proof -
  obtain a b c d e f g h where "st = [a, b, c, d, e, f, g, h]"
    using assms by (auto simp: numeral_eq_Suc length_Suc_conv)
  then show ?thesis by (simp add: get_section_def put_section_def mem_copy_def)
qed

lemma length_evens [shape, simp]: "length (evens xs) = length xs div 2" "length (odds xs) = length xs div 2"
  by (simp_all add: evens_def odds_def)

lemma evens_Nil [simp]: "evens [] = []" "odds [] = []"
  by (simp_all add: evens_def odds_def)

lemma evens_append: "even (length xs) \<Longrightarrow> evens (xs @ ys) = evens xs @ evens ys"
  by (rule nth_equalityI) (auto simp: evens_def nth_append diff_mult_distrib2 elim!: evenE)

lemma odds_append: "even (length xs) \<Longrightarrow> odds (xs @ ys) = odds xs @ odds ys"
  by (rule nth_equalityI) (auto simp: odds_def nth_append diff_mult_distrib2 Suc_diff_le elim!: evenE)

interpretation down2: chunked_filter WebRtcSpl_DownsampleBy2 down_by_2
  "\<lambda>st. (get_section st 0, get_section st 4)"
  "\<lambda>st s. put_section (put_section st 0 (fst s)) 4 (snd s)"
  "\<lambda>xs. zip (evens xs) (odds xs)" "\<lambda>out. out" "\<lambda>st. length st = 8" "\<lambda>xs. even (length xs)"
  by unfold_locales (simp_all add: WebRtcSpl_DownsampleBy2_def split_def Let_def get_put_section
      put_put_section put_get_section evens_append odds_append)

interpretation up2: chunked_filter WebRtcSpl_UpsampleBy2 up_by_2
  "\<lambda>st. (get_section st 0, get_section st 4)"
  "\<lambda>st s. put_section (put_section st 0 (fst s)) 4 (snd s)"
  "\<lambda>xs. xs" concat "\<lambda>st. length st = 8" "\<lambda>xs. True"
  by unfold_locales (simp_all add: WebRtcSpl_UpsampleBy2_def split_def Let_def get_put_section
      put_put_section put_get_section)

lemma both_ok_zero: "both_ok ((0, 0, 0, 0), (0, 0, 0, 0))"
  by (simp add: both_ok_def section_ok_def stage_ok_def gains_1_def gains_2_def
      kResampleAllpass1_def kResampleAllpass2_def)

lemma section_zero: "get_section (replicate 8 0) 0 = (0, 0, 0, 0)" "get_section (replicate 8 0) 4 = (0, 0, 0, 0)"
  by (simp_all add: get_section_def numeral_eq_Suc)

lemma in_i16_pairs:
  assumes "list_all in_i16 xs"
  shows "list_all (\<lambda>e. in_i16 (fst e) \<and> in_i16 (snd e)) (zip (evens xs) (odds xs))"
  using assms by (auto simp: list_all_length evens_def odds_def)



section \<open>Conversion in place\<close>

text \<open>
  The reference of a fractional converter: \<open>K\<close> windows of \<open>n\<close> samples, \<open>a\<close> samples apart, each giving
  \<open>out\<close> of the window, into an array of its own.
\<close>

definition convert :: "(int list \<Rightarrow> int list) \<Rightarrow> nat \<Rightarrow> nat \<Rightarrow> nat \<Rightarrow> int list \<Rightarrow> int list" where
  "convert out a n K x = concat (map (\<lambda>k. out (mem_slice x (a * k) n)) [0..<K])"

definition out_48To32 :: "int list \<Rightarrow> int list" where
  "out_48To32 w = [tap_sum (kCoefficients48To32 ! 0) w 0, tap_sum (kCoefficients48To32 ! 1) w 1]"

definition out_32To24 :: "int list \<Rightarrow> int list" where
  "out_32To24 w = [tap_sum (kCoefficients32To24 ! 0) w 0, tap_sum (kCoefficients32To24 ! 1) w 1,
                   tap_sum (kCoefficients32To24 ! 2) w 2]"

definition out_44To32 :: "int list \<Rightarrow> int list" where
  "out_44To32 w = [i32 (shl32 (w ! 3) 15 + 16384),
     tap_sum (kCoefficients44To32 ! 0) w 0, tap_sum (kCoefficients44To32 ! 1) w 2,
     tap_sum (kCoefficients44To32 ! 2) w 3, tap_sum (kCoefficients44To32 ! 3) w 5,
     tap_sum_down (kCoefficients44To32 ! 2) w 14, tap_sum_down (kCoefficients44To32 ! 1) w 15,
     tap_sum_down (kCoefficients44To32 ! 0) w 17]"

definition out_32To22 :: "int list \<Rightarrow> int list" where
  "out_32To22 w = [i32 (shl32 (w ! 3) 15 + 16384),
     tap_sum (kCoefficients32To22 ! 0) w 0, tap_sum (kCoefficients32To22 ! 1) w 2,
     tap_sum (kCoefficients32To22 ! 2) w 3, tap_sum (kCoefficients32To22 ! 3) w 5,
     tap_sum (kCoefficients32To22 ! 4) w 6, tap_sum_down (kCoefficients32To22 ! 4) w 16,
     tap_sum_down (kCoefficients32To22 ! 3) w 17, tap_sum_down (kCoefficients32To22 ! 2) w 19,
     tap_sum_down (kCoefficients32To22 ! 1) w 20, tap_sum_down (kCoefficients32To22 ! 0) w 22]"

lemma mem_copy_adjacent:
  "p + length xs + length ys \<le> length m \<Longrightarrow>
   mem_copy (mem_copy m p xs) (p + length xs) ys = mem_copy m p (xs @ ys)"
  by (simp add: mem_copy_def ac_simps)

lemma mem_copy_before:
  "p + length xs + length ys \<le> length m \<Longrightarrow>
   mem_copy (mem_copy m (p + length xs) ys) p xs = mem_copy m p (xs @ ys)"
  by (simp add: mem_copy_def min_def take_append add.assoc)

lemma mem_slice_within:
  "p + length x \<le> length m \<Longrightarrow> q + n \<le> length x \<Longrightarrow>
   mem_slice (mem_copy m p x) (p + q) n = mem_slice x q n"
  by (rule nth_equalityI) (auto simp: nth_mem_slice nth_mem_copy)

lemma mem_copy_Cons: "p + length xs < length m \<Longrightarrow> mem_copy m p (x # xs) = (mem_copy m (p + 1) xs)[p := x]"
  by (rule nth_equalityI) (auto simp: nth_mem_copy nth_list_update nth_Cons')

text \<open>The samples of one block written one by one, in the order of the two nine-tap converters.\<close>

lemma mem_copy_8:
  "p + 8 \<le> length m \<Longrightarrow> mem_copy m p [y0, y1, y2, y3, y4, y5, y6, y7] =
     m[p := y0, p + 4 := y4, p + 1 := y1, p + 7 := y7, p + 2 := y2, p + 6 := y6, p + 3 := y3, p + 5 := y5]"
  by (rule nth_equalityI) (auto simp: nth_mem_copy nth_list_update nth_Cons')

lemma mem_copy_11:
  "p + 11 \<le> length m \<Longrightarrow> mem_copy m p [y0, y1, y2, y3, y4, y5, y6, y7, y8, y9, y10] =
     m[p := y0, p + 1 := y1, p + 10 := y10, p + 2 := y2, p + 9 := y9, p + 3 := y3, p + 8 := y8,
       p + 4 := y4, p + 7 := y7, p + 5 := y5, p + 6 := y6]"
  by (rule nth_equalityI) (auto simp: nth_mem_copy nth_list_update nth_Cons')

text \<open>
  A block that reads a window at \<open>i\<close> and writes \<open>b\<close> samples at \<open>p\<close>, at least \<open>gap\<close> before the
  window, and reads nothing that it has already overwritten.
\<close>

locale block_resampler =
  fixes block :: "int list \<Rightarrow> nat \<Rightarrow> nat \<Rightarrow> int list" and out :: "int list \<Rightarrow> int list"
    and a b n gap :: nat
  assumes block_out: "p + gap \<le> i \<Longrightarrow> i + n \<le> length m \<Longrightarrow> block m i p = mem_copy m p (out (mem_slice m i n))"
    and length_out: "length (out w) = b" and slower: "b \<le> a" and window: "a \<le> n" and room: "b \<le> gap + n"
begin

lemma length_convert: "length (convert out a n K x) = b * K"
  by (induction K) (simp_all add: convert_def length_out)

lemma blocks_convert:
  assumes "p + gap \<le> i" and "i + a * K + (n - a) \<le> length m"
  shows "resample_blocks block a b m i p K =
         mem_copy m p (concat (map (\<lambda>k. out (mem_slice m (i + a * k) n)) [0..<K]))"
  using assms
proof (induction K arbitrary: m i p)
  case (Suc K)
  define m' where "m' = mem_copy m p (out (mem_slice m i n))"
  have fits: "i + n \<le> length m" "p + b \<le> length m"
    using Suc.prems window slower room by (auto simp: mult_Suc_right)
  have step: "block m i p = m'" using block_out [of p i m] Suc.prems fits by (simp add: m'_def)
  have len: "length m' = length m" using fits by (simp add: m'_def length_out)
  have old: "mem_slice m' (i + a + a * k) n = mem_slice m (i + a * Suc k) n" if "k < K" for k
  proof -
    have "a * Suc k \<le> a * K" using that by (intro mult_le_mono2) simp
    then have "i + a + a * k + n \<le> length m" using Suc.prems window by (simp add: mult_Suc_right)
    then show ?thesis unfolding m'_def using Suc.prems slower fits
      by (subst mem_slice_mem_copy_disjoint) (simp_all add: length_out algebra_simps)
  qed
  have "resample_blocks block a b m i p (Suc K) = resample_blocks block a b m' (i + a) (p + b) K"
    by (simp add: step)
  also have "\<dots> = mem_copy m' (p + b) (concat (map (\<lambda>k. out (mem_slice m' (i + a + a * k) n)) [0..<K]))"
    using Suc.prems slower len by (intro Suc.IH) (simp_all add: mult_Suc_right)
  also have "\<dots> = mem_copy m' (p + b) (concat (map (\<lambda>k. out (mem_slice m (i + a * Suc k) n)) [0..<K]))"
    using old by (intro arg_cong [where f = "\<lambda>xs. mem_copy m' (p + b) (concat xs)"] map_cong) simp_all
  also have "\<dots> = mem_copy m p (out (mem_slice m i n) @
      concat (map (\<lambda>k. out (mem_slice m (i + a * Suc k) n)) [0..<K]))"
  proof -
    have "length (concat (map (\<lambda>k. out (mem_slice m (i + a * Suc k) n)) [0..<K])) = b * K"
      by (induction K) (simp_all add: length_out)
    moreover have "b * Suc K \<le> a * Suc K" using slower by (rule mult_le_mono1)
    ultimately show ?thesis
      using mem_copy_adjacent [of p "out (mem_slice m i n)"
          "concat (map (\<lambda>k. out (mem_slice m (i + a * Suc k) n)) [0..<K])" m] Suc.prems
      by (simp add: m'_def length_out mult_Suc_right)
  qed
  also have "\<dots> = mem_copy m p (concat (map (\<lambda>k. out (mem_slice m (i + a * k) n)) [0..<Suc K]))"
    by (simp add: upt_conv_Cons map_Suc_upt [symmetric] comp_def del: upt_Suc)
  finally show ?case .
qed simp

lemma in_place:
  assumes "p + gap \<le> i" and "i + length x \<le> length m" and "a * K + (n - a) \<le> length x"
  shows "resample_blocks block a b (mem_copy m i x) i p K =
         mem_copy (mem_copy m i x) p (convert out a n K x)"
proof -
  have "mem_slice (mem_copy m i x) (i + a * k) n = mem_slice x (a * k) n" if "k < K" for k
  proof -
    have "a * Suc k \<le> a * K" using that by (intro mult_le_mono2) simp
    then show ?thesis using assms window by (intro mem_slice_within) (simp_all add: mult_Suc_right)
  qed
  then have "map (\<lambda>k. out (mem_slice (mem_copy m i x) (i + a * k) n)) [0..<K] =
      map (\<lambda>k. out (mem_slice x (a * k) n)) [0..<K]" by (intro map_cong) simp_all
  then show ?thesis using assms blocks_convert [of p i K "mem_copy m i x"]
    by (simp add: convert_def del: map_eq_conv)
qed

lemma in_place_result:
  assumes "p + gap \<le> i" and "i + length x \<le> length m" and "a * K + (n - a) \<le> length x"
  shows "mem_slice (resample_blocks block a b (mem_copy m i x) i p K) p (b * K) = convert out a n K x"
proof -
  have "b * K \<le> a * K" using slower by (rule mult_le_mono1)
  then have "p + b * K \<le> length m" using assms by linarith
  then show ?thesis unfolding in_place [OF assms]
    using mem_slice_mem_copy [of p "convert out a n K x" "mem_copy m i x"] assms
    by (simp add: length_convert)
qed

end


text \<open>Reads that a write does not touch, and reads of a window.\<close>

lemma tap_sum_update:
  "q < p \<Longrightarrow> tap_sum cs (m[q := v]) p = tap_sum cs m p"
  by (simp add: tap_sum_def cong: map_cong)

lemma tap_sum_down_update:
  assumes "q + length cs \<le> p"
  shows "tap_sum_down cs (m[q := v]) p = tap_sum_down cs m p"
proof -
  have "map (\<lambda>j. cs ! j * m[q := v] ! (p - j)) [0..<length cs] = map (\<lambda>j. cs ! j * m ! (p - j)) [0..<length cs]"
    using assms by (intro map_cong) auto
  then show ?thesis by (simp only: tap_sum_down_def)
qed

lemma tap_sum_slice:
  assumes "q + length cs \<le> n" "i + n \<le> length m"
  shows "tap_sum cs (mem_slice m i n) q = tap_sum cs m (i + q)"
proof -
  have "map (\<lambda>j. cs ! j * mem_slice m i n ! (q + j)) [0..<length cs] = map (\<lambda>j. cs ! j * m ! (i + q + j)) [0..<length cs]"
    using assms by (intro map_cong) (auto simp: nth_mem_slice add.assoc)
  then show ?thesis by (simp only: tap_sum_def)
qed

lemma tap_sum_down_slice:
  assumes "length cs \<le> q + 1" "q < n" "i + n \<le> length m"
  shows "tap_sum_down cs (mem_slice m i n) q = tap_sum_down cs m (i + q)"
proof -
  have "map (\<lambda>j. cs ! j * mem_slice m i n ! (q - j)) [0..<length cs] = map (\<lambda>j. cs ! j * m ! (i + q - j)) [0..<length cs]"
    using assms by (intro map_cong) (auto simp: nth_mem_slice)
  then show ?thesis by (simp only: tap_sum_down_def)
qed

lemmas tap_sums = tap_sum_update tap_sum_down_update tap_sum_slice tap_sum_down_slice

lemma length_coefficients [simp]:
  "length (kCoefficients48To32 ! 0) = 8" "length (kCoefficients48To32 ! Suc 0) = 8"
  "length (kCoefficients32To24 ! 0) = 8" "length (kCoefficients32To24 ! Suc 0) = 8"
  "length (kCoefficients32To24 ! 2) = 8"
  "length (kCoefficients44To32 ! 0) = 9" "length (kCoefficients44To32 ! Suc 0) = 9"
  "length (kCoefficients44To32 ! 2) = 9" "length (kCoefficients44To32 ! 3) = 9"
  "length (kCoefficients32To22 ! 0) = 9" "length (kCoefficients32To22 ! Suc 0) = 9"
  "length (kCoefficients32To22 ! 2) = 9" "length (kCoefficients32To22 ! 3) = 9"
  "length (kCoefficients32To22 ! 4) = 9"
  by (simp_all add: kCoefficients48To32_def kCoefficients32To24_def kCoefficients44To32_def
      kCoefficients32To22_def)

interpretation c48: block_resampler block_48To32 out_48To32 3 2 9 1
proof unfold_locales
  fix m i p assume "p + 1 \<le> i" "i + 9 \<le> length (m :: int list)"
  then show "block_48To32 m i p = mem_copy m p (out_48To32 (mem_slice m i 9))"
    by (simp add: block_48To32_def out_48To32_def mem_copy_Cons tap_sums list_update_swap)
qed (simp_all add: out_48To32_def)

interpretation c32: block_resampler block_32To24 out_32To24 4 3 10 1
proof unfold_locales
  fix m i p assume "p + 1 \<le> i" "i + 10 \<le> length (m :: int list)"
  then show "block_32To24 m i p = mem_copy m p (out_32To24 (mem_slice m i 10))"
    by (simp add: block_32To24_def out_32To24_def mem_copy_Cons tap_sums list_update_swap)
qed (simp_all add: out_32To24_def)

interpretation c44: block_resampler block_44To32 out_44To32 11 8 18 8
proof unfold_locales
  fix m i p assume "p + 8 \<le> i" "i + 18 \<le> length (m :: int list)"
  then show "block_44To32 m i p = mem_copy m p (out_44To32 (mem_slice m i 18))"
    by (simp add: block_44To32_def out_44To32_def WebRtcSpl_ResampDotProduct_def Let_def
        mem_copy_8 tap_sums nth_mem_slice)
qed (simp_all add: out_44To32_def)

interpretation c22: block_resampler block_32To22 out_32To22 16 11 23 10
proof unfold_locales
  fix m i p assume "p + 10 \<le> i" "i + 23 \<le> length (m :: int list)"
  then show "block_32To22 m i p = mem_copy m p (out_32To22 (mem_slice m i 23))"
    by (simp add: block_32To22_def out_32To22_def WebRtcSpl_DotProdIntToInt_def Let_def
        mem_copy_11 tap_sums nth_mem_slice)
qed (simp_all add: out_32To22_def)

section \<open>The 48 kHz and 22 kHz chains\<close>

lemma length_interleave [shape, simp]: "length (interleave xs ys) = 2 * min (length xs) (length ys)"
  by (induction xs ys rule: list_induct2') (simp_all add: interleave_def)

lemma length_allpass_loop [shape, simp]:
  "length (snd (allpass_loop n st k xs)) = length xs"
  "k + 4 \<le> length st \<Longrightarrow> length (fst (allpass_loop n st k xs)) = length st"
  by (simp_all add: allpass_loop_def split_def Let_def)

lemma length_DownBy2ShortToInt [shape, simp]:
  "length (snd (WebRtcSpl_DownBy2ShortToInt st xs)) = length xs div 2"
  "length st = 8 \<Longrightarrow> length (fst (WebRtcSpl_DownBy2ShortToInt st xs)) = 8"
  by (simp_all add: WebRtcSpl_DownBy2ShortToInt_def split_def Let_def)

lemma length_low_pass_loops [shape, simp]:
  "length (snd (low_pass_loops st ev od)) = 2 * min (length ev) (length od)"
  "length st = 16 \<Longrightarrow> length (fst (low_pass_loops st ev od)) = 16"
  by (simp_all add: low_pass_loops_def split_def Let_def)

lemma length_LPBy2 [shape, simp]:
  "length (snd (WebRtcSpl_LPBy2ShortToInt st xs)) = 2 * (length xs div 2)"
  "length st = 16 \<Longrightarrow> length (fst (WebRtcSpl_LPBy2ShortToInt st xs)) = 16"
  "length (snd (WebRtcSpl_LPBy2IntToInt st xs)) = 2 * (length xs div 2)"
  "length st = 16 \<Longrightarrow> length (fst (WebRtcSpl_LPBy2IntToInt st xs)) = 16"
  by (simp_all add: WebRtcSpl_LPBy2ShortToInt_def WebRtcSpl_LPBy2IntToInt_def)

lemma length_UpBy2 [shape, simp]:
  "length (snd (WebRtcSpl_UpBy2ShortToInt st xs)) = 2 * length xs"
  "length st = 8 \<Longrightarrow> length (fst (WebRtcSpl_UpBy2ShortToInt st xs)) = 8"
  "length (snd (WebRtcSpl_UpBy2IntToInt st xs)) = 2 * length xs"
  "length st = 8 \<Longrightarrow> length (fst (WebRtcSpl_UpBy2IntToInt st xs)) = 8"
  "length (snd (WebRtcSpl_UpBy2IntToShort st xs)) = 2 * length xs"
  "length st = 8 \<Longrightarrow> length (fst (WebRtcSpl_UpBy2IntToShort st xs)) = 8"
  by (simp_all add: WebRtcSpl_UpBy2ShortToInt_def WebRtcSpl_UpBy2IntToInt_def
      WebRtcSpl_UpBy2IntToShort_def split_def Let_def)

lemma length_DownBy2IntToShort [shape, simp]:
  "length (snd (snd (WebRtcSpl_DownBy2IntToShort st xs))) = 2 * ((length xs div 2 + 1) div 2)"
  "length st = 8 \<Longrightarrow> length (fst (WebRtcSpl_DownBy2IntToShort st xs)) = 8"
  "even (length xs) \<Longrightarrow> length (fst (snd (WebRtcSpl_DownBy2IntToShort st xs))) = length xs"
proof -
  have "length (concat (map (\<lambda>h. [f h, g h]) hs)) = 2 * length hs" for f g :: "nat \<Rightarrow> int" and hs
    by (induction hs) simp_all
  then show "length (snd (snd (WebRtcSpl_DownBy2IntToShort st xs))) = 2 * ((length xs div 2 + 1) div 2)"
    by (simp add: WebRtcSpl_DownBy2IntToShort_def split_def Let_def)
qed (simp_all add: WebRtcSpl_DownBy2IntToShort_def split_def Let_def)

lemma DownBy2IntToShort_lengths:
  "WebRtcSpl_DownBy2IntToShort st xs = (s, low, out) \<Longrightarrow> length st = 8 \<Longrightarrow> even (length xs) \<Longrightarrow>
   length s = 8 \<and> length low = length xs"
  using length_DownBy2IntToShort(2) [of st xs] length_DownBy2IntToShort(3) [of xs st]
  by (simp del: length_DownBy2IntToShort)

lemma in_i16_saturate [simp]: "in_i16 (saturate x)"
  by (simp add: saturate_def Let_def)

lemma saturate_clamp: "saturate x = clamp (- 32768) 32767 x"
  by (auto simp: saturate_def clamp_def i16_id in_i16_def Let_def)

lemma in_i16_DownBy2IntToShort: "list_all in_i16 (snd (snd (WebRtcSpl_DownBy2IntToShort st xs)))"
  by (auto simp: WebRtcSpl_DownBy2IntToShort_def split_def Let_def list_all_iff)

lemma in_i16_UpBy2IntToShort: "list_all in_i16 (snd (WebRtcSpl_UpBy2IntToShort st xs))"
  by (auto simp: WebRtcSpl_UpBy2IntToShort_def interleave_def split_def Let_def list_all_iff in_set_zip)

text \<open>
  A fractional stage of a chain: the memory first gets the stage's input and, in front of it, the eight
  samples of its state; the next state is the tail of the input; and the output is the converted input.
\<close>

context block_resampler
begin

lemma stage_memory:
  assumes "p + gap \<le> i" "length S = 8" "i + 8 + length ys \<le> length m" "8 \<le> length ys"
    "a * K + (n - a) \<le> 8 + length ys"
  shows "mem_slice (mem_copy (mem_copy m (i + 8) ys) i S) (i + length ys) 8 = drop (length ys - 8) ys"
    and "mem_slice (resample_blocks block a b (mem_copy (mem_copy m (i + 8) ys) i S) i p K) p (b * K) =
         convert out a n K (S @ ys)"
    and "length (resample_blocks block a b (mem_copy (mem_copy m (i + 8) ys) i S) i p K) = length m"
proof -
  have j: "mem_copy (mem_copy m (i + 8) ys) i S = mem_copy m i (S @ ys)"
    using mem_copy_before [of i S ys m] assms by simp
  show "mem_slice (mem_copy (mem_copy m (i + 8) ys) i S) (i + length ys) 8 = drop (length ys - 8) ys"
    using mem_slice_within [of i "S @ ys" m "length ys" 8] assms by (simp add: j mem_slice_def)
  show "mem_slice (resample_blocks block a b (mem_copy (mem_copy m (i + 8) ys) i S) i p K) p (b * K) =
      convert out a n K (S @ ys)"
    using in_place_result [of p i "S @ ys" m K] assms by (simp add: j)
  have "b * K \<le> a * K" using slower by (rule mult_le_mono1)
  then have "p + b * K \<le> length m" using assms by linarith
  then show "length (resample_blocks block a b (mem_copy (mem_copy m (i + 8) ys) i S) i p K) = length m"
    using in_place [of p i "S @ ys" m K] assms by (simp add: j length_convert)
qed

end

lemma mem_slice_copy_eq: "n = length ys \<Longrightarrow> p + n \<le> length m \<Longrightarrow> mem_slice (mem_copy m p ys) p n = ys"
  by simp

lemma mem_slice_all: "length xs = n \<Longrightarrow> mem_slice xs 0 n = xs"
  by (simp add: mem_slice_def)

text \<open>The state structures hold arrays of their declared sizes.\<close>

definition wf_48_16 :: "WebRtcSpl_State48khzTo16khz \<Rightarrow> bool" where
  "wf_48_16 s \<longleftrightarrow> length (S_48_48 s) = 16 \<and> length (S_48_32 s) = 8 \<and> length (S_32_16 s) = 8"

definition wf_16_48 :: "WebRtcSpl_State16khzTo48khz \<Rightarrow> bool" where
  "wf_16_48 s \<longleftrightarrow> length (S_16_32 s) = 8 \<and> length (S_32_24 s) = 8 \<and> length (S_24_48 s) = 8"

definition wf_48_8 :: "WebRtcSpl_State48khzTo8khz \<Rightarrow> bool" where
  "wf_48_8 s \<longleftrightarrow> length (S_48_24 s) = 8 \<and> length (S_24_24 s) = 16 \<and> length (S_24_16 s) = 8 \<and>
     length (S_16_8 s) = 8"

definition wf_8_48 :: "WebRtcSpl_State8khzTo48khz \<Rightarrow> bool" where
  "wf_8_48 s \<longleftrightarrow> length (S_8_16 s) = 8 \<and> length (S_16_12 s) = 8 \<and> length (S_12_24 s) = 8 \<and>
     length (S_24_48_of_8 s) = 8"

text \<open>The chains as compositions of converters with arrays of their own.\<close>

definition chain_48_16 :: "samples \<Rightarrow> WebRtcSpl_State48khzTo16khz \<Rightarrow> WebRtcSpl_State48khzTo16khz \<times> samples" where
  "chain_48_16 xs state =
     (let (slp, lp) = WebRtcSpl_LPBy2ShortToInt (S_48_48 state) xs;
          (s16, _, out) = WebRtcSpl_DownBy2IntToShort (S_32_16 state)
                            (convert out_48To32 3 9 160 (S_48_32 state @ lp))
      in (state\<lparr>S_48_48 := slp, S_48_32 := drop 472 lp, S_32_16 := s16\<rparr>, out))"

definition chain_16_48 :: "samples \<Rightarrow> WebRtcSpl_State16khzTo48khz \<Rightarrow> WebRtcSpl_State16khzTo48khz \<times> samples" where
  "chain_16_48 xs state =
     (let (s32, up) = WebRtcSpl_UpBy2ShortToInt (S_16_32 state) xs;
          (s48, out) = WebRtcSpl_UpBy2IntToShort (S_24_48 state)
                         (convert out_32To24 4 10 80 (S_32_24 state @ up))
      in (state\<lparr>S_16_32 := s32, S_32_24 := drop 312 up, S_24_48 := s48\<rparr>, out))"

definition chain_48_8 :: "samples \<Rightarrow> WebRtcSpl_State48khzTo8khz \<Rightarrow> WebRtcSpl_State48khzTo8khz \<times> samples" where
  "chain_48_8 xs state =
     (let (s24, down) = WebRtcSpl_DownBy2ShortToInt (S_48_24 state) xs;
          (slp, lp) = WebRtcSpl_LPBy2IntToInt (S_24_24 state) down;
          (s8, _, out) = WebRtcSpl_DownBy2IntToShort (S_16_8 state)
                           (convert out_48To32 3 9 80 (S_24_16 state @ lp))
      in (state\<lparr>S_48_24 := s24, S_24_24 := slp, S_24_16 := drop 232 lp, S_16_8 := s8\<rparr>, out))"

definition chain_8_48 :: "samples \<Rightarrow> WebRtcSpl_State8khzTo48khz \<Rightarrow> WebRtcSpl_State8khzTo48khz \<times> samples" where
  "chain_8_48 xs state =
     (let (s16, up) = WebRtcSpl_UpBy2ShortToInt (S_8_16 state) xs;
          (s24, mid) = WebRtcSpl_UpBy2IntToInt (S_12_24 state)
                         (convert out_32To24 4 10 40 (S_16_12 state @ up));
          (s48, out) = WebRtcSpl_UpBy2IntToShort (S_24_48_of_8 state) mid
      in (state\<lparr>S_8_16 := s16, S_16_12 := drop 152 up, S_12_24 := s24, S_24_48_of_8 := s48\<rparr>, out))"

definition without_memory :: "'s \<times> int list \<times> samples \<Rightarrow> 's \<times> samples" where
  "without_memory = (\<lambda>(s, _, out). (s, out))"

lemma Resample48khzTo16khz_chain:
  assumes "wf_48_16 state" "length xs = 480" "496 \<le> length t"
  shows "without_memory (WebRtcSpl_Resample48khzTo16khz xs state t) = chain_48_16 xs state"
proof -
  obtain slp lp where l: "WebRtcSpl_LPBy2ShortToInt (S_48_48 state) xs = (slp, lp)"
    by (cases "WebRtcSpl_LPBy2ShortToInt (S_48_48 state) xs")
  have len: "length lp = 480" "length (S_48_32 state) = 8"
    using assms length_LPBy2(1) [of "S_48_48 state" xs] by (simp_all add: l wf_48_16_def)
  show ?thesis
    using c48.stage_memory [of 0 8 "S_48_32 state" lp t 160] len assms
    by (simp add: WebRtcSpl_Resample48khzTo16khz_def WebRtcSpl_Resample48khzTo32khz_def
        chain_48_16_def without_memory_def mem_slice_all l Let_def split_def)
qed

lemma Resample16khzTo48khz_chain:
  assumes "wf_16_48 state" "length xs = 160" "336 \<le> length t"
  shows "without_memory (WebRtcSpl_Resample16khzTo48khz xs state t) = chain_16_48 xs state"
proof -
  obtain s32 up where u: "WebRtcSpl_UpBy2ShortToInt (S_16_32 state) xs = (s32, up)"
    by (cases "WebRtcSpl_UpBy2ShortToInt (S_16_32 state) xs")
  have len: "length up = 320" "length (S_32_24 state) = 8"
    using assms length_UpBy2(1) [of "S_16_32 state" xs] by (simp_all add: u wf_16_48_def)
  show ?thesis
    using c32.stage_memory [of 0 8 "S_32_24 state" up t 80] len assms
    by (simp add: WebRtcSpl_Resample16khzTo48khz_def WebRtcSpl_Resample32khzTo24khz_def
        chain_16_48_def without_memory_def mem_slice_all u Let_def split_def)
qed

lemma Resample48khzTo8khz_chain:
  assumes "wf_48_8 state" "length xs = 480" "496 \<le> length t"
  shows "without_memory (WebRtcSpl_Resample48khzTo8khz xs state t) = chain_48_8 xs state"
proof -
  obtain s24 down where d: "WebRtcSpl_DownBy2ShortToInt (S_48_24 state) xs = (s24, down)"
    by (cases "WebRtcSpl_DownBy2ShortToInt (S_48_24 state) xs")
  obtain slp lp where l: "WebRtcSpl_LPBy2IntToInt (S_24_24 state) down = (slp, lp)"
    by (cases "WebRtcSpl_LPBy2IntToInt (S_24_24 state) down")
  have len: "length down = 240" "length lp = 240" "length (S_24_16 state) = 8"
    using assms length_DownBy2ShortToInt(1) [of "S_48_24 state" xs] length_LPBy2(3) [of "S_24_24 state" down]
    by (simp_all add: d l wf_48_8_def)
  show ?thesis
    using c48.stage_memory [of 0 8 "S_24_16 state" lp "mem_copy t 256 down" 80] len assms
    by (simp add: WebRtcSpl_Resample48khzTo8khz_def WebRtcSpl_Resample48khzTo32khz_def
        chain_48_8_def without_memory_def mem_slice_all mem_slice_copy_eq d l Let_def split_def)
qed

lemma Resample48khzTo8khz_shape:
  assumes "wf_48_8 state" "480 \<le> length xs" "496 \<le> length t"
  shows "wf_48_8 (fst (WebRtcSpl_Resample48khzTo8khz xs state t))"
    and "length (fst (snd (WebRtcSpl_Resample48khzTo8khz xs state t))) = length t"
    and "length (snd (snd (WebRtcSpl_Resample48khzTo8khz xs state t))) = 80"
proof -
  define ys where "ys = mem_slice xs 0 480"
  have ys: "length ys = 480" using assms by (simp add: ys_def)
  obtain s24 down where d: "WebRtcSpl_DownBy2ShortToInt (S_48_24 state) ys = (s24, down)"
    by (cases "WebRtcSpl_DownBy2ShortToInt (S_48_24 state) ys")
  obtain slp lp where l: "WebRtcSpl_LPBy2IntToInt (S_24_24 state) down = (slp, lp)"
    by (cases "WebRtcSpl_LPBy2IntToInt (S_24_24 state) down")
  obtain s8 low out where e: "WebRtcSpl_DownBy2IntToShort (S_16_8 state)
      (convert out_48To32 3 9 80 (S_24_16 state @ lp)) = (s8, low, out)"
    by (cases "WebRtcSpl_DownBy2IntToShort (S_16_8 state) (convert out_48To32 3 9 80 (S_24_16 state @ lp))")
  have st: "length (S_48_24 state) = 8" "length (S_24_24 state) = 16" "length (S_24_16 state) = 8"
    "length (S_16_8 state) = 8" using assms by (simp_all add: wf_48_8_def)
  have len: "length down = 240" "length lp = 240" "length s24 = 8" "length slp = 16"
    using st ys length_DownBy2ShortToInt [of "S_48_24 state" ys] length_LPBy2(3,4) [of "S_24_24 state" down]
    by (simp_all add: d l)
  have out: "length s8 = 8" "length low = 160" "length out = 80"
    using st DownBy2IntToShort_lengths [OF e] c48.length_convert [of 80 "S_24_16 state @ lp"]
      length_DownBy2IntToShort(1) [of "S_16_8 state" "convert out_48To32 3 9 80 (S_24_16 state @ lp)"]
    by (simp_all add: e)
  note r = c48.stage_memory [of 0 8 "S_24_16 state" lp "mem_copy t 256 down" 80]
  have x: "WebRtcSpl_Resample48khzTo8khz xs state t =
      (state\<lparr>S_48_24 := s24, S_24_24 := slp, S_24_16 := drop 232 lp, S_16_8 := s8\<rparr>,
       mem_copy (WebRtcSpl_Resample48khzTo32khz (mem_copy (mem_copy (mem_copy t 256 down) 16 lp) 8 (S_24_16 state)) 8 0 80)
         0 low, out)"
    using r len st assms(3) by (simp add: WebRtcSpl_Resample48khzTo8khz_def WebRtcSpl_Resample48khzTo32khz_def
        mem_slice_copy_eq d l e Let_def flip: ys_def)
  have m: "length (WebRtcSpl_Resample48khzTo32khz (mem_copy (mem_copy (mem_copy t 256 down) 16 lp) 8 (S_24_16 state)) 8 0 80) = length t"
    using r(3) len st assms(3) by (simp add: WebRtcSpl_Resample48khzTo32khz_def)
  show "wf_48_8 (fst (WebRtcSpl_Resample48khzTo8khz xs state t))" using len out by (simp add: x wf_48_8_def)
  show "length (fst (snd (WebRtcSpl_Resample48khzTo8khz xs state t))) = length t"
    using m out assms(3) by (simp add: x)
  show "length (snd (snd (WebRtcSpl_Resample48khzTo8khz xs state t))) = 80" using out by (simp add: x)
qed

lemma Resample8khzTo48khz_chain:
  assumes "wf_8_48 state" "length xs = 80" "424 \<le> length t"
  shows "without_memory (WebRtcSpl_Resample8khzTo48khz xs state t) = chain_8_48 xs state"
proof -
  obtain s16 up where u: "WebRtcSpl_UpBy2ShortToInt (S_8_16 state) xs = (s16, up)"
    by (cases "WebRtcSpl_UpBy2ShortToInt (S_8_16 state) xs")
  obtain s24 mid where m: "WebRtcSpl_UpBy2IntToInt (S_12_24 state)
      (convert out_32To24 4 10 40 (S_16_12 state @ up)) = (s24, mid)"
    by (cases "WebRtcSpl_UpBy2IntToInt (S_12_24 state) (convert out_32To24 4 10 40 (S_16_12 state @ up))")
  have len: "length up = 160" "length (S_16_12 state) = 8" "length mid = 240"
    using assms length_UpBy2(1) [of "S_8_16 state" xs] c32.length_convert [of 40 "S_16_12 state @ up"]
      length_UpBy2(3) [of "S_12_24 state" "convert out_32To24 4 10 40 (S_16_12 state @ up)"]
    by (simp_all add: u m wf_8_48_def)
  show ?thesis
    using c32.stage_memory [of 240 256 "S_16_12 state" up t 40] len assms
    by (simp add: WebRtcSpl_Resample8khzTo48khz_def WebRtcSpl_Resample32khzTo24khz_def
        chain_8_48_def without_memory_def mem_slice_all mem_slice_copy_eq u m Let_def split_def)
qed


definition wf_22_16 :: "WebRtcSpl_State22khzTo16khz \<Rightarrow> bool" where
  "wf_22_16 s \<longleftrightarrow> length (S_22_44 s) = 8 \<and> length (S_44_32 s) = 8 \<and> length (S_32_16_of_22 s) = 8"

definition wf_16_22 :: "WebRtcSpl_State16khzTo22khz \<Rightarrow> bool" where
  "wf_16_22 s \<longleftrightarrow> length (S_16_32_of_22 s) = 8 \<and> length (S_32_22 s) = 8"

definition wf_22_8 :: "WebRtcSpl_State22khzTo8khz \<Rightarrow> bool" where
  "wf_22_8 s \<longleftrightarrow> length (S_22_22 s) = 16 \<and> length (S_22_16 s) = 8 \<and> length (S_16_8_of_22 s) = 8"

definition wf_8_22 :: "WebRtcSpl_State8khzTo22khz \<Rightarrow> bool" where
  "wf_8_22 s \<longleftrightarrow> length (S_8_16_of_22 s) = 8 \<and> length (S_16_11 s) = 8 \<and> length (S_11_22 s) = 8"

definition chain_22_16 :: "WebRtcSpl_State22khzTo16khz \<Rightarrow> samples \<Rightarrow> WebRtcSpl_State22khzTo16khz \<times> samples" where
  "chain_22_16 state xs =
     (let (s44, up) = WebRtcSpl_UpBy2ShortToInt (S_22_44 state) xs;
          (s16, _, out) = WebRtcSpl_DownBy2IntToShort (S_32_16_of_22 state)
                            (convert out_44To32 11 18 8 (S_44_32 state @ up))
      in (state\<lparr>S_22_44 := s44, S_44_32 := drop 80 up, S_32_16_of_22 := s16\<rparr>, out))"

definition chain_16_22 :: "WebRtcSpl_State16khzTo22khz \<Rightarrow> samples \<Rightarrow> WebRtcSpl_State16khzTo22khz \<times> samples" where
  "chain_16_22 state xs =
     (let (s32, up) = WebRtcSpl_UpBy2ShortToInt (S_16_32_of_22 state) xs
      in (state\<lparr>S_16_32_of_22 := s32, S_32_22 := drop 72 up\<rparr>,
          convert (\<lambda>w. short_block_32To22 w 0) 16 23 5 (S_32_22 state @ up)))"

definition chain_22_8 :: "WebRtcSpl_State22khzTo8khz \<Rightarrow> samples \<Rightarrow> WebRtcSpl_State22khzTo8khz \<times> samples" where
  "chain_22_8 state xs =
     (let (s22, lp) = WebRtcSpl_LPBy2ShortToInt (S_22_22 state) xs;
          (s8, _, out) = WebRtcSpl_DownBy2IntToShort (S_16_8_of_22 state)
                           (convert out_44To32 11 18 10 (S_22_16 state @ lp))
      in (state\<lparr>S_22_22 := s22, S_22_16 := drop 102 lp, S_16_8_of_22 := s8\<rparr>, out))"

definition chain_8_22 :: "WebRtcSpl_State8khzTo22khz \<Rightarrow> samples \<Rightarrow> WebRtcSpl_State8khzTo22khz \<times> samples" where
  "chain_8_22 state xs =
     (let (s16, up) = WebRtcSpl_UpBy2ShortToInt (S_8_16_of_22 state) xs;
          (s22, out) = WebRtcSpl_UpBy2IntToShort (S_11_22 state)
                         (convert out_32To22 16 23 5 (S_16_11 state @ up))
      in (state\<lparr>S_8_16_of_22 := s16, S_16_11 := drop 72 up, S_11_22 := s22\<rparr>, out))"

lemmas sub_block_counts = SUB_BLOCKS_22_16_def SUB_BLOCKS_16_22_def SUB_BLOCKS_22_8_def SUB_BLOCKS_8_22_def

text \<open>A sub block with the memory, and the chain without it: what one step keeps.\<close>

definition same_block :: "('s \<Rightarrow> bool) \<Rightarrow> nat \<Rightarrow> 's \<times> int list \<Rightarrow> 's \<Rightarrow> bool" where
  "same_block P n sm s \<longleftrightarrow> fst sm = s \<and> P s \<and> n \<le> length (snd sm)"

lemma sub_block_22_16_chain:
  assumes "same_block wf_22_16 104 (s, t) s'" "length xs = 44"
  shows "same_block wf_22_16 104 (fst (sub_block_22_16 (s, t) xs)) (fst (chain_22_16 s' xs)) \<and>
         snd (sub_block_22_16 (s, t) xs) = snd (chain_22_16 s' xs)"
proof -
  obtain s44 up where u: "WebRtcSpl_UpBy2ShortToInt (S_22_44 s) xs = (s44, up)"
    by (cases "WebRtcSpl_UpBy2ShortToInt (S_22_44 s) xs")
  obtain s16 low out where d: "WebRtcSpl_DownBy2IntToShort (S_32_16_of_22 s)
      (convert out_44To32 11 18 8 (S_44_32 s @ up)) = (s16, low, out)"
    by (cases "WebRtcSpl_DownBy2IntToShort (S_32_16_of_22 s) (convert out_44To32 11 18 8 (S_44_32 s @ up))")
  have wf: "s' = s" "wf_22_16 s" "104 \<le> length t" using assms by (simp_all add: same_block_def)
  have len: "length up = 88" "length (S_44_32 s) = 8" "length s44 = 8" "length s16 = 8" "length low = 64"
    using assms(2) wf length_UpBy2(1,2) [of "S_22_44 s" xs] c44.length_convert [of 8 "S_44_32 s @ up"]
      DownBy2IntToShort_lengths [OF d]
    by (simp_all add: u d wf_22_16_def)
  show ?thesis
    using c44.stage_memory [of 0 8 "S_44_32 s" up t 8] len wf
    by (simp add: sub_block_22_16_def WebRtcSpl_Resample44khzTo32khz_def chain_22_16_def same_block_def
        sub_block_counts wf_22_16_def u d Let_def)
qed

lemma sub_block_22_8_chain:
  assumes "same_block wf_22_8 126 (s, t) s'" "length xs = 110"
  shows "same_block wf_22_8 126 (fst (sub_block_22_8 (s, t) xs)) (fst (chain_22_8 s' xs)) \<and>
         snd (sub_block_22_8 (s, t) xs) = snd (chain_22_8 s' xs)"
proof -
  obtain s22 lp where l: "WebRtcSpl_LPBy2ShortToInt (S_22_22 s) xs = (s22, lp)"
    by (cases "WebRtcSpl_LPBy2ShortToInt (S_22_22 s) xs")
  obtain s8 low out where d: "WebRtcSpl_DownBy2IntToShort (S_16_8_of_22 s)
      (convert out_44To32 11 18 10 (S_22_16 s @ lp)) = (s8, low, out)"
    by (cases "WebRtcSpl_DownBy2IntToShort (S_16_8_of_22 s) (convert out_44To32 11 18 10 (S_22_16 s @ lp))")
  have wf: "s' = s" "wf_22_8 s" "126 \<le> length t" using assms by (simp_all add: same_block_def)
  have len: "length lp = 110" "length (S_22_16 s) = 8" "length s22 = 16" "length s8 = 8" "length low = 80"
    using assms(2) wf length_LPBy2(1,2) [of "S_22_22 s" xs] c44.length_convert [of 10 "S_22_16 s @ lp"]
      DownBy2IntToShort_lengths [OF d]
    by (simp_all add: l d wf_22_8_def)
  show ?thesis
    using c44.stage_memory [of 0 8 "S_22_16 s" lp t 10] len wf
    by (simp add: sub_block_22_8_def WebRtcSpl_Resample44khzTo32khz_def chain_22_8_def same_block_def
        sub_block_counts wf_22_8_def l d Let_def)
qed

lemma sub_block_8_22_chain:
  assumes "same_block wf_8_22 98 (s, t) s'" "length xs = 40"
  shows "same_block wf_8_22 98 (fst (sub_block_8_22 (s, t) xs)) (fst (chain_8_22 s' xs)) \<and>
         snd (sub_block_8_22 (s, t) xs) = snd (chain_8_22 s' xs)"
proof -
  obtain s16 up where u: "WebRtcSpl_UpBy2ShortToInt (S_8_16_of_22 s) xs = (s16, up)"
    by (cases "WebRtcSpl_UpBy2ShortToInt (S_8_16_of_22 s) xs")
  obtain s22 out where v: "WebRtcSpl_UpBy2IntToShort (S_11_22 s)
      (convert out_32To22 16 23 5 (S_16_11 s @ up)) = (s22, out)"
    by (cases "WebRtcSpl_UpBy2IntToShort (S_11_22 s) (convert out_32To22 16 23 5 (S_16_11 s @ up))")
  have wf: "s' = s" "wf_8_22 s" "98 \<le> length t" using assms by (simp_all add: same_block_def)
  have len: "length up = 80" "length (S_16_11 s) = 8" "length s16 = 8" "length s22 = 8"
    using assms(2) wf length_UpBy2(1,2) [of "S_8_16_of_22 s" xs]
      length_UpBy2(6) [of "S_11_22 s" "convert out_32To22 16 23 5 (S_16_11 s @ up)"]
    by (simp_all add: u v wf_8_22_def)
  show ?thesis
    using c22.stage_memory [of 0 10 "S_16_11 s" up t 5] len wf
    by (simp add: sub_block_8_22_def WebRtcSpl_32khzTo22khzIntToInt_def chain_8_22_def same_block_def
        sub_block_counts wf_8_22_def u v Let_def)
qed

lemma short_block_slice:
  "i + 23 \<le> length m \<Longrightarrow> short_block_32To22 m i = short_block_32To22 (mem_slice m i 23) 0"
  by (simp add: short_block_32To22_def WebRtcSpl_DotProdIntToShort_def tap_sum_slice tap_sum_down_slice
      nth_mem_slice)

lemma sub_block_16_22_chain:
  assumes "same_block wf_16_22 88 (s, t) s'" "length xs = 40"
  shows "same_block wf_16_22 88 (fst (sub_block_16_22 (s, t) xs)) (fst (chain_16_22 s' xs)) \<and>
         snd (sub_block_16_22 (s, t) xs) = snd (chain_16_22 s' xs)"
proof -
  obtain s32 up where u: "WebRtcSpl_UpBy2ShortToInt (S_16_32_of_22 s) xs = (s32, up)"
    by (cases "WebRtcSpl_UpBy2ShortToInt (S_16_32_of_22 s) xs")
  have wf: "s' = s" "wf_16_22 s" "88 \<le> length t" using assms by (simp_all add: same_block_def)
  have len: "length up = 80" "length (S_32_22 s) = 8" "length s32 = 8"
    using assms(2) wf length_UpBy2(1,2) [of "S_16_32_of_22 s" xs] by (simp_all add: u wf_16_22_def)
  have j: "mem_copy (mem_copy t 8 up) 0 (S_32_22 s) = mem_copy t 0 (S_32_22 s @ up)"
    using mem_copy_before [of 0 "S_32_22 s" up t] len wf by simp
  have w: "mem_slice (mem_copy t 0 (S_32_22 s @ up)) q n = mem_slice (S_32_22 s @ up) q n"
    if "q + n \<le> 88" for q n
    using mem_slice_within [of 0 "S_32_22 s @ up" t q n] that len wf by simp
  have "WebRtcSpl_32khzTo22khzIntToShort (mem_copy t 0 (S_32_22 s @ up)) 5 =
      convert (\<lambda>w. short_block_32To22 w 0) 16 23 5 (S_32_22 s @ up)"
    unfolding WebRtcSpl_32khzTo22khzIntToShort_def convert_def
    using len wf by (intro arg_cong [where f = concat] map_cong) (simp_all add: short_block_slice w)
  moreover have "mem_slice (mem_copy t 0 (S_32_22 s @ up)) 80 8 = drop 72 up"
    using len by (simp add: w) (simp add: mem_slice_def)
  ultimately show ?thesis
    using len wf by (simp add: sub_block_16_22_def chain_16_22_def same_block_def j
        sub_block_counts wf_16_22_def u Let_def)
qed

lemma sub_blocks_chain:
  assumes "same_block P m (s, t) s" "length xs = a * n"
    and "\<And>s t s' xs. same_block P m (s, t) s' \<Longrightarrow> length xs = a \<Longrightarrow>
      same_block P m (fst (step (s, t) xs)) (fst (chain s' xs)) \<and> snd (step (s, t) xs) = snd (chain s' xs)"
  shows "without_memory (sub_blocks step n a xs s t) =
         (let (s', outs) = run chain s (map (\<lambda>k. mem_slice xs (a * k) a) [0..<n]) in (s', concat outs))"
proof -
  have "length (mem_slice xs (a * k) a) = a" if "k < n" for k
  proof -
    have "a * Suc k \<le> a * n" using that by (intro mult_le_mono2) simp
    then show ?thesis using assms(2) by (intro length_mem_slice) (simp add: mult_Suc_right)
  qed
  then have "list_all (\<lambda>xs. length xs = a) (map (\<lambda>k. mem_slice xs (a * k) a) [0..<n])"
    by (simp add: list_all_iff)
  moreover have "same_block P m (fst (step sm e)) (fst (chain s' e)) \<and> snd (step sm e) = snd (chain s' e)"
    if "same_block P m sm s'" "length e = a" for sm s' e
    using assms(3) [of "fst sm" "snd sm"] that by simp
  ultimately have "same_block P m (fst (run step (s, t) (map (\<lambda>k. mem_slice xs (a * k) a) [0..<n])))
        (fst (run chain s (map (\<lambda>k. mem_slice xs (a * k) a) [0..<n]))) \<and>
      snd (run step (s, t) (map (\<lambda>k. mem_slice xs (a * k) a) [0..<n])) =
        snd (run chain s (map (\<lambda>k. mem_slice xs (a * k) a) [0..<n]))"
    using run_simulation [of "same_block P m" "(s, t)" s "\<lambda>xs. length xs = a"] assms(1) by blast
  then show ?thesis by (auto simp: sub_blocks_def without_memory_def same_block_def split_def Let_def)
qed


text \<open>C24: The four 48 kHz converters, working inside one scratch memory in which the fractional stage
  overwrites its own input, give the state and the samples of the chain of converters with separate
  arrays, whatever the memory held before: for every input of 10 ms and every memory of the size the
  stages reach, no stage reads a word that an earlier one has already replaced.\<close>

theorem resample_48khz_in_place:
  "(wf_48_16 s \<and> length xs = 480 \<and> 496 \<le> length t \<longrightarrow>
      without_memory (WebRtcSpl_Resample48khzTo16khz xs s t) = chain_48_16 xs s) \<and>
   (wf_16_48 u \<and> length xs = 160 \<and> 336 \<le> length t \<longrightarrow>
      without_memory (WebRtcSpl_Resample16khzTo48khz xs u t) = chain_16_48 xs u) \<and>
   (wf_48_8 v \<and> length xs = 480 \<and> 496 \<le> length t \<longrightarrow>
      without_memory (WebRtcSpl_Resample48khzTo8khz xs v t) = chain_48_8 xs v) \<and>
   (wf_8_48 w \<and> length xs = 80 \<and> 424 \<le> length t \<longrightarrow>
      without_memory (WebRtcSpl_Resample8khzTo48khz xs w t) = chain_8_48 xs w)"
  by (simp add: Resample48khzTo16khz_chain Resample16khzTo48khz_chain Resample48khzTo8khz_chain
      Resample8khzTo48khz_chain)

lemma resample_48khz_in_place_witness:
  "wf_48_8 \<lparr>S_48_24 = replicate 8 0, S_24_24 = replicate 16 0, S_24_16 = replicate 8 0, S_16_8 = replicate 8 0\<rparr> \<and>
   without_memory (WebRtcSpl_Resample48khzTo8khz (replicate 480 1000)
     \<lparr>S_48_24 = replicate 8 0, S_24_24 = replicate 16 0, S_24_16 = replicate 8 0, S_16_8 = replicate 8 0\<rparr>
     (replicate 736 7)) =
   chain_48_8 (replicate 480 1000)
     \<lparr>S_48_24 = replicate 8 0, S_24_24 = replicate 16 0, S_24_16 = replicate 8 0, S_16_8 = replicate 8 0\<rparr>"
  using resample_48khz_in_place [where xs = "replicate 480 1000" and t = "replicate 736 7" and
      v = "\<lparr>S_48_24 = replicate 8 0, S_24_24 = replicate 16 0, S_24_16 = replicate 8 0, S_16_8 = replicate 8 0\<rparr>"]
  by (simp add: wf_48_8_def)

text \<open>The four 22 kHz converters, which cut 10 ms into sub blocks and carry state and scratch memory
  from one to the next, give the state and the samples of the chain of converters with separate
  arrays run over the sub blocks, whatever the memory held before.\<close>

theorem resample_22khz_in_place:
  "(wf_22_16 s \<and> length xs = 220 \<and> 104 \<le> length t \<longrightarrow>
      without_memory (WebRtcSpl_Resample22khzTo16khz xs s t) =
      (let (s', outs) = run chain_22_16 s (map (\<lambda>k. mem_slice xs (44 * k) 44) [0..<5]) in (s', concat outs))) \<and>
   (wf_16_22 u \<and> length xs = 160 \<and> 88 \<le> length t \<longrightarrow>
      without_memory (WebRtcSpl_Resample16khzTo22khz xs u t) =
      (let (u', outs) = run chain_16_22 u (map (\<lambda>k. mem_slice xs (40 * k) 40) [0..<4]) in (u', concat outs))) \<and>
   (wf_22_8 v \<and> length xs = 220 \<and> 126 \<le> length t \<longrightarrow>
      without_memory (WebRtcSpl_Resample22khzTo8khz xs v t) =
      (let (v', outs) = run chain_22_8 v (map (\<lambda>k. mem_slice xs (110 * k) 110) [0..<2]) in (v', concat outs))) \<and>
   (wf_8_22 w \<and> length xs = 80 \<and> 98 \<le> length t \<longrightarrow>
      without_memory (WebRtcSpl_Resample8khzTo22khz xs w t) =
      (let (w', outs) = run chain_8_22 w (map (\<lambda>k. mem_slice xs (40 * k) 40) [0..<2]) in (w', concat outs)))"
proof (intro conjI impI)
  assume "wf_22_16 s \<and> length xs = 220 \<and> 104 \<le> length t"
  then show "without_memory (WebRtcSpl_Resample22khzTo16khz xs s t) =
      (let (s', outs) = run chain_22_16 s (map (\<lambda>k. mem_slice xs (44 * k) 44) [0..<5]) in (s', concat outs))"
    using sub_blocks_chain [of wf_22_16 104 s t xs 44 5 sub_block_22_16 chain_22_16, OF _ _ sub_block_22_16_chain]
    by (simp add: WebRtcSpl_Resample22khzTo16khz_def sub_block_counts same_block_def del: upt_rec_numeral)
next
  assume "wf_16_22 u \<and> length xs = 160 \<and> 88 \<le> length t"
  then show "without_memory (WebRtcSpl_Resample16khzTo22khz xs u t) =
      (let (u', outs) = run chain_16_22 u (map (\<lambda>k. mem_slice xs (40 * k) 40) [0..<4]) in (u', concat outs))"
    using sub_blocks_chain [of wf_16_22 88 u t xs 40 4 sub_block_16_22 chain_16_22, OF _ _ sub_block_16_22_chain]
    by (simp add: WebRtcSpl_Resample16khzTo22khz_def sub_block_counts same_block_def del: upt_rec_numeral)
next
  assume "wf_22_8 v \<and> length xs = 220 \<and> 126 \<le> length t"
  then show "without_memory (WebRtcSpl_Resample22khzTo8khz xs v t) =
      (let (v', outs) = run chain_22_8 v (map (\<lambda>k. mem_slice xs (110 * k) 110) [0..<2]) in (v', concat outs))"
    using sub_blocks_chain [of wf_22_8 126 v t xs 110 2 sub_block_22_8 chain_22_8, OF _ _ sub_block_22_8_chain]
    by (simp add: WebRtcSpl_Resample22khzTo8khz_def sub_block_counts same_block_def del: upt_rec_numeral)
next
  assume "wf_8_22 w \<and> length xs = 80 \<and> 98 \<le> length t"
  then show "without_memory (WebRtcSpl_Resample8khzTo22khz xs w t) =
      (let (w', outs) = run chain_8_22 w (map (\<lambda>k. mem_slice xs (40 * k) 40) [0..<2]) in (w', concat outs))"
    using sub_blocks_chain [of wf_8_22 98 w t xs 40 2 sub_block_8_22 chain_8_22, OF _ _ sub_block_8_22_chain]
    by (simp add: WebRtcSpl_Resample8khzTo22khz_def sub_block_counts same_block_def del: upt_rec_numeral)
qed

lemma resample_22khz_in_place_witness:
  "wf_22_8 \<lparr>S_22_22 = replicate 16 0, S_22_16 = replicate 8 0, S_16_8_of_22 = replicate 8 0\<rparr> \<and>
   without_memory (WebRtcSpl_Resample22khzTo8khz (replicate 220 1000)
     \<lparr>S_22_22 = replicate 16 0, S_22_16 = replicate 8 0, S_16_8_of_22 = replicate 8 0\<rparr> (replicate 126 7)) =
   (let (v', outs) = run chain_22_8
          \<lparr>S_22_22 = replicate 16 0, S_22_16 = replicate 8 0, S_16_8_of_22 = replicate 8 0\<rparr>
          (map (\<lambda>k. mem_slice (replicate 220 1000) (110 * k) 110) [0..<2]) in (v', concat outs))"
  using resample_22khz_in_place [where xs = "replicate 220 1000" and t = "replicate 126 7" and
      v = "\<lparr>S_22_22 = replicate 16 0, S_22_16 = replicate 8 0, S_16_8_of_22 = replicate 8 0\<rparr>"]
  by (simp add: wf_22_8_def del: upt_rec_numeral)

section \<open>The range of the internal by-two filters\<close>

text \<open>The section of \<open>resample_by_2_internal.c\<close> over the integers, and the decimator built from it.\<close>

definition exact_int :: "nat \<Rightarrow> section_state \<Rightarrow> int \<Rightarrow> section_state" where
  "exact_int n = (\<lambda>(s0, s1, s2, s3) x.
     let y = s0 + (x - s1 + 8192) div 16384 * (kResampleAllpass ! n ! 0);
         z = s1 + scale_down_truncate (y - s2) * (kResampleAllpass ! n ! 1)
     in (x, y, z, s2 + scale_down_truncate (z - s3) * (kResampleAllpass ! n ! 2)))"

definition exact_DownBy2ShortToInt :: "samples \<Rightarrow> int list" where
  "exact_DownBy2ShortToInt xs =
     map2 (\<lambda>l u. l div 2 + u div 2)
       (snd (run (branch_step (exact_int 1)) (0, 0, 0, 0) (map (\<lambda>x. 32768 * x + 16384) (evens xs))))
       (snd (run (branch_step (exact_int 0)) (0, 0, 0, 0) (map (\<lambda>x. 32768 * x + 16384) (odds xs))))"

definition int_bounds :: "nat \<Rightarrow> int list" where
  "int_bounds n = [[163856384, 180462835, 316000000, 800000000], [163856384, 225200000, 484000000, 1400000000]] ! n"

definition int_ok :: "nat \<Rightarrow> section_state \<Rightarrow> bool" where
  "int_ok n = (\<lambda>(s0, s1, s2, s3). let c = kResampleAllpass ! n; X = int_bounds n in
     stage_ok 16384 3000000000 (c ! 0) (X ! 0) (X ! 1) s0 s1 \<and>
     stage_ok 16384 3000000000 (c ! 1) (X ! 1) (X ! 2) s1 s2 \<and>
     stage_ok 16384 3000000000 (c ! 2) (X ! 2) (X ! 3) s2 s3)"

lemma int_gain:
  "n < 2 \<Longrightarrow> stage_gain 16384 3000000000 (16384 * kResampleAllpass ! n ! 0) (kResampleAllpass ! n ! 0)
     (int_bounds n ! 0) (int_bounds n ! 1)"
  "n < 2 \<Longrightarrow> stage_gain 16384 3000000000 (16384 * kResampleAllpass ! n ! 1) (kResampleAllpass ! n ! 1)
     (int_bounds n ! 1) (int_bounds n ! 2)"
  "n < 2 \<Longrightarrow> stage_gain 16384 3000000000 (16384 * kResampleAllpass ! n ! 2) (kResampleAllpass ! n ! 2)
     (int_bounds n ! 2) (int_bounds n ! 3)"
  by (auto simp: less_2_cases_iff stage_gain_def kResampleAllpass_def int_bounds_def)

lemma scale_down_error: "\<bar>16384 * ((d + 8192) div 16384) - d\<bar> \<le> 16384"
  "\<bar>16384 * scale_down_truncate d - d\<bar> \<le> 16384"
proof -
  have "16384 * (x div 16384) = x - x mod 16384" "0 \<le> x mod 16384" "x mod 16384 < 16384" for x :: int
    by (simp_all add: minus_mod_eq_mult_div)
  note b = this [of "d + 8192"] this [of d]
  show "\<bar>16384 * ((d + 8192) div 16384) - d\<bar> \<le> 16384" using b by linarith
  show "\<bar>16384 * scale_down_truncate d - d\<bar> \<le> 16384"
  proof (cases "d div 16384 < 0")
    case True
    then have "scale_down_truncate d = d div 16384 + 1" by (simp add: scale_down_truncate_def shr_def)
    then show ?thesis using b(4-6) by linarith
  next
    case False
    then have "scale_down_truncate d = d div 16384" by (simp add: scale_down_truncate_def shr_def)
    then show ?thesis using b(4-6) by linarith
  qed
qed

lemma stage_int_step:
  assumes "stage_gain 16384 E (16384 * c) c X Y" "stage_ok 16384 E c X Y x y" "\<bar>x'\<bar> \<le> X"
    and "\<bar>16384 * d - (x' - y)\<bar> \<le> 16384"
  shows "stage_ok 16384 E c X Y x' (x + d * c)"
proof (rule stage_ok_step [OF assms(1-3), of _ "c * (16384 * d - (x' - y))"])
  have "0 \<le> c" using assms(1) by (simp add: stage_gain_def)
  then have "c * \<bar>16384 * d - (x' - y)\<bar> \<le> c * 16384" using assms(4) by (intro mult_left_mono)
  then show "\<bar>c * (16384 * d - (x' - y))\<bar> \<le> 16384 * c" using \<open>0 \<le> c\<close> by (simp add: abs_mult)
qed (simp add: algebra_simps)

lemma allpass_int_exact:
  assumes n: "n < 2" and s: "int_ok n s" and x: "\<bar>x\<bar> \<le> 163856384"
  shows "allpass_int n s x = exact_int n s x \<and> int_ok n (exact_int n s x)"
proof -
  obtain s0 s1 s2 s3 where S: "s = (s0, s1, s2, s3)" by (cases s)
  define c where "c = kResampleAllpass ! n"
  define X where "X = int_bounds n"
  note g = int_gain [OF n, folded c_def X_def]
  have Xs: "X ! 0 = 163856384" "0 \<le> X ! 1" "0 \<le> X ! 2" "0 \<le> X ! 3" "X ! 0 + X ! 1 \<le> 2000000000" "X ! 1 + X ! 2 \<le> 2000000000" "X ! 2 + X ! 3 \<le> 2000000000"
    using n by (auto simp: X_def less_2_cases_iff int_bounds_def)
  have st: "stage_ok 16384 3000000000 (c ! 0) (X ! 0) (X ! 1) s0 s1"
    "stage_ok 16384 3000000000 (c ! 1) (X ! 1) (X ! 2) s1 s2"
    "stage_ok 16384 3000000000 (c ! 2) (X ! 2) (X ! 3) s2 s3"
    using s by (simp_all add: S int_ok_def Let_def c_def X_def)
  define y where "y = s0 + (x - s1 + 8192) div 16384 * c ! 0"
  define z where "z = s1 + scale_down_truncate (y - s2) * c ! 1"
  define w where "w = s2 + scale_down_truncate (z - s3) * c ! 2"
  have y: "stage_ok 16384 3000000000 (c ! 0) (X ! 0) (X ! 1) x y" unfolding y_def
    using g(1) st(1) x Xs(1) scale_down_error(1) [of "x - s1"] by (intro stage_int_step) auto
  then have y': "\<bar>y\<bar> \<le> X ! 1" by (simp add: stage_ok_def)
  have z: "stage_ok 16384 3000000000 (c ! 1) (X ! 1) (X ! 2) y z" unfolding z_def
    using g(2) st(2) y' scale_down_error(2) [of "y - s2"] by (intro stage_int_step) auto
  then have z': "\<bar>z\<bar> \<le> X ! 2" by (simp add: stage_ok_def)
  have w: "stage_ok 16384 3000000000 (c ! 2) (X ! 2) (X ! 3) z w" unfolding w_def
    using g(3) st(3) z' scale_down_error(2) [of "z - s3"] by (intro stage_int_step) auto
  then have w': "\<bar>w\<bar> \<le> X ! 3" by (simp add: stage_ok_def)
  have s': "\<bar>s1\<bar> \<le> X ! 1" "\<bar>s2\<bar> \<le> X ! 2" "\<bar>s3\<bar> \<le> X ! 3" using st by (simp_all add: stage_ok_def)
  have id: "i32 v = v" if "\<bar>v\<bar> \<le> 2000008192" for v using that by (intro i32_id) (simp add: in_i32_def abs_le_iff)
  have i: "i32 (x - s1) = x - s1" "i32 (x - s1 + 8192) = x - s1 + 8192" "i32 y = y"
    "i32 (y - s2) = y - s2" "i32 z = z" "i32 (z - s3) = z - s3" "i32 w = w"
    using x y' z' w' s' Xs by (auto intro!: id simp: abs_le_iff)
  have "exact_int n s x = (x, y, z, w)"
    by (simp add: S exact_int_def Let_def y_def z_def w_def c_def)
  moreover have "allpass_int n s x = (x, y, z, w)"
    using i by (simp add: S allpass_int_def Let_def scale_down_round_def shr_def
        del: One_nat_def flip: c_def y_def z_def w_def)
  ultimately show ?thesis using y z w by (simp add: int_ok_def Let_def c_def X_def)
qed

lemma int_ok_zero: "n < 2 \<Longrightarrow> int_ok n (0, 0, 0, 0)"
  by (auto simp: int_ok_def stage_ok_def kResampleAllpass_def int_bounds_def less_2_cases_iff Let_def)

lemma int_ok_last:
  assumes "int_ok n s" "n < 2"
  shows "\<bar>snd (snd (snd s))\<bar> \<le> 1400000000"
proof -
  have "\<bar>snd (snd (snd s))\<bar> \<le> int_bounds n ! 3"
    using assms(1) by (cases s) (simp add: int_ok_def stage_ok_def Let_def)
  also have "\<dots> \<le> 1400000000" using assms(2) by (auto simp: int_bounds_def less_2_cases_iff)
  finally show ?thesis .
qed

lemma branch_int_exact:
  assumes "n < 2" "int_ok n s" "\<bar>x\<bar> \<le> 163856384"
  shows "branch_step (allpass_int n) s x = branch_step (exact_int n) s x \<and>
      int_ok n (fst (branch_step (exact_int n) s x))"
    and "\<bar>snd (branch_step (exact_int n) s x)\<bar> \<le> 1400000000"
  using allpass_int_exact [OF assms] int_ok_last [of n "exact_int n s x"] assms(1)
  by (simp_all add: branch_step_def Let_def split_def)

lemma run_allpass_int_exact:
  assumes n: "n < 2" and xs: "list_all (\<lambda>x. \<bar>x\<bar> \<le> 163856384) xs"
  shows "run (branch_step (allpass_int n)) (0, 0, 0, 0) xs = run (branch_step (exact_int n)) (0, 0, 0, 0) xs"
    and "list_all (\<lambda>y. \<bar>y\<bar> \<le> 1400000000) (snd (run (branch_step (exact_int n)) (0, 0, 0, 0) xs))"
  using run_cong_inv [of "int_ok n" "(0, 0, 0, 0)" "\<lambda>x. \<bar>x\<bar> \<le> 163856384" xs
        "branch_step (allpass_int n)" "branch_step (exact_int n)", OF int_ok_zero [OF n] xs branch_int_exact(1) [OF n]]
    run_list_all [of "int_ok n" "(0, 0, 0, 0)" "\<lambda>x. \<bar>x\<bar> \<le> 163856384" xs "branch_step (exact_int n)",
        OF int_ok_zero [OF n] xs] branch_int_exact [OF n]
  by auto

lemma to_q15_exact:
  assumes "list_all (\<lambda>x. \<bar>x\<bar> \<le> 5000) xs"
  shows "map to_q15 xs = map (\<lambda>x. 32768 * x + 16384) xs"
    and "list_all (\<lambda>x. \<bar>x\<bar> \<le> 163856384) (map (\<lambda>x. 32768 * x + 16384) xs)"
  using assms by (auto simp: list_all_iff to_q15_def shl32_def i32_id in_i32_def abs_le_iff mult.commute)

lemma list_all_evens: "list_all P xs \<Longrightarrow> list_all P (evens xs)" "list_all P xs \<Longrightarrow> list_all P (odds xs)"
  by (auto simp: list_all_length evens_def odds_def)

lemma halves_exact:
  assumes "list_all (\<lambda>y. \<bar>y\<bar> \<le> 1400000000) ls" "list_all (\<lambda>y. \<bar>y\<bar> \<le> 1400000000) us"
  shows "map2 (\<lambda>l u. i32 (shr l 1 + shr u 1)) ls us = map2 (\<lambda>l u. l div 2 + u div 2) ls us"
proof (rule map_cong, simp, clarify)
  fix l u assume "(l, u) \<in> set (zip ls us)"
  then have "\<bar>l\<bar> \<le> 1400000000" "\<bar>u\<bar> \<le> 1400000000"
    using assms by (auto simp: list_all_iff dest: set_zip_leftD set_zip_rightD)
  then have "in_i32 (l div 2 + u div 2)" unfolding in_i32_def by linarith
  then show "i32 (shr l 1 + shr u 1) = l div 2 + u div 2"
    by (simp add: shr_def i32_id)
qed

lemma DownBy2ShortToInt_exact:
  assumes "list_all (\<lambda>x. \<bar>x\<bar> \<le> 5000) xs"
  shows "snd (WebRtcSpl_DownBy2ShortToInt (replicate 8 0) xs) = exact_DownBy2ShortToInt xs"
proof -
  have z: "get_section (put_section (replicate 8 0) 0 s) 4 = (0, 0, 0, 0)" for s
    by (cases s) (simp add: get_section_def put_section_def mem_copy_def numeral_eq_Suc)
  note ev = to_q15_exact [OF list_all_evens(1) [OF assms]]
  note od = to_q15_exact [OF list_all_evens(2) [OF assms]]
  show ?thesis
    using run_allpass_int_exact [OF _ ev(2), of 1] run_allpass_int_exact [OF _ od(2), of 0]
    by (simp add: WebRtcSpl_DownBy2ShortToInt_def exact_DownBy2ShortToInt_def allpass_loop_def ev(1) od(1)
        section_zero z halves_exact [unfolded split_def] split_def Let_def del: map_map map_eq_conv)
qed

text \<open>On samples of magnitude up to 5000 the decimator \<open>WebRtcSpl_DownBy2ShortToInt\<close>, started from
  a cleared state, computes the all-pass decimator over the integers, without any wrap-around. On full
  scale samples it does not: with the even samples 32767, 32767, -32768 a difference leaves the 32-bit
  range and the third output is 783503020 instead of 573359107.\<close>

theorem DownBy2ShortToInt_range:
  "(list_all (\<lambda>x. \<bar>x\<bar> \<le> 5000) xs \<longrightarrow>
      snd (WebRtcSpl_DownBy2ShortToInt (replicate 8 0) xs) = exact_DownBy2ShortToInt xs) \<and>
   snd (WebRtcSpl_DownBy2ShortToInt (replicate 8 0) [32767, 0, 32767, 0, - 32768, 0]) =
     [52532212, 395658446, 783503020] \<and>
   exact_DownBy2ShortToInt [32767, 0, 32767, 0, - 32768, 0] = [52532212, 395658446, 573359107]"
proof (intro conjI impI)
  show "snd (WebRtcSpl_DownBy2ShortToInt (replicate 8 0) [32767, 0, 32767, 0, - 32768, 0]) =
     [52532212, 395658446, 783503020]" by code_simp
  show "exact_DownBy2ShortToInt [32767, 0, 32767, 0, - 32768, 0] = [52532212, 395658446, 573359107]"
    by code_simp
qed (rule DownBy2ShortToInt_exact)

lemma DownBy2ShortToInt_range_witness:
  "list_all (\<lambda>x. \<bar>x\<bar> \<le> 5000) [5000, - 5000, 5000, 5000 :: int] \<and>
   snd (WebRtcSpl_DownBy2ShortToInt (replicate 8 0) [5000, - 5000, 5000, 5000]) =
     exact_DownBy2ShortToInt [5000, - 5000, 5000, 5000]"
  using DownBy2ShortToInt_range [of "[5000, - 5000, 5000, 5000]"] by simp

end
