(* ===== verification/Spl_Lpc.thy ===== *)
theory Spl_Lpc
  imports Spl_Vector Spl_Math Spl_Resample
begin

text \<open>
  Band splitting, linear prediction and windows of the signal processing library:
  \<open>splitting_filter.c\<close>, \<open>levinson_durbin.c\<close>, \<open>lpc_to_refl_coef.c\<close>,
  \<open>auto_corr_to_refl_coef.c\<close>, \<open>filter_ar.c\<close>, \<open>ilbc_specific_functions.c\<close> and
  \<open>get_hanning_window.c\<close>. Arrays written by a routine are results; an array a routine updates is
  an argument as well.
\<close>

section \<open>splitting_filter.c\<close>

definition WebRtcSpl_kAllPassFilter1 :: "int list" where
  "WebRtcSpl_kAllPassFilter1 = [6418, 36982, 57261]"

definition WebRtcSpl_kAllPassFilter2 :: "int list" where
  "WebRtcSpl_kAllPassFilter2 = [21333, 49062, 63010]"

text \<open>
  One all-pass cascade over a vector. The state is the previous input and the previous output: the two
  words stored in \<open>filter_state\<close> for the first sample, the neighbours in the two vectors afterwards.
\<close>

definition cascade_step :: "int \<Rightarrow> int \<times> int \<Rightarrow> int \<Rightarrow> (int \<times> int) \<times> int" where
  "cascade_step a = (\<lambda>(x', y') x.
     let diff = WebRtcSpl_SubSatW32 x y';
         y = WEBRTC_SPL_SCALEDIFF32 a diff x'
     in ((x, y), y))"

definition WebRtcSpl_AllPassQMF :: "int list \<Rightarrow> int list \<Rightarrow> int list \<Rightarrow> int list \<times> int list" where
  "WebRtcSpl_AllPassQMF in_data filter_coefficients filter_state =
     (let ((s0, s1), out_data) = run (cascade_step (filter_coefficients ! 0)) (filter_state ! 0, filter_state ! 1) in_data;
          ((s2, s3), in_data) = run (cascade_step (filter_coefficients ! 1)) (filter_state ! 2, filter_state ! 3) out_data;
          ((s4, s5), out_data) = run (cascade_step (filter_coefficients ! 2)) (filter_state ! 4, filter_state ! 5) in_data
      in (filter_state[0 := s0, 1 := s1, 2 := s2, 3 := s3, 4 := s4, 5 := s5], out_data))"

text \<open>The two filter states, the low band and the high band.\<close>

definition WebRtcSpl_AnalysisQMF :: "samples \<Rightarrow> int list \<Rightarrow> int list
    \<Rightarrow> (int list \<times> int list) \<times> samples \<times> samples" where
  "WebRtcSpl_AnalysisQMF in_data filter_state1 filter_state2 =
     (let half_in2 = map (\<lambda>x. shl32 x 10) (evens in_data);
          half_in1 = map (\<lambda>x. shl32 x 10) (odds in_data);
          (filter_state1, filter1) = WebRtcSpl_AllPassQMF half_in1 WebRtcSpl_kAllPassFilter1 filter_state1;
          (filter_state2, filter2) = WebRtcSpl_AllPassQMF half_in2 WebRtcSpl_kAllPassFilter2 filter_state2
      in ((filter_state1, filter_state2),
          map2 (\<lambda>f1 f2. WebRtcSpl_SatW32ToW16 (shr (i32 (f1 + f2 + 1024)) 11)) filter1 filter2,
          map2 (\<lambda>f1 f2. WebRtcSpl_SatW32ToW16 (shr (i32 (f1 - f2 + 1024)) 11)) filter1 filter2))"

definition WebRtcSpl_SynthesisQMF :: "samples \<Rightarrow> samples \<Rightarrow> int list \<Rightarrow> int list
    \<Rightarrow> (int list \<times> int list) \<times> samples" where
  "WebRtcSpl_SynthesisQMF low_band high_band filter_state1 filter_state2 =
     (let half_in1 = map2 (\<lambda>l h. shl32 (l + h) 10) low_band high_band;
          half_in2 = map2 (\<lambda>l h. shl32 (l - h) 10) low_band high_band;
          (filter_state1, filter1) = WebRtcSpl_AllPassQMF half_in1 WebRtcSpl_kAllPassFilter2 filter_state1;
          (filter_state2, filter2) = WebRtcSpl_AllPassQMF half_in2 WebRtcSpl_kAllPassFilter1 filter_state2
      in ((filter_state1, filter_state2),
          interleave (map (\<lambda>f. WebRtcSpl_SatW32ToW16 (shr (i32 (f + 512)) 10)) filter2)
                     (map (\<lambda>f. WebRtcSpl_SatW32ToW16 (shr (i32 (f + 512)) 10)) filter1)))"

section \<open>levinson_durbin.c\<close>

text \<open>A 32-bit value in hi and low format.\<close>

definition hi_low :: "int \<Rightarrow> int \<times> int" where
  "hi_low t = (let hi = i16 (shr t 16) in (hi, i16 (shr (i32 (t - shl32 hi 16)) 1)))"

text \<open>\<open>1 - K * K\<close> in Q31, in hi and low format, and the gain \<open>Alpha\<close> multiplied by it.\<close>

definition one_minus_square :: "int \<Rightarrow> int \<Rightarrow> int \<times> int" where
  "one_minus_square K_hi K_low =
     (let temp1W32 = shl32 (i32 (shr (i32 (K_hi * K_low)) 14 + K_hi * K_hi)) 1;
          temp1W32 = WEBRTC_SPL_ABS_W32 temp1W32;
          temp1W32 = i32 (0x7fffffff - temp1W32)
      in hi_low temp1W32)"

definition times_hi_low :: "int \<times> int \<Rightarrow> int \<times> int \<Rightarrow> int" where
  "times_hi_low = (\<lambda>(a_hi, a_low) (t_hi, t_low).
     shl32 (i32 (a_hi * t_hi + shr (i32 (a_hi * t_low)) 15 + shr (i32 (a_low * t_hi)) 15)) 1)"

text \<open>What the iteration carries: the coefficients of the order reached, \<open>Alpha\<close> and \<open>K\<close>.\<close>

record levinson =
  A_hi :: "int list"
  A_low :: "int list"
  Alpha :: "int \<times> int"
  Alpha_exp :: int
  refl_coef :: "int list"

definition normalize_alpha :: "int \<Rightarrow> int \<Rightarrow> levinson \<Rightarrow> levinson" where
  "normalize_alpha temp1W32 e l =
     (let norm = WebRtcSpl_NormW32 temp1W32
      in l\<lparr>Alpha := hi_low (shl32 temp1W32 norm), Alpha_exp := i16 (e + norm)\<rparr>)"

definition levinson_first :: "int list \<Rightarrow> int list \<Rightarrow> nat \<Rightarrow> int list \<Rightarrow> levinson" where
  "levinson_first R_hi R_low order K =
     (let temp2W32 = i32 (shl32 (R_hi ! 1) 16 + shl32 (R_low ! 1) 1);
          temp3W32 = WEBRTC_SPL_ABS_W32 temp2W32;
          temp1W32 = WebRtcSpl_DivW32HiLow temp3W32 (R_hi ! 0) (R_low ! 0);
          temp1W32 = (if temp2W32 > 0 then i32 (- temp1W32) else temp1W32);
          (K_hi, K_low) = hi_low temp1W32;
          K = K[0 := K_hi];
          temp1W32 = shr temp1W32 4;
          (a_hi, a_low) = hi_low temp1W32;
          alpha = times_hi_low (R_hi ! 0, R_low ! 0) (one_minus_square K_hi K_low)
      in normalize_alpha alpha 0
           \<lparr>A_hi = (replicate (order + 1) 0)[1 := a_hi], A_low = (replicate (order + 1) 0)[1 := a_low],
            Alpha = (0, 0), Alpha_exp = 0, refl_coef = K\<rparr>)"

text \<open>Order \<open>i\<close>: the reflection coefficient, and whether the filter is still taken for stable.\<close>

definition levinson_reflection :: "int list \<Rightarrow> int list \<Rightarrow> nat \<Rightarrow> levinson \<Rightarrow> int" where
  "levinson_reflection R_hi R_low i l =
     (let temp1W32 = i32 (sum_list (map (\<lambda>j. shl32 (i32 (R_hi ! j * A_hi l ! (i - j))) 1
              + shl32 (i32 (shr (i32 (R_hi ! j * A_low l ! (i - j))) 15 + shr (i32 (R_low ! j * A_hi l ! (i - j))) 15)) 1) [1..<i]));
          temp1W32 = shl32 temp1W32 4;
          temp1W32 = i32 (temp1W32 + (shl32 (R_hi ! i) 16 + shl32 (R_low ! i) 1));
          temp2W32 = WEBRTC_SPL_ABS_W32 temp1W32;
          temp3W32 = WebRtcSpl_DivW32HiLow temp2W32 (fst (Alpha l)) (snd (Alpha l));
          temp3W32 = (if temp1W32 > 0 then i32 (- temp3W32) else temp3W32);
          norm = WebRtcSpl_NormW32 temp3W32
      in if Alpha_exp l \<le> norm \<or> temp3W32 = 0 then shl32 temp3W32 (Alpha_exp l)
         else if temp3W32 > 0 then 0x7fffffff else - 0x80000000)"

definition levinson_update :: "nat \<Rightarrow> int \<Rightarrow> levinson \<Rightarrow> levinson" where
  "levinson_update i temp3W32 l =
     (let (K_hi, K_low) = hi_low temp3W32;
          upd = map (\<lambda>j. let temp1W32 = i32 (shl32 (A_hi l ! j) 16 + shl32 (A_low l ! j) 1);
                             temp1W32 = i32 (temp1W32 + times_hi_low (K_hi, K_low) (A_hi l ! (i - j), A_low l ! (i - j)))
                         in hi_low temp1W32) [1..<i] @ [hi_low (shr temp3W32 4)];
          alpha = times_hi_low (Alpha l) (one_minus_square K_hi K_low);
          l = normalize_alpha alpha (Alpha_exp l) l
      in l\<lparr>A_hi := mem_copy (A_hi l) 1 (map fst upd), A_low := mem_copy (A_low l) 1 (map snd upd)\<rparr>)"

text \<open>The loop. The boolean tells whether the end was reached; an unstable order ends it.\<close>

fun levinson_loop :: "int list \<Rightarrow> int list \<Rightarrow> nat list \<Rightarrow> levinson \<Rightarrow> bool \<times> levinson" where
  "levinson_loop R_hi R_low [] l = (True, l)"
| "levinson_loop R_hi R_low (i # is) l =
     (let temp3W32 = levinson_reflection R_hi R_low i l;
          K_hi = fst (hi_low temp3W32);
          l = l\<lparr>refl_coef := (refl_coef l)[i - 1 := K_hi]\<rparr>
      in if WEBRTC_SPL_ABS_W16 K_hi > 32750 then (False, l)
         else levinson_loop R_hi R_low is (levinson_update i temp3W32 l))"

text \<open>The return value, \<open>A\<close> and \<open>K\<close>, the caller's arrays.\<close>

definition WebRtcSpl_LevinsonDurbin :: "int list \<Rightarrow> samples \<Rightarrow> samples \<Rightarrow> nat \<Rightarrow> int \<times> samples \<times> samples" where
  "WebRtcSpl_LevinsonDurbin R A K order =
     (let norm = WebRtcSpl_NormW32 (R ! 0);
          R_hi = map (\<lambda>i. fst (hi_low (shl32 (R ! i) norm))) [0..<order + 1];
          R_low = map (\<lambda>i. snd (hi_low (shl32 (R ! i) norm))) [0..<order + 1];
          (stable, l) = levinson_loop R_hi R_low [2..<order + 1] (levinson_first R_hi R_low order K)
      in if \<not> stable then (0, A, refl_coef l)
         else let A = A[0 := 4096];
                  A = fold (\<lambda>i A. let temp1W32 = i32 (shl32 (A_hi l ! i) 16 + shl32 (A_low l ! i) 1)
                                  in A[i := i16 (shr (i32 (shl32 temp1W32 1 + 32768)) 16)]) [1..<order + 1] A
              in (1, A, refl_coef l))"

section \<open>lpc_to_refl_coef.c\<close>

text \<open>One round for \<open>m\<close>; the vectors are \<open>a16\<close> and \<open>k16\<close>.\<close>

definition lpc_to_refl_step :: "nat \<Rightarrow> samples \<times> samples \<Rightarrow> samples \<times> samples" where
  "lpc_to_refl_step m = (\<lambda>(a16, k16).
     let tmp_inv_denom32 = i32 (1073741823 - k16 ! m * k16 ! m);
         tmp_inv_denom16 = i16 (shr tmp_inv_denom32 15);
         tmp32 = (\<lambda>k. WebRtcSpl_DivW32W16 (i32 (shl32 (a16 ! k) 16 - shl32 (i32 (k16 ! m * a16 ! (m - k + 1))) 1))
                        tmp_inv_denom16);
         new_a16 = fold (\<lambda>k a. a[k := i16 (shr (tmp32 k) 1)]) [1..<m] a16;
         last = WEBRTC_SPL_SAT 8191 (tmp32 m) (- 8191)
     in (new_a16, k16[m - 1 := i16 (shl32 last 2)]))"

definition WebRtcSpl_LpcToReflCoef :: "samples \<Rightarrow> nat \<Rightarrow> samples \<Rightarrow> samples \<times> samples" where
  "WebRtcSpl_LpcToReflCoef a16 use_order k16 =
     fold lpc_to_refl_step (rev [1..<use_order])
       (a16, k16[use_order - 1 := i16 (shl32 (a16 ! use_order) 3)])"

section \<open>auto_corr_to_refl_coef.c\<close>

text \<open>The division by shifting and subtracting: \<open>n\<close> more bits of the quotient \<open>K\<close>.\<close>

fun divide_bits :: "nat \<Rightarrow> int \<Rightarrow> int \<Rightarrow> int \<Rightarrow> int" where
  "divide_bits 0 L_num L_den K = K"
| "divide_bits (Suc n) L_num L_den K =
     (let K = i16 (shl32 K 1);
          L_num = shl32 L_num 1
      in if L_num \<ge> L_den then divide_bits n (i32 (L_num - L_den)) L_den (i16 (K + 1))
         else divide_bits n L_num L_den K)"

definition reflection :: "int \<Rightarrow> int \<Rightarrow> int" where
  "reflection P0 p1 =
     (let tmp = i16 (WEBRTC_SPL_ABS_W16 p1)
      in if tmp \<noteq> 0
         then let K = divide_bits 15 tmp P0 0 in if p1 > 0 then i16 (- K) else K
         else 0)"

definition schur_round :: "int \<Rightarrow> int \<Rightarrow> int" where
  "schur_round x K = i16 (shr (i32 (x * K + 16384)) 15)"

definition schur_recursion :: "int \<Rightarrow> nat \<Rightarrow> int list \<times> int list \<Rightarrow> int list \<times> int list" where
  "schur_recursion K len = (\<lambda>(P, W).
     let P = P[0 := WebRtcSpl_AddSatW16 (P ! 0) (schur_round (P ! 1) K)]
     in fold (\<lambda>i (P, W).
            let P = P[i := WebRtcSpl_AddSatW16 (P ! (i + 1)) (schur_round (W ! i) K)];
                W = W[i := WebRtcSpl_AddSatW16 (W ! i) (schur_round (P ! (i + 1)) K)]
            in (P, W)) [1..<len + 1] (P, W))"

text \<open>The loop over \<open>n\<close>, which has \<open>m = use_order - n + 1\<close> coefficients left to write.\<close>

fun refl_loop :: "nat \<Rightarrow> int list \<times> int list \<Rightarrow> int list" where
  "refl_loop 0 PW = []"
| "refl_loop (Suc m) PW =
     (let (P, W) = PW;
          tmp = i16 (WEBRTC_SPL_ABS_W16 (P ! 1))
      in if P ! 0 < tmp then replicate (Suc m) 0
         else let K = reflection (P ! 0) (P ! 1) in K # refl_loop m (schur_recursion K m (P, W)))"

text \<open>
  The local arrays \<open>ACF\<close>, \<open>P\<close> and \<open>W\<close> are declared with \<open>WEBRTC_SPL_MAX_LPC_ORDER\<close> entries, one
  less than the loops use for that order; here they have the \<open>use_order + 1\<close> entries used.
\<close>

definition WebRtcSpl_AutoCorrToReflCoef :: "int list \<Rightarrow> nat \<Rightarrow> int list" where
  "WebRtcSpl_AutoCorrToReflCoef R use_order =
     (let tmp = WebRtcSpl_NormW32 (R ! 0);
          ACF = map (\<lambda>i. i16 (shr (shl32 (R ! i) tmp) 16)) [0..<use_order + 1]
      in refl_loop use_order (ACF, ACF[0 := 0]))"

section \<open>filter_ar.c\<close>

text \<open>Sample \<open>i\<close>, with the outputs so far; the older ones come from the state.\<close>

definition filter_ar_step :: "samples \<Rightarrow> samples \<Rightarrow> samples \<Rightarrow> int \<Rightarrow> samples \<times> samples \<Rightarrow> samples \<times> samples" where
  "filter_ar_step a state state_low x = (\<lambda>(filtered, filtered_low).
     let i = length filtered;
         stop = (if i < length a then i + 1 else length a);
         past = (\<lambda>out st. sum_list (map (\<lambda>j. a ! j * out ! (i - j)) [1..<stop])
                          + sum_list (map (\<lambda>j. a ! j * st ! (length state - (j - i))) [i + 1..<length a]));
         oLOW = i32 (- past filtered_low state_low);
         o' = i32 (shl32 x 12 - past filtered state + shr oLOW 12);
         y = i16 (shr (i32 (o' + 2048)) 12)
     in (filtered @ [y], filtered_low @ [i16 (i32 (o' - shl32 y 12))]))"

text \<open>
  Saving the state. In the second branch the loop writes \<open>filtered_low\<close> over the entry of \<open>state\<close> that it has
  just written, and not into \<open>state_low\<close>.
\<close>

definition filter_ar_state :: "nat \<Rightarrow> samples \<Rightarrow> samples \<Rightarrow> samples \<Rightarrow> samples \<Rightarrow> samples \<times> samples" where
  "filter_ar_state a_length filtered filtered_low state state_low =
     (let x_length = length filtered; state_length = length state
      in if x_length \<ge> state_length
         then (WebRtcSpl_CopyFromEndW16 filtered x_length (a_length - 1) state,
               WebRtcSpl_CopyFromEndW16 filtered_low x_length (a_length - 1) state_low)
         else
           (let (state, state_low) =
                  fold (\<lambda>i (state, state_low).
                      (state[i := state ! (i + x_length)], state_low[i := state_low ! (i + x_length)]))
                    [0..<state_length - x_length] (state, state_low);
                state = fold (\<lambda>i state.
                      let state = state[state_length - x_length + i := filtered ! i]
                      in state[state_length - x_length + i := filtered_low ! i])
                    [0..<x_length] state
            in (state, state_low)))"

definition WebRtcSpl_FilterAR :: "samples \<Rightarrow> samples \<Rightarrow> samples \<Rightarrow> samples
    \<Rightarrow> (samples \<times> samples) \<times> samples \<times> samples" where
  "WebRtcSpl_FilterAR a x state state_low =
     (let (filtered, filtered_low) = fold (filter_ar_step a state state_low) x ([], [])
      in (filter_ar_state (length a) filtered filtered_low state state_low, filtered, filtered_low))"

section \<open>ilbc_specific_functions.c\<close>

text \<open>\<open>win\<close> is the position of the window pointer in its array \<open>w\<close>; it is read downwards.\<close>

definition WebRtcSpl_ReverseOrderMultArrayElements :: "samples \<Rightarrow> samples \<Rightarrow> nat \<Rightarrow> int \<Rightarrow> samples" where
  "WebRtcSpl_ReverseOrderMultArrayElements xs w win right_shifts =
     map (\<lambda>i. i16 (shr (i32 (xs ! i * w ! (win - i))) right_shifts)) [0..<length xs]"

definition WebRtcSpl_ElementwiseVectorMult :: "samples \<Rightarrow> samples \<Rightarrow> int \<Rightarrow> samples" where
  "WebRtcSpl_ElementwiseVectorMult xs win right_shifts =
     map2 (\<lambda>x w. i16 (shr (i32 (x * w)) right_shifts)) xs win"

definition WebRtcSpl_AddVectorsAndShift :: "samples \<Rightarrow> samples \<Rightarrow> int \<Rightarrow> samples" where
  "WebRtcSpl_AddVectorsAndShift in1 in2 right_shifts = map2 (\<lambda>x y. i16 (shr (i32 (x + y)) right_shifts)) in1 in2"

definition WebRtcSpl_AddAffineVectorToVector :: "samples \<Rightarrow> samples \<Rightarrow> int \<Rightarrow> int \<Rightarrow> int \<Rightarrow> samples" where
  "WebRtcSpl_AddAffineVectorToVector out xs gain add_constant right_shifts =
     map2 (\<lambda>o' x. i16 (o' + i16 (shr (i32 (x * gain + add_constant)) right_shifts))) out xs"

definition WebRtcSpl_AffineTransformVector :: "samples \<Rightarrow> int \<Rightarrow> int \<Rightarrow> int \<Rightarrow> samples" where
  "WebRtcSpl_AffineTransformVector xs gain add_constant right_shifts =
     map (\<lambda>x. i16 (shr (i32 (x * gain + add_constant)) right_shifts)) xs"

section \<open>get_hanning_window.c\<close>

definition kHanningTable :: "int list" where
  "kHanningTable =
     [1, 2, 6, 10, 15, 22, 30, 39, 50, 62, 75, 89, 104, 121, 138, 157,
      178, 199, 222, 246, 271, 297, 324, 353, 383, 413, 446, 479, 513, 549, 586, 624,
      663, 703, 744, 787, 830, 875, 920, 967, 1015, 1064, 1114, 1165, 1218, 1271, 1325, 1381,
      1437, 1494, 1553, 1612, 1673, 1734, 1796, 1859, 1924, 1989, 2055, 2122, 2190, 2259, 2329, 2399,
      2471, 2543, 2617, 2691, 2765, 2841, 2918, 2995, 3073, 3152, 3232, 3312, 3393, 3475, 3558, 3641,
      3725, 3809, 3895, 3980, 4067, 4154, 4242, 4330, 4419, 4509, 4599, 4689, 4781, 4872, 4964, 5057,
      5150, 5244, 5338, 5432, 5527, 5622, 5718, 5814, 5910, 6007, 6104, 6202, 6299, 6397, 6495, 6594,
      6693, 6791, 6891, 6990, 7090, 7189, 7289, 7389, 7489, 7589, 7690, 7790, 7890, 7991, 8091, 8192,
      8293, 8393, 8494, 8594, 8694, 8795, 8895, 8995, 9095, 9195, 9294, 9394, 9493, 9593, 9691, 9790,
      9889, 9987, 10085, 10182, 10280, 10377, 10474, 10570, 10666, 10762, 10857, 10952, 11046, 11140, 11234, 11327,
      11420, 11512, 11603, 11695, 11785, 11875, 11965, 12054, 12142, 12230, 12317, 12404, 12489, 12575, 12659, 12743,
      12826, 12909, 12991, 13072, 13152, 13232, 13311, 13389, 13466, 13543, 13619, 13693, 13767, 13841, 13913, 13985,
      14055, 14125, 14194, 14262, 14329, 14395, 14460, 14525, 14588, 14650, 14711, 14772, 14831, 14890, 14947, 15003,
      15059, 15113, 15166, 15219, 15270, 15320, 15369, 15417, 15464, 15509, 15554, 15597, 15640, 15681, 15721, 15760,
      15798, 15835, 15871, 15905, 15938, 15971, 16001, 16031, 16060, 16087, 16113, 16138, 16162, 16185, 16206, 16227,
      16246, 16263, 16280, 16295, 16309, 16322, 16334, 16345, 16354, 16362, 16369, 16374, 16378, 16382, 16383, 16384]"

text \<open>The table read at a 32-bit index: \<open>None\<close> is a read outside the table.\<close>

definition hanning_entry :: "int \<Rightarrow> int option" where
  "hanning_entry i = (if 0 \<le> i \<and> i < 256 then Some (kHanningTable ! nat i) else None)"

text \<open>The loop, with \<open>n\<close> entries to go.\<close>

fun hanning_loop :: "nat \<Rightarrow> int \<Rightarrow> int \<Rightarrow> samples option" where
  "hanning_loop 0 index factor = Some []"
| "hanning_loop (Suc n) index factor =
     (let index = i32 (index + factor)
      in case hanning_entry (shr index 22) of
           None \<Rightarrow> None
         | Some v \<Rightarrow> (case hanning_loop n index factor of None \<Rightarrow> None | Some vs \<Rightarrow> Some (v # vs)))"

definition WebRtcSpl_GetHanningWindow :: "nat \<Rightarrow> samples option" where
  "WebRtcSpl_GetHanningWindow n =
     (let factor = WebRtcSpl_DivW32W16 0x40000000 (i16 (int n));
          index = (if n < 513 then - 0x200000 else - 0x100000)
      in hanning_loop n index factor)"

section \<open>The band splitting filters are exact\<close>

text \<open>The reference: the cascade over the integers, without saturation or wrap-around.\<close>

definition exact_cascade :: "int \<Rightarrow> int \<times> int \<Rightarrow> int \<Rightarrow> (int \<times> int) \<times> int" where
  "exact_cascade c = (\<lambda>(x', y') x. let y = x' + c * (x - y') div 65536 in ((x, y), y))"

definition exact_qmf :: "int list \<Rightarrow> int list \<Rightarrow> int list" where
  "exact_qmf c xs =
     snd (run (exact_cascade (c ! 2)) (0, 0)
       (snd (run (exact_cascade (c ! 1)) (0, 0) (snd (run (exact_cascade (c ! 0)) (0, 0) xs)))))"

definition exact_analysis :: "samples \<Rightarrow> samples \<times> samples" where
  "exact_analysis xs =
     (let f1 = exact_qmf WebRtcSpl_kAllPassFilter1 (map (\<lambda>x. 1024 * x) (odds xs));
          f2 = exact_qmf WebRtcSpl_kAllPassFilter2 (map (\<lambda>x. 1024 * x) (evens xs))
      in (map2 (\<lambda>a b. clamp (- 32768) 32767 ((a + b + 1024) div 2048)) f1 f2,
          map2 (\<lambda>a b. clamp (- 32768) 32767 ((a - b + 1024) div 2048)) f1 f2))"

definition exact_synthesis :: "samples \<Rightarrow> samples \<Rightarrow> samples" where
  "exact_synthesis low high =
     (let f1 = exact_qmf WebRtcSpl_kAllPassFilter2 (map2 (\<lambda>l h. 1024 * (l + h)) low high);
          f2 = exact_qmf WebRtcSpl_kAllPassFilter1 (map2 (\<lambda>l h. 1024 * (l - h)) low high)
      in interleave (map (\<lambda>f. clamp (- 32768) 32767 ((f + 512) div 1024)) f2)
                    (map (\<lambda>f. clamp (- 32768) 32767 ((f + 512) div 1024)) f1))"

lemma SubSatW32_exact: "in_i32 a \<Longrightarrow> in_i32 b \<Longrightarrow> in_i32 (a - b) \<Longrightarrow> WebRtcSpl_SubSatW32 a b = a - b"
  by (simp add: WebRtcSpl_SubSatW32_def Let_def i32_id in_i32_def)

text \<open>One cascade: its outputs are exact and bounded by \<open>Y\<close> for inputs up to \<open>X\<close>.\<close>

lemma cascade_exact:
  assumes g: "stage_gain 65536 E 65535 c X Y" and r: "X + Y \<le> 2147483647"
    and s: "stage_ok 65536 E c X Y x' y'" and x: "\<bar>x\<bar> \<le> X"
  shows "cascade_step c (x', y') x = exact_cascade c (x', y') x"
    and "stage_ok 65536 E c X Y x (snd (exact_cascade c (x', y') x))"
    and "\<bar>snd (exact_cascade c (x', y') x)\<bar> \<le> Y"
proof -
  have "\<bar>y'\<bar> \<le> Y" using s by (simp add: stage_ok_def)
  then have "in_i32 x" "in_i32 y'" "in_i32 (x - y')" using x r by (auto simp: in_i32_def abs_le_iff)
  then have "WebRtcSpl_SubSatW32 x y' = i32 (x - y')" by (simp add: SubSatW32_exact i32_id)
  then show "cascade_step c (x', y') x = exact_cascade c (x', y') x"
    using stage_16_exact [OF g s x r] by (simp add: cascade_step_def exact_cascade_def)
  show ok: "stage_ok 65536 E c X Y x (snd (exact_cascade c (x', y') x))"
    using stage_16_step [OF g s x] by (simp add: exact_cascade_def Let_def)
  then show "\<bar>snd (exact_cascade c (x', y') x)\<bar> \<le> Y" by (simp add: stage_ok_def)
qed

lemma run_cascade_exact:
  assumes g: "stage_gain 65536 E 65535 c X Y" "X + Y \<le> 2147483647" "0 \<le> E" "0 \<le> X" "0 \<le> Y"
    and xs: "list_all (\<lambda>x. \<bar>x\<bar> \<le> X) xs"
  shows "run (cascade_step c) (0, 0) xs = run (exact_cascade c) (0, 0) xs"
    and "list_all (\<lambda>y. \<bar>y\<bar> \<le> Y) (snd (run (exact_cascade c) (0, 0) xs))"
proof -
  define P where "P s \<longleftrightarrow> stage_ok 65536 E c X Y (fst s) (snd s)" for s
  have P0: "P (0, 0)" using g by (simp add: P_def stage_ok_def stage_gain_def)
  have step: "cascade_step c s x = exact_cascade c s x \<and> P (fst (exact_cascade c s x))"
    "P (fst (exact_cascade c s x)) \<and> \<bar>snd (exact_cascade c s x)\<bar> \<le> Y" if "P s" "\<bar>x\<bar> \<le> X" for s x
    using cascade_exact [OF g(1,2), of "fst s" "snd s" x] that
    by (auto simp: P_def exact_cascade_def split_def Let_def)
  show "run (cascade_step c) (0, 0) xs = run (exact_cascade c) (0, 0) xs"
    using run_cong_inv [of P "(0, 0)" "\<lambda>x. \<bar>x\<bar> \<le> X" xs "cascade_step c" "exact_cascade c", OF P0 xs step(1)] by simp
  show "list_all (\<lambda>y. \<bar>y\<bar> \<le> Y) (snd (run (exact_cascade c) (0, 0) xs))"
    using run_list_all [of P "(0, 0)" "\<lambda>x. \<bar>x\<bar> \<le> X" xs "exact_cascade c" "\<lambda>y. \<bar>y\<bar> \<le> Y", OF P0 xs step(2)] by simp
qed

lemma AllPassQMF_exact:
  assumes "list_all (\<lambda>x. \<bar>x\<bar> \<le> X0) xs"
    and "stage_gain 65536 2097152 65535 (c ! 0) X0 X1" "stage_gain 65536 2097152 65535 (c ! 1) X1 X2"
    "stage_gain 65536 2097152 65535 (c ! 2) X2 X3"
    and "X0 + X1 \<le> 2147483647" "X1 + X2 \<le> 2147483647" "X2 + X3 \<le> 2147483647"
    and "0 \<le> X0" "0 \<le> X1" "0 \<le> X2" "0 \<le> X3"
  shows "snd (WebRtcSpl_AllPassQMF xs c (replicate 6 0)) = exact_qmf c xs"
    and "list_all (\<lambda>y. \<bar>y\<bar> \<le> X3) (exact_qmf c xs)"
proof -
  have r: "replicate 6 (0 :: int) = [0, 0, 0, 0, 0, 0]" by (simp add: numeral_eq_Suc)
  note a = run_cascade_exact [OF assms(2,5) _ assms(8,9,1), simplified]
  note b = run_cascade_exact [OF assms(3,6) _ assms(9,10) a(2), simplified]
  note d = run_cascade_exact [OF assms(4,7) _ assms(10,11) b(2), simplified]
  show "snd (WebRtcSpl_AllPassQMF xs c (replicate 6 0)) = exact_qmf c xs"
    using a(1) b(1) d(1) by (simp add: WebRtcSpl_AllPassQMF_def exact_qmf_def split_def Let_def r)
  show "list_all (\<lambda>y. \<bar>y\<bar> \<le> X3) (exact_qmf c xs)" using d(2) by (simp add: exact_qmf_def)
qed

text \<open>The gains: an input of at most \<open>2 ^ 25\<close> or \<open>2 ^ 26\<close> through either filter.\<close>

lemma AllPassQMF_gains:
  shows "list_all (\<lambda>x. \<bar>x\<bar> \<le> 33554432) xs \<Longrightarrow>
      snd (WebRtcSpl_AllPassQMF xs WebRtcSpl_kAllPassFilter1 (replicate 6 0)) = exact_qmf WebRtcSpl_kAllPassFilter1 xs \<and>
      list_all (\<lambda>y. \<bar>y\<bar> \<le> 234670365) (exact_qmf WebRtcSpl_kAllPassFilter1 xs)"
    and "list_all (\<lambda>x. \<bar>x\<bar> \<le> 33554432) xs \<Longrightarrow>
      snd (WebRtcSpl_AllPassQMF xs WebRtcSpl_kAllPassFilter2 (replicate 6 0)) = exact_qmf WebRtcSpl_kAllPassFilter2 xs \<and>
      list_all (\<lambda>y. \<bar>y\<bar> \<le> 404374811) (exact_qmf WebRtcSpl_kAllPassFilter2 xs)"
    and "list_all (\<lambda>x. \<bar>x\<bar> \<le> 67108864) xs \<Longrightarrow>
      snd (WebRtcSpl_AllPassQMF xs WebRtcSpl_kAllPassFilter1 (replicate 6 0)) = exact_qmf WebRtcSpl_kAllPassFilter1 xs \<and>
      list_all (\<lambda>y. \<bar>y\<bar> \<le> 469340410) (exact_qmf WebRtcSpl_kAllPassFilter1 xs)"
    and "list_all (\<lambda>x. \<bar>x\<bar> \<le> 67108864) xs \<Longrightarrow>
      snd (WebRtcSpl_AllPassQMF xs WebRtcSpl_kAllPassFilter2 (replicate 6 0)) = exact_qmf WebRtcSpl_kAllPassFilter2 xs \<and>
      list_all (\<lambda>y. \<bar>y\<bar> \<le> 808749249) (exact_qmf WebRtcSpl_kAllPassFilter2 xs)"
  using AllPassQMF_exact [of 33554432 xs WebRtcSpl_kAllPassFilter1 40126497 85413338 234670365]
    AllPassQMF_exact [of 33554432 xs WebRtcSpl_kAllPassFilter2 55399457 138346517 404374811]
    AllPassQMF_exact [of 67108864 xs WebRtcSpl_kAllPassFilter1 80252961 170826572 469340410]
    AllPassQMF_exact [of 67108864 xs WebRtcSpl_kAllPassFilter2 110798881 276692918 808749249]
  by (simp_all add: stage_gain_def WebRtcSpl_kAllPassFilter1_def WebRtcSpl_kAllPassFilter2_def)

lemma shl32_10: "\<bar>x\<bar> \<le> 65536 \<Longrightarrow> shl32 x 10 = 1024 * x \<and> \<bar>1024 * x\<bar> \<le> 67108864"
  by (simp add: shl32_def i32_id in_i32_def abs_le_iff)

lemma band_round:
  assumes "\<bar>f1\<bar> \<le> 234670365" "\<bar>f2\<bar> \<le> 404374811"
  shows "WebRtcSpl_SatW32ToW16 (shr (i32 (f1 + f2 + 1024)) 11) = clamp (- 32768) 32767 ((f1 + f2 + 1024) div 2048)"
    and "WebRtcSpl_SatW32ToW16 (shr (i32 (f1 - f2 + 1024)) 11) = clamp (- 32768) 32767 ((f1 - f2 + 1024) div 2048)"
  using assms by (simp_all add: SatW32ToW16_clamp i32_id in_i32_def abs_le_iff shr_def)

lemma sample_round:
  assumes "\<bar>f\<bar> \<le> 808749249"
  shows "WebRtcSpl_SatW32ToW16 (shr (i32 (f + 512)) 10) = clamp (- 32768) 32767 ((f + 512) div 1024)"
  using assms by (simp add: SatW32ToW16_clamp i32_id in_i32_def abs_le_iff shr_def)

lemma map2_list_all_cong:
  assumes "list_all P xs" "list_all Q ys" "\<And>x y. P x \<Longrightarrow> Q y \<Longrightarrow> f x y = g x y"
  shows "map2 f xs ys = map2 g xs ys"
proof (rule map_cong [OF refl])
  fix z assume z: "z \<in> set (zip xs ys)"
  obtain x y where [simp]: "z = (x, y)" by (cases z)
  show "(case z of (x, y) \<Rightarrow> f x y) = (case z of (x, y) \<Rightarrow> g x y)"
    using assms set_zip_leftD [of x y xs ys] set_zip_rightD [of x y xs ys] z by (simp add: list_all_iff)
qed

lemma map2_list_all:
  assumes "list_all P xs" "list_all Q ys" "\<And>x y. P x \<Longrightarrow> Q y \<Longrightarrow> T (f x y)"
  shows "list_all T (map2 f xs ys)"
proof -
  have "T (f x y)" if "(x, y) \<in> set (zip xs ys)" for x y
    using assms set_zip_leftD [OF that] set_zip_rightD [OF that] by (simp add: list_all_iff)
  then show ?thesis by (auto simp: list_all_iff)
qed

lemma AnalysisQMF_exact:
  assumes "list_all in_i16 xs"
  shows "snd (WebRtcSpl_AnalysisQMF xs (replicate 6 0) (replicate 6 0)) = exact_analysis xs"
proof -
  have half: "map (\<lambda>x. shl32 x 10) ys = map (\<lambda>x. 1024 * x) ys"
    "list_all (\<lambda>x. \<bar>x\<bar> \<le> 33554432) (map (\<lambda>x. 1024 * x) ys)" if "list_all in_i16 ys" for ys
    using that shl32_10 by (force simp: list_all_iff in_i16_def abs_le_iff)+
  note od = half [OF list_all_evens(2) [OF assms]] and ev = half [OF list_all_evens(1) [OF assms]]
  note f1 = AllPassQMF_gains(1) [OF od(2)] and f2 = AllPassQMF_gains(2) [OF ev(2)]
  show ?thesis
    unfolding WebRtcSpl_AnalysisQMF_def exact_analysis_def Let_def
    by (simp only: od(1) ev(1) split_beta snd_conv conjunct1 [OF f1] conjunct1 [OF f2])
      (intro arg_cong2 [where f = Pair] map2_list_all_cong [OF conjunct2 [OF f1] conjunct2 [OF f2]] band_round)
qed

lemma SynthesisQMF_exact:
  assumes "list_all in_i16 low" "list_all in_i16 high"
  shows "snd (WebRtcSpl_SynthesisQMF low high (replicate 6 0) (replicate 6 0)) = exact_synthesis low high"
proof -
  have half: "map2 (\<lambda>l h. shl32 (l + h) 10) low high = map2 (\<lambda>l h. 1024 * (l + h)) low high"
    "map2 (\<lambda>l h. shl32 (l - h) 10) low high = map2 (\<lambda>l h. 1024 * (l - h)) low high"
    using shl32_10 by (intro map2_list_all_cong [OF assms]; force simp: in_i16_def abs_le_iff)+
  have "list_all (\<lambda>x. \<bar>x\<bar> \<le> 67108864) (map2 (\<lambda>l h. 1024 * (l + h)) low high)"
    "list_all (\<lambda>x. \<bar>x\<bar> \<le> 67108864) (map2 (\<lambda>l h. 1024 * (l - h)) low high)"
    by (rule map2_list_all [OF assms]; simp add: in_i16_def abs_le_iff)+
  note f1 = AllPassQMF_gains(4) [OF this(1)] and f2 = AllPassQMF_gains(3) [OF this(2)]
  have round: "map (\<lambda>f. WebRtcSpl_SatW32ToW16 (shr (i32 (f + 512)) 10)) fs = map (\<lambda>f. clamp (- 32768) 32767 ((f + 512) div 1024)) fs"
    if "list_all (\<lambda>y. \<bar>y\<bar> \<le> 808749249) fs" for fs
    using that by (auto simp: list_all_iff intro!: map_cong sample_round)
  have "list_all (\<lambda>y. \<bar>y\<bar> \<le> 808749249) (exact_qmf WebRtcSpl_kAllPassFilter1 (map2 (\<lambda>l h. 1024 * (l - h)) low high))"
    using f2 by (auto simp: list_all_iff)
  then show ?thesis
    using f1 f2 by (simp add: WebRtcSpl_SynthesisQMF_def exact_synthesis_def Let_def split_def half [unfolded split_def] round del: map_eq_conv)
qed

text \<open>C30: the band splitting filters are exact. From cleared filter states, the low and the high band
  that \<^const>\<open>WebRtcSpl_AnalysisQMF\<close> computes of any 16-bit signal, and the signal that \<^const>\<open>WebRtcSpl_SynthesisQMF\<close>
  joins of any two 16-bit bands, are those of the all-pass cascades over the integers: no subtraction saturates, no sum or shift
  leaves 32 bits, and the only limiting is that of the outputs to 16 bits.\<close>

theorem QMF_exact:
  assumes "list_all in_i16 xs" and "list_all in_i16 low" and "list_all in_i16 high"
  shows "snd (WebRtcSpl_AnalysisQMF xs (replicate 6 0) (replicate 6 0)) = exact_analysis xs \<and>
         snd (WebRtcSpl_SynthesisQMF low high (replicate 6 0) (replicate 6 0)) = exact_synthesis low high"
  using AnalysisQMF_exact SynthesisQMF_exact assms by blast

theorem QMF_exact_witness:
  "snd (WebRtcSpl_AnalysisQMF [32767, 32767, - 32768, 5] (replicate 6 0) (replicate 6 0)) = ([4630, 18430], [- 3048, - 90]) \<and>
   snd (WebRtcSpl_SynthesisQMF [100, - 7] [3, 32767] (replicate 6 0) (replicate 6 0)) = [5, 24, - 1528, 7758]"
proof -
  have "list_all in_i16 [32767, 32767, - 32768, 5]" "list_all in_i16 [100, - 7]" "list_all in_i16 [3, 32767]"
    by (simp_all add: in_i16_def)
  note QMF_exact [OF this]
  moreover have "exact_analysis [32767, 32767, - 32768, 5] = ([4630, 18430], [- 3048, - 90])"
    "exact_synthesis [100, - 7] [3, 32767] = [5, 24, - 1528, 7758]" by code_simp+
  ultimately show ?thesis by simp
qed

section \<open>The recursive filter and its state\<close>

text \<open>
  The reference: the outputs are appended to the histories \<open>h\<close> and \<open>hl\<close>, and the recursion looks back in
  them.
\<close>

definition ar_past :: "samples \<Rightarrow> samples \<Rightarrow> int" where
  "ar_past a h = sum_list (map (\<lambda>j. a ! j * h ! (length h - j)) [1..<length a])"

definition ar_step :: "samples \<Rightarrow> int \<Rightarrow> samples \<times> samples \<Rightarrow> samples \<times> samples" where
  "ar_step a x = (\<lambda>(h, hl).
     let o' = i32 (shl32 x 12 - ar_past a h + shr (i32 (- ar_past a hl)) 12);
         y = i16 (shr (i32 (o' + 2048)) 12)
     in (h @ [y], hl @ [i16 (i32 (o' - shl32 y 12))]))"

lemma ar_past_history:
  assumes "length a \<le> length st + 1"
  shows "sum_list (map (\<lambda>j. a ! j * out ! (length out - j)) [1..<(if length out < length a then length out + 1 else length a)])
       + sum_list (map (\<lambda>j. a ! j * st ! (length st - (j - length out))) [length out + 1..<length a])
       = ar_past a (st @ out)"
proof -
  have A: "map (\<lambda>j. a ! j * out ! (length out - j)) js = map (\<lambda>j. a ! j * (st @ out) ! (length (st @ out) - j)) js"
    if "set js \<subseteq> {1..length out}" for js
  proof (intro map_cong refl)
    fix j assume "j \<in> set js"
    then have "1 \<le> j" "j \<le> length out" using that by auto
    then have "length (st @ out) - j = length st + (length out - j)" by simp
    then show "a ! j * out ! (length out - j) = a ! j * (st @ out) ! (length (st @ out) - j)"
      by (simp only: nth_append_length_plus)
  qed
  have B: "map (\<lambda>j. a ! j * st ! (length st - (j - length out))) [length out + 1..<length a]
         = map (\<lambda>j. a ! j * (st @ out) ! (length (st @ out) - j)) [length out + 1..<length a]"
    using assms by (intro map_cong refl) (auto simp: nth_append intro!: arg_cong [where f = "(!) st"])
  show ?thesis
  proof (cases "length out < length a")
    case True
    then have "[1..<length a] = [1..<length out + 1] @ [length out + 1..<length a]"
      by (metis Suc_eq_plus1 Suc_leI le_add2 upt_add_eq_append le_add_diff_inverse)
    moreover have "set [1..<length out + 1] \<subseteq> {1..length out}" by auto
    ultimately show ?thesis unfolding ar_past_def using True by (simp only: A B if_True map_append sum_list_append)
  next
    case False
    then have "set [1..<length a] \<subseteq> {1..length out}" "[length out + 1..<length a] = []" by auto
    then show ?thesis unfolding ar_past_def using False by (simp only: A B if_False list.map sum_list.Nil add_0_right)
  qed
qed

lemma filter_ar_step_history:
  assumes "length a \<le> length s + 1" "length sl = length s" "length fl = length f"
  shows "filter_ar_step a s sl x (f, fl) = (f', fl') \<Longrightarrow>
           ar_step a x (s @ f, sl @ fl) = (s @ f', sl @ fl') \<and> length f' = Suc (length f) \<and> length fl' = length f'"
  using ar_past_history [of a s f] ar_past_history [of a sl fl] assms
  by (auto simp: filter_ar_step_def ar_step_def Let_def simp del: upt_Suc One_nat_def minus_add_distrib)

lemma fold_filter_ar_history:
  assumes "length a \<le> length s + 1" "length sl = length s" "length fl = length f"
  shows "fold (filter_ar_step a s sl) x (f, fl) = (f', fl') \<Longrightarrow>
           fold (ar_step a) x (s @ f, sl @ fl) = (s @ f', sl @ fl') \<and> length f' = length x + length f \<and> length fl' = length f'"
  using assms(3)
proof (induction x arbitrary: f fl)
  case (Cons x xs)
  obtain g gl where g: "filter_ar_step a s sl x (f, fl) = (g, gl)" by fastforce
  note h = filter_ar_step_history [OF assms(1,2) Cons.prems(2) g]
  then show ?case using Cons.IH [of g gl] Cons.prems(1) g by simp
qed simp

text \<open>The recursion looks back \<open>length a - 1\<close> outputs, no further.\<close>

lemma ar_past_suffix: "length a \<le> length h + 1 \<Longrightarrow> ar_past a (p @ h) = ar_past a h"
  unfolding ar_past_def by (intro arg_cong [where f = sum_list] map_cong refl) (auto simp: nth_append)

lemma fold_ar_suffix:
  assumes "length a \<le> length h + 1" "length a \<le> length hl + 1"
  shows "fold (ar_step a) x (h, hl) = (g, gl) \<Longrightarrow> fold (ar_step a) x (p @ h, pl @ hl) = (p @ g, pl @ gl)"
  using assms
proof (induction x arbitrary: h hl)
  case (Cons x xs)
  obtain y yl where y: "ar_step a x (h, hl) = (h @ [y], hl @ [yl])" by (simp add: ar_step_def Let_def)
  then have "ar_step a x (p @ h, pl @ hl) = (p @ h @ [y], pl @ hl @ [yl])"
    using Cons.prems(2,3) y by (auto simp: ar_step_def Let_def ar_past_suffix)
  then show ?case using Cons.IH [of "h @ [y]" "hl @ [yl]"] Cons.prems y by simp
qed simp

lemma FilterAR_history:
  assumes "length a \<le> length s + 1" "length sl = length s"
    and "fold (filter_ar_step a s sl) x ([], []) = (f, fl)"
  shows "fold (ar_step a) x (s, sl) = (s @ f, sl @ fl)" and "length f = length x" and "length fl = length x"
  using fold_filter_ar_history [OF assms(1,2) _ assms(3)] by simp_all

lemma filter_ar_state_long:
  assumes "length st = a_length - 1" "length st' = a_length - 1" "length st \<le> length f" "length fl = length f"
  shows "filter_ar_state a_length f fl st st' = (drop (length f - length st) f, drop (length f - length st) fl)"
  using assms by (simp add: filter_ar_state_def WebRtcSpl_CopyFromEndW16_def mem_copy_def mem_slice_def Let_def)

text \<open>Two calls whose first vector is at least as long as the state.\<close>

lemma FilterAR_append:
  assumes a: "a \<noteq> []" and s: "length s = length a - 1" "length sl = length a - 1" and x: "length s \<le> length x"
    and c1: "WebRtcSpl_FilterAR a x s sl = ((s', sl'), f, fl)"
    and c2: "WebRtcSpl_FilterAR a y s' sl' = ((s'', sl''), g, gl)"
  shows "snd (WebRtcSpl_FilterAR a (x @ y) s sl) = (f @ g, fl @ gl)"
proof -
  have l: "length a \<le> length s + 1" "length sl = length s" using a s by (simp_all add: Suc_leI)
  have f: "fold (filter_ar_step a s sl) x ([], []) = (f, fl)"
    using c1 by (auto simp: WebRtcSpl_FilterAR_def Let_def split: prod.splits)
  note h = FilterAR_history [OF l f]
  have s': "s' = drop (length f - length s) f" "sl' = drop (length f - length s) fl"
    using c1 f filter_ar_state_long [of s "length a" sl f fl] s h x by (auto simp: WebRtcSpl_FilterAR_def Let_def)
  then have l': "length a \<le> length s' + 1" "length sl' = length s'" using l h x by simp_all
  have g: "fold (filter_ar_step a s' sl') y ([], []) = (g, gl)"
    using c2 by (auto simp: WebRtcSpl_FilterAR_def Let_def split: prod.splits)
  note k = FilterAR_history [OF l' g]
  define n where "n = length f - length s"
  have split: "(s @ take n f) @ s' = s @ f" "(sl @ take n fl) @ sl' = sl @ fl" by (simp_all add: s' n_def)
  obtain F Fl where F: "fold (filter_ar_step a s sl) (x @ y) ([], []) = (F, Fl)" by fastforce
  have "(s @ F, sl @ Fl) = fold (ar_step a) y (s @ f, sl @ fl)"
    using FilterAR_history(1) [OF l F] h(1) by simp
  also have "\<dots> = ((s @ take n f) @ s' @ g, (sl @ take n fl) @ sl' @ gl)"
    using fold_ar_suffix [OF _ _ k(1), of "s @ take n f" "sl @ take n fl"] l' split by simp
  also have "\<dots> = (s @ f @ g, sl @ fl @ gl)" using split by (simp add: append_assoc [symmetric] del: append_assoc)
  finally show ?thesis using F by (simp add: WebRtcSpl_FilterAR_def)
qed

text \<open>Saving the state of a vector shorter than it.\<close>

lemma fold_shift:
  "m + k \<le> length s \<Longrightarrow> fold (\<lambda>i s. s[i := s ! (i + k)]) [0..<m] s = take m (drop k s) @ drop m s"
proof (induction m)
  case (Suc m)
  have "drop m s = s ! m # drop (Suc m) s" using Suc.prems by (simp add: Cons_nth_drop_Suc)
  moreover have "(s ! m # drop (Suc m) s) ! k = s ! (k + m)" using Suc.prems calculation by (metis add.commute add_leD1 nth_drop Suc_leD add_Suc)
  ultimately show ?case using Suc by (simp add: take_Suc_conv_app_nth nth_append list_update_append)
qed simp

lemma fold_store:
  "p + m \<le> length s \<Longrightarrow> m \<le> length v \<Longrightarrow>
     fold (\<lambda>i s. (s[p + i := u i])[p + i := v ! i]) [0..<m] s = take p s @ take m v @ drop (p + m) s"
proof (induction m)
  case (Suc m)
  have "drop (p + m) s = s ! (p + m) # drop (Suc (p + m)) s" using Suc.prems by (simp add: Cons_nth_drop_Suc)
  then show ?case using Suc by (simp add: take_Suc_conv_app_nth list_update_append min_def)
qed simp

lemma fold_pair: "fold (\<lambda>i (s, t). (f i s, g i t)) xs (s, t) = (fold f xs s, fold g xs t)"
  by (induction xs arbitrary: s t) auto

lemma filter_ar_state_short:
  assumes "length st' = length st" "length f < length st" "length fl = length f"
  shows "filter_ar_state a_length f fl st st' = (drop (length f) st @ fl, drop (length f) st' @ drop (length st - length f) st')"
  using assms fold_shift [of "length st - length f" "length f" st] fold_shift [of "length st - length f" "length f" st']
    fold_store [of "length st - length f" "length f" "drop (length f) st @ drop (length st - length f) st" fl "\<lambda>i. f ! i"]
  by (simp add: filter_ar_state_def Let_def fold_pair)

text \<open>C31: the recursive filter \<^const>\<open>WebRtcSpl_FilterAR\<close> carries its state from call to call when a call has at
  least as many samples as the state has entries: filtering \<open>x\<close> and then \<open>y\<close> gives what one call on \<open>x @ y\<close> gives. After a
  shorter call the state is another one: \<open>state\<close> ends with the low parts of the outputs, where the
  outputs belong, and \<open>state_low\<close> still ends with what it held before the call.\<close>

theorem FilterAR_state:
  assumes "a \<noteq> []" and "length s = length a - 1" and "length sl = length a - 1"
    and "WebRtcSpl_FilterAR a x s sl = ((s', sl'), f, fl)"
  shows "(length s \<le> length x \<longrightarrow>
            snd (WebRtcSpl_FilterAR a (x @ y) s sl)
              = (f @ fst (snd (WebRtcSpl_FilterAR a y s' sl')), fl @ snd (snd (WebRtcSpl_FilterAR a y s' sl')))) \<and>
         (length x < length s \<longrightarrow>
            s' = drop (length x) s @ fl \<and> sl' = drop (length x) sl @ drop (length s - length x) sl)"
proof (intro conjI impI)
  assume "length s \<le> length x"
  then show "snd (WebRtcSpl_FilterAR a (x @ y) s sl)
      = (f @ fst (snd (WebRtcSpl_FilterAR a y s' sl')), fl @ snd (snd (WebRtcSpl_FilterAR a y s' sl')))"
    by (intro FilterAR_append [OF assms(1-3) _ assms(4)]) (simp_all add: prod_eq_iff)
next
  assume short: "length x < length s"
  have "fold (filter_ar_step a s sl) x ([], []) = (f, fl)"
    and st: "filter_ar_state (length a) f fl s sl = (s', sl')"
    using assms(4) by (auto simp: WebRtcSpl_FilterAR_def Let_def split: prod.splits)
  then have "length f = length x" "length fl = length x"
    using FilterAR_history(2,3) [of a s sl x f fl] assms(1-3) by (simp_all add: Suc_leI)
  then show "s' = drop (length x) s @ fl" "sl' = drop (length x) sl @ drop (length s - length x) sl"
    using filter_ar_state_short [of sl s f fl "length a"] st short assms(2,3) by simp_all
qed

theorem FilterAR_state_witness:
  "WebRtcSpl_FilterAR [4096, 1000, - 2000] [300, - 7] [5, 6] [1, 2] = (([301, - 78], [- 96, 1840]), [301, - 78], [- 96, 1840]) \<and>
   snd (WebRtcSpl_FilterAR [4096, 1000, - 2000] ([300, - 7] @ [40]) [5, 6] [1, 2]) = ([301, - 78] @ [206], [- 96, 1840] @ [- 433]) \<and>
   fst (WebRtcSpl_FilterAR [4096, 1000, - 2000] [300] [5, 6] [1, 2]) = ([6, - 96], [2, 2])"
proof -
  have a: "WebRtcSpl_FilterAR [4096, 1000, - 2000] [300, - 7] [5, 6] [1, 2] = (([301, - 78], [- 96, 1840]), [301, - 78], [- 96, 1840])"
    by code_simp
  have b: "WebRtcSpl_FilterAR [4096, 1000, - 2000] [300] [5, 6] [1, 2] = (([6, - 96], [2, 2]), [301], [- 96])" by code_simp
  have "snd (WebRtcSpl_FilterAR [4096, 1000, - 2000] [40] [301, - 78] [- 96, 1840]) = ([206], [- 433])" by code_simp
  then show ?thesis
    using FilterAR_state [OF _ _ _ a, of "[40]"] FilterAR_state [OF _ _ _ b, of "[]"] a b by simp
qed

section \<open>The Hanning window\<close>

text \<open>The entry the loop reads in round \<open>i\<close>.\<close>

definition hanning_value :: "int \<Rightarrow> int \<Rightarrow> nat \<Rightarrow> int" where
  "hanning_value index factor i = kHanningTable ! nat ((index + (int i + 1) * factor) div 4194304)"

lemma length_kHanningTable: "length kHanningTable = 256"
  by (simp add: kHanningTable_def)

lemma sorted_kHanningTable: "sorted kHanningTable"
  by (simp add: kHanningTable_def sorted2_simps del: sorted_wrt.simps)

lemma hanning_loop_value:
  assumes "0 \<le> factor"
  shows "0 \<le> index + factor \<Longrightarrow> index + int n * factor < 1073741824 \<Longrightarrow>
           hanning_loop n index factor = Some (map (hanning_value index factor) [0..<n])"
proof (induction n arbitrary: index)
  case (Suc n)
  have le: "0 \<le> int n * factor" using assms by simp
  have now: "index + factor < 1073741824" using Suc.prems le by (simp add: algebra_simps)
  have "i32 (index + factor) = index + factor" using Suc.prems now by (intro i32_id) (simp add: in_i32_def)
  moreover have "hanning_entry (shr (index + factor) 22) = Some (hanning_value index factor 0)"
    using Suc.prems now by (simp add: hanning_entry_def hanning_value_def shr_def pos_imp_zdiv_nonneg_iff)
  moreover have "hanning_value (index + factor) factor = (\<lambda>i. hanning_value index factor (Suc i))"
    by (simp add: fun_eq_iff hanning_value_def algebra_simps)
  then have "hanning_loop n (index + factor) factor = Some (map (\<lambda>i. hanning_value index factor (Suc i)) [0..<n])"
    using Suc.IH [of "index + factor"] Suc.prems assms by (simp add: algebra_simps)
  ultimately show ?case by (simp add: Let_def map_upt_Suc del: upt_Suc)
qed simp

lemma sorted_hanning_values:
  assumes "0 \<le> factor" "0 \<le> index + factor" "index + int n * factor < 1073741824"
  shows "sorted (map (hanning_value index factor) [0..<n])"
proof (rule sorted_iff_nth_mono [THEN iffD2], intro allI impI)
  fix i j assume ij: "i \<le> j" "j < length (map (hanning_value index factor) [0..<n])"
  have "(int i + 1) * factor \<le> (int j + 1) * factor" "(int j + 1) * factor \<le> int n * factor"
    using ij assms(1) by (auto intro!: mult_right_mono)
  moreover have "factor \<le> (int i + 1) * factor" using assms(1) by (simp add: algebra_simps)
  ultimately have "nat ((index + (int i + 1) * factor) div 4194304) \<le> nat ((index + (int j + 1) * factor) div 4194304)"
    "nat ((index + (int j + 1) * factor) div 4194304) < 256"
    using assms by (auto intro!: nat_mono zdiv_mono1 simp: nat_less_iff pos_imp_zdiv_nonneg_iff)
  then show "map (hanning_value index factor) [0..<n] ! i \<le> map (hanning_value index factor) [0..<n] ! j"
    using ij sorted_nth_mono [OF sorted_kHanningTable] by (simp add: hanning_value_def length_kHanningTable)
qed

lemma hanning_factor:
  assumes "1 \<le> n" "n \<le> 32767"
  shows "WebRtcSpl_DivW32W16 0x40000000 (i16 (int n)) = 1073741824 div int n"
    and "int n * (1073741824 div int n) \<le> 1073741824"
proof -
  have n: "i16 (int n) = int n" using assms by (intro i16_id) (simp add: in_i16_def)
  have "1073741824 div int n \<le> 1073741824 div 1" using assms by (intro zdiv_mono2) auto
  moreover have "0 \<le> 1073741824 div int n" using assms by (simp add: pos_imp_zdiv_nonneg_iff)
  ultimately have "in_i32 (1073741824 div int n)" by (simp add: in_i32_def)
  then show "WebRtcSpl_DivW32W16 0x40000000 (i16 (int n)) = 1073741824 div int n"
    using assms by (simp add: WebRtcSpl_DivW32W16_def n i32_id signed_divide_int_def)
  show "int n * (1073741824 div int n) \<le> 1073741824" 
    using assms mult_div_mod_eq [of "int n" 1073741824] pos_mod_sign [of "int n" 1073741824] by linarith
qed

text \<open>What \<^const>\<open>WebRtcSpl_GetHanningWindow\<close> writes for a size of 1 to 1024 is read from the table at the
  indices \<open>(index + (i + 1) * factor) >> 22\<close>, all inside it, and rises monotonically; for a size of 1025 to 32767
  the loop reads before the start of the table.\<close>

theorem GetHanningWindow_range:
  assumes "1 \<le> n" and "n \<le> 32767"
  shows "(n \<le> 1024 \<longrightarrow> (\<exists>w. WebRtcSpl_GetHanningWindow n = Some w \<and> length w = n \<and> sorted w \<and>
            w = map (hanning_value (if n < 513 then - 2097152 else - 1048576) (1073741824 div int n)) [0..<n])) \<and>
         (1024 < n \<longrightarrow> WebRtcSpl_GetHanningWindow n = None)"
proof (intro conjI impI)
  define factor where "factor = 1073741824 div int n"
  define index where "index = (if n < 513 then - 2097152 else - 1048576 :: int)"
  note f = hanning_factor [OF assms, folded factor_def]
  have loop: "WebRtcSpl_GetHanningWindow n = hanning_loop n index factor"
    by (simp add: WebRtcSpl_GetHanningWindow_def f index_def Let_def)
  {
    assume n: "n \<le> 1024"
    have "1073741824 div int 1024 \<le> factor" unfolding factor_def using n assms by (intro zdiv_mono2) auto
    moreover have "1073741824 div int 512 \<le> factor" if "n < 513" unfolding factor_def using that assms by (intro zdiv_mono2) auto
    ultimately have "0 \<le> factor" "0 \<le> index + factor" "index + int n * factor < 1073741824"
      using f(2) by (auto simp: index_def)
    then show "\<exists>w. WebRtcSpl_GetHanningWindow n = Some w \<and> length w = n \<and> sorted w \<and>
        w = map (hanning_value (if n < 513 then - 2097152 else - 1048576) (1073741824 div int n)) [0..<n]"
      using hanning_loop_value sorted_hanning_values loop by (simp add: factor_def index_def)
  }
  assume n: "1024 < n"
  have "factor \<le> 1073741824 div 1025" unfolding factor_def using n by (intro zdiv_mono2) auto
  moreover have "0 \<le> factor" using assms by (simp add: factor_def pos_imp_zdiv_nonneg_iff)
  moreover obtain m where "n = Suc m" using assms by (cases n) auto
  ultimately show "WebRtcSpl_GetHanningWindow n = None"
    using n unfolding loop
    by (simp add: index_def i32_id in_i32_def hanning_entry_def shr_def pos_imp_zdiv_nonneg_iff Let_def)
qed

theorem GetHanningWindow_range_witness:
  "WebRtcSpl_GetHanningWindow 4 = Some [2399, 8192, 13985, 16384] \<and> WebRtcSpl_GetHanningWindow 1025 = None"
proof -
  have "map (hanning_value (- 2097152) (1073741824 div int 4)) [0..<4] = [2399, 8192, 13985, 16384]" by code_simp
  then show ?thesis using GetHanningWindow_range [of 4] GetHanningWindow_range [of 1025] by simp
qed

section \<open>Reflection coefficients\<close>

lemma divide_bits_room:
  assumes "0 \<le> K" "(K + 1) * 2 ^ Suc n \<le> (32768 :: int)"
  shows "2 * K + 1 \<le> 32767"
proof -
  define M where "M = (K + 1) * 2 ^ n"
  have "(K + 1) * 1 \<le> M" unfolding M_def using assms(1) by (intro mult_left_mono) auto
  moreover have "2 * M \<le> 32768" using assms(2) by (simp add: M_def)
  ultimately show ?thesis by simp
qed

lemma divide_bits_less:
  assumes "0 < D" "D \<le> 32767"
  shows "0 \<le> N \<Longrightarrow> N < D \<Longrightarrow> 0 \<le> K \<Longrightarrow> (K + 1) * 2 ^ n \<le> 32768 \<Longrightarrow>
           divide_bits n N D K = K * 2 ^ n + N * 2 ^ n div D"
proof (induction n arbitrary: N K)
  case (Suc n)
  note K = divide_bits_room [OF Suc.prems(3,4)]
  have sh: "shl32 K 1 = 2 * K" "shl32 N 1 = 2 * N" "i16 (2 * K) = 2 * K" "i16 (2 * K + 1) = 2 * K + 1" "i32 (2 * N - D) = 2 * N - D"
    using Suc.prems K assms by (simp_all add: shl32_def i32_id i16_id in_i32_def in_i16_def)
  show ?case
  proof (cases "2 * N \<ge> D")
    case True
    have "divide_bits (Suc n) N D K = (2 * K + 1) * 2 ^ n + (2 * N - D) * 2 ^ n div D"
      using Suc.IH [of "2 * N - D" "2 * K + 1"] Suc.prems True
      by (simp only: divide_bits.simps sh Let_def if_True) (simp add: algebra_simps)
    also have "(2 * N - D) * 2 ^ n div D = N * 2 ^ Suc n div D - 2 ^ n"
      using div_mult_self1 [of D "N * 2 ^ Suc n" "- (2 ^ n)"] assms by (simp add: algebra_simps)
    finally show ?thesis by (simp add: algebra_simps)
  next
    case False
    have "(2 * K + 1) * 2 ^ n \<le> (2 * K + 2) * 2 ^ n" by (intro mult_right_mono) auto
    also have "\<dots> = (K + 1) * 2 ^ Suc n" by (simp add: algebra_simps)
    also have "\<dots> \<le> 32768" by (rule Suc.prems(4))
    finally have "(2 * K + 1) * 2 ^ n \<le> 32768" .
    then have "divide_bits n (2 * N) D (2 * K) = 2 * K * 2 ^ n + 2 * N * 2 ^ n div D"
      using Suc.IH [of "2 * N" "2 * K"] Suc.prems False by simp
    then show ?thesis using sh False by (simp add: Let_def mult.assoc mult.left_commute)
  qed
qed simp

lemma divide_bits_equal:
  assumes "0 < D" "D \<le> 32767"
  shows "0 \<le> K \<Longrightarrow> (K + 1) * 2 ^ n \<le> 32768 \<Longrightarrow> divide_bits n D D K = (K + 1) * 2 ^ n - 1"
proof (induction n arbitrary: K)
  case (Suc n)
  note K = divide_bits_room [OF Suc.prems]
  have "shl32 K 1 = 2 * K" "shl32 D 1 = 2 * D" "i16 (2 * K) = 2 * K" "i16 (2 * K + 1) = 2 * K + 1" "i32 (2 * D - D) = D"
    using Suc.prems K assms by (simp_all add: shl32_def i32_id i16_id in_i32_def in_i16_def)
  then show ?case using Suc.IH [of "2 * K + 1"] Suc.prems assms by (simp add: Let_def algebra_simps)
qed simp

text \<open>A negative numerator, which \<open>WEBRTC_SPL_ABS_W16\<close> leaves of \<open>- 32768\<close>, gives no bit.\<close>

lemma divide_bits_negative:
  assumes "- 32768 \<le> D"
  shows "N \<le> - 32768 \<Longrightarrow> - 1073741824 \<le> N * 2 ^ n \<Longrightarrow> divide_bits n N D 0 = 0"
proof (induction n arbitrary: N)
  case (Suc n)
  have "2 * N * 2 ^ n \<le> 2 * N * 1" using Suc.prems by (intro mult_left_mono_neg) auto
  then have "- 1073741824 \<le> 2 * N" using Suc.prems(2) by (simp add: mult.assoc mult.left_commute)
  then have "shl32 N 1 = 2 * N" "\<not> D \<le> 2 * N"
    using Suc.prems assms by (simp_all add: shl32_def i32_id in_i32_def)
  then show ?case using Suc.IH [of "2 * N"] Suc.prems by (simp add: Let_def algebra_simps shl32_def i16_id in_i16_def i32_id in_i32_def)
qed simp

lemma reflection_value:
  assumes "0 < P0" "P0 \<le> 32767" "\<bar>p1\<bar> \<le> P0"
  shows "reflection P0 p1 = - sgn p1 * min 32767 (\<bar>p1\<bar> * 32768 div P0)"
proof (cases "p1 = 0")
  case False
  have t: "i16 (WEBRTC_SPL_ABS_W16 p1) = \<bar>p1\<bar>"
    using assms i16_id [of p1] i16_id [of "- p1"] by (simp add: WEBRTC_SPL_ABS_W16_def in_i16_def abs_le_iff)
  have d: "divide_bits 15 \<bar>p1\<bar> P0 0 = min 32767 (\<bar>p1\<bar> * 32768 div P0)"
  proof (cases "\<bar>p1\<bar> = P0")
    case True
    then show ?thesis using divide_bits_equal [of P0 0 15] assms by simp
  next
    case lt: False
    have "\<not> 32768 \<le> \<bar>p1\<bar> * 32768 div P0"
    proof
      assume "32768 \<le> \<bar>p1\<bar> * 32768 div P0"
      then have "32768 * P0 \<le> \<bar>p1\<bar> * 32768 div P0 * P0" using assms by (intro mult_right_mono) auto
      also have "\<dots> \<le> \<bar>p1\<bar> * 32768"
        using div_mult_mod_eq [of "\<bar>p1\<bar> * 32768" P0] pos_mod_sign [of P0 "\<bar>p1\<bar> * 32768"] assms by linarith
      finally show False using lt assms by simp
    qed
    then show ?thesis using divide_bits_less [of P0 "\<bar>p1\<bar>" 0 15] assms lt by simp
  qed
  have "0 \<le> \<bar>p1\<bar> * 32768 div P0" using assms by (simp add: pos_imp_zdiv_nonneg_iff)
  then have "i16 (- min 32767 (\<bar>p1\<bar> * 32768 div P0)) = - min 32767 (\<bar>p1\<bar> * 32768 div P0)"
    by (intro i16_id) (auto simp: in_i16_def)
  then show ?thesis using False t d by (auto simp: reflection_def Let_def sgn_if)
qed (simp add: reflection_def WEBRTC_SPL_ABS_W16_def i16_id in_i16_def)

lemma reflection_min: "- 32768 \<le> P0 \<Longrightarrow> reflection P0 (- 32768) = 0"
  using divide_bits_negative [of P0 "- 32768" 15]
  by (simp add: reflection_def WEBRTC_SPL_ABS_W16_def i16_def)

text \<open>The vectors hold 16-bit values throughout the recursion, and keep their length.\<close>

definition schur_ok :: "nat \<Rightarrow> int list \<times> int list \<Rightarrow> bool" where
  "schur_ok n PW \<longleftrightarrow> length (fst PW) = n \<and> list_all in_i16 (fst PW) \<and> list_all in_i16 (snd PW)"

lemma AddSatW16_range: "in_i16 (WebRtcSpl_AddSatW16 a b)"
  by (simp add: WebRtcSpl_AddSatW16_def)

lemma schur_ok_recursion:
  assumes "schur_ok n PW"
  shows "schur_ok n (schur_recursion K len PW)"
proof -
  define step where "step i = (\<lambda>(P, W). let P = P[i := WebRtcSpl_AddSatW16 (P ! (i + 1)) (schur_round (W ! i) K)];
      W = W[i := WebRtcSpl_AddSatW16 (W ! i) (schur_round (P ! (i + 1)) K)] in (P, W))" for i
  have one: "schur_ok n (step i PW)" if "schur_ok n PW" for i PW
    using that by (simp add: schur_ok_def step_def split_def Let_def list_all_update AddSatW16_range)
  have "schur_ok n (fold step is PW)" if "schur_ok n PW" for "is" PW
    using that by (induction "is" arbitrary: PW) (simp_all add: one)
  moreover have "schur_recursion K len PW = fold step [1..<len + 1]
      ((fst PW)[0 := WebRtcSpl_AddSatW16 (fst PW ! 0) (schur_round (fst PW ! 1) K)], snd PW)"
    unfolding schur_recursion_def step_def by (simp add: Let_def split_def)
  ultimately show ?thesis using assms by (simp add: schur_ok_def list_all_update AddSatW16_range)
qed

lemma reflection_range:
  assumes "in_i16 P0" "in_i16 p1" "\<not> P0 < i16 (WEBRTC_SPL_ABS_W16 p1)"
  shows "\<bar>reflection P0 p1\<bar> \<le> 32767"
proof (cases "p1 = - 32768 \<or> p1 = 0")
  case True
  then show ?thesis using reflection_min [of P0] assms
    by (auto simp: in_i16_def reflection_def WEBRTC_SPL_ABS_W16_def i16_id)
next
  case False
  then have p: "- 32767 \<le> p1" "p1 \<le> 32767" using assms by (auto simp: in_i16_def)
  then have "i16 (WEBRTC_SPL_ABS_W16 p1) = \<bar>p1\<bar>"
    using i16_id [of p1] i16_id [of "- p1"] by (simp add: WEBRTC_SPL_ABS_W16_def in_i16_def)
  then have "\<bar>p1\<bar> \<le> P0" "0 < P0" "P0 \<le> 32767" using False assms by (auto simp: in_i16_def)
  note reflection_value [OF this(2,3,1)]
  moreover have "0 \<le> \<bar>p1\<bar> * 32768 div P0" using \<open>0 < P0\<close> by (simp add: pos_imp_zdiv_nonneg_iff)
  ultimately show ?thesis by (simp add: sgn_if abs_mult)
qed

lemma refl_loop_range:
  "schur_ok n PW \<Longrightarrow> 2 \<le> n \<Longrightarrow> length (refl_loop m PW) = m \<and> list_all (\<lambda>K. \<bar>K\<bar> \<le> 32767) (refl_loop m PW)"
proof (induction m arbitrary: PW)
  case (Suc m)
  have "in_i16 (fst PW ! 0)" "in_i16 (fst PW ! 1)" using Suc.prems by (auto simp: schur_ok_def list_all_length)
  note r = reflection_range [OF this]
  show ?case using r Suc.IH [OF schur_ok_recursion] Suc.prems
    by (cases PW) (simp add: Let_def list_all_iff del: One_nat_def)
qed simp

text \<open>C32: \<^const>\<open>WebRtcSpl_AutoCorrToReflCoef\<close> returns \<open>use_order\<close> coefficients of magnitude at most 32767. With the autocorrelation
  shifted left by the norm of \<open>R[0]\<close> and read in its upper half, the first one is minus the quotient of
  lag one and lag zero in Q15, truncated and limited to 32767, as long as the two are in range; when the upper half of a
  negative lag one, rounded down, exceeds that of lag zero in magnitude, it is zero.\<close>

theorem AutoCorrToReflCoef_first:
  assumes "1 \<le> use_order" and "0 < R ! 0" and "\<bar>R ! 1\<bar> \<le> R ! 0" and "R ! 0 \<le> 2147483647"
    and "n = WebRtcSpl_NormW32 (R ! 0)" and "P0 = (R ! 0 * 2 ^ nat n) div 65536" and "P1 = (R ! 1 * 2 ^ nat n) div 65536"
  shows "length (WebRtcSpl_AutoCorrToReflCoef R use_order) = use_order \<and>
         list_all (\<lambda>K. \<bar>K\<bar> \<le> 32767) (WebRtcSpl_AutoCorrToReflCoef R use_order) \<and>
         (- P0 \<le> P1 \<longrightarrow> WebRtcSpl_AutoCorrToReflCoef R use_order ! 0 = - sgn P1 * min 32767 (\<bar>P1\<bar> * 32768 div P0)) \<and>
         (P1 < - P0 \<longrightarrow> WebRtcSpl_AutoCorrToReflCoef R use_order ! 0 = 0)"
proof -
  define M where "M = R ! 0 * 2 ^ nat n"
  define N where "N = R ! 1 * 2 ^ nat n"
  have "0 < M" using assms(2) by (simp add: M_def)
  then have "M \<le> 2147483647" "2147483647 < 2 * M"
    using nw32.norm_fits [of "R ! 0"] nw32.norm_full [of "R ! 0"] assms(2,4)
    unfolding assms(5) [symmetric] power_Suc mult.left_commute [of "R ! 0" 2] M_def [symmetric] by auto
  moreover have "\<bar>N\<bar> \<le> M" using assms(3) by (auto simp: M_def N_def abs_mult intro!: mult_right_mono)
  ultimately have r: "16384 \<le> P0" "P0 \<le> 32767" "- 32768 \<le> P1" "P1 \<le> P0"
    unfolding assms(6,7) M_def [symmetric] N_def [symmetric] by (auto intro: zdiv_mono1)
  define ACF where "ACF = map (\<lambda>i. i16 (shr (shl32 (R ! i) n) 16)) [0..<use_order + 1]"
  have "shl32 (R ! 0) n = M" "shl32 (R ! 1) n = N"
    using \<open>M \<le> 2147483647\<close> \<open>\<bar>N\<bar> \<le> M\<close> unfolding shl32_def M_def [symmetric] N_def [symmetric]
    by (simp_all add: i32_id in_i32_def abs_le_iff)
  then have a: "ACF ! 0 = P0" "ACF ! 1 = P1"
    using r assms(1) unfolding ACF_def assms(6,7) M_def [symmetric] N_def [symmetric]
    by (simp_all add: shr_def i16_id in_i16_def del: upt_Suc One_nat_def)
  have ok: "schur_ok (use_order + 1) (ACF, ACF[0 := 0])"
    by (auto simp: schur_ok_def ACF_def list_all_iff in_i16_def [of 0] dest!: set_update_subset_insert [THEN subsetD])
  have K: "WebRtcSpl_AutoCorrToReflCoef R use_order = refl_loop use_order (ACF, ACF[0 := 0])"
    by (simp add: WebRtcSpl_AutoCorrToReflCoef_def ACF_def assms(5) Let_def del: upt_Suc)
  obtain m where m: "use_order = Suc m" using assms(1) by (cases use_order) auto
  have first: "WebRtcSpl_AutoCorrToReflCoef R use_order ! 0
      = (if P0 < i16 (WEBRTC_SPL_ABS_W16 P1) then 0 else reflection P0 P1)"
    unfolding K unfolding m by (simp add: a Let_def del: One_nat_def)
  have "- P0 \<le> P1 \<Longrightarrow> WebRtcSpl_AutoCorrToReflCoef R use_order ! 0 = - sgn P1 * min 32767 (\<bar>P1\<bar> * 32768 div P0)"
    using first r reflection_value [of P0 P1] i16_id [of P1] i16_id [of "- P1"]
    by (simp add: WEBRTC_SPL_ABS_W16_def in_i16_def abs_le_iff)
  moreover have "WebRtcSpl_AutoCorrToReflCoef R use_order ! 0 = 0" if "P1 < - P0"
  proof (cases "P1 = - 32768")
    case True
    then show ?thesis using first reflection_min [of P0] r by simp
  next
    case False
    then have "i16 (WEBRTC_SPL_ABS_W16 P1) = - P1"
      using that r i16_id [of P1] i16_id [of "- P1"] by (simp add: WEBRTC_SPL_ABS_W16_def in_i16_def)
    then show ?thesis using first that by simp
  qed
  ultimately show ?thesis using refl_loop_range [OF ok, of use_order] assms(1) by (simp add: K)
qed

theorem AutoCorrToReflCoef_first_witness:
  "WebRtcSpl_AutoCorrToReflCoef [1000, 600, - 100] 2 ! 0 = - 19660 \<and>
   WebRtcSpl_AutoCorrToReflCoef [2147483647, - 2147483647] 1 ! 0 = 0"
proof -
  have n: "WebRtcSpl_NormW32 1000 = 21" "WebRtcSpl_NormW32 2147483647 = 0" by code_simp+
  show ?thesis
    using AutoCorrToReflCoef_first [of 2 "[1000, 600, - 100]", OF _ _ _ _ refl refl refl]
      AutoCorrToReflCoef_first [of 1 "[2147483647, - 2147483647]", OF _ _ _ _ refl refl refl]
    by (simp add: n)
qed

section \<open>The stability test of the Levinson-Durbin recursion\<close>

lemma refl_normalize_alpha [simp]: "refl_coef (normalize_alpha t e l) = refl_coef l"
  by (simp add: normalize_alpha_def Let_def)

lemma refl_levinson_update [simp]: "refl_coef (levinson_update i t l) = refl_coef l"
  by (simp add: levinson_update_def Let_def split_def)

lemma length_refl_levinson_first [simp]: "length (refl_coef (levinson_first R_hi R_low order K)) = length K"
  by (simp add: levinson_first_def Let_def split_def)

lemma abs_K_hi: "\<bar>fst (hi_low t)\<bar> = WEBRTC_SPL_ABS_W16 (fst (hi_low t))"
  using i16_id [of "fst (hi_low t)"] in_i16_i16 [of "shr t 16"]
  by (simp add: WEBRTC_SPL_ABS_W16_def hi_low_def Let_def)

text \<open>A loop that reaches its end has stored, for every order it went through, a coefficient that passed the test.\<close>

lemma levinson_loop_stable:
  assumes "levinson_loop R_hi R_low is l = (True, l')" "distinct is" "\<forall>i\<in>set is. 1 \<le> i \<and> i \<le> length (refl_coef l)"
  shows "(\<forall>i\<in>set is. \<bar>refl_coef l' ! (i - 1)\<bar> \<le> 32750) \<and> length (refl_coef l') = length (refl_coef l) \<and>
         (\<forall>j. j + 1 \<notin> set is \<longrightarrow> refl_coef l' ! j = refl_coef l ! j)"
  using assms
proof (induction "is" arbitrary: l)
  case (Cons i "is")
  define t where "t = levinson_reflection R_hi R_low i l"
  define k where "k = l\<lparr>refl_coef := (refl_coef l)[i - 1 := fst (hi_low t)]\<rparr>"
  have t: "\<not> WEBRTC_SPL_ABS_W16 (fst (hi_low t)) > 32750"
    and rest: "levinson_loop R_hi R_low is (levinson_update i t k) = (True, l')"
    using Cons.prems(1) by (auto simp: t_def k_def Let_def split: if_splits)
  have k: "refl_coef k = (refl_coef l)[i - 1 := fst (hi_low t)]" by (simp add: k_def)
  have IH: "(\<forall>i\<in>set is. \<bar>refl_coef l' ! (i - 1)\<bar> \<le> 32750) \<and> length (refl_coef l') = length (refl_coef l) \<and>
      (\<forall>j. j + 1 \<notin> set is \<longrightarrow> refl_coef l' ! j = refl_coef k ! j)"
    using Cons.IH [OF rest] Cons.prems(2,3) by (simp add: k)
  have i: "1 \<le> i" "i \<le> length (refl_coef l)" "i \<notin> set is" using Cons.prems(2,3) by auto
  then have "refl_coef l' ! (i - 1) = fst (hi_low t)" using IH k by (simp add: nth_list_update)
  then have "\<bar>refl_coef l' ! (i - 1)\<bar> \<le> 32750" using t abs_K_hi [of t] by simp
  moreover have "refl_coef k ! j = refl_coef l ! j" if "j + 1 \<noteq> i" for j using that i by (auto simp: k nth_list_update_neq)
  ultimately show ?case using IH by auto
qed simp

lemma fold_update_0:
  assumes "0 \<notin> set is"
  shows "fold (\<lambda>i A. A[i := f i]) is A ! 0 = (A ! 0 :: int)"
  using assms by (induction "is" arbitrary: A) auto

text \<open>C33: \<^const>\<open>WebRtcSpl_LevinsonDurbin\<close> returns 0 or 1. After 0 the filter of the caller is as it was. After 1 its
  first coefficient is one in Q12 and every reflection coefficient but the first has magnitude at most 32750; the first,
  which the stability test leaves out, can be -1 then.\<close>

theorem LevinsonDurbin_stable:
  assumes "1 \<le> order" and "order \<le> length K" and "A \<noteq> []"
    and "WebRtcSpl_LevinsonDurbin R A K order = (r, A', K')"
  shows "(r = 0 \<and> A' = A \<or> r = 1 \<and> A' ! 0 = 4096 \<and> (\<forall>i. 1 \<le> i \<and> i < order \<longrightarrow> \<bar>K' ! i\<bar> \<le> 32750))"
proof -
  define R_hi where "R_hi = map (\<lambda>i. fst (hi_low (shl32 (R ! i) (WebRtcSpl_NormW32 (R ! 0))))) [0..<order + 1]"
  define R_low where "R_low = map (\<lambda>i. snd (hi_low (shl32 (R ! i) (WebRtcSpl_NormW32 (R ! 0))))) [0..<order + 1]"
  obtain stable l where l: "levinson_loop R_hi R_low [2..<order + 1] (levinson_first R_hi R_low order K) = (stable, l)" by fastforce
  note def = assms(4) [unfolded WebRtcSpl_LevinsonDurbin_def Let_def, folded R_hi_def R_low_def, unfolded l prod.case]
  show ?thesis
  proof (cases stable)
    case True
    have "\<bar>K' ! i\<bar> \<le> 32750" if "1 \<le> i" "i < order" for i
    proof -
      have "\<forall>j\<in>set [2..<order + 1]. \<bar>refl_coef l ! (j - 1)\<bar> \<le> 32750"
        using levinson_loop_stable [of R_hi R_low "[2..<order + 1]" "levinson_first R_hi R_low order K" l] assms(2) True l
        by (auto simp del: upt_Suc)
      then have "\<bar>refl_coef l ! (i + 1 - 1)\<bar> \<le> 32750" using that by (elim bspec) auto
      then show ?thesis using def True by simp
    qed
    moreover have "A' ! 0 = 4096" using def True assms(3) fold_update_0 [of "[1..<order + 1]"] by (auto simp del: upt_Suc)
    ultimately show ?thesis using def True by simp
  next
    case False
    then show ?thesis using def by simp
  qed
qed

theorem LevinsonDurbin_stable_witness:
  "WebRtcSpl_LevinsonDurbin [1000000, 600000, 299998] [7, 7, 7] [0, 0] 2 = (1, [4096, - 2688, 384], [- 19661, 3072]) \<and>
   \<bar>[- 19661, 3072] ! 1\<bar> \<le> (32750 :: int) \<and>
   WebRtcSpl_LevinsonDurbin [1000, 1000, 1000] [0, 0, 0] [0, 0] 2 = (1, [4096, - 4096, 0], [- 32768, 0])"
proof -
  have a: "WebRtcSpl_LevinsonDurbin [1000000, 600000, 299998] [7, 7, 7] [0, 0] 2 = (1, [4096, - 2688, 384], [- 19661, 3072])"
    "WebRtcSpl_LevinsonDurbin [1000, 1000, 1000] [0, 0, 0] [0, 0] 2 = (1, [4096, - 4096, 0], [- 32768, 0])" by code_simp+
  then show ?thesis using LevinsonDurbin_stable [OF _ _ _ a(1)] by simp
qed

end
