(* ===== verification/Vad_Features.thy ===== *)
theory Vad_Features
  imports Spl_Vector Spl_Math Spl_Resample
begin

text \<open>
  The parts of the voice activity detector below its core: the instance structure of
  \<open>vad_core.h\<close>, the Gaussian probability of \<open>vad_gmm.c\<close>, the down-sampling filter and the tracking of
  the smallest feature values of \<open>vad_sp.c\<close>, and the filter bank of \<open>vad_filterbank.c\<close> that turns a
  frame into six sub-band energies.
\<close>

section \<open>vad_core.h\<close>

definition kNumChannels :: nat where "kNumChannels = 6"

definition kNumGaussians :: nat where "kNumGaussians = 2"

definition kTableSize :: nat where "kTableSize = kNumChannels * kNumGaussians"

definition kMinEnergy :: int where "kMinEnergy = 10"

record VadInstT =
  vad :: int
  downsampling_filter_states :: "int list"
  state_48_to_8 :: WebRtcSpl_State48khzTo8khz
  noise_means :: "int list"
  speech_means :: "int list"
  noise_stds :: "int list"
  speech_stds :: "int list"
  frame_counter :: int
  over_hang :: int
  num_of_speech :: int
  index_vector :: "int list"
  low_value_vector :: "int list"
  mean_value :: "int list"
  upper_state :: "int list"
  lower_state :: "int list"
  hp_filter_state :: "int list"
  over_hang_max_1 :: "int list"
  over_hang_max_2 :: "int list"
  individual :: "int list"
  total_thresholds :: "int list"
  init_flag :: int

section \<open>vad_gmm.c\<close>

definition kCompVar :: int where "kCompVar = 22005"

definition kLog2Exp :: int where "kLog2Exp = 5909"

text \<open>The probability in Q20 and \<open>*delta\<close>.\<close>

definition WebRtcVad_GaussianProbability :: "int \<Rightarrow> int \<Rightarrow> int \<Rightarrow> int \<times> int" where
  "WebRtcVad_GaussianProbability input mean std =
     (let tmp32 = i32 (131072 + shr std 1);
          inv_std = i16 (WebRtcSpl_DivW32W16 tmp32 std);
          tmp16 = shr inv_std 2;
          inv_std2 = i16 (shr (tmp16 * tmp16) 2);
          tmp16 = i16 (shl32 input 3);
          tmp16 = i16 (tmp16 - mean);
          delta = i16 (shr (inv_std2 * tmp16) 10);
          tmp32 = shr (delta * tmp16) 9;
          exp_value =
            (if tmp32 < kCompVar
             then let tmp16 = i16 (shr (i32 (kLog2Exp * tmp32)) 12);
                      tmp16 = i16 (- tmp16);
                      exp_value = i16 (0x0400 OR (tmp16 AND 0x03FF));
                      tmp16 = i16 (tmp16 XOR 0xFFFF);
                      tmp16 = shr tmp16 10;
                      tmp16 = i16 (tmp16 + 1)
                  in shr exp_value tmp16
             else 0)
      in (i32 (inv_std * exp_value), delta))"

section \<open>vad_sp.c\<close>

definition kAllPassCoefsQ13 :: "int list" where "kAllPassCoefsQ13 = [5243, 1392]"

definition kSmoothingDown :: int where "kSmoothingDown = 6553"

definition kSmoothingUp :: int where "kSmoothingUp = 32439"

text \<open>One round of the loop: two input samples and the two state words give one sample.\<close>

definition downsampling_step :: "int \<times> int \<Rightarrow> int \<times> int \<Rightarrow> (int \<times> int) \<times> int" where
  "downsampling_step = (\<lambda>(tmp32_1, tmp32_2) (x, y).
     let tmp16_1 = i16 (shr tmp32_1 1 + shr (kAllPassCoefsQ13 ! 0 * x) 14);
         out = tmp16_1;
         tmp32_1 = i32 (x - shr (kAllPassCoefsQ13 ! 0 * tmp16_1) 12);
         tmp16_2 = i16 (shr tmp32_2 1 + shr (kAllPassCoefsQ13 ! 1 * y) 14);
         out = i16 (out + tmp16_2);
         tmp32_2 = i32 (y - shr (kAllPassCoefsQ13 ! 1 * tmp16_2) 12)
     in ((tmp32_1, tmp32_2), out))"

definition WebRtcVad_Downsampling :: "int list \<Rightarrow> samples \<Rightarrow> int list \<times> samples" where
  "WebRtcVad_Downsampling filter_state signal_in =
     (let ((tmp32_1, tmp32_2), signal_out) = run downsampling_step (filter_state ! 0, filter_state ! 1)
                                               (zip (evens signal_in) (odds signal_in))
      in (filter_state[0 := tmp32_1, 1 := tmp32_2], signal_out))"

text \<open>
  The 16 smallest values of a channel and their ages. Removing entry \<open>i\<close> shifts the larger ones down.
  (The C loop also copies entry 16, the first one of the next channel, into entry 15, and
  overwrites entry 15 afterwards.) The loop then goes on with \<open>i + 1\<close>, so the entry shifted to
  \<open>i\<close> is not aged in this call.
\<close>

definition shift_out :: "int list \<Rightarrow> nat \<Rightarrow> int \<Rightarrow> int list" where
  "shift_out v i x = take i v @ drop (i + 1) v @ [x]"

definition age_value :: "nat \<Rightarrow> int list \<times> int list \<Rightarrow> int list \<times> int list" where
  "age_value i = (\<lambda>(age, smallest_values).
     if age ! i \<noteq> 100 then (age[i := i16 (age ! i + 1)], smallest_values)
     else (shift_out age i 101, shift_out smallest_values i 10000))"

definition age_values :: "int list \<Rightarrow> int list \<Rightarrow> int list \<times> int list" where
  "age_values age smallest_values = fold age_value [0..<16] (age, smallest_values)"

text \<open>The decision tree for the position at which the new value is inserted, if at all.\<close>

definition find_position :: "int list \<Rightarrow> int \<Rightarrow> int" where
  "find_position v x =
     (if x < v ! 7 then
        (if x < v ! 3 then
           (if x < v ! 1 then
              (if x < v ! 0 then 0 else 1)
            else if x < v ! 2 then 2
            else 3)
         else if x < v ! 5 then
           (if x < v ! 4 then 4 else 5)
         else if x < v ! 6 then 6
         else 7)
      else if x < v ! 15 then
        (if x < v ! 11 then
           (if x < v ! 9 then
              (if x < v ! 8 then 8 else 9)
            else if x < v ! 10 then 10
            else 11)
         else if x < v ! 13 then
           (if x < v ! 12 then 12 else 13)
         else if x < v ! 14 then 14
         else 15)
      else - 1)"

text \<open>Shifting entries \<open>p\<close> to 14 up by one and writing \<open>x\<close> at \<open>p\<close>.\<close>

definition shift_in :: "int list \<Rightarrow> nat \<Rightarrow> int \<Rightarrow> int list" where
  "shift_in v p x = take p v @ x # butlast (drop p v)"

definition insert_value :: "int list \<Rightarrow> int list \<Rightarrow> int \<Rightarrow> int list \<times> int list" where
  "insert_value age smallest_values x =
     (let position = find_position smallest_values x
      in if position > - 1
         then (shift_in age (nat position) 1, shift_in smallest_values (nat position) x)
         else (age, smallest_values))"

text \<open>The median of the five smallest values, smoothed.\<close>

definition smooth_median :: "int \<Rightarrow> int list \<Rightarrow> int \<Rightarrow> int" where
  "smooth_median count smallest_values mean =
     (let current_median = (if count > 2 then smallest_values ! 2
                            else if count > 0 then smallest_values ! 0
                            else 1600);
          alpha = (if count > 0
                   then if current_median < mean then kSmoothingDown else kSmoothingUp
                   else 0)
      in i16 (shr (i32 ((alpha + 1) * mean + (WEBRTC_SPL_WORD16_MAX - alpha) * current_median + 16384)) 15))"

definition WebRtcVad_FindMinimum :: "VadInstT \<Rightarrow> int \<Rightarrow> nat \<Rightarrow> VadInstT \<times> int" where
  "WebRtcVad_FindMinimum self feature_value channel =
     (let offset = channel * 16;
          (age, smallest_values) = age_values (mem_slice (index_vector self) offset 16)
                                     (mem_slice (low_value_vector self) offset 16);
          (age, smallest_values) = insert_value age smallest_values feature_value;
          mean = smooth_median (frame_counter self) smallest_values (mean_value self ! channel)
      in (self\<lparr>index_vector := mem_copy (index_vector self) offset age,
               low_value_vector := mem_copy (low_value_vector self) offset smallest_values,
               mean_value := (mean_value self)[channel := mean]\<rparr>, mean))"

section \<open>vad_filterbank.c\<close>

definition kLogConst :: int where "kLogConst = 24660"

definition kLogEnergyIntPart :: int where "kLogEnergyIntPart = 14336"

definition kHpZeroCoefs :: "int list" where "kHpZeroCoefs = [6631, - 13262, 6631]"

definition kHpPoleCoefs :: "int list" where "kHpPoleCoefs = [16384, - 7756, 5620]"

definition kAllPassCoefsQ15 :: "int list" where "kAllPassCoefsQ15 = [20972, 5571]"

definition kOffsetVector :: "int list" where "kOffsetVector = [368, 368, 272, 176, 176, 176]"

definition high_pass_step :: "int list \<Rightarrow> int \<Rightarrow> int list \<times> int" where
  "high_pass_step s x =
     (let tmp32 = i32 (kHpZeroCoefs ! 0 * x + kHpZeroCoefs ! 1 * s ! 0 + kHpZeroCoefs ! 2 * s ! 1);
          s = s[1 := s ! 0];
          s = s[0 := x];
          tmp32 = i32 (tmp32 - kHpPoleCoefs ! 1 * s ! 2 - kHpPoleCoefs ! 2 * s ! 3);
          s = s[3 := s ! 2];
          s = s[2 := i16 (shr tmp32 14)]
      in (s, s ! 2))"

definition HighPassFilter :: "samples \<Rightarrow> int list \<Rightarrow> int list \<times> samples" where
  "HighPassFilter data_in filter_state = run high_pass_step filter_state data_in"

definition all_pass_step :: "int \<Rightarrow> int \<Rightarrow> int \<Rightarrow> int \<times> int" where
  "all_pass_step filter_coefficient state32 x =
     (let tmp32 = i32 (state32 + filter_coefficient * x);
          tmp16 = i16 (shr tmp32 16);
          state32 = i32 (shl32 x 14 - filter_coefficient * tmp16);
          state32 = shl32 state32 1
      in (state32, tmp16))"

text \<open>\<open>data_in\<close> is read at every second sample: the list given is the one of the samples read.\<close>

definition AllPassFilter :: "samples \<Rightarrow> int \<Rightarrow> int \<Rightarrow> int \<times> samples" where
  "AllPassFilter data_in filter_coefficient filter_state =
     (let (state32, data_out) = run (all_pass_step filter_coefficient) (shl32 filter_state 16) data_in
      in (i16 (shr state32 16), data_out))"

text \<open>The new upper and lower state, the high-pass and the low-pass half.\<close>

definition SplitFilter :: "samples \<Rightarrow> int \<Rightarrow> int \<Rightarrow> (int \<times> int) \<times> samples \<times> samples" where
  "SplitFilter data_in upper lower =
     (let (upper, hp) = AllPassFilter (evens data_in) (kAllPassCoefsQ15 ! 0) upper;
          (lower, lp) = AllPassFilter (odds data_in) (kAllPassCoefsQ15 ! 1) lower
      in ((upper, lower), map2 (\<lambda>h l. i16 (h - l)) hp lp, map2 (\<lambda>h l. i16 (l + h)) hp lp))"

text \<open>\<open>*total_energy\<close> and \<open>*log_energy\<close>.\<close>

definition LogOfEnergy :: "samples \<Rightarrow> int \<Rightarrow> int \<Rightarrow> int \<times> int" where
  "LogOfEnergy data_in offset total_energy =
     (let (energy, tot_rshifts) = WebRtcSpl_Energy data_in;
          energy = u32 energy
      in if energy \<noteq> 0 then
           let normalizing_rshifts = 17 - WebRtcSpl_NormU32 energy;
               log2_energy = kLogEnergyIntPart;
               tot_rshifts = tot_rshifts + normalizing_rshifts;
               energy = (if normalizing_rshifts < 0 then shlu32 energy (- normalizing_rshifts)
                         else shr energy normalizing_rshifts);
               log2_energy = i16 (log2_energy + i16 (shr (energy AND 0x3FFF) 4));
               log_energy = i16 (shr (i32 (kLogConst * log2_energy)) 19 + shr (i32 (tot_rshifts * kLogConst)) 9);
               log_energy = (if log_energy < 0 then 0 else log_energy);
               log_energy = i16 (log_energy + offset);
               total_energy =
                 (if total_energy \<le> kMinEnergy
                  then if tot_rshifts \<ge> 0 then i16 (total_energy + kMinEnergy + 1)
                       else i16 (total_energy + i16 (shr energy (- tot_rshifts)))
                  else total_energy)
           in (total_energy, log_energy)
         else (total_energy, offset))"

text \<open>One split of the tree with the states of frequency band \<open>b\<close>.\<close>

definition split_band :: "VadInstT \<Rightarrow> nat \<Rightarrow> samples \<Rightarrow> VadInstT \<times> samples \<times> samples" where
  "split_band self b data_in =
     (let ((upper, lower), hp, lp) = SplitFilter data_in (upper_state self ! b) (lower_state self ! b)
      in (self\<lparr>upper_state := (upper_state self)[b := upper], lower_state := (lower_state self)[b := lower]\<rparr>,
          hp, lp))"

text \<open>The features of the six bands and the returned total energy.\<close>

definition WebRtcVad_CalculateFeatures :: "VadInstT \<Rightarrow> samples \<Rightarrow> VadInstT \<times> int list \<times> int" where
  "WebRtcVad_CalculateFeatures self data_in =
     (let total_energy = 0;
          (self, hp_120, lp_120) = split_band self 0 data_in;
          (self, hp_60, lp_60) = split_band self 1 hp_120;
          (total_energy, f5) = LogOfEnergy hp_60 (kOffsetVector ! 5) total_energy;
          (total_energy, f4) = LogOfEnergy lp_60 (kOffsetVector ! 4) total_energy;
          (self, hp_60, lp_60) = split_band self 2 lp_120;
          (total_energy, f3) = LogOfEnergy hp_60 (kOffsetVector ! 3) total_energy;
          (self, hp_120, lp_120) = split_band self 3 lp_60;
          (total_energy, f2) = LogOfEnergy hp_120 (kOffsetVector ! 2) total_energy;
          (self, hp_60, lp_60) = split_band self 4 lp_120;
          (total_energy, f1) = LogOfEnergy hp_60 (kOffsetVector ! 1) total_energy;
          (hp_state, hp_120) = HighPassFilter lp_60 (hp_filter_state self);
          self = self\<lparr>hp_filter_state := hp_state\<rparr>;
          (total_energy, f0) = LogOfEnergy hp_120 (kOffsetVector ! 0) total_energy
      in (self, [f0, f1, f2, f3, f4, f5], total_energy))"

section \<open>The smallest values\<close>

text \<open>The reference: a sorted list of 16 values, none above the filler 10000.\<close>

definition smallest_ok :: "int list \<Rightarrow> bool" where
  "smallest_ok v \<longleftrightarrow> length v = 16 \<and> sorted v \<and> (\<forall>x\<in>set v. x \<le> 10000)"

lemma sorted_take_drop:
  assumes "sorted v" "x \<in> set (take i v)" "y \<in> set (drop i v)"
  shows "x \<le> y"
  using assms sorted_append [of "take i v" "drop i v"] by simp

lemma smallest_ok_shift_out:
  assumes "smallest_ok v" "i < 16"
  shows "smallest_ok (shift_out v i 10000)" and "set (shift_out v i 10000) \<subseteq> insert 10000 (set v)"
proof -
  have "y \<in> set (drop i v)" if "y \<in> set (drop (Suc i) v)" for y
    using that in_set_dropD [of y 1 "drop i v"] by simp
  then have v: "sorted (take i v @ drop (Suc i) v)"
    using assms by (auto simp: smallest_ok_def sorted_append sorted_wrt_take sorted_wrt_drop
        intro: sorted_take_drop [of v _ i])
  show "set (shift_out v i 10000) \<subseteq> insert 10000 (set v)"
    by (auto simp: shift_out_def dest: in_set_takeD in_set_dropD)
  show "smallest_ok (shift_out v i 10000)"
    using assms v by (auto simp: smallest_ok_def shift_out_def sorted_append dest: in_set_takeD in_set_dropD)
qed

lemma age_value_ok:
  assumes "smallest_ok v" "length a = 16" "i < 16"
  shows "smallest_ok (snd (age_value i (a, v))) \<and> length (fst (age_value i (a, v))) = 16 \<and>
    set (snd (age_value i (a, v))) \<subseteq> insert 10000 (set v)"
  using assms smallest_ok_shift_out [OF assms(1,3)]
  by (auto simp: age_value_def shift_out_def [of a])

lemma age_values_ok:
  assumes "smallest_ok v" "length a = 16"
  shows "smallest_ok (snd (age_values a v))" and "length (fst (age_values a v)) = 16"
    and "set (snd (age_values a v)) \<subseteq> insert 10000 (set v)"
proof -
  have "smallest_ok (snd (fold age_value is (a, v))) \<and> length (fst (fold age_value is (a, v))) = 16 \<and>
      set (snd (fold age_value is (a, v))) \<subseteq> insert 10000 (set v)"
    if "set is \<subseteq> {0..<16}" for "is"
    using that
  proof (induction "is" rule: rev_induct)
    case (snoc i "is")
    then show ?case
      using age_value_ok [of "snd (fold age_value is (a, v))" "fst (fold age_value is (a, v))" i] by auto
  qed (auto simp: assms)
  from this [of "[0..<16]"] show "smallest_ok (snd (age_values a v))" "length (fst (age_values a v)) = 16"
    "set (snd (age_values a v)) \<subseteq> insert 10000 (set v)"
    by (simp_all add: age_values_def del: upt_rec_numeral)
qed

lemma age_values_young:
  assumes "length a = 16" "100 \<notin> set a"
  shows "snd (age_values a v) = v"
proof -
  have "snd (fold age_value is (b, v)) = v"
    if "\<forall>i\<in>set is. b ! i = a ! i" "distinct is" "set is \<subseteq> {0..<16}" "length b = 16" for "is" b
    using that
  proof (induction "is" arbitrary: b)
    case (Cons i "is")
    have "a ! i \<in> set a" using Cons.prems assms(1) by (intro nth_mem) simp
    then have "b ! i \<noteq> 100" using assms(2) Cons.prems by auto
    moreover have "\<forall>j\<in>set is. b[i := i16 (b ! i + 1)] ! j = a ! j"
      using Cons.prems by (auto simp: nth_list_update)
    ultimately show ?case using Cons by (simp add: age_value_def [of i])
  qed simp
  from this [of "[0..<16]" a] show ?thesis using assms(1) by (simp add: age_values_def del: upt_rec_numeral)
qed

text \<open>The position found by the decision tree is the one of sorted insertion.\<close>

lemma insort_position:
  "sorted v \<Longrightarrow> insort x v = takeWhile (\<lambda>y. y \<le> x) v @ x # dropWhile (\<lambda>y. y \<le> x) v"
  by (induction v) (auto simp: insort_is_Cons)

lemma insort_last:
  assumes "sorted v" "\<forall>y\<in>set v. y \<le> x"
  shows "insort x v = v @ [x]"
proof -
  have "takeWhile (\<lambda>y. y \<le> x) v = v" "dropWhile (\<lambda>y. y \<le> x) v = []"
    using assms(2) by (simp_all add: takeWhile_eq_all_conv)
  then show ?thesis by (simp only: insort_position [OF assms(1)])
qed

lemma takeWhile_position:
  assumes "sorted v" "p < length v" "x < v ! p" "p = 0 \<or> v ! (p - 1) \<le> x"
  shows "takeWhile (\<lambda>y. y \<le> x) v = take p v"
proof (rule takeWhile_eq_take_P_nth)
  fix i assume "i < p" "i < length v"
  then have "v ! i \<le> v ! (p - 1)" using assms by (intro sorted_nth_mono) auto
  then show "v ! i \<le> x" using assms \<open>i < p\<close> by auto
qed (use assms in auto)

lemma find_position_sound:
  "find_position v x = int p \<Longrightarrow> p < 16 \<and> x < v ! p \<and> (p = 0 \<or> v ! (p - 1) \<le> x)"
  by (auto simp: find_position_def not_less split: if_splits)

lemma find_position_none: "smallest_ok v \<Longrightarrow> find_position v x \<le> - 1 \<Longrightarrow> v ! 15 \<le> x"
  by (auto simp: find_position_def not_less split: if_splits)

lemma insert_value_insort:
  assumes "smallest_ok v" "length a = 16"
  shows "snd (insert_value a v x) = take 16 (insort x v)" and "length (fst (insert_value a v x)) = 16"
proof -
  have v: "sorted v" "length v = 16" using assms(1) by (simp_all add: smallest_ok_def)
  have "snd (insert_value a v x) = take 16 (insort x v) \<and> length (fst (insert_value a v x)) = 16"
  proof (cases "find_position v x > - 1")
    case True
    define p where "p = nat (find_position v x)"
    have p: "find_position v x = int p" using True by (simp add: p_def)
    have q: "p < 16" "takeWhile (\<lambda>y. y \<le> x) v = take p v"
      using find_position_sound [OF p] v by (auto intro: takeWhile_position)
    have "dropWhile (\<lambda>y. y \<le> x) v = drop p v"
      using q v by (metis dropWhile_eq_drop length_take min_absorb2 less_imp_le)
    then have "take 16 (insort x v) = shift_in v p x"
      using q v by (simp add: insort_position shift_in_def take_Cons' butlast_conv_take)
    then show ?thesis using True p q assms(2) by (simp add: insert_value_def shift_in_def Let_def)
  next
    case False
    then have "v ! 15 \<le> x" using find_position_none [OF assms(1)] by simp
    moreover have "y \<le> v ! 15" if "y \<in> set v" for y
      using that v sorted_nth_mono [of v _ 15] by (auto simp: in_set_conv_nth)
    ultimately have "insort x v = v @ [x]" using v by (intro insort_last) force+
    then show ?thesis using False v assms(2) by (simp add: insert_value_def Let_def)
  qed
  then show "snd (insert_value a v x) = take 16 (insort x v)" "length (fst (insert_value a v x)) = 16" by simp_all
qed

lemma smallest_ok_insort:
  assumes "smallest_ok v"
  shows "smallest_ok (take 16 (insort x v))"
proof -
  have s: "sorted (insort x v)" "length (insort x v) = 17"
    using assms by (simp_all add: smallest_ok_def sorted_insort)
  have "y \<le> 10000" if "y \<in> set (take 16 (insort x v))" for y
  proof (rule ccontr)
    assume "\<not> y \<le> 10000"
    moreover have "y \<in> set (insort x v)" using that by (rule in_set_takeD)
    ultimately have "y = x" "10000 < x" using assms by (auto simp: smallest_ok_def set_insort_key)
    then have "insort x v = v @ [x]" using assms by (intro insort_last) (auto simp: smallest_ok_def)
    then have "take 16 (insort x v) = v" using assms by (simp add: smallest_ok_def)
    then show False using that assms \<open>y = x\<close> \<open>10000 < x\<close> by (auto simp: smallest_ok_def)
  qed
  then show ?thesis using s by (simp add: smallest_ok_def sorted_wrt_take)
qed


text \<open>The tracked values of a channel, and what the instance keeps of all of them.\<close>

definition channel_values :: "VadInstT \<Rightarrow> nat \<Rightarrow> int list" where
  "channel_values self c = mem_slice (low_value_vector self) (16 * c) 16"

definition channel_ages :: "VadInstT \<Rightarrow> nat \<Rightarrow> int list" where
  "channel_ages self c = mem_slice (index_vector self) (16 * c) 16"

definition tracking_ok :: "VadInstT \<Rightarrow> bool" where
  "tracking_ok self \<longleftrightarrow> length (index_vector self) = 96 \<and> length (low_value_vector self) = 96 \<and>
     length (mean_value self) = 6 \<and> (\<forall>c < 6. smallest_ok (channel_values self c))"

lemma mem_slice_channels:
  assumes "length m = 96" "length v = 16" "c < 6" "d < 6"
  shows "mem_slice (mem_copy m (16 * c) v) (16 * d) 16 = (if d = c then v else mem_slice m (16 * d) 16)"
proof (cases "d = c")
  case True
  then show ?thesis using assms mem_slice_mem_copy [of "16 * c" v m] by simp
next
  case False
  then have "16 * d + 16 \<le> 16 * c \<or> 16 * c + 16 \<le> 16 * d" by linarith
  then show ?thesis using False assms mem_slice_mem_copy_disjoint [of "16 * c" v m "16 * d" 16] by simp
qed

lemma FindMinimum_channels:
  assumes "tracking_ok self" "c < 6" "d < 6"
  shows "channel_values (fst (WebRtcVad_FindMinimum self x c)) d =
    (if d = c then take 16 (insort x (snd (age_values (channel_ages self c) (channel_values self c))))
     else channel_values self d)"
proof -
  obtain a v where av: "age_values (channel_ages self c) (channel_values self c) = (a, v)"
    by (cases "age_values (channel_ages self c) (channel_values self c)")
  have len: "length (channel_ages self c) = 16" "smallest_ok (channel_values self c)"
    using assms by (simp_all add: tracking_ok_def channel_ages_def)
  have ok: "smallest_ok v" "length a = 16" using age_values_ok [OF len(2,1)] by (simp_all add: av)
  then have "length (take 16 (insort x v)) = 16" using smallest_ok_insort [OF ok(1)] by (simp add: smallest_ok_def)
  then show ?thesis
    using assms insert_value_insort [OF ok, of x] av mem_slice_channels [of "low_value_vector self" "take 16 (insort x v)" c d]
    by (simp add: WebRtcVad_FindMinimum_def channel_values_def channel_ages_def tracking_ok_def mult.commute
        Let_def split_def)
qed

lemma FindMinimum_tracking_ok:
  assumes "tracking_ok self" "c < 6"
  shows "tracking_ok (fst (WebRtcVad_FindMinimum self x c))"
proof -
  define a v where "a = channel_ages self c" and "v = channel_values self c"
  have len: "length a = 16" "smallest_ok v" using assms by (simp_all add: a_def v_def tracking_ok_def channel_ages_def)
  note w = age_values_ok [OF len(2,1)]
  have ok: "smallest_ok (channel_values (fst (WebRtcVad_FindMinimum self x c)) d)" if "d < 6" for d
    using that FindMinimum_channels [OF assms that, of x] smallest_ok_insort [OF w(1), of x] assms(1)
    by (auto simp: a_def v_def tracking_ok_def)
  have "length (index_vector (fst (WebRtcVad_FindMinimum self x c))) = 96"
    "length (low_value_vector (fst (WebRtcVad_FindMinimum self x c))) = 96"
    "length (mean_value (fst (WebRtcVad_FindMinimum self x c))) = 6"
    using assms w insert_value_insort [OF w(1,2), of x] smallest_ok_insort [OF w(1), of x]
    by (simp_all add: WebRtcVad_FindMinimum_def a_def v_def channel_ages_def channel_values_def tracking_ok_def
        smallest_ok_def mult.commute Let_def split_def)
  then show ?thesis using ok by (simp add: tracking_ok_def)
qed

text \<open>C22: \<open>WebRtcVad_FindMinimum\<close> implements insertion into a sorted list of the 16 smallest recent values: with
  \<open>w\<close> the values left after ageing (nothing but old values and the filler 10000, and all the old ones
  if none has reached age 100), the channel afterwards holds the 16 smallest of \<open>w\<close> and the new value, in
  order; the decision tree finds the insertion point. The other channels are unchanged, and in every
  channel the values stay 16, sorted and at most 10000.\<close>

theorem FindMinimum_sorted:
  assumes "tracking_ok self" "c < 6"
  shows "let self' = fst (WebRtcVad_FindMinimum self x c);
             w = snd (age_values (channel_ages self c) (channel_values self c))
         in channel_values self' c = take 16 (insort x w) \<and> sorted w \<and> length w = 16 \<and>
            set w \<subseteq> insert 10000 (set (channel_values self c)) \<and>
            (100 \<notin> set (channel_ages self c) \<longrightarrow> w = channel_values self c) \<and>
            (\<forall>d < 6. d \<noteq> c \<longrightarrow> channel_values self' d = channel_values self d) \<and> tracking_ok self'"
proof -
  have len: "length (channel_ages self c) = 16" "smallest_ok (channel_values self c)"
    using assms by (simp_all add: tracking_ok_def channel_ages_def)
  show ?thesis
    using FindMinimum_channels [OF assms] FindMinimum_tracking_ok [OF assms] assms age_values_ok [OF len(2,1)]
      age_values_young [OF len(1), of "channel_values self c"]
    by (simp add: Let_def smallest_ok_def)
qed

text \<open>An instance with cleared filters and no tracked value yet.\<close>

definition fresh_inst :: VadInstT where
  "fresh_inst = \<lparr>vad = 1, downsampling_filter_states = replicate 4 0,
     state_48_to_8 = \<lparr>S_48_24 = replicate 8 0, S_24_24 = replicate 16 0, S_24_16 = replicate 8 0, S_16_8 = replicate 8 0\<rparr>,
     noise_means = replicate 12 5000, speech_means = replicate 12 9000, noise_stds = replicate 12 500,
     speech_stds = replicate 12 600, frame_counter = 0, over_hang = 0, num_of_speech = 0,
     index_vector = replicate 96 0, low_value_vector = replicate 96 10000, mean_value = replicate 6 1600,
     upper_state = replicate 5 0, lower_state = replicate 5 0, hp_filter_state = replicate 4 0,
     over_hang_max_1 = [8, 4, 3], over_hang_max_2 = [14, 7, 5], individual = [24, 21, 24],
     total_thresholds = [57, 48, 57], init_flag = 42\<rparr>"

lemma fresh_channels: "c < 6 \<Longrightarrow> channel_values fresh_inst c = replicate 16 10000"
  "c < 6 \<Longrightarrow> channel_ages fresh_inst c = replicate 16 0"
  by (simp_all add: fresh_inst_def channel_values_def channel_ages_def mem_slice_def min_def)

lemma tracking_ok_fresh: "tracking_ok fresh_inst"
  by (auto simp: tracking_ok_def fresh_channels smallest_ok_def)
    (simp_all add: fresh_inst_def)

lemma FindMinimum_sorted_witness:
  "tracking_ok fresh_inst \<and>
   channel_values (fst (WebRtcVad_FindMinimum fresh_inst 500 2)) 2 = 500 # replicate 15 10000"
  using FindMinimum_sorted [OF tracking_ok_fresh, of 2 500] tracking_ok_fresh
  by (simp add: fresh_channels Let_def) (simp add: numeral_eq_Suc)

section \<open>The Gaussian probability\<close>

text \<open>
  The reference, over the integers: \<open>r\<close> is \<open>1 / s\<close> in Q10, \<open>d\<close> is \<open>(x - m) / s\<^sup>2\<close> in Q11, \<open>y\<close> the exponent
  \<open>(x - m)\<^sup>2 / (2 * s\<^sup>2)\<close> in Q10 and \<open>e\<close> the same to base 2; the power \<open>2 ^ (- e / 1024)\<close> is interpolated linearly
  between two powers of two.
\<close>

definition gaussian_reference :: "int \<Rightarrow> int \<Rightarrow> int \<Rightarrow> int \<times> int" where
  "gaussian_reference input mean std =
     (let r = (131072 + std div 2) div std;
          s2 = (r div 4) * (r div 4) div 4;
          t = 8 * input - mean;
          d = s2 * t div 1024;
          y = d * t div 512;
          e = 5909 * y div 4096
      in (if y < 22005 then r * ((1024 + - e mod 1024) div 2 ^ nat (- (- e div 1024))) else 0, d))"

lemma i16_cong: "x mod 65536 = y mod 65536 \<Longrightarrow> i16 x = i16 y"
  unfolding i16_def by (metis mod_add_left_eq)

lemma xor_mask_16: "i16 (m XOR 0xFFFF) = i16 (- m - 1)"
proof (rule i16_cong)
  have "take_bit 16 (m XOR mask 16) = take_bit 16 (NOT m)"
    by (rule bit_eqI) (auto simp: bit_take_bit_iff bit_xor_iff bit_mask_iff bit_not_iff)
  then show "(m XOR 0xFFFF) mod 65536 = (- m - 1) mod 65536"
    by (simp add: take_bit_eq_mod not_int_def mask_eq_exp_minus_1)
qed

lemma or_and_1024: "(0x400 :: int) OR (m AND 0x3FF) = 1024 + m mod 1024"
proof -
  have a: "m AND 0x3FF = take_bit 10 m" by (simp add: take_bit_eq_mask mask_eq_exp_minus_1)
  have p: "(0x400 :: int) = push_bit 10 1" by (simp add: push_bit_eq_mult)
  have "(0x400 :: int) AND take_bit 10 m = 0"
    by (rule bit_eqI) (simp only: p bit_and_iff bit_push_bit_iff bit_take_bit_iff bit_0_eq, auto)
  then have "(0x400 :: int) OR take_bit 10 m = 0x400 + take_bit 10 m"
    using plus_and_or [of "0x400" "take_bit 10 m"] by simp
  then show ?thesis by (simp add: a take_bit_eq_mod)
qed

lemma inverse_std_bounds:
  assumes "378 \<le> std" "std \<le> 32767"
  defines "r \<equiv> (131072 + std div 2) div (std :: int)"
  shows "4 \<le> r" "r \<le> 347"
proof -
  have "131072 + std div 2 < std * 348" using assms by linarith
  then show "r \<le> 347" using div_less_mult [of std "131072 + std div 2" 348] assms by simp
  have "4 * std \<le> 131072 + std div 2" using assms by linarith
  then have "4 * std div std \<le> r" unfolding r_def using assms by (intro zdiv_mono1) auto
  then show "4 \<le> r" using assms by simp
qed


text \<open>The fixed-point exponential on an exponent in Q10.\<close>

lemma exp_value_reference:
  assumes "0 \<le> e" "e \<le> 31745"
  shows "shr (i16 (0x0400 OR (i16 (- e) AND 0x03FF))) (i16 (shr (i16 (i16 (- e) XOR 0xFFFF)) 10 + 1)) =
    (1024 + - e mod 1024) div 2 ^ nat (- (- e div 1024))"
proof -
  have m: "i16 (- e) = - e" using assms by (intro i16_id) (simp add: in_i16_def)
  have f: "0 \<le> - e mod 1024" "- e mod 1024 < 1024" by simp_all
  then have "i16 (1024 + - e mod 1024) = 1024 + - e mod 1024"
    by (intro i16_id) (simp add: in_i16_def)
  moreover have "i16 (e - 1) = e - 1" using assms by (intro i16_id) (simp add: in_i16_def)
  moreover have c: "(e - 1) div 1024 + 1 = - (- e div 1024)" by linarith
  moreover have "in_i16 (- (- e div 1024))" using assms c unfolding in_i16_def by linarith
  ultimately show ?thesis
    by (simp add: m or_and_1024 xor_mask_16 shr_def i16_id)
qed

lemma delta_bounds:
  fixes s2 t :: int
  assumes "0 \<le> s2" "s2 \<le> 1849" "\<bar>t\<bar> \<le> 18146"
  defines "d \<equiv> s2 * t div 1024"
  shows "- 32768 \<le> d" "d \<le> 32767" "0 \<le> d * t" "d * t \<le> 1073741824"
proof -
  have "\<bar>s2 * t\<bar> \<le> 1849 * 18146" unfolding abs_mult using assms by (intro mult_mono) auto
  then have "- 33551954 \<le> s2 * t" "s2 * t \<le> 33551954" by linarith+
  then show d: "- 32768 \<le> d" "d \<le> 32767" unfolding d_def by linarith+
  have "0 \<le> d" if "0 \<le> t" using that assms by (simp add: d_def pos_imp_zdiv_nonneg_iff)
  moreover have "d \<le> 0" if "t \<le> 0"
  proof -
    have "s2 * t \<le> 0" using that assms by (simp add: mult_nonneg_nonpos)
    then show ?thesis unfolding d_def by linarith
  qed
  ultimately show "0 \<le> d * t" by (cases "0 \<le> t") (auto simp: mult_nonpos_nonpos)
  have "\<bar>d\<bar> * \<bar>t\<bar> \<le> 32768 * 32768" using d assms by (intro mult_mono) auto
  then show "d * t \<le> 1073741824" using abs_ge_self [of "d * t"] by (simp add: abs_mult)
qed

lemma exp_reference_bounds:
  assumes "0 \<le> (e :: int)"
  shows "0 \<le> (1024 + - e mod 1024) div 2 ^ nat (- (- e div 1024))"
    "(1024 + - e mod 1024) div 2 ^ nat (- (- e div 1024)) \<le> 1024"
proof -
  have f: "0 \<le> - e mod 1024" "- e mod 1024 < 1024" by simp_all
  then show "0 \<le> (1024 + - e mod 1024) div 2 ^ nat (- (- e div 1024))"
    by (simp add: pos_imp_zdiv_nonneg_iff)
  show "(1024 + - e mod 1024) div 2 ^ nat (- (- e div 1024)) \<le> 1024"
  proof (cases "e = 0")
    case False
    then have "1 \<le> nat (- (- e div 1024))" using assms by linarith
    then have "(2 :: int) ^ 1 \<le> 2 ^ nat (- (- e div 1024))" by (intro power_increasing) simp_all
    then have "(1024 + - e mod 1024) div 2 ^ nat (- (- e div 1024)) \<le> (1024 + - e mod 1024) div 2"
      using f by (intro zdiv_mono2) simp_all
    then show ?thesis using f by linarith
  qed simp
qed

text \<open>C23: For every standard deviation from 378 (the smallest initial one) up and every feature at distance
  up to 18146 from the mean, both in Q7, \<open>WebRtcVad_GaussianProbability\<close> computes the reference: no 16-bit or
  32-bit intermediate value wraps around, the shift count lies in the range where the shift is
  defined, and the probability lies between 0 and \<open>1 / s\<close>, at most 347 * 1024.\<close>

theorem GaussianProbability_reference:
  assumes "378 \<le> std" "std \<le> 32767" "in_i16 (8 * input)" "\<bar>8 * input - mean\<bar> \<le> 18146"
  shows "WebRtcVad_GaussianProbability input mean std = gaussian_reference input mean std \<and>
    0 \<le> fst (gaussian_reference input mean std) \<and>
    fst (gaussian_reference input mean std) \<le> (131072 + std div 2) div std * 1024 \<and>
    fst (gaussian_reference input mean std) \<le> 347 * 1024"
proof -
  define r where "r = (131072 + std div 2) div std"
  define s2 where "s2 = (r div 4) * (r div 4) div 4"
  define t where "t = 8 * input - mean"
  define d where "d = s2 * t div 1024"
  define y where "y = d * t div 512"
  define e where "e = 5909 * y div 4096"
  have r: "4 \<le> r" "r \<le> 347" using inverse_std_bounds [OF assms(1,2)] by (simp_all add: r_def)
  have "r div 4 * (r div 4) \<le> 86 * 86" using r by (intro mult_mono) linarith+
  moreover have "0 \<le> r div 4 * (r div 4)" by simp
  ultimately have s2: "0 \<le> s2" "s2 \<le> 1849" unfolding s2_def by linarith+
  then have q: "i16 s2 = s2" by (intro i16_id) (simp add: in_i16_def)
  note d = delta_bounds [OF s2, of t, folded d_def, OF assms(4) [folded t_def]]
  have y: "0 \<le> y" using d(3) by (simp add: y_def pos_imp_zdiv_nonneg_iff)
  have ids: "i32 (131072 + std div 2) = 131072 + std div 2" "i16 (8 * input) = 8 * input" "i16 t = t"
    "i16 d = d" "i16 r = r" "i32 r = r"
    using assms r d by (auto intro!: i16_id i32_id simp: in_i16_def in_i32_def t_def)
  have shl: "shl32 input 3 = 8 * input"
    using assms(3) by (simp add: shl32_def mult.commute i32_id in_i16_def in_i32_def)
  have div: "WebRtcSpl_DivW32W16 (131072 + std div 2) std = r"
    using assms r by (simp add: WebRtcSpl_DivW32W16_def signed_divide_int_def r_def [symmetric] ids)
  have e: "0 \<le> e" "y < 22005 \<Longrightarrow> e \<le> 31745" using y by (simp_all add: e_def pos_imp_zdiv_nonneg_iff)
  have log: "i16 (shr (i32 (kLog2Exp * y)) 12) = e" if "y < 22005"
    using that y e by (simp add: kLog2Exp_def shr_def i32_id in_i32_def i16_id in_i16_def flip: e_def)
  define p where "p = (1024 + - e mod 1024) div 2 ^ nat (- (- e div 1024))"
  have p: "0 \<le> p" "p \<le> 1024" using exp_reference_bounds [OF e(1)] by (simp_all add: p_def)
  have rp: "0 \<le> r * p" "r * p \<le> r * 1024" using r p by (auto intro: mult_left_mono)
  then have top: "r * p \<le> 355328" using r by linarith
  then have "i32 (r * p) = r * p" using rp(1) by (intro i32_id) (simp add: in_i32_def)
  then have eq: "WebRtcVad_GaussianProbability input mean std = (if y < 22005 then r * p else 0, d)"
    using exp_value_reference [OF e] log
    by (simp add: WebRtcVad_GaussianProbability_def shr_def [of std] shr_def [of r] shr_def [of "_ * _"] shl div ids q
        kCompVar_def Let_def i32_id in_i32_def flip: s2_def t_def d_def y_def p_def)
  have ref: "gaussian_reference input mean std = (if y < 22005 then r * p else 0, d)"
    by (simp add: gaussian_reference_def Let_def p_def flip: r_def s2_def t_def d_def y_def e_def)
  show ?thesis using rp p top r by (simp add: eq ref flip: r_def)
qed

lemma GaussianProbability_reference_witness:
  "WebRtcVad_GaussianProbability 1000 7000 500 = gaussian_reference 1000 7000 500 \<and> in_i16 8000"
  using GaussianProbability_reference [of 500 1000 7000] by (simp add: in_i16_def)

end
