(* ===== verification/Vad_Core.thy ===== *)
theory Vad_Core
  imports Vad_Features
begin

text \<open>
  The core of the voice activity detector, \<open>vad_core.c\<close>, and its interface, \<open>webrtc_vad.c\<close>: the
  likelihood ratio test of two Gaussian mixture models over the six features of a frame, the update of
  the models, the hang-over that smooths the decision, and the four entry points per sampling rate.
\<close>

section \<open>Constants of vad_core.c\<close>

definition kSpectrumWeight :: "int list" where "kSpectrumWeight = [6, 8, 10, 12, 14, 16]"

definition kNoiseUpdateConst :: int where "kNoiseUpdateConst = 655"

definition kSpeechUpdateConst :: int where "kSpeechUpdateConst = 6554"

definition kBackEta :: int where "kBackEta = 154"

definition kMinimumDifference :: "int list" where
  "kMinimumDifference = [544, 544, 576, 576, 576, 576]"

definition kMaximumSpeech :: "int list" where
  "kMaximumSpeech = [11392, 11392, 11520, 11520, 11520, 11520]"

definition kMinimumMean :: "int list" where "kMinimumMean = [640, 768]"

definition kMaximumNoise :: "int list" where
  "kMaximumNoise = [9216, 9088, 8960, 8832, 8704, 8576]"

definition kNoiseDataWeights :: "int list" where
  "kNoiseDataWeights = [34, 62, 72, 66, 53, 25, 94, 66, 56, 62, 75, 103]"

definition kSpeechDataWeights :: "int list" where
  "kSpeechDataWeights = [48, 82, 45, 87, 50, 47, 80, 46, 83, 41, 78, 81]"

definition kNoiseDataMeans :: "int list" where
  "kNoiseDataMeans = [6738, 4892, 7065, 6715, 6771, 3369, 7646, 3863, 7820, 7266, 5020, 4362]"

definition kSpeechDataMeans :: "int list" where
  "kSpeechDataMeans = [8306, 10085, 10078, 11823, 11843, 6309, 9473, 9571, 10879, 7581, 8180, 7483]"

definition kNoiseDataStds :: "int list" where
  "kNoiseDataStds = [378, 1064, 493, 582, 688, 593, 474, 697, 475, 688, 421, 455]"

definition kSpeechDataStds :: "int list" where
  "kSpeechDataStds = [555, 505, 567, 524, 585, 1231, 509, 828, 492, 1540, 1079, 850]"

definition kMaxSpeechFrames :: int where "kMaxSpeechFrames = 6"

definition kMinStd :: int where "kMinStd = 384"

definition kDefaultMode :: int where "kDefaultMode = 0"

definition kInitCheck :: int where "kInitCheck = 42"

definition kOverHangMax1Q :: "int list" where "kOverHangMax1Q = [8, 4, 3]"
definition kOverHangMax2Q :: "int list" where "kOverHangMax2Q = [14, 7, 5]"
definition kLocalThresholdQ :: "int list" where "kLocalThresholdQ = [24, 21, 24]"
definition kGlobalThresholdQ :: "int list" where "kGlobalThresholdQ = [57, 48, 57]"

definition kOverHangMax1LBR :: "int list" where "kOverHangMax1LBR = [8, 4, 3]"
definition kOverHangMax2LBR :: "int list" where "kOverHangMax2LBR = [14, 7, 5]"
definition kLocalThresholdLBR :: "int list" where "kLocalThresholdLBR = [37, 32, 37]"
definition kGlobalThresholdLBR :: "int list" where "kGlobalThresholdLBR = [100, 80, 100]"

definition kOverHangMax1AGG :: "int list" where "kOverHangMax1AGG = [6, 3, 2]"
definition kOverHangMax2AGG :: "int list" where "kOverHangMax2AGG = [9, 5, 3]"
definition kLocalThresholdAGG :: "int list" where "kLocalThresholdAGG = [82, 78, 82]"
definition kGlobalThresholdAGG :: "int list" where "kGlobalThresholdAGG = [285, 260, 285]"

definition kOverHangMax1VAG :: "int list" where "kOverHangMax1VAG = [6, 3, 2]"
definition kOverHangMax2VAG :: "int list" where "kOverHangMax2VAG = [9, 5, 3]"
definition kLocalThresholdVAG :: "int list" where "kLocalThresholdVAG = [94, 94, 94]"
definition kGlobalThresholdVAG :: "int list" where "kGlobalThresholdVAG = [1100, 1050, 1100]"

section \<open>The decision\<close>

text \<open>The weighted average over the two Gaussians of \<open>channel\<close>, after an offset is added to the data.\<close>

definition WeightedAverage :: "int list \<Rightarrow> nat \<Rightarrow> int \<Rightarrow> int list \<Rightarrow> int list \<times> int" where
  "WeightedAverage means channel offset weights =
     fold (\<lambda>k (means, weighted_average).
             let g = channel + k * kNumChannels;
                 means = means[g := i16 (means ! g + offset)]
             in (means, i32 (weighted_average + means ! g * weights ! g)))
       [0..<kNumGaussians] (means, 0)"

text \<open>The local arrays and accumulators of \<open>GmmProbability\<close>. Every entry of \<open>deltaN\<close> and \<open>deltaS\<close> is
  written before it is read.\<close>

record gmm_locals =
  deltaN :: "int list"
  deltaS :: "int list"
  ngprvec :: "int list"
  sgprvec :: "int list"
  sum_log_likelihood_ratios :: int
  vadflag :: int

definition gmm_start :: gmm_locals where
  "gmm_start = \<lparr>deltaN = replicate kTableSize 0, deltaS = replicate kTableSize 0,
     ngprvec = replicate kTableSize 0, sgprvec = replicate kTableSize 0,
     sum_log_likelihood_ratios = 0, vadflag = 0\<rparr>"

text \<open>The probabilities of one feature under one model: per Gaussian and their sum, and the deltas.\<close>

definition model_probability :: "int \<Rightarrow> nat \<Rightarrow> int list \<Rightarrow> int list \<Rightarrow> int list \<Rightarrow> int list
    \<Rightarrow> int list \<times> int \<times> int list" where
  "model_probability feature channel means stds weights delta =
     fold (\<lambda>k (probability, h_test, delta).
             let g = channel + k * kNumChannels;
                 (tmp1_s32, d) = WebRtcVad_GaussianProbability feature (means ! g) (stds ! g);
                 p = i32 (weights ! g * tmp1_s32)
             in (probability @ [p], i32 (h_test + p), delta[g := d]))
       [0..<kNumGaussians] ([], 0, delta)"

text \<open>The share of the first Gaussian in \<open>h\<close>, in Q14.\<close>

definition conditional_probability :: "int \<Rightarrow> int \<Rightarrow> int" where
  "conditional_probability p h =
     i16 (WebRtcSpl_DivW32W16 (i32 (shlu32 (u32 p AND 0xFFFFF000) 2)) h)"

definition channel_likelihood :: "VadInstT \<Rightarrow> int list \<Rightarrow> int \<Rightarrow> nat \<Rightarrow> gmm_locals \<Rightarrow> gmm_locals" where
  "channel_likelihood self features individualTest channel l =
     (let (noise_probability, h0_test, dN) = model_probability (features ! channel) channel
            (noise_means self) (noise_stds self) kNoiseDataWeights (deltaN l);
          (speech_probability, h1_test, dS) = model_probability (features ! channel) channel
            (speech_means self) (speech_stds self) kSpeechDataWeights (deltaS l);
          shifts_h0 = (if h0_test = 0 then 31 else WebRtcSpl_NormW32 h0_test);
          shifts_h1 = (if h1_test = 0 then 31 else WebRtcSpl_NormW32 h1_test);
          log_likelihood_ratio = i16 (shifts_h0 - shifts_h1);
          sum_llr = i32 (sum_log_likelihood_ratios l + log_likelihood_ratio * kSpectrumWeight ! channel);
          flag = (if shl32 log_likelihood_ratio 2 > individualTest then 1 else vadflag l);
          h0 = i16 (shr h0_test 12);
          ng = (if h0 > 0
                then let p = conditional_probability (noise_probability ! 0) h0
                     in (ngprvec l)[channel := p, channel + kNumChannels := i16 (16384 - p)]
                else (ngprvec l)[channel := 16384]);
          h1 = i16 (shr h1_test 12);
          sg = (if h1 > 0
                then let p = conditional_probability (speech_probability ! 0) h1
                     in (sgprvec l)[channel := p, channel + kNumChannels := i16 (16384 - p)]
                else sgprvec l)
      in \<lparr>deltaN = dN, deltaS = dS, ngprvec = ng, sgprvec = sg, sum_log_likelihood_ratios = sum_llr,
          vadflag = flag\<rparr>)"

definition gmm_likelihood :: "VadInstT \<Rightarrow> int list \<Rightarrow> int \<Rightarrow> int \<Rightarrow> gmm_locals" where
  "gmm_likelihood self features individualTest totalTest =
     (let l = fold (channel_likelihood self features individualTest) [0..<kNumChannels] gmm_start
      in l\<lparr>vadflag := (if sum_log_likelihood_ratios l \<ge> totalTest then 1 else vadflag l)\<rparr>)"

section \<open>The update of the models\<close>

text \<open>Limiting a mean from below and then from above, as the two comparisons do.\<close>

definition limit_mean :: "int \<Rightarrow> int \<Rightarrow> int \<Rightarrow> int" where
  "limit_mean lo hi x = (let x = (if x < lo then lo else x) in if x > hi then hi else x)"

definition update_noise_mean :: "gmm_locals \<Rightarrow> int \<Rightarrow> int \<Rightarrow> nat \<Rightarrow> nat \<Rightarrow> int \<Rightarrow> int" where
  "update_noise_mean l feature_minimum global channel k nmk =
     (let g = channel + k * kNumChannels;
          nmk2 = (if vadflag l = 0
                  then let delt = i16 (shr (ngprvec l ! g * deltaN l ! g) 11)
                       in i16 (nmk + i16 (shr (delt * kNoiseUpdateConst) 22))
                  else nmk);
          ndelt = i16 (shl32 feature_minimum 4 - global);
          nmk3 = i16 (nmk2 + i16 (shr (ndelt * kBackEta) 9))
      in limit_mean (i16 ((int k + 5) * 2 ^ 7)) (i16 ((72 + int k - int channel) * 2 ^ 7)) nmk3)"

definition update_speech_mean :: "gmm_locals \<Rightarrow> int \<Rightarrow> nat \<Rightarrow> nat \<Rightarrow> int \<Rightarrow> int" where
  "update_speech_mean l maxspe channel k smk =
     (let g = channel + k * kNumChannels;
          delt = i16 (shr (sgprvec l ! g * deltaS l ! g) 11);
          tmp_s16 = i16 (shr (delt * kSpeechUpdateConst) 21);
          smk2 = i16 (smk + shr (tmp_s16 + 1) 1);
          maxmu = i16 (maxspe + 640)
      in limit_mean (kMinimumMean ! k) maxmu smk2)"

text \<open>A quotient of the magnitude with the sign put back, both truncated to 16 bits.\<close>

definition signed_quotient :: "int \<Rightarrow> int \<Rightarrow> int" where
  "signed_quotient num den =
     (if num > 0 then i16 (WebRtcSpl_DivW32W16 num den)
      else i16 (- i16 (WebRtcSpl_DivW32W16 (i32 (- num)) den)))"

definition update_speech_std :: "gmm_locals \<Rightarrow> int \<Rightarrow> nat \<Rightarrow> int \<Rightarrow> int \<Rightarrow> int" where
  "update_speech_std l feature g smk ssk =
     (let tmp_s16 = i16 (shr (smk + 4) 3);
          tmp_s16 = i16 (feature - tmp_s16);
          tmp1_s32 = shr (deltaS l ! g * tmp_s16) 3;
          tmp2_s32 = i32 (tmp1_s32 - 4096);
          tmp_s16 = shr (sgprvec l ! g) 2;
          tmp1_s32 = i32 (tmp_s16 * tmp2_s32);
          tmp2_s32 = shr tmp1_s32 4;
          tmp_s16 = signed_quotient tmp2_s32 (i16 (ssk * 10));
          tmp_s16 = i16 (tmp_s16 + 128);
          ssk = i16 (ssk + shr tmp_s16 8)
      in if ssk < kMinStd then kMinStd else ssk)"

definition update_noise_std :: "gmm_locals \<Rightarrow> int \<Rightarrow> nat \<Rightarrow> int \<Rightarrow> int \<Rightarrow> int" where
  "update_noise_std l feature g nmk nsk =
     (let tmp_s16 = i16 (feature - shr nmk 3);
          tmp1_s32 = shr (deltaN l ! g * tmp_s16) 3;
          tmp1_s32 = i32 (tmp1_s32 - 4096);
          tmp_s16 = i16 (shr (ngprvec l ! g + 2) 2);
          tmp2_s32 = i32 (tmp_s16 * tmp1_s32);
          tmp1_s32 = shr tmp2_s32 14;
          tmp_s16 = signed_quotient tmp1_s32 nsk;
          tmp_s16 = i16 (tmp_s16 + 32);
          nsk = i16 (nsk + shr tmp_s16 6)
      in if nsk < kMinStd then kMinStd else nsk)"

text \<open>The body of the loop over the Gaussians of a channel.\<close>

definition update_gaussian :: "gmm_locals \<Rightarrow> int \<Rightarrow> int \<Rightarrow> int \<Rightarrow> int \<Rightarrow> nat \<Rightarrow> nat \<Rightarrow> VadInstT \<Rightarrow> VadInstT" where
  "update_gaussian l feature feature_minimum global maxspe channel k self =
     (let g = channel + k * kNumChannels;
          nmk = noise_means self ! g; smk = speech_means self ! g;
          nsk = noise_stds self ! g; ssk = speech_stds self ! g;
          self = self\<lparr>noise_means := (noise_means self)
                        [g := update_noise_mean l feature_minimum global channel k nmk]\<rparr>
      in if vadflag l \<noteq> 0
         then self\<lparr>speech_means := (speech_means self)[g := update_speech_mean l maxspe channel k smk],
                   speech_stds := (speech_stds self)[g := update_speech_std l feature g smk ssk]\<rparr>
         else self\<lparr>noise_stds := (noise_stds self)[g := update_noise_std l feature g nmk nsk]\<rparr>)"

text \<open>Moving the means of the two models apart when they are too close; also the global means.\<close>

definition separate_models :: "nat \<Rightarrow> VadInstT \<Rightarrow> VadInstT \<times> int \<times> int" where
  "separate_models channel self =
     (let (nmeans, noise_global_mean) = WeightedAverage (noise_means self) channel 0 kNoiseDataWeights;
          (smeans, speech_global_mean) = WeightedAverage (speech_means self) channel 0 kSpeechDataWeights;
          diff = i16 (i16 (shr speech_global_mean 9) - i16 (shr noise_global_mean 9))
      in if diff < kMinimumDifference ! channel
         then let tmp_s16 = i16 (kMinimumDifference ! channel - diff);
                  tmp1_s16 = i16 (shr (13 * tmp_s16) 2);
                  tmp2_s16 = i16 (shr (3 * tmp_s16) 2);
                  (smeans, speech_global_mean) = WeightedAverage smeans channel tmp1_s16 kSpeechDataWeights;
                  (nmeans, noise_global_mean) = WeightedAverage nmeans channel (i16 (- tmp2_s16)) kNoiseDataWeights
              in (self\<lparr>noise_means := nmeans, speech_means := smeans\<rparr>, noise_global_mean, speech_global_mean)
         else (self\<lparr>noise_means := nmeans, speech_means := smeans\<rparr>, noise_global_mean, speech_global_mean))"

text \<open>Subtracting what a global mean exceeds its limit by from both means of the channel.\<close>

definition lower_means :: "int list \<Rightarrow> nat \<Rightarrow> int \<Rightarrow> int \<Rightarrow> int list" where
  "lower_means means channel global limit =
     (let tmp2_s16 = i16 (shr global 7)
      in if tmp2_s16 > limit
         then let d = i16 (tmp2_s16 - limit)
              in fold (\<lambda>k means. means[channel + k * kNumChannels := i16 (means ! (channel + k * kNumChannels) - d)])
                   [0..<kNumGaussians] means
         else means)"

text \<open>The body of the update loop; \<open>maxspe\<close> is carried from one channel to the next.\<close>

definition update_channel :: "gmm_locals \<Rightarrow> int list \<Rightarrow> nat \<Rightarrow> VadInstT \<times> int \<Rightarrow> VadInstT \<times> int" where
  "update_channel l features channel = (\<lambda>(self, maxspe).
     let (self, feature_minimum) = WebRtcVad_FindMinimum self (features ! channel) channel;
         (nmeans, noise_global_mean) = WeightedAverage (noise_means self) channel 0 kNoiseDataWeights;
         self = self\<lparr>noise_means := nmeans\<rparr>;
         tmp1_s16 = i16 (shr noise_global_mean 6);
         self = fold (update_gaussian l (features ! channel) feature_minimum tmp1_s16 maxspe channel)
                  [0..<kNumGaussians] self;
         (self, noise_global_mean, speech_global_mean) = separate_models channel self;
         maxspe = kMaximumSpeech ! channel;
         self = self\<lparr>speech_means := lower_means (speech_means self) channel speech_global_mean maxspe\<rparr>;
         self = self\<lparr>noise_means := lower_means (noise_means self) channel noise_global_mean
                                      (kMaximumNoise ! channel)\<rparr>
     in (self, maxspe))"

definition update_models :: "gmm_locals \<Rightarrow> int list \<Rightarrow> VadInstT \<Rightarrow> VadInstT" where
  "update_models l features self =
     (let (self, _) = fold (update_channel l features) [0..<kNumChannels] (self, 12800)
      in self\<lparr>frame_counter := i32 (frame_counter self + 1)\<rparr>)"

section \<open>Hang-over\<close>

text \<open>The column of the threshold tables for a frame length.\<close>

definition frame_column :: "nat \<Rightarrow> nat" where
  "frame_column frame_length = (if frame_length = 80 then 0 else if frame_length = 160 then 1 else 2)"

definition smooth_decision :: "int \<Rightarrow> int \<Rightarrow> int \<Rightarrow> VadInstT \<Rightarrow> VadInstT \<times> int" where
  "smooth_decision overhead1 overhead2 flag self =
     (if flag = 0 then
        (if over_hang self > 0
         then (self\<lparr>over_hang := i16 (over_hang self - 1), num_of_speech := 0\<rparr>, i16 (2 + over_hang self))
         else (self\<lparr>num_of_speech := 0\<rparr>, 0))
      else
        (let n = i16 (num_of_speech self + 1)
         in if n > kMaxSpeechFrames
            then (self\<lparr>num_of_speech := kMaxSpeechFrames, over_hang := overhead2\<rparr>, flag)
            else (self\<lparr>num_of_speech := n, over_hang := overhead1\<rparr>, flag)))"

definition GmmProbability :: "VadInstT \<Rightarrow> int list \<Rightarrow> int \<Rightarrow> nat \<Rightarrow> VadInstT \<times> int" where
  "GmmProbability self features total_power frame_length =
     (let c = frame_column frame_length;
          overhead1 = over_hang_max_1 self ! c;
          overhead2 = over_hang_max_2 self ! c;
          individualTest = individual self ! c;
          totalTest = total_thresholds self ! c
      in if total_power > kMinEnergy
         then let l = gmm_likelihood self features individualTest totalTest
              in smooth_decision overhead1 overhead2 (vadflag l) (update_models l features self)
         else smooth_decision overhead1 overhead2 0 self)"

section \<open>Initialisation and mode\<close>

definition set_thresholds :: "VadInstT \<Rightarrow> int list \<Rightarrow> int list \<Rightarrow> int list \<Rightarrow> int list \<Rightarrow> VadInstT" where
  "set_thresholds self o1 o2 i t =
     self\<lparr>over_hang_max_1 := o1, over_hang_max_2 := o2, individual := i, total_thresholds := t\<rparr>"

definition WebRtcVad_set_mode_core :: "VadInstT \<Rightarrow> int \<Rightarrow> VadInstT \<times> int" where
  "WebRtcVad_set_mode_core self mode =
     (if mode = 0 then (set_thresholds self kOverHangMax1Q kOverHangMax2Q kLocalThresholdQ kGlobalThresholdQ, 0)
      else if mode = 1 then (set_thresholds self kOverHangMax1LBR kOverHangMax2LBR kLocalThresholdLBR kGlobalThresholdLBR, 0)
      else if mode = 2 then (set_thresholds self kOverHangMax1AGG kOverHangMax2AGG kLocalThresholdAGG kGlobalThresholdAGG, 0)
      else if mode = 3 then (set_thresholds self kOverHangMax1VAG kOverHangMax2VAG kLocalThresholdVAG kGlobalThresholdVAG, 0)
      else (self, - 1))"

text \<open>A null handle is \<open>None\<close>.\<close>

definition WebRtcVad_InitCore :: "VadInstT option \<Rightarrow> VadInstT option \<times> int" where
  "WebRtcVad_InitCore handle =
     (case handle of
        None \<Rightarrow> (None, - 1)
      | Some self \<Rightarrow>
          (let self = self\<lparr>vad := 1, frame_counter := 0, over_hang := 0, num_of_speech := 0,
                 downsampling_filter_states := replicate 4 0,
                 state_48_to_8 := WebRtcSpl_ResetResample48khzTo8khz (state_48_to_8 self),
                 noise_means := kNoiseDataMeans, speech_means := kSpeechDataMeans,
                 noise_stds := kNoiseDataStds, speech_stds := kSpeechDataStds,
                 low_value_vector := replicate (16 * kNumChannels) 10000,
                 index_vector := replicate (16 * kNumChannels) 0,
                 upper_state := replicate 5 0, lower_state := replicate 5 0,
                 hp_filter_state := replicate 4 0, mean_value := replicate kNumChannels 1600\<rparr>;
               (self, r) = WebRtcVad_set_mode_core self kDefaultMode
           in if r \<noteq> 0 then (Some self, - 1) else (Some (self\<lparr>init_flag := kInitCheck\<rparr>), 0)))"

section \<open>One frame per sampling rate\<close>

definition WebRtcVad_CalcVad8khz :: "VadInstT \<Rightarrow> samples \<Rightarrow> VadInstT \<times> int" where
  "WebRtcVad_CalcVad8khz inst speech_frame =
     (let (inst, feature_vector, total_power) = WebRtcVad_CalculateFeatures inst speech_frame;
          (inst, v) = GmmProbability inst feature_vector total_power (length speech_frame);
          inst = inst\<lparr>vad := v\<rparr>
      in (inst, vad inst))"

definition WebRtcVad_CalcVad16khz :: "VadInstT \<Rightarrow> samples \<Rightarrow> VadInstT \<times> int" where
  "WebRtcVad_CalcVad16khz inst speech_frame =
     (let (s, speechNB) = WebRtcVad_Downsampling (mem_slice (downsampling_filter_states inst) 0 2) speech_frame;
          inst = inst\<lparr>downsampling_filter_states := mem_copy (downsampling_filter_states inst) 0 s\<rparr>
      in WebRtcVad_CalcVad8khz inst speechNB)"

definition WebRtcVad_CalcVad32khz :: "VadInstT \<Rightarrow> samples \<Rightarrow> VadInstT \<times> int" where
  "WebRtcVad_CalcVad32khz inst speech_frame =
     (let (s, speechWB) = WebRtcVad_Downsampling (mem_slice (downsampling_filter_states inst) 2 2) speech_frame;
          inst = inst\<lparr>downsampling_filter_states := mem_copy (downsampling_filter_states inst) 2 s\<rparr>;
          (s, speechNB) = WebRtcVad_Downsampling (mem_slice (downsampling_filter_states inst) 0 2) speechWB;
          inst = inst\<lparr>downsampling_filter_states := mem_copy (downsampling_filter_states inst) 0 s\<rparr>
      in WebRtcVad_CalcVad8khz inst speechNB)"

text \<open>
  Every round of the loop reads the same \<open>speech_frame\<close> pointer. The blocks of 80 samples fill
  \<open>speech_nb\<close> one after the other.
\<close>

definition WebRtcVad_CalcVad48khz :: "VadInstT \<Rightarrow> samples \<Rightarrow> VadInstT \<times> int" where
  "WebRtcVad_CalcVad48khz inst speech_frame =
     (let tmp_mem = replicate (480 + 256) 0;
          num_10ms_frames = length speech_frame div 480;
          (state, tmp_mem, speech_nb) =
            fold (\<lambda>i (state, tmp_mem, speech_nb).
                    let (state, tmp_mem, out) = WebRtcSpl_Resample48khzTo8khz speech_frame state tmp_mem
                    in (state, tmp_mem, speech_nb @ out))
              [0..<num_10ms_frames] (state_48_to_8 inst, tmp_mem, []);
          inst = inst\<lparr>state_48_to_8 := state\<rparr>
      in WebRtcVad_CalcVad8khz inst speech_nb)"

section \<open>webrtc_vad.c\<close>

definition kValidRates :: "int list" where "kValidRates = [8000, 16000, 32000, 48000]"

definition kMaxFrameLengthMs :: int where "kMaxFrameLengthMs = 30"

text \<open>
  \<open>malloc\<close> gives a block with arbitrary content, or null, which the code does not check: writing
  \<open>init_flag\<close> through it is undefined behaviour, \<open>None\<close> here.
\<close>

definition WebRtcVad_Create :: "VadInstT option \<Rightarrow> VadInstT option" where
  "WebRtcVad_Create malloc = (case malloc of None \<Rightarrow> None | Some self \<Rightarrow> Some (self\<lparr>init_flag := 0\<rparr>))"

definition WebRtcVad_Init :: "VadInstT option \<Rightarrow> VadInstT option \<times> int" where
  "WebRtcVad_Init handle = WebRtcVad_InitCore handle"

definition WebRtcVad_set_mode :: "VadInstT option \<Rightarrow> int \<Rightarrow> VadInstT option \<times> int" where
  "WebRtcVad_set_mode handle mode =
     (case handle of
        None \<Rightarrow> (None, - 1)
      | Some self \<Rightarrow>
          if init_flag self \<noteq> kInitCheck then (handle, - 1)
          else let (self, r) = WebRtcVad_set_mode_core self mode in (Some self, r))"

definition WebRtcVad_ValidRateAndFrameLength :: "int \<Rightarrow> nat \<Rightarrow> int" where
  "WebRtcVad_ValidRateAndFrameLength rate frame_length =
     (case find (\<lambda>r. r = rate) kValidRates of
        None \<Rightarrow> - 1
      | Some r \<Rightarrow>
          if list_ex (\<lambda>ms. int frame_length = r sdiv 1000 * ms) [10, 20, kMaxFrameLengthMs] then 0 else - 1)"

text \<open>A null frame is \<open>None\<close>; the list of a frame has \<open>frame_length\<close> samples.\<close>

definition WebRtcVad_Process :: "VadInstT option \<Rightarrow> int \<Rightarrow> samples option \<Rightarrow> VadInstT option \<times> int" where
  "WebRtcVad_Process handle fs audio_frame =
     (case handle of
        None \<Rightarrow> (None, - 1)
      | Some self \<Rightarrow>
          if init_flag self \<noteq> kInitCheck then (handle, - 1)
          else (case audio_frame of
             None \<Rightarrow> (handle, - 1)
           | Some frame \<Rightarrow>
               if WebRtcVad_ValidRateAndFrameLength fs (length frame) \<noteq> 0 then (handle, - 1)
               else let (self, v) =
                      (if fs = 48000 then WebRtcVad_CalcVad48khz self frame
                       else if fs = 32000 then WebRtcVad_CalcVad32khz self frame
                       else if fs = 16000 then WebRtcVad_CalcVad16khz self frame
                       else if fs = 8000 then WebRtcVad_CalcVad8khz self frame
                       else (self, - 1))
                    in (Some self, if v > 0 then 1 else v)))"

section \<open>What the model update leaves alone\<close>

text \<open>The fields that decide about hang-over, mode and initialisation.\<close>

definition control :: "VadInstT \<Rightarrow> int \<times> int \<times> int list \<times> int list \<times> int list \<times> int list \<times> int" where
  "control self = (over_hang self, num_of_speech self, over_hang_max_1 self, over_hang_max_2 self,
     individual self, total_thresholds self, init_flag self)"

named_theorems control_simps \<open>operations that leave the control fields alone\<close>

lemma fold_keeps: "(\<And>x s. f (g x s) = f s) \<Longrightarrow> f (fold g xs s) = f s"
  by (induction xs arbitrary: s) simp_all

lemma control_FindMinimum [control_simps]: "control (fst (WebRtcVad_FindMinimum self x c)) = control self"
  by (simp add: WebRtcVad_FindMinimum_def control_def Let_def split_def)

lemma control_update_gaussian [control_simps]:
  "control (update_gaussian l f m g s c k self) = control self"
  by (simp add: update_gaussian_def control_def Let_def)

lemma control_separate_models [control_simps]: "control (fst (separate_models c self)) = control self"
  by (simp add: separate_models_def control_def Let_def split_def)

lemma control_means [control_simps]:
  "control (self\<lparr>noise_means := x\<rparr>) = control self" "control (self\<lparr>speech_means := x\<rparr>) = control self"
  "control (self\<lparr>frame_counter := n\<rparr>) = control self" "control (self\<lparr>vad := n\<rparr>) = control self"
  "control (self\<lparr>hp_filter_state := x\<rparr>) = control self" "control (self\<lparr>downsampling_filter_states := x\<rparr>) = control self"
  "control (self\<lparr>state_48_to_8 := r\<rparr>) = control self"
  by (simp_all add: control_def)

lemma control_update_channel [control_simps]:
  "control (fst (update_channel l f c s)) = control (fst s)"
  by (cases s) (simp add: update_channel_def Let_def split_def control_simps
      fold_keeps [of control "update_gaussian _ _ _ _ _ _"])

lemma control_update_models [control_simps]: "control (update_models l f self) = control self"
  using fold_keeps [of "\<lambda>s. control (fst s)" "update_channel l f" "[0..<kNumChannels]" "(self, 12800)"]
  by (simp add: update_models_def split_def control_simps Let_def)

lemma control_split_band [control_simps]: "control (fst (split_band self b xs)) = control self"
  by (simp add: split_band_def control_def Let_def split_def)

lemma control_CalculateFeatures [control_simps]:
  "control (fst (WebRtcVad_CalculateFeatures self xs)) = control self"
  by (simp add: WebRtcVad_CalculateFeatures_def Let_def split_def control_simps)

section \<open>Hang-over\<close>

text \<open>
  The reference: a machine over the raw decisions with a counter of the frames still to be called speech
  and one of the speech frames in a row.
\<close>

definition hang_step :: "int \<Rightarrow> int \<Rightarrow> int \<times> int \<Rightarrow> int \<Rightarrow> (int \<times> int) \<times> int" where
  "hang_step o1 o2 = (\<lambda>(h, n) f.
     if f = 0 then (if h > 0 then ((h - 1, 0), 2 + h) else ((h, 0), 0))
     else if n \<ge> 6 then ((o2, 6), f) else ((o1, n + 1), f))"

lemma run_snoc:
  "fst (run f s (xs @ [x])) = fst (f (fst (run f s xs)) x)"
  "snd (run f s (xs @ [x])) = snd (run f s xs) @ [snd (f (fst (run f s xs)) x)]"
  by (simp_all add: run_append split_def Let_def)

lemma replicate_snoc: "replicate (Suc n) x = replicate n x @ [x]"
  by (simp add: replicate_append_same)

lemma hang_ones:
  "fst (run (hang_step o1 o2) (h, 0) (replicate r 1)) =
     (if r = 0 then (h, 0) else (if r > 6 then o2 else o1, int (min r 6)))"
proof (induction r)
  case (Suc r)
  show ?case unfolding replicate_snoc run_snoc Suc.IH by (auto simp: hang_step_def min_def)
qed simp

lemma hang_zeros:
  assumes "0 \<le> h"
  shows "fst (run (hang_step o1 o2) (h, n) (replicate (Suc z) 0)) = (max 0 (h - int z - 1), 0)"
    and "last (snd (run (hang_step o1 o2) (h, n) (replicate (Suc z) 0))) =
      (if int z < h then 2 + h - int z else 0)"
proof (induction z)
  case 0
  case 1 show ?case using assms by (simp add: hang_step_def)
  case 2 show ?case using assms by (simp add: hang_step_def)
next
  case (Suc z)
  case 1 show ?case unfolding replicate_snoc [of "Suc z"] run_snoc Suc.IH by (auto simp: hang_step_def)
  case 2 show ?case unfolding replicate_snoc [of "Suc z"] run_snoc Suc.IH by (auto simp: hang_step_def)
qed

text \<open>The counters stay in range, and after a frame without speech the row is over.\<close>

definition hang_ok :: "int \<times> int \<Rightarrow> bool" where
  "hang_ok s \<longleftrightarrow> 0 \<le> fst s \<and> fst s \<le> 14 \<and> 0 \<le> snd s \<and> snd s \<le> 6"

lemma hang_ok_step:
  "hang_ok s \<Longrightarrow> 0 \<le> o1 \<and> o1 \<le> 14 \<Longrightarrow> 0 \<le> o2 \<and> o2 \<le> 14 \<Longrightarrow> hang_ok (fst (hang_step o1 o2 s f))"
  by (cases s) (auto simp: hang_ok_def hang_step_def)

lemma hang_after_pause:
  assumes "fs = [] \<or> last fs = 0" "snd s = 0"
  shows "snd (fst (run (hang_step o1 o2) s fs)) = 0"
proof (cases fs rule: rev_cases)
  case (snoc gs g)
  then have "g = 0" using assms(1) by simp
  then show ?thesis unfolding snoc run_snoc by (auto simp: hang_step_def split_def)
qed (simp add: assms(2))

lemma hang_burst:
  assumes "0 \<le> o1" "0 \<le> o2" "snd s = 0"
    and "pre = [] \<or> last pre = 0" "0 < r" "0 < z"
  shows "last (snd (run (hang_step o1 o2) s (pre @ replicate r 1 @ replicate z 0))) =
    (let h = (if r > 6 then o2 else o1) in if int z \<le> h then 3 + h - int z else 0)"
proof -
  obtain z' where z: "z = Suc z'" using assms(6) gr0_implies_Suc by blast
  define h where "h = (if r > 6 then o2 else o1)"
  obtain h0 where "fst (run (hang_step o1 o2) s pre) = (h0, 0)"
    using hang_after_pause [OF assms(4,3)] by (metis prod.collapse)
  then have "fst (run (hang_step o1 o2) s (pre @ replicate r 1)) = (h, int (min r 6))"
    using hang_ones [of o1 o2 h0 r] assms(5) by (simp add: run_append split_def Let_def h_def)
  then have "snd (run (hang_step o1 o2) s (pre @ replicate r 1 @ replicate z 0)) =
      snd (run (hang_step o1 o2) s (pre @ replicate r 1)) @
      snd (run (hang_step o1 o2) (h, int (min r 6)) (replicate z 0))"
    using run_append [of "hang_step o1 o2" s "pre @ replicate r 1" "replicate z 0"]
    by (simp add: split_def Let_def)
  moreover have "snd (run (hang_step o1 o2) (h, int (min r 6)) (replicate z 0)) \<noteq> []"
    using length_run_outputs [of "hang_step o1 o2" "(h, int (min r 6))" "replicate z 0"] assms(6)
    by (metis length_replicate list.size(3) less_irrefl)
  moreover have "0 \<le> h" using assms(1,2) by (simp add: h_def)
  ultimately show ?thesis
    using hang_zeros(2) [of h o1 o2 "int (min r 6)" z'] by (simp add: z Let_def flip: h_def del: replicate.simps)
qed

text \<open>The detector follows the machine on its raw decisions.\<close>

definition raw_decision :: "VadInstT \<Rightarrow> samples \<Rightarrow> int" where
  "raw_decision inst frame =
     (let (inst, features, power_sum) = WebRtcVad_CalculateFeatures inst frame; c = frame_column (length frame)
      in if power_sum > kMinEnergy
         then vadflag (gmm_likelihood inst features (individual inst ! c) (total_thresholds inst ! c)) else 0)"

fun raw_decisions :: "VadInstT \<Rightarrow> samples list \<Rightarrow> int list" where
  "raw_decisions inst [] = []"
| "raw_decisions inst (frame # frames) =
     raw_decision inst frame # raw_decisions (fst (WebRtcVad_CalcVad8khz inst frame)) frames"

definition hang_state :: "VadInstT \<Rightarrow> int \<times> int" where
  "hang_state inst = (over_hang inst, num_of_speech inst)"

lemma smooth_decision_hang:
  assumes "hang_ok (hang_state inst)"
  shows "hang_state (fst (smooth_decision o1 o2 f inst)) = fst (hang_step o1 o2 (hang_state inst) f)"
    and "snd (smooth_decision o1 o2 f inst) = snd (hang_step o1 o2 (hang_state inst) f)"
    and "over_hang_max_1 (fst (smooth_decision o1 o2 f inst)) = over_hang_max_1 inst"
    and "over_hang_max_2 (fst (smooth_decision o1 o2 f inst)) = over_hang_max_2 inst"
  using assms by (auto simp: smooth_decision_def hang_step_def hang_state_def hang_ok_def kMaxSpeechFrames_def
      Let_def i16_id in_i16_def)

lemma CalcVad8khz_hang:
  fixes inst :: VadInstT and frame :: samples
  assumes "hang_ok (hang_state inst)"
  defines "o1 \<equiv> over_hang_max_1 inst ! frame_column (length frame)"
    and "o2 \<equiv> over_hang_max_2 inst ! frame_column (length frame)"
  shows "hang_state (fst (WebRtcVad_CalcVad8khz inst frame)) =
      fst (hang_step o1 o2 (hang_state inst) (raw_decision inst frame))"
    and "snd (WebRtcVad_CalcVad8khz inst frame) = snd (hang_step o1 o2 (hang_state inst) (raw_decision inst frame))"
    and "over_hang_max_1 (fst (WebRtcVad_CalcVad8khz inst frame)) = over_hang_max_1 inst"
    and "over_hang_max_2 (fst (WebRtcVad_CalcVad8khz inst frame)) = over_hang_max_2 inst"
proof -
  obtain inst' features p where c: "WebRtcVad_CalculateFeatures inst frame = (inst', features, p)"
    by (cases "WebRtcVad_CalculateFeatures inst frame")
  have k: "control inst' = control inst" using control_CalculateFeatures [of inst frame] by (simp add: c)
  define l where "l = gmm_likelihood inst' features (individual inst' ! frame_column (length frame))
      (total_thresholds inst' ! frame_column (length frame))"
  define inst2 where "inst2 = (if p > kMinEnergy then update_models l features inst' else inst')"
  have k2: "control inst2 = control inst" by (simp add: inst2_def control_simps k)
  then have hs: "hang_state inst2 = hang_state inst" "over_hang_max_1 inst2 = over_hang_max_1 inst"
    "over_hang_max_2 inst2 = over_hang_max_2 inst" by (simp_all add: control_def hang_state_def)
  have f: "raw_decision inst frame = (if p > kMinEnergy then vadflag l else 0)"
    by (simp add: raw_decision_def c l_def Let_def)
  have g: "GmmProbability inst' features p (length frame) = smooth_decision o1 o2 (raw_decision inst frame) inst2"
    using k by (simp add: GmmProbability_def f inst2_def l_def o1_def o2_def control_def Let_def)
  note s = smooth_decision_hang [of inst2 o1 o2 "raw_decision inst frame", unfolded hs, OF assms(1)]
  show "hang_state (fst (WebRtcVad_CalcVad8khz inst frame)) =
      fst (hang_step o1 o2 (hang_state inst) (raw_decision inst frame))"
    using s(1) by (simp add: WebRtcVad_CalcVad8khz_def c g hang_state_def split_def Let_def)
  show "snd (WebRtcVad_CalcVad8khz inst frame) = snd (hang_step o1 o2 (hang_state inst) (raw_decision inst frame))"
    using s(2) by (simp add: WebRtcVad_CalcVad8khz_def c g split_def Let_def)
  show "over_hang_max_1 (fst (WebRtcVad_CalcVad8khz inst frame)) = over_hang_max_1 inst"
    "over_hang_max_2 (fst (WebRtcVad_CalcVad8khz inst frame)) = over_hang_max_2 inst"
    using s(3,4) by (simp_all add: WebRtcVad_CalcVad8khz_def c g split_def Let_def)
qed


lemma CalcVad8khz_run_hang:
  assumes "list_all (\<lambda>frame. length frame = n) frames" "hang_ok (hang_state inst)"
    and "over_hang_max_1 inst ! frame_column n = o1" "over_hang_max_2 inst ! frame_column n = o2"
    and "0 \<le> o1 \<and> o1 \<le> 14" "0 \<le> o2 \<and> o2 \<le> 14"
  shows "snd (run WebRtcVad_CalcVad8khz inst frames) =
    snd (run (hang_step o1 o2) (hang_state inst) (raw_decisions inst frames))"
  using assms(1-4)
proof (induction frames arbitrary: inst)
  case (Cons frame frames)
  note h = CalcVad8khz_hang [of inst frame]
  have "hang_ok (hang_state (fst (WebRtcVad_CalcVad8khz inst frame)))"
    using h(1) Cons.prems hang_ok_step [OF _ assms(5,6)] by simp
  then show ?case using Cons.IH [of "fst (WebRtcVad_CalcVad8khz inst frame)"] Cons.prems h
    by (simp add: split_def Let_def)
qed simp

text \<open>C21: The hang-over of the detector. In any sequence of 8 kHz frames of one length, when the raw decisions end
  with a burst of \<open>r\<close> speech frames followed by \<open>z\<close> frames without speech, the value returned
  for the last frame is \<open>3 + h - z\<close> as long as \<open>z\<close> is at most \<open>h\<close>, and 0 from then on, where \<open>h\<close> is the longer of
  the mode's two hang-over times if the burst was longer than six frames and the shorter one otherwise. In particular
  the detector falls silent at most 14 frames after the last raw speech frame, and the values returned
  reach up to 16.\<close>

theorem hang_over:
  assumes "list_all (\<lambda>frame. length frame = n) frames"
    and "0 \<le> over_hang inst" "over_hang inst \<le> 14" "num_of_speech inst = 0"
    and "over_hang_max_1 inst ! frame_column n = o1" "over_hang_max_2 inst ! frame_column n = o2"
    and "0 \<le> o1" "o1 \<le> 14" "0 \<le> o2" "o2 \<le> 14"
    and "raw_decisions inst frames = pre @ replicate r 1 @ replicate z 0"
    and "pre = [] \<or> last pre = 0" "0 < r" "0 < z"
  shows "last (snd (run WebRtcVad_CalcVad8khz inst frames)) =
    (let h = (if r > 6 then o2 else o1) in if int z \<le> h then 3 + h - int z else 0)"
proof -
  have "hang_ok (hang_state inst)" using assms(2-4) by (simp add: hang_ok_def hang_state_def)
  then have "snd (run WebRtcVad_CalcVad8khz inst frames) =
      snd (run (hang_step o1 o2) (hang_state inst) (pre @ replicate r 1 @ replicate z 0))"
    using CalcVad8khz_run_hang [OF assms(1) _ assms(5,6)] assms(7-11) by simp
  then show ?thesis
    using hang_burst [of o1 o2 "hang_state inst" pre r z] assms by (simp add: hang_state_def)
qed


text \<open>A frame of a square wave counts as speech, the silence after it does not.\<close>

definition square_frame :: samples where
  "square_frame = [500, - 500, 500, - 500, 500, - 500, 500, - 500, 500, - 500, 500, - 500, 500, - 500, 500, - 500]"

lemma raw_decisions_example: "raw_decisions fresh_inst [square_frame, replicate 16 0] = [1, 0]"
  by code_simp

lemma fresh_hang: "over_hang fresh_inst = 0" "num_of_speech fresh_inst = 0" "over_hang_max_1 fresh_inst = [8, 4, 3]"
  "over_hang_max_2 fresh_inst = [14, 7, 5]"
  by (simp_all add: fresh_inst_def)

lemma hang_over_witness:
  "last (snd (run WebRtcVad_CalcVad8khz fresh_inst [square_frame, replicate 16 0])) = 5"
  using hang_over [of 16 "[square_frame, replicate 16 0]" fresh_inst 3 5 "[]" 1 1]
  by (simp add: raw_decisions_example fresh_hang frame_column_def del: run.simps raw_decisions.simps)
    (simp add: square_frame_def)

section \<open>The invariant of an instance\<close>

definition stds_ok :: "int list \<Rightarrow> bool" where
  "stds_ok s \<longleftrightarrow> length s = 12 \<and> list_all (\<lambda>x. 378 \<le> x \<and> x \<le> 32767) s"

definition models_ok :: "VadInstT \<Rightarrow> bool" where
  "models_ok self \<longleftrightarrow> length (noise_means self) = 12 \<and> length (speech_means self) = 12 \<and>
     stds_ok (noise_stds self) \<and> stds_ok (speech_stds self)"

definition filters_ok :: "VadInstT \<Rightarrow> bool" where
  "filters_ok self \<longleftrightarrow> length (upper_state self) = 5 \<and> length (lower_state self) = 5 \<and>
     length (hp_filter_state self) = 4 \<and> length (downsampling_filter_states self) = 4 \<and>
     wf_48_8 (state_48_to_8 self)"

definition vad_thresholds_ok :: "VadInstT \<Rightarrow> bool" where
  "vad_thresholds_ok self \<longleftrightarrow> (\<forall>c < 3. 0 \<le> over_hang_max_1 self ! c \<and> over_hang_max_1 self ! c \<le> 14 \<and>
       0 \<le> over_hang_max_2 self ! c \<and> over_hang_max_2 self ! c \<le> 14) \<and>
     length (over_hang_max_1 self) = 3 \<and> length (over_hang_max_2 self) = 3 \<and>
     length (individual self) = 3 \<and> length (total_thresholds self) = 3"

definition data_ok :: "VadInstT \<Rightarrow> bool" where
  "data_ok self \<longleftrightarrow> tracking_ok self \<and> models_ok self \<and> filters_ok self"

definition vad_ok :: "VadInstT \<Rightarrow> bool" where
  "vad_ok self \<longleftrightarrow> data_ok self \<and> hang_ok (hang_state self) \<and> vad_thresholds_ok self \<and>
     init_flag self = kInitCheck"

text \<open>The model update.\<close>

lemma stds_ok_update: "stds_ok s \<Longrightarrow> 384 \<le> x \<Longrightarrow> x \<le> 32767 \<Longrightarrow> stds_ok (s[i := x])"
  by (simp add: stds_ok_def list_all_update)

lemma update_std_bounds:
  "384 \<le> update_speech_std l f g m s" "update_speech_std l f g m s \<le> 32767"
  "384 \<le> update_noise_std l f g m s" "update_noise_std l f g m s \<le> 32767"
  by (simp_all add: update_speech_std_def update_noise_std_def kMinStd_def Let_def i16_bounds)

lemma length_WeightedAverage [shape, simp]: "length (fst (WeightedAverage m c x w)) = length m"
  by (simp add: WeightedAverage_def split_def Let_def kNumGaussians_def numeral_2_eq_2)

lemma length_lower_means [shape, simp]: "length (lower_means m c g n) = length m"
  by (simp add: lower_means_def Let_def kNumGaussians_def numeral_2_eq_2)

lemma data_ok_FindMinimum: "data_ok self \<Longrightarrow> c < 6 \<Longrightarrow> data_ok (fst (WebRtcVad_FindMinimum self x c))"
  using FindMinimum_tracking_ok [of self c x]
  by (simp add: data_ok_def) (simp add: models_ok_def filters_ok_def WebRtcVad_FindMinimum_def Let_def split_def)

lemma tracking_ok_means [simp]:
  "tracking_ok (self\<lparr>noise_means := x\<rparr>) = tracking_ok self" "tracking_ok (self\<lparr>speech_means := x\<rparr>) = tracking_ok self"
  "tracking_ok (self\<lparr>noise_stds := x\<rparr>) = tracking_ok self" "tracking_ok (self\<lparr>speech_stds := x\<rparr>) = tracking_ok self"
  "tracking_ok (self\<lparr>frame_counter := n\<rparr>) = tracking_ok self" "tracking_ok (self\<lparr>vad := n\<rparr>) = tracking_ok self"
  "tracking_ok (self\<lparr>hp_filter_state := x\<rparr>) = tracking_ok self"
  "tracking_ok (self\<lparr>upper_state := x\<rparr>) = tracking_ok self" "tracking_ok (self\<lparr>lower_state := x\<rparr>) = tracking_ok self"
  "tracking_ok (self\<lparr>downsampling_filter_states := x\<rparr>) = tracking_ok self"
  "tracking_ok (self\<lparr>state_48_to_8 := r\<rparr>) = tracking_ok self"
  "tracking_ok (self\<lparr>over_hang := n\<rparr>) = tracking_ok self" "tracking_ok (self\<lparr>num_of_speech := n\<rparr>) = tracking_ok self"
  by (simp_all add: tracking_ok_def channel_values_def)

lemma data_ok_update_gaussian: "data_ok self \<Longrightarrow> data_ok (update_gaussian l f m g s c k self)"
  by (simp add: update_gaussian_def Let_def data_ok_def models_ok_def filters_ok_def stds_ok_update update_std_bounds)

lemma fold_inv: "P s \<Longrightarrow> (\<And>x s. x \<in> set xs \<Longrightarrow> P s \<Longrightarrow> P (g x s)) \<Longrightarrow> P (fold g xs s)"
  by (induction xs arbitrary: s) simp_all

lemma data_ok_separate_models: "data_ok self \<Longrightarrow> data_ok (fst (separate_models c self))"
  by (simp add: separate_models_def Let_def split_def data_ok_def models_ok_def filters_ok_def)

lemma data_ok_means:
  "data_ok self \<Longrightarrow> length x = 12 \<Longrightarrow> data_ok (self\<lparr>noise_means := x\<rparr>)"
  "data_ok self \<Longrightarrow> length x = 12 \<Longrightarrow> data_ok (self\<lparr>speech_means := x\<rparr>)"
  "data_ok self \<Longrightarrow> data_ok (self\<lparr>frame_counter := n\<rparr>)"
  "data_ok self \<Longrightarrow> data_ok (self\<lparr>vad := n\<rparr>)"
  by (simp_all add: data_ok_def models_ok_def filters_ok_def)

lemma data_ok_lengths: "data_ok self \<Longrightarrow> length (noise_means self) = 12 \<and> length (speech_means self) = 12"
  by (simp add: data_ok_def models_ok_def)

lemma data_ok_update_channel:
  assumes "data_ok (fst s)" "c < 6"
  shows "data_ok (fst (update_channel l f c s))"
proof -
  obtain self maxspe where s: "s = (self, maxspe)" by (cases s)
  obtain s1 m where f1: "WebRtcVad_FindMinimum self (f ! c) c = (s1, m)" by (cases "WebRtcVad_FindMinimum self (f ! c) c")
  have s1: "data_ok s1" using data_ok_FindMinimum [of self c "f ! c"] assms by (simp add: s f1)
  define s2 where "s2 = s1\<lparr>noise_means := fst (WeightedAverage (noise_means s1) c 0 kNoiseDataWeights)\<rparr>"
  have s2: "data_ok s2" using s1 data_ok_lengths [OF s1] by (simp add: s2_def data_ok_means)
  define s3 where "s3 = fold (update_gaussian l (f ! c) m (i16 (shr (snd (WeightedAverage (noise_means s1) c 0 kNoiseDataWeights)) 6)) maxspe c)
      [0..<kNumGaussians] s2"
  have s3: "data_ok s3" unfolding s3_def using s2 by (intro fold_inv [of data_ok]) (auto intro: data_ok_update_gaussian)
  obtain s4 ng sg where f4: "separate_models c s3 = (s4, ng, sg)" by (cases "separate_models c s3")
  have s4: "data_ok s4" using data_ok_separate_models [OF s3, of c] by (simp add: f4)
  show ?thesis
    using s4 data_ok_lengths [OF s4]
    by (simp add: update_channel_def s f1 Let_def split_def data_ok_means f4 flip: s2_def s3_def)
qed

lemma data_ok_update_models: 
  assumes "data_ok self" 
  shows "data_ok (update_models l f self)"
proof -
  have "data_ok (fst (fold (update_channel l f) [0..<kNumChannels] (self, 12800)))"
    using assms by (intro fold_inv [of "\<lambda>s. data_ok (fst s)"]) (auto simp: kNumChannels_def intro: data_ok_update_channel)
  then show ?thesis by (simp add: update_models_def split_def Let_def data_ok_means)
qed


text \<open>The filter bank and the hang-over.\<close>

lemma length_high_pass_step [shape, simp]: "length (fst (high_pass_step s x)) = length s"
  by (simp add: high_pass_step_def Let_def)

lemma length_HighPassFilter [shape, simp]: "length (fst (HighPassFilter xs s)) = length s"
  unfolding HighPassFilter_def by (induction xs arbitrary: s) (simp_all add: split_def Let_def)

lemma data_ok_split_band: "data_ok self \<Longrightarrow> data_ok (fst (split_band self b xs))"
  by (simp add: split_band_def Let_def split_def data_ok_def models_ok_def filters_ok_def)

lemma data_ok_hp: "data_ok self \<Longrightarrow> length x = 4 \<Longrightarrow> data_ok (self\<lparr>hp_filter_state := x\<rparr>)"
  "data_ok self \<Longrightarrow> length (hp_filter_state self) = 4"
  by (simp_all add: data_ok_def models_ok_def filters_ok_def)

lemma data_ok_CalculateFeatures: "data_ok self \<Longrightarrow> data_ok (fst (WebRtcVad_CalculateFeatures self xs))"
  by (simp add: WebRtcVad_CalculateFeatures_def Let_def split_def data_ok_split_band data_ok_hp)

lemma data_ok_smooth_decision: "data_ok self \<Longrightarrow> data_ok (fst (smooth_decision o1 o2 f self))"
  by (simp add: smooth_decision_def Let_def data_ok_def models_ok_def filters_ok_def)

lemma control_smooth_decision:
  "vad_thresholds_ok (fst (smooth_decision o1 o2 f self)) = vad_thresholds_ok self"
  "init_flag (fst (smooth_decision o1 o2 f self)) = init_flag self"
  by (simp_all add: smooth_decision_def vad_thresholds_ok_def Let_def)

lemma control_ok:
  assumes "control a = control b"
  shows "vad_thresholds_ok a = vad_thresholds_ok b" "hang_state a = hang_state b" "init_flag a = init_flag b"
  using assms by (simp_all add: control_def vad_thresholds_ok_def hang_state_def)

lemma frame_column_3: "frame_column n < 3"
  by (simp add: frame_column_def)

lemma raw_decision_flag: "raw_decision inst frame = 0 \<or> raw_decision inst frame = 1"
proof -
  have v: "vadflag (channel_likelihood self f t c l) = 0 \<or> vadflag (channel_likelihood self f t c l) = 1"
    if "vadflag l = 0 \<or> vadflag l = 1" for self f t c l
    using that by (auto simp: channel_likelihood_def Let_def split_def)
  have "vadflag (fold (channel_likelihood self f t) cs gmm_start) = 0 \<or>
      vadflag (fold (channel_likelihood self f t) cs gmm_start) = 1" for self f t cs
    by (rule fold_inv [of "\<lambda>l. vadflag l = 0 \<or> vadflag l = 1"]) (simp_all add: gmm_start_def v)
  then show ?thesis by (auto simp: raw_decision_def gmm_likelihood_def Let_def split_def)
qed

lemma CalcVad8khz_ok:
  assumes "vad_ok inst"
  shows "vad_ok (fst (WebRtcVad_CalcVad8khz inst frame))" and "0 \<le> snd (WebRtcVad_CalcVad8khz inst frame)"
proof -
  obtain inst' features p where c: "WebRtcVad_CalculateFeatures inst frame = (inst', features, p)"
    by (cases "WebRtcVad_CalculateFeatures inst frame")
  define col where "col = frame_column (length frame)"
  have k: "control inst' = control inst" using control_CalculateFeatures [of inst frame] by (simp add: c)
  have d: "data_ok inst'" using data_ok_CalculateFeatures [of inst frame] assms by (simp add: c vad_ok_def)
  have t: "0 \<le> over_hang_max_1 inst ! col \<and> over_hang_max_1 inst ! col \<le> 14"
    "0 \<le> over_hang_max_2 inst ! col \<and> over_hang_max_2 inst ! col \<le> 14"
    using assms frame_column_3 [of "length frame"] by (simp_all add: vad_ok_def vad_thresholds_ok_def col_def)
  have h: "hang_ok (hang_state inst)" using assms by (simp add: vad_ok_def)
  note hang = CalcVad8khz_hang [OF h, of frame, folded col_def]
  have "data_ok (fst (GmmProbability inst' features p (length frame))) \<and>
      vad_thresholds_ok (fst (GmmProbability inst' features p (length frame))) = vad_thresholds_ok inst' \<and>
      init_flag (fst (GmmProbability inst' features p (length frame))) = init_flag inst'"
    using d by (simp add: GmmProbability_def Let_def data_ok_smooth_decision data_ok_update_models
        control_smooth_decision control_ok [OF control_update_models])
  moreover have "vad_thresholds_ok (self\<lparr>vad := n\<rparr>) = vad_thresholds_ok self" for self n
    by (simp add: vad_thresholds_ok_def)
  ultimately show "vad_ok (fst (WebRtcVad_CalcVad8khz inst frame))"
    using assms control_ok [OF k] hang_ok_step [OF h t, of "raw_decision inst frame"]
    by (simp add: vad_ok_def hang(1)) (simp add: WebRtcVad_CalcVad8khz_def c Let_def split_def data_ok_means)
  show "0 \<le> snd (WebRtcVad_CalcVad8khz inst frame)"
    using h raw_decision_flag [of inst frame] by (auto simp: hang(2) hang_step_def split_def)
qed

text \<open>The other sampling rates.\<close>

lemma vad_ok_states:
  "vad_ok inst \<Longrightarrow> length x = 4 \<Longrightarrow> vad_ok (inst\<lparr>downsampling_filter_states := x\<rparr>)"
  "vad_ok inst \<Longrightarrow> wf_48_8 r \<Longrightarrow> vad_ok (inst\<lparr>state_48_to_8 := r\<rparr>)"
  "vad_ok inst \<Longrightarrow> length (downsampling_filter_states inst) = 4"
  "vad_ok inst \<Longrightarrow> wf_48_8 (state_48_to_8 inst)"
  by (simp_all add: vad_ok_def data_ok_def models_ok_def filters_ok_def vad_thresholds_ok_def hang_state_def)

lemma length_Downsampling [shape, simp]:
  "length (fst (WebRtcVad_Downsampling s xs)) = length s" "length (snd (WebRtcVad_Downsampling s xs)) = length xs div 2"
  by (simp_all add: WebRtcVad_Downsampling_def split_def Let_def)

lemma vad_ok_downsampled:
  "vad_ok inst \<Longrightarrow> k + 2 \<le> 4 \<Longrightarrow> length s = 2 \<Longrightarrow>
   vad_ok (inst\<lparr>downsampling_filter_states := mem_copy (downsampling_filter_states inst) k s\<rparr>)"
  by (simp add: vad_ok_states)

lemma CalcVad16khz_ok:
  assumes "vad_ok inst"
  shows "vad_ok (fst (WebRtcVad_CalcVad16khz inst frame))" and "0 \<le> snd (WebRtcVad_CalcVad16khz inst frame)"
  using assms by (simp_all add: WebRtcVad_CalcVad16khz_def Let_def split_def CalcVad8khz_ok vad_ok_downsampled vad_ok_states)

lemma CalcVad32khz_ok:
  assumes "vad_ok inst"
  shows "vad_ok (fst (WebRtcVad_CalcVad32khz inst frame))" and "0 \<le> snd (WebRtcVad_CalcVad32khz inst frame)"
  using assms by (simp_all add: WebRtcVad_CalcVad32khz_def Let_def split_def CalcVad8khz_ok vad_ok_states)

text \<open>The loop of the 48 kHz case.\<close>

definition resample_round :: "samples \<Rightarrow> nat \<Rightarrow> WebRtcSpl_State48khzTo8khz \<times> int list \<times> samples
    \<Rightarrow> WebRtcSpl_State48khzTo8khz \<times> int list \<times> samples" where
  "resample_round frame i = (\<lambda>(state, tmp_mem, speech_nb).
     let (state, tmp_mem, out) = WebRtcSpl_Resample48khzTo8khz frame state tmp_mem in (state, tmp_mem, speech_nb @ out))"

lemma CalcVad48khz_rounds:
  "WebRtcVad_CalcVad48khz inst frame =
     (let (state, _, speech_nb) = fold (resample_round frame) [0..<length frame div 480]
            (state_48_to_8 inst, replicate 736 0, [])
      in WebRtcVad_CalcVad8khz (inst\<lparr>state_48_to_8 := state\<rparr>) speech_nb)"
  by (simp add: WebRtcVad_CalcVad48khz_def resample_round_def [abs_def] Let_def split_def)

lemma CalcVad48khz_ok:
  assumes "vad_ok inst"
  shows "vad_ok (fst (WebRtcVad_CalcVad48khz inst frame))" and "0 \<le> snd (WebRtcVad_CalcVad48khz inst frame)"
proof -
  define r where "r = fold (resample_round frame) [0..<length frame div 480] (state_48_to_8 inst, replicate 736 0, [])"
  have "wf_48_8 (fst r) \<and> length (fst (snd r)) = 736"
    unfolding r_def
  proof (rule fold_inv [of "\<lambda>r. wf_48_8 (fst r) \<and> length (fst (snd r)) = 736"])
    fix i and s :: "WebRtcSpl_State48khzTo8khz \<times> int list \<times> samples"
    assume i: "i \<in> set [0..<length frame div 480]" and s: "wf_48_8 (fst s) \<and> length (fst (snd s)) = 736"
    then have "480 \<le> length frame" by (cases "length frame div 480") auto
    then show "wf_48_8 (fst (resample_round frame i s)) \<and> length (fst (snd (resample_round frame i s))) = 736"
      using s Resample48khzTo8khz_shape [of "fst s" frame "fst (snd s)"]
      by (simp add: resample_round_def split_def Let_def)
  qed (simp add: assms vad_ok_states)
  then have "vad_ok (inst\<lparr>state_48_to_8 := fst r\<rparr>)" using assms by (simp add: vad_ok_states)
  then show "vad_ok (fst (WebRtcVad_CalcVad48khz inst frame))" "0 \<le> snd (WebRtcVad_CalcVad48khz inst frame)"
    by (simp_all add: CalcVad48khz_rounds split_def Let_def CalcVad8khz_ok flip: r_def)
qed


section \<open>Sessions\<close>

datatype vad_call = Process int "samples option" | Set_mode int

definition vad_step :: "VadInstT option \<Rightarrow> vad_call \<Rightarrow> VadInstT option \<times> int" where
  "vad_step handle call =
     (case call of Process fs frame \<Rightarrow> WebRtcVad_Process handle fs frame
                 | Set_mode mode \<Rightarrow> WebRtcVad_set_mode handle mode)"

text \<open>A frame of 10, 20 or 30 ms at a supported rate.\<close>

definition valid_frame :: "int \<Rightarrow> nat \<Rightarrow> bool" where
  "valid_frame fs n \<longleftrightarrow> fs \<in> {8000, 16000, 32000, 48000} \<and> int n \<in> {fs div 100, 2 * (fs div 100), 3 * (fs div 100)}"

definition vad_answer_ok :: "vad_call \<Rightarrow> int \<Rightarrow> bool" where
  "vad_answer_ok call r =
     (case call of
        Process fs None \<Rightarrow> r = - 1
      | Process fs (Some frame) \<Rightarrow> if valid_frame fs (length frame) then r = 0 \<or> r = 1 else r = - 1
      | Set_mode mode \<Rightarrow> r = (if 0 \<le> mode \<and> mode \<le> 3 then 0 else - 1))"

lemma ValidRateAndFrameLength_iff:
  "WebRtcVad_ValidRateAndFrameLength fs n = (if valid_frame fs n then 0 else - 1)"
  by (auto simp: WebRtcVad_ValidRateAndFrameLength_def valid_frame_def kValidRates_def kMaxFrameLengthMs_def
      signed_divide_int_def)

lemma Process_valid:
  assumes "vad_ok self" "valid_frame fs (length frame)"
  shows "\<exists>self' v. WebRtcVad_Process (Some self) fs (Some frame) = (Some self', if v > 0 then 1 else v) \<and>
    vad_ok self' \<and> 0 \<le> v"
proof -
  define r where "r = (if fs = 48000 then WebRtcVad_CalcVad48khz self frame
     else if fs = 32000 then WebRtcVad_CalcVad32khz self frame
     else if fs = 16000 then WebRtcVad_CalcVad16khz self frame
     else if fs = 8000 then WebRtcVad_CalcVad8khz self frame else (self, - 1))"
  have "vad_ok (fst r) \<and> 0 \<le> snd r"
    using assms by (auto simp: r_def valid_frame_def CalcVad8khz_ok CalcVad16khz_ok CalcVad32khz_ok CalcVad48khz_ok)
  moreover have "WebRtcVad_Process (Some self) fs (Some frame) = (Some (fst r), if snd r > 0 then 1 else snd r)"
    using assms by (simp add: WebRtcVad_Process_def ValidRateAndFrameLength_iff vad_ok_def Let_def split_def
        flip: r_def)
  ultimately show ?thesis by blast
qed

lemma Process_invalid:
  assumes "vad_ok self" "frame = None \<or> \<not> valid_frame fs (length (the frame))"
  shows "WebRtcVad_Process (Some self) fs frame = (Some self, - 1)"
  using assms by (auto simp: WebRtcVad_Process_def ValidRateAndFrameLength_iff vad_ok_def split: option.splits)

lemma set_mode_ok:
  assumes "vad_ok self"
  shows "\<exists>self'. WebRtcVad_set_mode (Some self) mode = (Some self', if 0 \<le> mode \<and> mode \<le> 3 then 0 else - 1) \<and> vad_ok self'"
proof -
  have "vad_ok (set_thresholds self o1 o2 i t)"
    if "o1 = kOverHangMax1Q \<and> o2 = kOverHangMax2Q \<or> o1 = kOverHangMax1AGG \<and> o2 = kOverHangMax2AGG" 
      "length i = 3" "length t = 3" for o1 o2 i t
    using assms that by (auto simp: vad_ok_def data_ok_def models_ok_def filters_ok_def tracking_ok_def channel_values_def
        hang_state_def set_thresholds_def vad_thresholds_ok_def numeral_3_eq_3 less_Suc_eq kOverHangMax1Q_def kOverHangMax2Q_def
        kOverHangMax1AGG_def kOverHangMax2AGG_def)
  note th = this
  have same: "kOverHangMax1LBR = kOverHangMax1Q" "kOverHangMax2LBR = kOverHangMax2Q"
    "kOverHangMax1VAG = kOverHangMax1AGG" "kOverHangMax2VAG = kOverHangMax2AGG"
    by (simp_all add: kOverHangMax1Q_def kOverHangMax1LBR_def kOverHangMax2Q_def kOverHangMax2LBR_def
        kOverHangMax1AGG_def kOverHangMax1VAG_def kOverHangMax2AGG_def kOverHangMax2VAG_def)
  consider "mode = 0" | "mode = 1" | "mode = 2" | "mode = 3" | "\<not> (0 \<le> mode \<and> mode \<le> 3)" by linarith
  then show ?thesis
    using assms same
    by cases (auto simp: WebRtcVad_set_mode_def WebRtcVad_set_mode_core_def vad_ok_def [of self] kLocalThresholdQ_def kGlobalThresholdQ_def
        kLocalThresholdLBR_def kGlobalThresholdLBR_def kLocalThresholdAGG_def kGlobalThresholdAGG_def
        kLocalThresholdVAG_def kGlobalThresholdVAG_def intro!: th)
qed

lemma Init_ok:
  "\<exists>self. WebRtcVad_Init (Some block) = (Some self, 0) \<and> vad_ok self"
proof -
  have v: "smallest_ok (mem_slice (replicate 96 10000) (16 * c) 16)" if "c < 6" for c
    using that by (simp add: mem_slice_def smallest_ok_def min_def)
  show ?thesis
    by (simp add: WebRtcVad_Init_def WebRtcVad_InitCore_def WebRtcVad_set_mode_core_def kDefaultMode_def Let_def
        vad_ok_def data_ok_def models_ok_def filters_ok_def tracking_ok_def channel_values_def stds_ok_def v
        set_thresholds_def vad_thresholds_ok_def hang_ok_def hang_state_def wf_48_8_def
        WebRtcSpl_ResetResample48khzTo8khz_def kNumChannels_def
        kNoiseDataMeans_def kSpeechDataMeans_def kNoiseDataStds_def kSpeechDataStds_def kOverHangMax1Q_def kOverHangMax2Q_def
        kLocalThresholdQ_def kGlobalThresholdQ_def numeral_3_eq_3 less_Suc_eq)
qed

lemma vad_step_ok:
  assumes "vad_ok self"
  shows "\<exists>self'. fst (vad_step (Some self) call) = Some self' \<and> vad_ok self'"
    and "vad_answer_ok call (snd (vad_step (Some self) call))"
proof -
  have "(\<exists>self'. fst (vad_step (Some self) call) = Some self' \<and> vad_ok self') \<and>
      vad_answer_ok call (snd (vad_step (Some self) call))"
  proof (cases call)
    case (Process fs frame)
    show ?thesis
    proof (cases "frame = None \<or> \<not> valid_frame fs (length (the frame))")
      case True
      then show ?thesis using Process Process_invalid [OF assms True] assms
        by (auto simp: vad_step_def vad_answer_ok_def split: option.splits)
    next
      case False
      then obtain xs where "frame = Some xs" "valid_frame fs (length xs)" by auto
      then show ?thesis using Process Process_valid [OF assms, of fs xs]
        by (auto simp: vad_step_def vad_answer_ok_def split: if_splits)
    qed
  next
    case (Set_mode mode)
    then show ?thesis using set_mode_ok [OF assms, of mode] by (auto simp: vad_step_def vad_answer_ok_def)
  qed
  then show "\<exists>self'. fst (vad_step (Some self) call) = Some self' \<and> vad_ok self'"
    "vad_answer_ok call (snd (vad_step (Some self) call))" by auto
qed

lemma vad_run_ok:
  assumes "vad_ok self"
  shows "(\<exists>self'. fst (run vad_step (Some self) calls) = Some self' \<and> vad_ok self') \<and>
    list_all2 vad_answer_ok calls (snd (run vad_step (Some self) calls))"
  using assms
proof (induction calls arbitrary: self)
  case (Cons call calls)
  obtain self' where s: "fst (vad_step (Some self) call) = Some self'" "vad_ok self'"
    using vad_step_ok(1) [OF Cons.prems] by blast
  then show ?case using Cons.IH [OF s(2)] vad_step_ok(2) [OF Cons.prems, of call]
    by (simp add: split_def Let_def)
qed simp

text \<open>C20: Any session of the voice activity detector. Initialisation of any block succeeds, and after it any sequence
  of calls keeps the instance well formed: all arrays keep their sizes, the tracked values stay sorted, the standard
  deviations stay at least 378 and within 16 bits, the hang-over counters and thresholds stay in range. Every
  \<open>WebRtcVad_Process\<close> answers -1 exactly for a missing frame or one that is not 10, 20 or 30 ms
  at 8, 16, 32 or 48 kHz (\<open>webrtc_vad.h\<close> documents only the first three rates), and 0 or 1 otherwise; every \<open>WebRtcVad_set_mode\<close> answers 0 exactly for the
  modes 0 to 3. Before initialisation, and for a null handle, every call answers -1 and changes nothing.\<close>

theorem vad_session:
  "snd (WebRtcVad_Init (Some block)) = 0 \<and>
   (\<exists>self. fst (run vad_step (fst (WebRtcVad_Init (Some block))) calls) = Some self \<and> vad_ok self) \<and>
   list_all2 vad_answer_ok calls (snd (run vad_step (fst (WebRtcVad_Init (Some block))) calls)) \<and>
   vad_step (WebRtcVad_Create (Some block)) call = (WebRtcVad_Create (Some block), - 1) \<and>
   vad_step None call = (None, - 1) \<and> WebRtcVad_Init None = (None, - 1)"
proof -
  obtain self where s: "WebRtcVad_Init (Some block) = (Some self, 0)" "vad_ok self" using Init_ok by blast
  have "vad_step (WebRtcVad_Create (Some block)) call = (WebRtcVad_Create (Some block), - 1)"
    "vad_step None call = (None, - 1)" "WebRtcVad_Init None = (None, - 1)"
    by (cases call; simp add: vad_step_def WebRtcVad_Create_def WebRtcVad_Process_def WebRtcVad_set_mode_def
        WebRtcVad_Init_def WebRtcVad_InitCore_def kInitCheck_def)+
  then show ?thesis using vad_run_ok [OF s(2), of calls] by (simp add: s(1))
qed

section \<open>The 48 kHz frames\<close>

text \<open>C29: \<open>WebRtcVad_CalcVad48khz\<close> looks at nothing but the first 10 ms of its frame: whatever follows the first 480
  samples of a 20 or 30 ms frame, the decision and the whole new state are the same, since every round of the
  resampling loop reads the frame from its start.\<close>

theorem CalcVad48khz_first_10ms:
  assumes "length a = 480" and "length b = length c"
  shows "WebRtcVad_CalcVad48khz inst (a @ b) = WebRtcVad_CalcVad48khz inst (a @ c)"
proof -
  have "WebRtcSpl_Resample48khzTo8khz (a @ b) = WebRtcSpl_Resample48khzTo8khz (a @ c)"
    using assms(1) by (simp add: WebRtcSpl_Resample48khzTo8khz_def [abs_def] mem_slice_def)
  then show ?thesis using assms(2) by (simp add: WebRtcVad_CalcVad48khz_def)
qed

lemma CalcVad48khz_first_10ms_witness:
  "WebRtcVad_CalcVad48khz fresh_inst (replicate 480 0 @ replicate 480 20000) =
   WebRtcVad_CalcVad48khz fresh_inst (replicate 480 0 @ replicate 480 0)"
  by (rule CalcVad48khz_first_10ms) simp_all

end
