(* ===== verification/Codec_Pcm.thy ===== *)
theory Codec_Pcm
  imports Spl_Inline
begin

text \<open>
  The sample codecs of \<open>modules/audio_coding/codecs/\<close>: G.711 (\<open>g711.h\<close>, \<open>g711.c\<close>, \<open>g711_interface.c\<close>) and
  16-bit linear PCM (\<open>pcm16b.c\<close>). Bytes are integers from 0 to 255. The generic bit searches are modelled, not their
  assembly versions. The interface \<open>sample_codec\<close> states what a codec promises about one sample and carries it over to
  the buffers that the entry points take; both laws of G.711 and linear PCM are interpretations of it.
\<close>

unbundle bit_operations_syntax

definition u8 :: "int \<Rightarrow> int" where
  "u8 x = x mod 256"

definition in_u8 :: "int \<Rightarrow> bool" where
  "in_u8 x \<longleftrightarrow> 0 \<le> x \<and> x \<le> 255"

section \<open>g711.h and g711.c\<close>

text \<open>
  One step of the bit searches: keep the bits under the mask, if any, and move the bit number. The searches give the bit
  number of the highest and, by the comment, of the lowest bit that is set.
\<close>

definition search_step :: "int \<Rightarrow> int \<Rightarrow> int \<times> int \<Rightarrow> int \<times> int" where
  "search_step M d = (\<lambda>(bits, i). if bits AND M \<noteq> 0 then (bits AND M, i + d) else (bits, i))"

definition top_bit :: "int \<Rightarrow> int" where
  "top_bit bits =
     (if bits = 0 then - 1
      else
        snd (search_step 0xAAAAAAAA 1
            (search_step 0xCCCCCCCC 2
            (search_step 0xF0F0F0F0 4
            (search_step 0xFF00FF00 8
            (search_step 0xFFFF0000 16 (bits, 0)))))))"

definition bottom_bit :: "int \<Rightarrow> int" where
  "bottom_bit bits =
     (if bits = 0 then - 1
      else
        snd (search_step 0x55555555 (- 1)
            (search_step 0x33333333 (- 2)
            (search_step 0x0F0F0F0F (- 4)
            (search_step 0x00FF00FF (- 8)
            (search_step 0x0000FFFF (- 16) (bits, 32)))))))"

definition ULAW_BIAS :: int where "ULAW_BIAS = 0x84"

definition linear_to_ulaw :: "int \<Rightarrow> int" where
  "linear_to_ulaw linear =
     (let (linear, mask) = (if linear < 0 then (i32 (ULAW_BIAS - linear - 1), 0x7F) else (i32 (ULAW_BIAS + linear), 0xFF));
          seg = top_bit (u32 (linear OR 0xFF)) - 7
      in if seg \<ge> 8 then u8 (0x7F XOR mask)
         else u8 ((shl32 seg 4 OR (shr linear (seg + 3) AND 0xF)) XOR mask))"

definition ulaw_to_linear :: "int \<Rightarrow> int" where
  "ulaw_to_linear ulaw =
     (let ulaw = u8 (NOT ulaw);
          t = shl32 (shl32 (ulaw AND 0x0F) 3 + ULAW_BIAS) (shr (ulaw AND 0x70) 4)
      in i16 (if ulaw AND 0x80 \<noteq> 0 then ULAW_BIAS - t else t - ULAW_BIAS))"

definition ALAW_AMI_MASK :: int where "ALAW_AMI_MASK = 0x55"

definition linear_to_alaw :: "int \<Rightarrow> int" where
  "linear_to_alaw linear =
     (let (linear, mask) = (if linear \<ge> 0 then (linear, ALAW_AMI_MASK OR 0x80) else (i32 (- linear - 1), ALAW_AMI_MASK));
          seg = top_bit (u32 (linear OR 0xFF)) - 7
      in if seg \<ge> 8 then (if linear \<ge> 0 then u8 (0x7F XOR mask) else u8 (0x00 XOR mask))
         else u8 ((shl32 seg 4 OR (shr linear (if seg \<noteq> 0 then seg + 3 else 4) AND 0x0F)) XOR mask))"

definition alaw_to_linear :: "int \<Rightarrow> int" where
  "alaw_to_linear alaw =
     (let alaw = u8 (alaw XOR ALAW_AMI_MASK);
          i = shl32 (alaw AND 0x0F) 4;
          seg = shr (alaw AND 0x70) 4;
          i = (if seg \<noteq> 0 then shl32 (i + 0x108) (seg - 1) else i + 8)
      in i16 (if alaw AND 0x80 \<noteq> 0 then i else - i))"

definition ulaw_to_alaw_table :: "int list" where
  "ulaw_to_alaw_table =
     [42, 43, 40, 41, 46, 47, 44, 45, 34, 35, 32, 33, 38, 39, 36, 37,
      58, 59, 56, 57, 62, 63, 60, 61, 50, 51, 48, 49, 54, 55, 52, 53,
      10, 11, 8, 9, 14, 15, 12, 13, 2, 3, 0, 1, 6, 7, 4, 26,
      27, 24, 25, 30, 31, 28, 29, 18, 19, 16, 17, 22, 23, 20, 21, 106,
      104, 105, 110, 111, 108, 109, 98, 99, 96, 97, 102, 103, 100, 101, 122, 120,
      126, 127, 124, 125, 114, 115, 112, 113, 118, 119, 116, 117, 75, 73, 79, 77,
      66, 67, 64, 65, 70, 71, 68, 69, 90, 91, 88, 89, 94, 95, 92, 93,
      82, 82, 83, 83, 80, 80, 81, 81, 86, 86, 87, 87, 84, 84, 85, 85,
      170, 171, 168, 169, 174, 175, 172, 173, 162, 163, 160, 161, 166, 167, 164, 165,
      186, 187, 184, 185, 190, 191, 188, 189, 178, 179, 176, 177, 182, 183, 180, 181,
      138, 139, 136, 137, 142, 143, 140, 141, 130, 131, 128, 129, 134, 135, 132, 154,
      155, 152, 153, 158, 159, 156, 157, 146, 147, 144, 145, 150, 151, 148, 149, 234,
      232, 233, 238, 239, 236, 237, 226, 227, 224, 225, 230, 231, 228, 229, 250, 248,
      254, 255, 252, 253, 242, 243, 240, 241, 246, 247, 244, 245, 203, 201, 207, 205,
      194, 195, 192, 193, 198, 199, 196, 197, 218, 219, 216, 217, 222, 223, 220, 221,
      210, 210, 211, 211, 208, 208, 209, 209, 214, 214, 215, 215, 212, 212, 213, 213]"

definition alaw_to_ulaw_table :: "int list" where
  "alaw_to_ulaw_table =
     [42, 43, 40, 41, 46, 47, 44, 45, 34, 35, 32, 33, 38, 39, 36, 37,
      57, 58, 55, 56, 61, 62, 59, 60, 49, 50, 47, 48, 53, 54, 51, 52,
      10, 11, 8, 9, 14, 15, 12, 13, 2, 3, 0, 1, 6, 7, 4, 5,
      26, 27, 24, 25, 30, 31, 28, 29, 18, 19, 16, 17, 22, 23, 20, 21,
      98, 99, 96, 97, 102, 103, 100, 101, 93, 93, 92, 92, 95, 95, 94, 94,
      116, 118, 112, 114, 124, 126, 120, 122, 106, 107, 104, 105, 110, 111, 108, 109,
      72, 73, 70, 71, 76, 77, 74, 75, 64, 65, 63, 63, 68, 69, 66, 67,
      86, 87, 84, 85, 90, 91, 88, 89, 79, 79, 78, 78, 82, 83, 80, 81,
      170, 171, 168, 169, 174, 175, 172, 173, 162, 163, 160, 161, 166, 167, 164, 165,
      185, 186, 183, 184, 189, 190, 187, 188, 177, 178, 175, 176, 181, 182, 179, 180,
      138, 139, 136, 137, 142, 143, 140, 141, 130, 131, 128, 129, 134, 135, 132, 133,
      154, 155, 152, 153, 158, 159, 156, 157, 146, 147, 144, 145, 150, 151, 148, 149,
      226, 227, 224, 225, 230, 231, 228, 229, 221, 221, 220, 220, 223, 223, 222, 222,
      244, 246, 240, 242, 252, 254, 248, 250, 234, 235, 232, 233, 238, 239, 236, 237,
      200, 201, 198, 199, 204, 205, 202, 203, 192, 193, 191, 191, 196, 197, 194, 195,
      214, 215, 212, 213, 218, 219, 216, 217, 207, 207, 206, 206, 210, 211, 208, 209]"

definition alaw_to_ulaw :: "int \<Rightarrow> int" where
  "alaw_to_ulaw alaw = alaw_to_ulaw_table ! nat alaw"

definition ulaw_to_alaw :: "int \<Rightarrow> int" where
  "ulaw_to_alaw ulaw = ulaw_to_alaw_table ! nat ulaw"

section \<open>g711_interface.c\<close>

text \<open>The entry points: the array written, \<open>*speechType\<close> where there is one, and the return value.\<close>

definition WebRtcG711_EncodeA :: "samples \<Rightarrow> int list \<times> nat" where
  "WebRtcG711_EncodeA speechIn = (map linear_to_alaw speechIn, length speechIn)"

definition WebRtcG711_EncodeU :: "samples \<Rightarrow> int list \<times> nat" where
  "WebRtcG711_EncodeU speechIn = (map linear_to_ulaw speechIn, length speechIn)"

definition WebRtcG711_DecodeA :: "int list \<Rightarrow> samples \<times> int \<times> nat" where
  "WebRtcG711_DecodeA encoded = (map alaw_to_linear encoded, 1, length encoded)"

definition WebRtcG711_DecodeU :: "int list \<Rightarrow> samples \<times> int \<times> nat" where
  "WebRtcG711_DecodeU encoded = (map ulaw_to_linear encoded, 1, length encoded)"

section \<open>pcm16b.c\<close>

definition pcm16b_bytes :: "int \<Rightarrow> int list" where
  "pcm16b_bytes x = (let s = u16 x in [u8 (shr s 8), u8 s])"

definition WebRtcPcm16b_Encode :: "samples \<Rightarrow> int list \<times> nat" where
  "WebRtcPcm16b_Encode speech = (concat (map pcm16b_bytes speech), 2 * length speech)"

definition WebRtcPcm16b_Decode :: "int list \<Rightarrow> samples \<times> nat" where
  "WebRtcPcm16b_Decode encoded =
     (map (\<lambda>i. i16 (shl32 (encoded ! (2 * i)) 8 OR encoded ! (2 * i + 1))) [0..<length encoded div 2], length encoded div 2)"

section \<open>The bit searches\<close>

lemma mask_top:
  assumes "take_bit (2 * h) a = (a :: int)" and "take_bit (2 * h) (drop_bit j M) = push_bit h (mask h)"
  shows "push_bit j a AND M = push_bit (j + h) (drop_bit h a)"
proof (rule bit_eqI)
  fix n
  show "bit (push_bit j a AND M) n \<longleftrightarrow> bit (push_bit (j + h) (drop_bit h a)) n"
  proof (cases "j \<le> n \<and> bit a (n - j)")
    case True
    then have n: "n - j < 2 * h" using assms(1) by (metis bit_take_bit_iff)
    have "bit M n \<longleftrightarrow> bit (take_bit (2 * h) (drop_bit j M)) (n - j)"
      using True n by (simp add: bit_simps)
    also have "\<dots> \<longleftrightarrow> h \<le> n - j" using n by (auto simp: assms(2) bit_simps)
    finally show ?thesis using True by (auto simp: bit_simps)
  qed (auto simp: bit_simps)
qed

lemma mask_bottom:
  assumes "take_bit (2 * h) a = (a :: int)" and "take_bit (2 * h) (drop_bit j M) = mask h"
  shows "push_bit j a AND M = push_bit j (take_bit h a)"
proof (rule bit_eqI)
  fix n
  show "bit (push_bit j a AND M) n \<longleftrightarrow> bit (push_bit j (take_bit h a)) n"
  proof (cases "j \<le> n \<and> bit a (n - j)")
    case True
    then have n: "n - j < 2 * h" using assms(1) by (metis bit_take_bit_iff)
    have "bit M n \<longleftrightarrow> bit (take_bit (2 * h) (drop_bit j M)) (n - j)"
      using True n by (simp add: bit_simps)
    also have "\<dots> \<longleftrightarrow> n - j < h" using n by (auto simp: assms(2) bit_simps)
    finally show ?thesis using True by (auto simp: bit_simps)
  qed (auto simp: bit_simps)
qed

text \<open>
  One stage of a search with its mask: the value is \<open>a * 2 ^ j\<close> with \<open>a\<close> below \<open>2 ^ (2 * h)\<close>; afterwards the
  same holds with \<open>h\<close> for \<open>2 * h\<close>, and the highest (lowest) bit has not changed.
\<close>

definition top_at :: "nat \<Rightarrow> int \<Rightarrow> int \<times> int \<Rightarrow> bool" where
  "top_at w bits = (\<lambda>(v, i). \<exists>a j. v = a * 2 ^ j \<and> int j = i \<and> w dvd j \<and> j < 32 \<and> 0 < a \<and> a < 2 ^ w \<and>
     v \<le> bits \<and> bits < v + 2 ^ j)"

lemma top_atI:
  "v = a * 2 ^ j \<Longrightarrow> i = int j \<Longrightarrow> w dvd j \<Longrightarrow> j < 32 \<Longrightarrow> 0 < a \<Longrightarrow> a < 2 ^ w \<Longrightarrow> v \<le> bits \<Longrightarrow> bits < v + 2 ^ j
     \<Longrightarrow> top_at w bits (v, i)"
  by (auto simp: top_at_def)

lemma power_double: "(2 :: int) ^ (2 * h) = 2 ^ h * 2 ^ h"
  by (simp add: mult_2 power_add)

lemma dvd_room:
  assumes "k dvd j" "j < n" "k dvd (n :: nat)"
  shows "j + k \<le> n"
proof -
  obtain x y where "j = k * x" "n = k * y" using assms by (auto elim!: dvdE)
  moreover have "x < y" using assms(2) calculation by simp
  then have "k * (x + 1) \<le> k * y" by (intro mult_le_mono2) simp
  ultimately show ?thesis by simp
qed

lemma top_stage_at:
  assumes t: "top_at (2 * h) bits (v, i)" and h: "0 < h"
    and M: "\<And>j. 2 * h dvd j \<Longrightarrow> j < 32 \<Longrightarrow> take_bit (2 * h) (drop_bit j M) = push_bit h (mask h)" and d: "2 * h dvd 32"
  shows "top_at h bits (search_step M (int h) (v, i))"
proof -
  obtain a j where v: "v = a * 2 ^ j" "int j = i" "2 * h dvd j" "j < 32" "0 < a" "a < 2 ^ (2 * h)" "v \<le> bits" "bits < v + 2 ^ j"
    using t by (auto simp: top_at_def)
  have a: "take_bit (2 * h) a = a" using v by (simp add: take_bit_int_eq_self_iff)
  have m: "v AND M = (a div 2 ^ h) * 2 ^ (j + h)"
    using mask_top [OF a M [OF v(3,4)]] v(1) by (simp add: push_bit_eq_mult drop_bit_eq_div)
  show ?thesis
  proof (cases "a div 2 ^ h = 0")
    case True
    then have "a < 2 ^ h" using v(5) by (simp add: zdiv_eq_0_iff)
    moreover have "h dvd j" using v(3) by (metis dvd_mult_right mult.commute)
    ultimately show ?thesis using True m v by (auto simp: search_step_def top_at_def)
  next
    case False
    define q r where "q = a div 2 ^ h" and "r = a mod 2 ^ h"
    have e: "a = q * 2 ^ h + r" by (simp add: q_def r_def mult.commute)
    have "r < 2 ^ h" by (simp add: r_def)
    moreover have "0 \<le> r" by (simp add: r_def)
    ultimately have r: "0 \<le> r" "r + 1 \<le> 2 ^ h" by simp_all
    have "0 \<le> q" using v(5) by (simp add: q_def pos_imp_zdiv_nonneg_iff)
    then have q: "0 < q" using False by (simp add: q_def [symmetric])
    have "q * 2 ^ h < 2 ^ h * 2 ^ h" using v(6) r(1) unfolding power_double e by linarith
    then have "q < 2 ^ h" by simp
    moreover have "q * 2 ^ (j + h) \<le> v" using r(1) by (simp add: v(1) e power_add algebra_simps)
    moreover have "(q * 2 ^ h + r + 1) * 2 ^ j \<le> (q * 2 ^ h + 2 ^ h) * 2 ^ j" using r(2) by (intro mult_right_mono) auto
    then have "v + 2 ^ j \<le> q * 2 ^ (j + h) + 2 ^ (j + h)" by (simp add: v(1) e power_add algebra_simps)
    moreover have "j + h < 32" "h dvd j + h" using dvd_room [OF v(3,4) d] h v(3) by auto
    moreover have "search_step M (int h) (v, i) = (q * 2 ^ (j + h), int (j + h))"
      using False m q v(2) by (simp add: search_step_def q_def)
    ultimately show ?thesis using q v(7,8) by (auto intro!: top_atI)
  qed
qed

definition bottom_at :: "nat \<Rightarrow> int \<Rightarrow> int \<times> int \<Rightarrow> bool" where
  "bottom_at w bits = (\<lambda>(v, i). \<exists>a j. v = a * 2 ^ j \<and> i = int (j + w) \<and> w dvd j \<and> j < 32 \<and> 0 < a \<and> a < 2 ^ w \<and>
     bits mod 2 ^ (j + w) = v)"

lemma bottom_atI:
  "v = a * 2 ^ j \<Longrightarrow> i = int (j + w) \<Longrightarrow> w dvd j \<Longrightarrow> j < 32 \<Longrightarrow> 0 < a \<Longrightarrow> a < 2 ^ w \<Longrightarrow> bits mod 2 ^ (j + w) = v
     \<Longrightarrow> bottom_at w bits (v, i)"
  by (auto simp: bottom_at_def)

lemma bottom_stage_at:
  assumes t: "bottom_at (2 * h) bits (v, i)" and h: "0 < h"
    and M: "\<And>j. 2 * h dvd j \<Longrightarrow> j < 32 \<Longrightarrow> take_bit (2 * h) (drop_bit j M) = mask h" and d: "2 * h dvd 32"
  shows "bottom_at h bits (search_step M (- int h) (v, i))"
proof -
  obtain a j where v: "v = a * 2 ^ j" "i = int (j + 2 * h)" "2 * h dvd j" "j < 32" "0 < a" "a < 2 ^ (2 * h)"
    "bits mod 2 ^ (j + 2 * h) = v"
    using t by (auto simp: bottom_at_def)
  have a: "take_bit (2 * h) a = a" using v by (simp add: take_bit_int_eq_self_iff)
  have m: "v AND M = (a mod 2 ^ h) * 2 ^ j"
    using mask_bottom [OF a M [OF v(3,4)]] v(1) by (simp add: push_bit_eq_mult take_bit_eq_mod)
  have hj: "h dvd j" using v(3) by (metis dvd_mult_right mult.commute)
  show ?thesis
  proof (cases "a mod 2 ^ h = 0")
    case True
    define q where "q = a div 2 ^ h"
    have e: "a = q * 2 ^ h" using True by (auto simp: q_def)
    have q: "0 < q" using v(5) by (simp add: e zero_less_mult_iff)
    have "q * 2 ^ h < 2 ^ h * 2 ^ h" using v(6) unfolding power_double e by simp
    then have q': "q < 2 ^ h" by simp
    have jj: "j + 2 * h = (j + h) + h" by simp
    have "search_step M (- int h) (v, i) = (v, i)" using True m by (simp add: search_step_def)
    moreover have "bottom_at h bits (v, i)"
    proof (rule bottom_atI)
      show "v = q * 2 ^ (j + h)" by (simp add: v(1) e power_add)
      show "i = int ((j + h) + h)" "bits mod 2 ^ ((j + h) + h) = v" using v(2,7) unfolding jj by simp_all
      show "h dvd j + h" using hj by simp
      show "j + h < 32" using dvd_room [OF v(3,4) d] h by simp
    qed (rule q q')+
    ultimately show ?thesis by simp
  next
    case False
    have "bits mod 2 ^ (j + h) = bits mod 2 ^ (j + 2 * h) mod 2 ^ (j + h)"
      by (simp add: mod_mod_cancel le_imp_power_dvd)
    also have "\<dots> = (2 ^ j * a) mod (2 ^ j * 2 ^ h)" unfolding v(7) unfolding v(1) power_add by (simp only: mult.commute)
    also have "\<dots> = (a mod 2 ^ h) * 2 ^ j" by (subst mult_mod_right [symmetric]) (rule mult.commute)
    finally have "bits mod 2 ^ (j + h) = (a mod 2 ^ h) * 2 ^ j" .
    moreover have "0 \<le> a mod 2 ^ h" by simp
    then have "0 < a mod 2 ^ h" using False by linarith
    ultimately show ?thesis using False m v hj
      by (auto simp: search_step_def bottom_at_def intro!: exI [of _ "a mod 2 ^ h"] exI [of _ j])
  qed
qed

text \<open>The masks have the period of their stage.\<close>

lemma multiples_below_32:
  fixes j :: nat
  assumes "k dvd j" "j < 32"
  shows "j \<in> set (filter (\<lambda>j. k dvd j) [0..<32])"
  using assms by simp

lemma mask_periods:
  fixes j :: nat
  assumes "j < 32"
  shows "32 dvd j \<Longrightarrow> take_bit 32 (drop_bit j 0xFFFF0000) = push_bit 16 (mask 16 :: int)"
    "16 dvd j \<Longrightarrow> take_bit 16 (drop_bit j 0xFF00FF00) = push_bit 8 (mask 8 :: int)"
    "8 dvd j \<Longrightarrow> take_bit 8 (drop_bit j 0xF0F0F0F0) = push_bit 4 (mask 4 :: int)"
    "4 dvd j \<Longrightarrow> take_bit 4 (drop_bit j 0xCCCCCCCC) = push_bit 2 (mask 2 :: int)"
    "2 dvd j \<Longrightarrow> take_bit 2 (drop_bit j 0xAAAAAAAA) = push_bit 1 (mask 1 :: int)"
    and "32 dvd j \<Longrightarrow> take_bit 32 (drop_bit j 0x0000FFFF) = (mask 16 :: int)"
    "16 dvd j \<Longrightarrow> take_bit 16 (drop_bit j 0x00FF00FF) = (mask 8 :: int)"
    "8 dvd j \<Longrightarrow> take_bit 8 (drop_bit j 0x0F0F0F0F) = (mask 4 :: int)"
    "4 dvd j \<Longrightarrow> take_bit 4 (drop_bit j 0x33333333) = (mask 2 :: int)"
    "2 dvd j \<Longrightarrow> take_bit 2 (drop_bit j 0x55555555) = (mask 1 :: int)"
proof -
  have all: "\<forall>j\<in>set (filter (\<lambda>j. 32 dvd j) [0..<32]). take_bit 32 (drop_bit j 0xFFFF0000) = push_bit 16 (mask 16 :: int)"
    "\<forall>j\<in>set (filter (\<lambda>j. 16 dvd j) [0..<32]). take_bit 16 (drop_bit j 0xFF00FF00) = push_bit 8 (mask 8 :: int)"
    "\<forall>j\<in>set (filter (\<lambda>j. 8 dvd j) [0..<32]). take_bit 8 (drop_bit j 0xF0F0F0F0) = push_bit 4 (mask 4 :: int)"
    "\<forall>j\<in>set (filter (\<lambda>j. 4 dvd j) [0..<32]). take_bit 4 (drop_bit j 0xCCCCCCCC) = push_bit 2 (mask 2 :: int)"
    "\<forall>j\<in>set (filter (\<lambda>j. 2 dvd j) [0..<32]). take_bit 2 (drop_bit j 0xAAAAAAAA) = push_bit 1 (mask 1 :: int)"
    "\<forall>j\<in>set (filter (\<lambda>j. 32 dvd j) [0..<32]). take_bit 32 (drop_bit j 0x0000FFFF) = (mask 16 :: int)"
    "\<forall>j\<in>set (filter (\<lambda>j. 16 dvd j) [0..<32]). take_bit 16 (drop_bit j 0x00FF00FF) = (mask 8 :: int)"
    "\<forall>j\<in>set (filter (\<lambda>j. 8 dvd j) [0..<32]). take_bit 8 (drop_bit j 0x0F0F0F0F) = (mask 4 :: int)"
    "\<forall>j\<in>set (filter (\<lambda>j. 4 dvd j) [0..<32]). take_bit 4 (drop_bit j 0x33333333) = (mask 2 :: int)"
    "\<forall>j\<in>set (filter (\<lambda>j. 2 dvd j) [0..<32]). take_bit 2 (drop_bit j 0x55555555) = (mask 1 :: int)"
    by code_simp+
  show "32 dvd j \<Longrightarrow> take_bit 32 (drop_bit j 0xFFFF0000) = push_bit 16 (mask 16 :: int)"
    "16 dvd j \<Longrightarrow> take_bit 16 (drop_bit j 0xFF00FF00) = push_bit 8 (mask 8 :: int)"
    "8 dvd j \<Longrightarrow> take_bit 8 (drop_bit j 0xF0F0F0F0) = push_bit 4 (mask 4 :: int)"
    "4 dvd j \<Longrightarrow> take_bit 4 (drop_bit j 0xCCCCCCCC) = push_bit 2 (mask 2 :: int)"
    "2 dvd j \<Longrightarrow> take_bit 2 (drop_bit j 0xAAAAAAAA) = push_bit 1 (mask 1 :: int)"
    "32 dvd j \<Longrightarrow> take_bit 32 (drop_bit j 0x0000FFFF) = (mask 16 :: int)"
    "16 dvd j \<Longrightarrow> take_bit 16 (drop_bit j 0x00FF00FF) = (mask 8 :: int)"
    "8 dvd j \<Longrightarrow> take_bit 8 (drop_bit j 0x0F0F0F0F) = (mask 4 :: int)"
    "4 dvd j \<Longrightarrow> take_bit 4 (drop_bit j 0x33333333) = (mask 2 :: int)"
    "2 dvd j \<Longrightarrow> take_bit 2 (drop_bit j 0x55555555) = (mask 1 :: int)"
    using all multiples_below_32 assms by blast+
qed

lemma top_bit_spec:
  assumes "0 < bits" "bits < 4294967296"
  shows "\<exists>t. top_bit bits = int t \<and> 2 ^ t \<le> bits \<and> bits < 2 ^ Suc t"
proof -
  define s1 s2 s3 s4 s5 where "s1 = search_step 0xFFFF0000 16 (bits, 0)" and "s2 = search_step 0xFF00FF00 8 s1"
    and "s3 = search_step 0xF0F0F0F0 4 s2" and "s4 = search_step 0xCCCCCCCC 2 s3" and "s5 = search_step 0xAAAAAAAA 1 s4"
  have "top_at 32 bits (bits, 0)" using assms by (intro top_atI [of _ bits 0]) auto
  then have "top_at 16 bits s1" using top_stage_at [of 16] mask_periods(1) by (simp add: s1_def)
  then have "top_at 8 bits s2" using top_stage_at [of 8] mask_periods(2) by (cases s1) (simp add: s2_def)
  then have "top_at 4 bits s3" using top_stage_at [of 4] mask_periods(3) by (cases s2) (simp add: s3_def)
  then have "top_at 2 bits s4" using top_stage_at [of 2] mask_periods(4) by (cases s3) (simp add: s4_def)
  then have "top_at 1 bits s5" using top_stage_at [of 1] mask_periods(5) by (cases s4) (simp add: s5_def)
  moreover have "top_bit bits = snd s5" using assms by (simp add: top_bit_def s1_def s2_def s3_def s4_def s5_def)
  ultimately show ?thesis
  proof -
    obtain a j where "int j = snd s5" "0 < a" "a < 2" "a * 2 ^ j \<le> bits" "bits < a * 2 ^ j + 2 ^ j"
      using \<open>top_at 1 bits s5\<close> by (auto simp: top_at_def split_def)
    moreover have "a = 1" using calculation by simp
    ultimately show ?thesis using \<open>top_bit bits = snd s5\<close> by (intro exI [of _ j]) simp
  qed
qed

lemma bottom_bit_spec:
  assumes "0 < bits" "bits < 4294967296"
  shows "\<exists>t. bottom_bit bits = int t + 1 \<and> bits mod 2 ^ Suc t = 2 ^ t"
proof -
  define s1 s2 s3 s4 s5 where "s1 = search_step 0x0000FFFF (- 16) (bits, 32)" and "s2 = search_step 0x00FF00FF (- 8) s1"
    and "s3 = search_step 0x0F0F0F0F (- 4) s2" and "s4 = search_step 0x33333333 (- 2) s3" and "s5 = search_step 0x55555555 (- 1) s4"
  have "bottom_at 32 bits (bits, 32)" using assms by (intro bottom_atI [of _ bits 0]) auto
  then have "bottom_at 16 bits s1" using bottom_stage_at [of 16] mask_periods(6) by (simp add: s1_def)
  then have "bottom_at 8 bits s2" using bottom_stage_at [of 8] mask_periods(7) by (cases s1) (simp add: s2_def)
  then have "bottom_at 4 bits s3" using bottom_stage_at [of 4] mask_periods(8) by (cases s2) (simp add: s3_def)
  then have "bottom_at 2 bits s4" using bottom_stage_at [of 2] mask_periods(9) by (cases s3) (simp add: s4_def)
  then have "bottom_at 1 bits s5" using bottom_stage_at [of 1] mask_periods(10) by (cases s4) (simp add: s5_def)
  moreover have "bottom_bit bits = snd s5" using assms by (simp add: bottom_bit_def s1_def s2_def s3_def s4_def s5_def)
  ultimately show ?thesis
  proof -
    obtain a j where "snd s5 = int (j + 1)" "0 < a" "a < 2" "bits mod 2 ^ (j + 1) = a * 2 ^ j"
      using \<open>bottom_at 1 bits s5\<close> by (auto simp: bottom_at_def split_def)
    moreover have "a = 1" using calculation by simp
    ultimately show ?thesis using \<open>bottom_bit bits = snd s5\<close> by (intro exI [of _ j]) simp
  qed
qed

section \<open>One sample of G.711\<close>

text \<open>The segment of a magnitude: \<open>m\<close> lies between \<open>2 ^ (s + 7)\<close> and \<open>2 ^ (s + 8)\<close>, or below 256 for segment 0.\<close>

lemma segment_of:
  assumes "0 \<le> m" "m < 2147483648"
  obtains t where "top_bit (u32 (m OR 0xFF)) = int t" "7 \<le> t" "m < 2 ^ Suc t" "t = 7 \<or> 2 ^ t \<le> m"
proof -
  have lo: "m \<le> m OR 255" "255 \<le> m OR 255" using assms(1) or_greater_eq [of 255 m] or_greater_eq [of m 255] by (simp_all add: or.commute)
  have up: "m OR 255 < 2 ^ k" if "m < 2 ^ k" "8 \<le> k" for k
  proof -
    have "(2 :: int) ^ 8 \<le> 2 ^ k" using that(2) by (intro power_increasing) auto
    then show ?thesis using OR_upper [of m k 255] assms(1) that(1) by simp
  qed
  have "m OR 255 < 2 ^ 31" using up [of 31] assms(2) by simp
  then have "u32 (m OR 255) = m OR 255" using lo assms by (simp add: u32_def)
  moreover obtain t where t: "top_bit (m OR 255) = int t" "2 ^ t \<le> m OR 255" "m OR 255 < 2 ^ Suc t"
    using top_bit_spec [of "m OR 255"] lo \<open>m OR 255 < 2 ^ 31\<close> by auto
  have "7 \<le> t"
  proof (rule ccontr)
    assume "\<not> 7 \<le> t"
    then have "(2 :: int) ^ Suc t \<le> 2 ^ 7" by (intro power_increasing) auto
    then show False using t(3) lo(2) by simp
  qed
  moreover have "t = 7 \<or> 2 ^ t \<le> m"
    using up [of t] t(2) \<open>7 \<le> t\<close> by (cases "m < 2 ^ t"; cases "t = 7") auto
  ultimately show thesis using that [of t] t lo(1) by simp
qed

text \<open>The decoded values of all codes, by segment and interval.\<close>

definition alaw_value :: "int \<Rightarrow> int \<Rightarrow> int" where
  "alaw_value s q = (if s = 0 then 16 * q + 8 else (16 * q + 264) * 2 ^ nat (s - 1))"

definition ulaw_value :: "int \<Rightarrow> int \<Rightarrow> int" where
  "ulaw_value s q = (8 * q + 132) * 2 ^ nat s - 132"

lemma g711_codes:
  "\<forall>s\<in>set [0..7]. \<forall>q\<in>set [0..15].
     alaw_to_linear (u8 ((shl32 s 4 OR q) XOR 0xD5)) = alaw_value s q \<and> alaw_to_linear (u8 ((shl32 s 4 OR q) XOR 0x55)) = - alaw_value s q \<and>
     ulaw_to_linear (u8 ((shl32 s 4 OR q) XOR 0xFF)) = ulaw_value s q \<and> ulaw_to_linear (u8 ((shl32 s 4 OR q) XOR 0x7F)) = - ulaw_value s q"
  by code_simp

lemma half_step:
  fixes m d :: int
  assumes "0 < d"
  shows "\<bar>m div (2 * d) * (2 * d) + d - m\<bar> \<le> d" "\<bar>m div (2 * d) * (2 * d) + d - (m + 1)\<bar> \<le> d"
proof -
  have "0 \<le> m mod (2 * d)" "m mod (2 * d) < 2 * d" using assms by simp_all
  moreover have "m div (2 * d) * (2 * d) + m mod (2 * d) = m" by (rule div_mult_mod_eq)
  ultimately show "\<bar>m div (2 * d) * (2 * d) + d - m\<bar> \<le> d" "\<bar>m div (2 * d) * (2 * d) + d - (m + 1)\<bar> \<le> d" by linarith+
qed

lemma and_15: "x AND 15 = x mod 16" for x :: int
proof -
  have "x AND mask 4 = x mod 2 ^ 4" by (simp only: take_bit_eq_mask [symmetric] take_bit_eq_mod)
  then show ?thesis by (simp add: mask_eq_exp_minus_1)
qed

lemma mod_16: "16 \<le> k \<Longrightarrow> k < 32 \<Longrightarrow> k mod 16 = k - 16" for k :: int
  by presburger

lemma interval_of:
  fixes m d :: int
  assumes "0 < d" "32 * d \<le> m" "m < 64 * d"
  shows "m div (2 * d) mod 16 = m div (2 * d) - 16" "d \<le> m div 32"
proof -
  have "0 \<le> m mod (2 * d)" "m mod (2 * d) < 2 * d" using assms by simp_all
  moreover have "m div (2 * d) * (2 * d) + m mod (2 * d) = m" by (rule div_mult_mod_eq)
  ultimately have k: "32 * d < m div (2 * d) * (2 * d) + 2 * d" "m div (2 * d) * (2 * d) < 64 * d" using assms by linarith+
  have "\<not> m div (2 * d) \<le> 15" using k(1) mult_right_mono [of "m div (2 * d)" 15 "2 * d"] assms(1) by linarith
  moreover have "\<not> 32 \<le> m div (2 * d)" using k(2) mult_right_mono [of 32 "m div (2 * d)" "2 * d"] assms(1) by linarith
  ultimately show "m div (2 * d) mod 16 = m div (2 * d) - 16"
    using mod_16 [of "m div (2 * d)"] by simp
  have "32 * d div 32 \<le> m div 32" using assms(2) by (intro zdiv_mono1) auto
  then show "d \<le> m div 32" by simp
qed

text \<open>Within its segment a magnitude is decoded to the middle of its interval.\<close>

lemma alaw_error:
  assumes "0 \<le> m" "7 \<le> t" "m < 2 ^ Suc t" "t = 7 \<or> 2 ^ t \<le> m"
    and s: "s = int t - 7" and q: "q = m div 2 ^ nat (if s \<noteq> 0 then s + 3 else 4) mod 16"
  shows "\<bar>alaw_value s q - m\<bar> \<le> max 8 (m div 32)" "\<bar>alaw_value s q - (m + 1)\<bar> \<le> max 8 (m div 32)"
proof -
  have "\<bar>alaw_value s q - m\<bar> \<le> max 8 (m div 32) \<and> \<bar>alaw_value s q - (m + 1)\<bar> \<le> max 8 (m div 32)"
  proof (cases "t = 7")
    case True
    then have "q = m div 16" using q s assms(1,3) by simp
    then show ?thesis using half_step [of 8 m] True s by (simp add: alaw_value_def mult.commute le_max_iff_disj)
  next
    case False
    define e where "e = t - 8"
    define d where "d = (8 :: int) * 2 ^ e"
    have t: "t = e + 8" using False assms(2) by (simp add: e_def)
    then have "32 * d \<le> m" "m < 64 * d" "0 < d" using assms(3,4) False by (simp_all add: d_def power_add)
    note i = interval_of [OF this(3,1,2)] half_step [OF this(3), of m]
    have "nat (s + 3) = e + 4" "nat (s - 1) = e" "s \<noteq> 0" using s t by simp_all
    then have "q = m div (2 * d) - 16" using q i(1) by (simp add: d_def power_add mult.commute)
    moreover have "alaw_value s q = (q + 16) * (2 * d) + d"
      using \<open>nat (s - 1) = e\<close> \<open>s \<noteq> 0\<close> by (simp add: alaw_value_def d_def algebra_simps)
    ultimately show ?thesis using i(2-4) by (auto simp: le_max_iff_disj)
  qed
  then show "\<bar>alaw_value s q - m\<bar> \<le> max 8 (m div 32)" "\<bar>alaw_value s q - (m + 1)\<bar> \<le> max 8 (m div 32)" by blast+
qed

lemma ulaw_error:
  assumes "7 \<le> t" "m < 2 ^ Suc t" "2 ^ t \<le> m"
    and s: "s = int t - 7" and q: "q = m div 2 ^ nat (s + 3) mod 16"
  shows "\<bar>ulaw_value s q + 132 - m\<bar> \<le> m div 32" "\<bar>ulaw_value s q + 132 - (m + 1)\<bar> \<le> m div 32"
proof -
  define e where "e = t - 7"
  define d where "d = (4 :: int) * 2 ^ e"
  have t: "t = e + 7" using assms(1) by (simp add: e_def)
  then have "32 * d \<le> m" "m < 64 * d" "0 < d" using assms(2,3) by (simp_all add: d_def power_add)
  note i = interval_of [OF this(3,1,2)] half_step [OF this(3), of m]
  have "nat (s + 3) = e + 3" "nat s = e" using s t by simp_all
  then have "q = m div (2 * d) - 16" using q i(1) by (simp add: d_def power_add mult.commute)
  moreover have "ulaw_value s q + 132 = (q + 16) * (2 * d) + d"
    using \<open>nat s = e\<close> by (simp add: ulaw_value_def d_def algebra_simps)
  ultimately show "\<bar>ulaw_value s q + 132 - m\<bar> \<le> m div 32" "\<bar>ulaw_value s q + 132 - (m + 1)\<bar> \<le> m div 32" using i(2-4) by simp_all
qed

text \<open>The magnitude that is encoded, of 15 bits.\<close>

definition magnitude_of :: "int \<Rightarrow> int" where
  "magnitude_of x = (if x < 0 then - x - 1 else x)"

lemma magnitude_of_range: "in_i16 x \<Longrightarrow> 0 \<le> magnitude_of x \<and> magnitude_of x \<le> 32767 \<and> magnitude_of x \<le> \<bar>x\<bar>"
  by (simp add: magnitude_of_def in_i16_def)

lemma alaw_sample:
  assumes "in_i16 x"
  shows "\<bar>alaw_to_linear (linear_to_alaw x) - x\<bar> \<le> max 8 (\<bar>x\<bar> div 32)"
proof -
  define m where "m = magnitude_of x"
  note r = magnitude_of_range [OF assms, folded m_def]
  obtain t where t: "top_bit (u32 (m OR 0xFF)) = int t" "7 \<le> t" "m < 2 ^ Suc t" "t = 7 \<or> 2 ^ t \<le> m"
    using segment_of [of m] r by auto
  have "\<not> 15 \<le> t" using t(4) power_increasing [of 15 t "2 :: int"] r by auto
  define s where "s = int t - 7"
  define q where "q = m div 2 ^ nat (if s \<noteq> 0 then s + 3 else 4) mod 16"
  have sq: "s \<in> set [0..7]" "q \<in> set [0..15]" using \<open>7 \<le> t\<close> \<open>\<not> 15 \<le> t\<close> by (auto simp: s_def q_def)
  note e = alaw_error [OF _ t(2-4) s_def q_def]
  have b: "max 8 (m div 32) \<le> max 8 (\<bar>x\<bar> div 32)" using r by (intro max.mono zdiv_mono1) auto
  have q': "shr m (if s \<noteq> 0 then s + 3 else 4) AND 0x0F = q" by (simp add: and_15 q_def shr_def)
  have "linear_to_alaw x = u8 ((shl32 s 4 OR q) XOR (if x < 0 then 0x55 else 0xD5))"
  proof -
    have eq: "(if x \<ge> 0 then (x, ALAW_AMI_MASK OR 0x80) else (i32 (- x - 1), ALAW_AMI_MASK)) = (m, if x < 0 then 0x55 else 0xD5)"
      using assms by (simp add: m_def magnitude_of_def ALAW_AMI_MASK_def i32_id in_i32_def in_i16_def)
    have "\<not> 8 \<le> s" using sq by simp
    then show ?thesis unfolding linear_to_alaw_def Let_def eq prod.case t(1) s_def [symmetric] q' by (simp only: if_False)
  qed
  then have "alaw_to_linear (linear_to_alaw x) = (if x < 0 then - alaw_value s q else alaw_value s q)"
    using g711_codes sq by simp
  moreover have "m + 1 = - x" if "x < 0" using that by (simp add: m_def magnitude_of_def)
  moreover have "m = x" if "\<not> x < 0" using that by (simp add: m_def magnitude_of_def)
  ultimately have "\<bar>alaw_to_linear (linear_to_alaw x) - x\<bar> \<le> max 8 (m div 32)" using e r by (cases "x < 0") auto
  then show ?thesis using b by (rule order_trans)
qed

lemma ulaw_sample:
  assumes "in_i16 x"
  shows "\<bar>ulaw_to_linear (linear_to_ulaw x) - x\<bar> \<le> (\<bar>x\<bar> + 132) div 32"
proof -
  define m where "m = magnitude_of x + 132"
  note r = magnitude_of_range [OF assms]
  have m: "132 \<le> m" "m \<le> 32899" using r by (simp_all add: m_def)
  obtain t where t: "top_bit (u32 (m OR 0xFF)) = int t" "7 \<le> t" "m < 2 ^ Suc t" "t = 7 \<or> 2 ^ t \<le> m"
    using segment_of [of m] m by auto
  then have t': "2 ^ t \<le> m" using m by auto
  define s where "s = int t - 7"
  have eq: "(if x < 0 then (i32 (ULAW_BIAS - x - 1), 0x7F) else (i32 (ULAW_BIAS + x), 0xFF)) = (m, if x < 0 then 0x7F else 0xFF)"
    using assms by (simp add: m_def magnitude_of_def ULAW_BIAS_def i32_id in_i32_def in_i16_def)
  have b: "m div 32 \<le> (\<bar>x\<bar> + 132) div 32" using r by (intro zdiv_mono1) (auto simp: m_def)
  show ?thesis
  proof (cases "8 \<le> s")
    case True
    then have "(2 :: int) ^ 15 \<le> 2 ^ t" by (intro power_increasing) (auto simp: s_def)
    then have big: "32768 \<le> m" using t' by simp
    have "linear_to_ulaw x = u8 (0x7F XOR (if x < 0 then 0x7F else 0xFF))"
      using True unfolding linear_to_ulaw_def Let_def eq prod.case t(1) s_def [symmetric] by (simp only: if_True)
    moreover have "ulaw_to_linear (u8 (0x7F XOR 0x7F)) = - 32124" "ulaw_to_linear (u8 (0x7F XOR 0xFF)) = 32124" by code_simp+
    ultimately have "ulaw_to_linear (linear_to_ulaw x) = (if x < 0 then - 32124 else 32124)" by simp
    moreover have "1024 \<le> (\<bar>x\<bar> + 132) div 32" using big b by (simp add: m_def)
    ultimately show ?thesis using big r by (auto simp: m_def magnitude_of_def split: if_splits)
  next
    case False
    define q where "q = m div 2 ^ nat (s + 3) mod 16"
    have sq: "s \<in> set [0..7]" "q \<in> set [0..15]" using \<open>7 \<le> t\<close> False by (auto simp: s_def q_def)
    have q': "shr m (s + 3) AND 0xF = q" by (simp add: and_15 q_def shr_def)
    have "linear_to_ulaw x = u8 ((shl32 s 4 OR q) XOR (if x < 0 then 0x7F else 0xFF))"
      using False unfolding linear_to_ulaw_def Let_def eq prod.case t(1) s_def [symmetric] q' by (simp only: if_False)
    then have "ulaw_to_linear (linear_to_ulaw x) = (if x < 0 then - ulaw_value s q else ulaw_value s q)"
      using g711_codes sq by simp
    then show ?thesis using ulaw_error [OF t(2,3) t' s_def q_def] b by (auto simp: m_def magnitude_of_def split: if_splits)
  qed
qed

section \<open>Buffers of samples\<close>

text \<open>
  What a sample codec promises: codes are bytes, decoded values are samples, one pass changes a sample by at most \<open>err\<close>, and
  a decoded value survives any further pass.
\<close>

locale sample_codec =
  fixes enc :: "int \<Rightarrow> int" and dec :: "int \<Rightarrow> int" and err :: "int \<Rightarrow> int"
  assumes enc_code: "in_i16 x \<Longrightarrow> in_u8 (enc x)"
    and dec_sample: "in_u8 c \<Longrightarrow> in_i16 (dec c)"
    and dec_error: "in_i16 x \<Longrightarrow> \<bar>dec (enc x) - x\<bar> \<le> err x"
    and dec_stable: "in_u8 c \<Longrightarrow> dec (enc (dec c)) = dec c"
begin

lemma buffer_codes: "list_all in_i16 xs \<Longrightarrow> list_all in_u8 (map enc xs)"
  by (simp add: list_all_iff enc_code)

lemma decoded_samples: "list_all in_u8 cs \<Longrightarrow> list_all in_i16 (map dec cs)"
  by (simp add: list_all_iff dec_sample)

lemma buffer_error: "list_all in_i16 xs \<Longrightarrow> list_all2 (\<lambda>x y. \<bar>y - x\<bar> \<le> err x) xs (map dec (map enc xs))"
  by (simp add: list_all2_conv_all_nth list_all_length dec_error)

text \<open>Any number of further passes, as in a chain of gateways.\<close>

lemma tandem: "list_all in_u8 cs \<Longrightarrow> ((\<lambda>xs. map dec (map enc xs)) ^^ n) (map dec cs) = map dec cs"
proof (induction n)
  case (Suc n)
  have "map dec (map enc (map dec cs)) = map dec cs" using Suc.prems by (simp add: list_all_iff dec_stable)
  then show ?case using Suc by simp
qed simp

end

lemma bytes: "in_u8 c \<Longrightarrow> c \<in> set [0..255]"
  by (simp add: in_u8_def)

lemma in_u8_u8 [simp]: "in_u8 (u8 x)"
  using pos_mod_bound [of 256 x] by (simp add: u8_def in_u8_def)

lemma alaw_bytes: "\<forall>c\<in>set [0..255]. in_i16 (alaw_to_linear c) \<and> linear_to_alaw (alaw_to_linear c) = c"
  by code_simp

lemma ulaw_bytes: "\<forall>c\<in>set [0..255]. in_i16 (ulaw_to_linear c) \<and>
    linear_to_ulaw (ulaw_to_linear c) = (if c = 127 then 255 else c) \<and> ulaw_to_linear (linear_to_ulaw (ulaw_to_linear c)) = ulaw_to_linear c"
  by code_simp

interpretation alaw: sample_codec linear_to_alaw alaw_to_linear "\<lambda>x. max 8 (\<bar>x\<bar> div 32)"
proof unfold_locales
  fix x show "in_u8 (linear_to_alaw x)" by (simp add: linear_to_alaw_def Let_def split_def)
qed (use alaw_bytes alaw_sample bytes in blast, use alaw_sample in blast, use alaw_bytes bytes in simp)

interpretation ulaw: sample_codec linear_to_ulaw ulaw_to_linear "\<lambda>x. (\<bar>x\<bar> + 132) div 32"
proof unfold_locales
  fix x show "in_u8 (linear_to_ulaw x)" by (simp add: linear_to_ulaw_def Let_def split_def)
qed (use ulaw_bytes bytes in blast, use ulaw_sample in blast, use ulaw_bytes bytes in blast)

text \<open>C38: G.711. Through \<^const>\<open>WebRtcG711_EncodeA\<close> and \<^const>\<open>WebRtcG711_DecodeA\<close> every 16-bit sample changes by at most 8 or
  a 32nd of its magnitude, through \<^const>\<open>WebRtcG711_EncodeU\<close> and \<^const>\<open>WebRtcG711_DecodeU\<close> by at most a 32nd of its magnitude
  plus 132. Encoding what was decoded gives back every A-law byte and every mu-law byte except 127,
  the negative zero, which becomes 255; and any number of further passes changes nothing.\<close>

theorem G711_roundtrip:
  assumes "list_all in_i16 xs" and "list_all in_u8 cs"
  shows "list_all2 (\<lambda>x y. \<bar>y - x\<bar> \<le> max 8 (\<bar>x\<bar> div 32)) xs (fst (WebRtcG711_DecodeA (fst (WebRtcG711_EncodeA xs)))) \<and>
         list_all2 (\<lambda>x y. \<bar>y - x\<bar> \<le> (\<bar>x\<bar> + 132) div 32) xs (fst (WebRtcG711_DecodeU (fst (WebRtcG711_EncodeU xs)))) \<and>
         WebRtcG711_EncodeA (fst (WebRtcG711_DecodeA cs)) = (cs, length cs) \<and>
         WebRtcG711_EncodeU (fst (WebRtcG711_DecodeU cs)) = (map (\<lambda>c. if c = 127 then 255 else c) cs, length cs) \<and>
         ((\<lambda>ys. fst (WebRtcG711_DecodeA (fst (WebRtcG711_EncodeA ys)))) ^^ n) (fst (WebRtcG711_DecodeA cs)) = fst (WebRtcG711_DecodeA cs) \<and>
         ((\<lambda>ys. fst (WebRtcG711_DecodeU (fst (WebRtcG711_EncodeU ys)))) ^^ n) (fst (WebRtcG711_DecodeU cs)) = fst (WebRtcG711_DecodeU cs)"
proof -
  have "map (\<lambda>c. linear_to_alaw (alaw_to_linear c)) cs = cs"
    using assms(2) alaw_bytes bytes by (simp add: list_all_iff map_idI)
  moreover have "map (\<lambda>c. linear_to_ulaw (ulaw_to_linear c)) cs = map (\<lambda>c. if c = 127 then 255 else c) cs"
    using assms(2) ulaw_bytes bytes by (intro map_cong) (auto simp: list_all_iff)
  ultimately show ?thesis
    using alaw.buffer_error [OF assms(1)] ulaw.buffer_error [OF assms(1)] alaw.tandem [OF assms(2), of n] ulaw.tandem [OF assms(2), of n]
    by (simp add: WebRtcG711_EncodeA_def WebRtcG711_DecodeA_def WebRtcG711_EncodeU_def WebRtcG711_DecodeU_def comp_def)
qed

theorem G711_roundtrip_witness:
  "fst (WebRtcG711_DecodeA (fst (WebRtcG711_EncodeA [1000, - 30000]))) = [1008, - 30208] \<and> \<bar>1008 - 1000\<bar> \<le> max 8 (\<bar>1000\<bar> div 32 :: int) \<and>
   fst (WebRtcG711_EncodeU (fst (WebRtcG711_DecodeU [3, 127]))) = [3, 255]"
proof -
  have v: "fst (WebRtcG711_DecodeA (fst (WebRtcG711_EncodeA [1000, - 30000]))) = [1008, - 30208]" by code_simp
  have "list_all in_i16 [1000, - 30000]" "list_all in_u8 [3, 127]" by (simp_all add: in_i16_def in_u8_def)
  from G711_roundtrip [OF this, of 1] show ?thesis using v by simp
qed

text \<open>The transcoding tables: sign and magnitude are kept up to 132, and a conversion there and back is stable.\<close>

lemma transcoding:
  assumes "in_u8 c"
  shows "in_u8 (alaw_to_ulaw c) \<and> \<bar>ulaw_to_linear (alaw_to_ulaw c) - alaw_to_linear c\<bar> \<le> 132 \<and>
         alaw_to_ulaw (ulaw_to_alaw (alaw_to_ulaw c)) = alaw_to_ulaw c \<and>
         in_u8 (ulaw_to_alaw c) \<and> \<bar>alaw_to_linear (ulaw_to_alaw c) - ulaw_to_linear c\<bar> \<le> 132 \<and>
         ulaw_to_alaw (alaw_to_ulaw (ulaw_to_alaw c)) = ulaw_to_alaw c"
proof -
  have "\<forall>c\<in>set [0..255]. in_u8 (alaw_to_ulaw c) \<and> \<bar>ulaw_to_linear (alaw_to_ulaw c) - alaw_to_linear c\<bar> \<le> 132 \<and>
         alaw_to_ulaw (ulaw_to_alaw (alaw_to_ulaw c)) = alaw_to_ulaw c \<and>
         in_u8 (ulaw_to_alaw c) \<and> \<bar>alaw_to_linear (ulaw_to_alaw c) - ulaw_to_linear c\<bar> \<le> 132 \<and>
         ulaw_to_alaw (alaw_to_ulaw (ulaw_to_alaw c)) = ulaw_to_alaw c" by code_simp
  then show ?thesis using bytes [OF assms] by blast
qed

section \<open>Linear PCM\<close>

lemma or_low_byte: "0 \<le> b \<Longrightarrow> b < 256 \<Longrightarrow> 256 * a OR b = 256 * a + b" for a b :: int
proof -
  assume b: "0 \<le> b" "b < 256"
  then have "take_bit 8 b = b" by (simp add: take_bit_int_eq_self_iff)
  then have "push_bit 8 a OR b = push_bit 8 a + b"
    by (intro disjunctive_add [symmetric]) (metis bit_push_bit_iff bit_take_bit_iff linorder_not_less)
  then show ?thesis by (simp add: push_bit_eq_mult mult.commute)
qed

lemma pcm16b_value: "in_u8 a \<Longrightarrow> in_u8 b \<Longrightarrow> shl32 a 8 OR b = 256 * a + b"
  by (simp add: in_u8_def shl32_def i32_id in_i32_def or_low_byte mult.commute [of a])

lemma pcm16b_bytes_eq: "pcm16b_bytes x = [x mod 65536 div 256, x mod 256]" "in_u8 (x mod 65536 div 256)" "in_u8 (x mod 256)"
proof -
  have "0 \<le> x mod 65536" "x mod 65536 < 65536" by simp_all
  then have a: "0 \<le> x mod 65536 div 256" "x mod 65536 div 256 \<le> 255" by auto
  then show "in_u8 (x mod 65536 div 256)" by (simp add: in_u8_def)
  show "pcm16b_bytes x = [x mod 65536 div 256, x mod 256]"
    using a by (simp add: pcm16b_bytes_def Let_def u16_def u8_def shr_def mod_mod_cancel)
  show "in_u8 (x mod 256)" using in_u8_u8 [of x] by (simp add: u8_def)
qed

lemma pcm16b_sample: "in_i16 x \<Longrightarrow> i16 (shl32 (x mod 65536 div 256) 8 OR x mod 256) = x"
proof -
  assume x: "in_i16 x"
  have "256 * (x mod 65536 div 256) + x mod 256 = x mod 65536"
    using mult_div_mod_eq [of 256 "x mod 65536"] by (simp add: mod_mod_cancel)
  moreover have "i16 (x mod 65536) = i16 x" by (simp add: i16_def mod_simps)
  ultimately show ?thesis using x by (simp add: pcm16b_value pcm16b_bytes_eq(2,3) i16_id)
qed

lemma pcm16b_code: "in_u8 a \<Longrightarrow> in_u8 b \<Longrightarrow> pcm16b_bytes (i16 (shl32 a 8 OR b)) = [a, b]"
proof -
  assume ab: "in_u8 a" "in_u8 b"
  define y where "y = 256 * a + b"
  have "i16 y mod 65536 = y mod 65536" "i16 y mod 256 = y mod 256"
    using mod_mod_cancel [of 256 65536 "i16 y"] mod_mod_cancel [of 256 65536 y] by (simp_all add: i16_def mod_simps)
  moreover have "y mod 65536 = y" "y div 256 = a" "y mod 256 = b" using ab by (simp_all add: y_def in_u8_def)
  ultimately show ?thesis using ab by (simp add: pcm16b_bytes_eq(1) pcm16b_value y_def)
qed

lemma Pcm16b_Decode_Cons:
  "fst (WebRtcPcm16b_Decode (a # b # cs)) = i16 (shl32 a 8 OR b) # fst (WebRtcPcm16b_Decode cs)"
  by (simp add: WebRtcPcm16b_Decode_def map_upt_Suc del: upt_Suc)

lemma Pcm16b_decode_encode:
  "list_all in_i16 xs \<Longrightarrow> fst (WebRtcPcm16b_Decode (concat (map pcm16b_bytes xs))) = xs"
  by (induction xs) (simp_all add: pcm16b_bytes_eq(1) Pcm16b_Decode_Cons pcm16b_sample, simp add: WebRtcPcm16b_Decode_def)

lemma Pcm16b_encode_decode:
  "list_all in_u8 cs \<Longrightarrow> even (length cs) \<Longrightarrow> concat (map pcm16b_bytes (fst (WebRtcPcm16b_Decode cs))) = cs"
  by (induction cs rule: induct_list012) (auto simp: Pcm16b_Decode_Cons pcm16b_code, simp add: WebRtcPcm16b_Decode_def)

text \<open>Linear PCM is lossless. \<^const>\<open>WebRtcPcm16b_Decode\<close> gives back the samples that \<^const>\<open>WebRtcPcm16b_Encode\<close> wrote,
  two bytes each with the high byte first, and encoding what was decoded gives back every even number of bytes; the return values are the numbers of
  bytes and of samples written.\<close>

theorem Pcm16b_roundtrip:
  assumes "list_all in_i16 xs" and "list_all in_u8 cs" and "even (length cs)"
  shows "WebRtcPcm16b_Decode (fst (WebRtcPcm16b_Encode xs)) = (xs, length xs) \<and>
         WebRtcPcm16b_Encode (fst (WebRtcPcm16b_Decode cs)) = (cs, length cs) \<and>
         length (fst (WebRtcPcm16b_Encode xs)) = snd (WebRtcPcm16b_Encode xs)"
proof -
  have l: "length (concat (map pcm16b_bytes ys)) = 2 * length ys" for ys
    by (induction ys) (simp_all add: pcm16b_bytes_eq(1))
  have "fst (WebRtcPcm16b_Encode ys) = concat (map pcm16b_bytes ys)" "snd (WebRtcPcm16b_Encode ys) = 2 * length ys" for ys
    by (simp_all add: WebRtcPcm16b_Encode_def)
  moreover have "snd (WebRtcPcm16b_Decode ds) = length ds div 2" "length (fst (WebRtcPcm16b_Decode ds)) = length ds div 2" for ds
    by (simp_all add: WebRtcPcm16b_Decode_def)
  ultimately show ?thesis
    using Pcm16b_decode_encode [OF assms(1)] Pcm16b_encode_decode [OF assms(2,3)] assms(3) l by (simp add: prod_eq_iff)
qed

theorem Pcm16b_roundtrip_witness:
  "WebRtcPcm16b_Encode [- 2, 300] = ([255, 254, 1, 44], 4) \<and> WebRtcPcm16b_Decode [255, 254, 1, 44] = ([- 2, 300], 2) \<and>
   WebRtcPcm16b_Encode (fst (WebRtcPcm16b_Decode [128, 7])) = ([128, 7], 2)"
proof -
  have e: "WebRtcPcm16b_Encode [- 2, 300] = ([255, 254, 1, 44], 4)" by code_simp
  have "list_all in_i16 [- 2, 300]" "list_all in_u8 [128, 7]" "even (length [128 :: int, 7])" by (simp_all add: in_i16_def in_u8_def)
  from Pcm16b_roundtrip [OF this] show ?thesis using e by simp
qed

end
