(* ===== verification/Codec_Cng.thy ===== *)
theory Codec_Cng
  imports Spl_Lpc Codec_Pcm
begin

text \<open>
  The comfort noise codec, \<open>modules/audio_coding/codecs/cng/\<close>: \<open>webrtc_cng.c\<close>, \<open>cng_helpfuns.c\<close> and the
  constants of \<open>include/webrtc_cng.h\<close>. The encoder measures the energy and the reflection coefficients of a frame of
  background noise, averages them and from time to time sends them as a silence descriptor (SID); the decoder shapes
  random numbers by the last descriptor received. An instance is a record; an operation takes and returns it. Both structures
  have the members \<open>errorcode\<close> and \<open>initflag\<close>, which carry the prefixes \<open>enc_\<close> and \<open>dec_\<close> here. \<open>None\<close> is a
  call whose behaviour C leaves undefined, or that an assertion stops.
\<close>

unbundle bit_operations_syntax

section \<open>webrtc_cng.h: constants\<close>

definition WEBRTC_CNG_MAX_LPC_ORDER :: nat where "WEBRTC_CNG_MAX_LPC_ORDER = 12"
definition WEBRTC_CNG_MAX_OUTSIZE_ORDER :: nat where "WEBRTC_CNG_MAX_OUTSIZE_ORDER = 640"
definition CNG_ENCODER_NOT_INITIATED :: int where "CNG_ENCODER_NOT_INITIATED = 6120"
definition CNG_DISALLOWED_LPC_ORDER :: int where "CNG_DISALLOWED_LPC_ORDER = 6130"
definition CNG_DISALLOWED_FRAME_SIZE :: int where "CNG_DISALLOWED_FRAME_SIZE = 6140"
definition CNG_DECODER_NOT_INITIATED :: int where "CNG_DECODER_NOT_INITIATED = 6220"

section \<open>webrtc_cng.c: state and tables\<close>

record WebRtcCngDecoder =
  dec_seed :: int
  dec_target_energy :: int
  dec_used_energy :: int
  dec_target_reflCoefs :: samples
  dec_used_reflCoefs :: samples
  dec_filtstate :: samples
  dec_filtstateLow :: samples
  dec_Efiltstate :: samples
  dec_EfiltstateLow :: samples
  dec_order :: int
  dec_target_scale_factor :: int
  dec_used_scale_factor :: int
  target_scale_factor :: int
  dec_errorcode :: int
  dec_initflag :: int

record WebRtcCngEncoder =
  enc_nrOfCoefs :: nat
  enc_sampfreq :: int
  enc_interval :: int
  enc_msSinceSID :: int
  enc_Energy :: int
  enc_reflCoefs :: samples
  enc_corrVector :: "int list"
  enc_seed :: int
  enc_errorcode :: int
  enc_initflag :: int

definition WebRtcCng_kDbov :: "int list" where
  "WebRtcCng_kDbov =
     [1081109975, 858756178, 682134279, 541838517, 430397633, 341876992,
      271562548, 215709799, 171344384, 136103682, 108110997, 85875618,
      68213428, 54183852, 43039763, 34187699, 27156255, 21570980,
      17134438, 13610368, 10811100, 8587562, 6821343, 5418385,
      4303976, 3418770, 2715625, 2157098, 1713444, 1361037,
      1081110, 858756, 682134, 541839, 430398, 341877,
      271563, 215710, 171344, 136104, 108111, 85876,
      68213, 54184, 43040, 34188, 27156, 21571,
      17134, 13610, 10811, 8588, 6821, 5418,
      4304, 3419, 2716, 2157, 1713, 1361,
      1081, 859, 682, 542, 430, 342,
      272, 216, 171, 136, 108, 86,
      68, 54, 43, 34, 27, 22,
      17, 14, 11, 9, 7, 5,
      4, 3, 3, 2, 2, 1,
      1, 1, 1, 1]"

definition WebRtcCng_kCorrWindow :: "int list" where
  "WebRtcCng_kCorrWindow =
     [32702, 32636, 32570, 32505, 32439, 32374, 32309, 32244, 32179, 32114, 32049, 31985]"

section \<open>webrtc_cng.c: creation and initialisation\<close>

text \<open>
  \<open>nonnull\<close> tells whether the caller's pointer is valid, \<open>malloc\<close> is the block allocated, if any, with its arbitrary
  content. The results are what \<open>*cng_inst\<close> points to, if anything, and the return value. The selection of the library's
  function pointers by \<open>WebRtcSpl_Init\<close> does not show here: the generic routines are the ones modelled.
\<close>

definition WebRtcCng_CreateEnc :: "bool \<Rightarrow> WebRtcCngEncoder option \<Rightarrow> WebRtcCngEncoder option \<times> int" where
  "WebRtcCng_CreateEnc nonnull malloc =
     (if nonnull
      then (case malloc of
              Some inst \<Rightarrow> (Some (inst\<lparr>enc_errorcode := 0, enc_initflag := 0\<rparr>), 0)
            | None \<Rightarrow> (None, - 1))
      else (None, - 1))"

definition WebRtcCng_CreateDec :: "bool \<Rightarrow> WebRtcCngDecoder option \<Rightarrow> WebRtcCngDecoder option \<times> int" where
  "WebRtcCng_CreateDec nonnull malloc =
     (if nonnull
      then (case malloc of
              Some inst \<Rightarrow> (Some (inst\<lparr>dec_errorcode := 0, dec_initflag := 0\<rparr>), 0)
            | None \<Rightarrow> (None, - 1))
      else (None, - 1))"

text \<open>The structures after \<open>memset\<close>.\<close>

definition cleared_encoder :: WebRtcCngEncoder where
  "cleared_encoder =
     \<lparr>enc_nrOfCoefs = 0, enc_sampfreq = 0, enc_interval = 0, enc_msSinceSID = 0, enc_Energy = 0,
      enc_reflCoefs = replicate 13 0, enc_corrVector = replicate 13 0, enc_seed = 0,
      enc_errorcode = 0, enc_initflag = 0\<rparr>"

definition cleared_decoder :: WebRtcCngDecoder where
  "cleared_decoder =
     \<lparr>dec_seed = 0, dec_target_energy = 0, dec_used_energy = 0,
      dec_target_reflCoefs = replicate 13 0, dec_used_reflCoefs = replicate 13 0,
      dec_filtstate = replicate 13 0, dec_filtstateLow = replicate 13 0,
      dec_Efiltstate = replicate 13 0, dec_EfiltstateLow = replicate 13 0, dec_order = 0,
      dec_target_scale_factor = 0, dec_used_scale_factor = 0, target_scale_factor = 0,
      dec_errorcode = 0, dec_initflag = 0\<rparr>"

definition WebRtcCng_InitEnc :: "int \<Rightarrow> int \<Rightarrow> int \<Rightarrow> WebRtcCngEncoder \<times> int" where
  "WebRtcCng_InitEnc fs interval quality =
     (let inst = cleared_encoder
      in if quality > int WEBRTC_CNG_MAX_LPC_ORDER \<or> quality \<le> 0
         then (inst\<lparr>enc_errorcode := CNG_DISALLOWED_LPC_ORDER\<rparr>, - 1)
         else (inst\<lparr>enc_sampfreq := fs, enc_interval := interval, enc_nrOfCoefs := nat quality, enc_msSinceSID := 0,
                    enc_seed := 7777, enc_Energy := 0,
                    enc_reflCoefs := replicate (WEBRTC_CNG_MAX_LPC_ORDER + 1) 0,
                    enc_corrVector := replicate (WEBRTC_CNG_MAX_LPC_ORDER + 1) 0, enc_initflag := 1\<rparr>, 0))"

definition WebRtcCng_InitDec :: WebRtcCngDecoder where
  "WebRtcCng_InitDec =
     cleared_decoder\<lparr>dec_seed := 7777, dec_order := 5, dec_target_scale_factor := 0, dec_used_scale_factor := 0,
       dec_filtstate := replicate (WEBRTC_CNG_MAX_LPC_ORDER + 1) 0,
       dec_target_reflCoefs := replicate (WEBRTC_CNG_MAX_LPC_ORDER + 1) 0,
       dec_used_reflCoefs := replicate (WEBRTC_CNG_MAX_LPC_ORDER + 1) 0,
       dec_used_energy := 0, dec_initflag := 1\<rparr>"

section \<open>webrtc_cng.c: the encoder\<close>

text \<open>The mean energy of a frame: the shifts of \<open>WebRtcSpl_Energy\<close> are undone in the energy or in the divisor.\<close>

function energy_loop :: "int \<Rightarrow> int \<Rightarrow> nat \<Rightarrow> int \<times> nat" where
  "energy_loop outShifts outEnergy factor =
     (if outShifts > 0
      then if outShifts > 5 then energy_loop 5 (shl32 outEnergy (outShifts - 5)) factor
           else energy_loop (outShifts - 1) outEnergy (factor div 2)
      else (outEnergy, factor))"
  by pat_completeness auto
termination
  by (relation "measure (\<lambda>(outShifts, _, _). nat outShifts)") auto

declare energy_loop.simps [simp del]

definition frame_energy :: "samples \<Rightarrow> int" where
  "frame_energy speechBuf =
     (let (outEnergy, outShifts) = WebRtcSpl_Energy speechBuf;
          (outEnergy, factor) = energy_loop outShifts outEnergy (length speechBuf)
      in WebRtcSpl_DivW32W16 outEnergy (i16 (int factor)))"

text \<open>
  The frame times a symmetric window. For an odd number of samples the middle entry of the local array \<open>hanningW\<close> is
  read without having been written: the array's initial content is an argument.
\<close>

definition window_frame :: "samples \<Rightarrow> samples \<Rightarrow> samples option" where
  "window_frame hanningW speechBuf =
     (let nrOfSamples = length speechBuf
      in case WebRtcSpl_GetHanningWindow (nrOfSamples div 2) of
           None \<Rightarrow> None
         | Some w \<Rightarrow>
             (let hanningW = mem_copy hanningW 0 w;
                  hanningW = fold (\<lambda>i h. h[nrOfSamples - i - 1 := h ! i]) [0..<nrOfSamples div 2] hanningW
              in Some (WebRtcSpl_ElementwiseVectorMult speechBuf (take nrOfSamples hanningW) 14)))"

text \<open>One lag of the bandwidth expansion: the lag \<open>b\<close> times the window value \<open>a\<close>, in two halves.\<close>

definition expand_lag :: "int \<Rightarrow> int \<Rightarrow> int" where
  "expand_lag a b =
     (let negate = b < 0;
          b = (if negate then i32 (- b) else b);
          blo = i32 (a * (b AND 0xffff));
          bhi = i32 ((shr blo 16 AND 0xffff) + a * (shr b 16 AND 0xffff));
          blo = (blo AND 0xffff) OR shl32 (bhi AND 0xffff) 16;
          b = i32 (u32 (shl32 (shr bhi 16 AND 0x7fff) 17) OR shr (u32 blo) 15)
      in if negate then i32 (- b) else b)"

text \<open>
  The reflection coefficients of a frame that is not silent: the return value of \<open>WebRtcSpl_LevinsonDurbin\<close> and \<open>refCs\<close>. The
  correlation asserts that the frame has at least \<open>enc_nrOfCoefs\<close> samples. The window \<open>kCorrWindow[i]\<close> meets the
  lag \<open>i\<close>; the last lag stays as it is.
\<close>

definition analyze_frame :: "samples \<Rightarrow> nat \<Rightarrow> samples \<Rightarrow> (int \<times> samples) option" where
  "analyze_frame hanningW nrOfCoefs speechBuf =
     (case window_frame hanningW speechBuf of
        None \<Rightarrow> None
      | Some speechBuf \<Rightarrow>
          if nrOfCoefs > length speechBuf then None
          else (let (corrVector, acorrScale, cnt) = WebRtcSpl_AutoCorrelation speechBuf nrOfCoefs;
                    corrVector = (if corrVector ! 0 = 0 then corrVector[0 := WEBRTC_SPL_WORD16_MAX] else corrVector);
                    corrVector = fold (\<lambda>ind c. c[ind := expand_lag (WebRtcCng_kCorrWindow ! ind) (c ! ind)])
                                   [0..<nrOfCoefs] corrVector;
                    (stab, arCoefs, refCs) = WebRtcSpl_LevinsonDurbin corrVector (replicate 13 0) (replicate 13 0) nrOfCoefs
                in Some (stab, refCs)))"

definition update_average :: "bool \<Rightarrow> int \<Rightarrow> samples \<Rightarrow> WebRtcCngEncoder \<Rightarrow> WebRtcCngEncoder" where
  "update_average forceSID outEnergy refCs inst =
     (let inst =
        (if forceSID
         then inst\<lparr>enc_reflCoefs := mem_copy (enc_reflCoefs inst) 0 (take (enc_nrOfCoefs inst) refCs),
                   enc_Energy := outEnergy\<rparr>
         else inst\<lparr>enc_reflCoefs := fold (\<lambda>i k.
                       let k = k[i := i16 (WEBRTC_SPL_MUL_16_16_RSFT (k ! i) 19661 15)]
                       in k[i := i16 (k ! i + i16 (WEBRTC_SPL_MUL_16_16_RSFT (refCs ! i) 13107 15))])
                     [0..<enc_nrOfCoefs inst] (enc_reflCoefs inst),
                   enc_Energy := i32 (shr outEnergy 2 + shr (enc_Energy inst) 1 + shr (enc_Energy inst) 2)\<rparr>)
      in if enc_Energy inst < 1 then inst\<lparr>enc_Energy := 1\<rparr> else inst)"

text \<open>The search of the level: the first entry from 1 to 92 that is below the energy, or 94.\<close>

fun dbov_search :: "int \<Rightarrow> nat list \<Rightarrow> nat" where
  "dbov_search Energy [] = 94"
| "dbov_search Energy (i # is) =
     (if i32 (Energy - WebRtcCng_kDbov ! i) > 0 then i else dbov_search Energy is)"

definition quantize_coef :: "nat \<Rightarrow> int \<Rightarrow> int" where
  "quantize_coef nrOfCoefs k =
     (if nrOfCoefs = WEBRTC_CNG_MAX_LPC_ORDER then u8 (shr (k + 128) 8) else u8 (127 + shr (k + 128) 8))"

definition sid_bytes :: "WebRtcCngEncoder \<Rightarrow> int list" where
  "sid_bytes inst =
     u8 (int (dbov_search (enc_Energy inst) [1..<93])) #
     map (quantize_coef (enc_nrOfCoefs inst)) (take (enc_nrOfCoefs inst) (enc_reflCoefs inst))"

text \<open>The time of a frame, in \<open>size_t\<close>: a zero sampling frequency is a division by zero.\<close>

definition frame_ms :: "WebRtcCngEncoder \<Rightarrow> nat \<Rightarrow> int option" where
  "frame_ms inst nrOfSamples =
     (let fs = enc_sampfreq inst mod 2 ^ 64
      in if fs = 0 then None else Some (i16 (1000 * int nrOfSamples div fs)))"

definition send_sid :: "bool \<Rightarrow> nat \<Rightarrow> int list \<Rightarrow> WebRtcCngEncoder
    \<Rightarrow> (WebRtcCngEncoder \<times> int list \<times> nat \<times> int) option" where
  "send_sid forceSID nrOfSamples SIDdata inst =
     (case frame_ms inst nrOfSamples of
        None \<Rightarrow> None
      | Some ms \<Rightarrow>
          if enc_msSinceSID inst > enc_interval inst - 1 \<or> forceSID
          then if length SIDdata < enc_nrOfCoefs inst + 1 then None
               else let inst' = inst\<lparr>enc_msSinceSID := 0\<rparr>
                    in Some (inst'\<lparr>enc_msSinceSID := i16 (enc_msSinceSID inst' + ms)\<rparr>,
                             mem_copy SIDdata 0 (sid_bytes inst), enc_nrOfCoefs inst + 1, int (enc_nrOfCoefs inst + 1))
          else Some (inst\<lparr>enc_msSinceSID := i16 (enc_msSinceSID inst + ms)\<rparr>, SIDdata, 0, 0))"

text \<open>
  The encoder: the instance, the caller's \<open>SIDdata\<close> and \<open>*bytesOut\<close>, and the return value. \<open>hanningW\<close> is the
  initial content of the local array. Writing past the end of \<open>SIDdata\<close> is undefined.
\<close>

definition WebRtcCng_Encode :: "samples \<Rightarrow> WebRtcCngEncoder \<Rightarrow> samples \<Rightarrow> int list \<Rightarrow> nat \<Rightarrow> int
    \<Rightarrow> (WebRtcCngEncoder \<times> int list \<times> nat \<times> int) option" where
  "WebRtcCng_Encode hanningW inst speech SIDdata bytesOut forceSID =
     (if enc_initflag inst \<noteq> 1 then Some (inst\<lparr>enc_errorcode := CNG_ENCODER_NOT_INITIATED\<rparr>, SIDdata, bytesOut, - 1)
      else if length speech > WEBRTC_CNG_MAX_OUTSIZE_ORDER
      then Some (inst\<lparr>enc_errorcode := CNG_DISALLOWED_FRAME_SIZE\<rparr>, SIDdata, bytesOut, - 1)
      else
        (let outEnergy = frame_energy speech
         in case (if outEnergy > 1 then analyze_frame hanningW (enc_nrOfCoefs inst) speech
                  else Some (1, replicate (enc_nrOfCoefs inst) 0)) of
              None \<Rightarrow> None
            | Some (stab, refCs) \<Rightarrow>
                if stab = 0 then Some (inst, SIDdata, 0, 0)
                else send_sid (forceSID \<noteq> 0) (length speech) SIDdata (update_average (forceSID \<noteq> 0) outEnergy refCs inst)))"

definition WebRtcCng_GetErrorCodeEnc :: "WebRtcCngEncoder \<Rightarrow> int" where
  "WebRtcCng_GetErrorCodeEnc inst = enc_errorcode inst"

section \<open>webrtc_cng.c: the decoder\<close>

text \<open>
  A descriptor received: the instance, the caller's packet, whose level byte is limited in place, and the return value.
  An empty packet is read, and the instance written, outside the arrays.
\<close>

definition dequantize_coef :: "int \<Rightarrow> int \<Rightarrow> int" where
  "dequantize_coef order b =
     (if order = int WEBRTC_CNG_MAX_LPC_ORDER then i16 (shl32 b 8) else i16 (shl32 (b - 127) 8))"

definition WebRtcCng_UpdateSid :: "WebRtcCngDecoder \<Rightarrow> int list \<Rightarrow> (WebRtcCngDecoder \<times> int list \<times> int) option" where
  "WebRtcCng_UpdateSid inst SID =
     (if dec_initflag inst \<noteq> 1 then Some (inst\<lparr>dec_errorcode := CNG_DECODER_NOT_INITIATED\<rparr>, SID, - 1)
      else if SID = [] then None
      else
        (let len = (if length SID > WEBRTC_CNG_MAX_LPC_ORDER + 1 then WEBRTC_CNG_MAX_LPC_ORDER + 1 else length SID);
             inst = inst\<lparr>dec_order := i16 (int len) - 1\<rparr>;
             SID = (if SID ! 0 > 93 then SID[0 := 93] else SID);
             targetEnergy = WebRtcCng_kDbov ! nat (SID ! 0);
             targetEnergy = shr targetEnergy 1;
             targetEnergy = i32 (targetEnergy + shr targetEnergy 2);
             inst = inst\<lparr>dec_target_energy := targetEnergy\<rparr>;
             coefs = map (\<lambda>i. dequantize_coef (dec_order inst) (SID ! (i + 1))) [0..<nat (dec_order inst)]
         in Some (inst\<lparr>dec_target_reflCoefs := mem_copy (dec_target_reflCoefs inst) 0
                     (coefs @ replicate (WEBRTC_CNG_MAX_LPC_ORDER - nat (dec_order inst)) 0)\<rparr>, SID, 0)))"

section \<open>cng_helpfuns.c\<close>

text \<open>
  One turn of the outer loop of \<open>WebRtcCng_K2a16\<close>, on \<open>a\<close> and the scratch array \<open>any\<close>.
\<close>

definition k2a_step :: "samples \<Rightarrow> nat \<Rightarrow> samples \<times> samples \<Rightarrow> samples \<times> samples" where
  "k2a_step k m = (\<lambda>(a, any).
     let any = any[m + 1 := i16 (shr (k ! m + 4) 3)];
         any = fold (\<lambda>i any. any[i + 1 := i16 (a ! (i + 1) + i16 (shr (i32 (a ! (m - i) * k ! m + 16384)) 15))]) [0..<m] any
     in (mem_copy a 0 (take (m + 2) any), any))"

definition WebRtcCng_K2a16 :: "samples \<Rightarrow> nat \<Rightarrow> samples \<Rightarrow> samples" where
  "WebRtcCng_K2a16 k useOrder a =
     (let a = a[0 := 4096];
          any = (replicate 15 0)[0 := a ! 0];
          a = a[1 := i16 (shr (k ! 0 + 4) 3)]
      in fst (fold (k2a_step k) [1..<useOrder] (a, any)))"

section \<open>webrtc_cng.c: the noise generator\<close>

text \<open>The smoothing of the scale factor, of the energy and of the coefficients.\<close>

definition smooth_coef :: "int \<Rightarrow> int \<Rightarrow> int \<Rightarrow> int \<Rightarrow> int" where
  "smooth_coef Beta BetaC used target =
     i16 (i16 (WEBRTC_SPL_MUL_16_16_RSFT used Beta 15) + i16 (WEBRTC_SPL_MUL_16_16_RSFT target BetaC 15))"

definition smooth_parameters :: "bool \<Rightarrow> WebRtcCngDecoder \<Rightarrow> WebRtcCngDecoder" where
  "smooth_parameters new_period inst =
     (let inst = (if new_period then inst\<lparr>dec_used_scale_factor := dec_target_scale_factor inst\<rparr> else inst);
          Beta = (if new_period then 19661 else 26214);
          BetaC = (if new_period then 13107 else 6553);
          tmp1 = i16 (shl32 (dec_used_scale_factor inst) 2);
          tmp2 = i16 (shl32 (dec_target_scale_factor inst) 2);
          tmp3 = smooth_coef Beta BetaC tmp1 tmp2;
          inst = inst\<lparr>dec_used_scale_factor := shr tmp3 2\<rparr>;
          inst = inst\<lparr>dec_used_energy := shr (dec_used_energy inst) 1\<rparr>;
          inst = inst\<lparr>dec_used_energy := i32 (dec_used_energy inst + shr (dec_target_energy inst) 1)\<rparr>
      in inst\<lparr>dec_used_reflCoefs := fold (\<lambda>i k. k[i := smooth_coef Beta BetaC (k ! i) (dec_target_reflCoefs inst ! i)])
            [0..<WEBRTC_CNG_MAX_LPC_ORDER] (dec_used_reflCoefs inst)\<rparr>)"

text \<open>The gain of the inverse filter in Q13, and the scale factor from it and the energy.\<close>

definition filter_gain :: "samples \<Rightarrow> int" where
  "filter_gain k =
     fold (\<lambda>i En. let temp16 = i16 (WEBRTC_SPL_MUL_16_16_RSFT (k ! i) (k ! i) 15);
                      temp16 = i16 (0x7fff - temp16)
                  in i16 (WEBRTC_SPL_MUL_16_16_RSFT En temp16 15)) [0..<WEBRTC_CNG_MAX_LPC_ORDER] 8192"

definition scale_factor :: "int \<Rightarrow> int \<Rightarrow> int" where
  "scale_factor used_energy En =
     (let targetEnergy = WebRtcSpl_Sqrt used_energy;
          En = i16 (shl32 (i16 (WebRtcSpl_Sqrt En)) 6);
          En = i16 (shr (En * 3) 1)
      in i16 (shr (i32 (En * targetEnergy)) 12))"

primrec excite :: "nat \<Rightarrow> int \<Rightarrow> int \<times> samples" where
  "excite 0 seed' = (seed', [])"
| "excite (Suc n) seed' =
     (let (seed', r) = WebRtcSpl_RandN seed'; (seed', rs) = excite n seed' in (seed', i16 (shr r 1) # rs))"

text \<open>
  The generator: the instance, the samples written to \<open>outData\<close> and the return value. The filter is given the first 12 of the
  13 entries of its state arrays.
\<close>

definition WebRtcCng_Generate :: "WebRtcCngDecoder \<Rightarrow> nat \<Rightarrow> int \<Rightarrow> WebRtcCngDecoder \<times> samples \<times> int" where
  "WebRtcCng_Generate inst nrOfSamples new_period =
     (if nrOfSamples > WEBRTC_CNG_MAX_OUTSIZE_ORDER
      then (inst\<lparr>dec_errorcode := CNG_DISALLOWED_FRAME_SIZE\<rparr>, [], - 1)
      else
        (let inst = smooth_parameters (new_period \<noteq> 0) inst;
             lpPoly = WebRtcCng_K2a16 (dec_used_reflCoefs inst) WEBRTC_CNG_MAX_LPC_ORDER (replicate 13 0);
             inst = inst\<lparr>dec_used_scale_factor := scale_factor (dec_used_energy inst) (filter_gain (dec_used_reflCoefs inst))\<rparr>;
             (seed', excitation) = excite nrOfSamples (dec_seed inst);
             inst = inst\<lparr>dec_seed := seed'\<rparr>;
             excitation = WebRtcSpl_ScaleVector excitation (dec_used_scale_factor inst) 13;
             ((state, stateLow), outData, low) =
               WebRtcSpl_FilterAR lpPoly excitation (take WEBRTC_CNG_MAX_LPC_ORDER (dec_filtstate inst))
                 (take WEBRTC_CNG_MAX_LPC_ORDER (dec_filtstateLow inst))
         in (inst\<lparr>dec_filtstate := mem_copy (dec_filtstate inst) 0 state,
                  dec_filtstateLow := mem_copy (dec_filtstateLow inst) 0 stateLow\<rparr>, outData, 0)))"

definition WebRtcCng_GetErrorCodeDec :: "WebRtcCngDecoder \<Rightarrow> int" where
  "WebRtcCng_GetErrorCodeDec inst = dec_errorcode inst"

section \<open>The bandwidth expansion\<close>

lemma and_mask_int:
  "(x :: int) AND 0xffff = x mod 65536" "x AND 0x7fff = x mod 32768"
proof -
  have "x AND mask 16 = take_bit 16 x" "x AND mask 15 = take_bit 15 x" by (simp_all only: take_bit_eq_mask)
  moreover have "mask 16 = (0xffff :: int)" "mask 15 = (0x7fff :: int)" by (simp_all add: mask_eq_exp_minus_1)
  ultimately show "x AND 0xffff = x mod 65536" "x AND 0x7fff = x mod 32768" by (simp_all add: take_bit_eq_mod)
qed

lemma or_shifted: "0 \<le> b \<Longrightarrow> b < 2 ^ n \<Longrightarrow> b OR a * 2 ^ n = a * 2 ^ n + b" for a b :: int
proof -
  assume b: "0 \<le> b" "b < 2 ^ n"
  then have "take_bit n b = b" by (simp add: take_bit_int_eq_self_iff)
  then have "push_bit n a OR b = push_bit n a + b"
    by (intro disjunctive_add [symmetric]) (metis bit_push_bit_iff bit_take_bit_iff linorder_not_less)
  then show ?thesis by (simp add: push_bit_eq_mult or.commute)
qed

lemma u32_or_i32: "u32 (x OR i32 y) = u32 (x OR y)"
proof -
  have "take_bit 32 (i32 y) = take_bit 32 y" by (simp add: take_bit_eq_mod)
  then have "take_bit 32 (x OR i32 y) = take_bit 32 (x OR y)" by (simp only: take_bit_or)
  then show ?thesis by (simp add: u32_def take_bit_eq_mod)
qed

lemma div_halves: "p div 4294967296 * 131072 + p mod 4294967296 div 32768 = p div (32768 :: int)"
proof -
  have "p = p mod 4294967296 + (p div 4294967296 * 131072) * 32768" by simp
  then have "p div 32768 = (p mod 4294967296 + (p div 4294967296 * 131072) * 32768) div 32768" by (rule arg_cong)
  also have "\<dots> = p div 4294967296 * 131072 + p mod 4294967296 div 32768"
    by (rule div_mult_self1) simp
  finally show ?thesis by simp
qed

lemma expand_lag_nonneg:
  assumes a: "0 \<le> a" "a \<le> 32767" and b: "0 \<le> b" "b \<le> 2147483647"
  shows "expand_lag a b = a * b div 32768"
proof -
  define bl bh where "bl = b mod 65536" and "bh = b div 65536"
  have bl: "0 \<le> bl" "bl \<le> 65535" "0 \<le> bh" "bh \<le> 32767" "b = bh * 65536 + bl"
    using b by (auto simp: bl_def bh_def)
  have p: "0 \<le> a * bl" "a * bl \<le> 32767 * 65535" "0 \<le> a * bh" "a * bh \<le> 32767 * 32767"
    using a bl mult_mono [of a 32767 bl 65535] mult_mono [of a 32767 bh 32767] by auto
  define q where "q = a * b div 65536"
  have ab: "a * b = a * bl + (a * bh) * 65536" by (simp add: bl(5) algebra_simps)
  have q: "q = a * bh + a * bl div 65536" "a * b mod 65536 = a * bl mod 65536"
    unfolding q_def ab by simp_all
  have q0: "0 \<le> q" "q \<le> 1073741823" using p unfolding q(1) by (simp_all add: pos_imp_zdiv_nonneg_iff)
  have s1: "i32 (a * (b AND 0xffff)) = a * bl"
    using p by (simp add: and_mask_int bl_def [symmetric] i32_id in_i32_def)
  have s2: "i32 ((shr (a * bl) 16 AND 0xffff) + a * (shr b 16 AND 0xffff)) = q"
    using p q0 bl by (simp add: and_mask_int shr_def bh_def [symmetric] i32_id in_i32_def q(1) pos_imp_zdiv_nonneg_iff)
  have s3: "u32 ((a * bl AND 0xffff) OR shl32 (q AND 0xffff) 16) = a * b mod 4294967296"
  proof -
    have "(a * bl AND 0xffff) OR q mod 65536 * 2 ^ 16 = q mod 65536 * 2 ^ 16 + a * bl mod 65536"
      using or_shifted [of "a * bl mod 65536" 16 "q mod 65536"] by (simp add: and_mask_int)
    also have "\<dots> = a * b mod 4294967296"
      using mod_mult2_eq' [of "a * b" 65536 65536] by (simp add: q_def q(2))
    finally show ?thesis by (simp add: shl32_def u32_or_i32 and_mask_int) (simp add: u32_def)
  qed
  have s4: "u32 (shl32 (shr q 16 AND 0x7fff) 17) = a * b div 4294967296 * 2 ^ 17"
  proof -
    have e: "shr q 16 = a * b div 4294967296" by (simp add: shr_def q_def zdiv_zmult2_eq [symmetric])
    have "0 \<le> shr q 16" "shr q 16 \<le> 16383" using q0 by (auto simp: shr_def)
    then show ?thesis unfolding e by (simp add: and_mask_int shl32_def i32_id in_i32_def u32_id in_u32_def)
  qed
  have s5: "i32 (a * b div 4294967296 * 2 ^ 17 OR shr (a * b mod 4294967296) 15) = a * b div 32768"
  proof -
    have "0 \<le> a * b" using a b by simp
    moreover have "a * b \<le> 32767 * 2147483647" using a b by (intro mult_mono) auto
    ultimately have r: "0 \<le> a * b div 32768" "a * b div 32768 \<le> 2147483647" by (auto simp: pos_imp_zdiv_nonneg_iff)
    have "a * b mod 4294967296 div 32768 < 131072" by (rule div_less_mult) auto
    then have "shr (a * b mod 4294967296) 15 OR a * b div 4294967296 * 2 ^ 17 = a * b div 32768"
      using or_shifted [of "a * b mod 4294967296 div 32768" 17 "a * b div 4294967296"] div_halves [of "a * b"]
      by (simp add: shr_def pos_imp_zdiv_nonneg_iff)
    then show ?thesis using r by (simp add: or.commute i32_id in_i32_def)
  qed
  have "\<not> b < 0" using b by simp
  then show ?thesis unfolding expand_lag_def Let_def by (simp only: if_False s1 s2 s3 s4 s5)
qed

text \<open>The bandwidth expansion of the encoder, done in 16-bit halves, is exact: \<^const>\<open>expand_lag\<close> is the product of the
  window value and the lag in Q15, rounded towards zero, for every lag but the least 32-bit value.\<close>

theorem expand_lag_exact:
  assumes "0 \<le> a" "a \<le> 32767" and "\<bar>b\<bar> \<le> 2147483647"
  shows "expand_lag a b = sgn b * (a * \<bar>b\<bar> div 32768)"
proof (cases "b < 0")
  case True
  have "i32 (- b) = - b" using assms True by (simp add: i32_id in_i32_def)
  then have "expand_lag a b = i32 (- expand_lag a (- b))"
    using True unfolding expand_lag_def Let_def by simp
  also have "expand_lag a (- b) = a * (- b) div 32768" using assms True by (intro expand_lag_nonneg) auto
  finally have e: "expand_lag a b = i32 (- (a * (- b) div 32768))" .
  have "0 \<le> a * (- b)" using assms True by (simp add: mult_nonneg_nonpos)
  moreover have "a * (- b) \<le> 32767 * 2147483647" using assms True by (intro mult_mono) auto
  ultimately have "0 \<le> a * (- b) div 32768" "a * (- b) div 32768 \<le> 2147483647" by (auto simp: pos_imp_zdiv_nonneg_iff)
  then have "i32 (- (a * (- b) div 32768)) = - (a * (- b) div 32768)" by (simp add: i32_id in_i32_def)
  then show ?thesis using e True by simp
qed (use expand_lag_nonneg [of a b] assms in \<open>cases "b = 0"; simp\<close>)

theorem expand_lag_exact_witness:
  "expand_lag 32702 (- 2147483647) = - 2143158271 \<and> expand_lag 31985 1000 = 976"
  using expand_lag_exact [of 32702 "- 2147483647"] expand_lag_exact [of 31985 1000] by simp

section \<open>The energy of a frame\<close>

lemma energy_loop_few: "s \<le> 5 \<Longrightarrow> energy_loop (int s) e n = (e, n div 2 ^ s)"
proof (induction s arbitrary: n)
  case (Suc s)
  then show ?case by (subst energy_loop.simps) (simp add: div_mult2_eq)
qed (simp add: energy_loop.simps)

lemma frame_energy_scaled:
  assumes "no_min16 v" and "length v \<le> 640" and "WebRtcSpl_Energy v = (e, int s)" and "s \<le> 5"
  shows "frame_energy v = WebRtcSpl_DivW32W16 (\<Sum>x\<leftarrow>v. shr (x * x) (int s)) (int (length v) div 2 ^ s)"
proof -
  have "e = (\<Sum>x\<leftarrow>v. shr (x * x) (int s))" using Energy_exact [OF assms(1)] assms(2,3) by simp
  moreover have "int (length v div 2 ^ s) \<le> 640" using assms(2) div_le_dividend [of "length v" "2 ^ s"] by linarith
  then have "in_i16 (int (length v div 2 ^ s))" unfolding in_i16_def by linarith
  then have "i16 (int (length v div 2 ^ s)) = int (length v) div 2 ^ s" by (simp add: i16_id zdiv_int)
  ultimately show ?thesis by (simp add: frame_energy_def assms(3) energy_loop_few [OF assms(4)])
qed

lemma scan_abs_le:
  assumes "list_all (\<lambda>x. \<bar>x\<bar> \<le> 1448) v"
  shows "scan_abs v \<le> 1448"
proof -
  let ?f = "\<lambda>x smax. let sabs = (if x > 0 then x else i16 (- x)) in if sabs > smax then sabs else smax"
  have f: "?f x m \<le> 1448" if "\<bar>x\<bar> \<le> 1448" "m \<le> 1448" for x m
    using that i16_id [of "- x"] by (auto simp: Let_def in_i16_def)
  have "fold ?f ys m \<le> 1448" if "list_all (\<lambda>x. \<bar>x\<bar> \<le> 1448) ys" "m \<le> 1448" for ys m
    using that
  proof (induction ys arbitrary: m)
    case (Cons y ys)
    have "?f y m \<le> 1448" using Cons.prems by (intro f) auto
    then have "fold ?f ys (?f y m) \<le> 1448" using Cons.prems by (intro Cons.IH) auto
    then show ?case by simp
  qed simp
  then show ?thesis using assms by (simp add: scan_abs_def)
qed

lemma Energy_quiet:
  assumes "list_all (\<lambda>x. \<bar>x\<bar> \<le> 1448) v" and "v \<noteq> []" and "length v \<le> 640"
  shows "no_min16 v" and "snd (WebRtcSpl_Energy v) = 0"
proof -
  show nm: "no_min16 v" using assms(1) by (auto simp: no_min16_def list_all_iff)
  define m where "m = scan_abs v"
  have "0 \<le> m" using scan_abs_bounds(3) [OF nm, of "hd v"] assms(2) abs_ge_zero [of "hd v"] by (simp add: m_def)
  moreover have "m \<le> 1448" using scan_abs_le [OF assms(1)] by (simp add: m_def)
  ultimately have m: "0 \<le> m" "m \<le> 1448" by simp_all
  have mm: "m * m \<le> 1448 * 1448" using m by (intro mult_mono) auto
  have mul: "WEBRTC_SPL_MUL m m = m * m"
    using m by (simp add: WEBRTC_SPL_MUL_def i32_mult_i16 i32_id in_i16_i32 in_i16_def)
  have nb: "WebRtcSpl_GetSizeInBits (int (length v)) \<le> 10" "0 \<le> WebRtcSpl_GetSizeInBits (int (length v))"
    using GetSizeInBits_iff [of "int (length v)" 10] GetSizeInBits_bounds [of "int (length v)"] assms(3) by auto
  have "10 \<le> WebRtcSpl_NormW32 (m * m)" if "m \<noteq> 0"
  proof (rule ccontr)
    assume n: "\<not> 10 \<le> WebRtcSpl_NormW32 (m * m)"
    have ok: "norm_ok (- 2147483648) 2147483647 (m * m) (WebRtcSpl_NormW32 (m * m))"
      using mm zero_le_square [of m] by (intro norm_ok_NormW32) linarith+
    define X where "X = m * m * 2 ^ Suc (nat (WebRtcSpl_NormW32 (m * m)))"
    have "m * m \<noteq> 0" using that by simp
    then have d: "X < - 2147483648 \<or> 2147483647 < X" using ok unfolding norm_ok_def X_def by blast
    have "X \<le> (1448 * 1448) * 2 ^ 10" using n mm m unfolding X_def by (intro mult_mono power_increasing) auto
    then have "X \<le> 2147024896" by simp
    moreover have "0 \<le> X" by (simp add: X_def)
    ultimately show False using d by linarith
  qed
  then have "WebRtcSpl_GetSizeInBits (int (length v)) < WebRtcSpl_NormW32 (m * m) \<or>
      WebRtcSpl_GetSizeInBits (int (length v)) - WebRtcSpl_NormW32 (m * m) = 0" if "m \<noteq> 0"
    using nb that by force
  then show "snd (WebRtcSpl_Energy v) = 0"
    using nb assms(3) i16_id [of 0] unfolding WebRtcSpl_Energy_def WebRtcSpl_GetScalingSquare_def Let_def m_def [symmetric] mul
    by (auto simp: u32_id in_u32_def in_i16_def)
qed

text \<open>The energy \<^const>\<open>frame_energy\<close> that the comfort noise encoder measures is the mean square of the frame, rounded down,
  for every frame of up to 640 samples with magnitudes up to 1448. A loud frame is measured wrongly: the shift back to five
  fraction bits overflows, and 80 samples at full scale have a negative energy.\<close>

theorem frame_energy_mean:
  assumes "list_all (\<lambda>x. \<bar>x\<bar> \<le> 1448) v" and "v \<noteq> []" and "length v \<le> 640"
  shows "frame_energy v = (\<Sum>x\<leftarrow>v. x * x) div int (length v) \<and> frame_energy (replicate 80 32767) < 0"
proof
  obtain e where e: "WebRtcSpl_Energy v = (e, int 0)" using Energy_quiet(2) [OF assms] by (cases "WebRtcSpl_Energy v") simp
  have f: "frame_energy v = WebRtcSpl_DivW32W16 (\<Sum>x\<leftarrow>v. x * x) (int (length v))"
    using frame_energy_scaled [OF Energy_quiet(1) [OF assms] assms(3) e] by simp
  have s: "0 \<le> (\<Sum>x\<leftarrow>v. x * x)" "(\<Sum>x\<leftarrow>v. x * x) \<le> 2147483647"
    using Energy_exact [OF Energy_quiet(1) [OF assms]] assms(3) e by auto
  have l: "1 \<le> int (length v)" using assms(2) by (cases v) auto
  show "frame_energy v = (\<Sum>x\<leftarrow>v. x * x) div int (length v)" using DivW32W16_nonneg [OF s, of "int (length v)"] assms(2) by (simp add: f)
  show "frame_energy (replicate 80 32767) < 0" by code_simp
qed

theorem frame_energy_mean_witness:
  "frame_energy [100, - 300, 1448, 0, 7] = 439350 \<and> frame_energy (replicate 80 32767) < 0"
  using frame_energy_mean [of "[100, - 300, 1448, 0, 7]"] by simp

section \<open>The energy of the generated noise\<close>

definition generate :: "nat \<times> int \<Rightarrow> WebRtcCngDecoder \<Rightarrow> WebRtcCngDecoder" where
  "generate = (\<lambda>(nrOfSamples, new_period) inst. fst (WebRtcCng_Generate inst nrOfSamples new_period))"

lemma smooth_energy:
  "dec_used_energy (smooth_parameters p inst) = i32 (shr (dec_used_energy inst) 1 + shr (dec_target_energy inst) 1)"
  "dec_target_energy (smooth_parameters p inst) = dec_target_energy inst"
  by (simp_all add: smooth_parameters_def Let_def)

lemma generate_energy:
  assumes "n \<le> 640"
  shows "dec_used_energy (generate (n, p) inst) = i32 (shr (dec_used_energy inst) 1 + shr (dec_target_energy inst) 1)"
    and "dec_target_energy (generate (n, p) inst) = dec_target_energy inst"
  using assms smooth_energy [of "p \<noteq> 0" inst]
  by (simp_all add: generate_def WebRtcCng_Generate_def WEBRTC_CNG_MAX_OUTSIZE_ORDER_def Let_def split_def)

lemma halve_distance: "u div 2 + T = 2 * T + (u - 2 * T) div (2 :: int)"
proof -
  have "u div 2 = (u - 2 * T + T * 2) div 2" by simp
  also have "\<dots> = T + (u - 2 * T) div 2" by (rule div_mult_self1) simp
  finally show ?thesis by simp
qed

lemma div_small: "- m \<le> x \<Longrightarrow> x < m \<Longrightarrow> 0 < m \<Longrightarrow> x div m \<in> {- 1, 0}" for x m :: int
proof -
  assume a: "- m \<le> x" "x < m" "0 < m"
  have "x div m < 1" using a by (intro div_less_mult) simp_all
  moreover have "- m div m \<le> x div m" using a by (intro zdiv_mono1) simp_all
  moreover have "- m div m = - 1" using nonzero_mult_div_cancel_right [of m "- 1"] a by simp
  ultimately show ?thesis by auto
qed

text \<open>C37: the energy \<^const>\<open>WebRtcCng_Generate\<close> works with converges to that of the last descriptor: every call halves the distance,
  so that after 31 calls it is the target, or one or two less, whatever it was before.\<close>

theorem used_energy_converges:
  assumes "list_all (\<lambda>(n, p). n \<le> 640) calls"
    and "0 \<le> dec_used_energy inst" and "dec_used_energy inst \<le> 2147483647"
    and "0 \<le> dec_target_energy inst" and "dec_target_energy inst \<le> 2147483647"
  shows "dec_used_energy (fold generate calls inst) =
           2 * (dec_target_energy inst div 2) + (dec_used_energy inst - 2 * (dec_target_energy inst div 2)) div 2 ^ length calls \<and>
         (31 \<le> length calls \<longrightarrow>
            dec_target_energy inst - 2 \<le> dec_used_energy (fold generate calls inst) \<and>
            dec_used_energy (fold generate calls inst) \<le> dec_target_energy inst)"
proof -
  define T where "T = dec_target_energy inst div 2"
  have T: "0 \<le> T" "T \<le> 1073741823" using assms(4,5) by (auto simp: T_def)
  have e: "dec_used_energy (fold generate calls inst) = 2 * T + (dec_used_energy inst - 2 * T) div 2 ^ length calls"
    using assms(1-3) T_def
  proof (induction calls arbitrary: inst)
    case (Cons c calls)
    obtain n p where c: "c = (n, p)" "n \<le> 640" using Cons.prems(1) by (cases c) auto
    define u where "u = dec_used_energy inst"
    have u: "0 \<le> u div 2" "u div 2 \<le> 1073741823" using Cons.prems(2,3) by (auto simp: u_def)
    have g: "dec_used_energy (generate c inst) = u div 2 + T" "T = dec_target_energy (generate c inst) div 2"
      using generate_energy [OF c(2), of p inst] Cons.prems(4) T u
      by (simp_all add: c(1) shr_def u_def [symmetric] i32_id in_i32_def)
    have "dec_used_energy (fold generate calls (generate c inst)) = 2 * T + (u div 2 + T - 2 * T) div 2 ^ length calls"
      using Cons.IH [of "generate c inst"] Cons.prems(1) g T u by simp
    also have "u div 2 + T - 2 * T = (u - 2 * T) div 2" by (simp add: halve_distance)
    finally show ?case by (simp add: u_def zdiv_zmult2_eq)
  qed simp
  have "(dec_used_energy inst - 2 * T) div 2 ^ length calls \<in> {- 1, 0}" if "31 \<le> length calls"
  proof (rule div_small)
    have "(2 :: int) ^ 31 \<le> 2 ^ length calls" using that by (intro power_increasing) auto
    then show "- (2 ^ length calls) \<le> dec_used_energy inst - 2 * T" "dec_used_energy inst - 2 * T < 2 ^ length calls"
      using assms(2,3) T by simp_all
  qed simp
  moreover have "2 * T = dec_target_energy inst \<or> 2 * T = dec_target_energy inst - 1" by (auto simp: T_def)
  ultimately show ?thesis using e by (auto simp: T_def)
qed

theorem used_energy_converges_witness:
  "dec_used_energy (fold generate (replicate 31 (80, 0)) (WebRtcCng_InitDec\<lparr>dec_target_energy := 1000001\<rparr>)) = 999999"
proof -
  have "list_all (\<lambda>(n, p). n \<le> 640) (replicate 31 (80 :: nat, 0 :: int))" by (simp add: list_all_iff)
  from used_energy_converges [OF this, of "WebRtcCng_InitDec\<lparr>dec_target_energy := 1000001\<rparr>"] show ?thesis
    by (simp add: WebRtcCng_InitDec_def cleared_decoder_def del: fold_replicate)
qed

section \<open>The encoder between calls\<close>

definition enc_ok :: "WebRtcCngEncoder \<Rightarrow> bool" where
  "enc_ok inst \<longleftrightarrow> enc_initflag inst = 1 \<and> 1 \<le> enc_nrOfCoefs inst \<and> enc_nrOfCoefs inst \<le> 12 \<and>
     length (enc_reflCoefs inst) = 13 \<and> list_all in_i16 (enc_reflCoefs inst) \<and> in_i32 (enc_Energy inst)"

text \<open>The reflection coefficients that the recursion leaves are 16-bit values.\<close>

lemma hi_low_i16: "in_i16 (fst (hi_low t))"
  by (simp add: hi_low_def Let_def)

lemma levinson_loop_i16:
  "list_all in_i16 (refl_coef l) \<Longrightarrow> list_all in_i16 (refl_coef (snd (levinson_loop R_hi R_low is l)))"
  by (induction R_hi R_low "is" l rule: levinson_loop.induct) (simp_all add: Let_def hi_low_i16 list_all_update)

lemma length_levinson_loop: "length (refl_coef (snd (levinson_loop R_hi R_low is l))) = length (refl_coef l)"
  by (induction R_hi R_low "is" l rule: levinson_loop.induct) (auto simp: Let_def)

lemma levinson_first_i16: "list_all in_i16 K \<Longrightarrow> list_all in_i16 (refl_coef (levinson_first R_hi R_low order K))"
  by (simp add: levinson_first_def Let_def split_def list_all_update hi_low_i16)

lemma LevinsonDurbin_i16:
  assumes "list_all in_i16 K" and "WebRtcSpl_LevinsonDurbin R A K order = (r, A', K')"
  shows "list_all in_i16 K'" and "length K' = length K"
proof -
  define R_hi where "R_hi = map (\<lambda>i. fst (hi_low (shl32 (R ! i) (WebRtcSpl_NormW32 (R ! 0))))) [0..<order + 1]"
  define R_low where "R_low = map (\<lambda>i. snd (hi_low (shl32 (R ! i) (WebRtcSpl_NormW32 (R ! 0))))) [0..<order + 1]"
  have "K' = refl_coef (snd (levinson_loop R_hi R_low [2..<order + 1] (levinson_first R_hi R_low order K)))"
    using assms(2) unfolding WebRtcSpl_LevinsonDurbin_def Let_def R_hi_def [symmetric] R_low_def [symmetric] split_def
    by (auto split: if_splits)
  then show "list_all in_i16 K'" "length K' = length K"
    by (simp_all add: levinson_loop_i16 levinson_first_i16 [OF assms(1)] length_levinson_loop)
qed

lemma analyze_frame_i16:
  assumes "analyze_frame h n speech = Some (stab, refCs)"
  shows "list_all in_i16 refCs \<and> length refCs = 13"
proof -
  have z: "list_all in_i16 (replicate 13 0)" by (simp add: list_all_iff in_i16_def)
  obtain R A where "WebRtcSpl_LevinsonDurbin R (replicate 13 0) (replicate 13 0) n = (stab, A, refCs)"
    using assms by (auto simp: analyze_frame_def Let_def split_def prod_eq_iff split: option.splits if_splits)
  then show ?thesis using LevinsonDurbin_i16 [OF z] by simp
qed

lemma frame_energy_i32: "in_i32 (frame_energy speech)"
  by (simp add: frame_energy_def split_def Let_def WebRtcSpl_DivW32W16_def in_i32_def [of "2147483647"])

lemma update_average_keeps:
  "enc_nrOfCoefs (update_average f e k inst) = enc_nrOfCoefs inst"
  "enc_sampfreq (update_average f e k inst) = enc_sampfreq inst"
  "enc_interval (update_average f e k inst) = enc_interval inst"
  "enc_msSinceSID (update_average f e k inst) = enc_msSinceSID inst"
  "enc_initflag (update_average f e k inst) = enc_initflag inst"
  "enc_errorcode (update_average f e k inst) = enc_errorcode inst"
  by (simp_all add: update_average_def Let_def)

lemma fold_average:
  "list_all in_i16 ks \<Longrightarrow>
     list_all in_i16 (fold (\<lambda>i k. let k = k[i := i16 (g (k ! i))] in k[i := i16 (h i (k ! i))]) is ks)"
  "length (fold (\<lambda>i k. let k = k[i := i16 (g (k ! i))] in k[i := i16 (h i (k ! i))]) is ks) = length ks"
  by (induction "is" arbitrary: ks) (simp_all add: Let_def list_all_update)

lemma update_average_coefs:
  assumes "enc_ok inst" and "list_all in_i16 refCs" and "enc_nrOfCoefs inst \<le> length refCs"
  shows "list_all in_i16 (enc_reflCoefs (update_average f e refCs inst)) \<and> length (enc_reflCoefs (update_average f e refCs inst)) = 13"
proof (cases f)
  case True
  have "list_all in_i16 (mem_copy (enc_reflCoefs inst) 0 (take (enc_nrOfCoefs inst) refCs))"
    using assms set_mem_copy [of "enc_reflCoefs inst" 0 "take (enc_nrOfCoefs inst) refCs"] set_take_subset [of "enc_nrOfCoefs inst" refCs]
    by (fastforce simp: list_all_iff enc_ok_def)
  then show ?thesis using True assms by (simp add: update_average_def Let_def enc_ok_def)
next
  case False
  have k: "list_all in_i16 (enc_reflCoefs inst)" "length (enc_reflCoefs inst) = 13" using assms(1) by (simp_all add: enc_ok_def)
  show ?thesis using False k
      fold_average(1) [OF k(1), of "\<lambda>k. WEBRTC_SPL_MUL_16_16_RSFT k 19661 15" "\<lambda>i k. k + i16 (WEBRTC_SPL_MUL_16_16_RSFT (refCs ! i) 13107 15)"]
      fold_average(2) [of "\<lambda>k. WEBRTC_SPL_MUL_16_16_RSFT k 19661 15" "\<lambda>i k. k + i16 (WEBRTC_SPL_MUL_16_16_RSFT (refCs ! i) 13107 15)"]
    by (simp add: update_average_def Let_def)
qed

lemma update_average_ok:
  assumes "enc_ok inst" and "list_all in_i16 refCs" and "in_i32 e" and "enc_nrOfCoefs inst \<le> length refCs"
  shows "enc_ok (update_average f e refCs inst)" and "1 \<le> enc_Energy (update_average f e refCs inst)"
proof -
  have "in_i32 1" by (simp add: in_i32_def)
  then have "in_i32 (enc_Energy (update_average f e refCs inst))" "1 \<le> enc_Energy (update_average f e refCs inst)"
    using assms(3) by (auto simp: update_average_def Let_def)
  then show "enc_ok (update_average f e refCs inst)" "1 \<le> enc_Energy (update_average f e refCs inst)"
    using assms(1) update_average_coefs [OF assms(1,2,4)] by (simp_all add: enc_ok_def update_average_keeps)
qed

text \<open>The frame that is measured, whether it is silent or not.\<close>

definition measured :: "samples \<Rightarrow> nat \<Rightarrow> samples \<Rightarrow> (int \<times> samples) option" where
  "measured hanningW n speech =
     (if frame_energy speech > 1 then analyze_frame hanningW n speech else Some (1, replicate n 0))"

lemma measured_i16:
  assumes "measured h n speech = Some (stab, refCs)" and "n \<le> 12"
  shows "list_all in_i16 refCs" and "n \<le> length refCs"
  using assms analyze_frame_i16 [of h n speech]
  by (auto simp: measured_def in_i16_def list_all_iff split: if_splits)

lemma Encode_measured:
  assumes "enc_initflag inst = 1" and "length speech \<le> 640"
  shows "WebRtcCng_Encode h inst speech SIDdata b force =
     (case measured h (enc_nrOfCoefs inst) speech of
        None \<Rightarrow> None
      | Some (stab, refCs) \<Rightarrow>
          if stab = 0 then Some (inst, SIDdata, 0, 0)
          else send_sid (force \<noteq> 0) (length speech) SIDdata (update_average (force \<noteq> 0) (frame_energy speech) refCs inst))"
  using assms by (simp add: WebRtcCng_Encode_def WEBRTC_CNG_MAX_OUTSIZE_ORDER_def measured_def Let_def)

lemma send_sid_cases:
  assumes "send_sid f n SIDdata inst = Some (inst', SIDdata', k, r)"
  obtains (sent) t where "r = int k" "k = enc_nrOfCoefs inst + 1" "k \<le> length SIDdata" "SIDdata' = mem_copy SIDdata 0 (sid_bytes inst)"
      "inst' = inst\<lparr>enc_msSinceSID := t\<rparr>"
    | (quiet) t where "r = 0" "k = 0" "SIDdata' = SIDdata" "\<not> f" "inst' = inst\<lparr>enc_msSinceSID := t\<rparr>"
  using assms by (fastforce simp: send_sid_def Let_def split: option.splits if_splits)

lemma enc_ok_ms [simp]: "enc_ok (inst\<lparr>enc_msSinceSID := t\<rparr>) = enc_ok inst"
  by (simp add: enc_ok_def)

text \<open>A call on an initialised encoder that returns: it rejects the frame, skips it, or measures it.\<close>

lemma Encode_cases:
  assumes "enc_ok inst" and "WebRtcCng_Encode h inst speech SIDdata b force = Some (inst', SIDdata', k, r)"
  obtains (size) "length speech > 640" "inst' = inst\<lparr>enc_errorcode := 6140\<rparr>" "SIDdata' = SIDdata" "k = b" "r = - 1"
    | (unstable) "length speech \<le> 640" "inst' = inst" "SIDdata' = SIDdata" "k = 0" "r = 0"
    | (measured) avg where "length speech \<le> 640" "enc_ok avg" "1 \<le> enc_Energy avg" "enc_nrOfCoefs avg = enc_nrOfCoefs inst"
        "enc_errorcode avg = enc_errorcode inst" "enc_sampfreq avg = enc_sampfreq inst"
        "send_sid (force \<noteq> 0) (length speech) SIDdata avg = Some (inst', SIDdata', k, r)"
proof (cases "length speech \<le> 640")
  case True
  have n: "enc_initflag inst = 1" "enc_nrOfCoefs inst \<le> 12" using assms(1) by (simp_all add: enc_ok_def)
  obtain stab refCs where m: "measured h (enc_nrOfCoefs inst) speech = Some (stab, refCs)"
    using assms(2) Encode_measured [OF n(1) True] by (auto split: option.splits)
  note u = update_average_ok [OF assms(1) measured_i16(1) [OF m n(2)] frame_energy_i32 [of speech] measured_i16(2) [OF m n(2)]]
  have e: "WebRtcCng_Encode h inst speech SIDdata b force = (if stab = 0 then Some (inst, SIDdata, 0, 0)
      else send_sid (force \<noteq> 0) (length speech) SIDdata (update_average (force \<noteq> 0) (frame_energy speech) refCs inst))"
    using Encode_measured [OF n(1) True] m by simp
  show ?thesis
  proof (cases "stab = 0")
    case False
    then show ?thesis using assms(2) e u by (intro measured [OF True u(1,2)]) (simp_all add: update_average_keeps)
  qed (use assms(2) e unstable True in simp)
next
  case False
  then show ?thesis using assms size by (auto simp: WebRtcCng_Encode_def WEBRTC_CNG_MAX_OUTSIZE_ORDER_def enc_ok_def CNG_DISALLOWED_FRAME_SIZE_def)
qed

lemma Encode_ok:
  assumes "enc_ok inst" and "WebRtcCng_Encode h inst speech SIDdata b force = Some (inst', SIDdata', k, r)"
  shows "enc_ok inst' \<and> enc_sampfreq inst' = enc_sampfreq inst"
  using assms
proof (cases rule: Encode_cases)
  case (measured avg)
  from measured(7) show ?thesis by (cases rule: send_sid_cases) (use measured in simp_all)
qed (use assms(1) in \<open>simp_all add: enc_ok_def\<close>)

lemma InitEnc_ok:
  assumes "WebRtcCng_InitEnc fs interval quality = (inst, 0)"
  shows "enc_ok inst" and "enc_sampfreq inst = fs" and "int (enc_nrOfCoefs inst) = quality"
  using assms by (auto simp: WebRtcCng_InitEnc_def enc_ok_def WEBRTC_CNG_MAX_LPC_ORDER_def cleared_encoder_def Let_def
      list_all_iff in_i16_def in_i32_def split: if_splits)

section \<open>From the encoder to the decoder\<close>

text \<open>A byte of the descriptor carries a coefficient in Q7, in either of the two formats.\<close>

lemma coef_roundtrip: "dequantize_coef (int n) (quantize_coef n k) = i16 (256 * ((k + 128) div 256))"
proof -
  define q where "q = (k + 128) div 256"
  have "i16 (shl32 (q mod 256) 8) = i16 (256 * q)"
  proof -
    have "(q mod 256 * 256 + 32768) mod 65536 = (256 * q + 32768) mod 65536"
      using mult_mod_right [of 256 q 256] by (simp add: mod_simps mult.commute)
    then show ?thesis unfolding shl32_def i16_i32 by (simp add: i16_def)
  qed
  moreover have "i16 (shl32 ((127 + q) mod 256 - 127) 8) = i16 (256 * q)"
  proof -
    have "((127 + q) mod 256 * 256 + 256) mod 65536 = (256 * q + 32768) mod 65536"
    proof -
      have "(127 + q) mod 256 * 256 mod 65536 = (127 + q) * 256 mod 65536"
        using mult_mod_right [of 256 "127 + q" 256] by (simp add: mult.commute)
      then have "((127 + q) mod 256 * 256 + 256) mod 65536 = ((127 + q) * 256 + 256) mod 65536" by (rule mod_add_cong) simp
      then show ?thesis by (simp add: algebra_simps)
    qed
    then show ?thesis unfolding shl32_def i16_i32 by (simp add: i16_def algebra_simps)
  qed
  ultimately show ?thesis
    by (simp add: dequantize_coef_def quantize_coef_def u8_def shr_def q_def)
qed

lemma coef_error:
  assumes "in_i16 k"
  shows "if k < 32640 then \<bar>i16 (256 * ((k + 128) div 256)) - k\<bar> \<le> 128 else i16 (256 * ((k + 128) div 256)) = - 32768"
proof -
  define q where "q = (k + 128) div 256"
  have q: "256 * q \<le> k + 128" "k + 128 < 256 * q + 256" by (simp_all add: q_def)
  show ?thesis
  proof (cases "k < 32640")
    case True
    then have "in_i16 (256 * q)" using q assms by (simp add: in_i16_def)
    then show ?thesis using True q by (simp add: i16_id q_def [symmetric] abs_le_iff)
  next
    case False
    then have "q = 128" using assms by (simp add: q_def in_i16_def)
    then show ?thesis using False by (simp add: q_def [symmetric] i16_def)
  qed
qed

text \<open>The level that is sent is the first one below the energy.\<close>

lemma dbov_i32:
  assumes "1 \<le> E" "E \<le> 2147483647" "i \<in> set [0..<94]"
  shows "i32 (E - WebRtcCng_kDbov ! i) = E - WebRtcCng_kDbov ! i"
proof -
  have "\<forall>i\<in>set [0..<94]. 1 \<le> WebRtcCng_kDbov ! i \<and> WebRtcCng_kDbov ! i \<le> 1081109975" by code_simp
  then have "1 \<le> WebRtcCng_kDbov ! i" "WebRtcCng_kDbov ! i \<le> 1081109975" using assms(3) by blast+
  then show ?thesis using assms(1,2) by (simp add: i32_id in_i32_def)
qed

lemma dbov_search_spec:
  assumes "1 \<le> E" "E \<le> 2147483647" "set is \<subseteq> set [0..<94]"
  shows "dbov_search E is = 94 \<and> (\<forall>i\<in>set is. E \<le> WebRtcCng_kDbov ! i) \<or>
         (\<exists>xs i ys. is = xs @ i # ys \<and> dbov_search E is = i \<and> WebRtcCng_kDbov ! i < E \<and> (\<forall>j\<in>set xs. E \<le> WebRtcCng_kDbov ! j))"
  using assms(3)
proof (induction "is")
  case (Cons i "is")
  have e: "i32 (E - WebRtcCng_kDbov ! i) = E - WebRtcCng_kDbov ! i" using assms(1,2) Cons.prems by (intro dbov_i32) auto
  show ?case
  proof (cases "WebRtcCng_kDbov ! i < E")
    case True
    then have "dbov_search E (i # is) = i" by (simp add: e)
    then have "i # is = [] @ i # is \<and> dbov_search E (i # is) = i \<and> WebRtcCng_kDbov ! i < E \<and> (\<forall>j\<in>set []. E \<le> WebRtcCng_kDbov ! j)"
      using True by simp
    then show ?thesis by blast
  next
    case False
    then have d: "dbov_search E (i # is) = dbov_search E is" "E \<le> WebRtcCng_kDbov ! i" by (simp_all add: e)
    from Cons.IH Cons.prems consider "dbov_search E is = 94" "\<forall>i\<in>set is. E \<le> WebRtcCng_kDbov ! i" |
      xs j ys where "is = xs @ j # ys" "dbov_search E is = j" "WebRtcCng_kDbov ! j < E" "\<forall>j\<in>set xs. E \<le> WebRtcCng_kDbov ! j"
      by auto
    then show ?thesis
    proof cases
      case (2 xs j ys)
      then have "i # is = (i # xs) @ j # ys" "\<forall>k\<in>set (i # xs). E \<le> WebRtcCng_kDbov ! k" using d by auto
      then show ?thesis using 2 d by metis
    qed (use d in simp)
  qed
qed simp

definition target_of :: "int \<Rightarrow> int" where
  "target_of D = (let t = shr D 1 in i32 (t + shr t 2))"

lemma target_table:
  "\<forall>i\<in>set [1..<94]. 8 * target_of (WebRtcCng_kDbov ! i) \<le> 5 * WebRtcCng_kDbov ! i \<and>
     10 * WebRtcCng_kDbov ! (i - 1) \<le> 21 * target_of (WebRtcCng_kDbov ! i) + 30 \<and> 0 \<le> target_of (WebRtcCng_kDbov ! i)"
  by code_simp

lemma level_roundtrip:
  assumes "1 \<le> E" "E \<le> 2147483647" and "i = dbov_search E [1..<93]"
  shows "8 * target_of (WebRtcCng_kDbov ! min 93 i) \<le> 5 * E" and
    "E \<le> 1081109975 \<Longrightarrow> 10 * E \<le> 21 * target_of (WebRtcCng_kDbov ! min 93 i) + 30" and "1 \<le> i" and "i \<le> 94"
proof -
  have s: "set [1..<93] \<subseteq> set [0..<94]" by auto
  have "8 * target_of (WebRtcCng_kDbov ! min 93 i) \<le> 5 * E \<and>
    (E \<le> 1081109975 \<longrightarrow> 10 * E \<le> 21 * target_of (WebRtcCng_kDbov ! min 93 i) + 30) \<and> 1 \<le> i \<and> i \<le> 94"
    using dbov_search_spec [OF assms(1,2) s] unfolding assms(3) [symmetric]
  proof (elim disjE exE conjE)
    assume i: "i = 94" "\<forall>i\<in>set [1..<93]. E \<le> WebRtcCng_kDbov ! i"
    from this(2) have "E \<le> WebRtcCng_kDbov ! 92" by (rule bspec) simp
    then have "E = 1" using assms(1) by (simp add: WebRtcCng_kDbov_def)
    moreover have "target_of (WebRtcCng_kDbov ! 93) = 0" by code_simp
    ultimately show ?thesis using i(1) by simp
  next
    fix xs j ys
    assume j: "[1..<93] = xs @ j # ys" "i = j" "WebRtcCng_kDbov ! j < E" "\<forall>k\<in>set xs. E \<le> WebRtcCng_kDbov ! k"
    define m where "m = length xs"
    have m: "m < 92" using arg_cong [OF j(1), of length] by (simp add: m_def)
    have jm: "j = m + 1" using arg_cong [OF j(1), of "\<lambda>l. l ! m"] m by (simp add: m_def nth_append)
    have t: "8 * target_of (WebRtcCng_kDbov ! j) \<le> 5 * WebRtcCng_kDbov ! j"
      "10 * WebRtcCng_kDbov ! (j - 1) \<le> 21 * target_of (WebRtcCng_kDbov ! j) + 30"
      using bspec [OF target_table, of j] m jm by simp_all
    have "E \<le> WebRtcCng_kDbov ! (j - 1)" if "E \<le> 1081109975"
    proof (cases "m = 0")
      case True
      then show ?thesis using that jm by (simp add: WebRtcCng_kDbov_def)
    next
      case False
      have "xs = [1..<m + 1]" using arg_cong [OF j(1), of "take m"] m by (simp add: m_def)
      then show ?thesis using j(4) jm False by auto
    qed
    then show ?thesis using t j(2,3) m jm by (auto simp: min_def)
  qed
  then show "8 * target_of (WebRtcCng_kDbov ! min 93 i) \<le> 5 * E"
    "E \<le> 1081109975 \<Longrightarrow> 10 * E \<le> 21 * target_of (WebRtcCng_kDbov ! min 93 i) + 30" "1 \<le> i" "i \<le> 94" by blast+
qed

text \<open>The states of an encoder that was initialised with the sampling frequency \<open>fs\<close>.\<close>

inductive encoder_reached :: "int \<Rightarrow> WebRtcCngEncoder \<Rightarrow> bool" for fs :: int where
  init: "WebRtcCng_InitEnc fs interval quality = (inst, 0) \<Longrightarrow> encoder_reached fs inst"
| frame: "encoder_reached fs inst \<Longrightarrow> WebRtcCng_Encode h inst speech SIDdata b force = Some (inst', SIDdata', k, r) \<Longrightarrow>
    encoder_reached fs inst'"

lemma encoder_reached_ok: "encoder_reached fs inst \<Longrightarrow> enc_ok inst \<and> enc_sampfreq inst = fs"
proof (induction rule: encoder_reached.induct)
  case (frame inst h speech SIDdata b force inst' SIDdata' k r)
  then show ?case using Encode_ok [OF _ frame.hyps(2)] by simp
qed (use InitEnc_ok in blast)

lemma length_sid_bytes: "enc_ok inst \<Longrightarrow> length (sid_bytes inst) = enc_nrOfCoefs inst + 1"
  by (simp add: sid_bytes_def enc_ok_def)

text \<open>The decoder's view of a descriptor.\<close>

lemma UpdateSid_sid_bytes:
  assumes "enc_ok inst" "1 \<le> enc_Energy inst" and "dec_initflag d = 1" "length (dec_target_reflCoefs d) = 13"
  shows "\<exists>d' SID. WebRtcCng_UpdateSid d (sid_bytes inst) = Some (d', SID, 0) \<and>
    dec_order d' = int (enc_nrOfCoefs inst) \<and>
    dec_target_energy d' = target_of (WebRtcCng_kDbov ! min 93 (dbov_search (enc_Energy inst) [1..<93])) \<and>
    (\<forall>i<12. dec_target_reflCoefs d' ! i =
       (if i < enc_nrOfCoefs inst then i16 (256 * ((enc_reflCoefs inst ! i + 128) div 256)) else 0))"
proof -
  define n lev where "n = enc_nrOfCoefs inst" and "lev = dbov_search (enc_Energy inst) [1..<93]"
  have n: "1 \<le> n" "n \<le> 12" "length (enc_reflCoefs inst) = 13" using assms(1) by (simp_all add: enc_ok_def n_def)
  have lev: "1 \<le> lev" "lev \<le> 94"
    using level_roundtrip(3,4) [OF assms(2) _ lev_def] assms(1) by (simp_all add: enc_ok_def in_i32_def)
  then have u: "u8 (int lev) = int lev" by (simp add: u8_def)
  define qs where "qs = map (quantize_coef n) (take n (enc_reflCoefs inst))"
  have b: "sid_bytes inst = int lev # qs" unfolding sid_bytes_def lev_def [symmetric] n_def [symmetric] by (simp add: qs_def u)
  have l: "length qs = n" using n by (simp add: qs_def)
  define SID where "SID = (if 93 < int lev then 93 else int lev) # qs"
  have sid: "(if (int lev # qs) ! 0 > 93 then (int lev # qs)[0 := 93] else int lev # qs) = SID" by (simp add: SID_def)
  have s0: "nat (SID ! 0) = min 93 lev" by (auto simp: SID_def min_def)
  have ord: "i16 (int (n + 1)) - 1 = int n" using n by (simp add: i16_id in_i16_def)
  define coefs where "coefs = map (\<lambda>i. dequantize_coef (int n) (SID ! (i + 1))) [0..<n] @ replicate (12 - n) 0"
  have c: "coefs ! i = (if i < n then i16 (256 * ((enc_reflCoefs inst ! i + 128) div 256)) else 0)" if "i < 12" for i
    using that n l by (auto simp: coefs_def nth_append SID_def qs_def coef_roundtrip)
  have "length coefs = 12" using n by (simp add: coefs_def)
  then have m: "\<forall>i<12. mem_copy (dec_target_reflCoefs d) 0 coefs ! i = coefs ! i" using assms(4) by (simp add: nth_mem_copy)
  have "WebRtcCng_UpdateSid d (sid_bytes inst) = Some (d\<lparr>dec_order := int n, dec_target_energy := target_of (WebRtcCng_kDbov ! min 93 lev),
      dec_target_reflCoefs := mem_copy (dec_target_reflCoefs d) 0 coefs\<rparr>, SID, 0)"
    using assms(3) n(2) l ord unfolding WebRtcCng_UpdateSid_def b Let_def sid s0 coefs_def WEBRTC_CNG_MAX_LPC_ORDER_def
    by (simp add: target_of_def Let_def)
  then show ?thesis using m c by (simp add: n_def lev_def)
qed


section \<open>What a call answers\<close>


lemma length_fold_writes: "length (fold (\<lambda>i h. h[f i := g i h]) is h) = length h"
  by (induction "is" arbitrary: h) simp_all

lemma window_frame_some:
  assumes "length h = 640" "length speech \<le> 640"
  shows "\<exists>w. window_frame h speech = Some w \<and> length w = length speech"
proof -
  define m where "m = length speech div 2"
  have "\<exists>w. WebRtcSpl_GetHanningWindow m = Some w \<and> length w = m"
  proof (cases "m = 0")
    case True
    then show ?thesis by (simp add: WebRtcSpl_GetHanningWindow_def)
  next
    case False
    then show ?thesis using GetHanningWindow_range [of m] assms(2) by (auto simp: m_def)
  qed
  then obtain w where w: "WebRtcSpl_GetHanningWindow m = Some w" "length w = m" by blast
  then show ?thesis
    using assms by (auto simp: window_frame_def m_def [symmetric] length_fold_writes WebRtcSpl_ElementwiseVectorMult_def Let_def) (simp add: m_def)
qed

lemma measured_some:
  assumes "length h = 640" "length speech \<le> 640" "n \<le> length speech"
  shows "measured h n speech \<noteq> None"
  using window_frame_some [OF assms(1,2)] assms(3) by (auto simp: measured_def analyze_frame_def Let_def split_def)

lemma frame_ms_some:
  assumes "in_i32 (enc_sampfreq inst)" "enc_sampfreq inst \<noteq> 0"
  shows "frame_ms inst n \<noteq> None"
proof -
  have "\<not> (2 ^ 64 :: int) dvd enc_sampfreq inst"
    using assms zdvd_not_zless [of "\<bar>enc_sampfreq inst\<bar>" "2 ^ 64"] by (auto simp: in_i32_def)
  then show ?thesis by (simp add: frame_ms_def Let_def dvd_eq_mod_eq_0)
qed

text \<open>The level of an energy: the first entry of the table, from 1 on, below it, or 94 when there is none up to 92.\<close>

definition level_for :: "int \<Rightarrow> nat \<Rightarrow> bool" where
  "level_for E lev \<longleftrightarrow> (if lev < 93 then 1 \<le> lev \<and> WebRtcCng_kDbov ! lev < E else lev = 94) \<and>
     (\<forall>j. 1 \<le> j \<and> j < lev \<and> j < 93 \<longrightarrow> E \<le> WebRtcCng_kDbov ! j)"

text \<open>The bytes of a descriptor of the parameters an encoder holds: the level, and the coefficients rounded to eight bits.\<close>

definition describes :: "int list \<Rightarrow> WebRtcCngEncoder \<Rightarrow> bool" where
  "describes bytes inst \<longleftrightarrow> length bytes = enc_nrOfCoefs inst + 1 \<and>
     (\<exists>lev. bytes ! 0 = int lev \<and> level_for (enc_Energy inst) lev) \<and>
     (\<forall>i<enc_nrOfCoefs inst.
        bytes ! (i + 1) = ((enc_reflCoefs inst ! i + 128) div 256 + (if enc_nrOfCoefs inst = 12 then 0 else 127)) mod 256)"

text \<open>What an encoder holds after a frame: the measured values themselves when a descriptor is forced, and averages with weights 0.6 and 0.4
  for the coefficients and 3/4 and 1/4 for the energy otherwise.\<close>

definition learns :: "bool \<Rightarrow> int \<Rightarrow> samples \<Rightarrow> WebRtcCngEncoder \<Rightarrow> WebRtcCngEncoder \<Rightarrow> bool" where
  "learns forced E refCs inst inst' \<longleftrightarrow>
     enc_Energy inst' = max 1 (if forced then E else E div 4 + enc_Energy inst div 2 + enc_Energy inst div 4) \<and>
     length (enc_reflCoefs inst') = 13 \<and>
     (\<forall>i<13. enc_reflCoefs inst' ! i =
        (if enc_nrOfCoefs inst \<le> i then enc_reflCoefs inst ! i else if forced then refCs ! i
         else enc_reflCoefs inst ! i * 19661 div 32768 + refCs ! i * 13107 div 32768))"

lemma upt_split:
  assumes "[a..<b] = xs @ j # ys"
  shows "set xs = {a..<j}" and "a \<le> j" and "j < b"
proof -
  have m: "length xs < length [a..<b]" using arg_cong [OF assms, of length] by simp
  have j: "j = a + length xs" using arg_cong [OF assms, of "\<lambda>l. l ! length xs"] m by simp
  then show "a \<le> j" "j < b" using m by simp_all
  have "xs = take (length xs) [a..<b]" using arg_cong [OF assms, of "take (length xs)"] by simp
  also have "\<dots> = [a..<j]" using m j by (simp add: take_upt)
  finally show "set xs = {a..<j}" by simp
qed

lemma dbov_search_level:
  assumes "1 \<le> E" "E \<le> 2147483647"
  shows "level_for E (dbov_search E [1..<93])"
proof -
  have s: "set [1..<93] \<subseteq> set [0..<94]" by auto
  from dbov_search_spec [OF assms s] show ?thesis
  proof (elim disjE exE conjE)
    fix xs j ys
    assume j: "[1..<93] = xs @ j # ys" "dbov_search E [1..<93] = j" "WebRtcCng_kDbov ! j < E" "\<forall>k\<in>set xs. E \<le> WebRtcCng_kDbov ! k"
    then show ?thesis using upt_split [OF j(1)] by (simp add: level_for_def)
  qed (simp add: level_for_def)
qed

lemma sid_bytes_describes:
  assumes "enc_ok inst" "1 \<le> enc_Energy inst"
  shows "describes (sid_bytes inst) inst"
proof -
  have lev: "level_for (enc_Energy inst) (dbov_search (enc_Energy inst) [1..<93])"
    using assms by (intro dbov_search_level) (simp_all add: enc_ok_def in_i32_def)
  then have "dbov_search (enc_Energy inst) [1..<93] < 256" by (auto simp: level_for_def split: if_splits)
  then have "sid_bytes inst ! 0 = int (dbov_search (enc_Energy inst) [1..<93])" by (simp add: sid_bytes_def u8_def)
  then show ?thesis
    using assms(1) lev by (auto simp: describes_def sid_bytes_def quantize_coef_def u8_def shr_def enc_ok_def WEBRTC_CNG_MAX_LPC_ORDER_def algebra_simps)
qed

text \<open>The averages never overflow their widths.\<close>

lemma fold_update_nth:
  assumes "n \<le> length ks" "i < length ks"
  shows "fold (\<lambda>i k. let k = k[i := g (k ! i)] in k[i := h i (k ! i)]) [0..<n] ks ! i = (if i < n then h i (g (ks ! i)) else ks ! i)"
    and "length (fold (\<lambda>i k. let k = k[i := g (k ! i)] in k[i := h i (k ! i)]) [0..<n] ks) = length ks"
proof -
  have l: "length (fold (\<lambda>i k. let k = k[i := g (k ! i)] in k[i := h i (k ! i)]) is ks) = length ks" for "is" and ks :: "'a list"
    by (induction "is" arbitrary: ks) (simp_all add: Let_def)
  show "length (fold (\<lambda>i k. let k = k[i := g (k ! i)] in k[i := h i (k ! i)]) [0..<n] ks) = length ks" by (rule l)
  show "fold (\<lambda>i k. let k = k[i := g (k ! i)] in k[i := h i (k ! i)]) [0..<n] ks ! i = (if i < n then h i (g (ks ! i)) else ks ! i)"
    using assms
  proof (induction n arbitrary: i)
    case (Suc n)
    then show ?case using l [of "[0..<n]" ks] by (auto simp: Let_def nth_list_update less_Suc_eq)
  qed simp
qed

lemma average_exact:
  assumes "in_i16 k" "in_i16 r"
  shows "i16 (i16 (WEBRTC_SPL_MUL_16_16_RSFT k 19661 15) + i16 (WEBRTC_SPL_MUL_16_16_RSFT r 13107 15)) =
    k * 19661 div 32768 + r * 13107 div 32768"
proof -
  have c: "in_i16 19661" "in_i16 13107" by (simp_all add: in_i16_def)
  have m: "WEBRTC_SPL_MUL_16_16_RSFT x y 15 = x * y div 32768" if "in_i16 x" "in_i16 y" for x y
    using that by (simp add: WEBRTC_SPL_MUL_16_16_RSFT_def WEBRTC_SPL_MUL_16_16_def i16_id i32_mult_i16 shr_def)
  have "k * 19661 div 32768 \<le> 19660" "- 19661 \<le> k * 19661 div 32768" "r * 13107 div 32768 \<le> 13106" "- 13107 \<le> r * 13107 div 32768"
    using assms by (auto simp: in_i16_def)
  then show ?thesis unfolding m [OF assms(1) c(1)] m [OF assms(2) c(2)] by (simp add: i16_id in_i16_def)
qed

lemma quarter_sum:
  assumes "in_i32 e" "in_i32 x"
  shows "in_i32 (e div 4 + x div 2 + x div 4)"
proof -
  have "- 536870912 \<le> e div 4" "e div 4 \<le> 536870911" "- 1073741824 \<le> x div 2" "x div 2 \<le> 1073741823"
    "- 536870912 \<le> x div 4" "x div 4 \<le> 536870911"
    using assms by (auto simp: in_i32_def)
  then show ?thesis by (simp add: in_i32_def)
qed

lemma update_average_learns:
  assumes "enc_ok inst" "list_all in_i16 refCs" "enc_nrOfCoefs inst \<le> length refCs" "in_i32 e"
  shows "learns f e refCs inst (update_average f e refCs inst)"
proof -
  define n where "n = enc_nrOfCoefs inst"
  have k: "length (enc_reflCoefs inst) = 13" "list_all in_i16 (enc_reflCoefs inst)" "n \<le> 12" "in_i32 (enc_Energy inst)"
    using assms(1) by (simp_all add: enc_ok_def n_def)
  have "i32 (e div 4 + enc_Energy inst div 2 + enc_Energy inst div 4) = e div 4 + enc_Energy inst div 2 + enc_Energy inst div 4"
    using quarter_sum [OF assms(4) k(4)] by (rule i32_id)
  then have e: "enc_Energy (update_average f e refCs inst) = max 1 (if f then e else e div 4 + enc_Energy inst div 2 + enc_Energy inst div 4)"
    by (auto simp: update_average_def Let_def shr_def)
  have i16: "in_i16 (enc_reflCoefs inst ! i)" "in_i16 (refCs ! i)" if "i < n" for i
    using that k assms(2,3) by (simp_all add: list_all_length n_def)
  have c: "enc_reflCoefs (update_average f e refCs inst) ! i =
      (if n \<le> i then enc_reflCoefs inst ! i else if f then refCs ! i
       else enc_reflCoefs inst ! i * 19661 div 32768 + refCs ! i * 13107 div 32768)" if "i < 13" for i
  proof (cases f)
    case True
    then have "enc_reflCoefs (update_average f e refCs inst) = mem_copy (enc_reflCoefs inst) 0 (take n refCs)"
      by (simp add: update_average_def Let_def n_def)
    then show ?thesis using True that k assms(3) by (simp add: nth_mem_copy n_def)
  next
    case False
    then show ?thesis
      using that k average_exact [OF i16, of i i]
        fold_update_nth(1) [of n "enc_reflCoefs inst" i "\<lambda>k. i16 (WEBRTC_SPL_MUL_16_16_RSFT k 19661 15)"
          "\<lambda>i k. i16 (k + i16 (WEBRTC_SPL_MUL_16_16_RSFT (refCs ! i) 13107 15))"]
      by (simp add: update_average_def Let_def n_def)
  qed
  show ?thesis using e c update_average_coefs [OF assms(1-3)] by (simp add: learns_def n_def)
qed

lemma measured_none:
  assumes "length h = 640" "length speech \<le> 640"
  shows "measured h n speech = None \<longleftrightarrow> length speech < n \<and> 1 < frame_energy speech"
proof (cases "length speech < n")
  case True
  then show ?thesis using window_frame_some [OF assms] by (auto simp: measured_def analyze_frame_def)
next
  case False
  then show ?thesis using measured_some [OF assms, of n] by simp
qed

text \<open>A frame that is used: whether a descriptor is sent, what it says and what the encoder remembers.\<close>

lemma Encode_sends:
  assumes "enc_ok inst" "in_i32 (enc_sampfreq inst)" "enc_sampfreq inst \<noteq> 0" "13 \<le> length SIDdata"
    and "length speech \<le> 640" "measured h (enc_nrOfCoefs inst) speech = Some (stab, refCs)" "stab \<noteq> 0"
    and "sent \<longleftrightarrow> force \<noteq> 0 \<or> enc_interval inst \<le> enc_msSinceSID inst"
  shows "\<exists>inst' bytes.
     WebRtcCng_Encode h inst speech SIDdata b force =
       Some (inst', if sent then bytes @ drop (enc_nrOfCoefs inst + 1) SIDdata else SIDdata,
             if sent then enc_nrOfCoefs inst + 1 else 0, if sent then int (enc_nrOfCoefs inst) + 1 else 0) \<and>
     describes bytes inst' \<and> learns (force \<noteq> 0) (frame_energy speech) refCs inst inst' \<and>
     inst' = inst\<lparr>enc_reflCoefs := enc_reflCoefs inst', enc_Energy := enc_Energy inst',
       enc_msSinceSID := i16 ((if sent then 0 else enc_msSinceSID inst) +
         i16 (1000 * int (length speech) div (enc_sampfreq inst mod 2 ^ 64)))\<rparr>"
proof -
  define avg where "avg = update_average (force \<noteq> 0) (frame_energy speech) refCs inst"
  define ms where "ms = i16 (1000 * int (length speech) div (enc_sampfreq inst mod 2 ^ 64))"
  have flag: "enc_initflag inst = 1" "enc_nrOfCoefs inst \<le> 12" using assms(1) by (simp_all add: enc_ok_def)
  note r = measured_i16 [OF assms(6) flag(2)]
  have avg: "enc_ok avg" "1 \<le> enc_Energy avg" "learns (force \<noteq> 0) (frame_energy speech) refCs inst avg"
    unfolding avg_def using update_average_ok [OF assms(1) r(1) frame_energy_i32 r(2)]
      update_average_learns [OF assms(1) r frame_energy_i32] by simp_all
  have t: "frame_ms avg (length speech) = Some ms"
    using frame_ms_some [OF assms(2,3)] by (auto simp: avg_def frame_ms_def update_average_keeps ms_def Let_def)
  define inst' where "inst' = avg\<lparr>enc_msSinceSID := i16 ((if sent then 0 else enc_msSinceSID inst) + ms)\<rparr>"
  have l: "length (sid_bytes avg) = enc_nrOfCoefs inst + 1" using length_sid_bytes [OF avg(1)] by (simp add: avg_def update_average_keeps)
  have "WebRtcCng_Encode h inst speech SIDdata b force = send_sid (force \<noteq> 0) (length speech) SIDdata avg"
    using Encode_measured [OF flag(1) assms(5)] assms(6,7) by (simp add: avg_def)
  also have "\<dots> = Some (inst', if sent then sid_bytes avg @ drop (enc_nrOfCoefs inst + 1) SIDdata else SIDdata,
      if sent then enc_nrOfCoefs inst + 1 else 0, if sent then int (enc_nrOfCoefs inst) + 1 else 0)"
    using t flag(2) assms(4,8) l by (auto simp: send_sid_def Let_def inst'_def avg_def update_average_keeps mem_copy_def)
  finally have e: "WebRtcCng_Encode h inst speech SIDdata b force =
    Some (inst', if sent then sid_bytes avg @ drop (enc_nrOfCoefs inst + 1) SIDdata else SIDdata,
      if sent then enc_nrOfCoefs inst + 1 else 0, if sent then int (enc_nrOfCoefs inst) + 1 else 0)" .
  have "describes (sid_bytes avg) inst'" using sid_bytes_describes [OF avg(1,2)] by (simp add: inst'_def describes_def)
  moreover have "learns (force \<noteq> 0) (frame_energy speech) refCs inst inst'" using avg(3) by (simp add: inst'_def learns_def)
  moreover have "inst' = inst\<lparr>enc_reflCoefs := enc_reflCoefs inst', enc_Energy := enc_Energy inst',
      enc_msSinceSID := i16 ((if sent then 0 else enc_msSinceSID inst) + ms)\<rparr>"
    by (simp add: inst'_def avg_def update_average_def Let_def)
  ultimately show ?thesis using e unfolding ms_def by blast
qed

text \<open>C35: the comfort noise encoder, initialised with a sampling frequency other than 0 and with room for the descriptor. A frame of up
  to 640 samples is stopped by the assertion on its length exactly when it has fewer samples than there are coefficients and is not
  silent. A frame whose prediction filter is unstable is disregarded: 0 is returned and nothing changes. Any other frame is learned: by
  itself if a descriptor is forced, into the averages, which do not overflow, if not; and a descriptor is sent exactly when it is forced or the time since the
  last one has reached the interval. Then the bytes written are those that describe the new parameters, their number is
  returned, the rest of \<open>SIDdata\<close> stays as it was and the time restarts; otherwise nothing is written, 0 is returned and the time goes on by
  that of the frame. Nothing else of the encoder changes. A longer frame is rejected with -1 and error 6140, an encoder that is not
  initialised answers -1 with error 6120, and initialisation fails for orders outside 1 to 12 with error 6130.\<close>

theorem encode_answers:
  assumes "encoder_reached fs inst" and "in_i32 fs" and "fs \<noteq> 0" and "13 \<le> length SIDdata" and "length h = 640"
    and "n = enc_nrOfCoefs inst" and "sent \<longleftrightarrow> force \<noteq> 0 \<or> enc_interval inst \<le> enc_msSinceSID inst"
  shows "(length speech \<le> 640 \<longrightarrow>
            (WebRtcCng_Encode h inst speech SIDdata b force = None \<longleftrightarrow> length speech < n \<and> 1 < frame_energy speech)) \<and>
         (length speech \<le> 640 \<and> measured h n speech = Some (stab, refCs) \<longrightarrow>
            (if stab = 0 then WebRtcCng_Encode h inst speech SIDdata b force = Some (inst, SIDdata, 0, 0)
             else \<exists>inst' bytes.
               WebRtcCng_Encode h inst speech SIDdata b force =
                 Some (inst', if sent then bytes @ drop (n + 1) SIDdata else SIDdata,
                       if sent then n + 1 else 0, if sent then int n + 1 else 0) \<and>
               describes bytes inst' \<and> learns (force \<noteq> 0) (frame_energy speech) refCs inst inst' \<and>
               inst' = inst\<lparr>enc_reflCoefs := enc_reflCoefs inst', enc_Energy := enc_Energy inst',
                 enc_msSinceSID := i16 ((if sent then 0 else enc_msSinceSID inst) +
                   i16 (1000 * int (length speech) div (fs mod 2 ^ 64)))\<rparr>)) \<and>
         (640 < length speech \<longrightarrow>
            WebRtcCng_Encode h inst speech SIDdata b force = Some (inst\<lparr>enc_errorcode := 6140\<rparr>, SIDdata, b, - 1)) \<and>
         (WebRtcCng_CreateEnc True (Some block) = (Some created, 0) \<longrightarrow>
            WebRtcCng_Encode h created speech SIDdata b force = Some (created\<lparr>enc_errorcode := 6120\<rparr>, SIDdata, b, - 1)) \<and>
         (snd (WebRtcCng_InitEnc fs interval quality) = (if 1 \<le> quality \<and> quality \<le> 12 then 0 else - 1)) \<and>
         (\<not> (1 \<le> quality \<and> quality \<le> 12) \<longrightarrow> WebRtcCng_GetErrorCodeEnc (fst (WebRtcCng_InitEnc fs interval quality)) = 6130)"
proof -
  have ok: "enc_ok inst" "enc_sampfreq inst = fs" using encoder_reached_ok [OF assms(1)] by simp_all
  then have flag: "enc_initflag inst = 1" by (simp_all add: enc_ok_def)
  have fs: "in_i32 (enc_sampfreq inst)" "enc_sampfreq inst \<noteq> 0" using ok(2) assms(2,3) by simp_all
  note sends = Encode_sends [OF ok(1) fs assms(4) _ _ _ assms(7), where b = b]
  have skip: "WebRtcCng_Encode h inst speech SIDdata b force = Some (inst, SIDdata, 0, 0)"
    if "length speech \<le> 640" "measured h n speech = Some (0, refCs)" for refCs
    using Encode_measured [OF flag that(1)] that(2) by (simp add: assms(6))
  have "WebRtcCng_Encode h inst speech SIDdata b force = None \<longleftrightarrow> measured h n speech = None" if "length speech \<le> 640"
  proof (cases "measured h n speech")
    case None
    then show ?thesis using Encode_measured [OF flag that] by (simp add: assms(6))
  next
    case (Some m)
    obtain st rs where m: "m = (st, rs)" by fastforce
    show ?thesis
    proof (cases "st = 0")
      case False
      then show ?thesis using sends [OF that, of h st rs] Some m by (auto simp: assms(6))
    qed (use skip [OF that] Some m in simp)
  qed
  moreover have "WebRtcCng_Encode h inst speech SIDdata b force = Some (inst\<lparr>enc_errorcode := 6140\<rparr>, SIDdata, b, - 1)" if "640 < length speech"
    using that flag by (simp add: WebRtcCng_Encode_def WEBRTC_CNG_MAX_OUTSIZE_ORDER_def CNG_DISALLOWED_FRAME_SIZE_def)
  moreover have "WebRtcCng_Encode h created speech SIDdata b force = Some (created\<lparr>enc_errorcode := 6120\<rparr>, SIDdata, b, - 1)"
    if "WebRtcCng_CreateEnc True (Some block) = (Some created, 0)"
    using that by (auto simp: WebRtcCng_CreateEnc_def WebRtcCng_Encode_def CNG_ENCODER_NOT_INITIATED_def)
  moreover have "snd (WebRtcCng_InitEnc fs interval quality) = (if 1 \<le> quality \<and> quality \<le> 12 then 0 else - 1)"
    "\<not> (1 \<le> quality \<and> quality \<le> 12) \<longrightarrow> WebRtcCng_GetErrorCodeEnc (fst (WebRtcCng_InitEnc fs interval quality)) = 6130"
    by (auto simp: WebRtcCng_InitEnc_def WEBRTC_CNG_MAX_LPC_ORDER_def WebRtcCng_GetErrorCodeEnc_def CNG_DISALLOWED_LPC_ORDER_def Let_def)
  ultimately show ?thesis
    using measured_none [OF assms(5), of speech n] sends [of speech h stab refCs] skip [of refCs] unfolding assms(6) ok(2) by auto
qed

theorem encode_answers_witness:
  "(\<exists>inst' bytes. WebRtcCng_Encode (replicate 640 0) (fst (WebRtcCng_InitEnc 8000 100 2)) [300, - 250, 120, 80, - 400, 90, 10, 33] (replicate 13 7) 4 1 =
       Some (inst', bytes @ replicate 10 7, 3, 3) \<and> describes bytes inst' \<and> enc_msSinceSID inst' = 1) \<and>
   (\<exists>inst'. WebRtcCng_Encode (replicate 640 0) (fst (WebRtcCng_InitEnc 8000 100 2)) [300, - 250, 120, 80, - 400, 90, 10, 33] (replicate 13 7) 4 0 =
       Some (inst', replicate 13 7, 0, 0) \<and> enc_msSinceSID inst' = 1) \<and>
   WebRtcCng_Encode (replicate 640 0) (fst (WebRtcCng_InitEnc 8000 100 2)) (replicate 641 5) (replicate 13 7) 4 1 =
     Some ((fst (WebRtcCng_InitEnc 8000 100 2))\<lparr>enc_errorcode := 6140\<rparr>, replicate 13 7, 4, - 1)"
proof -
  define e x where "e = fst (WebRtcCng_InitEnc 8000 100 2)" and "x = [300, - 250, 120, 80, - 400, 90, 10, 33 :: int]"
  have s: "snd (WebRtcCng_InitEnc 8000 100 2) = 0" by code_simp
  then have r: "encoder_reached 8000 e" by (intro encoder_reached.init [of _ 100 2]) (simp add: e_def prod_eq_iff)
  have f: "2 = enc_nrOfCoefs e" "\<not> enc_interval e \<le> enc_msSinceSID e" "enc_msSinceSID e = 0" unfolding e_def by code_simp+
  have "(case measured (replicate 640 0) 2 x of None \<Rightarrow> False | Some p \<Rightarrow> fst p \<noteq> 0)" unfolding x_def by code_simp
  then obtain stab refCs where m: "measured (replicate 640 0) 2 x = Some (stab, refCs)" "stab \<noteq> 0" by (auto split: option.splits)
  have fs: "in_i32 8000" "(8000 :: int) \<noteq> 0" by (simp_all add: in_i32_def)
  have l: "13 \<le> length (replicate 13 7)" "length (replicate 640 0) = 640" "length x \<le> 640" by (simp_all add: x_def)
  have ms: "i16 (0 + i16 (1000 * int (length x) div (8000 mod 2 ^ 64))) = 1" by (simp add: i16_def x_def)
  note a = encode_answers [OF r fs l(1,2) f(1), where b = 4]
  have sends: "\<exists>inst' bytes. WebRtcCng_Encode (replicate 640 0) e x (replicate 13 7) 4 force =
       Some (inst', if sent then bytes @ drop (2 + 1) (replicate 13 7) else replicate 13 7, if sent then 2 + 1 else 0, if sent then int 2 + 1 else 0) \<and>
       describes bytes inst' \<and> enc_msSinceSID inst' = 1" if "sent = (force \<noteq> 0)" for sent force
  proof -
    have "sent \<longleftrightarrow> force \<noteq> 0 \<or> enc_interval e \<le> enc_msSinceSID e" using that f(2) by simp
    note c = conjunct1 [OF conjunct2 [OF a [OF this, of x stab refCs]], THEN mp, OF conjI [OF l(3) m(1)], unfolded if_not_P [OF m(2)]]
    from c obtain inst' bytes where
      i: "WebRtcCng_Encode (replicate 640 0) e x (replicate 13 7) 4 force =
       Some (inst', if sent then bytes @ drop (2 + 1) (replicate 13 7) else replicate 13 7, if sent then 2 + 1 else 0, if sent then int 2 + 1 else 0)"
        "describes bytes inst'"
        and t: "inst' = e\<lparr>enc_reflCoefs := enc_reflCoefs inst', enc_Energy := enc_Energy inst',
          enc_msSinceSID := i16 ((if sent then 0 else enc_msSinceSID e) + i16 (1000 * int (length x) div (8000 mod 2 ^ 64)))\<rparr>"
      by blast
    have "enc_msSinceSID inst' = 1" using arg_cong [OF t, of enc_msSinceSID] f(3) ms by (simp add: i16_id in_i16_def split: if_splits)
    then show ?thesis using i by blast
  qed
  have "WebRtcCng_Encode (replicate 640 0) e (replicate 641 5) (replicate 13 7) 4 1 = Some (e\<lparr>enc_errorcode := 6140\<rparr>, replicate 13 7, 4, - 1)"
    using a [of True 1 "replicate 641 5"] by simp
  then show ?thesis using sends [of True 1] sends [of False 0] unfolding e_def x_def by simp blast
qed

section \<open>The decoder between calls\<close>

definition vec_ok :: "nat \<Rightarrow> samples \<Rightarrow> bool" where
  "vec_ok n v \<longleftrightarrow> length v = n \<and> list_all in_i16 v"

definition dec_ok :: "WebRtcCngDecoder \<Rightarrow> bool" where
  "dec_ok d \<longleftrightarrow> dec_initflag d = 1 \<and> vec_ok 13 (dec_target_reflCoefs d) \<and> vec_ok 13 (dec_used_reflCoefs d) \<and>
     vec_ok 13 (dec_filtstate d) \<and> vec_ok 13 (dec_filtstateLow d) \<and>
     0 \<le> dec_target_energy d \<and> dec_target_energy d \<le> 675693733 \<and> 0 \<le> dec_used_energy d \<and> dec_used_energy d \<le> 675693733"

lemma vec_ok_update [intro]: "vec_ok n v \<Longrightarrow> in_i16 x \<Longrightarrow> vec_ok n (v[i := x])"
  by (simp add: vec_ok_def list_all_update)

lemma vec_ok_copy:
  assumes "vec_ok n v" "vec_ok m w" "m \<le> n"
  shows "vec_ok n (mem_copy v 0 w)"
  using assms set_mem_copy [of v 0 w] by (auto simp: vec_ok_def list_all_iff)

lemma vec_ok_take: "vec_ok n v \<Longrightarrow> m \<le> n \<Longrightarrow> vec_ok m (take m v)"
  using set_take_subset [of m v] by (auto simp: vec_ok_def list_all_iff)

lemma vec_ok_drop: "vec_ok n v \<Longrightarrow> m \<le> n \<Longrightarrow> vec_ok (n - m) (drop m v)"
  using set_drop_subset [of m v] by (auto simp: vec_ok_def list_all_iff)

lemma vec_ok_append: "vec_ok m v \<Longrightarrow> vec_ok n w \<Longrightarrow> vec_ok (m + n) (v @ w)"
  by (simp add: vec_ok_def)

lemma filter_ar_fold_ok:
  "vec_ok n f \<Longrightarrow> vec_ok n fl \<Longrightarrow> fold (filter_ar_step a s sl) x (f, fl) = (g, gl) \<Longrightarrow>
     vec_ok (n + length x) g \<and> vec_ok (n + length x) gl"
proof (induction x arbitrary: n f fl)
  case (Cons y x)
  obtain f' fl' where s: "filter_ar_step a s sl y (f, fl) = (f', fl')" by fastforce
  then have "vec_ok (Suc n) f'" "vec_ok (Suc n) fl'" using Cons.prems(1,2) by (auto simp: filter_ar_step_def vec_ok_def Let_def)
  from Cons.IH [OF this] show ?case using Cons.prems(3) s by simp
qed simp

text \<open>The filter leaves a state of the same shape and gives one sample per input, all of 16 bits.\<close>

lemma FilterAR_ok:
  assumes "length a = n + 1" "vec_ok n s" "vec_ok n sl" and "WebRtcSpl_FilterAR a x s sl = ((s', sl'), f, fl)"
  shows "vec_ok n s' \<and> vec_ok n sl' \<and> vec_ok (length x) f"
proof -
  have f: "fold (filter_ar_step a s sl) x ([], []) = (f, fl)" and st: "filter_ar_state (length a) f fl s sl = (s', sl')"
    using assms(4) by (auto simp: WebRtcSpl_FilterAR_def Let_def split: prod.splits)
  have v: "vec_ok (length x) f" "vec_ok (length x) fl" using filter_ar_fold_ok [OF _ _ f, of 0] by (simp_all add: vec_ok_def)
  have l: "length s = n" "length sl = n" "length f = length x" "length fl = length x" using assms(2,3) v by (simp_all add: vec_ok_def)
  show ?thesis
  proof (cases "n \<le> length x")
    case True
    then have "s' = drop (length x - n) f" "sl' = drop (length x - n) fl"
      using filter_ar_state_long [of s "length a" sl f fl] st l assms(1) by auto
    then show ?thesis using v vec_ok_drop [OF v(1), of "length x - n"] vec_ok_drop [OF v(2), of "length x - n"] True by simp
  next
    case False
    then have "s' = drop (length x) s @ fl" "sl' = drop (length x) sl @ drop (n - length x) sl"
      using filter_ar_state_short [of sl s f fl "length a"] st l by auto
    then show ?thesis
      using False v vec_ok_append [OF vec_ok_drop [OF assms(2), of "length x"] v(2)]
        vec_ok_append [OF vec_ok_drop [OF assms(3), of "length x"] vec_ok_drop [OF assms(3), of "n - length x"]] by simp
  qed
qed

lemma length_k2a_fold:
  "length a = 13 \<Longrightarrow> length b = 15 \<Longrightarrow> set ms \<subseteq> {..11} \<Longrightarrow>
     length (fst (fold (k2a_step k) ms (a, b))) = 13 \<and> length (snd (fold (k2a_step k) ms (a, b))) = 15"
  by (induction ms arbitrary: a b) (auto simp: k2a_step_def Let_def length_fold_writes)

lemma length_K2a16: "m \<le> 12 \<Longrightarrow> length a = 13 \<Longrightarrow> length (WebRtcCng_K2a16 k m a) = 13"
proof -
  assume a: "m \<le> 12" "length a = 13"
  have "set [1..<m] \<subseteq> {..11}" using a(1) by (auto simp: subset_eq)
  then show ?thesis
    using length_k2a_fold [of "a[0 := 4096, 1 := i16 (shr (k ! 0 + 4) 3)]" "(replicate 15 0)[0 := 4096]" "[1..<m]" k] a(2)
    by (simp add: WebRtcCng_K2a16_def Let_def)
qed

lemma excite_length: "length (snd (excite n s)) = n"
  by (induction n arbitrary: s) (auto simp: split_def Let_def)

lemma smooth_parameters_ok:
  assumes "dec_ok d"
  shows "dec_ok (smooth_parameters p d)"
proof -
  have fold: "vec_ok 13 k \<Longrightarrow> vec_ok 13 (fold (\<lambda>i k. k[i := smooth_coef B C (k ! i) (t ! i)]) is k)" for k t "is" B C
    by (induction "is" arbitrary: k) (simp_all add: smooth_coef_def vec_ok_update)
  have "dec_used_energy d div 2 \<le> 337846866" "dec_target_energy d div 2 \<le> 337846866"
    "0 \<le> dec_used_energy d div 2" "0 \<le> dec_target_energy d div 2" using assms by (auto simp: dec_ok_def)
  then have "i32 (dec_used_energy d div 2 + dec_target_energy d div 2) = dec_used_energy d div 2 + dec_target_energy d div 2"
    "dec_used_energy d div 2 + dec_target_energy d div 2 \<le> 675693733" "0 \<le> dec_used_energy d div 2 + dec_target_energy d div 2"
    by (simp_all add: i32_id in_i32_def)
  then show ?thesis using assms fold by (simp add: dec_ok_def smooth_parameters_def Let_def shr_def)
qed

lemma Generate_ok:
  assumes "dec_ok d" "n \<le> 640" and "WebRtcCng_Generate d n p = (d', out, r)"
  shows "dec_ok d' \<and> vec_ok n out \<and> r = 0 \<and> dec_errorcode d' = dec_errorcode d"
proof -
  define e where "e = smooth_parameters (p \<noteq> 0) d"
  have ok: "dec_ok e" using assms(1) by (simp add: e_def smooth_parameters_ok)
  define poly where "poly = WebRtcCng_K2a16 (dec_used_reflCoefs e) 12 (replicate 13 0)"
  define x where "x = WebRtcSpl_ScaleVector (snd (excite n (dec_seed e))) (scale_factor (dec_used_energy e) (filter_gain (dec_used_reflCoefs e))) 13"
  have x: "length x = n" by (simp add: x_def WebRtcSpl_ScaleVector_def excite_length)
  obtain s sl f fl where c: "WebRtcSpl_FilterAR poly x (take 12 (dec_filtstate e)) (take 12 (dec_filtstateLow e)) = ((s, sl), f, fl)"
    by (metis surj_pair)
  have "length poly = 12 + 1" by (simp add: poly_def length_K2a16)
  moreover have t: "vec_ok 12 (take 12 (dec_filtstate e))" "vec_ok 12 (take 12 (dec_filtstateLow e))"
    using ok by (auto simp: dec_ok_def intro: vec_ok_take)
  ultimately have f: "vec_ok 12 s" "vec_ok 12 sl" "vec_ok n f" using FilterAR_ok [OF _ _ _ c] x by simp_all
  have d': "d' = e\<lparr>dec_used_scale_factor := scale_factor (dec_used_energy e) (filter_gain (dec_used_reflCoefs e)),
      dec_seed := fst (excite n (dec_seed e)), dec_filtstate := mem_copy (dec_filtstate e) 0 s,
      dec_filtstateLow := mem_copy (dec_filtstateLow e) 0 sl\<rparr>" "out = f" "r = 0"
    using assms(2,3) c unfolding poly_def x_def e_def
    by (auto simp: WebRtcCng_Generate_def WEBRTC_CNG_MAX_OUTSIZE_ORDER_def WEBRTC_CNG_MAX_LPC_ORDER_def Let_def split_def)
  have "vec_ok 13 (mem_copy (dec_filtstate e) 0 s)" "vec_ok 13 (mem_copy (dec_filtstateLow e) 0 sl)"
    using ok f by (auto simp: dec_ok_def intro: vec_ok_copy)
  then show ?thesis using ok f unfolding d' by (simp add: dec_ok_def) (simp add: e_def smooth_parameters_def Let_def)
qed

lemma UpdateSid_ok:
  assumes "dec_ok d" "SID \<noteq> []" "list_all in_u8 SID"
  shows "\<exists>d' SID'. WebRtcCng_UpdateSid d SID = Some (d', SID', 0) \<and> dec_ok d' \<and> dec_errorcode d' = dec_errorcode d"
proof -
  define len where "len = (if length SID > 13 then 13 else length SID)"
  have len: "1 \<le> len" "len \<le> 13" using assms(2) by (cases SID; simp add: len_def)+
  then have ord: "i16 (int len) - 1 = int (len - 1)" by (simp add: i16_id in_i16_def of_nat_diff)
  define S where "S = (if SID ! 0 > 93 then SID[0 := 93] else SID)"
  have "in_u8 (SID ! 0)" using assms(2,3) by (cases SID) auto
  then have "nat (S ! 0) \<in> set [0..<94]" using assms(2) by (auto simp: S_def in_u8_def)
  moreover have "\<forall>i\<in>set [0..<94]. 0 \<le> target_of (WebRtcCng_kDbov ! i) \<and> target_of (WebRtcCng_kDbov ! i) \<le> 675693733" by code_simp
  ultimately have E: "0 \<le> target_of (WebRtcCng_kDbov ! nat (S ! 0))" "target_of (WebRtcCng_kDbov ! nat (S ! 0)) \<le> 675693733" by blast+
  define coefs where "coefs = map (\<lambda>i. dequantize_coef (int (len - 1)) (S ! (i + 1))) [0..<len - 1] @ replicate (12 - (len - 1)) 0"
  have c: "vec_ok 12 coefs" using len by (auto simp: coefs_def vec_ok_def list_all_iff dequantize_coef_def in_i16_def [of 0])
  have u: "WebRtcCng_UpdateSid d SID = Some (d\<lparr>dec_order := int (len - 1), dec_target_energy := target_of (WebRtcCng_kDbov ! nat (S ! 0)),
      dec_target_reflCoefs := mem_copy (dec_target_reflCoefs d) 0 coefs\<rparr>, S, 0)"
  proof -
    have lf: "(if length SID > 12 + 1 then 12 + 1 else length SID) = len" by (simp add: len_def)
    show ?thesis
      using assms(1,2) ord unfolding WebRtcCng_UpdateSid_def Let_def S_def [symmetric] WEBRTC_CNG_MAX_LPC_ORDER_def lf coefs_def
      by (simp add: dec_ok_def target_of_def Let_def)
  qed
  have "vec_ok 13 (mem_copy (dec_target_reflCoefs d) 0 coefs)" using assms(1) c by (auto simp: dec_ok_def intro: vec_ok_copy)
  then show ?thesis using assms(1) E u by (simp add: dec_ok_def)
qed

text \<open>A session of the decoder: descriptors arrive and noise is asked for.\<close>

datatype cng_call = Sid "int list" | Noise nat int

datatype cng_answer = Undefined | Answer samples int

definition cng_step :: "WebRtcCngDecoder \<Rightarrow> cng_call \<Rightarrow> WebRtcCngDecoder \<times> cng_answer" where
  "cng_step d c =
     (case c of
        Sid SID \<Rightarrow> (case WebRtcCng_UpdateSid d SID of None \<Rightarrow> (d, Undefined) | Some (d', SID', r) \<Rightarrow> (d', Answer [] r))
      | Noise n p \<Rightarrow> (let (d', out, r) = WebRtcCng_Generate d n p in (d', Answer out r)))"

fun call_ok :: "cng_call \<Rightarrow> bool" where
  "call_ok (Sid SID) = (SID \<noteq> [] \<and> list_all in_u8 SID)"
| "call_ok (Noise n p) = True"

fun answer_ok :: "cng_call \<Rightarrow> cng_answer \<Rightarrow> bool" where
  "answer_ok (Sid SID) a = (a = Answer [] 0)"
| "answer_ok (Noise n p) a = (if n \<le> 640 then \<exists>out. a = Answer out 0 \<and> vec_ok n out else a = Answer [] (- 1))"

lemma cng_step_ok:
  assumes "dec_ok d" "call_ok c"
  shows "dec_ok (fst (cng_step d c)) \<and> answer_ok c (snd (cng_step d c))"
proof (cases c)
  case (Sid SID)
  then show ?thesis using UpdateSid_ok [OF assms(1), of SID] assms(2) by (auto simp: cng_step_def)
next
  case (Noise n p)
  obtain d' out r where g: "WebRtcCng_Generate d n p = (d', out, r)" by (metis surj_pair)
  show ?thesis
  proof (cases "n \<le> 640")
    case True
    then show ?thesis using Generate_ok [OF assms(1) True g] Noise g by (simp add: cng_step_def)
  next
    case False
    then show ?thesis using Noise assms(1) by (simp add: cng_step_def WebRtcCng_Generate_def WEBRTC_CNG_MAX_OUTSIZE_ORDER_def dec_ok_def)
  qed
qed

interpretation cng_dec: invariant_step cng_step dec_ok call_ok "\<lambda>d a. a \<noteq> Undefined"
proof unfold_locales
  fix d c
  assume a: "dec_ok d" "call_ok c"
  then show "dec_ok (fst (cng_step d c))" using cng_step_ok by blast
  show "snd (cng_step d c) \<noteq> Undefined" using cng_step_ok [OF a] by (cases c) (auto split: if_splits)
qed

lemma InitDec_ok: "dec_ok WebRtcCng_InitDec"
  by code_simp

text \<open>C36: the comfort noise decoder after initialisation, for any sequence of descriptors of one byte or more and requests for noise: every descriptor
  is accepted, every request for up to 640 samples is answered with that many 16-bit samples and 0, a longer one with -1; and the state stays
  well-formed, with both energies between 0 and five eighths of the highest level.\<close>

theorem decoder_session:
  assumes "list_all call_ok calls"
  shows "list_all2 answer_ok calls (snd (run cng_step WebRtcCng_InitDec calls)) \<and> dec_ok (fst (run cng_step WebRtcCng_InitDec calls))"
proof
  have "list_all2 answer_ok calls (snd (run cng_step d calls))" if "dec_ok d" for d
    using assms that
  proof (induction calls arbitrary: d)
    case (Cons c calls)
    then show ?case using cng_step_ok [of d c] by (simp add: split_def Let_def)
  qed simp
  then show "list_all2 answer_ok calls (snd (run cng_step WebRtcCng_InitDec calls))" using InitDec_ok by blast
  show "dec_ok (fst (run cng_step WebRtcCng_InitDec calls))" using cng_dec.run_inv [OF InitDec_ok assms] .
qed

theorem decoder_session_witness:
  "\<exists>out. snd (run cng_step WebRtcCng_InitDec [Sid [20, 100, 150], Noise 4 1, Noise 641 0]) = [Answer [] 0, Answer out 0, Answer [] (- 1)] \<and> length out = 4"
proof -
  have "list_all call_ok [Sid [20, 100, 150], Noise 4 1, Noise 641 0]" by (simp add: in_u8_def)
  from decoder_session [OF this] show ?thesis by (auto simp: list_all2_Cons1 vec_ok_def)
qed

text \<open>At the five highest levels, 0 to 4, the scale factor of white noise does not fit into 16 bits and turns negative.\<close>

lemma scale_factor_overflow:
  "\<forall>i\<in>set [0..<94]. scale_factor (target_of (WebRtcCng_kDbov ! i)) (filter_gain (replicate 13 0)) < 0 \<longleftrightarrow> i \<le> 4"
  by code_simp

end
