(* ===== verification/Agc_Digital.thy ===== *)
theory Agc_Digital
  imports Spl_Math Spl_Resample
begin

text \<open>
  The digital part of the gain control, \<open>modules/audio_processing/agc/legacy/digital_agc.c\<close> and \<open>digital_agc.h\<close>: the
  table of gains over signal levels, its voice activity measure, and the processing of a frame of 10 ms, which follows the
  envelope of the signal with a fast and a slow capacitor, reads a gain per millisecond from the table, lowers it in
  pauses, limits it so that the output does not overflow, and applies it with linear interpolation. The debug
  dumps are left out. \<open>None\<close> is a call that does not return, or whose behaviour C leaves undefined.
\<close>

unbundle bit_operations_syntax

section \<open>digital_agc.h and gain_control.h\<close>

definition AGC_MUL32 :: "int \<Rightarrow> int \<Rightarrow> int" where
  "AGC_MUL32 A B = i32 (shr B 13 * A + shr (i32 ((0x00001FFF AND B) * A)) 13)"

definition AGC_SCALEDIFF32 :: "int \<Rightarrow> int \<Rightarrow> int \<Rightarrow> int" where
  "AGC_SCALEDIFF32 A B C = i32 (C + shr B 16 * A + shr (i32 ((0x0000FFFF AND B) * A)) 16)"

definition kAgcModeFixedDigital :: int where "kAgcModeFixedDigital = 3"

record AgcVad =
  downState :: "int list"
  HPstate :: int
  counter :: int
  logRatio :: int
  meanLongTerm :: int
  varianceLongTerm :: int
  stdLongTerm :: int
  meanShortTerm :: int
  varianceShortTerm :: int
  stdShortTerm :: int

record DigitalAgc =
  capacitorSlow :: int
  capacitorFast :: int
  gain :: int
  gainTable :: "int list"
  gatePrevious :: int
  agcMode :: int
  vadNearend :: AgcVad
  vadFarend :: AgcVad

section \<open>digital_agc.c: the gain table\<close>

definition kGenFuncTable :: "int list" where
  "kGenFuncTable =
     [256, 485, 786, 1126, 1484, 1849, 2217, 2586,
      2955, 3324, 3693, 4063, 4432, 4801, 5171, 5540,
      5909, 6279, 6648, 7017, 7387, 7756, 8125, 8495,
      8864, 9233, 9603, 9972, 10341, 10711, 11080, 11449,
      11819, 12188, 12557, 12927, 13296, 13665, 14035, 14404,
      14773, 15143, 15512, 15881, 16251, 16620, 16989, 17359,
      17728, 18097, 18466, 18836, 19205, 19574, 19944, 20313,
      20682, 21052, 21421, 21790, 22160, 22529, 22898, 23268,
      23637, 24006, 24376, 24745, 25114, 25484, 25853, 26222,
      26592, 26961, 27330, 27700, 28069, 28438, 28808, 29177,
      29546, 29916, 30285, 30654, 31024, 31393, 31762, 32132,
      32501, 32870, 33240, 33609, 33978, 34348, 34717, 35086,
      35456, 35825, 36194, 36564, 36933, 37302, 37672, 38041,
      38410, 38780, 39149, 39518, 39888, 40257, 40626, 40996,
      41365, 41734, 42104, 42473, 42842, 43212, 43581, 43950,
      44320, 44689, 45058, 45428, 45797, 46166, 46536, 46905]"

definition kAvgDecayTime :: int where "kAvgDecayTime = 250"

text \<open>
  The parameters before the loop: \<open>maxGain\<close>, \<open>diffGain\<close>, \<open>limiterIdx\<close>, \<open>limiterLvl\<close>. The zero gain level is computed
  by the code but not used; the limiter offset is 0 on every path.
\<close>

definition table_params :: "int \<Rightarrow> int \<Rightarrow> int \<Rightarrow> int \<times> int \<times> int \<times> int" where
  "table_params digCompGaindB targetLevelDbfs analogTarget =
     (let tmp32no1 = (digCompGaindB - analogTarget) * (3 - 1);
          tmp16no1 = i16 (analogTarget - targetLevelDbfs);
          tmp16no1 = i16 (tmp16no1 + WebRtcSpl_DivW32W16ResW16 (tmp32no1 + shr 3 1) 3);
          maxGain = i16 (WEBRTC_SPL_MAX tmp16no1 (analogTarget - targetLevelDbfs));
          tmp32no1 = digCompGaindB * (3 - 1);
          diffGain = WebRtcSpl_DivW32W16ResW16 (tmp32no1 + shr 3 1) 3;
          limiterOffset = 0;
          limiterLvlX = i16 (analogTarget - limiterOffset);
          limiterIdx = i16 (2 + WebRtcSpl_DivW32W16ResW16 (shl32 limiterLvlX 13) (49321 sdiv 2));
          tmp16no1 = WebRtcSpl_DivW32W16ResW16 (limiterOffset + shr 3 1) 3;
          limiterLvl = targetLevelDbfs + tmp16no1
      in (maxGain, diffGain, limiterIdx, limiterLvl))"

text \<open>The logarithm of one plus an exponential, from the table with interpolation: \<open>None\<close> is a read past its end.\<close>

definition log_approx :: "int \<Rightarrow> int option" where
  "log_approx inLevel =
     (let absInLevel = u32 (WEBRTC_SPL_ABS_W32 inLevel);
          intPart = u16 (shr absInLevel 14);
          fracPart = u16 (absInLevel AND 0x00003FFF)
      in if intPart + 1 \<ge> 128 then None
         else
           let tmpU16 = u16 (kGenFuncTable ! nat (intPart + 1) - kGenFuncTable ! nat intPart);
               tmpU32no1 = u32 (tmpU16 * fracPart);
               tmpU32no1 = u32 (tmpU32no1 + shlu32 (kGenFuncTable ! nat intPart) 14);
               logApprox = shr tmpU32no1 8
           in if inLevel < 0
              then
                let zeros = WebRtcSpl_NormU32 absInLevel;
                    (tmpU32no1, tmpU32no2, zerosScale) =
                      (if zeros < 15
                       then let tmpU32no2 = WEBRTC_SPL_UMUL_32_16 (shr absInLevel (15 - zeros)) 23637
                            in if zeros < 9 then (shr tmpU32no1 (9 - zeros), tmpU32no2, 9 - zeros)
                               else (tmpU32no1, shr tmpU32no2 (zeros - 9), 0)
                       else (tmpU32no1, shr (WEBRTC_SPL_UMUL_32_16 absInLevel 23637) 6, 0))
                in Some (if tmpU32no2 < tmpU32no1 then shr (u32 (tmpU32no1 - tmpU32no2)) (8 - zerosScale) else 0)
              else Some logApprox)"

text \<open>Two to the power of a number in Q14, by a line in each half of the fraction.\<close>

definition power_of_two :: "int \<Rightarrow> int" where
  "power_of_two tmp32 =
     (if tmp32 > 0
      then
        let intPart = u16 (i16 (shr tmp32 14));
            fracPart = u16 (tmp32 AND 0x00003FFF);
            tmp32no2 =
              (if shr fracPart 13 \<noteq> 0
               then let tmp16 = i16 (32768 - 22817);
                        tmp32no2 = i32 ((16384 - fracPart) * tmp16)
                    in 16384 - shr tmp32no2 13
               else let tmp16 = i16 (22817 - 16384) in shr (i32 (fracPart * tmp16)) 13);
            fracPart = u16 tmp32no2
        in i32 (shl32 1 intPart + WEBRTC_SPL_SHIFT_W32 fracPart (intPart - 14))
      else 0)"

text \<open>The entry \<open>i\<close> of the table: the gain in the logarithmic domain, and its power.\<close>

definition gain_log :: "int \<Rightarrow> int \<Rightarrow> int \<Rightarrow> int" where
  "gain_log maxGain diffGain logApprox =
     (let constMaxGain = kGenFuncTable ! nat diffGain;
          den = WEBRTC_SPL_MUL_16_U16 20 constMaxGain;
          numFIX = shl32 (i32 (maxGain * constMaxGain)) 6;
          numFIX = i32 (numFIX - i32 (i32 logApprox * diffGain));
          zeros = (if numFIX > shr den 8 then WebRtcSpl_NormW32 numFIX else WebRtcSpl_NormW32 den + 8);
          numFIX = shl32 numFIX zeros;
          tmp32no1 = WEBRTC_SPL_SHIFT_W32 den (zeros - 8);
          numFIX = (if numFIX < 0 then i32 (numFIX - tmp32no1 sdiv 2) else i32 (numFIX + tmp32no1 sdiv 2))
      in numFIX sdiv tmp32no1)"

definition table_entry :: "int \<times> int \<times> int \<times> int \<Rightarrow> int \<Rightarrow> int \<Rightarrow> int option" where
  "table_entry = (\<lambda>(maxGain, diffGain, limiterIdx, limiterLvl) limiterEnable i.
     let tmp16 = i16 ((3 - 1) * (i - 1));
         tmp32 = WEBRTC_SPL_MUL_16_U16 tmp16 49321 + 1;
         inLevel = WebRtcSpl_DivW32W16 tmp32 3;
         inLevel = i32 (shl32 diffGain 14 - inLevel)
     in case log_approx inLevel of
          None \<Rightarrow> None
        | Some logApprox \<Rightarrow>
            let y32 = gain_log maxGain diffGain logApprox;
                y32 = (if limiterEnable \<noteq> 0 \<and> i < limiterIdx
                       then let tmp32 = i32 (WEBRTC_SPL_MUL_16_U16 (i - 1) 49321 - shl32 limiterLvl 14)
                            in WebRtcSpl_DivW32W16 (i32 (tmp32 + 10)) 20
                       else y32);
                tmp32 = (if y32 > 39000 then shr (i32 (shr y32 1 * 54426 + 4096)) 13
                         else shr (i32 (y32 * 54426 + 8192)) 14);
                tmp32 = i32 (tmp32 + 262144)
            in Some (power_of_two tmp32))"

text \<open>The table and the return value; the caller's table is left alone when the function returns -1.\<close>

definition WebRtcAgc_CalculateGainTable :: "int list \<Rightarrow> int \<Rightarrow> int \<Rightarrow> int \<Rightarrow> int \<Rightarrow> (int list \<times> int) option" where
  "WebRtcAgc_CalculateGainTable gainTable' digCompGaindB targetLevelDbfs limiterEnable analogTarget =
     (let (maxGain, diffGain, limiterIdx, limiterLvl) = table_params digCompGaindB targetLevelDbfs analogTarget
      in if diffGain < 0 \<or> diffGain \<ge> 128 then Some (gainTable', - 1)
         else
           let entries = map (\<lambda>i. table_entry (maxGain, diffGain, limiterIdx, limiterLvl) limiterEnable (int i)) [0..<32]
           in if None \<in> set entries then None else Some (map the entries, 0))"

section \<open>digital_agc.c: voice activity\<close>

definition WebRtcAgc_InitVad :: AgcVad where
  "WebRtcAgc_InitVad =
     \<lparr>downState = replicate 8 0, HPstate = 0, counter = 3, logRatio = 0, meanLongTerm = 15360, varianceLongTerm = 128000,
      stdLongTerm = 0, meanShortTerm = 15360, varianceShortTerm = 128000, stdShortTerm = 0\<rparr>"

text \<open>The high pass filter and the energy, for one sample at 4 kHz.\<close>

definition high_pass_energy :: "int \<Rightarrow> int \<times> int \<Rightarrow> int \<times> int" where
  "high_pass_energy x = (\<lambda>(HP, nrg).
     let out = x + HP;
         tmp32 = 600 * out
     in (i16 (shr tmp32 10 - x), i32 (nrg + shr (i32 (out * out)) 6)))"

text \<open>A sub frame of 1 ms, brought to 4 kHz; \<open>wide\<close> tells whether there are 16 samples per millisecond.\<close>

definition vad_subframe :: "bool \<Rightarrow> samples \<Rightarrow> int list \<times> int \<times> int \<Rightarrow> int list \<times> int \<times> int" where
  "vad_subframe wide xs = (\<lambda>(down, HP, nrg).
     let buf1 = (if wide then map2 (\<lambda>a b. i16 (shr (a + b) 1)) (evens xs) (odds xs) else xs);
         (down, buf2) = WebRtcSpl_DownsampleBy2 down buf1;
         (HP, nrg) = fold high_pass_energy buf2 (HP, nrg)
     in (down, HP, nrg))"

text \<open>The number of leading zeros, as the code finds it.\<close>

definition leading_zeros :: "int \<Rightarrow> int" where
  "leading_zeros nrg =
     (let zeros = (if u32 nrg AND 0xFFFF0000 = 0 then 16 else 0);
          zeros = (if u32 (shl32 nrg zeros) AND 0xFF000000 = 0 then zeros + 8 else zeros);
          zeros = (if u32 (shl32 nrg zeros) AND 0xF0000000 = 0 then zeros + 4 else zeros);
          zeros = (if u32 (shl32 nrg zeros) AND 0xC0000000 = 0 then zeros + 2 else zeros);
          zeros = (if u32 (shl32 nrg zeros) AND 0x80000000 = 0 then zeros + 1 else zeros)
      in zeros)"

text \<open>The statistics of the level \<open>dB\<close> in the short and in the long term, and the measure of voice activity.\<close>

definition update_short_term :: "int \<Rightarrow> AgcVad \<Rightarrow> AgcVad" where
  "update_short_term dB state =
     (let state = state\<lparr>meanShortTerm := i16 (shr (i32 (meanShortTerm state * 15 + dB)) 4)\<rparr>;
          tmp32 = shr (i32 (dB * dB)) 12;
          tmp32 = i32 (tmp32 + i32 (varianceShortTerm state * 15));
          state = state\<lparr>varianceShortTerm := tmp32 sdiv 16\<rparr>;
          tmp32 = i32 (meanShortTerm state * meanShortTerm state);
          tmp32 = i32 (shl32 (varianceShortTerm state) 12 - tmp32)
      in state\<lparr>stdShortTerm := i16 (WebRtcSpl_Sqrt tmp32)\<rparr>)"

definition update_long_term :: "int \<Rightarrow> AgcVad \<Rightarrow> AgcVad" where
  "update_long_term dB state =
     (let tmp32 = i32 (meanLongTerm state * counter state + dB);
          state = state\<lparr>meanLongTerm := WebRtcSpl_DivW32W16ResW16 tmp32 (WebRtcSpl_AddSatW16 (counter state) 1)\<rparr>;
          tmp32 = shr (i32 (dB * dB)) 12;
          tmp32 = i32 (tmp32 + i32 (varianceLongTerm state * counter state));
          state = state\<lparr>varianceLongTerm := WebRtcSpl_DivW32W16 tmp32 (WebRtcSpl_AddSatW16 (counter state) 1)\<rparr>;
          tmp32 = i32 (meanLongTerm state * meanLongTerm state);
          tmp32 = i32 (shl32 (varianceLongTerm state) 12 - tmp32)
      in state\<lparr>stdLongTerm := i16 (WebRtcSpl_Sqrt tmp32)\<rparr>)"

definition update_log_ratio :: "int \<Rightarrow> AgcVad \<Rightarrow> AgcVad" where
  "update_log_ratio dB state =
     (let tmp16 = 12288;
          tmp32 = i32 (tmp16 * i16 (dB - meanLongTerm state));
          tmp32 = WebRtcSpl_DivW32W16 tmp32 (stdLongTerm state);
          tmpU16 = 53248;
          tmp32b = WEBRTC_SPL_MUL_16_U16 (logRatio state) tmpU16;
          tmp32 = i32 (tmp32 + shr tmp32b 10);
          state = state\<lparr>logRatio := i16 (shr tmp32 6)\<rparr>;
          state = (if logRatio state > 2048 then state\<lparr>logRatio := 2048\<rparr> else state)
      in if logRatio state < - 2048 then state\<lparr>logRatio := - 2048\<rparr> else state)"

text \<open>The state and the return value; \<open>xs\<close> holds the ten sub frames.\<close>

definition WebRtcAgc_ProcessVad :: "AgcVad \<Rightarrow> samples \<Rightarrow> nat \<Rightarrow> AgcVad \<times> int" where
  "WebRtcAgc_ProcessVad state xs nrSamples =
     (let step = (if nrSamples = 160 then 16 else 8);
          (down, HP, nrg) = fold (\<lambda>subfr. vad_subframe (nrSamples = 160) (mem_slice xs (subfr * step) step)) [0..<10]
                              (downState state, HPstate state, 0);
          state = state\<lparr>downState := down, HPstate := HP\<rparr>;
          zeros = leading_zeros nrg;
          dB = i16 (shl32 (15 - zeros) 11);
          state = (if counter state < kAvgDecayTime then state\<lparr>counter := i16 (counter state + 1)\<rparr> else state);
          state = update_log_ratio dB (update_long_term dB (update_short_term dB state))
      in (state, logRatio state))"

section \<open>digital_agc.c: the processing\<close>

text \<open>The gain table is set by the caller and kept here.\<close>

definition WebRtcAgc_InitDigital :: "DigitalAgc \<Rightarrow> int \<Rightarrow> DigitalAgc \<times> int" where
  "WebRtcAgc_InitDigital stt mode =
     (stt\<lparr>capacitorSlow := (if mode = kAgcModeFixedDigital then 0 else 134217728), capacitorFast := 0, gain := 65536,
          gatePrevious := 0, agcMode := mode, vadNearend := WebRtcAgc_InitVad, vadFarend := WebRtcAgc_InitVad\<rparr>, 0)"

definition WebRtcAgc_AddFarendToDigital :: "DigitalAgc \<Rightarrow> samples \<Rightarrow> nat \<Rightarrow> DigitalAgc \<times> int" where
  "WebRtcAgc_AddFarendToDigital stt in_far nrSamples =
     (stt\<lparr>vadFarend := fst (WebRtcAgc_ProcessVad (vadFarend stt) in_far nrSamples)\<rparr>, 0)"

text \<open>The decay of the slow capacitor, from the voice activity measure.\<close>

definition decay_factor :: "DigitalAgc \<Rightarrow> int \<Rightarrow> int \<Rightarrow> int" where
  "decay_factor stt logratio lowlevelSignal =
     (let decay = (if logratio > 1024 then - 65 else if logratio < 0 then 0 else i16 (shr (i32 ((0 - logratio) * 65)) 10))
      in if agcMode stt \<noteq> kAgcModeFixedDigital
         then
           let decay = (if stdLongTerm (vadNearend stt) < 4000 then 0
                        else if stdLongTerm (vadNearend stt) < 8096
                        then i16 (shr (i32 ((stdLongTerm (vadNearend stt) - 4000) * decay)) 12)
                        else decay)
           in if lowlevelSignal \<noteq> 0 then 0 else decay
         else decay)"

definition max_energy :: "samples \<Rightarrow> int" where
  "max_energy xs = fold (\<lambda>x max_nrg. let nrg = i32 (x * x) in if nrg > max_nrg then nrg else max_nrg) xs 0"

text \<open>The envelope followers, and the gain for the level: the table between two powers of two.\<close>

definition follow_envelope :: "int \<Rightarrow> int \<Rightarrow> DigitalAgc \<Rightarrow> DigitalAgc" where
  "follow_envelope decay env stt =
     (let stt = stt\<lparr>capacitorFast := AGC_SCALEDIFF32 (- 1000) (capacitorFast stt) (capacitorFast stt)\<rparr>;
          stt = (if env > capacitorFast stt then stt\<lparr>capacitorFast := env\<rparr> else stt)
      in if env > capacitorSlow stt
         then stt\<lparr>capacitorSlow := AGC_SCALEDIFF32 500 (i32 (env - capacitorSlow stt)) (capacitorSlow stt)\<rparr>
         else stt\<lparr>capacitorSlow := AGC_SCALEDIFF32 decay (capacitorSlow stt) (capacitorSlow stt)\<rparr>)"

definition level_zeros :: "int \<Rightarrow> int" where
  "level_zeros cur_level = (if cur_level = 0 then 31 else WebRtcSpl_NormU32 (u32 cur_level))"

definition level_frac :: "int \<Rightarrow> int" where
  "level_frac cur_level = i16 (shr (shl32 cur_level (level_zeros cur_level) AND 0x7FFFFFFF) 19)"

definition level_gain :: "int list \<Rightarrow> int \<Rightarrow> int" where
  "level_gain table cur_level =
     (let zeros = level_zeros cur_level;
          tmp32 = i32 (i32 (table ! nat (zeros - 1) - table ! nat zeros) * level_frac cur_level)
      in i32 (table ! nat zeros + shr tmp32 12))"

definition current_level :: "DigitalAgc \<Rightarrow> int" where
  "current_level stt = (if capacitorFast stt > capacitorSlow stt then capacitorFast stt else capacitorSlow stt)"

definition subframe_gain :: "int \<Rightarrow> DigitalAgc \<Rightarrow> int \<Rightarrow> DigitalAgc \<times> int" where
  "subframe_gain decay stt env =
     (let stt = follow_envelope decay env stt in (stt, level_gain (gainTable stt) (current_level stt)))"

text \<open>The gate: the difference of the levels of the two followers lowers the gains in the absence of speech.\<close>

definition gate_value :: "DigitalAgc \<Rightarrow> DigitalAgc \<times> int" where
  "gate_value stt =
     (let zeros = i16 (shl32 (level_zeros (current_level stt)) 9 - shr (level_frac (current_level stt)) 3);
          zeros_fast = level_zeros (capacitorFast stt);
          tmp32 = shl32 (capacitorFast stt) zeros_fast AND 0x7FFFFFFF;
          zeros_fast = i16 (shl32 zeros_fast 9);
          zeros_fast = i16 (zeros_fast - i16 (shr tmp32 22));
          gate = i16 (1000 + zeros_fast - zeros - stdShortTerm (vadNearend stt))
      in if gate < 0 then (stt\<lparr>gatePrevious := 0\<rparr>, gate)
         else let tmp32 = gatePrevious stt * 7;
                  gate = i16 (shr (i32 (gate + tmp32)) 3)
              in (stt\<lparr>gatePrevious := gate\<rparr>, gate))"

definition gate_gain :: "int \<Rightarrow> int \<Rightarrow> int \<Rightarrow> int" where
  "gate_gain table0 gain_adj g =
     (let tmp32 = (if i32 (g - table0) > 8388608
                   then i32 (shr (i32 (g - table0)) 8 * (178 + gain_adj))
                   else shr (i32 (i32 (g - table0) * (178 + gain_adj))) 8)
      in i32 (table0 + tmp32))"

definition apply_gate :: "int \<Rightarrow> int \<Rightarrow> int list \<Rightarrow> int list" where
  "apply_gate table0 gate gains =
     (if gate > 0
      then let gain_adj = (if gate < 2500 then i16 (shr (2500 - gate) 5) else 0) in map (gate_gain table0 gain_adj) gains
      else gains)"

text \<open>
  The limiter: the gain goes down in steps of 0.1 dB while the loudest sample of the sub frame would overflow. The loop
  keeps \<open>zeros\<close>, so that it need not end; it is a partial function.
\<close>

definition overload :: "int \<Rightarrow> int \<Rightarrow> int \<Rightarrow> bool" where
  "overload env zeros g =
     (let gain32 = i32 (shr g zeros + 1);
          gain32 = i32 (gain32 * gain32)
      in AGC_MUL32 (shr env 12 + 1) gain32 > WEBRTC_SPL_SHIFT_W32 32767 (2 * (1 - zeros + 10)))"

definition reduce_gain :: "int \<Rightarrow> int" where
  "reduce_gain g = (if g > 8388607 then i32 (g sdiv 256 * 253) else i32 (g * 253) sdiv 256)"

partial_function (option) limit_loop :: "int \<Rightarrow> int \<Rightarrow> int \<Rightarrow> int option" where
  "limit_loop env zeros g = (if overload env zeros g then limit_loop env zeros (reduce_gain g) else Some g)"

definition limit_gain :: "int \<Rightarrow> int \<Rightarrow> int option" where
  "limit_gain env g = limit_loop env (if g > 47453132 then 16 - WebRtcSpl_NormW32 g else 10) g"

text \<open>Reductions come one sub frame early: \<open>gains\<close> are those of the sub frame ends 1 to 10.\<close>

definition advance_reductions :: "int list \<Rightarrow> int list" where
  "advance_reductions gains =
     fold (\<lambda>k g. if g ! k > g ! (k + 1) then g[k := g ! (k + 1)] else g) [0..<9] gains"

text \<open>The gains in Q20 of the samples of a sub frame, and their application to a sample.\<close>

fun gain_ramp :: "nat \<Rightarrow> int \<Rightarrow> int \<Rightarrow> int list" where
  "gain_ramp 0 gain32 delta = []"
| "gain_ramp (Suc n) gain32 delta = gain32 # gain_ramp n (i32 (gain32 + delta)) delta"

definition subframe_ramp :: "nat \<Rightarrow> int \<Rightarrow> int \<Rightarrow> int \<Rightarrow> int list" where
  "subframe_ramp L L2 g0 g1 = gain_ramp L (shl32 g0 4) (shl32 (i32 (g1 - g0)) (4 - L2))"

definition scale_sample :: "int \<Rightarrow> int \<Rightarrow> int" where
  "scale_sample x gain32 = i16 (shr (i32 (x * shr gain32 4)) 16)"

definition scale_first :: "int \<Rightarrow> int \<Rightarrow> int" where
  "scale_first x gain32 =
     (let tmp32 = i32 (x * shr (i32 (gain32 + 127)) 7);
          out_tmp = shr tmp32 16
      in if out_tmp > 4095 then 32767 else if out_tmp < - 4096 then - 32768 else scale_sample x gain32)"

text \<open>A band after the gains \<open>g0, g1, \<dots>, g10\<close>.\<close>

definition apply_gains :: "nat \<Rightarrow> int \<Rightarrow> int list \<Rightarrow> samples \<Rightarrow> samples" where
  "apply_gains L L2 gains band =
     map2 scale_first (mem_slice band 0 L) (subframe_ramp L L2 (gains ! 0) (gains ! 1)) @
     concat (map (\<lambda>k. map2 scale_sample (mem_slice band (k * L) L) (subframe_ramp L L2 (gains ! k) (gains ! (k + 1)))) [1..<10])"

text \<open>All limited gains, or \<open>None\<close> when one of the loops does not end.\<close>

fun limit_gains :: "int list \<Rightarrow> int list \<Rightarrow> int list option" where
  "limit_gains (e # es) (g # gs) =
     (case limit_gain e g of
        None \<Rightarrow> None
      | Some g' \<Rightarrow> (case limit_gains es gs of None \<Rightarrow> None | Some gs' \<Rightarrow> Some (g' # gs')))"
| "limit_gains es gs = Some []"

text \<open>
  A frame: the instance, the bands written and the return value; with -1 none is written. The first ten sub frames of every band are copied to the output, which
  may be the same memory; the gains are computed from the lowest band, so there has to be one.
\<close>

definition WebRtcAgc_ProcessDigital :: "DigitalAgc \<Rightarrow> samples list \<Rightarrow> int \<Rightarrow> int \<Rightarrow> (DigitalAgc \<times> samples list \<times> int) option" where
  "WebRtcAgc_ProcessDigital stt in_near FS lowlevelSignal =
     (if FS \<noteq> 8000 \<and> FS \<noteq> 16000 \<and> FS \<noteq> 32000 \<and> FS \<noteq> 48000 then Some (stt, [], - 1)
      else if in_near = [] then None
      else
        (let (L, L2) = (if FS = 8000 then (8, 3) else (16, 4));
             out = map (take (10 * L)) in_near;
             (vad, logratio) = WebRtcAgc_ProcessVad (vadNearend stt) (out ! 0) (L * 10);
             stt = stt\<lparr>vadNearend := vad\<rparr>;
             logratio = (if counter (vadFarend stt) > 10 then i16 (shr (3 * logratio - logRatio (vadFarend stt)) 2) else logratio);
             decay = decay_factor stt logratio lowlevelSignal;
             env = map (\<lambda>k. max_energy (mem_slice (out ! 0) (k * L) L)) [0..<10];
             g0 = gain stt;
             (stt, gains) = run (subframe_gain decay) stt env;
             (stt, gate) = gate_value stt;
             gains = apply_gate (gainTable stt ! 0) gate gains
         in case limit_gains env gains of
              None \<Rightarrow> None
            | Some gains \<Rightarrow>
                let gains = advance_reductions gains;
                    stt = stt\<lparr>gain := gains ! 9\<rparr>
                in Some (stt, map (apply_gains L L2 (g0 # gains)) out, 0)))"

section \<open>The envelope followers\<close>

lemma and_low_bits: "(0x0000FFFF :: int) AND B = B mod 65536" "(0x00001FFF :: int) AND B = B mod 8192"
  "B AND 0x7FFFFFFF = B mod 2147483648"
proof -
  have "mask 16 AND B = take_bit 16 B" "mask 13 AND B = take_bit 13 B" "B AND mask 31 = take_bit 31 B"
    by (simp_all only: take_bit_eq_mask and.commute)
  moreover have "mask 16 = (0x0000FFFF :: int)" "mask 13 = (0x00001FFF :: int)" "mask 31 = (0x7FFFFFFF :: int)"
    by (simp_all add: mask_eq_exp_minus_1)
  ultimately show "(0x0000FFFF :: int) AND B = B mod 65536" "(0x00001FFF :: int) AND B = B mod 8192"
    "B AND 0x7FFFFFFF = B mod 2147483648" by (simp_all add: take_bit_eq_mod)
qed

lemma div_ge_iff: "k \<le> P div d \<longleftrightarrow> k * d \<le> P" if "0 < d" for k P d :: int
proof
  assume "k \<le> P div d"
  then have "k * d \<le> P div d * d" using that by (intro mult_right_mono) auto
  also have "\<dots> \<le> P" using that by (simp add: minus_mod_eq_div_mult [symmetric])
  finally show "k * d \<le> P" .
next
  assume "k * d \<le> P"
  then have "k * d div d \<le> P div d" using that by (intro zdiv_mono1) auto
  then show "k \<le> P div d" using that by simp
qed

lemma split_product: "B div d * A + B mod d * A div d = B * A div d" if "0 < d" for A B d :: int
proof -
  have "B * A = B mod d * A + (B div d * A) * d"
    by (metis distrib_right mult.assoc mult.commute mod_div_mult_eq)
  then show ?thesis using that by (simp add: div_mult_self1)
qed

lemma SCALEDIFF32_exact:
  assumes "\<bar>A\<bar> \<le> 1000" "0 \<le> B" "B \<le> 1073741824" "0 \<le> C" "C \<le> 1073741824"
  shows "AGC_SCALEDIFF32 A B C = C + B * A div 65536"
proof -
  have b: "0 \<le> B mod 65536" "B mod 65536 \<le> 65535" using pos_mod_bound [of 65536 B] by auto
  have "\<bar>B mod 65536 * A\<bar> \<le> 65535 * 1000" unfolding abs_mult using b assms(1) by (intro mult_mono) auto
  then have i: "i32 (B mod 65536 * A) = B mod 65536 * A" by (intro i32_id) (simp add: in_i32_def abs_le_iff)
  have "\<bar>B * A\<bar> \<le> 1073741824 * 1000" unfolding abs_mult using assms by (intro mult_mono) auto
  then have "- 1073741824000 \<le> B * A" "B * A \<le> 1073741824000" by (simp_all add: abs_le_iff)
  then have "- 1073741824000 div 65536 \<le> B * A div 65536" "B * A div 65536 \<le> 1073741824000 div 65536"
    by (intro zdiv_mono1; simp)+
  then have "in_i32 (C + B * A div 65536)" using assms(4,5) by (simp add: in_i32_def)
  then show ?thesis
    using split_product [of 65536 B A] by (simp add: AGC_SCALEDIFF32_def and_low_bits i shr_def i32_id add.assoc)
qed

definition follow_ok :: "DigitalAgc \<Rightarrow> bool" where
  "follow_ok stt \<longleftrightarrow> 0 \<le> capacitorFast stt \<and> capacitorFast stt \<le> 1073741824 \<and>
     0 \<le> capacitorSlow stt \<and> capacitorSlow stt \<le> 1073741824"

lemma shrink: "0 \<le> c \<Longrightarrow> - 65536 \<le> A \<Longrightarrow> A \<le> 0 \<Longrightarrow> 0 \<le> c + c * A div 65536 \<and> c + c * A div 65536 \<le> c" for A c :: int
proof -
  assume a: "0 \<le> c" "- 65536 \<le> A" "A \<le> 0"
  then have "c * (- 65536) \<le> c * A" "c * A \<le> 0" using mult_left_mono [of "- 65536" A c] by (simp_all add: mult_nonneg_nonpos)
  then have "(- c) * 65536 div 65536 \<le> c * A div 65536" "c * A div 65536 \<le> 0 div 65536" by (intro zdiv_mono1; simp)+
  then show ?thesis by simp
qed

lemma grow: "0 \<le> d \<Longrightarrow> 0 \<le> A \<Longrightarrow> A \<le> 65536 \<Longrightarrow> 0 \<le> d * A div 65536 \<and> d * A div 65536 \<le> d" for A d :: int
proof -
  assume a: "0 \<le> d" "0 \<le> A" "A \<le> 65536"
  then have "0 \<le> d * A" "d * A \<le> d * 65536" by (auto intro: mult_left_mono)
  then have "d * A div 65536 \<le> d * 65536 div 65536" by (intro zdiv_mono1) simp_all
  then show ?thesis using \<open>0 \<le> d * A\<close> by (simp add: pos_imp_zdiv_nonneg_iff)
qed

text \<open>
  The fast follower loses a 65th of its value per step and never is below the envelope; the slow one moves towards it. Both stay
  between 0 and the largest square of a sample.
\<close>

lemma follow_envelope_ok:
  assumes "follow_ok stt" and "0 \<le> env" "env \<le> 1073741824" and "- 65 \<le> decay" "decay \<le> 0"
  shows "follow_ok (follow_envelope decay env stt)" and "env \<le> capacitorFast (follow_envelope decay env stt)"
    and "gainTable (follow_envelope decay env stt) = gainTable stt"
proof -
  define c s where "c = capacitorFast stt" and "s = capacitorSlow stt"
  have r: "0 \<le> c" "c \<le> 1073741824" "0 \<le> s" "s \<le> 1073741824" using assms(1) by (simp_all add: follow_ok_def c_def s_def)
  have f: "AGC_SCALEDIFF32 (- 1000) c c = c + c * (- 1000) div 65536" using r by (intro SCALEDIFF32_exact) auto
  have d: "AGC_SCALEDIFF32 decay s s = s + s * decay div 65536" using r assms by (intro SCALEDIFF32_exact) auto
  have u: "AGC_SCALEDIFF32 500 (i32 (env - s)) s = s + (env - s) * 500 div 65536" if "s < env"
    using that r assms SCALEDIFF32_exact [of 500 "env - s" s] by (simp add: i32_id in_i32_def)
  have fr: "0 \<le> c + c * (- 1000) div 65536" "c + c * (- 1000) div 65536 \<le> c" using shrink [of c "- 1000"] r by simp_all
  have dr: "0 \<le> s + s * decay div 65536" "s + s * decay div 65536 \<le> s" using shrink [of s decay] r assms by simp_all
  have ur: "0 \<le> s + (env - s) * 500 div 65536" "s + (env - s) * 500 div 65536 \<le> env" if "s < env"
    using grow [of "env - s" 500] that r by simp_all
  note e = c_def [symmetric] s_def [symmetric]
  have F: "capacitorFast (follow_envelope decay env stt) = (if env > c + c * (- 1000) div 65536 then env else c + c * (- 1000) div 65536)"
    unfolding follow_envelope_def Let_def e f by (simp add: e)
  have S: "capacitorSlow (follow_envelope decay env stt) = (if env > s then s + (env - s) * 500 div 65536 else s + s * decay div 65536)"
    using u d unfolding follow_envelope_def Let_def e f by (simp add: e)
  have "0 \<le> capacitorFast (follow_envelope decay env stt)" "capacitorFast (follow_envelope decay env stt) \<le> 1073741824"
    unfolding F using fr r assms(2,3) by (simp_all split: if_split)
  moreover have "0 \<le> capacitorSlow (follow_envelope decay env stt)" "capacitorSlow (follow_envelope decay env stt) \<le> 1073741824"
    unfolding S using dr ur order_trans [OF ur(2) assms(3)] r assms(2,3) by (simp_all split: if_split)
  ultimately show "follow_ok (follow_envelope decay env stt)" by (simp add: follow_ok_def)
  show "env \<le> capacitorFast (follow_envelope decay env stt)" using F by simp
  show "gainTable (follow_envelope decay env stt) = gainTable stt" by (simp add: follow_envelope_def Let_def)
qed

lemma decay_range: "- 65 \<le> decay_factor stt logratio low \<and> decay_factor stt logratio low \<le> 0"
proof -
  define d0 where "d0 = (if logratio > 1024 then - 65 else if logratio < 0 then 0 else i16 (shr (i32 ((0 - logratio) * 65)) 10))"
  have d0: "- 65 \<le> d0" "d0 \<le> 0"
  proof -
    have "- 65 \<le> i16 (shr (i32 ((0 - logratio) * 65)) 10) \<and> i16 (shr (i32 ((0 - logratio) * 65)) 10) \<le> 0" if "0 \<le> logratio" "logratio \<le> 1024"
    proof -
      have "- 65 * 1024 div 1024 \<le> (0 - logratio) * 65 div 1024" "(0 - logratio) * 65 div 1024 \<le> 0 div 1024"
        using that by (intro zdiv_mono1; simp)+
      then show ?thesis using that by (simp add: i32_id in_i32_def shr_def i16_id in_i16_def)
    qed
    then show "- 65 \<le> d0" "d0 \<le> 0" by (auto simp: d0_def)
  qed
  have "- 65 \<le> i16 (shr (i32 ((v - 4000) * d0)) 12) \<and> i16 (shr (i32 ((v - 4000) * d0)) 12) \<le> 0" if "4000 \<le> v" "v < 8096" for v
  proof -
    have "(v - 4000) * d0 \<le> 0" "- (4096 * 65) \<le> (v - 4000) * d0"
      using that d0 mult_mono [of "v - 4000" 4096 "- d0" 65] by (auto simp: mult_nonneg_nonpos)
    then have "- (4096 * 65) div 4096 \<le> (v - 4000) * d0 div 4096" "(v - 4000) * d0 div 4096 \<le> 0 div 4096" by (intro zdiv_mono1; simp)+
    then show ?thesis using \<open>(v - 4000) * d0 \<le> 0\<close> \<open>- (4096 * 65) \<le> (v - 4000) * d0\<close>
      by (simp add: i32_id in_i32_def shr_def i16_id in_i16_def)
  qed
  then show ?thesis using d0 unfolding decay_factor_def Let_def d0_def [symmetric] by auto
qed

section \<open>The gain of a sub frame\<close>

text \<open>A table for which no product of the interpolation overflows: gains from 0 to just below 8.\<close>

definition table_ok :: "int list \<Rightarrow> bool" where
  "table_ok table \<longleftrightarrow> length table = 32 \<and> list_all (\<lambda>g. 0 \<le> g \<and> g \<le> 524287) table"

lemma table_okD: "table_ok table \<Longrightarrow> i < 32 \<Longrightarrow> 0 \<le> table ! i \<and> table ! i \<le> 524287"
  by (simp add: table_ok_def list_all_length)

lemma level_zeros_range:
  assumes "0 \<le> c" "c \<le> 1073741824"
  shows "1 \<le> level_zeros c \<and> level_zeros c \<le> 31"
proof (cases "c = 0")
  case False
  then have nb: "norm_between c 31 32 (WebRtcSpl_NormU32 c)" using assms by (intro NormU32_pos) simp_all
  define z where "z = nat (WebRtcSpl_NormU32 c)"
  have z: "2 ^ 31 \<le> c * 2 ^ z" "c * 2 ^ z < 2 ^ 32" "0 \<le> WebRtcSpl_NormU32 c" using nb by (simp_all add: norm_between_def z_def)
  have "1 * 2 ^ z \<le> c * 2 ^ z" using False assms by (intro mult_right_mono) auto
  then have "(2 :: int) ^ z < 2 ^ 32" using z(2) by linarith
  then have "z < 32" by (rule power_less_imp_less_exp [rotated]) simp
  moreover have "z \<noteq> 0" using z(1) assms(2) by (intro notI) simp
  ultimately show ?thesis using False assms z(3) by (simp add: level_zeros_def u32_id in_u32_def z_def)
qed (simp add: level_zeros_def)

lemma level_frac_range: "0 \<le> level_frac c \<and> level_frac c \<le> 4095"
proof -
  define v where "v = shl32 c (level_zeros c) mod 2147483648"
  have "0 \<le> v" "v < 2147483648" by (simp_all add: v_def)
  then have "0 \<le> v div 524288" "v div 524288 < 4096" by (auto intro: div_less_mult simp: pos_imp_zdiv_nonneg_iff)
  then show ?thesis by (simp add: level_frac_def and_low_bits v_def [symmetric] shr_def i16_id in_i16_def)
qed

text \<open>Interpolation stays between its ends.\<close>

lemma between_interpolation:
  fixes a b f n :: int
  assumes "0 \<le> f" "f \<le> n" "0 < n" and "lo \<le> a" "lo \<le> b" "a \<le> hi" "b \<le> hi"
  shows "lo \<le> b + (a - b) * f div n" and "b + (a - b) * f div n \<le> hi"
proof -
  have "(lo - b) * n \<le> (a - b) * f"
  proof -
    have "(lo - b) * n \<le> (lo - b) * f" using assms by (intro mult_left_mono_neg) auto
    also have "\<dots> \<le> (a - b) * f" using assms by (intro mult_right_mono) auto
    finally show ?thesis .
  qed
  then have "(lo - b) * n div n \<le> (a - b) * f div n" using assms by (intro zdiv_mono1) auto
  then show "lo \<le> b + (a - b) * f div n" using assms by simp
  have "(a - b) * f \<le> (hi - b) * n"
  proof -
    have "(a - b) * f \<le> (hi - b) * f" using assms by (intro mult_right_mono) auto
    also have "\<dots> \<le> (hi - b) * n" using assms by (intro mult_left_mono) auto
    finally show ?thesis .
  qed
  then have "(a - b) * f div n \<le> (hi - b) * n div n" using assms by (intro zdiv_mono1) auto
  then show "b + (a - b) * f div n \<le> hi" using assms by simp
qed

lemma level_gain_exact:
  assumes "table_ok table" "0 \<le> c" "c \<le> 1073741824"
  shows "level_gain table c = table ! nat (level_zeros c) +
      (table ! nat (level_zeros c - 1) - table ! nat (level_zeros c)) * level_frac c div 4096"
    and "0 \<le> level_gain table c" and "level_gain table c \<le> 524287"
proof -
  define z where "z = level_zeros c"
  have z: "1 \<le> z" "z \<le> 31" using level_zeros_range [OF assms(2,3)] by (simp_all add: z_def)
  define a b f where "a = table ! nat (z - 1)" and "b = table ! nat z" and "f = level_frac c"
  have r: "0 \<le> a" "a \<le> 524287" "0 \<le> b" "b \<le> 524287" "0 \<le> f" "f \<le> 4095"
    using table_okD [OF assms(1), of "nat (z - 1)"] table_okD [OF assms(1), of "nat z"] z level_frac_range [of c]
    by (auto simp: a_def b_def f_def)
  have i1: "i32 (a - b) = a - b" using r by (simp add: i32_id in_i32_def)
  have "\<bar>(a - b) * f\<bar> \<le> 524287 * 4095" unfolding abs_mult using r by (intro mult_mono) auto
  then have i2: "i32 ((a - b) * f) = (a - b) * f" by (intro i32_id) (simp add: in_i32_def abs_le_iff)
  have bt: "0 \<le> b + (a - b) * f div 4096" "b + (a - b) * f div 4096 \<le> 524287"
    using between_interpolation [of f 4096 0 a b 524287] r by simp_all
  then have "level_gain table c = b + (a - b) * f div 4096"
    unfolding level_gain_def Let_def z_def [symmetric] a_def [symmetric] b_def [symmetric] f_def [symmetric]
    by (simp add: i1 i2 shr_def i32_id in_i32_def)
  then show "level_gain table c = table ! nat (level_zeros c) +
      (table ! nat (level_zeros c - 1) - table ! nat (level_zeros c)) * level_frac c div 4096"
    "0 \<le> level_gain table c" "level_gain table c \<le> 524287" using bt by (simp_all add: a_def b_def f_def z_def)
qed

text \<open>The gate moves a gain towards the first entry of the table, by up to 78 of 256 parts.\<close>

lemma gate_gain_range:
  assumes "0 \<le> t" "t \<le> 524287" "0 \<le> g" "g \<le> 524287" "0 \<le> a" "a \<le> 78"
  shows "0 \<le> gate_gain t a g" and "gate_gain t a g \<le> 524287"
proof -
  have "\<bar>(g - t) * (178 + a)\<bar> \<le> 524287 * 256" unfolding abs_mult using assms by (intro mult_mono) auto
  then have i: "i32 ((g - t) * (178 + a)) = (g - t) * (178 + a)" by (intro i32_id) (simp add: in_i32_def abs_le_iff)
  have b: "0 \<le> t + (g - t) * (178 + a) div 256" "t + (g - t) * (178 + a) div 256 \<le> 524287"
    using between_interpolation [of "178 + a" 256 0 g t 524287] assms by simp_all
  have "gate_gain t a g = t + (g - t) * (178 + a) div 256"
    using assms i b by (simp add: gate_gain_def i32_id in_i32_def shr_def Let_def)
  then show "0 \<le> gate_gain t a g" "gate_gain t a g \<le> 524287" using b by simp_all
qed

lemma apply_gate_range:
  assumes "0 \<le> t" "t \<le> 524287" "list_all (\<lambda>g. 0 \<le> g \<and> g \<le> 524287) gains"
  shows "list_all (\<lambda>g. 0 \<le> g \<and> g \<le> 524287) (apply_gate t gate gains)" and "length (apply_gate t gate gains) = length gains"
proof -
  have "0 \<le> i16 (shr (2500 - gate) 5) \<and> i16 (shr (2500 - gate) 5) \<le> 78" if "0 < gate" "gate < 2500"
  proof -
    have "0 \<le> (2500 - gate) div 32" "(2500 - gate) div 32 \<le> 2499 div 32"
      using that by (simp add: pos_imp_zdiv_nonneg_iff, intro zdiv_mono1) simp_all
    then show ?thesis by (simp add: shr_def i16_id in_i16_def)
  qed
  then show "list_all (\<lambda>g. 0 \<le> g \<and> g \<le> 524287) (apply_gate t gate gains)"
    using assms gate_gain_range [OF assms(1,2)] by (auto simp: apply_gate_def list_all_iff Let_def)
  show "length (apply_gate t gate gains) = length gains" by (simp add: apply_gate_def Let_def)
qed

section \<open>The limiter\<close>

lemma MUL32_exact:
  assumes "0 \<le> A" "A \<le> 262145" "0 \<le> B" "B \<le> 262144"
  shows "AGC_MUL32 A B = B * A div 8192"
proof -
  have b: "0 \<le> B mod 8192" "B mod 8192 \<le> 8191" using pos_mod_bound [of 8192 B] by auto
  have "0 \<le> B mod 8192 * A" "B mod 8192 * A \<le> 8191 * 262145" using assms b mult_mono [of "B mod 8192" 8191 A 262145] by simp_all
  then have i: "i32 (B mod 8192 * A) = B mod 8192 * A" by (simp add: i32_id in_i32_def)
  have "0 \<le> B * A" "B * A \<le> 262144 * 262145" using assms mult_mono [of B 262144 A 262145] by simp_all
  then have "0 \<le> B * A div 8192" "B * A div 8192 \<le> 262144 * 262145 div 8192" by (simp add: pos_imp_zdiv_nonneg_iff, intro zdiv_mono1) simp_all
  then have "in_i32 (B * A div 8192)" by (simp add: in_i32_def)
  then show ?thesis using split_product [of 8192 B A] by (simp add: AGC_MUL32_def and_low_bits i shr_def i32_id)
qed

lemma overload_eq:
  assumes "0 \<le> env" "env \<le> 1073741824" "0 \<le> g" "g \<le> 524287"
  shows "overload env 10 g \<longleftrightarrow> 131068 < (g div 1024 + 1) * (g div 1024 + 1) * (env div 4096 + 1) div 8192"
proof -
  have g: "0 \<le> g div 1024" "g div 1024 \<le> 511" using assms by auto
  define r where "r = g div 1024 + 1"
  have r: "0 \<le> r" "r \<le> 512" using g by (simp_all add: r_def)
  then have rr: "0 \<le> r * r" "r * r \<le> 512 * 512" using mult_mono [of r 512 r 512] by simp_all
  have e: "0 \<le> env div 4096 + 1" "env div 4096 + 1 \<le> 262145" using assms by auto
  have "WEBRTC_SPL_SHIFT_W32 32767 (2 * (1 - 10 + 10)) = 131068" by code_simp
  moreover have "AGC_MUL32 (env div 4096 + 1) (r * r) = r * r * (env div 4096 + 1) div 8192" using e rr by (intro MUL32_exact) auto
  moreover have "i32 r = r" using r by (simp add: i32_id in_i32_def)
  moreover have "i32 (r * r) = r * r" using rr by (intro i32_id) (unfold in_i32_def, linarith)
  ultimately show ?thesis by (simp add: overload_def shr_def Let_def r_def [symmetric])
qed

lemma reduce_gain_less:
  assumes "0 < g" "g \<le> 524287"
  shows "0 \<le> reduce_gain g" and "reduce_gain g < g"
proof -
  have "reduce_gain g = g * 253 div 256" using assms by (simp add: reduce_gain_def i32_id in_i32_def sdiv_nonneg)
  moreover have "g * 253 div 256 < g" using assms by (intro div_less_mult) auto
  ultimately show "0 \<le> reduce_gain g" "reduce_gain g < g" using assms by (simp_all add: pos_imp_zdiv_nonneg_iff)
qed

lemma limit_loop_ends:
  assumes "0 \<le> env" "env \<le> 1073741824" "0 \<le> g" "g \<le> 524287"
  shows "\<exists>g'. limit_loop env 10 g = Some g' \<and> 0 \<le> g' \<and> g' \<le> g \<and> \<not> overload env 10 g'"
  using assms(3,4)
proof (induction "nat g" arbitrary: g rule: less_induct)
  case less
  show ?case
  proof (cases "overload env 10 g")
    case True
    have "env div 4096 + 1 \<le> 262145" using assms by auto
    then have "(env div 4096 + 1) div 8192 \<le> 262145 div 8192" by (rule zdiv_mono1) simp
    then have "g \<noteq> 0" using True overload_eq [OF assms(1,2), of 0] by auto
    then have r: "0 \<le> reduce_gain g" "reduce_gain g < g" using reduce_gain_less [of g] less.prems by simp_all
    then have "nat (reduce_gain g) < nat g" by simp
    from less.hyps [OF this] r less.prems obtain g' where
      "limit_loop env 10 (reduce_gain g) = Some g' \<and> 0 \<le> g' \<and> g' \<le> reduce_gain g \<and> \<not> overload env 10 g'" by auto
    then show ?thesis using r True by (subst limit_loop.simps) auto
  next
    case False
    then show ?thesis using less.prems by (subst limit_loop.simps) auto
  qed
qed

text \<open>What the limiter is for: no sample of the sub frame overflows with the gain it leaves, or a smaller one.\<close>

lemma no_overload_fits:
  assumes "\<not> overload env 10 g" "0 \<le> env" "env \<le> 1073741824" "0 \<le> g" "g \<le> 524287" and "x * x \<le> env" "0 \<le> h" "h \<le> g"
  shows "\<bar>x * h\<bar> < 2147483648"
proof -
  define r where "r = g div 1024 + 1"
  define A where "A = env div 4096 + 1"
  have "\<not> 131069 \<le> r * r * A div 8192" using overload_eq [OF assms(2-5)] assms(1) by (simp add: r_def A_def)
  then have rA: "r * r * A < 131069 * 8192" using div_ge_iff [of 8192 131069 "r * r * A"] by simp
  have h: "0 \<le> h" "h \<le> 1024 * r" using assms by (auto simp: r_def)
  have x: "x * x \<le> 4096 * A" using assms by (auto simp: A_def)
  have "0 \<le> A" "0 \<le> r" using assms by (auto simp: A_def r_def)
  have "(x * h) * (x * h) = (x * x) * (h * h)" by (simp add: algebra_simps)
  also have "\<dots> \<le> (4096 * A) * ((1024 * r) * (1024 * r))" using x mult_mono [OF h(2) h(2)] h \<open>0 \<le> A\<close> mult_mono [of "x * x" "4096 * A" "h * h" "1024 * r * (1024 * r)"] by simp
  also have "\<dots> = 4294967296 * (r * r * A)" by (simp add: algebra_simps)
  also have "\<dots> < 4294967296 * 1073741824" using rA by linarith
  also have "\<dots> = 2147483648 * 2147483648" by simp
  finally have "\<bar>x * h\<bar> * \<bar>x * h\<bar> < 2147483648 * 2147483648" by (simp add: abs_mult_self_eq)
  then show ?thesis by (metis abs_ge_zero linorder_not_less mult_mono zero_le_numeral)
qed

lemma limit_gain_spec:
  assumes "0 \<le> env" "env \<le> 1073741824" "0 \<le> g" "g \<le> 524287"
  shows "\<exists>g'. limit_gain env g = Some g' \<and> 0 \<le> g' \<and> g' \<le> g \<and> (\<forall>x h. x * x \<le> env \<and> 0 \<le> h \<and> h \<le> g' \<longrightarrow> \<bar>x * h\<bar> < 2147483648)"
proof -
  obtain g' where g': "limit_loop env 10 g = Some g'" "0 \<le> g'" "g' \<le> g" "\<not> overload env 10 g'" using limit_loop_ends [OF assms] by blast
  then have "\<forall>x h. x * x \<le> env \<and> 0 \<le> h \<and> h \<le> g' \<longrightarrow> \<bar>x * h\<bar> < 2147483648"
    using no_overload_fits [OF g'(4) assms(1,2)] assms by auto
  then show ?thesis using g' assms by (simp add: limit_gain_def)
qed

definition env_ok :: "int \<Rightarrow> bool" where
  "env_ok e \<longleftrightarrow> 0 \<le> e \<and> e \<le> 1073741824"

definition gain_fits :: "int \<Rightarrow> bool" where
  "gain_fits g \<longleftrightarrow> 0 \<le> g \<and> g \<le> 524287"

definition safe_gain :: "int \<Rightarrow> int \<Rightarrow> bool" where
  "safe_gain e g \<longleftrightarrow> gain_fits g \<and> (\<forall>x h. x * x \<le> e \<and> 0 \<le> h \<and> h \<le> g \<longrightarrow> \<bar>x * h\<bar> < 2147483648)"

lemma limit_gains_spec:
  "list_all env_ok es \<Longrightarrow> list_all gain_fits gs \<Longrightarrow> length gs = length es \<Longrightarrow>
     \<exists>gs'. limit_gains es gs = Some gs' \<and> list_all2 safe_gain es gs'"
proof (induction es gs rule: limit_gains.induct)
  case (1 e es g gs)
  obtain g' where g': "limit_gain e g = Some g'" "safe_gain e g'"
    using 1 limit_gain_spec [of e g] by (auto simp: env_ok_def gain_fits_def safe_gain_def)
  from 1 g' obtain gs' where "limit_gains es gs = Some gs'" "list_all2 safe_gain es gs'" by auto
  then show ?case using g' by simp
qed simp_all

text \<open>Reductions one sub frame earlier.\<close>

lemma advance_reductions_nth:
  assumes "length gs = 10" "k < 10"
  shows "advance_reductions gs ! k = (if k < 9 then min (gs ! k) (gs ! (k + 1)) else gs ! k)" and "length (advance_reductions gs) = 10"
proof -
  let ?f = "\<lambda>k g. if g ! k > g ! (k + 1) then g[k := g ! (k + 1)] else g"
  have "fold ?f [0..<m] gs = map (\<lambda>k. if k < m then min (gs ! k) (gs ! (k + 1)) else gs ! k) [0..<10]" if "m \<le> 9" for m
    using that
  proof (induction m)
    case 0
    then show ?case using assms(1) by (simp add: map_nth [symmetric] list_eq_iff_nth_eq)
  next
    case (Suc m)
    then have "fold ?f [0..<Suc m] gs = ?f m (map (\<lambda>k. if k < m then min (gs ! k) (gs ! (k + 1)) else gs ! k) [0..<10])" by simp
    also have "\<dots> = map (\<lambda>k. if k < Suc m then min (gs ! k) (gs ! (k + 1)) else gs ! k) [0..<10]"
      using Suc.prems by (auto simp: list_eq_iff_nth_eq nth_list_update less_Suc_eq simp del: upt_Suc)
    finally show ?case .
  qed
  from this [of 9] show "advance_reductions gs ! k = (if k < 9 then min (gs ! k) (gs ! (k + 1)) else gs ! k)" "length (advance_reductions gs) = 10"
    using assms by (simp_all add: advance_reductions_def del: upt_Suc)
qed

section \<open>Applying the gains\<close>

lemma gain_ramp_exact:
  "\<forall>i<n. in_i32 (s + int (Suc i) * d) \<Longrightarrow> gain_ramp n s d = map (\<lambda>i. s + int i * d) [0..<n]"
proof (induction n arbitrary: s)
  case (Suc n)
  have "in_i32 (s + int (Suc 0) * d)" using Suc.prems by blast
  then have i: "i32 (s + d) = s + d" by (simp add: i32_id)
  have "in_i32 (s + d + int (Suc k) * d)" if "k < n" for k
  proof -
    have "in_i32 (s + int (Suc (Suc k)) * d)" using Suc.prems that by blast
    then show ?thesis by (simp add: algebra_simps)
  qed
  then have "gain_ramp n (s + d) d = map (\<lambda>i. s + d + int i * d) [0..<n]" by (intro Suc.IH) blast
  then show ?case by (simp add: i map_upt_Suc del: upt_Suc) (simp add: algebra_simps)
qed simp

text \<open>The gain at sample \<open>n\<close> of a sub frame: linear interpolation between the gains at its ends.\<close>

definition gain_at :: "nat \<Rightarrow> int \<Rightarrow> int \<Rightarrow> nat \<Rightarrow> int" where
  "gain_at L g0 g1 n = g0 + (g1 - g0) * int n div int L"

lemma gain_at_between:
  assumes "n \<le> L" "0 < L" "0 \<le> g0" "0 \<le> g1" "g0 \<le> m" "g1 \<le> m"
  shows "0 \<le> gain_at L g0 g1 n" and "gain_at L g0 g1 n \<le> m"
  using between_interpolation [of "int n" "int L" 0 g1 g0 m] assms by (simp_all add: gain_at_def)

text \<open>The two sizes of a sub frame.\<close>

definition subframe_size :: "nat \<Rightarrow> int \<Rightarrow> bool" where
  "subframe_size L L2 \<longleftrightarrow> L = 8 \<and> L2 = 3 \<or> L = 16 \<and> L2 = 4"

lemma subframe_ramp_exact:
  assumes "subframe_size L L2" "gain_fits g0" "gain_fits g1"
  shows "subframe_ramp L L2 g0 g1 = map (\<lambda>n. 16 * g0 + int n * ((g1 - g0) * (16 div int L))) [0..<L]"
    and "n < L \<Longrightarrow> shr (16 * g0 + int n * ((g1 - g0) * (16 div int L))) 4 = gain_at L g0 g1 n"
    and "n < L \<Longrightarrow> 0 \<le> 16 * g0 + int n * ((g1 - g0) * (16 div int L)) \<and> 16 * g0 + int n * ((g1 - g0) * (16 div int L)) \<le> 8388592"
proof -
  define d where "d = (g1 - g0) * (16 div int L)"
  have g: "0 \<le> g0" "g0 \<le> 524287" "0 \<le> g1" "g1 \<le> 524287" using assms by (simp_all add: gain_fits_def)
  have L: "0 < L" "16 div int L * int L = 16" using assms(1) by (auto simp: subframe_size_def)
  have s: "shl32 g0 4 = 16 * g0" using g by (simp add: shl32_def i32_id in_i32_def)
  have dd: "shl32 (i32 (g1 - g0)) (4 - L2) = d"
    using g assms(1) by (auto simp: shl32_def i32_id in_i32_def subframe_size_def d_def)
  have r: "0 \<le> 16 * g0 + int i * d \<and> 16 * g0 + int i * d \<le> 8388592" if "i \<le> L" for i
  proof -
    define c where "c = 16 div int L"
    have c: "0 \<le> c" "c * int L = 16" using L by (simp_all add: c_def pos_imp_zdiv_nonneg_iff)
    have "c * (g0 * (int L - int i) + g1 * int i) = g0 * (c * int L) + int i * ((g1 - g0) * c)" by (simp add: algebra_simps)
    then have e: "16 * g0 + int i * d = c * (g0 * (int L - int i) + g1 * int i)"
      unfolding c(2) d_def c_def [symmetric] by simp
    have "g0 * (int L - int i) + g1 * int i \<le> 524287 * (int L - int i) + 524287 * int i"
      using g that by (intro add_mono mult_right_mono) auto
    then have "c * (g0 * (int L - int i) + g1 * int i) \<le> c * (524287 * int L)" using c(1) by (intro mult_left_mono) (simp_all add: algebra_simps)
    also have "\<dots> = 8388592" using c(2) by (simp add: mult.left_commute [of c])
    finally show ?thesis unfolding e using g that c(1) by simp
  qed
  have "in_i32 (16 * g0 + int (Suc i) * d)" if "i < L" for i using r [of "Suc i"] that by (simp add: in_i32_def)
  then show "subframe_ramp L L2 g0 g1 = map (\<lambda>n. 16 * g0 + int n * ((g1 - g0) * (16 div int L))) [0..<L]"
    unfolding subframe_ramp_def s dd by (simp add: gain_ramp_exact d_def)
  assume n: "n < L"
  show "shr (16 * g0 + int n * ((g1 - g0) * (16 div int L))) 4 = gain_at L g0 g1 n"
  proof -
    have "(16 * g0 + int n * ((g1 - g0) * (16 div int L))) div 16 = g0 + int n * ((g1 - g0) * (16 div int L)) div 16"
      using div_mult_self3 [of 16 g0 "int n * ((g1 - g0) * (16 div int L))"] by (simp add: add.commute mult.commute)
    also have "int n * ((g1 - g0) * (16 div int L)) div 16 = (g1 - g0) * int n * (16 div int L) div (int L * (16 div int L))"
      using L(2) by (simp add: ac_simps)
    also have "\<dots> = (g1 - g0) * int n div int L" using L by (intro div_mult_mult2) auto
    finally show ?thesis by (simp add: shr_def gain_at_def)
  qed
  show "0 \<le> 16 * g0 + int n * ((g1 - g0) * (16 div int L)) \<and> 16 * g0 + int n * ((g1 - g0) * (16 div int L)) \<le> 8388592"
    using r [of n] n by (simp add: d_def)
qed

text \<open>A sample in a sub frame after the first: the product fits and nothing wraps around.\<close>

lemma scale_sample_exact:
  assumes "\<bar>x * shr g32 4\<bar> < 2147483648"
  shows "scale_sample x g32 = x * shr g32 4 div 65536" and "in_i16 (scale_sample x g32)"
proof -
  have "- 32768 * 65536 div 65536 \<le> x * shr g32 4 div 65536" using assms by (intro zdiv_mono1) auto
  moreover have "x * shr g32 4 div 65536 < 32768" using assms by (intro div_less_mult) auto
  ultimately have r: "in_i16 (x * shr g32 4 div 65536)" by (simp add: in_i16_def)
  have "i32 (x * shr g32 4) = x * shr g32 4" using assms by (simp add: i32_id in_i32_def abs_less_iff)
  then show "scale_sample x g32 = x * shr g32 4 div 65536"
    using r by (simp add: scale_sample_def i16_id shr_def [of _ 16])
  then show "in_i16 (scale_sample x g32)" using r by simp
qed

text \<open>A sample of the first sub frame, where the gain of the last frame may be too high: the output is the clamped product, up to 4.\<close>

lemma scale_first_clamps:
  assumes "in_i16 x" "0 \<le> g32" "g32 \<le> 8388592"
  shows "in_i16 (scale_first x g32)" and "\<bar>scale_first x g32 - clamp (- 32768) 32767 (x * shr g32 4 div 65536)\<bar> \<le> 4"
proof -
  define p h where "p = (g32 + 127) div 128" and "h = g32 div 16"
  have p: "0 \<le> p" "p \<le> 65536" "h \<le> 8 * p" "8 * p \<le> h + 8" "0 \<le> h" using assms(2,3) by (auto simp: p_def h_def)
  have x: "- 32768 \<le> x" "x \<le> 32767" using assms(1) by (simp_all add: in_i16_def)
  have sh: "shr g32 4 = h" "shr (i32 (g32 + 127)) 7 = p" using assms(2,3) by (simp_all add: shr_def h_def p_def i32_id in_i32_def)
  have "(- 32768) * p \<le> x * p" "x * p \<le> 32767 * p" using x p(1) by (intro mult_right_mono; simp)+
  then have xp: "- 2147483648 \<le> x * p" "x * p \<le> 2147483647" using p(2) by linarith+
  have f: "scale_first x g32 = (if x * p div 65536 > 4095 then 32767 else if x * p div 65536 < - 4096 then - 32768 else scale_sample x g32)"
    using xp unfolding scale_first_def Let_def sh by (simp add: i32_id in_i32_def shr_def)
  have hi: "x * p div 65536 > 4095 \<longleftrightarrow> 268435456 \<le> x * p" and lo: "x * p div 65536 < - 4096 \<longleftrightarrow> x * p < - 268435456"
    using div_ge_iff [of 65536 4096 "x * p"] div_ge_iff [of 65536 "- 4096" "x * p"] by auto
  have xh: "x * h \<le> 8 * (x * p)" "8 * (x * p) \<le> x * h + 8 * x" if "0 \<le> x"
    using mult_left_mono [OF p(3) that] mult_left_mono [OF p(4) that] by (simp_all add: algebra_simps)
  have xh': "8 * (x * p) \<le> x * h" "x * h + 8 * x \<le> 8 * (x * p)" if "x < 0"
    using mult_left_mono_neg [OF p(3), of x] mult_left_mono_neg [OF p(4), of x] that by (simp_all add: algebra_simps)
  consider "268435456 \<le> x * p" | "x * p < - 268435456" | "- 268435456 \<le> x * p" "x * p < 268435456" by linarith
  then have "in_i16 (scale_first x g32) \<and> \<bar>scale_first x g32 - clamp (- 32768) 32767 (x * h div 65536)\<bar> \<le> 4"
  proof cases
    case 1
    then have "0 \<le> x" using p(1) mult_nonpos_nonneg [of x p] by linarith
    then have "2147221512 div 65536 \<le> x * h div 65536" using xh 1 x by (intro zdiv_mono1) auto
    then show ?thesis using 1 unfolding f hi lo by (auto simp: in_i16_def clamp_def)
  next
    case 2
    then have "x < 0" using p(1) mult_nonneg_nonneg [of x p] by linarith
    then have "x * h < (- 32763) * 65536" using xh' 2 x by auto
    then have "x * h div 65536 < - 32763" by (intro div_less_mult) auto
    moreover have "\<not> 268435456 \<le> x * p" using 2 by simp
    ultimately show ?thesis using 2 unfolding f hi lo by (auto simp: in_i16_def clamp_def)
  next
    case 3
    have b: "- 2147483648 \<le> x * h" "x * h < 2147483648" using 3 xh xh' p(5) mult_nonneg_nonneg [of x h] mult_nonpos_nonneg [of x h] by linarith+
    have "(- 32768) * 65536 div 65536 \<le> x * h div 65536" using b by (intro zdiv_mono1) auto
    moreover have "x * h div 65536 < 32768" using b by (intro div_less_mult) auto
    ultimately have r: "in_i16 (x * h div 65536)" by (simp add: in_i16_def)
    have "i32 (x * h) = x * h" using b by (simp add: i32_id in_i32_def)
    then have "scale_sample x g32 = x * h div 65536" using r by (simp add: scale_sample_def sh i16_id shr_def [of _ 16])
    moreover have "\<not> 268435456 \<le> x * p" "\<not> x * p < - 268435456" using 3 by simp_all
    ultimately show ?thesis using r unfolding f hi lo by (simp add: clamp_def in_i16_def)
  qed
  then show "in_i16 (scale_first x g32)" "\<bar>scale_first x g32 - clamp (- 32768) 32767 (x * shr g32 4 div 65536)\<bar> \<le> 4"
    by (simp_all add: sh)
qed

text \<open>With gains of 8 and more the test for the overflow overflows itself: a loud sample comes out with the wrong sign.\<close>

lemma scale_first_overflow: "scale_first 20000 (shl32 1048576 4) = - 32768"
  by code_simp

section \<open>A frame\<close>

lemma max_energy_spec:
  assumes "list_all in_i16 xs"
  shows "env_ok (max_energy xs)" and "x \<in> set xs \<Longrightarrow> x * x \<le> max_energy xs"
proof -
  have sq: "i32 (y * y) = y * y \<and> 0 \<le> y * y \<and> y * y \<le> 1073741824" if "in_i16 y" for y
    using i16_mult_bound [OF that that] i32_mult_i16 [OF that that] by simp
  have "m \<le> fold (\<lambda>x m. let nrg = i32 (x * x) in if nrg > m then nrg else m) ys m \<and>
      (m \<le> 1073741824 \<longrightarrow> fold (\<lambda>x m. let nrg = i32 (x * x) in if nrg > m then nrg else m) ys m \<le> 1073741824) \<and>
      (\<forall>y\<in>set ys. y * y \<le> fold (\<lambda>x m. let nrg = i32 (x * x) in if nrg > m then nrg else m) ys m)" if "list_all in_i16 ys" for ys m
    using that
  proof (induction ys arbitrary: m)
    case (Cons y ys)
    have "in_i16 y" "list_all in_i16 ys" using Cons.prems by simp_all
    then show ?case using Cons.IH [of "if i32 (y * y) > m then i32 (y * y) else m"] sq [of y] by (auto simp: Let_def)
  qed simp
  from this [OF assms, of 0] show "env_ok (max_energy xs)" "x \<in> set xs \<Longrightarrow> x * x \<le> max_energy xs"
    unfolding max_energy_def env_ok_def by auto
qed

lemma subframe_gains_ok:
  assumes "- 65 \<le> decay" "decay \<le> 0"
  shows "follow_ok stt \<Longrightarrow> table_ok (gainTable stt) \<Longrightarrow> list_all env_ok es \<Longrightarrow> run (subframe_gain decay) stt es = (stt', gs) \<Longrightarrow>
     follow_ok stt' \<and> gainTable stt' = gainTable stt \<and> list_all gain_fits gs \<and> length gs = length es"
proof (induction es arbitrary: stt stt' gs)
  case (Cons e es)
  define s where "s = follow_envelope decay e stt"
  have s: "follow_ok s" "gainTable s = gainTable stt"
    using follow_envelope_ok [OF Cons.prems(1), of e decay] Cons.prems(3) assms by (simp_all add: s_def env_ok_def)
  then have c: "0 \<le> current_level s" "current_level s \<le> 1073741824" by (auto simp: follow_ok_def current_level_def)
  have g: "gain_fits (level_gain (gainTable s) (current_level s))"
    using level_gain_exact(2,3) [OF _ c, of "gainTable s"] Cons.prems(2) s(2) by (simp add: gain_fits_def)
  obtain t gs1 where r: "run (subframe_gain decay) s es = (t, gs1)" by fastforce
  have "subframe_gain decay stt e = (s, level_gain (gainTable s) (current_level s))" by (simp add: subframe_gain_def s_def Let_def)
  then have "stt' = t \<and> gs = level_gain (gainTable s) (current_level s) # gs1" using Cons.prems(4) r by simp
  then show ?case using Cons.IH [OF s(1) _ _ r] Cons.prems(2,3) s(2) g by simp
qed simp

lemma gate_value_keeps:
  "capacitorFast (fst (gate_value stt)) = capacitorFast stt" "capacitorSlow (fst (gate_value stt)) = capacitorSlow stt"
  "gainTable (fst (gate_value stt)) = gainTable stt"
  by (simp_all add: gate_value_def Let_def)

lemma concat_nth_uniform:
  "(\<forall>xs\<in>set xss. length xs = L) \<Longrightarrow> k < length xss \<Longrightarrow> n < L \<Longrightarrow> concat xss ! (k * L + n) = xss ! k ! n"
proof (induction xss arbitrary: k)
  case (Cons xs xss)
  then show ?case by (cases k) (auto simp: nth_append)
qed simp

definition agc_ok :: "DigitalAgc \<Rightarrow> bool" where
  "agc_ok stt \<longleftrightarrow> follow_ok stt \<and> table_ok (gainTable stt) \<and> gain_fits (gain stt)"

lemma gain_fits_iff: "list_all gain_fits gs \<longleftrightarrow> list_all (\<lambda>g. 0 \<le> g \<and> g \<le> 524287) gs"
  by (simp add: gain_fits_def [abs_def])

text \<open>The gains of a frame: both ends of a sub frame are at most a gain that is safe for it.\<close>

lemma frame_gains:
  assumes "list_all2 safe_gain es gs" "length es = 10" "k < 10"
  shows "gain_fits (advance_reductions gs ! k)" and "advance_reductions gs ! k \<le> gs ! k"
    and "0 < k \<Longrightarrow> advance_reductions gs ! (k - 1) \<le> gs ! k"
proof -
  have l: "length gs = 10" using assms by (metis list_all2_lengthD)
  have g: "gain_fits (gs ! i)" if "i < 10" for i using assms(1,2) that by (simp add: list_all2_conv_all_nth safe_gain_def)
  show "advance_reductions gs ! k \<le> gs ! k" using assms(3) l by (simp add: advance_reductions_nth)
  show "gain_fits (advance_reductions gs ! k)"
    using g [of k] g [of "k + 1"] assms(3) l by (auto simp: advance_reductions_nth gain_fits_def min_def)
  assume "0 < k"
  moreover have "k - 1 < 9" using assms(3) \<open>0 < k\<close> by simp
  ultimately show "advance_reductions gs ! (k - 1) \<le> gs ! k" using l by (simp add: advance_reductions_nth)
qed

section \<open>Correctness of a frame\<close>

text \<open>What the gains of a frame have to be for its loudest samples: \<open>gs\<close> are the eleven gains at the sub frame ends.\<close>

definition frame_gains_ok :: "int list \<Rightarrow> int list \<Rightarrow> bool" where
  "frame_gains_ok es gs \<longleftrightarrow> length gs = 11 \<and> (\<forall>k<11. gain_fits (gs ! k)) \<and>
     (\<forall>k. 0 < k \<and> k < 10 \<longrightarrow> (\<exists>g. safe_gain (es ! k) g \<and> gs ! k \<le> g \<and> gs ! (k + 1) \<le> g))"

lemma advanced_gains_ok:
  assumes "list_all2 safe_gain es gs" "length es = 10" "gain_fits g0"
  shows "frame_gains_ok es (g0 # advance_reductions gs)"
proof -
  have l: "length gs = 10" using assms(1,2) by (metis list_all2_lengthD)
  have "gain_fits ((g0 # advance_reductions gs) ! k)" if "k < 11" for k
    using frame_gains(1) [OF assms(1,2), of "k - 1"] assms(3) that by (cases k) auto
  moreover have "\<exists>g. safe_gain (es ! k) g \<and> (g0 # advance_reductions gs) ! k \<le> g \<and> (g0 # advance_reductions gs) ! (k + 1) \<le> g"
    if "0 < k \<and> k < 10" for k
  proof (intro exI conjI)
    show "safe_gain (es ! k) (gs ! k)" using assms(1,2) that by (simp add: list_all2_conv_all_nth)
    show "(g0 # advance_reductions gs) ! k \<le> gs ! k" using frame_gains(3) [OF assms(1,2), of k] that by (simp add: nth_Cons')
    show "(g0 # advance_reductions gs) ! (k + 1) \<le> gs ! k" using frame_gains(2) [OF assms(1,2), of k] that by simp
  qed
  ultimately show ?thesis using advance_reductions_nth(2) [OF l, of 0] by (simp add: frame_gains_ok_def)
qed

lemma subframe_bound: "k < 10 \<Longrightarrow> 10 * L \<le> m \<Longrightarrow> k * L + L \<le> m" for k L m :: nat
proof -
  assume a: "k < 10" "10 * L \<le> m"
  have "k * L + L = (k + 1) * L" by simp
  also have "\<dots> \<le> 10 * L" using a(1) by (intro mult_le_mono1) simp
  finally show ?thesis using a(2) by (rule order_trans)
qed

lemma nth_map2_ramp:
  assumes "subframe_size L L2" "gain_fits g0" "gain_fits g1" "length xs = L" "n < L"
  shows "map2 f xs (subframe_ramp L L2 g0 g1) ! n = f (xs ! n) (16 * g0 + int n * ((g1 - g0) * (16 div int L)))"
    and "length (map2 f xs (subframe_ramp L L2 g0 g1)) = L"
  using assms subframe_ramp_exact(1) [OF assms(1-3)] by simp_all

lemma apply_gains_split:
  assumes "subframe_size L L2" "frame_gains_ok es gs" "10 * L \<le> length band" "k < 10" "n < L"
  shows "apply_gains L L2 gs band ! (k * L + n) = (if k = 0 then scale_first else scale_sample) (band ! (k * L + n))
           (16 * gs ! k + int n * ((gs ! (k + 1) - gs ! k) * (16 div int L)))"
    and "length (apply_gains L L2 gs band) = 10 * L"
proof -
  have g: "gain_fits (gs ! k)" if "k < 11" for k using assms(2) that by (simp add: frame_gains_ok_def)
  have sl: "length (mem_slice band (k * L) L) = L" if "k < 10" for k using subframe_bound [OF that assms(3)] by simp
  have sn: "mem_slice band (k * L) L ! n = band ! (k * L + n)" using subframe_bound [OF assms(4,3)] assms(5) by (intro nth_mem_slice) auto
  define sub where "sub = (\<lambda>k. map2 (if k = 0 then scale_first else scale_sample) (mem_slice band (k * L) L)
    (subframe_ramp L L2 (gs ! k) (gs ! (k + 1))))"
  have ls: "length (sub k) = L" if "k < 10" for k
    unfolding sub_def using nth_map2_ramp(2) [OF assms(1) g g sl assms(5)] that by simp
  have e: "apply_gains L L2 gs band = concat (map sub [0..<10])"
  proof -
    have "[0..<10] = 0 # [1..<10]" by (simp add: upt_rec)
    moreover have "map sub [1..<10] = map (\<lambda>k. map2 scale_sample (mem_slice band (k * L) L) (subframe_ramp L L2 (gs ! k) (gs ! (k + 1)))) [1..<10]"
      by (intro map_cong) (auto simp: sub_def)
    ultimately have "concat (map sub [0..<10]) = sub 0 @ concat (map (\<lambda>k. map2 scale_sample (mem_slice band (k * L) L)
        (subframe_ramp L L2 (gs ! k) (gs ! (k + 1)))) [1..<10])" by (simp only: list.map concat.simps)
    then show ?thesis by (simp add: apply_gains_def sub_def)
  qed
  have u: "\<forall>xs\<in>set (map sub [0..<10]). length xs = L" using ls by auto
  have "apply_gains L L2 gs band ! (k * L + n) = sub k ! n"
    unfolding e using concat_nth_uniform [OF u, of k n] assms(4,5) by simp
  also have "\<dots> = (if k = 0 then scale_first else scale_sample) (mem_slice band (k * L) L ! n)
       (16 * gs ! k + int n * ((gs ! (k + 1) - gs ! k) * (16 div int L)))"
    unfolding sub_def using assms(4) by (intro nth_map2_ramp(1) [OF assms(1) g g sl assms(5)]) simp_all
  finally show "apply_gains L L2 gs band ! (k * L + n) = (if k = 0 then scale_first else scale_sample) (band ! (k * L + n))
      (16 * gs ! k + int n * ((gs ! (k + 1) - gs ! k) * (16 div int L)))" by (simp add: sn)
  have "map length (map sub [0..<10]) = replicate 10 L" using ls by (simp add: list_eq_iff_nth_eq)
  then show "length (apply_gains L L2 gs band) = 10 * L" by (simp add: e length_concat sum_list_replicate del: map_map)
qed

text \<open>The output for the band the gains were computed from.\<close>

lemma apply_gains_fits:
  assumes "subframe_size L L2" "frame_gains_ok es gs" "10 * L \<le> length band" "list_all in_i16 band" "k < 10" "n < L"
    and "es = map (\<lambda>k. max_energy (mem_slice band (k * L) L)) [0..<10]"
  defines "y \<equiv> apply_gains L L2 gs band ! (k * L + n)" and "p \<equiv> band ! (k * L + n) * gain_at L (gs ! k) (gs ! (k + 1)) n div 65536"
  shows "0 < k \<Longrightarrow> y = p" and "k = 0 \<Longrightarrow> \<bar>y - clamp (- 32768) 32767 p\<bar> \<le> 4" and "in_i16 y"
proof -
  define x where "x = band ! (k * L + n)"
  define g32 where "g32 = 16 * gs ! k + int n * ((gs ! (k + 1) - gs ! k) * (16 div int L))"
  have bd: "k * L + n < length band" "k * L + L \<le> length band" using subframe_bound [OF assms(5,3)] assms(6) by auto
  have x: "in_i16 x" using assms(4) bd(1) by (simp add: x_def list_all_length)
  have g: "gain_fits (gs ! k)" "gain_fits (gs ! (k + 1))" using assms(2,5) by (simp_all add: frame_gains_ok_def)
  have h: "shr g32 4 = gain_at L (gs ! k) (gs ! (k + 1)) n" "0 \<le> g32" "g32 \<le> 8388592"
    using subframe_ramp_exact(2,3) [OF assms(1) g assms(6)] by (simp_all add: g32_def)
  have y: "y = (if k = 0 then scale_first else scale_sample) x g32"
    unfolding y_def g32_def x_def by (rule apply_gains_split(1) [OF assms(1,2,3,5,6)])
  have p: "p = x * shr g32 4 div 65536" by (simp add: p_def x_def h)
  have later: "y = p \<and> in_i16 y" if k: "0 < k"
  proof -
    obtain g where sg: "safe_gain (es ! k) g" "gs ! k \<le> g" "gs ! (k + 1) \<le> g" using assms(2,5) k by (auto simp: frame_gains_ok_def)
    have "list_all in_i16 (mem_slice band (k * L) L)" using assms(4) by (auto simp: list_all_iff mem_slice_def dest: in_set_takeD in_set_dropD)
    moreover have "x \<in> set (mem_slice band (k * L) L)"
      using nth_mem_slice [OF assms(6) bd(2)] assms(6) bd(2) by (metis length_mem_slice nth_mem x_def)
    ultimately have "x * x \<le> es ! k" using max_energy_spec(2) assms(5,7) by simp
    moreover have "0 \<le> shr g32 4 \<and> shr g32 4 \<le> g"
      using gain_at_between [of n L "gs ! k" "gs ! (k + 1)" g] g sg(2,3) assms(6) h(1) by (simp add: gain_fits_def)
    ultimately have "\<bar>x * shr g32 4\<bar> < 2147483648" using sg(1) by (simp add: safe_gain_def)
    then show ?thesis using scale_sample_exact [of x g32] y k p by simp
  qed
  have first: "in_i16 y \<and> \<bar>y - clamp (- 32768) 32767 p\<bar> \<le> 4" if "k = 0"
    using scale_first_clamps [OF x h(2,3)] y p that by simp
  show "0 < k \<Longrightarrow> y = p" "k = 0 \<Longrightarrow> \<bar>y - clamp (- 32768) 32767 p\<bar> \<le> 4" "in_i16 y" using later first by blast+
qed

text \<open>The part of the instance that the gains depend on is not touched by the voice activity measure or the gate.\<close>

lemma gate_ok: "follow_ok stt \<Longrightarrow> follow_ok (fst (gate_value stt))"
  by (simp add: follow_ok_def gate_value_keeps)

text \<open>A frame, split into the computation of the gains and their application.\<close>

lemma ProcessDigital_gains:
  assumes "agc_ok stt" "FS \<in> {8000, 16000, 32000, 48000}" "list_all in_i16 band"
  defines "L \<equiv> if FS = 8000 then 8 else 16"
  defines "es \<equiv> map (\<lambda>k. max_energy (mem_slice (take (10 * L) band) (k * L) L)) [0..<10]"
  shows "\<exists>stt' gs. WebRtcAgc_ProcessDigital stt (band # upper) FS low =
      Some (stt', map (apply_gains L (if FS = 8000 then 3 else 4) gs) (map (take (10 * L)) (band # upper)), 0) \<and>
      frame_gains_ok es gs \<and> gs ! 0 = gain stt \<and> gain stt' = gs ! 10 \<and> agc_ok stt'"
proof -
  have LL: "(if FS = 8000 then (8, 3) else (16, 4)) = (L, if FS = 8000 then (3 :: int) else 4)" by (simp add: L_def)
  obtain vad lr where v: "WebRtcAgc_ProcessVad (vadNearend stt) (take (10 * L) band) (L * 10) = (vad, lr)" by fastforce
  define s1 where "s1 = stt\<lparr>vadNearend := vad\<rparr>"
  define lr' where "lr' = (if counter (vadFarend s1) > 10 then i16 (shr (3 * lr - logRatio (vadFarend s1)) 2) else lr)"
  define decay where "decay = decay_factor s1 lr' low"
  obtain s2 gs2 where r: "run (subframe_gain decay) s1 es = (s2, gs2)" by fastforce
  obtain s3 gate where gv: "gate_value s2 = (s3, gate)" by fastforce
  have ok: "follow_ok s1" "table_ok (gainTable s1)" "gain_fits (gain stt)" "gain s1 = gain stt" using assms(1) by (simp_all add: agc_ok_def s1_def follow_ok_def)
  have es: "list_all env_ok es" "length es = 10"
  proof -
    have "list_all in_i16 (mem_slice (take (10 * L) band) p n)" for p n
      using assms(3) by (auto simp: list_all_iff mem_slice_def dest: in_set_takeD in_set_dropD)
    then show "list_all env_ok es" "length es = 10" using max_energy_spec(1) by (simp_all add: es_def list_all_iff)
  qed
  have s2: "follow_ok s2" "gainTable s2 = gainTable s1" "list_all gain_fits gs2" "length gs2 = 10"
    using subframe_gains_ok [OF _ _ ok(1,2) es(1) r] decay_range es(2) by (simp_all add: decay_def)
  have s3: "follow_ok s3" "gainTable s3 = gainTable s1" using gate_ok [OF s2(1)] gate_value_keeps(3) [of s2] s2(2) gv by simp_all
  define gs3 where "gs3 = apply_gate (gainTable s3 ! 0) gate gs2"
  have t0: "0 \<le> gainTable s3 ! 0" "gainTable s3 ! 0 \<le> 524287" using table_okD [OF ok(2), of 0] s3(2) by simp_all
  have gs3: "list_all gain_fits gs3" "length gs3 = length es"
    using apply_gate_range [OF t0] s2(3,4) es(2) by (simp_all add: gs3_def gain_fits_iff)
  obtain gs4 where gs4: "limit_gains es gs3 = Some gs4" "list_all2 safe_gain es gs4" using limit_gains_spec [OF es(1) gs3] by blast
  define gs where "gs = gain stt # advance_reductions gs4"
  have fg: "frame_gains_ok es gs" unfolding gs_def by (rule advanced_gains_ok [OF gs4(2) es(2) ok(3)])
  have e0: "map (take (10 * L)) (band # upper) ! 0 = take (10 * L) band" by simp
  have "WebRtcAgc_ProcessDigital stt (band # upper) FS low =
      Some (s3\<lparr>gain := advance_reductions gs4 ! 9\<rparr>, map (apply_gains L (if FS = 8000 then 3 else 4) gs) (map (take (10 * L)) (band # upper)), 0)"
    unfolding WebRtcAgc_ProcessDigital_def Let_def LL prod.case e0 v s1_def [symmetric] lr'_def [symmetric] decay_def [symmetric]
      es_def [symmetric] r gv gs3_def [symmetric] gs4(1) option.case
    using assms(2) by (auto simp: gs_def ok(4))
  moreover have "agc_ok (s3\<lparr>gain := advance_reductions gs4 ! 9\<rparr>)"
    using s3 ok(2) fg by (auto simp: agc_ok_def follow_ok_def frame_gains_ok_def gs_def nth_Cons' dest!: spec [of _ 10])
  ultimately show ?thesis using fg by (intro exI [of _ "s3\<lparr>gain := advance_reductions gs4 ! 9\<rparr>"] exI [of _ gs]) (simp add: gs_def)
qed

text \<open>
  A band \<open>xs\<close> of ten sub frames of \<open>L\<close> samples and its output \<open>ys\<close>, for the gains \<open>gs\<close> at the ends of the sub frames: after the first sub frame, the product with the
  interpolated gain; in the first, the clamped product, up to 4.
\<close>

definition amplified :: "nat \<Rightarrow> int list \<Rightarrow> samples \<Rightarrow> samples \<Rightarrow> bool" where
  "amplified L gs xs ys \<longleftrightarrow> length ys = 10 * L \<and> list_all in_i16 ys \<and>
     (\<forall>k n. 0 < k \<and> k < 10 \<and> n < L \<longrightarrow> ys ! (k * L + n) = xs ! (k * L + n) * gain_at L (gs ! k) (gs ! (k + 1)) n div 65536) \<and>
     (\<forall>n<L. \<bar>ys ! n - clamp (- 32768) 32767 (xs ! n * gain_at L (gs ! 0) (gs ! 1) n div 65536)\<bar> \<le> 4)"

lemma frame_output:
  assumes "agc_ok stt" "FS \<in> {8000, 16000, 32000, 48000}" "list_all in_i16 band" "10 * (if FS = 8000 then 8 else 16) \<le> length band"
  shows "\<exists>stt' out gs. WebRtcAgc_ProcessDigital stt (band # upper) FS low = Some (stt', out, 0) \<and> agc_ok stt' \<and>
      length out = Suc (length upper) \<and> length gs = 11 \<and> gs ! 0 = gain stt \<and> gs ! 10 = gain stt' \<and>
      amplified (if FS = 8000 then 8 else 16) gs band (out ! 0)"
proof -
  define L L2 where "L = (if FS = 8000 then 8 else 16 :: nat)" and "L2 = (if FS = 8000 then 3 else 4 :: int)"
  define b where "b = take (10 * L) band"
  have sz: "subframe_size L L2" "0 < L" by (simp_all add: subframe_size_def L_def L2_def)
  have b: "list_all in_i16 b" "10 * L \<le> length b" "length b = 10 * L" using assms(3,4) by (auto simp: b_def L_def list_all_iff dest: in_set_takeD)
  have bn: "b ! i = band ! i" if "i < 10 * L" for i using that by (simp add: b_def)
  obtain stt' gs where p: "WebRtcAgc_ProcessDigital stt (band # upper) FS low = Some (stt', map (apply_gains L L2 gs) (map (take (10 * L)) (band # upper)), 0)"
    "frame_gains_ok (map (\<lambda>k. max_energy (mem_slice b (k * L) L)) [0..<10]) gs" "gs ! 0 = gain stt" "gain stt' = gs ! 10" "agc_ok stt'"
    using ProcessDigital_gains [OF assms(1-3), of upper low] unfolding L_def [symmetric] L2_def [symmetric] b_def [symmetric] by blast
  let ?y = "apply_gains L L2 gs b"
  have i: "k * L + n < 10 * L" if "k < 10" "n < L" for k n using subframe_bound [OF that(1) order_refl, of L] that(2) by linarith
  note fits = apply_gains_fits [OF sz(1) p(2) b(2,1) _ _ refl]
  have len: "length ?y = 10 * L" using apply_gains_split(2) [OF sz(1) p(2) b(2), of 0 0] sz(2) by simp
  have "in_i16 (?y ! j)" if "j < 10 * L" for j
    using fits(3) [of "j div L" "j mod L"] that sz(2) by (simp add: less_mult_imp_div_less)
  then have r: "list_all in_i16 ?y" by (simp add: list_all_length len)
  have later: "?y ! (k * L + n) = band ! (k * L + n) * gain_at L (gs ! k) (gs ! (k + 1)) n div 65536" if "0 < k \<and> k < 10 \<and> n < L" for k n
    using fits(1) [of k n] that bn [OF i [of k n]] by simp
  have first: "\<bar>?y ! n - clamp (- 32768) 32767 (band ! n * gain_at L (gs ! 0) (gs ! 1) n div 65536)\<bar> \<le> 4" if "n < L" for n
    using fits(2) [of 0 n] that bn [OF i [of 0 n]] by simp
  have "length gs = 11" using p(2) by (simp add: frame_gains_ok_def)
  moreover have "amplified L gs band ?y" unfolding amplified_def using len r later first by blast
  ultimately show ?thesis unfolding L_def [symmetric] using p(1,3,4,5)
    by (intro exI [of _ stt'] exI [of _ "map (apply_gains L L2 gs) (map (take (10 * L)) (band # upper))"] exI [of _ gs]) (simp add: b_def)
qed

text \<open>C39: a frame through the digital gain control, for a table of gains below 8: the search for a gain that does not overflow ends in every sub
  frame, the call succeeds, and the instance stays well-formed. There are eleven gains, the first the one the previous frame ended with and the last the one
  that is kept for the next, such that every sample of the lowest band after the first sub frame is multiplied by the gain interpolated linearly at its place,
  with nothing wrapping around; in the first sub frame, whose gain was fixed before its samples were known, the output is within 4 of the product clamped to 16 bits.\<close>

theorem digital_gain_frame:
  assumes "agc_ok stt" "FS \<in> {8000, 16000, 32000, 48000}" "list_all in_i16 band" "10 * (if FS = 8000 then 8 else 16) \<le> length band"
  shows "let L = (if FS = 8000 then 8 else 16) in
    \<exists>stt' out gs. WebRtcAgc_ProcessDigital stt (band # upper) FS low = Some (stt', out, 0) \<and> agc_ok stt' \<and>
      length out = Suc (length upper) \<and> length (out ! 0) = 10 * L \<and> list_all in_i16 (out ! 0) \<and>
      length gs = 11 \<and> gs ! 0 = gain stt \<and> gs ! 10 = gain stt' \<and>
      (\<forall>k n. 0 < k \<and> k < 10 \<and> n < L \<longrightarrow>
         out ! 0 ! (k * L + n) = band ! (k * L + n) * gain_at L (gs ! k) (gs ! (k + 1)) n div 65536) \<and>
      (\<forall>n<L. \<bar>out ! 0 ! n - clamp (- 32768) 32767 (band ! n * gain_at L (gs ! 0) (gs ! 1) n div 65536)\<bar> \<le> 4)"
  using frame_output [OF assms, of upper low] unfolding amplified_def Let_def by blast

theorem digital_gain_frame_witness:
  "\<exists>stt' out. WebRtcAgc_ProcessDigital \<lparr>capacitorSlow = 0, capacitorFast = 0, gain = 65536, gainTable = replicate 32 131072, gatePrevious = 0,
       agcMode = 3, vadNearend = WebRtcAgc_InitVad, vadFarend = WebRtcAgc_InitVad\<rparr> [replicate 80 20000] 8000 0 = Some (stt', out, 0) \<and>
     length (out ! 0) = 80 \<and> list_all in_i16 (out ! 0)"
proof -
  let ?s = "\<lparr>capacitorSlow = 0, capacitorFast = 0, gain = 65536, gainTable = replicate 32 131072, gatePrevious = 0,
       agcMode = 3, vadNearend = WebRtcAgc_InitVad, vadFarend = WebRtcAgc_InitVad\<rparr>"
  have "agc_ok ?s" "(8000 :: int) \<in> {8000, 16000, 32000, 48000}" "list_all in_i16 (replicate 80 20000)"
    "10 * (if (8000 :: int) = 8000 then 8 else 16) \<le> length (replicate 80 (20000 :: int))"
    by (simp_all add: agc_ok_def follow_ok_def table_ok_def gain_fits_def list_all_iff in_i16_def)
  from digital_gain_frame [OF this, of "[]" 0] show ?thesis by (auto simp: Let_def)
qed

section \<open>A session\<close>

lemma InitDigital_ok: "table_ok (gainTable stt) \<Longrightarrow> agc_ok (fst (WebRtcAgc_InitDigital stt mode))"
  by (simp add: WebRtcAgc_InitDigital_def agc_ok_def follow_ok_def gain_fits_def)

text \<open>The table of the caller is overwritten, or left alone with -1.\<close>

lemma table_memory:
  "WebRtcAgc_CalculateGainTable table dig target limiter analog =
     map_option (\<lambda>(t, r). (if r = 0 then t else table, r)) (WebRtcAgc_CalculateGainTable [] dig target limiter analog)"
proof -
  obtain a b c d where "table_params dig target analog = (a, b, c, d)" by (metis surj_pair)
  then show ?thesis by (simp add: WebRtcAgc_CalculateGainTable_def Let_def)
qed

text \<open>The tables for the default configuration, 9 dB of compression with the limiter and a target of 3 dB below the maximum: for the adaptive modes and for the fixed gain.\<close>

lemma fixed_table:
  "WebRtcAgc_CalculateGainTable [] 12 3 1 12 = Some
     ([32814, 45708, 65620, 91416, 131256, 170336, 179856, 181696, 181968, 181984, 182008, 182008, 181984, 182008, 182008, 181984,
       182008, 181984, 181984, 182008, 182008, 181984, 182008, 181984, 181968, 182008, 181984, 181984, 182008, 181984, 182008, 182008], 0)"
  by code_simp

lemma adaptive_table:
  "WebRtcAgc_CalculateGainTable [] 9 3 1 8 = Some
     ([32814, 45708, 65620, 91416, 121744, 129136, 130572, 130764, 130784, 130796, 130796, 130784, 130796, 130796, 130784, 130796,
       130796, 130784, 130796, 130796, 130784, 130796, 130796, 130784, 130796, 130796, 130784, 130796, 130796, 130796, 130796, 130796], 0)"
  by code_simp

lemma default_table:
  assumes "(dig, analog) \<in> {(9, 8), (12, 12)}"
  shows "\<exists>t. WebRtcAgc_CalculateGainTable table dig 3 1 analog = Some (t, 0) \<and> table_ok t"
  using assms adaptive_table fixed_table by (auto simp: table_memory [of table] table_ok_def)

text \<open>From 187 dB the approximation of the logarithm reads past the end of its table, although the index is checked before.\<close>

lemma table_overrun: "table_entry (table_params 187 3 4) 1 0 = None" and "fst (snd (table_params 187 3 4)) = 125"
  by code_simp+

text \<open>The calls of a session and their answers: the bands written and the return value, or \<open>None\<close> when the call hangs.\<close>

datatype agc_call = Far samples nat | Near "samples list" int int

definition agc_step :: "DigitalAgc \<Rightarrow> agc_call \<Rightarrow> DigitalAgc \<times> (samples list \<times> int) option" where
  "agc_step stt c =
     (case c of
        Far in_far nrSamples \<Rightarrow> (let (stt', r) = WebRtcAgc_AddFarendToDigital stt in_far nrSamples in (stt', Some ([], r)))
      | Near in_near FS low \<Rightarrow>
          (case WebRtcAgc_ProcessDigital stt in_near FS low of None \<Rightarrow> (stt, None) | Some (stt', out, r) \<Rightarrow> (stt', Some (out, r))))"

fun agc_call_ok :: "agc_call \<Rightarrow> bool" where
  "agc_call_ok (Far in_far nrSamples) = True"
| "agc_call_ok (Near in_near FS low) =
     (in_near \<noteq> [] \<and> list_all in_i16 (hd in_near) \<and> 10 * (if FS = 8000 then 8 else 16) \<le> length (hd in_near))"

fun agc_answer_ok :: "agc_call \<Rightarrow> (samples list \<times> int) option \<Rightarrow> bool" where
  "agc_answer_ok (Far in_far nrSamples) a = (a = Some ([], 0))"
| "agc_answer_ok (Near in_near FS low) a =
     (if FS \<in> {8000, 16000, 32000, 48000}
      then \<exists>out. a = Some (out, 0) \<and> length out = length in_near \<and>
             (\<exists>gs. length gs = 11 \<and> amplified (if FS = 8000 then 8 else 16) gs (hd in_near) (out ! 0))
      else a = Some ([], - 1))"

lemma agc_step_ok:
  assumes "agc_ok stt" "agc_call_ok c"
  shows "agc_ok (fst (agc_step stt c))" and "agc_answer_ok c (snd (agc_step stt c))"
proof -
  have "agc_ok (fst (agc_step stt c)) \<and> agc_answer_ok c (snd (agc_step stt c))"
  proof (cases c)
    case (Far in_far nrSamples)
    then show ?thesis using assms(1) by (simp add: agc_step_def WebRtcAgc_AddFarendToDigital_def agc_ok_def follow_ok_def)
  next
    case (Near in_near FS low)
    then obtain band upper where n: "in_near = band # upper" using assms(2) by (cases in_near) auto
    show ?thesis
    proof (cases "FS \<in> {8000, 16000, 32000, 48000}")
      case True
      have "list_all in_i16 band" "10 * (if FS = 8000 then 8 else 16) \<le> length band" using assms(2) Near n by simp_all
      from frame_output [OF assms(1) True this, of upper low] obtain stt' out gs where
        "WebRtcAgc_ProcessDigital stt (band # upper) FS low = Some (stt', out, 0)" "agc_ok stt'" "length out = Suc (length upper)"
        "length gs = 11" "amplified (if FS = 8000 then 8 else 16) gs band (out ! 0)" by blast
      then show ?thesis using Near n True by (auto simp: agc_step_def)
    next
      case False
      then show ?thesis using assms(1) Near by (simp add: agc_step_def WebRtcAgc_ProcessDigital_def)
    qed
  qed
  then show "agc_ok (fst (agc_step stt c))" "agc_answer_ok c (snd (agc_step stt c))" by simp_all
qed

interpretation agc: invariant_step agc_step agc_ok agc_call_ok "\<lambda>stt a. a \<noteq> None"
proof unfold_locales
  fix stt c
  assume a: "agc_ok stt" "agc_call_ok c"
  then show "agc_ok (fst (agc_step stt c))" by (rule agc_step_ok)
  show "snd (agc_step stt c) \<noteq> None" using agc_step_ok(2) [OF a] by (cases c) (auto split: if_splits)
qed

text \<open>C40: the digital gain control after initialisation in any mode, with a table of gains below 8, for any sequence of near and far end frames
  at any rate: no call hangs, every frame at a supported rate is answered with 0 and a frame whose lowest band is the input times
  gains that are interpolated between the sub frames and never let it wrap around, every other with -1, and the instance
  stays well-formed.\<close>

theorem digital_gain_session:
  assumes "table_ok (gainTable stt)" "list_all agc_call_ok calls"
  shows "list_all2 agc_answer_ok calls (snd (run agc_step (fst (WebRtcAgc_InitDigital stt mode)) calls)) \<and>
    agc_ok (fst (run agc_step (fst (WebRtcAgc_InitDigital stt mode)) calls))"
proof
  have "list_all2 agc_answer_ok calls (snd (run agc_step s calls))" if "agc_ok s" for s
    using assms(2) that
  proof (induction calls arbitrary: s)
    case (Cons c calls)
    then show ?case using agc_step_ok [of s c] by (simp add: split_def Let_def)
  qed simp
  then show "list_all2 agc_answer_ok calls (snd (run agc_step (fst (WebRtcAgc_InitDigital stt mode)) calls))"
    using InitDigital_ok [OF assms(1)] by blast
  show "agc_ok (fst (run agc_step (fst (WebRtcAgc_InitDigital stt mode)) calls))" using agc.run_inv [OF InitDigital_ok [OF assms(1)] assms(2)] .
qed

theorem digital_gain_session_witness:
  "\<exists>a1. snd (run agc_step (fst (WebRtcAgc_InitDigital \<lparr>capacitorSlow = 0, capacitorFast = 0, gain = 0,
       gainTable = fst (the (WebRtcAgc_CalculateGainTable [] 9 3 1 8)), gatePrevious = 0, agcMode = 0,
       vadNearend = WebRtcAgc_InitVad, vadFarend = WebRtcAgc_InitVad\<rparr> 2)) [Far (replicate 80 100) 80, Near [replicate 80 30000] 8000 0, Near [replicate 160 1] 44100 0])
     = [Some ([], 0), Some ([a1], 0), Some ([], - 1)] \<and> length a1 = 80 \<and> list_all in_i16 a1"
proof -
  let ?s = "\<lparr>capacitorSlow = 0, capacitorFast = 0, gain = 0,
       gainTable = fst (the (WebRtcAgc_CalculateGainTable [] 9 3 1 8)), gatePrevious = 0, agcMode = 0,
       vadNearend = WebRtcAgc_InitVad, vadFarend = WebRtcAgc_InitVad\<rparr>"
  have "table_ok (gainTable ?s)" by (simp add: adaptive_table table_ok_def)
  moreover have "list_all agc_call_ok [Far (replicate 80 100) 80, Near [replicate 80 30000] 8000 0, Near [replicate 160 1] 44100 0]"
    by (simp add: list_all_iff in_i16_def)
  ultimately show ?thesis using digital_gain_session [of ?s _ 2] by (fastforce simp: list_all2_Cons1 length_Suc_conv amplified_def)
qed

end
